(* ===== verification/Prelude.thy ===== *)
theory Prelude
  imports Main "HOL-Library.Word" "HOL-Library.Multiset"
begin

text \<open>
  Shared vocabulary of the development: the names of the model's identifiers, the error codes
  of \<^verbatim>\<open>neterr.h\<close> and of the C runtime, and the list and word lemmas several components use.
\<close>

unbundle bit_operations_syntax

section \<open>Identifiers\<close>

text \<open>Pointers to run-time objects are natural numbers; where the code tests a pointer for
  \<^verbatim>\<open>NULL\<close> the model has an option or the address 0, as said at each type.\<close>

type_synonym tid = nat
type_synonym cid = nat
type_synonym mid = nat
type_synonym ptr = nat
type_synonym utime = "32 word"
type_synonym u32 = "32 word"

section \<open>Error codes\<close>

named_theorems errno_defs

definition EPERM :: int where [errno_defs]: "EPERM = 1"
definition EINTR :: int where [errno_defs]: "EINTR = 4"
definition EBADF :: int where [errno_defs]: "EBADF = 9"
definition EAGAIN :: int where [errno_defs]: "EAGAIN = 11"
definition EACCES :: int where [errno_defs]: "EACCES = 13"
definition EFAULT :: int where [errno_defs]: "EFAULT = 14"
definition EBUSY :: int where [errno_defs]: "EBUSY = 16"
definition EINVAL :: int where [errno_defs]: "EINVAL = 22"
definition EMFILE :: int where [errno_defs]: "EMFILE = 24"
definition EDEADLK :: int where [errno_defs]: "EDEADLK = 36"
definition ENOTSOCK :: int where [errno_defs]: "ENOTSOCK = 216"
definition EDESTADDRREQ :: int where [errno_defs]: "EDESTADDRREQ = 217"
definition EMSGSIZE :: int where [errno_defs]: "EMSGSIZE = 218"
definition EPROTOTYPE :: int where [errno_defs]: "EPROTOTYPE = 219"
definition ENOPROTOOPT :: int where [errno_defs]: "ENOPROTOOPT = 220"
definition EOPNOTSUPP :: int where [errno_defs]: "EOPNOTSUPP = 223"
definition EADDRINUSE :: int where [errno_defs]: "EADDRINUSE = 226"
definition EADDRNOTAVAIL :: int where [errno_defs]: "EADDRNOTAVAIL = 227"
definition ECONNABORTED :: int where [errno_defs]: "ECONNABORTED = 231"
definition ECONNRESET :: int where [errno_defs]: "ECONNRESET = 232"
definition EISCONN :: int where [errno_defs]: "EISCONN = 234"
definition ENOTCONN :: int where [errno_defs]: "ENOTCONN = 235"
definition ETIMEDOUT :: int where [errno_defs]: "ETIMEDOUT = 238"
definition ECONNREFUSED :: int where [errno_defs]: "ECONNREFUSED = 239"
definition EHOSTUNREACH :: int where [errno_defs]: "EHOSTUNREACH = 242"

text \<open>\<^verbatim>\<open>md.h\<close> defines \<^verbatim>\<open>ETIME\<close> as \<^verbatim>\<open>ETIMEDOUT\<close>.\<close>

definition ETIME :: int where [errno_defs]: "ETIME = ETIMEDOUT"

section \<open>Lists\<close>

lemma remove1_notin [simp]: "x \<notin> set xs \<Longrightarrow> remove1 x xs = xs"
  by (rule remove1_idem)

lemma set_remove1_distinct [simp]: "distinct xs \<Longrightarrow> set (remove1 x xs) = set xs - {x}"
  by (rule set_remove1_eq)

lemma remove1_split:
  assumes "distinct (xs @ x # ys)"
  shows "remove1 x (xs @ x # ys) = xs @ ys"
  using assms by (simp add: remove1_append)

lemma hd_in_set: "xs \<noteq> [] \<Longrightarrow> hd xs \<in> set xs"
  by simp

section \<open>Words\<close>

text \<open>Sums of unsigned words, read as natural numbers: what a chain of 32-bit additions computes
  as long as no wrap-around happens.\<close>

lemma unat_plus_no_wrap:
  fixes a b :: u32
  assumes "unat a + unat b < 2 ^ 32"
  shows "unat (a + b) = unat a + unat b"
  using assms by (simp add: unat_word_ariths)

lemma unat_minus_le:
  fixes a b :: u32
  assumes "b \<le> a"
  shows "unat (a - b) = unat a - unat b"
  using assms by (simp add: unat_sub_if' word_le_nat_alt)

lemma unat_lt_2p32: "unat (a :: u32) < 4294967296"
  using unsigned_less [of a] by simp

end
