(* ===== verification/CList.thy ===== *)
theory CList
  imports Prelude
begin

text \<open>
  The circular doubly linked list macros of \<^verbatim>\<open>common.h\<close> on an explicit pointer store, and their
  refinement to list operations.  Every queue of the run-time (run, sleep, zombie, I/O queue,
  wait queues of condition variables and mutexes, the free list of stacks) is such a list, so the
  theories above work with lists and rest on the lemmas here.
\<close>

section \<open>The store and the macros\<close>

text \<open>\<^verbatim>\<open>struct _st_clist\<close>: two pointers at each address.\<close>

record st_clist =
  nxt :: "ptr \<Rightarrow> ptr"
  prv :: "ptr \<Rightarrow> ptr"

definition set_nxt :: "ptr \<Rightarrow> ptr \<Rightarrow> st_clist \<Rightarrow> st_clist" where
  "set_nxt p q s = s\<lparr>nxt := (nxt s)(p := q)\<rparr>"

definition set_prv :: "ptr \<Rightarrow> ptr \<Rightarrow> st_clist \<Rightarrow> st_clist" where
  "set_prv p q s = s\<lparr>prv := (prv s)(p := q)\<rparr>"

text \<open>The assignments of each macro, in the macro's order; a pointer is read in the state the
  assignments before it left.\<close>

definition ST_INSERT_BEFORE :: "ptr \<Rightarrow> ptr \<Rightarrow> st_clist \<Rightarrow> st_clist" where
  "ST_INSERT_BEFORE e l s0 =
     (let s1 = set_nxt e l s0;
          s2 = set_prv e (prv s1 l) s1;
          s3 = set_nxt (prv s2 l) e s2
      in set_prv l e s3)"

definition ST_INSERT_AFTER :: "ptr \<Rightarrow> ptr \<Rightarrow> st_clist \<Rightarrow> st_clist" where
  "ST_INSERT_AFTER e l s0 =
     (let s1 = set_nxt e (nxt s0 l) s0;
          s2 = set_prv e l s1;
          s3 = set_prv (nxt s2 l) e s2
      in set_nxt l e s3)"

definition ST_APPEND_LINK :: "ptr \<Rightarrow> ptr \<Rightarrow> st_clist \<Rightarrow> st_clist" where
  "ST_APPEND_LINK e l s = ST_INSERT_BEFORE e l s"

definition ST_INSERT_LINK :: "ptr \<Rightarrow> ptr \<Rightarrow> st_clist \<Rightarrow> st_clist" where
  "ST_INSERT_LINK e l s = ST_INSERT_AFTER e l s"

definition ST_LIST_HEAD :: "ptr \<Rightarrow> st_clist \<Rightarrow> ptr" where
  "ST_LIST_HEAD l s = nxt s l"

definition ST_LIST_TAIL :: "ptr \<Rightarrow> st_clist \<Rightarrow> ptr" where
  "ST_LIST_TAIL l s = prv s l"

definition ST_REMOVE_LINK :: "ptr \<Rightarrow> st_clist \<Rightarrow> st_clist" where
  "ST_REMOVE_LINK e s0 =
     (let s1 = set_nxt (prv s0 e) (nxt s0 e) s0
      in set_prv (nxt s1 e) (prv s1 e) s1)"

definition ST_CLIST_IS_EMPTY :: "ptr \<Rightarrow> st_clist \<Rightarrow> bool" where
  "ST_CLIST_IS_EMPTY l s = (nxt s l = l)"

definition ST_INIT_CLIST :: "ptr \<Rightarrow> st_clist \<Rightarrow> st_clist" where
  "ST_INIT_CLIST l s = set_prv l l (set_nxt l l s)"

lemmas clist_macro_defs =
  ST_INSERT_BEFORE_def ST_INSERT_AFTER_def ST_APPEND_LINK_def ST_INSERT_LINK_def
  ST_REMOVE_LINK_def ST_CLIST_IS_EMPTY_def ST_INIT_CLIST_def ST_LIST_HEAD_def ST_LIST_TAIL_def
  set_nxt_def set_prv_def Let_def

section \<open>The list a store represents\<close>

text \<open>\<open>dpath s a xs b\<close>: from \<open>a\<close>, following \<open>nxt\<close>, one meets \<open>xs\<close> and then \<open>b\<close>, and every
  \<open>prv\<close> link on the way points back.\<close>

fun dpath :: "st_clist \<Rightarrow> ptr \<Rightarrow> ptr list \<Rightarrow> ptr \<Rightarrow> bool" where
  "dpath s a [] b = (nxt s a = b \<and> prv s b = a)"
| "dpath s a (x # xs) b = (nxt s a = x \<and> prv s x = a \<and> dpath s x xs b)"

definition is_clist :: "st_clist \<Rightarrow> ptr \<Rightarrow> ptr list \<Rightarrow> bool" where
  "is_clist s l xs = (distinct (l # xs) \<and> dpath s l xs l)"

lemma dpath_append [simp]:
  "dpath s a (xs @ y # ys) b \<longleftrightarrow> dpath s a xs y \<and> dpath s y ys b"
  by (induction xs arbitrary: a) auto

lemma dpath_nxt_upd [simp]:
  "e \<notin> set (a # xs) \<Longrightarrow> dpath (s\<lparr>nxt := (nxt s)(e := v)\<rparr>) a xs b = dpath s a xs b"
  by (induction xs arbitrary: a) auto

lemma dpath_prv_upd [simp]:
  "e \<notin> set (b # xs) \<Longrightarrow> dpath (s\<lparr>prv := (prv s)(e := v)\<rparr>) a xs b = dpath s a xs b"
  by (induction xs arbitrary: a) auto

lemma dpath_frame:
  assumes "\<forall>p \<in> set (a # xs). nxt t p = nxt s p"
    and "\<forall>p \<in> set (b # xs). prv t p = prv s p"
  shows "dpath t a xs b = dpath s a xs b"
  using assms by (induction xs arbitrary: a) auto

lemma dpath_last: "dpath s a xs b \<Longrightarrow> prv s b = last (a # xs)"
  by (induction xs arbitrary: a) auto

lemma dpath_hd: "dpath s a xs b \<Longrightarrow> nxt s a = hd (xs @ [b])"
  by (cases xs) auto

text \<open>Redirecting the end of a path: the \<open>nxt\<close> link of its last node is the only one overwritten.\<close>

lemma dpath_redirect:
  assumes "dpath s a xs b" and "distinct (a # xs)"
    and "\<forall>p \<in> set (a # xs). nxt t p = (if p = last (a # xs) then c else nxt s p)"
    and "\<forall>p \<in> set xs. prv t p = prv s p" and "prv t c = last (a # xs)"
  shows "dpath t a xs c"
  using assms
proof (induction xs arbitrary: a)
  case Nil
  then show ?case by simp
next
  case (Cons x xs)
  then have "last (x # xs) \<noteq> a"
    by (metis distinct.simps(2) last_in_set list.discI)
  with Cons.prems have "nxt t a = x" and "prv t x = a" by auto
  moreover have "dpath t x xs c"
    by (rule Cons.IH) (use Cons.prems in auto)
  ultimately show ?case by simp
qed

section \<open>The macros refine list operations\<close>

lemma is_clist_hd: "is_clist s l xs \<Longrightarrow> nxt s l = hd (xs @ [l])"
  by (simp add: is_clist_def dpath_hd)

lemma is_clist_last: "is_clist s l xs \<Longrightarrow> prv s l = last (l # xs)"
  using dpath_last [of s l xs l] by (simp add: is_clist_def)

lemma is_clist_prv_split:
  "is_clist s l (xs @ ys) \<Longrightarrow> prv s (hd (ys @ [l])) = last (l # xs)"
  by (cases ys) (auto simp: is_clist_def dest: dpath_last)

lemma insert_before_refines:
  assumes cl: "is_clist s l (xs @ ys)" and new: "e \<notin> set (l # xs @ ys)"
  shows "is_clist (ST_INSERT_BEFORE e (hd (ys @ [l])) s) l (xs @ e # ys)"
proof -
  define q where "q = hd (ys @ [l])"
  define p where "p = last (l # xs)"
  define t where "t = ST_INSERT_BEFORE e q s"
  have pin: "p \<in> set (l # xs)" unfolding p_def by (rule last_in_set) simp
  have qin: "q \<in> set (ys @ [l])" unfolding q_def by (rule hd_in_set) simp
  have d: "distinct (l # xs @ ys)" using cl by (simp add: is_clist_def)
  have pq: "prv s q = p" unfolding p_def q_def using cl by (rule is_clist_prv_split)
  have ne: "e \<noteq> q" "e \<noteq> p" using new pin qin by auto
  have qxs: "q \<notin> set xs" using d qin by auto
  have pys: "p \<notin> set ys" using d pin by auto
  have tn: "nxt t = (nxt s)(e := q, p := e)" and tp: "prv t = (prv s)(e := p, q := e)"
    using ne pq by (auto simp: t_def clist_macro_defs)
  have left: "dpath t l xs e"
  proof (rule dpath_redirect [where b = q])
    show "dpath s l xs q" unfolding q_def using cl by (cases ys) (auto simp: is_clist_def)
    show "distinct (l # xs)" using d by simp
    show "\<forall>x \<in> set (l # xs). nxt t x = (if x = last (l # xs) then e else nxt s x)"
      using new by (auto simp: tn p_def)
    show "\<forall>x \<in> set xs. prv t x = prv s x" using new qxs by (auto simp: tp)
    show "prv t e = last (l # xs)" using ne by (simp add: tp p_def)
  qed
  have right: "dpath t e ys l"
  proof (cases ys)
    case Nil
    then have "q = l" by (simp add: q_def)
    then show ?thesis using Nil ne by (simp add: tn tp)
  next
    case (Cons y ys')
    then have q: "q = y" by (simp add: q_def)
    have "dpath s y ys' l" using cl Cons by (simp add: is_clist_def)
    moreover have "dpath t y ys' l = dpath s y ys' l"
      using Cons new d pys q by (intro dpath_frame) (auto simp: tn tp)
    ultimately show ?thesis using Cons ne q by (simp add: tn tp)
  qed
  have "is_clist t l (xs @ e # ys)" using left right d new by (auto simp: is_clist_def)
  then show ?thesis by (simp add: t_def q_def)
qed

lemma remove_link_refines:
  assumes cl: "is_clist s l (xs @ e # ys)"
  shows "is_clist (ST_REMOVE_LINK e s) l (xs @ ys)"
proof -
  define q where "q = hd (ys @ [l])"
  define p where "p = last (l # xs)"
  define t where "t = ST_REMOVE_LINK e s"
  have d: "distinct (l # xs @ e # ys)" using cl by (simp add: is_clist_def)
  have left: "dpath s l xs e" and right: "dpath s e ys l" using cl by (auto simp: is_clist_def)
  have pe: "prv s e = p" unfolding p_def using left by (rule dpath_last)
  have qe: "nxt s e = q" unfolding q_def using right by (rule dpath_hd)
  have pin: "p \<in> set (l # xs)" unfolding p_def by (rule last_in_set) simp
  have qin: "q \<in> set (ys @ [l])" unfolding q_def by (rule hd_in_set) simp
  have qxs: "q \<notin> set xs" using d qin by auto
  have pys: "p \<notin> set ys" using d pin by auto
  have ne: "e \<noteq> p" using d pin by auto
  have tn: "nxt t = (nxt s)(p := q)" and tp: "prv t = (prv s)(q := p)"
    using pe qe ne by (auto simp: t_def clist_macro_defs)
  have A: "dpath t l xs q"
  proof (rule dpath_redirect [OF left])
    show "distinct (l # xs)" using d by simp
    show "\<forall>x \<in> set (l # xs). nxt t x = (if x = last (l # xs) then q else nxt s x)"
      by (auto simp: tn p_def)
    show "\<forall>x \<in> set xs. prv t x = prv s x" using qxs by (auto simp: tp)
    show "prv t q = last (l # xs)" by (simp add: tp p_def)
  qed
  have "is_clist t l (xs @ ys)"
  proof (cases ys)
    case Nil
    then show ?thesis using A d by (simp add: is_clist_def q_def)
  next
    case (Cons y ys')
    then have q: "q = y" by (simp add: q_def)
    have "dpath t y ys' l = dpath s y ys' l"
      using Cons d pys q by (intro dpath_frame) (auto simp: tn tp)
    then have "dpath t y ys' l" using right Cons by simp
    then show ?thesis using A Cons d q by (simp add: is_clist_def)
  qed
  then show ?thesis by (simp add: t_def)
qed

lemma append_link_refines:
  assumes "is_clist s l xs" and "e \<notin> set (l # xs)"
  shows "is_clist (ST_APPEND_LINK e l s) l (xs @ [e])"
  using insert_before_refines [of s l xs "[]" e] assms by (simp add: ST_APPEND_LINK_def)

lemma insert_after_before:
  assumes "is_clist s l (xs @ ys)" and "e \<notin> set (l # xs @ ys)"
  shows "ST_INSERT_AFTER e (last (l # xs)) s = ST_INSERT_BEFORE e (hd (ys @ [l])) s"
proof -
  let ?q = "hd (ys @ [l])" and ?p = "last (l # xs)"
  have "prv s ?q = ?p" using assms(1) by (rule is_clist_prv_split)
  moreover have "nxt s ?p = ?q"
  proof (cases xs rule: rev_cases)
    case Nil
    then show ?thesis using assms(1) by (simp add: is_clist_hd)
  next
    case (snoc zs z)
    then have "dpath s z ys l" using assms(1) by (simp add: is_clist_def)
    then show ?thesis using snoc by (simp add: dpath_hd)
  qed
  moreover have "e \<noteq> ?p" "e \<noteq> ?q"
    using assms(2) last_in_set [of "l # xs"] hd_in_set [of "ys @ [l]"] by auto
  ultimately show ?thesis
    by (auto simp: clist_macro_defs intro!: st_clist.equality)
qed

lemma insert_link_refines:
  assumes "is_clist s l xs" and "e \<notin> set (l # xs)"
  shows "is_clist (ST_INSERT_LINK e l s) l (e # xs)"
  using insert_after_before [of s l "[]" xs e] insert_before_refines [of s l "[]" xs e] assms
  by (simp add: ST_INSERT_LINK_def)

lemma init_clist_refines: "is_clist (ST_INIT_CLIST l s) l []"
  by (simp add: is_clist_def clist_macro_defs)

lemma clist_is_empty_iff: "is_clist s l xs \<Longrightarrow> ST_CLIST_IS_EMPTY l s \<longleftrightarrow> xs = []"
  using hd_in_set [of "xs @ [l]"]
  by (cases xs) (auto simp: is_clist_def clist_macro_defs)

lemma clist_head: "is_clist s l (x # xs) \<Longrightarrow> ST_LIST_HEAD l s = x"
  by (simp add: ST_LIST_HEAD_def is_clist_hd)

lemma is_clist_unique: "is_clist s l xs \<Longrightarrow> is_clist s l ys \<Longrightarrow> xs = ys"
proof -
  have "xs = ys" if "dpath s a xs l" "dpath s a ys l" "l \<notin> set xs" "l \<notin> set ys" for a
    using that
  proof (induction xs arbitrary: a ys)
    case Nil
    then show ?case by (cases ys) auto
  next
    case (Cons x xs)
    then show ?case by (cases ys) auto
  qed
  then show "is_clist s l xs \<Longrightarrow> is_clist s l ys \<Longrightarrow> xs = ys"
    by (auto simp: is_clist_def)
qed

text \<open>The macros touch no other list: the run queue and the wait queues live in one store.\<close>

lemma insert_before_frame:
  assumes "is_clist s l (xs @ ys)" and "is_clist s l' zs"
    and "set (l' # zs) \<inter> set (e # l # xs @ ys) = {}"
  shows "is_clist (ST_INSERT_BEFORE e (hd (ys @ [l])) s) l' zs"
proof -
  let ?q = "hd (ys @ [l])" and ?p = "last (l # xs)"
  have "?p \<in> set (l # xs)" by (rule last_in_set) simp
  moreover have "?q \<in> set (ys @ [l])" by (rule hd_in_set) simp
  moreover have "prv s ?q = ?p" using assms(1) by (rule is_clist_prv_split)
  ultimately have "dpath (ST_INSERT_BEFORE e ?q s) l' zs l' = dpath s l' zs l'"
    using assms(3) by (intro dpath_frame) (auto simp: clist_macro_defs)
  then show ?thesis using assms(2) by (simp add: is_clist_def)
qed

lemma remove_link_frame:
  assumes "is_clist s l (xs @ e # ys)" and "is_clist s l' zs"
    and "set (l' # zs) \<inter> set (l # xs @ e # ys) = {}"
  shows "is_clist (ST_REMOVE_LINK e s) l' zs"
proof -
  let ?q = "hd (ys @ [l])" and ?p = "last (l # xs)"
  have "?p \<in> set (l # xs)" by (rule last_in_set) simp
  moreover have "?q \<in> set (ys @ [l])" by (rule hd_in_set) simp
  moreover have "prv s e = ?p" "nxt s e = ?q"
    using assms(1) by (auto simp: is_clist_def dest: dpath_last dpath_hd)
  ultimately have "dpath (ST_REMOVE_LINK e s) l' zs l' = dpath s l' zs l'"
    using assms(3) by (intro dpath_frame) (auto simp: clist_macro_defs)
  then show ?thesis using assms(2) by (simp add: is_clist_def)
qed

section \<open>The interface the queues of the run-time rely on\<close>

text \<open>What a client of the list macros may assume: \<open>rep s l xs\<close> reads the store \<open>s\<close> at the list
  head \<open>l\<close> as the list \<open>xs\<close>.\<close>

locale link_queue =
  fixes rep :: "'s \<Rightarrow> 'l \<Rightarrow> 'l list \<Rightarrow> bool"
    and init :: "'l \<Rightarrow> 's \<Rightarrow> 's"
    and append :: "'l \<Rightarrow> 'l \<Rightarrow> 's \<Rightarrow> 's"
    and unlink :: "'l \<Rightarrow> 's \<Rightarrow> 's"
    and head :: "'l \<Rightarrow> 's \<Rightarrow> 'l"
    and is_empty :: "'l \<Rightarrow> 's \<Rightarrow> bool"
  assumes rep_init: "rep (init l s) l []"
    and rep_append: "rep s l xs \<Longrightarrow> e \<notin> set (l # xs) \<Longrightarrow> rep (append e l s) l (xs @ [e])"
    and rep_unlink: "rep s l (xs @ e # ys) \<Longrightarrow> rep (unlink e s) l (xs @ ys)"
    and rep_head: "rep s l (x # xs) \<Longrightarrow> head l s = x"
    and rep_empty: "rep s l xs \<Longrightarrow> is_empty l s \<longleftrightarrow> xs = []"
begin

text \<open>Taking the head off, the way \<^verbatim>\<open>_st_vp_schedule\<close> pulls a thread off the run queue.\<close>

lemma unlink_head: "rep s l (x # xs) \<Longrightarrow> rep (unlink (head l s) s) l xs"
  using rep_unlink [of s l "[]" x xs] by (simp add: rep_head)

lemma append_all:
  assumes "rep s l xs" and "distinct (l # xs @ es)"
  shows "rep (fold (\<lambda>e. append e l) es s) l (xs @ es)"
  using assms
proof (induction es arbitrary: s xs)
  case Nil
  then show ?case by simp
next
  case (Cons e es)
  then have "rep (append e l s) l (xs @ [e])" by (intro rep_append) auto
  then have "rep (fold (\<lambda>e. append e l) es (append e l s)) l ((xs @ [e]) @ es)"
    using Cons.prems by (intro Cons.IH) auto
  then show ?case by simp
qed

text \<open>First in, first out: after the elements of \<open>es\<close> were appended to an empty list, the heads
  come off in the order of \<open>es\<close>.\<close>

fun pull :: "nat \<Rightarrow> 'l \<Rightarrow> 's \<Rightarrow> 'l list \<times> 's" where
  "pull 0 l s = ([], s)"
| "pull (Suc n) l s =
     (let h = head l s; r = pull n l (unlink h s) in (h # fst r, snd r))"

lemma pull_rep:
  "rep s l xs \<Longrightarrow> n \<le> length xs \<Longrightarrow>
   fst (pull n l s) = take n xs \<and> rep (snd (pull n l s)) l (drop n xs)"
proof (induction n arbitrary: s xs)
  case 0
  then show ?case by simp
next
  case (Suc n)
  then obtain x ys where xs: "xs = x # ys" by (cases xs) auto
  with Suc.prems have "head l s = x" and "rep (unlink x s) l ys"
    using rep_head unlink_head by metis+
  with Suc.IH [of "unlink x s" ys] Suc.prems xs show ?case by (simp add: Let_def)
qed

lemma fifo:
  assumes "rep s l []" and "distinct (l # es)"
  shows "fst (pull (length es) l (fold (\<lambda>e. append e l) es s)) = es"
  using pull_rep [OF append_all [of s l "[]" es], of "length es"] assms by simp

end

interpretation clist: link_queue is_clist ST_INIT_CLIST ST_APPEND_LINK ST_REMOVE_LINK
  ST_LIST_HEAD ST_CLIST_IS_EMPTY
  by unfold_locales
    (auto simp: init_clist_refines append_link_refines clist_head clist_is_empty_iff
      intro: remove_link_refines append_link_refines)

end
