(* ===== verification/Stk.thy ===== *)
theory Stk
  imports CList
begin

text \<open>
  Thread stacks (\<^verbatim>\<open>stk.cpp\<close>): the cache of free stacks, allocation and release, and the layout of
  a new thread's stack in \<^verbatim>\<open>st_thread_create\<close>.  Addresses and sizes are integers; the segment the
  operating system returns is an argument.
\<close>

section \<open>Stacks and the free list\<close>

record st_stack =
  vaddr :: int
  vaddr_size :: int
  stk_size :: int
  stk_bottom :: int
  stk_top :: int
  stk_sp :: int

text \<open>\<^verbatim>\<open>_st_free_stacks\<close> and \<^verbatim>\<open>_st_num_free_stacks\<close>.\<close>

record stack_cache =
  free_stacks :: "st_stack list"
  num_free_stacks :: int

text \<open>The loop of \<^verbatim>\<open>_st_stack_new\<close>: the first stack that is big enough, and the list without it.\<close>

fun find_stack :: "int \<Rightarrow> st_stack list \<Rightarrow> (st_stack \<times> st_stack list) option" where
  "find_stack sz [] = None"
| "find_stack sz (ts # qs) =
     (if stk_size ts \<ge> sz then Some (ts, qs)
      else case find_stack sz qs of None \<Rightarrow> None | Some (r, rest) \<Rightarrow> Some (r, ts # rest))"

text \<open>\<^verbatim>\<open>REDZONE\<close> is one page.  \<open>calloc_ok\<close>: whether \<^verbatim>\<open>calloc\<close> of the stack object succeeds; \<open>seg\<close>: what
  \<^verbatim>\<open>_st_new_stk_segment\<close> gets from the operating system for a size.\<close>

definition st_new_stack :: "int \<Rightarrow> int \<Rightarrow> int \<Rightarrow> st_stack" where
  "st_new_stack page addr stack_size =
     (let bottom = addr + page
      in \<lparr>vaddr = addr, vaddr_size = stack_size + 2 * page, stk_size = stack_size,
          stk_bottom = bottom, stk_top = bottom + stack_size, stk_sp = 0\<rparr>)"

definition st_stack_new ::
  "int \<Rightarrow> bool \<Rightarrow> (int \<Rightarrow> int option) \<Rightarrow> int \<Rightarrow> stack_cache \<Rightarrow> st_stack option \<times> stack_cache" where
  "st_stack_new page calloc_ok seg stack_size c =
     (case find_stack stack_size (free_stacks c) of
        Some (ts, rest) \<Rightarrow>
          (Some ts, \<lparr>free_stacks = rest, num_free_stacks = num_free_stacks c - 1\<rparr>)
      | None \<Rightarrow>
          if \<not> calloc_ok then (None, c)
          else case seg (stack_size + 2 * page) of
                 None \<Rightarrow> (None, c)
               | Some addr \<Rightarrow> (Some (st_new_stack page addr stack_size), c))"

text \<open>\<^verbatim>\<open>_st_stack_free\<close> appends to the list headed by \<^verbatim>\<open>_st_free_stacks.prev\<close>, the last element: the
  stack goes in front of the last one (into an empty list, it becomes the only one).\<close>

definition st_stack_free :: "st_stack option \<Rightarrow> stack_cache \<Rightarrow> stack_cache" where
  "st_stack_free ts c =
     (case ts of
        None \<Rightarrow> c
      | Some s \<Rightarrow>
          \<lparr>free_stacks =
             (if free_stacks c = [] then [s]
              else butlast (free_stacks c) @ [s, last (free_stacks c)]),
           num_free_stacks = num_free_stacks c + 1\<rparr>)"

section \<open>Sizes and layout in thread creation\<close>

definition ST_DEFAULT_STACK_SIZE :: int where "ST_DEFAULT_STACK_SIZE = 64 * 1024"

definition MD_STACK_PAD_SIZE :: int where "MD_STACK_PAD_SIZE = 128"

text \<open>The size adjustment at the start of \<^verbatim>\<open>st_thread_create\<close>; C's division of the non-negative
  numerator is \<open>div\<close>.\<close>

definition adjust_stk_size :: "int \<Rightarrow> int \<Rightarrow> int" where
  "adjust_stk_size page requested =
     (let sz = (if requested = 0 then ST_DEFAULT_STACK_SIZE else requested)
      in ((sz + page - 1) div page) * page)"

text \<open>The layout below the top of the stack (\<^verbatim>\<open>MD_STACK_GROWS_DOWN\<close>): the key slots, the thread
  object, then the 64-byte aligned stack pointer above the pad.  \<open>ptr_size\<close> and \<open>thread_size\<close> are
  the compiler's \<^verbatim>\<open>sizeof(void *)\<close> and \<^verbatim>\<open>sizeof(st_thread_t)\<close>.\<close>

definition stack_layout :: "int \<Rightarrow> int \<Rightarrow> st_stack \<Rightarrow> int \<times> int \<times> int" where
  "stack_layout ptr_size thread_size stack =
     (let ptds = stk_top stack - 16 * ptr_size;
          thread = ptds - thread_size;
          sp = (if thread mod 64 \<noteq> 0 then thread - thread mod 64 else thread)
      in (ptds, thread, sp - MD_STACK_PAD_SIZE))"

section \<open>Properties\<close>

lemma find_stack_Some:
  "find_stack sz qs = Some (ts, rest) \<Longrightarrow>
   sz \<le> stk_size ts \<and>
   (\<exists>pre post. qs = pre @ ts # post \<and> rest = pre @ post \<and> (\<forall>s \<in> set pre. stk_size s < sz))"
proof (induction qs arbitrary: rest)
  case Nil
  then show ?case by simp
next
  case (Cons q qs)
  show ?case
  proof (cases "stk_size q \<ge> sz")
    case True
    then show ?thesis using Cons.prems by (auto intro: exI [of _ "[]"])
  next
    case False
    then obtain rest' where "find_stack sz qs = Some (ts, rest')" and rest: "rest = q # rest'"
      using Cons.prems by (auto split: option.splits)
    from Cons.IH [OF this(1)] obtain pre post where
      "sz \<le> stk_size ts" "qs = pre @ ts # post" "rest' = pre @ post" "\<forall>s \<in> set pre. stk_size s < sz"
      by auto
    then show ?thesis using False rest
      by (intro conjI exI [of _ "q # pre"] exI [of _ post]) auto
  qed
qed

lemma find_stack_None: "find_stack sz qs = None \<longleftrightarrow> (\<forall>s \<in> set qs. stk_size s < sz)"
  by (induction qs) (auto split: option.splits)

definition cache_ok :: "stack_cache \<Rightarrow> bool" where
  "cache_ok c = (num_free_stacks c = int (length (free_stacks c)))"

lemma stack_new_cached:
  assumes "find_stack n (free_stacks c) = Some (ts, rest)"
  shows "st_stack_new page ok seg n c =
    (Some ts, \<lparr>free_stacks = rest, num_free_stacks = num_free_stacks c - 1\<rparr>)"
  using assms by (simp add: st_stack_new_def)

lemma stack_new_fresh:
  assumes "find_stack n (free_stacks c) = None"
  shows "st_stack_new page ok seg n c =
    (if ok then map_option (\<lambda>a. st_new_stack page a n) (seg (n + 2 * page)) else None, c)"
  using assms by (simp add: st_stack_new_def split: option.split)

lemma stack_new_cache_ok:
  assumes "cache_ok c"
  shows "cache_ok (snd (st_stack_new page ok seg n c))"
  using assms
  by (auto simp: st_stack_new_def cache_ok_def split: option.split dest!: find_stack_Some)

lemma stack_new_size:
  assumes "fst (st_stack_new page ok seg n c) = Some ts"
  shows "n \<le> stk_size ts"
  using assms
  by (auto simp: st_stack_new_def st_new_stack_def Let_def split: option.splits if_splits
      dest!: find_stack_Some)

lemma stack_free_cache_ok: "cache_ok c \<Longrightarrow> cache_ok (st_stack_free ts c)"
  by (auto simp: st_stack_free_def cache_ok_def split: option.split)

lemma stack_free_mset:
  "mset (free_stacks (st_stack_free (Some s) c)) = add_mset s (mset (free_stacks c))"
proof (cases "free_stacks c" rule: rev_cases)
  case Nil
  then show ?thesis by (simp add: st_stack_free_def)
next
  case (snoc qs q)
  then show ?thesis by (simp add: st_stack_free_def)
qed

text \<open>On the pointer store, \<^verbatim>\<open>ST_APPEND_LINK(&ts->links, _st_free_stacks.prev)\<close> does what
  \<open>st_stack_free\<close> does to the list.\<close>

lemma stack_free_link:
  assumes "is_clist s l (xs @ [z])" and "e \<notin> set (l # xs @ [z])"
  shows "is_clist (ST_APPEND_LINK e (ST_LIST_TAIL l s) s) l (xs @ [e, z])"
  using insert_before_refines [of s l xs "[z]" e] assms
  by (simp add: ST_APPEND_LINK_def ST_LIST_TAIL_def is_clist_last)

lemma adjust_stk_size_bounds:
  assumes "0 < page" and "0 \<le> n"
  shows "adjust_stk_size page n mod page = 0"
    and "(if n = 0 then ST_DEFAULT_STACK_SIZE else n) \<le> adjust_stk_size page n"
    and "adjust_stk_size page n < (if n = 0 then ST_DEFAULT_STACK_SIZE else n) + page"
proof -
  define k where "k = (if n = 0 then ST_DEFAULT_STACK_SIZE else n)"
  have adj: "adjust_stk_size page n = (k + page - 1) div page * page"
    by (simp add: adjust_stk_size_def k_def)
  have split: "(k + page - 1) div page * page = k + page - 1 - (k + page - 1) mod page"
    by (simp add: minus_mod_eq_div_mult)
  have "0 \<le> (k + page - 1) mod page" "(k + page - 1) mod page < page" using assms by simp_all
  then show "adjust_stk_size page n mod page = 0"
    "(if n = 0 then ST_DEFAULT_STACK_SIZE else n) \<le> adjust_stk_size page n"
    "adjust_stk_size page n < (if n = 0 then ST_DEFAULT_STACK_SIZE else n) + page"
    unfolding k_def [symmetric] by (simp_all add: adj split)
qed

lemma stack_layout_bounds:
  assumes "stack_layout ptr_size thread_size st = (ptds, thread, sp)"
  shows "thread + thread_size = ptds" and "ptds + 16 * ptr_size = stk_top st"
    and "(sp + MD_STACK_PAD_SIZE) mod 64 = 0"
    and "sp + MD_STACK_PAD_SIZE \<le> thread" and "thread - 63 \<le> sp + MD_STACK_PAD_SIZE"
proof -
  have t: "thread = stk_top st - 16 * ptr_size - thread_size" "ptds = stk_top st - 16 * ptr_size"
    and s: "sp + MD_STACK_PAD_SIZE = thread - thread mod 64"
    using assms by (auto simp: stack_layout_def Let_def)
  show "thread + thread_size = ptds" "ptds + 16 * ptr_size = stk_top st" using t by simp_all
  show "(sp + MD_STACK_PAD_SIZE) mod 64 = 0" unfolding s by (simp add: mod_eq_0_iff_dvd)
  have "0 \<le> thread mod 64" "thread mod 64 < 64" by simp_all
  then show "sp + MD_STACK_PAD_SIZE \<le> thread" "thread - 63 \<le> sp + MD_STACK_PAD_SIZE"
    unfolding s by simp_all
qed

end
