(* ===== verification/Vp.thy ===== *)
theory Vp
  imports Stk
begin

text \<open>
  The data of the state-threads run-time (\<^verbatim>\<open>common.h\<close>): thread states and flags, the thread object,
  and the virtual processor with its queues.  A queue is the list of the threads linked into it;
  \<open>CList\<close> shows that the list macros of the code compute exactly these list operations.
\<close>

section \<open>Thread states\<close>

datatype tstate =
    ST_RUNNING | ST_RUNNABLE | ST_IO_WAIT | ST_LOCK_WAIT | ST_COND_WAIT | ST_SLEEPING | ST_ZOMBIE

text \<open>The numbers of \<^verbatim>\<open>_ST_ST_RUNNING\<close> \dots \<^verbatim>\<open>_ST_ST_ZOMBIE\<close>.\<close>

fun tstate_code :: "tstate \<Rightarrow> int" where
  "tstate_code ST_RUNNING = 0"
| "tstate_code ST_RUNNABLE = 1"
| "tstate_code ST_IO_WAIT = 2"
| "tstate_code ST_LOCK_WAIT = 3"
| "tstate_code ST_COND_WAIT = 4"
| "tstate_code ST_SLEEPING = 5"
| "tstate_code ST_ZOMBIE = 6"

section \<open>Thread flags\<close>

datatype tflag = FL_PRIMORDIAL | FL_IDLE_THREAD | FL_ON_SLEEPQ | FL_INTERRUPT | FL_TIMEDOUT

fun flag_mask :: "tflag \<Rightarrow> u32" where
  "flag_mask FL_PRIMORDIAL = 0x01"
| "flag_mask FL_IDLE_THREAD = 0x02"
| "flag_mask FL_ON_SLEEPQ = 0x04"
| "flag_mask FL_INTERRUPT = 0x08"
| "flag_mask FL_TIMEDOUT = 0x10"

text \<open>The three uses of a flag in the code: \<^verbatim>\<open>flags & F\<close>, \<^verbatim>\<open>flags |= F\<close>, \<^verbatim>\<open>flags &= ~F\<close>.\<close>

definition has_flag :: "u32 \<Rightarrow> tflag \<Rightarrow> bool" where
  "has_flag w f = (w AND flag_mask f \<noteq> 0)"

definition set_flag :: "u32 \<Rightarrow> tflag \<Rightarrow> u32" where
  "set_flag w f = w OR flag_mask f"

definition clr_flag :: "u32 \<Rightarrow> tflag \<Rightarrow> u32" where
  "clr_flag w f = w AND NOT (flag_mask f)"

fun flag_bit :: "tflag \<Rightarrow> nat" where
  "flag_bit FL_PRIMORDIAL = 0"
| "flag_bit FL_IDLE_THREAD = 1"
| "flag_bit FL_ON_SLEEPQ = 2"
| "flag_bit FL_INTERRUPT = 3"
| "flag_bit FL_TIMEDOUT = 4"

lemma flag_mask_bit: "flag_mask f = 2 ^ flag_bit f"
  by (cases f) simp_all

lemma flag_bit_less [simp]: "flag_bit f < 32"
  by (cases f) simp_all

lemma flag_bit_inj [simp]: "flag_bit f = flag_bit g \<longleftrightarrow> f = g"
  by (cases f; cases g) simp_all

lemma bit_flag_mask: "bit (flag_mask f) n \<longleftrightarrow> n = flag_bit f"
  using flag_bit_less [of f] by (auto simp: flag_mask_bit bit_exp_iff possible_bit_word)

lemma has_flag_bit: "has_flag w f \<longleftrightarrow> bit w (flag_bit f)"
proof
  assume "has_flag w f"
  then obtain n where "bit (w AND flag_mask f) n"
    unfolding has_flag_def by (metis bit_0_eq bit_word_eqI bot_apply bot_bool_def)
  then show "bit w (flag_bit f)" by (auto simp: bit_and_iff bit_flag_mask)
next
  assume "bit w (flag_bit f)"
  then have "bit (w AND flag_mask f) (flag_bit f)" by (simp add: bit_and_iff bit_flag_mask)
  then show "has_flag w f" unfolding has_flag_def by (metis bit_0_eq bot_apply bot_bool_def)
qed

lemma has_set_flag [simp]: "has_flag (set_flag w f) g \<longleftrightarrow> f = g \<or> has_flag w g"
  by (auto simp: has_flag_bit set_flag_def bit_or_iff bit_flag_mask)

lemma has_clr_flag [simp]: "has_flag (clr_flag w f) g \<longleftrightarrow> f \<noteq> g \<and> has_flag w g"
  by (auto simp: has_flag_bit clr_flag_def bit_and_iff bit_not_iff bit_flag_mask)

lemma has_flag_0 [simp]: "\<not> has_flag 0 f"
  by (simp add: has_flag_bit)

lemma has_flag_mask [simp]: "has_flag (flag_mask f) g \<longleftrightarrow> f = g"
  by (auto simp: has_flag_bit bit_flag_mask)

section \<open>The thread object\<close>

text \<open>
  \<^verbatim>\<open>jmp_buf context\<close> records where a switched-out thread resumes.  The model names the places the
  code can be switched out at: a fresh thread resumes in \<^verbatim>\<open>_st_thread_main\<close>, the idle thread in its
  loop, a blocked thread after the \<^verbatim>\<open>_ST_SWITCH_CONTEXT\<close> of the function that blocked it.
  \<open>RUser\<close> is the code of the thread itself, outside the run-time; the \<open>RIdle\<close> points are the
  places in \<^verbatim>\<open>_st_vp_idle\<close> and the idle loop between which other operating system threads may run.
\<close>

datatype resume =
    RUser | RMain | RIdle | RIdleDrain | RIdleReset | RIdleClock
  | RWait | RUsleep | RCond cid | RMutex mid | RJoin tid cid | RExit | RDead

record st_thread =
  t_state :: tstate
  t_flags :: u32
  t_start :: nat
  t_arg :: ptr
  t_retval :: ptr
  t_stack :: "st_stack option"
  t_sleep :: utime
  t_private :: "ptr list"
  t_term :: "cid option"
  t_context :: resume

text \<open>\<^verbatim>\<open>calloc\<close> and \<^verbatim>\<open>memset\<close> give a thread object of zeros, and \<^verbatim>\<open>ST_KEYS_MAX\<close> null slots of private
  data behind it.\<close>

definition ST_KEYS_MAX :: int where "ST_KEYS_MAX = 16"

definition zero_thread :: st_thread where
  "zero_thread = \<lparr>t_state = ST_RUNNING, t_flags = 0, t_start = 0, t_arg = 0, t_retval = 0,
     t_stack = None, t_sleep = 0, t_private = replicate 16 0, t_term = None,
     t_context = RDead\<rparr>"

section \<open>The virtual processor\<close>

text \<open>\<^verbatim>\<open>struct _st_mutex\<close>.\<close>

record st_mutex =
  owner :: "tid option"
  m_wait_q :: "tid list"

text \<open>
  \<^verbatim>\<open>st_vp_t\<close>, the globals of \<^verbatim>\<open>sched_win.cpp\<close> and the heap of condition variables and mutexes
  (\<open>None\<close>: not allocated, or freed).  \<open>compl\<close> is the content of \<^verbatim>\<open>_st_lock_free_queue\<close>, the threads
  whose I/O completed, and \<open>notify_event\<close> the state of the manual-reset event.  \<open>stacks\<close> holds the
  globals of \<^verbatim>\<open>stk.cpp\<close>; \<open>key_max\<close> and \<open>destructors\<close> those of \<^verbatim>\<open>key.cpp\<close>, a function pointer being
  an address and 0 the null pointer; \<open>dtor_log\<close> records the calls of destructors.
\<close>

record st_vp =
  thr :: "tid \<Rightarrow> st_thread"
  idle_thread :: tid
  last_clock :: utime
  run_q :: "tid list"
  io_q :: "tid list"
  sleep_q :: "tid list"
  zombie_q :: "tid list"
  sleep_max :: utime
  this_thread :: tid
  active_count :: int
  curr_time :: int
  last_tset :: utime
  conds :: "cid \<Rightarrow> tid list option"
  mutexes :: "mid \<Rightarrow> st_mutex option"
  compl :: "tid list"
  notify_event :: bool
  errno :: int
  exited :: bool
  stacks :: stack_cache
  key_max :: int
  destructors :: "ptr list"
  dtor_log :: "(ptr \<times> ptr) list"

section \<open>Field access\<close>

abbreviation state_of :: "st_vp \<Rightarrow> tid \<Rightarrow> tstate" where
  "state_of v t \<equiv> t_state (thr v t)"

abbreviation flags_of :: "st_vp \<Rightarrow> tid \<Rightarrow> u32" where
  "flags_of v t \<equiv> t_flags (thr v t)"

abbreviation sleep_of :: "st_vp \<Rightarrow> tid \<Rightarrow> utime" where
  "sleep_of v t \<equiv> t_sleep (thr v t)"

abbreviation context_of :: "st_vp \<Rightarrow> tid \<Rightarrow> resume" where
  "context_of v t \<equiv> t_context (thr v t)"

definition upd :: "tid \<Rightarrow> (st_thread \<Rightarrow> st_thread) \<Rightarrow> st_vp \<Rightarrow> st_vp" where
  "upd t f v = v\<lparr>thr := (thr v)(t := f (thr v t))\<rparr>"

definition set_state :: "tid \<Rightarrow> tstate \<Rightarrow> st_vp \<Rightarrow> st_vp" where
  "set_state t s = upd t (\<lambda>r. r\<lparr>t_state := s\<rparr>)"

definition set_sleep :: "tid \<Rightarrow> utime \<Rightarrow> st_vp \<Rightarrow> st_vp" where
  "set_sleep t x = upd t (\<lambda>r. r\<lparr>t_sleep := x\<rparr>)"

definition add_flag :: "tid \<Rightarrow> tflag \<Rightarrow> st_vp \<Rightarrow> st_vp" where
  "add_flag t f = upd t (\<lambda>r. r\<lparr>t_flags := set_flag (t_flags r) f\<rparr>)"

definition del_flag :: "tid \<Rightarrow> tflag \<Rightarrow> st_vp \<Rightarrow> st_vp" where
  "del_flag t f = upd t (\<lambda>r. r\<lparr>t_flags := clr_flag (t_flags r) f\<rparr>)"

definition set_context :: "tid \<Rightarrow> resume \<Rightarrow> st_vp \<Rightarrow> st_vp" where
  "set_context t c = upd t (\<lambda>r. r\<lparr>t_context := c\<rparr>)"

definition set_errno :: "int \<Rightarrow> st_vp \<Rightarrow> st_vp" where
  "set_errno e v = v\<lparr>errno := e\<rparr>"

lemmas upd_defs =
  upd_def set_state_def set_sleep_def add_flag_def del_flag_def set_context_def set_errno_def

section \<open>Queue macros of the virtual processor\<close>

text \<open>\<^verbatim>\<open>_ST_ADD_RUNQ\<close> and its kin append the thread's \<^verbatim>\<open>links\<close>; \<^verbatim>\<open>_ST_DEL_\<close>\dots are all
  \<^verbatim>\<open>ST_REMOVE_LINK\<close>, which takes the thread out of its queue.\<close>

definition ST_ADD_RUNQ :: "tid \<Rightarrow> st_vp \<Rightarrow> st_vp" where
  "ST_ADD_RUNQ t v = v\<lparr>run_q := run_q v @ [t]\<rparr>"

definition ST_DEL_RUNQ :: "tid \<Rightarrow> st_vp \<Rightarrow> st_vp" where
  "ST_DEL_RUNQ t v = v\<lparr>run_q := remove1 t (run_q v)\<rparr>"

definition ST_ADD_ZOMBIEQ :: "tid \<Rightarrow> st_vp \<Rightarrow> st_vp" where
  "ST_ADD_ZOMBIEQ t v = v\<lparr>zombie_q := zombie_q v @ [t]\<rparr>"

definition ST_DEL_ZOMBIEQ :: "tid \<Rightarrow> st_vp \<Rightarrow> st_vp" where
  "ST_DEL_ZOMBIEQ t v = v\<lparr>zombie_q := remove1 t (zombie_q v)\<rparr>"

lemmas queue_macro_defs =
  ST_ADD_RUNQ_def ST_DEL_RUNQ_def ST_ADD_ZOMBIEQ_def ST_DEL_ZOMBIEQ_def

text \<open>Making a thread runnable: the two statements that end every wake-up in the code.\<close>

definition make_runnable :: "tid \<Rightarrow> st_vp \<Rightarrow> st_vp" where
  "make_runnable t v = ST_ADD_RUNQ t (set_state t ST_RUNNABLE v)"

end
