(* ===== verification/SleepQ.thy ===== *)
theory SleepQ
  imports Vp
begin

text \<open>
  The sleep queue of \<^verbatim>\<open>sched_win.cpp\<close>: a delta-encoded timer queue over 32-bit microseconds.
  \<open>deadlines\<close> decodes it; the operations are shown to be insertion into, deletion from and expiry
  of a list sorted by deadline, without any wrap-around.
\<close>

section \<open>The operations\<close>

text \<open>The scan of \<^verbatim>\<open>_st_add_sleep_q\<close>: the sleepers passed, the sleepers left, and what is left of the
  sleep time when the scan stops.\<close>

fun sleepq_scan :: "(tid \<Rightarrow> utime) \<Rightarrow> tid list \<Rightarrow> utime \<Rightarrow> tid list \<times> tid list \<times> utime" where
  "sleepq_scan f [] sleep = ([], [], sleep)"
| "sleepq_scan f (t # q) sleep =
     (if sleep < f t then ([], t # q, sleep)
      else case sleepq_scan f q (sleep - f t) of (pre, post, s) \<Rightarrow> (t # pre, post, s))"

text \<open>\<^verbatim>\<open>_st_add_sleep_q\<close>.  Past the scan the code asserts that a sleeper follows;
  \<open>add_sleep_q_follower\<close> below shows that it does, so the empty case is never taken.\<close>

definition st_add_sleep_q :: "tid \<Rightarrow> utime \<Rightarrow> st_vp \<Rightarrow> st_vp" where
  "st_add_sleep_q t timeout v =
     add_flag t FL_ON_SLEEPQ
       (if timeout \<ge> sleep_max v
        then (set_sleep t (timeout - sleep_max v) (v\<lparr>sleep_q := sleep_q v @ [t]\<rparr>))
               \<lparr>sleep_max := timeout\<rparr>
        else case sleepq_scan (sleep_of v) (sleep_q v) timeout of (pre, post, sleep) \<Rightarrow>
          let v1 = (set_sleep t sleep v)\<lparr>sleep_q := pre @ t # post\<rparr> in
          case post of
            [] \<Rightarrow> v1
          | n # _ \<Rightarrow> set_sleep n (sleep_of v1 n - sleep) v1)"

text \<open>The sleeper behind \<open>t\<close>, \<^verbatim>\<open>thread->links.next\<close>.\<close>

fun follower :: "tid \<Rightarrow> tid list \<Rightarrow> tid option" where
  "follower t [] = None"
| "follower t (x # xs) = (if x = t then (case xs of [] \<Rightarrow> None | y # _ \<Rightarrow> Some y) else follower t xs)"

definition st_del_sleep_q :: "tid \<Rightarrow> bool \<Rightarrow> st_vp \<Rightarrow> st_vp" where
  "st_del_sleep_q t expired v =
     (let v1 = (case follower t (sleep_q v) of
                  Some n \<Rightarrow>
                    (if expired then v\<lparr>sleep_max := sleep_max v - sleep_of v t\<rparr>
                     else set_sleep n (sleep_of v n + sleep_of v t) v)
                | None \<Rightarrow>
                    (if hd (sleep_q v) \<noteq> t then v\<lparr>sleep_max := sleep_max v - sleep_of v t\<rparr>
                     else v\<lparr>sleep_max := 0\<rparr>));
          v2 = del_flag t FL_ON_SLEEPQ v1
      in v2\<lparr>sleep_q := remove1 t (sleep_q v2)\<rparr>)"

lemma sleep_q_upd [simp]: "sleep_q (upd t f v) = sleep_q v"
  by (simp add: upd_def)

lemma sleep_q_del [simp]: "sleep_q (st_del_sleep_q t e v) = remove1 t (sleep_q v)"
  by (simp add: st_del_sleep_q_def Let_def set_sleep_def del_flag_def split: option.split)

text \<open>One turn of the loop of \<^verbatim>\<open>_st_vp_check_clock\<close> for a sleeper whose time is up.\<close>

definition wake_sleeper :: "tid \<Rightarrow> st_vp \<Rightarrow> st_vp" where
  "wake_sleeper t v =
     (let v1 = st_del_sleep_q t True v;
          v2 = (if state_of v1 t = ST_COND_WAIT then add_flag t FL_TIMEDOUT v1 else v1)
      in make_runnable t v2)"

lemma sleep_q_wake [simp]: "sleep_q (wake_sleeper t v) = remove1 t (sleep_q v)"
  by (simp add: wake_sleeper_def Let_def make_runnable_def ST_ADD_RUNQ_def set_state_def add_flag_def)

function expire_loop :: "utime \<Rightarrow> st_vp \<Rightarrow> st_vp" where
  "expire_loop elapsed v =
     (case sleep_q v of
        [] \<Rightarrow> v
      | t # _ \<Rightarrow>
          if elapsed < sleep_of v t
          then (set_sleep t (sleep_of v t - elapsed) v)\<lparr>sleep_max := sleep_max v - elapsed\<rparr>
          else expire_loop (elapsed - sleep_of v t) (wake_sleeper t v))"
  by pat_completeness auto
termination
  by (relation "measure (\<lambda>(_, v). length (sleep_q v))") auto

declare expire_loop.simps [simp del]

text \<open>\<^verbatim>\<open>_st_vp_check_clock\<close>; \<open>now\<close> is the value of \<^verbatim>\<open>st_utime()\<close> and \<open>tm\<close> the value of \<^verbatim>\<open>time(NULL)\<close>.\<close>

definition st_vp_check_clock :: "utime \<Rightarrow> int \<Rightarrow> st_vp \<Rightarrow> st_vp" where
  "st_vp_check_clock now tm v =
     (let elapsed = now - last_clock v;
          v1 = v\<lparr>last_clock := now\<rparr>;
          v2 = (if curr_time v1 \<noteq> 0 \<and> now - last_tset v1 > 999000
                then v1\<lparr>curr_time := tm, last_tset := now\<rparr> else v1)
      in expire_loop elapsed v2)"

section \<open>What the queue represents\<close>

fun dl :: "(tid \<Rightarrow> utime) \<Rightarrow> nat \<Rightarrow> tid list \<Rightarrow> (tid \<times> nat) list" where
  "dl f a [] = []"
| "dl f a (t # q) = (t, a + unat (f t)) # dl f (a + unat (f t)) q"

text \<open>Each sleeper with the time, counted from the last clock check, at which it is due.\<close>

definition deadlines :: "st_vp \<Rightarrow> (tid \<times> nat) list" where
  "deadlines v = dl (sleep_of v) 0 (sleep_q v)"

definition qsum :: "(tid \<Rightarrow> utime) \<Rightarrow> tid list \<Rightarrow> nat" where
  "qsum f q = (\<Sum>t\<leftarrow>q. unat (f t))"

definition sleepq_ok :: "st_vp \<Rightarrow> bool" where
  "sleepq_ok v =
     (distinct (sleep_q v) \<and> qsum (sleep_of v) (sleep_q v) = unat (sleep_max v) \<and>
      (\<forall>t. has_flag (flags_of v t) FL_ON_SLEEPQ \<longleftrightarrow> t \<in> set (sleep_q v)))"

lemma qsum_simps [simp]:
  "qsum f [] = 0" "qsum f (t # q) = unat (f t) + qsum f q" "qsum f (p @ q) = qsum f p + qsum f q"
  by (simp_all add: qsum_def)

lemma qsum_cong: "(\<And>t. t \<in> set q \<Longrightarrow> f t = g t) \<Longrightarrow> qsum f q = qsum g q"
  by (induction q) auto

lemma dl_cong: "(\<And>t. t \<in> set q \<Longrightarrow> f t = g t) \<Longrightarrow> dl f a q = dl g a q"
  by (induction q arbitrary: a) auto

lemma dl_append [simp]: "dl f a (p @ q) = dl f a p @ dl f (a + qsum f p) q"
  by (induction p arbitrary: a) (auto simp: add.assoc)

lemma map_fst_dl [simp]: "map fst (dl f a q) = q"
  by (induction q arbitrary: a) auto

lemma dl_bounds: "(t, d) \<in> set (dl f a q) \<Longrightarrow> a \<le> d \<and> d \<le> a + qsum f q"
  by (induction q arbitrary: a) force+

lemma dl_sorted: "sorted (map snd (dl f a q))"
proof (induction q arbitrary: a)
  case Nil
  then show ?case by simp
next
  case (Cons t q)
  then show ?case using dl_bounds by force
qed

text \<open>The specification: a list sorted by deadline, later arrivals behind equal deadlines.\<close>

definition tq_insert :: "'k \<Rightarrow> nat \<Rightarrow> ('k \<times> nat) list \<Rightarrow> ('k \<times> nat) list" where
  "tq_insert t d ds = takeWhile (\<lambda>p. snd p \<le> d) ds @ (t, d) # dropWhile (\<lambda>p. snd p \<le> d) ds"

definition tq_delete :: "'k \<Rightarrow> ('k \<times> nat) list \<Rightarrow> ('k \<times> nat) list" where
  "tq_delete t ds = filter (\<lambda>p. fst p \<noteq> t) ds"

definition tq_due :: "nat \<Rightarrow> ('k \<times> nat) list \<Rightarrow> 'k list" where
  "tq_due e ds = map fst (filter (\<lambda>p. snd p \<le> e) ds)"

definition tq_advance :: "nat \<Rightarrow> ('k \<times> nat) list \<Rightarrow> ('k \<times> nat) list" where
  "tq_advance e ds = map (\<lambda>p. (fst p, snd p - e)) (filter (\<lambda>p. e < snd p) ds)"

section \<open>Insertion\<close>

lemma sleepq_scan_spec:
  assumes "sleepq_scan f q s = (pre, post, s')"
  shows "q = pre @ post" and "unat s' + qsum f pre = unat s"
    and "post \<noteq> [] \<Longrightarrow> s' < f (hd post)"
    and "takeWhile (\<lambda>p. snd p \<le> a + unat s) (dl f a q) = dl f a pre"
    and "dropWhile (\<lambda>p. snd p \<le> a + unat s) (dl f a q) = dl f (a + qsum f pre) post"
proof -
  have "q = pre @ post \<and> unat s' + qsum f pre = unat s \<and> (post \<noteq> [] \<longrightarrow> s' < f (hd post)) \<and>
    takeWhile (\<lambda>p. snd p \<le> a + unat s) (dl f a q) = dl f a pre \<and>
    dropWhile (\<lambda>p. snd p \<le> a + unat s) (dl f a q) = dl f (a + qsum f pre) post"
    using assms
  proof (induction q arbitrary: s pre a)
    case Nil
    then show ?case by simp
  next
    case (Cons t q)
    show ?case
    proof (cases "s < f t")
      case True
      then show ?thesis using Cons.prems by (auto simp: word_less_nat_alt)
    next
      case False
      then have le: "f t \<le> s" by simp
      obtain pre1 where scan: "sleepq_scan f q (s - f t) = (pre1, post, s')" and pre: "pre = t # pre1"
        using Cons.prems False by (auto split: prod.splits)
      have us: "unat (s - f t) = unat s - unat (f t)" using le by (rule unat_minus_le)
      have lu: "unat (f t) \<le> unat s" using le by (simp add: word_le_nat_alt)
      then have sum: "(a + unat (f t)) + unat (s - f t) = a + unat s" using us by simp
      show ?thesis
        using Cons.IH [OF scan, of "a + unat (f t)"] lu us unfolding sum pre
        by (auto simp: add.assoc)
    qed
  qed
  then show "q = pre @ post" "unat s' + qsum f pre = unat s" "post \<noteq> [] \<Longrightarrow> s' < f (hd post)"
    "takeWhile (\<lambda>p. snd p \<le> a + unat s) (dl f a q) = dl f a pre"
    "dropWhile (\<lambda>p. snd p \<le> a + unat s) (dl f a q) = dl f (a + qsum f pre) post"
    by auto
qed

lemma add_sleep_q_follower:
  assumes "sleepq_ok v" and "timeout < sleep_max v"
    and "sleepq_scan (sleep_of v) (sleep_q v) timeout = (pre, post, s)"
  shows "post \<noteq> []"
  using sleepq_scan_spec(1,2) [OF assms(3)] assms(1,2)
  by (auto simp: sleepq_ok_def word_less_nat_alt)

lemma add_sleep_q_last:
  assumes ok: "sleepq_ok v" and new: "t \<notin> set (sleep_q v)" and ge: "sleep_max v \<le> timeout"
  shows "deadlines (st_add_sleep_q t timeout v) = tq_insert t (unat timeout) (deadlines v)"
    and "sleepq_ok (st_add_sleep_q t timeout v)"
proof -
  let ?w = "st_add_sleep_q t timeout v" and ?f = "sleep_of v" and ?q = "sleep_q v"
  have w: "sleep_q ?w = ?q @ [t]" "sleep_max ?w = timeout"
    "\<And>u. sleep_of ?w u = (?f(t := timeout - sleep_max v)) u"
    "\<And>u. has_flag (flags_of ?w u) FL_ON_SLEEPQ \<longleftrightarrow> u = t \<or> has_flag (flags_of v u) FL_ON_SLEEPQ"
    using ge by (auto simp: st_add_sleep_q_def upd_defs)
  have sum: "qsum ?f ?q = unat (sleep_max v)" using ok by (simp add: sleepq_ok_def)
  have ut: "unat (timeout - sleep_max v) = unat timeout - unat (sleep_max v)"
    using ge by (rule unat_minus_le)
  have le: "unat (sleep_max v) \<le> unat timeout" using ge by (simp add: word_le_nat_alt)
  have cong: "qsum (sleep_of ?w) ?q = qsum ?f ?q" "dl (sleep_of ?w) 0 ?q = dl ?f 0 ?q"
    using new by (auto simp: w intro!: qsum_cong dl_cong)
  have all: "\<forall>p \<in> set (dl ?f 0 ?q). snd p \<le> unat timeout"
    using dl_bounds [of _ _ ?f 0 ?q] sum le by fastforce
  show "deadlines ?w = tq_insert t (unat timeout) (deadlines v)"
    unfolding deadlines_def tq_insert_def w(1) dl_append cong
    using all sum ut le by (simp add: w(3) takeWhile_eq_all_conv [THEN iffD2] dropWhile_eq_Nil_conv [THEN iffD2])
  show "sleepq_ok ?w"
    unfolding sleepq_ok_def w(1,2,4) using ok new cong sum ut le
    by (auto simp: sleepq_ok_def w(3))
qed

lemma add_sleep_q_inner:
  assumes ok: "sleepq_ok v" and new: "t \<notin> set (sleep_q v)" and lt: "timeout < sleep_max v"
  shows "deadlines (st_add_sleep_q t timeout v) = tq_insert t (unat timeout) (deadlines v)"
    and "sleepq_ok (st_add_sleep_q t timeout v)"
proof -
  let ?w = "st_add_sleep_q t timeout v" and ?f = "sleep_of v" and ?q = "sleep_q v"
  obtain pre post s where scan: "sleepq_scan ?f ?q timeout = (pre, post, s)"
    by (cases "sleepq_scan ?f ?q timeout") auto
  note spec = sleepq_scan_spec [OF scan]
  have "post \<noteq> []" using ok lt scan by (rule add_sleep_q_follower)
  then obtain n r where post: "post = n # r" by (cases post) auto
  have q: "?q = pre @ n # r" using spec(1) post by simp
  have d: "distinct (pre @ t # n # r)" using ok new q by (auto simp: sleepq_ok_def)
  have w: "sleep_q ?w = pre @ t # n # r" "sleep_max ?w = sleep_max v"
    "\<And>u. sleep_of ?w u = (?f(t := s, n := ?f n - s)) u"
    "\<And>u. has_flag (flags_of ?w u) FL_ON_SLEEPQ \<longleftrightarrow> u = t \<or> has_flag (flags_of v u) FL_ON_SLEEPQ"
    using lt scan post d by (auto simp: st_add_sleep_q_def upd_defs Let_def)
  have sn: "s < ?f n" using spec(3) post by simp
  have un: "unat (?f n - s) = unat (?f n) - unat s" using sn by (simp add: unat_minus_le)
  have us: "unat s < unat (?f n)" using sn by (simp add: word_less_nat_alt)
  have cong: "qsum (sleep_of ?w) pre = qsum ?f pre" "dl (sleep_of ?w) 0 pre = dl ?f 0 pre"
    "qsum (sleep_of ?w) r = qsum ?f r" "\<And>a. dl (sleep_of ?w) a r = dl ?f a r"
    using d by (auto simp: w(3) intro!: qsum_cong dl_cong)
  have ft: "sleep_of ?w t = s" "sleep_of ?w n = ?f n - s" using d by (auto simp: w(3))
  have sum: "unat s + qsum ?f pre = unat timeout" by (rule spec(2))
  have ins: "tq_insert t (unat timeout) (deadlines v) =
      dl ?f 0 pre @ (t, unat timeout) # dl ?f (qsum ?f pre) (n # r)"
    using spec(4,5) [of 0] post by (simp add: tq_insert_def deadlines_def)
  have "deadlines ?w = dl ?f 0 pre @ (t, unat timeout) # dl ?f (qsum ?f pre) (n # r)"
  proof -
    have "unat timeout + (unat (?f n) - unat s) = qsum ?f pre + unat (?f n)" using sum us by arith
    moreover have "qsum ?f pre + unat s = unat timeout" using sum by simp
    ultimately show ?thesis by (simp add: deadlines_def w(1) cong ft un)
  qed
  then show "deadlines ?w = tq_insert t (unat timeout) (deadlines v)" by (simp add: ins)
  have "qsum (sleep_of ?w) (sleep_q ?w) = qsum ?f ?q"
    using us by (simp add: w(1) cong ft un q)
  then show "sleepq_ok ?w"
    using ok d by (auto simp: sleepq_ok_def w(1,2,4) q)
qed

lemma add_sleep_q_refines:
  assumes "sleepq_ok v" and "t \<notin> set (sleep_q v)"
  shows "deadlines (st_add_sleep_q t timeout v) = tq_insert t (unat timeout) (deadlines v)"
    and "sleepq_ok (st_add_sleep_q t timeout v)"
  using add_sleep_q_last [OF assms] add_sleep_q_inner [OF assms] by (meson not_le)+

section \<open>Deletion\<close>

lemma filter_dl_id: "t \<notin> set q \<Longrightarrow> filter (\<lambda>p. fst p \<noteq> t) (dl f a q) = dl f a q"
  by (induction q arbitrary: a) auto

lemma follower_split:
  "t \<notin> set pre \<Longrightarrow>
   follower t (pre @ t # post) = (case post of [] \<Rightarrow> None | n # _ \<Rightarrow> Some n)"
  by (induction pre) auto

lemma del_sleep_q_refines:
  assumes ok: "sleepq_ok v" and mem: "t \<in> set (sleep_q v)"
  shows "deadlines (st_del_sleep_q t False v) = tq_delete t (deadlines v)"
    and "sleepq_ok (st_del_sleep_q t False v)"
proof -
  let ?w = "st_del_sleep_q t False v" and ?f = "sleep_of v"
  obtain pre post where q: "sleep_q v = pre @ t # post"
    using mem by (auto simp: in_set_conv_decomp)
  have d: "distinct (pre @ t # post)" using ok q by (simp add: sleepq_ok_def)
  have sum: "qsum ?f pre + unat (?f t) + qsum ?f post = unat (sleep_max v)"
    using ok q by (simp add: sleepq_ok_def)
  have wq: "sleep_q ?w = pre @ post" using q d by (simp add: remove1_split)
  have fl: "follower t (sleep_q v) = (case post of [] \<Rightarrow> None | n # _ \<Rightarrow> Some n)"
    using d q by (simp add: follower_split)
  have flags: "has_flag (flags_of ?w u) FL_ON_SLEEPQ \<longleftrightarrow> u \<noteq> t \<and> has_flag (flags_of v u) FL_ON_SLEEPQ" for u
    by (auto simp: st_del_sleep_q_def Let_def upd_defs split: option.split)
  have del: "tq_delete t (deadlines v) = dl ?f 0 pre @ dl ?f (qsum ?f pre + unat (?f t)) post"
    unfolding deadlines_def q tq_delete_def
    using d by (simp add: filter_dl_id)
  have "deadlines ?w = tq_delete t (deadlines v) \<and> sleepq_ok ?w"
  proof (cases post)
    case Nil
    have wf: "\<And>u. sleep_of ?w u = ?f u" and
      wm: "sleep_max ?w = (if pre \<noteq> [] then sleep_max v - ?f t else 0)"
      using Nil fl q d by (auto simp: st_del_sleep_q_def Let_def upd_defs hd_append)
    have "unat (sleep_max ?w) = qsum ?f pre"
      using sum Nil by (auto simp: wm unat_minus_le word_le_nat_alt)
    then show ?thesis
      using ok Nil del q d by (auto simp: deadlines_def sleepq_ok_def wf flags remove1_append)
  next
    case (Cons n r)
    have wf: "\<And>u. sleep_of ?w u = (if u = n then ?f n + ?f t else ?f u)" and
      wm: "sleep_max ?w = sleep_max v"
      using Cons fl by (auto simp: st_del_sleep_q_def Let_def upd_defs)
    have un: "unat (?f n + ?f t) = unat (?f n) + unat (?f t)"
      using sum Cons unat_lt_2p32 [of "sleep_max v"] by (intro unat_plus_no_wrap) simp
    have cong: "qsum (sleep_of ?w) pre = qsum ?f pre" "dl (sleep_of ?w) 0 pre = dl ?f 0 pre"
      "qsum (sleep_of ?w) r = qsum ?f r" "\<And>a. dl (sleep_of ?w) a r = dl ?f a r"
      using d Cons by (auto simp: wf intro!: qsum_cong dl_cong)
    have wn: "sleep_of ?w n = ?f n + ?f t" by (simp add: wf)
    have "deadlines ?w = dl ?f 0 pre @ dl ?f (qsum ?f pre + unat (?f t)) post"
      unfolding deadlines_def wq Cons dl_append cong by (simp add: wn un cong add_ac)
    then have dls: "deadlines ?w = tq_delete t (deadlines v)" by (simp only: del)
    have "qsum (sleep_of ?w) (sleep_q ?w) = unat (sleep_max ?w)"
      unfolding wq Cons wm using sum Cons by (simp add: cong wn un)
    then show ?thesis
      using dls ok d Cons q by (auto simp: sleepq_ok_def flags remove1_append)
  qed
  then show "deadlines ?w = tq_delete t (deadlines v)" "sleepq_ok ?w" by auto
qed

section \<open>Expiry\<close>

lemma wake_head:
  assumes ok: "sleepq_ok v" and q: "sleep_q v = t # r"
  shows "sleep_q (wake_sleeper t v) = r" and "\<And>u. sleep_of (wake_sleeper t v) u = sleep_of v u"
    and "sleepq_ok (wake_sleeper t v)"
    and "run_q (wake_sleeper t v) = run_q v @ [t]"
    and "state_of (wake_sleeper t v) u = (if u = t then ST_RUNNABLE else state_of v u)"
    and "has_flag (flags_of (wake_sleeper t v) u) f \<longleftrightarrow>
      (if u = t \<and> f = FL_ON_SLEEPQ then False
       else if u = t \<and> f = FL_TIMEDOUT \<and> state_of v t = ST_COND_WAIT then True
       else has_flag (flags_of v u) f)"
proof -
  let ?w = "wake_sleeper t v"
  have fl: "follower t (sleep_q v) = (case r of [] \<Rightarrow> None | n # _ \<Rightarrow> Some n)"
    using q by simp
  have w: "sleep_max ?w = (if r \<noteq> [] then sleep_max v - sleep_of v t else 0)"
    using fl q by (cases r)
      (simp_all add: wake_sleeper_def st_del_sleep_q_def make_runnable_def queue_macro_defs Let_def upd_defs)
  show sl: "\<And>u. sleep_of ?w u = sleep_of v u"
    using fl by (cases r)
      (simp_all add: wake_sleeper_def st_del_sleep_q_def make_runnable_def queue_macro_defs Let_def upd_defs)
  show wq: "sleep_q ?w = r" using q by simp
  show "run_q ?w = run_q v @ [t]"
    using fl by (cases r)
      (simp_all add: wake_sleeper_def st_del_sleep_q_def make_runnable_def queue_macro_defs Let_def upd_defs)
  show "state_of ?w u = (if u = t then ST_RUNNABLE else state_of v u)"
    using fl by (cases r)
      (simp_all add: wake_sleeper_def st_del_sleep_q_def make_runnable_def queue_macro_defs Let_def upd_defs)
  have flg: "has_flag (flags_of ?w u) f \<longleftrightarrow>
      (if u = t \<and> f = FL_ON_SLEEPQ then False
       else if u = t \<and> f = FL_TIMEDOUT \<and> state_of v t = ST_COND_WAIT then True
       else has_flag (flags_of v u) f)" for u f
    using fl by (cases r)
      (auto simp: wake_sleeper_def st_del_sleep_q_def make_runnable_def queue_macro_defs Let_def upd_defs)
  then show "has_flag (flags_of ?w u) f \<longleftrightarrow>
      (if u = t \<and> f = FL_ON_SLEEPQ then False
       else if u = t \<and> f = FL_TIMEDOUT \<and> state_of v t = ST_COND_WAIT then True
       else has_flag (flags_of v u) f)" .
  have d: "distinct (t # r)" using ok q by (simp add: sleepq_ok_def)
  have sum: "unat (sleep_of v t) + qsum (sleep_of v) r = unat (sleep_max v)"
    using ok q by (simp add: sleepq_ok_def)
  have "qsum (sleep_of ?w) r = unat (sleep_max ?w)"
  proof -
    have "qsum (sleep_of ?w) r = qsum (sleep_of v) r" by (rule qsum_cong) (rule sl)
    then show ?thesis using sum by (auto simp: w unat_minus_le word_le_nat_alt)
  qed
  then show "sleepq_ok ?w"
    using ok d q by (auto simp: sleepq_ok_def wq flg)
qed

lemma dl_shift: "map (\<lambda>p. (fst p, snd p - a)) (dl f (a + b) q) = dl f b q"
  by (induction q arbitrary: b) (auto simp: add.assoc)

lemma tq_due_shift: "a \<le> e \<Longrightarrow> tq_due e (dl f (a + b) q) = tq_due (e - a) (dl f b q)"
proof (induction q arbitrary: b)
  case Nil
  then show ?case by (simp add: tq_due_def)
next
  case (Cons t q)
  from Cons.IH [of "b + unat (f t)"] Cons.prems show ?case
    by (auto simp: tq_due_def add.assoc)
qed

lemma tq_advance_shift: "a \<le> e \<Longrightarrow> tq_advance e (dl f (a + b) q) = tq_advance (e - a) (dl f b q)"
proof (induction q arbitrary: b)
  case Nil
  then show ?case by (simp add: tq_advance_def)
next
  case (Cons t q)
  from Cons.IH [of "b + unat (f t)"] Cons.prems show ?case
    by (auto simp: tq_advance_def add.assoc)
qed

lemma dl_none_due:
  assumes "e < unat (f t)"
  shows "tq_due e (dl f 0 (t # r)) = []"
    and "tq_advance e (dl f 0 (t # r)) = map (\<lambda>p. (fst p, snd p - e)) (dl f 0 (t # r))"
proof -
  have late: "\<forall>p \<in> set (dl f 0 (t # r)). e < snd p"
    using assms dl_bounds [of _ _ f "unat (f t)" r] by fastforce
  then show "tq_due e (dl f 0 (t # r)) = []"
    by (auto simp: tq_due_def filter_empty_conv)
  show "tq_advance e (dl f 0 (t # r)) = map (\<lambda>p. (fst p, snd p - e)) (dl f 0 (t # r))"
    using late unfolding tq_advance_def by (metis (no_types, lifting) filter_True)
qed

lemma expire_stop:
  assumes ok: "sleepq_ok v" and q: "sleep_q v = t # r" and lt: "e < sleep_of v t"
  shows "deadlines (expire_loop e v) = tq_advance (unat e) (deadlines v)"
    and "sleepq_ok (expire_loop e v)" and "tq_due (unat e) (deadlines v) = []"
proof -
  let ?w = "expire_loop e v" and ?f = "sleep_of v"
  have w: "?w = (set_sleep t (?f t - e) v)\<lparr>sleep_max := sleep_max v - e\<rparr>"
    using q lt by (subst expire_loop.simps) simp
  have wf: "\<And>u. sleep_of ?w u = (if u = t then ?f t - e else ?f u)" and
    wq: "sleep_q ?w = t # r" and wm: "sleep_max ?w = sleep_max v - e" and
    wg: "\<And>u. flags_of ?w u = flags_of v u"
    using q by (simp_all add: w upd_defs)
  have d: "distinct (t # r)" using ok q by (simp add: sleepq_ok_def)
  have lt': "unat e < unat (?f t)" using lt by (simp add: word_less_nat_alt)
  have us: "unat (?f t - e) = unat (?f t) - unat e" using lt by (simp add: unat_minus_le)
  have sum: "unat (?f t) + qsum ?f r = unat (sleep_max v)" using ok q by (simp add: sleepq_ok_def)
  have cong: "qsum (sleep_of ?w) r = qsum ?f r" "\<And>a. dl (sleep_of ?w) a r = dl ?f a r"
    using d by (auto simp: wf intro!: qsum_cong dl_cong)
  have wt: "sleep_of ?w t = ?f t - e" by (simp add: wf)
  show "tq_due (unat e) (deadlines v) = []"
    using dl_none_due(1) [where f = ?f, OF lt'] by (simp add: deadlines_def q)
  have "map (\<lambda>p. (fst p, snd p - unat e)) (dl ?f 0 (t # r)) = dl (sleep_of ?w) 0 (t # r)"
    using dl_shift [of "unat e" ?f "unat (?f t) - unat e" r] lt' us by (simp add: wt cong)
  then show "deadlines ?w = tq_advance (unat e) (deadlines v)"
    using dl_none_due(2) [where f = ?f, OF lt'] by (simp add: deadlines_def wq q)
  have "e \<le> sleep_max v" using lt' sum by (simp add: word_le_nat_alt)
  then have "unat (sleep_max ?w) = unat (sleep_max v) - unat e" by (simp add: wm unat_minus_le)
  then have "qsum (sleep_of ?w) (sleep_q ?w) = unat (sleep_max ?w)"
    using sum us lt' by (simp add: wq cong wt)
  then show "sleepq_ok ?w" using ok q by (auto simp: sleepq_ok_def wq wg)
qed

lemma expire_go:
  assumes ok: "sleepq_ok v" and q: "sleep_q v = t # r" and ge: "\<not> e < sleep_of v t"
  shows "tq_due (unat e) (deadlines v) =
      t # tq_due (unat (e - sleep_of v t)) (deadlines (wake_sleeper t v))"
    and "tq_advance (unat e) (deadlines v) =
      tq_advance (unat (e - sleep_of v t)) (deadlines (wake_sleeper t v))"
proof -
  let ?f = "sleep_of v"
  have le: "?f t \<le> e" using ge by simp
  then have lu: "unat (?f t) \<le> unat e" and ue: "unat (e - ?f t) = unat e - unat (?f t)"
    by (simp_all add: word_le_nat_alt unat_minus_le)
  have dw: "deadlines (wake_sleeper t v) = dl ?f 0 r"
    unfolding deadlines_def wake_head(1) [OF ok q] by (rule dl_cong) (rule wake_head(2) [OF ok q])
  show "tq_due (unat e) (deadlines v) =
      t # tq_due (unat (e - ?f t)) (deadlines (wake_sleeper t v))"
    using tq_due_shift [OF lu, of ?f 0 r] lu unfolding dw ue
    by (simp add: deadlines_def q tq_due_def)
  show "tq_advance (unat e) (deadlines v) =
      tq_advance (unat (e - ?f t)) (deadlines (wake_sleeper t v))"
    using tq_advance_shift [OF lu, of ?f 0 r] lu unfolding dw ue
    by (simp add: deadlines_def q tq_advance_def)
qed

text \<open>The loop of \<^verbatim>\<open>_st_vp_check_clock\<close> wakes the threads whose deadline has passed, in deadline
  order, and moves every other deadline \<open>e\<close> closer.\<close>

lemma expire_loop_refines:
  assumes "sleepq_ok v"
  shows "deadlines (expire_loop e v) = tq_advance (unat e) (deadlines v)"
    and "sleepq_ok (expire_loop e v)"
    and "run_q (expire_loop e v) = run_q v @ tq_due (unat e) (deadlines v)"
    and "state_of (expire_loop e v) u =
      (if u \<in> set (tq_due (unat e) (deadlines v)) then ST_RUNNABLE else state_of v u)"
    and "has_flag (flags_of (expire_loop e v) u) FL_TIMEDOUT \<longleftrightarrow>
      has_flag (flags_of v u) FL_TIMEDOUT \<or>
      u \<in> set (tq_due (unat e) (deadlines v)) \<and> state_of v u = ST_COND_WAIT"
proof -
  have "deadlines (expire_loop e v) = tq_advance (unat e) (deadlines v) \<and>
    sleepq_ok (expire_loop e v) \<and>
    run_q (expire_loop e v) = run_q v @ tq_due (unat e) (deadlines v) \<and>
    (\<forall>u. state_of (expire_loop e v) u =
      (if u \<in> set (tq_due (unat e) (deadlines v)) then ST_RUNNABLE else state_of v u)) \<and>
    (\<forall>u. has_flag (flags_of (expire_loop e v) u) FL_TIMEDOUT \<longleftrightarrow>
      has_flag (flags_of v u) FL_TIMEDOUT \<or>
      u \<in> set (tq_due (unat e) (deadlines v)) \<and> state_of v u = ST_COND_WAIT)"
    using assms
  proof (induction e v rule: expire_loop.induct)
    case (1 e v)
    note ok = "1.prems"
    show ?case
    proof (cases "sleep_q v")
      case Nil
      then have "expire_loop e v = v" by (subst expire_loop.simps) simp
      then show ?thesis using ok Nil by (simp add: deadlines_def tq_advance_def tq_due_def)
    next
      case (Cons t r)
      show ?thesis
      proof (cases "e < sleep_of v t")
        case True
        note st = expire_stop [OF ok Cons True]
        have w: "expire_loop e v = (set_sleep t (sleep_of v t - e) v)\<lparr>sleep_max := sleep_max v - e\<rparr>"
          using Cons True by (subst expire_loop.simps) simp
        have "run_q (expire_loop e v) = run_q v"
          "\<And>u. state_of (expire_loop e v) u = state_of v u"
          "\<And>u. flags_of (expire_loop e v) u = flags_of v u"
          by (simp_all add: w upd_defs)
        then show ?thesis using st by simp
      next
        case False
        let ?v = "wake_sleeper t v" and ?e = "e - sleep_of v t"
        have w: "expire_loop e v = expire_loop ?e ?v"
          using Cons False by (subst expire_loop.simps) simp
        note wh = wake_head [OF ok Cons] and go = expire_go [OF ok Cons False]
        have IH: "deadlines (expire_loop ?e ?v) = tq_advance (unat ?e) (deadlines ?v)"
          "sleepq_ok (expire_loop ?e ?v)"
          "run_q (expire_loop ?e ?v) = run_q ?v @ tq_due (unat ?e) (deadlines ?v)"
          "\<And>u. state_of (expire_loop ?e ?v) u =
            (if u \<in> set (tq_due (unat ?e) (deadlines ?v)) then ST_RUNNABLE else state_of ?v u)"
          "\<And>u. has_flag (flags_of (expire_loop ?e ?v) u) FL_TIMEDOUT \<longleftrightarrow>
            has_flag (flags_of ?v u) FL_TIMEDOUT \<or>
            u \<in> set (tq_due (unat ?e) (deadlines ?v)) \<and> state_of ?v u = ST_COND_WAIT"
          using "1.IH" [OF Cons False wh(3)] by auto
        show ?thesis using IH(2) unfolding w IH(1,3,4,5) go wh(4,5,6) by (auto simp: tq_due_def)
      qed
    qed
  qed
  then show "deadlines (expire_loop e v) = tq_advance (unat e) (deadlines v)"
    "sleepq_ok (expire_loop e v)"
    "run_q (expire_loop e v) = run_q v @ tq_due (unat e) (deadlines v)"
    "state_of (expire_loop e v) u =
      (if u \<in> set (tq_due (unat e) (deadlines v)) then ST_RUNNABLE else state_of v u)"
    "has_flag (flags_of (expire_loop e v) u) FL_TIMEDOUT \<longleftrightarrow>
      has_flag (flags_of v u) FL_TIMEDOUT \<or>
      u \<in> set (tq_due (unat e) (deadlines v)) \<and> state_of v u = ST_COND_WAIT"
    by auto
qed

section \<open>The interface of a timer queue\<close>

text \<open>What a client of the sleep queue relies on: insertion, deletion and the passing of time act on
  the list of deadlines, and the due timers are appended to the run queue.\<close>

locale timer_queue =
  fixes ins :: "'k \<Rightarrow> utime \<Rightarrow> 'q \<Rightarrow> 'q" and del :: "'k \<Rightarrow> 'q \<Rightarrow> 'q" and tick :: "utime \<Rightarrow> 'q \<Rightarrow> 'q"
    and abs :: "'q \<Rightarrow> ('k \<times> nat) list" and woken :: "'q \<Rightarrow> 'k list" and ok :: "'q \<Rightarrow> bool"
  assumes ins_law: "ok q \<Longrightarrow> t \<notin> fst ` set (abs q) \<Longrightarrow>
      abs (ins t x q) = tq_insert t (unat x) (abs q) \<and> ok (ins t x q)"
    and del_law: "ok q \<Longrightarrow> t \<in> fst ` set (abs q) \<Longrightarrow>
      abs (del t q) = tq_delete t (abs q) \<and> ok (del t q)"
    and tick_law: "ok q \<Longrightarrow>
      abs (tick e q) = tq_advance (unat e) (abs q) \<and> ok (tick e q) \<and>
      woken (tick e q) = woken q @ tq_due (unat e) (abs q)"
    and keys_law: "ok q \<Longrightarrow> distinct (map fst (abs q))"
begin

fun ticks :: "utime list \<Rightarrow> 'q \<Rightarrow> 'q" where
  "ticks [] q = q"
| "ticks (e # es) q = ticks es (tick e q)"

definition elapsed :: "utime list \<Rightarrow> nat" where
  "elapsed es = (\<Sum>e\<leftarrow>es. unat e)"

lemma ticks_ok: "ok q \<Longrightarrow> ok (ticks es q)"
  by (induction es arbitrary: q) (auto simp: tick_law)

lemma ticks_woken: "ok q \<Longrightarrow> \<exists>xs. woken (ticks es q) = woken q @ xs"
proof (induction es arbitrary: q)
  case (Cons e es)
  from Cons.IH [of "tick e q"] obtain xs where "woken (ticks es (tick e q)) = woken (tick e q) @ xs"
    using tick_law [OF Cons.prems] by blast
  then show ?case using tick_law [OF Cons.prems, of e] by simp
qed simp

lemma due_member: "(t, d) \<in> set ds \<Longrightarrow> d \<le> e \<Longrightarrow> t \<in> set (tq_due e ds)"
  unfolding tq_due_def by force

lemma not_due_member:
  "distinct (map fst ds) \<Longrightarrow> (t, d) \<in> set ds \<Longrightarrow> e < d \<Longrightarrow> t \<notin> set (tq_due e ds)"
  unfolding tq_due_def by (auto dest: eq_key_imp_eq_value)

lemma advance_member: "(t, d) \<in> set ds \<Longrightarrow> e < d \<Longrightarrow> (t, d - e) \<in> set (tq_advance e ds)"
  unfolding tq_advance_def by force

text \<open>A timer fires by the first tick at which its time has passed, and not before.\<close>

lemma fires:
  "ok q \<Longrightarrow> (t, d) \<in> set (abs q) \<Longrightarrow> d \<le> elapsed es \<Longrightarrow> es \<noteq> [] \<Longrightarrow>
   \<exists>xs. woken (ticks es q) = woken q @ xs \<and> t \<in> set xs"
proof (induction es arbitrary: q d)
  case Nil
  then show ?case by simp
next
  case (Cons e es)
  note law = tick_law [OF Cons.prems(1), of e]
  show ?case
  proof (cases "d \<le> unat e")
    case True
    then show ?thesis
      using law ticks_woken [of "tick e q" es] due_member [OF Cons.prems(2)] by force
  next
    case False
    then have "(t, d - unat e) \<in> set (abs (tick e q))"
      using law advance_member [OF Cons.prems(2), of "unat e"] by simp
    moreover have "d - unat e \<le> elapsed es" "es \<noteq> []"
      using Cons.prems(3) False by (auto simp: elapsed_def)
    ultimately show ?thesis using Cons.IH law by fastforce
  qed
qed

lemma waits:
  "ok q \<Longrightarrow> (t, d) \<in> set (abs q) \<Longrightarrow> elapsed es < d \<Longrightarrow>
   (t, d - elapsed es) \<in> set (abs (ticks es q)) \<and>
   (\<exists>xs. woken (ticks es q) = woken q @ xs \<and> t \<notin> set xs)"
proof (induction es arbitrary: q d)
  case Nil
  then show ?case by (simp add: elapsed_def)
next
  case (Cons e es)
  note law = tick_law [OF Cons.prems(1), of e]
  have lt: "unat e < d" "elapsed es < d - unat e" using Cons.prems(3) by (auto simp: elapsed_def)
  have "(t, d - unat e) \<in> set (abs (tick e q))"
    using law advance_member [OF Cons.prems(2) lt(1)] by simp
  then have "(t, d - unat e - elapsed es) \<in> set (abs (ticks es (tick e q))) \<and>
      (\<exists>xs. woken (ticks es (tick e q)) = woken (tick e q) @ xs \<and> t \<notin> set xs)"
    using Cons.IH lt(2) law by blast
  moreover have "t \<notin> set (tq_due (unat e) (abs q))"
    using keys_law [OF Cons.prems(1)] Cons.prems(2) lt(1) by (rule not_due_member)
  ultimately show ?case using law by (auto simp: elapsed_def)
qed

end

lemma deadlines_keys: "fst ` set (deadlines v) = set (sleep_q v)"
  unfolding deadlines_def by (metis list.set_map map_fst_dl)

interpretation sleepq: timer_queue
  st_add_sleep_q "\<lambda>t. st_del_sleep_q t False" expire_loop deadlines run_q sleepq_ok
proof
  fix t :: tid and x e :: utime and q :: st_vp
  assume ok: "sleepq_ok q"
  show "deadlines (st_add_sleep_q t x q) = tq_insert t (unat x) (deadlines q) \<and>
      sleepq_ok (st_add_sleep_q t x q)" if "t \<notin> fst ` set (deadlines q)"
    using add_sleep_q_refines [OF ok] that by (simp add: deadlines_keys)
  show "deadlines (st_del_sleep_q t False q) = tq_delete t (deadlines q) \<and>
      sleepq_ok (st_del_sleep_q t False q)" if "t \<in> fst ` set (deadlines q)"
    using del_sleep_q_refines [OF ok] that by (simp add: deadlines_keys)
  show "deadlines (expire_loop e q) = tq_advance (unat e) (deadlines q) \<and>
      sleepq_ok (expire_loop e q) \<and> run_q (expire_loop e q) = run_q q @ tq_due (unat e) (deadlines q)"
    using expire_loop_refines(1-3) [OF ok] by simp
  show "distinct (map fst (deadlines q))"
    using ok by (simp add: deadlines_def sleepq_ok_def)
qed

end
