(* ===== verification/Key.thy ===== *)
theory Key
  imports Vp
begin

text \<open>
  Per-thread private data (\<^verbatim>\<open>key.cpp\<close>): keys, slots and destructors.
\<close>

section \<open>Operations\<close>

text \<open>\<^verbatim>\<open>st_key_create\<close>: the result is the return value and, on success, the key stored through
  \<^verbatim>\<open>keyp\<close>.\<close>

definition st_key_create :: "ptr \<Rightarrow> st_vp \<Rightarrow> int \<times> int option \<times> st_vp" where
  "st_key_create destructor v =
     (if key_max v \<ge> ST_KEYS_MAX then (-1, None, set_errno EAGAIN v)
      else let key = key_max v;
               v1 = v\<lparr>key_max := key + 1\<rparr>
           in (0, Some key, v1\<lparr>destructors := (destructors v1)[nat key := destructor]\<rparr>))"

definition st_key_getlimit :: int where
  "st_key_getlimit = ST_KEYS_MAX"

definition private_of :: "st_vp \<Rightarrow> tid \<Rightarrow> int \<Rightarrow> ptr" where
  "private_of v t key = t_private (thr v t) ! nat key"

definition set_private :: "tid \<Rightarrow> int \<Rightarrow> ptr \<Rightarrow> st_vp \<Rightarrow> st_vp" where
  "set_private t key x = upd t (\<lambda>r. r\<lparr>t_private := (t_private r)[nat key := x]\<rparr>)"

definition destructor_of :: "st_vp \<Rightarrow> int \<Rightarrow> ptr" where
  "destructor_of v key = destructors v ! nat key"

text \<open>A call \<^verbatim>\<open>(*_st_destructors[key])(p)\<close>.\<close>

definition call_destructor :: "int \<Rightarrow> ptr \<Rightarrow> st_vp \<Rightarrow> st_vp" where
  "call_destructor key p v = v\<lparr>dtor_log := dtor_log v @ [(destructor_of v key, p)]\<rparr>"

definition st_thread_setspecific :: "int \<Rightarrow> ptr \<Rightarrow> st_vp \<Rightarrow> int \<times> st_vp" where
  "st_thread_setspecific key x v =
     (let me = this_thread v in
      if key < 0 \<or> key \<ge> key_max v then (-1, set_errno EINVAL v)
      else if x \<noteq> private_of v me key
      then let v1 = (if private_of v me key \<noteq> 0 \<and> destructor_of v key \<noteq> 0
                     then call_destructor key (private_of v me key) v else v)
           in (0, set_private me key x v1)
      else (0, v))"

definition st_thread_getspecific :: "int \<Rightarrow> st_vp \<Rightarrow> ptr" where
  "st_thread_getspecific key v =
     (if key < 0 \<or> key \<ge> key_max v then 0 else private_of v (this_thread v) key)"

text \<open>The body of the loop of \<^verbatim>\<open>_st_thread_cleanup\<close>, and the loop.\<close>

definition cleanup_key :: "tid \<Rightarrow> int \<Rightarrow> st_vp \<Rightarrow> st_vp" where
  "cleanup_key t key v =
     (if private_of v t key \<noteq> 0 \<and> destructor_of v key \<noteq> 0
      then set_private t key 0 (call_destructor key (private_of v t key) v) else v)"

function cleanup_loop :: "tid \<Rightarrow> int \<Rightarrow> st_vp \<Rightarrow> st_vp" where
  "cleanup_loop t key v =
     (if key < key_max v then cleanup_loop t (key + 1) (cleanup_key t key v) else v)"
  by pat_completeness auto
termination
  by (relation "measure (\<lambda>(t, key, v). nat (key_max v - key))")
    (auto simp: cleanup_key_def set_private_def call_destructor_def upd_defs)

declare cleanup_loop.simps [simp del]

definition st_thread_cleanup :: "tid \<Rightarrow> st_vp \<Rightarrow> st_vp" where
  "st_thread_cleanup t v = cleanup_loop t 0 v"

section \<open>Well-formed key tables\<close>

definition keys_ok :: "st_vp \<Rightarrow> bool" where
  "keys_ok v =
     (0 \<le> key_max v \<and> key_max v \<le> ST_KEYS_MAX \<and> length (destructors v) = 16 \<and>
      (\<forall>t. length (t_private (thr v t)) = 16))"

lemmas key_defs = private_of_def set_private_def destructor_of_def call_destructor_def upd_defs

lemma key_create_ok: "keys_ok v \<Longrightarrow> keys_ok (snd (snd (st_key_create d v)))"
  by (auto simp: keys_ok_def st_key_create_def ST_KEYS_MAX_def Let_def upd_defs)

lemma setspecific_ok: "keys_ok v \<Longrightarrow> keys_ok (snd (st_thread_setspecific key x v))"
  by (auto simp: keys_ok_def st_thread_setspecific_def Let_def key_defs)

lemma cleanup_key_ok: "keys_ok v \<Longrightarrow> keys_ok (cleanup_key t key v)"
  by (auto simp: keys_ok_def cleanup_key_def key_defs)

text \<open>What one turn of the cleanup loop does to the slots of all threads and to the log.\<close>

lemma cleanup_key_effect:
  assumes "keys_ok v" and "0 \<le> key" and "key < key_max v" and "0 \<le> k" and "k < ST_KEYS_MAX"
  shows "private_of (cleanup_key t key v) u k =
      (if u = t \<and> k = key \<and> destructor_of v key \<noteq> 0 then 0 else private_of v u k)"
    and "destructor_of (cleanup_key t key v) k = destructor_of v k"
    and "key_max (cleanup_key t key v) = key_max v"
    and "dtor_log (cleanup_key t key v) = dtor_log v @
      (if private_of v t key \<noteq> 0 \<and> destructor_of v key \<noteq> 0
       then [(destructor_of v key, private_of v t key)] else [])"
  using assms by (auto simp: keys_ok_def cleanup_key_def key_defs nth_list_update ST_KEYS_MAX_def)

text \<open>The destructor calls of a cleanup from \<open>key\<close> on.\<close>

definition cleanup_calls :: "tid \<Rightarrow> int \<Rightarrow> st_vp \<Rightarrow> (ptr \<times> ptr) list" where
  "cleanup_calls t key v =
     map (\<lambda>k. (destructor_of v k, private_of v t k))
       (filter (\<lambda>k. private_of v t k \<noteq> 0 \<and> destructor_of v k \<noteq> 0) [key .. key_max v - 1])"

lemma cleanup_calls_cong:
  assumes "key_max w = key_max v"
    and "\<And>k. key \<le> k \<Longrightarrow> k < key_max v \<Longrightarrow>
      private_of w t k = private_of v t k \<and> destructor_of w k = destructor_of v k"
  shows "cleanup_calls t key w = cleanup_calls t key v"
  unfolding cleanup_calls_def assms(1) using assms(2)
  by (intro map_cong filter_cong) auto

lemma cleanup_loop_effect:
  assumes "keys_ok v" and "0 \<le> key"
  shows "keys_ok (cleanup_loop t key v) \<and>
    dtor_log (cleanup_loop t key v) = dtor_log v @ cleanup_calls t key v \<and>
    (\<forall>u k. 0 \<le> k \<longrightarrow> k < ST_KEYS_MAX \<longrightarrow> private_of (cleanup_loop t key v) u k =
       (if u = t \<and> key \<le> k \<and> k < key_max v \<and> destructor_of v k \<noteq> 0 then 0 else private_of v u k))"
  using assms
proof (induction t key v rule: cleanup_loop.induct)
  case (1 t key v)
  show ?case
  proof (cases "key < key_max v")
    case False
    then show ?thesis using "1.prems"
      by (auto simp: cleanup_loop.simps [of t key v] cleanup_calls_def)
  next
    case True
    let ?v = "cleanup_key t key v"
    have lim: "key_max v \<le> ST_KEYS_MAX" using "1.prems" by (simp add: keys_ok_def)
    note eff = cleanup_key_effect [OF "1.prems" True]
    have km: "key_max ?v = key_max v" using eff(3) [of 0] by (simp add: ST_KEYS_MAX_def)
    have dlog: "dtor_log ?v = dtor_log v @
        (if private_of v t key \<noteq> 0 \<and> destructor_of v key \<noteq> 0
         then [(destructor_of v key, private_of v t key)] else [])"
      using eff(4) [of 0] by (simp add: ST_KEYS_MAX_def)
    have "keys_ok ?v" using "1.prems" by (simp add: cleanup_key_ok)
    with "1.IH" True "1.prems" have IH: "keys_ok (cleanup_loop t (key + 1) ?v)"
      "dtor_log (cleanup_loop t (key + 1) ?v) = dtor_log ?v @ cleanup_calls t (key + 1) ?v"
      "\<And>u k. 0 \<le> k \<Longrightarrow> k < ST_KEYS_MAX \<Longrightarrow> private_of (cleanup_loop t (key + 1) ?v) u k =
         (if u = t \<and> key + 1 \<le> k \<and> k < key_max ?v \<and> destructor_of ?v k \<noteq> 0 then 0
          else private_of ?v u k)"
      by auto
    have calls: "cleanup_calls t (key + 1) ?v = cleanup_calls t (key + 1) v"
      using km eff(1,2) "1.prems"(2) lim by (intro cleanup_calls_cong) auto
    have step: "cleanup_calls t key v =
        (if private_of v t key \<noteq> 0 \<and> destructor_of v key \<noteq> 0
         then [(destructor_of v key, private_of v t key)] else []) @ cleanup_calls t (key + 1) v"
      using True by (simp add: cleanup_calls_def upto_rec1)
    have unf: "cleanup_loop t key v = cleanup_loop t (key + 1) ?v"
      using True by (simp add: cleanup_loop.simps [of t key v])
    have slots: "private_of (cleanup_loop t (key + 1) ?v) u k =
        (if u = t \<and> key \<le> k \<and> k < key_max v \<and> destructor_of v k \<noteq> 0 then 0 else private_of v u k)"
      if k: "0 \<le> k" "k < ST_KEYS_MAX" for u k
      using IH(3) [OF k, of u] eff(1,2) [OF k] km True by (cases "k = key") auto
    show ?thesis unfolding unf IH(2) calls dlog step using IH(1) slots by auto
  qed
qed

end
