(* ===== verification/Sched.thy ===== *)
theory Sched
  imports SleepQ Key
begin

text \<open>
  The scheduler of \<^verbatim>\<open>sched_win.cpp\<close>: choosing the next thread, waiting for I/O, interrupting a
  thread, and the idle thread that drains the completion queue and runs the clock.
\<close>

section \<open>Calls that may switch threads\<close>

text \<open>A call either returns to its caller, with the run-time's state, or has switched to another
  thread; then the rest of the function runs when the thread is resumed.\<close>

datatype 'r outcome = Return 'r st_vp | Switch st_vp

fun outcome_vp :: "'r outcome \<Rightarrow> st_vp" where
  "outcome_vp (Return r v) = v"
| "outcome_vp (Switch v) = v"

text \<open>\<^verbatim>\<open>_st_vp_schedule\<close>: resume the head of the run queue, or the idle thread.\<close>

definition st_vp_schedule :: "st_vp \<Rightarrow> st_vp" where
  "st_vp_schedule v =
     (case run_q v of
        t # _ \<Rightarrow> (set_state t ST_RUNNING (ST_DEL_RUNQ t v))\<lparr>this_thread := t\<rparr>
      | [] \<Rightarrow> (set_state (idle_thread v) ST_RUNNING v)\<lparr>this_thread := idle_thread v\<rparr>)"

text \<open>\<^verbatim>\<open>_ST_SWITCH_CONTEXT\<close>: save where to resume, then schedule.\<close>

definition switch_context :: "resume \<Rightarrow> st_vp \<Rightarrow> st_vp" where
  "switch_context r v = st_vp_schedule (set_context (this_thread v) r v)"

text \<open>The three statements that consume a pending interrupt.\<close>

definition take_interrupt :: "tid \<Rightarrow> st_vp \<Rightarrow> st_vp" where
  "take_interrupt me v = set_errno EINTR (del_flag me FL_INTERRUPT v)"

section \<open>Waiting for I/O\<close>

text \<open>\<^verbatim>\<open>_st_wait\<close> up to the context switch, and after it.  The timeout argument is ignored by the code:
  the statement that would put the thread on the sleep queue is commented out.\<close>

definition st_wait :: "utime \<Rightarrow> st_vp \<Rightarrow> int outcome" where
  "st_wait timeout v =
     (let me = this_thread v in
      if has_flag (flags_of v me) FL_INTERRUPT then Return 1 (take_interrupt me v)
      else Switch (switch_context RWait (set_state me ST_IO_WAIT v)))"

definition st_wait_resume :: "st_vp \<Rightarrow> int outcome" where
  "st_wait_resume v =
     (let me = this_thread v in
      if has_flag (flags_of v me) FL_INTERRUPT then Return 1 (take_interrupt me v)
      else Return 0 v)"

section \<open>Interrupting a thread\<close>

text \<open>Taking a thread off the sleep queue when it is on it, as every wake-up does.\<close>

definition leave_sleep_q :: "tid \<Rightarrow> st_vp \<Rightarrow> st_vp" where
  "leave_sleep_q t v =
     (if has_flag (flags_of v t) FL_ON_SLEEPQ then st_del_sleep_q t False v else v)"

definition st_thread_interrupt :: "tid \<Rightarrow> st_vp \<Rightarrow> st_vp" where
  "st_thread_interrupt t v =
     (if state_of v t = ST_ZOMBIE then v
      else let v1 = add_flag t FL_INTERRUPT v in
           if state_of v1 t = ST_RUNNING \<or> state_of v1 t = ST_RUNNABLE then v1
           else make_runnable t (leave_sleep_q t v1))"

section \<open>The idle thread\<close>

text \<open>What other operating system threads do to the run-time: the I/O completion thread and the
  database threads enqueue a thread and set the event (\<^verbatim>\<open>_st_iocp_thread_pool\<close>,
  \<^verbatim>\<open>db_server\<close>).\<close>

definition post_completion :: "tid \<Rightarrow> st_vp \<Rightarrow> st_vp" where
  "post_completion t v = v\<lparr>compl := compl v @ [t], notify_event := True\<rparr>"

text \<open>\<^verbatim>\<open>_st_vp_idle\<close>.  The wait returns \<^verbatim>\<open>WAIT_OBJECT_0\<close> exactly if the event is set (the other result
  is the timeout of one second); only then the completion queue is drained; the event is reset in
  both cases.  The \<^verbatim>\<open>timeout\<close> the function computes from the sleep queue is not used by it.\<close>

definition wake_completed :: "tid \<Rightarrow> st_vp \<Rightarrow> st_vp" where
  "wake_completed t v = make_runnable t (leave_sleep_q t v)"

lemma compl_leave [simp]: "compl (leave_sleep_q t v) = compl v"
  by (simp add: leave_sleep_q_def st_del_sleep_q_def Let_def upd_defs split: option.split)

lemma compl_wake [simp]: "compl (wake_completed t v) = compl v"
  by (simp add: wake_completed_def make_runnable_def queue_macro_defs upd_defs)

function drain_loop :: "st_vp \<Rightarrow> st_vp" where
  "drain_loop v =
     (case compl v of
        [] \<Rightarrow> v
      | t # q \<Rightarrow> drain_loop (wake_completed t (v\<lparr>compl := q\<rparr>)))"
  by pat_completeness auto
termination
  by (relation "measure (\<lambda>v. length (compl v))") auto

declare drain_loop.simps [simp del]

definition reset_event :: "st_vp \<Rightarrow> st_vp" where
  "reset_event v = v\<lparr>notify_event := False\<rparr>"

definition st_vp_idle :: "st_vp \<Rightarrow> st_vp" where
  "st_vp_idle v = reset_event (if notify_event v then drain_loop v else v)"

text \<open>The body of the loop of \<^verbatim>\<open>_st_idle_thread_start\<close>; \<open>exit(0)\<close> ends the process.\<close>

definition st_idle_thread_body :: "utime \<Rightarrow> int \<Rightarrow> st_vp \<Rightarrow> int outcome" where
  "st_idle_thread_body now tm v =
     (if active_count v > 0
      then let me = this_thread v;
               v1 = st_vp_idle v;
               v2 = st_vp_check_clock now tm v1
           in Switch (switch_context RIdle (set_state me ST_RUNNABLE v2))
      else Return 0 (v\<lparr>exited := True\<rparr>))"

text \<open>The same loop body in the atomic steps between which another operating system thread may
  post a completion.\<close>

definition idle_wait :: "st_vp \<Rightarrow> st_vp" where
  "idle_wait v = set_context (this_thread v) (if notify_event v then RIdleDrain else RIdleReset) v"

definition idle_dequeue :: "st_vp \<Rightarrow> st_vp" where
  "idle_dequeue v =
     (case compl v of
        [] \<Rightarrow> set_context (this_thread v) RIdleReset v
      | t # q \<Rightarrow> wake_completed t (v\<lparr>compl := q\<rparr>))"

definition idle_reset :: "st_vp \<Rightarrow> st_vp" where
  "idle_reset v = set_context (this_thread v) RIdleClock (reset_event v)"

definition idle_clock :: "utime \<Rightarrow> int \<Rightarrow> st_vp \<Rightarrow> st_vp" where
  "idle_clock now tm v =
     switch_context RIdle (set_state (this_thread v) ST_RUNNABLE (st_vp_check_clock now tm v))"

end
