(* ===== verification/Sync.thy ===== *)
theory Sync
  imports Sched
begin

text \<open>
  Sleeping, condition variables and mutexes (\<^verbatim>\<open>sync.cpp\<close>).  A blocking function has two parts: up to
  its \<^verbatim>\<open>_ST_SWITCH_CONTEXT\<close>, and \<open>\<dots>_resume\<close>, what it does when the thread runs again.
\<close>

section \<open>Time\<close>

definition ST_UTIME_NO_TIMEOUT :: utime where "ST_UTIME_NO_TIMEOUT = - 1"

definition st_utime_last_clock :: "st_vp \<Rightarrow> utime" where
  "st_utime_last_clock v = last_clock v"

text \<open>\<open>now\<close> and \<open>tm\<close> are the values of \<^verbatim>\<open>st_utime()\<close> and \<^verbatim>\<open>time(NULL)\<close>.\<close>

definition st_timecache_set :: "bool \<Rightarrow> utime \<Rightarrow> int \<Rightarrow> st_vp \<Rightarrow> int \<times> st_vp" where
  "st_timecache_set on now tm v =
     (let wason = (if curr_time v \<noteq> 0 then 1 else 0)
      in (wason, if on then v\<lparr>curr_time := tm, last_tset := now\<rparr> else v\<lparr>curr_time := 0\<rparr>))"

definition st_time :: "int \<Rightarrow> st_vp \<Rightarrow> int" where
  "st_time tm v = (if curr_time v \<noteq> 0 then curr_time v else tm)"

definition st_usleep :: "utime \<Rightarrow> st_vp \<Rightarrow> int outcome" where
  "st_usleep usecs v =
     (let me = this_thread v in
      if has_flag (flags_of v me) FL_INTERRUPT then Return (-1) (take_interrupt me v)
      else Switch (switch_context RUsleep
             (st_add_sleep_q me usecs (set_state me ST_SLEEPING v))))"

definition st_usleep_resume :: "st_vp \<Rightarrow> int outcome" where
  "st_usleep_resume v =
     (let me = this_thread v in
      if has_flag (flags_of v me) FL_INTERRUPT then Return (-1) (take_interrupt me v)
      else Return 0 v)"

text \<open>\<^verbatim>\<open>st_sleep\<close>: the product is computed in \<^verbatim>\<open>int\<close> and passed as an unsigned 32-bit value.\<close>

definition sleep_usecs :: "int \<Rightarrow> utime" where
  "sleep_usecs secs = (if secs = -1 then - 1 else word_of_int (secs * 1000000))"

definition st_sleep :: "int \<Rightarrow> st_vp \<Rightarrow> int outcome" where
  "st_sleep secs v = st_usleep (sleep_usecs secs) v"

section \<open>Condition variables\<close>

text \<open>The wait queue of a condition variable; callers pass allocated ones.\<close>

definition cond_q :: "st_vp \<Rightarrow> cid \<Rightarrow> tid list" where
  "cond_q v c = (case conds v c of Some q \<Rightarrow> q | None \<Rightarrow> [])"

definition set_cond_q :: "cid \<Rightarrow> tid list \<Rightarrow> st_vp \<Rightarrow> st_vp" where
  "set_cond_q c q v = v\<lparr>conds := (conds v)(c := Some q)\<rparr>"

text \<open>\<^verbatim>\<open>st_cond_new\<close>; \<open>c\<close> is the address \<^verbatim>\<open>calloc\<close> returns, if any.\<close>

definition st_cond_new :: "cid option \<Rightarrow> st_vp \<Rightarrow> cid option \<times> st_vp" where
  "st_cond_new c v = (case c of None \<Rightarrow> (None, v) | Some a \<Rightarrow> (Some a, set_cond_q a [] v))"

definition st_cond_destroy :: "cid \<Rightarrow> st_vp \<Rightarrow> int \<times> st_vp" where
  "st_cond_destroy c v =
     (if cond_q v c \<noteq> [] then (-1, set_errno EBUSY v)
      else (0, v\<lparr>conds := (conds v)(c := None)\<rparr>))"

text \<open>\<^verbatim>\<open>st_cond_timedwait\<close> up to the switch; \<open>r\<close> is where the thread resumes, since
  \<^verbatim>\<open>st_thread_join\<close> calls the function too.\<close>

definition cond_block :: "resume \<Rightarrow> cid \<Rightarrow> utime \<Rightarrow> st_vp \<Rightarrow> int outcome" where
  "cond_block r c timeout v =
     (let me = this_thread v in
      if has_flag (flags_of v me) FL_INTERRUPT then Return (-1) (take_interrupt me v)
      else let v1 = set_state me ST_COND_WAIT v;
               v2 = set_cond_q c (cond_q v1 c @ [me]) v1;
               v3 = (if timeout \<noteq> ST_UTIME_NO_TIMEOUT then st_add_sleep_q me timeout v2 else v2)
           in Switch (switch_context r v3))"

definition st_cond_timedwait :: "cid \<Rightarrow> utime \<Rightarrow> st_vp \<Rightarrow> int outcome" where
  "st_cond_timedwait c timeout v = cond_block (RCond c) c timeout v"

definition cond_wakeup :: "cid \<Rightarrow> st_vp \<Rightarrow> int \<times> st_vp" where
  "cond_wakeup c v =
     (let me = this_thread v;
          v1 = set_cond_q c (remove1 me (cond_q v c)) v;
          (rv2, v2) = (if has_flag (flags_of v1 me) FL_TIMEDOUT
                       then (-1, set_errno ETIME (del_flag me FL_TIMEDOUT v1)) else (0, v1))
      in if has_flag (flags_of v2 me) FL_INTERRUPT then (-1, take_interrupt me v2) else (rv2, v2))"

definition st_cond_timedwait_resume :: "cid \<Rightarrow> st_vp \<Rightarrow> int outcome" where
  "st_cond_timedwait_resume c v = (case cond_wakeup c v of (rv, w) \<Rightarrow> Return rv w)"

definition st_cond_wait :: "cid \<Rightarrow> st_vp \<Rightarrow> int outcome" where
  "st_cond_wait c v = st_cond_timedwait c ST_UTIME_NO_TIMEOUT v"

text \<open>The loop of \<^verbatim>\<open>_st_cond_signal\<close> over the wait queue.  The queue itself is left alone: a woken
  thread takes itself off when it runs.\<close>

fun signal_loop :: "bool \<Rightarrow> tid list \<Rightarrow> st_vp \<Rightarrow> st_vp" where
  "signal_loop broadcast [] v = v"
| "signal_loop broadcast (t # q) v =
     (if state_of v t = ST_COND_WAIT
      then let v1 = make_runnable t (leave_sleep_q t v)
           in if broadcast then signal_loop broadcast q v1 else v1
      else signal_loop broadcast q v)"

definition cond_signal_impl :: "cid \<Rightarrow> bool \<Rightarrow> st_vp \<Rightarrow> int \<times> st_vp" where
  "cond_signal_impl c broadcast v = (0, signal_loop broadcast (cond_q v c) v)"

definition st_cond_signal :: "cid \<Rightarrow> st_vp \<Rightarrow> int \<times> st_vp" where
  "st_cond_signal c v = cond_signal_impl c False v"

definition st_cond_broadcast :: "cid \<Rightarrow> st_vp \<Rightarrow> int \<times> st_vp" where
  "st_cond_broadcast c v = cond_signal_impl c True v"

section \<open>Mutexes\<close>

definition mutex_of :: "st_vp \<Rightarrow> mid \<Rightarrow> st_mutex" where
  "mutex_of v m = (case mutexes v m of Some x \<Rightarrow> x | None \<Rightarrow> \<lparr>owner = None, m_wait_q = []\<rparr>)"

definition set_mutex :: "mid \<Rightarrow> st_mutex \<Rightarrow> st_vp \<Rightarrow> st_vp" where
  "set_mutex m x v = v\<lparr>mutexes := (mutexes v)(m := Some x)\<rparr>"

definition st_mutex_new :: "mid option \<Rightarrow> st_vp \<Rightarrow> mid option \<times> st_vp" where
  "st_mutex_new m v =
     (case m of
        None \<Rightarrow> (None, v)
      | Some a \<Rightarrow> (Some a, set_mutex a \<lparr>owner = None, m_wait_q = []\<rparr> v))"

definition st_mutex_destroy :: "mid \<Rightarrow> st_vp \<Rightarrow> int \<times> st_vp" where
  "st_mutex_destroy m v =
     (if owner (mutex_of v m) \<noteq> None \<or> m_wait_q (mutex_of v m) \<noteq> []
      then (-1, set_errno EBUSY v)
      else (0, v\<lparr>mutexes := (mutexes v)(m := None)\<rparr>))"

definition st_mutex_lock :: "mid \<Rightarrow> st_vp \<Rightarrow> int outcome" where
  "st_mutex_lock m v =
     (let me = this_thread v; lock = mutex_of v m in
      if has_flag (flags_of v me) FL_INTERRUPT then Return (-1) (take_interrupt me v)
      else if owner lock = None then Return 0 (set_mutex m (lock\<lparr>owner := Some me\<rparr>) v)
      else if owner lock = Some me then Return (-1) (set_errno EDEADLK v)
      else Switch (switch_context (RMutex m)
             (set_mutex m (lock\<lparr>m_wait_q := m_wait_q lock @ [me]\<rparr>)
               (set_state me ST_LOCK_WAIT v))))"

definition st_mutex_lock_resume :: "mid \<Rightarrow> st_vp \<Rightarrow> int outcome" where
  "st_mutex_lock_resume m v =
     (let me = this_thread v; lock = mutex_of v m;
          v1 = set_mutex m (lock\<lparr>m_wait_q := remove1 me (m_wait_q lock)\<rparr>) v
      in if has_flag (flags_of v1 me) FL_INTERRUPT \<and> owner lock \<noteq> Some me
         then Return (-1) (take_interrupt me v1) else Return 0 v1)"

text \<open>The scan of \<^verbatim>\<open>st_mutex_unlock\<close>: the first waiter still in the lock-wait state.\<close>

fun next_waiter :: "st_vp \<Rightarrow> tid list \<Rightarrow> tid option" where
  "next_waiter v [] = None"
| "next_waiter v (t # q) = (if state_of v t = ST_LOCK_WAIT then Some t else next_waiter v q)"

definition st_mutex_unlock :: "mid \<Rightarrow> st_vp \<Rightarrow> int \<times> st_vp" where
  "st_mutex_unlock m v =
     (let lock = mutex_of v m in
      if owner lock \<noteq> Some (this_thread v) then (-1, set_errno EPERM v)
      else case next_waiter v (m_wait_q lock) of
             Some t \<Rightarrow> (0, make_runnable t (set_mutex m (lock\<lparr>owner := Some t\<rparr>) v))
           | None \<Rightarrow> (0, set_mutex m (lock\<lparr>owner := None\<rparr>) v))"

definition st_mutex_trylock :: "mid \<Rightarrow> st_vp \<Rightarrow> int \<times> st_vp" where
  "st_mutex_trylock m v =
     (let lock = mutex_of v m in
      if owner lock \<noteq> None then (-1, set_errno EBUSY v)
      else (0, set_mutex m (lock\<lparr>owner := Some (this_thread v)\<rparr>) v))"

end
