(* ===== verification/Thread.thy ===== *)
theory Thread
  imports Sync
begin

text \<open>
  Thread creation, termination and joining, and the initialisation of the run-time
  (\<^verbatim>\<open>sched_win.cpp\<close>).
\<close>

section \<open>Creation\<close>

text \<open>The thread object lives on its stack, so it is gone (\<open>RDead\<close>) when its stack is freed.\<close>

text \<open>What thread creation gets from its surroundings: the page size, the two compiler sizes, the
  results of the memory allocations.\<close>

record create_env =
  env_page :: int
  env_ptr_size :: int
  env_thread_size :: int
  env_calloc_stack :: bool
  env_segment :: "int \<Rightarrow> int option"
  env_calloc_cond :: "cid option"

definition st_thread_create ::
  "create_env \<Rightarrow> nat \<Rightarrow> ptr \<Rightarrow> bool \<Rightarrow> int \<Rightarrow> st_vp \<Rightarrow> tid option \<times> st_vp" where
  "st_thread_create env start arg joinable bytes v =
     (case st_stack_new (env_page env) (env_calloc_stack env) (env_segment env)
             (adjust_stk_size (env_page env) bytes) (stacks v) of
        (None, _) \<Rightarrow> (None, v)
      | (Some stack, cache) \<Rightarrow>
          (case stack_layout (env_ptr_size env) (env_thread_size env) stack of
             (ptds, addr, sp) \<Rightarrow>
               let stack1 = stack\<lparr>stk_sp := sp\<rparr>;
                   t = nat addr;
                   v1 = upd t (\<lambda>_. zero_thread\<lparr>t_stack := Some stack1, t_start := start,
                          t_arg := arg, t_context := RMain\<rparr>) (v\<lparr>stacks := cache\<rparr>);
                   (ok, v2) = (if joinable
                               then case st_cond_new (env_calloc_cond env) v1 of
                                      (None, w) \<Rightarrow>
                                        (False, set_context t RDead
                                          (w\<lparr>stacks := st_stack_free (Some stack1) (stacks w)\<rparr>))
                                    | (Some c, w) \<Rightarrow> (True, upd t (\<lambda>r. r\<lparr>t_term := Some c\<rparr>) w)
                               else (True, v1))
               in if \<not> ok then (None, v2)
                  else (Some t,
                        ST_ADD_RUNQ t ((set_state t ST_RUNNABLE v2)
                          \<lparr>active_count := active_count v2 + 1\<rparr>))))"

definition st_thread_self :: "st_vp \<Rightarrow> tid" where
  "st_thread_self v = this_thread v"

section \<open>Termination\<close>

text \<open>The end of \<^verbatim>\<open>st_thread_exit\<close>: the stack goes to the free list unless the thread is the
  primordial one, and the thread is never resumed.\<close>

definition exit_tail :: "st_vp \<Rightarrow> st_vp" where
  "exit_tail v =
     (let me = this_thread v;
          v1 = (if \<not> has_flag (flags_of v me) FL_PRIMORDIAL
                then v\<lparr>stacks := st_stack_free (t_stack (thr v me)) (stacks v)\<rparr> else v)
      in switch_context RDead v1)"

definition st_thread_exit :: "ptr \<Rightarrow> st_vp \<Rightarrow> int outcome" where
  "st_thread_exit retval v =
     (let me = this_thread v;
          v1 = upd me (\<lambda>r. r\<lparr>t_retval := retval\<rparr>) v;
          v2 = st_thread_cleanup me v1;
          v3 = v2\<lparr>active_count := active_count v2 - 1\<rparr>
      in case t_term (thr v3 me) of
           Some c \<Rightarrow>
             let v4 = ST_ADD_ZOMBIEQ me (set_state me ST_ZOMBIE v3);
                 v5 = snd (st_cond_signal c v4)
             in Switch (switch_context RExit v5)
         | None \<Rightarrow> Switch (exit_tail v3))"

text \<open>After the joining thread made the zombie runnable again.\<close>

definition st_thread_exit_resume :: "st_vp \<Rightarrow> int outcome" where
  "st_thread_exit_resume v =
     (let me = this_thread v;
          v1 = (case t_term (thr v me) of Some c \<Rightarrow> snd (st_cond_destroy c v) | None \<Rightarrow> v);
          v2 = upd me (\<lambda>r. r\<lparr>t_term := None\<rparr>) v1
      in Switch (exit_tail v2))"

text \<open>\<^verbatim>\<open>_st_thread_main\<close> runs the start function and ends the thread with its result; the start
  function itself is the user's code.\<close>

definition st_thread_main_return :: "ptr \<Rightarrow> st_vp \<Rightarrow> int outcome" where
  "st_thread_main_return result v =
     st_thread_exit result (upd (this_thread v) (\<lambda>r. r\<lparr>t_retval := result\<rparr>) v)"

section \<open>Joining\<close>

text \<open>The statements after the loop of \<^verbatim>\<open>st_thread_join\<close>; the result is the return value and what is
  stored through \<^verbatim>\<open>retvalp\<close>.\<close>

definition join_finish :: "tid \<Rightarrow> st_vp \<Rightarrow> (int \<times> ptr option) outcome" where
  "join_finish t v =
     Return (0, Some (t_retval (thr v t)))
       (ST_ADD_RUNQ t (ST_DEL_ZOMBIEQ t (set_state t ST_RUNNABLE v)))"

text \<open>One turn of the loop \<^verbatim>\<open>while (thread->state != _ST_ST_ZOMBIE)\<close>.\<close>

definition join_loop :: "tid \<Rightarrow> cid \<Rightarrow> st_vp \<Rightarrow> (int \<times> ptr option) outcome" where
  "join_loop t term v =
     (if state_of v t \<noteq> ST_ZOMBIE
      then case cond_block (RJoin t term) term ST_UTIME_NO_TIMEOUT v of
             Return rv w \<Rightarrow> Return (-1, None) w
           | Switch w \<Rightarrow> Switch w
      else join_finish t v)"

definition st_thread_join :: "tid \<Rightarrow> st_vp \<Rightarrow> (int \<times> ptr option) outcome" where
  "st_thread_join t v =
     (case t_term (thr v t) of
        None \<Rightarrow> Return (-1, None) (set_errno EINVAL v)
      | Some term \<Rightarrow>
          if this_thread v = t then Return (-1, None) (set_errno EDEADLK v)
          else if cond_q v term \<noteq> [] then Return (-1, None) (set_errno EINVAL v)
          else join_loop t term v)"

definition st_thread_join_resume :: "tid \<Rightarrow> cid \<Rightarrow> st_vp \<Rightarrow> (int \<times> ptr option) outcome" where
  "st_thread_join_resume t term v =
     (case cond_wakeup term v of
        (rv, w) \<Rightarrow> if rv \<noteq> 0 then Return (-1, None) w else join_loop t term w)"

text \<open>An immediate return of \<^verbatim>\<open>st_cond_timedwait\<close> is always \<open>-1\<close>, so the loop of
  \<^verbatim>\<open>st_thread_join\<close> ends there, as \<open>join_loop\<close> says.\<close>

lemma cond_block_return: "cond_block r c timeout v = Return rv w \<Longrightarrow> rv = -1"
  by (auto simp: cond_block_def Let_def split: if_splits)

section \<open>Initialisation\<close>

text \<open>\<^verbatim>\<open>memset(&_st_this_vp, 0, ...)\<close> and the initialisation of the queues; the globals outside the
  structure keep their values.\<close>

definition vp_clear :: "st_vp \<Rightarrow> st_vp" where
  "vp_clear v = v\<lparr>idle_thread := 0, last_clock := 0, run_q := [], io_q := [], sleep_q := [],
     zombie_q := [], sleep_max := 0\<rparr>"

text \<open>\<^verbatim>\<open>st_init\<close>: \<open>io_rc\<close> is the result of \<^verbatim>\<open>_st_io_init\<close>, \<open>now\<close> that of \<^verbatim>\<open>st_utime\<close>, \<open>prim\<close> the address
  \<^verbatim>\<open>calloc\<close> gives for the primordial thread, \<open>idle_start\<close> the address of the idle thread's start
  function.\<close>

definition st_init ::
  "create_env \<Rightarrow> int \<Rightarrow> utime \<Rightarrow> nat \<Rightarrow> tid option \<Rightarrow> st_vp \<Rightarrow> int \<times> st_vp" where
  "st_init env io_rc now idle_start prim v =
     (if active_count v \<noteq> 0 then (0, v)
      else if io_rc < 0 then (-1, v)
      else case st_thread_create env idle_start 0 False 0 ((vp_clear v)\<lparr>last_clock := now\<rparr>) of
             (None, w) \<Rightarrow> (-1, w)
           | (Some idle, w) \<Rightarrow>
               let w1 = upd idle (\<lambda>r. r\<lparr>t_flags := flag_mask FL_IDLE_THREAD\<rparr>)
                          (w\<lparr>idle_thread := idle\<rparr>);
                   w2 = ST_DEL_RUNQ idle (w1\<lparr>active_count := active_count w1 - 1\<rparr>)
               in case prim of
                    None \<Rightarrow> (-1, w2)
                  | Some p \<Rightarrow>
                      (0, (upd p (\<lambda>_. zero_thread\<lparr>t_state := ST_RUNNING,
                             t_flags := flag_mask FL_PRIMORDIAL, t_context := RUser\<rparr>) w2)
                            \<lparr>this_thread := p, active_count := active_count w2 + 1,
                             notify_event := False\<rparr>))"

end
