(* ===== verification/BaseProps.thy ===== *)
theory BaseProps
  imports Thread
begin

text \<open>
  Properties of the parts the scheduler is built on: the pointer lists, the stacks and the keys.
\<close>

section \<open>Pointer lists\<close>

text \<open>C10: Appending an element to a circular list and removing one by the list macros compute list
  append and list deletion on the linked store, and leave any other list of the store as it is.\<close>

theorem clist_macros:
  assumes "is_clist s l (xs @ y # ys)" and "is_clist s k zs"
    and "e \<notin> set (l # xs @ y # ys)" and "set (k # zs) \<inter> set (e # l # xs @ y # ys) = {}"
  shows "is_clist (ST_APPEND_LINK e l s) l (xs @ y # ys @ [e]) \<and> is_clist (ST_APPEND_LINK e l s) k zs \<and>
    is_clist (ST_REMOVE_LINK y s) l (xs @ ys) \<and> is_clist (ST_REMOVE_LINK y s) k zs"
proof -
  have "is_clist (ST_APPEND_LINK e l s) l ((xs @ y # ys) @ [e])"
    by (rule append_link_refines) (use assms in auto)
  moreover have "is_clist (ST_APPEND_LINK e l s) k zs"
    using insert_before_frame [of s l "xs @ y # ys" "[]" k zs e] assms
    by (simp add: ST_APPEND_LINK_def)
  moreover have "is_clist (ST_REMOVE_LINK y s) l (xs @ ys)" using assms(1) by (rule remove_link_refines)
  moreover have "is_clist (ST_REMOVE_LINK y s) k zs"
    using assms(1,2) by (rule remove_link_frame) (use assms(4) in auto)
  ultimately show ?thesis by simp
qed

text \<open>A store with the list 11, 12 at the head 10 and the empty list at the head 20.\<close>

definition two_lists :: st_clist where
  "two_lists = ST_APPEND_LINK 12 10 (ST_APPEND_LINK 11 10 (ST_INIT_CLIST 10
     (ST_INIT_CLIST 20 \<lparr>nxt = (\<lambda>_. 0), prv = (\<lambda>_. 0)\<rparr>)))"

theorem clist_macros_witness:
  "is_clist (ST_APPEND_LINK 13 10 two_lists) 10 [11, 12, 13] \<and>
   is_clist (ST_REMOVE_LINK 11 two_lists) 10 [12] \<and> is_clist (ST_REMOVE_LINK 11 two_lists) 20 []"
proof -
  have a: "is_clist two_lists 10 [11, 12]" "is_clist two_lists 20 []"
    by (simp_all add: two_lists_def is_clist_def clist_macro_defs)
  show ?thesis using clist_macros [of two_lists 10 "[]" 11 "[12]" 20 "[]" 13] a by simp
qed

section \<open>Stacks\<close>

text \<open>A stack request is served by the first cached stack that is large enough, which leaves the
  cache, and only without one by a new segment with a red zone on both sides; the count of cached
  stacks stays right, also after the stack is given back.\<close>

theorem stack_alloc:
  assumes "cache_ok c" and "st_stack_new page ok seg n c = (Some ts, c')" and "0 < n"
  shows "n \<le> stk_size ts \<and> cache_ok c' \<and> cache_ok (st_stack_free (Some ts) c') \<and>
    (if \<exists>q \<in> set (free_stacks c). n \<le> stk_size q
     then mset (free_stacks c) = add_mset ts (mset (free_stacks c'))
     else c' = c \<and> seg (n + 2 * page) = Some (vaddr ts) \<and> stk_bottom ts = vaddr ts + page \<and>
          stk_top ts + page = vaddr ts + vaddr_size ts \<and> stk_top ts = stk_bottom ts + n)"
proof -
  have c': "cache_ok c'" using stack_new_cache_ok [OF assms(1), of page ok seg n] assms(2) by simp
  have sz: "n \<le> stk_size ts" using stack_new_size [of page ok seg n c ts] assms(2) by simp
  show ?thesis
  proof (cases "find_stack n (free_stacks c)")
    case None
    then obtain a where a: "c' = c" "seg (n + 2 * page) = Some a" "ts = st_new_stack page a n"
      using assms(2) by (auto simp: stack_new_fresh split: if_splits)
    have "\<not> (\<exists>q \<in> set (free_stacks c). n \<le> stk_size q)"
      using None by (auto simp: find_stack_None)
    then show ?thesis
      using c' sz a stack_free_cache_ok by (simp add: st_new_stack_def Let_def)
  next
    case (Some p)
    obtain r rest where p: "p = (r, rest)" by (cases p)
    have e: "r = ts" "free_stacks c' = rest"
      using assms(2) stack_new_cached [OF Some [unfolded p], of page ok seg] by auto
    from find_stack_Some [OF Some [unfolded p]] obtain pre post where
      sp: "n \<le> stk_size r" "free_stacks c = pre @ r # post" "rest = pre @ post" by blast
    then have "\<exists>q \<in> set (free_stacks c). n \<le> stk_size q" by auto
    moreover have "mset (free_stacks c) = add_mset ts (mset (free_stacks c'))" using sp e by simp
    ultimately show ?thesis using c' sz stack_free_cache_ok by simp
  qed
qed

theorem stack_alloc_witness:
  "stk_top (st_new_stack 4096 65536 8192) = 65536 + 4096 + 8192"
proof -
  have "st_stack_new 4096 True (\<lambda>_. Some 65536) 8192 \<lparr>free_stacks = [], num_free_stacks = 0\<rparr> =
      (Some (st_new_stack 4096 65536 8192), \<lparr>free_stacks = [], num_free_stacks = 0\<rparr>)"
    by (simp add: st_stack_new_def)
  from stack_alloc [OF _ this] show ?thesis by (simp add: cache_ok_def)
qed

text \<open>The layout of a new thread's stack.  Whatever size is asked for, the stack has at least
  that size, in whole pages; the key slots end at its top, the thread object lies directly below
  them, and the stack pointer is 64-byte aligned before the pad, below the thread object and less
  than 64 bytes away from it.\<close>

theorem thread_stack_layout:
  assumes "0 < page" and "0 \<le> requested"
    and "stack_layout ptr_size thread_size st = (ptds, thread, sp)"
  shows "requested \<le> adjust_stk_size page requested \<and> page dvd adjust_stk_size page requested \<and>
    ptds + 16 * ptr_size = stk_top st \<and> thread + thread_size = ptds \<and>
    64 dvd sp + MD_STACK_PAD_SIZE \<and> sp + MD_STACK_PAD_SIZE \<le> thread \<and>
    thread < sp + MD_STACK_PAD_SIZE + 64"
  using adjust_stk_size_bounds [OF assms(1,2)] stack_layout_bounds [OF assms(3)]
  by (auto simp: mod_eq_0_iff_dvd ST_DEFAULT_STACK_SIZE_def split: if_splits)

theorem thread_stack_layout_witness:
  "(100::int) \<le> adjust_stk_size 4096 100 \<and> (4096::int) dvd adjust_stk_size 4096 100 \<and>
   stack_layout 4 100 (st_new_stack 4096 0 8192) = (12224, 12124, 11968) \<and> (64::int) dvd 11968 + 128"
proof -
  have l: "stack_layout 4 100 (st_new_stack 4096 0 8192) = (12224, 12124, 11968)"
    by (simp add: stack_layout_def st_new_stack_def MD_STACK_PAD_SIZE_def)
  show ?thesis
    using thread_stack_layout [of 4096 100, OF _ _ l] l by (simp add: MD_STACK_PAD_SIZE_def)
qed

section \<open>Keys\<close>

text \<open>A value stored under a key is read back by the same thread under the same key; the value it
  replaces is passed to the key's destructor, once, unless it is null, unchanged or the key has no
  destructor; values under other keys and of other threads stay.\<close>

theorem setspecific_getspecific:
  assumes "keys_ok v" and "0 \<le> key" and "key < key_max v"
    and w: "st_thread_setspecific key x v = (rv, w)"
  shows "rv = 0 \<and> st_thread_getspecific key w = x \<and>
    (\<forall>t k. 0 \<le> k \<longrightarrow> k < key_max v \<longrightarrow> (t, k) \<noteq> (this_thread v, key) \<longrightarrow>
       private_of w t k = private_of v t k) \<and>
    dtor_log w = dtor_log v @
      (let old = private_of v (this_thread v) key
       in if old \<noteq> x \<and> old \<noteq> 0 \<and> destructor_of v key \<noteq> 0 then [(destructor_of v key, old)] else [])"
proof -
  have len: "\<And>t. length (t_private (thr v t)) = 16" "key < 16" "key_max v \<le> 16"
    using assms(1,3) by (auto simp: keys_ok_def ST_KEYS_MAX_def)
  then show ?thesis
    using w assms(2,3)
    by (auto simp: st_thread_setspecific_def st_thread_getspecific_def Let_def key_defs nth_list_update
        split: if_splits)
qed

text \<open>One key with destructor 77, under which the thread stored 5.\<close>

definition key_vp :: st_vp where
  "key_vp = \<lparr>thr = (\<lambda>_. zero_thread\<lparr>t_private := 5 # replicate 15 0\<rparr>), idle_thread = 0, last_clock = 0,
     run_q = [], io_q = [], sleep_q = [], zombie_q = [], sleep_max = 0, this_thread = 1,
     active_count = 1, curr_time = 0, last_tset = 0, conds = Map.empty, mutexes = Map.empty,
     compl = [], notify_event = False, errno = 0, exited = False,
     stacks = \<lparr>free_stacks = [], num_free_stacks = 0\<rparr>, key_max = 1,
     destructors = 77 # replicate 15 0, dtor_log = []\<rparr>"

lemma key_vp_ok: "keys_ok key_vp"
  by (simp add: keys_ok_def key_vp_def ST_KEYS_MAX_def)

theorem setspecific_getspecific_witness:
  "st_thread_getspecific 0 (snd (st_thread_setspecific 0 6 key_vp)) = 6 \<and>
   dtor_log (snd (st_thread_setspecific 0 6 key_vp)) = [(77, 5)]"
proof -
  have "key_max key_vp = 1" "private_of key_vp (this_thread key_vp) 0 = 5" "destructor_of key_vp 0 = 77"
    "dtor_log key_vp = []"
    by (simp_all add: key_vp_def private_of_def destructor_of_def)
  then show ?thesis
    using setspecific_getspecific [OF key_vp_ok, of 0 6] by (cases "st_thread_setspecific 0 6 key_vp") simp
qed

text \<open>C11: When a thread ends, the destructor of every key that has one is called once on the thread's
  non-null value under it, in the order of the keys, and the slot is cleared; no other thread's values
  are touched.\<close>

theorem thread_cleanup_destructors:
  assumes "keys_ok v"
  shows "dtor_log (st_thread_cleanup t v) = dtor_log v @
      map (\<lambda>k. (destructor_of v k, private_of v t k))
        (filter (\<lambda>k. private_of v t k \<noteq> 0 \<and> destructor_of v k \<noteq> 0) [0 .. key_max v - 1]) \<and>
    (\<forall>u k. 0 \<le> k \<longrightarrow> k < ST_KEYS_MAX \<longrightarrow> private_of (st_thread_cleanup t v) u k =
       (if u = t \<and> k < key_max v \<and> destructor_of v k \<noteq> 0 then 0 else private_of v u k))"
  using cleanup_loop_effect [OF assms, of 0 t]
  by (simp add: st_thread_cleanup_def cleanup_calls_def)

theorem thread_cleanup_destructors_witness:
  "dtor_log (st_thread_cleanup 1 key_vp) = [(77, 5)] \<and> private_of (st_thread_cleanup 1 key_vp) 1 0 = 0"
proof -
  have "key_max key_vp = 1" "dtor_log key_vp = []" "destructor_of key_vp 0 = 77"
    "private_of key_vp 1 0 = 5"
    by (simp_all add: key_vp_def private_of_def destructor_of_def)
  then show ?thesis
    using thread_cleanup_destructors [OF key_vp_ok, of 1] by (simp add: ST_KEYS_MAX_def)
qed

end
