(* ===== verification/Inv.thy ===== *)
theory Inv
  imports Thread
begin

text \<open>
  The invariant of the virtual processor, and its preservation by the building blocks every
  operation is made of: waking a thread, and putting the current thread to sleep and scheduling
  another.  \<open>Machine\<close> uses these for the operations.
\<close>

section \<open>The invariant\<close>

text \<open>Whether a thread with resume point \<open>r\<close> waits on a condition variable.\<close>

fun waits_on :: "resume \<Rightarrow> cid \<Rightarrow> bool" where
  "waits_on (RCond c) d = (c = d)"
| "waits_on (RJoin t c) d = (c = d)"
| "waits_on r d = False"

fun idle_point :: "resume \<Rightarrow> bool" where
  "idle_point RIdle = True"
| "idle_point RIdleDrain = True"
| "idle_point RIdleReset = True"
| "idle_point RIdleClock = True"
| "idle_point r = False"

text \<open>The queues that share a thread's \<^verbatim>\<open>links\<close> field are disjoint and agree with the thread states.\<close>

definition queues_ok :: "st_vp \<Rightarrow> bool" where
  "queues_ok v =
     (distinct (run_q v @ sleep_q v @ zombie_q v) \<and>
      (\<forall>t \<in> set (run_q v). state_of v t = ST_RUNNABLE) \<and>
      (\<forall>t \<in> set (zombie_q v). state_of v t = ST_ZOMBIE) \<and>
      (\<forall>t \<in> set (sleep_q v). state_of v t = ST_SLEEPING \<or> state_of v t = ST_COND_WAIT) \<and>
      idle_thread v \<notin> set (run_q v))"

text \<open>No thread is lost: a runnable thread is on the run queue, a sleeper on the sleep queue.\<close>

definition queued_ok :: "st_vp \<Rightarrow> bool" where
  "queued_ok v =
     (\<forall>t. (state_of v t = ST_RUNNABLE \<longrightarrow> t \<in> set (run_q v) \<or> t = idle_thread v) \<and>
          (state_of v t = ST_ZOMBIE \<longrightarrow> t \<in> set (zombie_q v)) \<and>
          (state_of v t = ST_SLEEPING \<longrightarrow> t \<in> set (sleep_q v)))"

text \<open>\<open>r\<close> is the thread that runs, \<open>None\<close> while the scheduler chooses.\<close>

definition running_ok :: "tid option \<Rightarrow> st_vp \<Rightarrow> bool" where
  "running_ok r v =
     ((\<forall>t. state_of v t = ST_RUNNING \<longleftrightarrow> r = Some t \<or> context_of v t = RDead) \<and>
      (state_of v (idle_thread v) = ST_RUNNABLE \<or> r = Some (idle_thread v)) \<and>
      (\<forall>t. r = Some t \<longrightarrow> context_of v t \<noteq> RDead) \<and>
      (\<forall>t. context_of v t = RUser \<longrightarrow> r = Some t))"

definition idle_ok :: "st_vp \<Rightarrow> bool" where
  "idle_ok v =
     ((\<forall>t. idle_point (context_of v t) \<longrightarrow> t = idle_thread v) \<and>
      (idle_point (context_of v (idle_thread v)) \<or> context_of v (idle_thread v) = RMain))"

definition context_ok :: "st_vp \<Rightarrow> bool" where
  "context_ok v =
     (\<forall>t. (state_of v t = ST_IO_WAIT \<longrightarrow> context_of v t = RWait) \<and>
          (state_of v t = ST_SLEEPING \<longrightarrow> context_of v t = RUsleep) \<and>
          (state_of v t = ST_COND_WAIT \<longrightarrow> (\<exists>c. waits_on (context_of v t) c)) \<and>
          (state_of v t = ST_LOCK_WAIT \<longrightarrow> (\<exists>m. context_of v t = RMutex m)) \<and>
          (state_of v t = ST_ZOMBIE \<longrightarrow> context_of v t = RExit))"

definition waiters_ok :: "st_vp \<Rightarrow> bool" where
  "waiters_ok v =
     ((\<forall>c. distinct (cond_q v c)) \<and>
      (\<forall>c t. t \<in> set (cond_q v c) \<longleftrightarrow> waits_on (context_of v t) c) \<and>
      (\<forall>m. distinct (m_wait_q (mutex_of v m))) \<and>
      (\<forall>m t. t \<in> set (m_wait_q (mutex_of v m)) \<longleftrightarrow> context_of v t = RMutex m))"

text \<open>A free mutex has no thread waiting for it, and a thread that left the lock-wait state was given
  the mutex or was interrupted.\<close>

definition mutexes_ok :: "st_vp \<Rightarrow> bool" where
  "mutexes_ok v =
     ((\<forall>m t. context_of v t = RMutex m \<longrightarrow> state_of v t = ST_LOCK_WAIT \<longrightarrow>
         owner (mutex_of v m) \<noteq> None) \<and>
      (\<forall>m t. context_of v t = RMutex m \<longrightarrow> state_of v t \<noteq> ST_LOCK_WAIT \<longrightarrow>
         owner (mutex_of v m) = Some t \<or> has_flag (flags_of v t) FL_INTERRUPT))"

text \<open>Completions are pending only for threads that wait for I/O, one each.\<close>

definition compl_ok :: "st_vp \<Rightarrow> bool" where
  "compl_ok v = (distinct (compl v) \<and> (\<forall>t \<in> set (compl v). state_of v t = ST_IO_WAIT))"

text \<open>Only a thread woken from a condition variable carries the time-out flag.\<close>

definition timed_ok :: "st_vp \<Rightarrow> bool" where
  "timed_ok v =
     (\<forall>t. has_flag (flags_of v t) FL_TIMEDOUT \<longrightarrow>
        state_of v t \<noteq> ST_COND_WAIT \<and> (\<exists>c. waits_on (context_of v t) c))"

definition core :: "tid option \<Rightarrow> st_vp \<Rightarrow> bool" where
  "core r v =
     (queues_ok v \<and> queued_ok v \<and> sleepq_ok v \<and> running_ok r v \<and> idle_ok v \<and> context_ok v \<and> waiters_ok v \<and>
      mutexes_ok v \<and> compl_ok v \<and> timed_ok v)"

definition vp_inv :: "st_vp \<Rightarrow> bool" where
  "vp_inv v = core (Some (this_thread v)) v"

lemmas core_defs =
  queues_ok_def queued_ok_def running_ok_def idle_ok_def context_ok_def waiters_ok_def mutexes_ok_def
  compl_ok_def timed_ok_def

lemma core_running:
  "core r v \<Longrightarrow> state_of v t = ST_RUNNING \<longleftrightarrow> r = Some t \<or> context_of v t = RDead"
  unfolding core_def running_ok_def by blast

lemma core_idle: "core r v \<Longrightarrow> idle_point (context_of v (idle_thread v)) \<or> context_of v (idle_thread v) = RMain"
  unfolding core_def idle_ok_def by blast

lemma core_current: "core (Some t) v \<Longrightarrow> context_of v t \<noteq> RDead"
  unfolding core_def running_ok_def by blast

lemma vp_invD:
  assumes "vp_inv v"
  shows "state_of v (this_thread v) = ST_RUNNING" and "context_of v (this_thread v) \<noteq> RDead"
    and "this_thread v \<notin> set (run_q v)" and "this_thread v \<notin> set (sleep_q v)"
    and "this_thread v \<notin> set (zombie_q v)"
    and "\<not> has_flag (flags_of v (this_thread v)) FL_ON_SLEEPQ"
proof -
  have c: "queues_ok v" "sleepq_ok v" "running_ok (Some (this_thread v)) v"
    using assms by (simp_all add: vp_inv_def core_def)
  show s: "state_of v (this_thread v) = ST_RUNNING" "context_of v (this_thread v) \<noteq> RDead"
    using c(3) by (auto simp: running_ok_def)
  show "this_thread v \<notin> set (run_q v)"
  proof
    assume "this_thread v \<in> set (run_q v)"
    with c(1) s(1) show False by (simp add: queues_ok_def)
  qed
  show "this_thread v \<notin> set (zombie_q v)"
  proof
    assume "this_thread v \<in> set (zombie_q v)"
    with c(1) s(1) show False by (simp add: queues_ok_def)
  qed
  show "this_thread v \<notin> set (sleep_q v)"
  proof
    assume "this_thread v \<in> set (sleep_q v)"
    with c(1) s(1) show False by (auto simp: queues_ok_def)
  qed
  then show "\<not> has_flag (flags_of v (this_thread v)) FL_ON_SLEEPQ"
    using c(2) by (simp add: sleepq_ok_def)
qed

text \<open>The mutex clauses survive a change that keeps owners, waits and interrupts.\<close>

lemma mutexes_ok_cong:
  assumes ok: "mutexes_ok v" and own: "\<And>m. owner (mutex_of w m) = owner (mutex_of v m)"
    and cond: "\<And>u m. context_of w u = RMutex m \<Longrightarrow> context_of v u = RMutex m \<and>
      (state_of w u = ST_LOCK_WAIT \<longleftrightarrow> state_of v u = ST_LOCK_WAIT) \<and>
      (has_flag (flags_of v u) FL_INTERRUPT \<longrightarrow> has_flag (flags_of w u) FL_INTERRUPT)"
  shows "mutexes_ok w"
  unfolding mutexes_ok_def own
proof (intro conjI allI impI)
  fix m u
  assume "context_of w u = RMutex m" "state_of w u = ST_LOCK_WAIT"
  with cond [of u m] show "owner (mutex_of v m) \<noteq> None" using ok by (metis mutexes_ok_def)
next
  fix m u
  assume "context_of w u = RMutex m" "state_of w u \<noteq> ST_LOCK_WAIT"
  with cond [of u m] show "owner (mutex_of v m) = Some u \<or> has_flag (flags_of w u) FL_INTERRUPT"
    using ok by (auto simp: mutexes_ok_def)
qed

section \<open>Frame lemmas\<close>

text \<open>What waking a thread does, field by field.\<close>

definition wake :: "tid \<Rightarrow> st_vp \<Rightarrow> st_vp" where
  "wake t v = make_runnable t (leave_sleep_q t v)"

named_theorems frame

lemma upd_frame [frame]:
  "run_q (upd t f v) = run_q v" "zombie_q (upd t f v) = zombie_q v" "io_q (upd t f v) = io_q v"
  "sleep_q (upd t f v) = sleep_q v" "sleep_max (upd t f v) = sleep_max v"
  "idle_thread (upd t f v) = idle_thread v" "this_thread (upd t f v) = this_thread v"
  "conds (upd t f v) = conds v" "mutexes (upd t f v) = mutexes v" "compl (upd t f v) = compl v"
  "active_count (upd t f v) = active_count v" "exited (upd t f v) = exited v"
  "notify_event (upd t f v) = notify_event v" "errno (upd t f v) = errno v"
  "thr (upd t f v) u = (if u = t then f (thr v t) else thr v u)"
  by (simp_all add: upd_def)

lemma del_sleep_frame [frame]:
  "run_q (st_del_sleep_q t e v) = run_q v" "zombie_q (st_del_sleep_q t e v) = zombie_q v"
  "idle_thread (st_del_sleep_q t e v) = idle_thread v"
  "this_thread (st_del_sleep_q t e v) = this_thread v"
  "conds (st_del_sleep_q t e v) = conds v" "mutexes (st_del_sleep_q t e v) = mutexes v"
  "compl (st_del_sleep_q t e v) = compl v" "exited (st_del_sleep_q t e v) = exited v"
  "active_count (st_del_sleep_q t e v) = active_count v"
  "notify_event (st_del_sleep_q t e v) = notify_event v"
  "state_of (st_del_sleep_q t e v) u = state_of v u"
  "context_of (st_del_sleep_q t e v) u = context_of v u"
  "has_flag (flags_of (st_del_sleep_q t e v) u) f \<longleftrightarrow>
     has_flag (flags_of v u) f \<and> \<not> (u = t \<and> f = FL_ON_SLEEPQ)"
  by (auto simp: st_del_sleep_q_def Let_def upd_defs split: option.split)

lemma add_sleep_frame [frame]:
  "run_q (st_add_sleep_q t x v) = run_q v" "zombie_q (st_add_sleep_q t x v) = zombie_q v"
  "idle_thread (st_add_sleep_q t x v) = idle_thread v"
  "this_thread (st_add_sleep_q t x v) = this_thread v"
  "conds (st_add_sleep_q t x v) = conds v" "mutexes (st_add_sleep_q t x v) = mutexes v"
  "compl (st_add_sleep_q t x v) = compl v" "exited (st_add_sleep_q t x v) = exited v"
  "active_count (st_add_sleep_q t x v) = active_count v"
  "notify_event (st_add_sleep_q t x v) = notify_event v"
  "state_of (st_add_sleep_q t x v) u = state_of v u"
  "context_of (st_add_sleep_q t x v) u = context_of v u"
  "has_flag (flags_of (st_add_sleep_q t x v) u) f \<longleftrightarrow>
     has_flag (flags_of v u) f \<or> u = t \<and> f = FL_ON_SLEEPQ"
  by (auto simp: st_add_sleep_q_def Let_def upd_defs split: prod.split list.split)

lemma cond_q_cong: "conds w = conds v \<Longrightarrow> cond_q w c = cond_q v c"
  by (simp add: cond_q_def)

lemma mutex_of_cong: "mutexes w = mutexes v \<Longrightarrow> mutex_of w m = mutex_of v m"
  by (simp add: mutex_of_def)

lemma wake_sleep_q:
  assumes "sleepq_ok v"
  shows "sleep_q (wake t v) = remove1 t (sleep_q v)" and "sleepq_ok (wake t v)"
proof -
  let ?v = "leave_sleep_q t v"
  have q: "sleep_q ?v = remove1 t (sleep_q v)" and ok: "sleepq_ok ?v"
    using assms del_sleep_q_refines(2) [OF assms, of t]
    by (auto simp: leave_sleep_q_def sleepq_ok_def)
  show "sleep_q (wake t v) = remove1 t (sleep_q v)"
    using q by (simp add: wake_def make_runnable_def queue_macro_defs set_state_def)
  have "(\<lambda>u. sleep_of (wake t v) u) = (\<lambda>u. sleep_of ?v u)"
    "sleep_max (wake t v) = sleep_max ?v" "sleep_q (wake t v) = sleep_q ?v"
    "\<And>u. flags_of (wake t v) u = flags_of ?v u"
    by (auto simp: wake_def make_runnable_def queue_macro_defs upd_defs)
  then show "sleepq_ok (wake t v)" using ok by (simp add: sleepq_ok_def)
qed

lemma wake_frame [frame]:
  "run_q (wake t v) = run_q v @ [t]" "zombie_q (wake t v) = zombie_q v"
  "idle_thread (wake t v) = idle_thread v" "this_thread (wake t v) = this_thread v"
  "conds (wake t v) = conds v" "mutexes (wake t v) = mutexes v"
  "compl (wake t v) = compl v" "exited (wake t v) = exited v"
  "active_count (wake t v) = active_count v" "notify_event (wake t v) = notify_event v"
  "state_of (wake t v) u = (if u = t then ST_RUNNABLE else state_of v u)"
  "context_of (wake t v) u = context_of v u"
  "has_flag (flags_of (wake t v) u) f \<longleftrightarrow>
     has_flag (flags_of v u) f \<and> \<not> (u = t \<and> f = FL_ON_SLEEPQ)"
  by (auto simp: wake_def make_runnable_def queue_macro_defs leave_sleep_q_def set_state_def frame)

lemma wake_sleeper_frame [frame]:
  "zombie_q (wake_sleeper t v) = zombie_q v" "run_q (wake_sleeper t v) = run_q v @ [t]"
  "idle_thread (wake_sleeper t v) = idle_thread v"
  "this_thread (wake_sleeper t v) = this_thread v"
  "conds (wake_sleeper t v) = conds v" "mutexes (wake_sleeper t v) = mutexes v"
  "compl (wake_sleeper t v) = compl v" "exited (wake_sleeper t v) = exited v"
  "active_count (wake_sleeper t v) = active_count v"
  "notify_event (wake_sleeper t v) = notify_event v"
  "state_of (wake_sleeper t v) u = (if u = t then ST_RUNNABLE else state_of v u)"
  "context_of (wake_sleeper t v) u = context_of v u"
  "has_flag (flags_of (wake_sleeper t v) u) f \<longleftrightarrow>
     (has_flag (flags_of v u) f \<and> \<not> (u = t \<and> f = FL_ON_SLEEPQ)) \<or>
     (u = t \<and> f = FL_TIMEDOUT \<and> state_of v t = ST_COND_WAIT)"
  by (auto simp: wake_sleeper_def make_runnable_def queue_macro_defs set_state_def add_flag_def
      Let_def frame)

section \<open>Waking a thread keeps the invariant\<close>

definition waiting :: "tstate \<Rightarrow> bool" where
  "waiting s = (s \<in> {ST_IO_WAIT, ST_LOCK_WAIT, ST_COND_WAIT, ST_SLEEPING})"

lemma waiting_not [simp]:
  "waiting s \<Longrightarrow> s \<noteq> ST_RUNNABLE" "waiting s \<Longrightarrow> s \<noteq> ST_RUNNING" "waiting s \<Longrightarrow> s \<noteq> ST_ZOMBIE"
  by (auto simp: waiting_def)

lemma waiting_facts:
  assumes "core r v" and "waiting (state_of v t)"
  shows "t \<notin> set (run_q v)" and "t \<notin> set (zombie_q v)" and "t \<noteq> idle_thread v"
    and "r \<noteq> Some t" and "context_of v t \<noteq> RDead" and "context_of v t \<noteq> RUser"
proof -
  have c: "queues_ok v" "running_ok r v" using assms(1) by (simp_all add: core_def)
  have n: "state_of v t \<noteq> ST_RUNNABLE" "state_of v t \<noteq> ST_RUNNING" "state_of v t \<noteq> ST_ZOMBIE"
    using assms(2) by auto
  show "t \<notin> set (run_q v)" "t \<notin> set (zombie_q v)" using c(1) n by (auto simp: queues_ok_def)
  show rt: "r \<noteq> Some t" and "context_of v t \<noteq> RDead" "context_of v t \<noteq> RUser"
    using c(2) n by (auto simp: running_ok_def)
  then show "t \<noteq> idle_thread v" using c(2) n by (auto simp: running_ok_def)
qed

text \<open>Both ways the code wakes a waiting thread, described by what they change.\<close>

definition woken :: "tid \<Rightarrow> st_vp \<Rightarrow> st_vp \<Rightarrow> bool" where
  "woken t v w =
     (run_q w = run_q v @ [t] \<and> sleep_q w = remove1 t (sleep_q v) \<and> zombie_q w = zombie_q v \<and>
      idle_thread w = idle_thread v \<and> this_thread w = this_thread v \<and> conds w = conds v \<and>
      mutexes w = mutexes v \<and> compl w = compl v \<and> sleepq_ok w \<and>
      (\<forall>u. state_of w u = (if u = t then ST_RUNNABLE else state_of v u)) \<and>
      (\<forall>u. context_of w u = context_of v u) \<and>
      (\<forall>u. has_flag (flags_of w u) FL_INTERRUPT = has_flag (flags_of v u) FL_INTERRUPT) \<and>
      (\<forall>u. has_flag (flags_of w u) FL_TIMEDOUT \<longrightarrow>
        has_flag (flags_of v u) FL_TIMEDOUT \<or> u = t \<and> state_of v t = ST_COND_WAIT))"

lemma wake_woken: "sleepq_ok v \<Longrightarrow> woken t v (wake t v)"
  by (simp add: woken_def frame wake_sleep_q)

lemma wake_sleeper_woken:
  assumes "sleepq_ok v" and "sleep_q v = t # q"
  shows "woken t v (wake_sleeper t v)"
  using wake_head(3) [OF assms] assms(2) by (simp add: woken_def frame)

lemma woken_core:
  assumes core: "core r v" and w: "woken t v w" and st: "waiting (state_of v t)"
    and nc: "t \<notin> set (compl v)"
    and lock: "\<And>m. context_of v t = RMutex m \<Longrightarrow>
      owner (mutex_of v m) = Some t \<or> has_flag (flags_of v t) FL_INTERRUPT"
  shows "core r w"
proof -
  note f = waiting_facts [OF core st]
  have cq: "\<And>c. cond_q w c = cond_q v c" and mq: "\<And>m. mutex_of w m = mutex_of v m"
    using w by (auto simp: woken_def intro: cond_q_cong mutex_of_cong)
  have c: "queues_ok v" "queued_ok v" "running_ok r v" "idle_ok v" "context_ok v" "waiters_ok v"
    "mutexes_ok v" "compl_ok v" "timed_ok v" using core by (simp_all add: core_def)
  have ds: "distinct (sleep_q v)" using c(1) by (simp add: queues_ok_def)
  have "queues_ok w"
    using c(1) f ds w by (auto simp: queues_ok_def woken_def)
  moreover have "queued_ok w"
    using c(2) f ds w by (auto simp: queued_ok_def woken_def)
  moreover have "running_ok r w"
    using c(3) f w by (auto simp: running_ok_def woken_def)
  moreover have "idle_ok w" using c(4) w by (auto simp: idle_ok_def woken_def)
  moreover have "context_ok w" using c(5) w by (auto simp: context_ok_def woken_def)
  moreover have "waiters_ok w" using c(6) w by (simp add: waiters_ok_def woken_def cq mq)
  moreover have "mutexes_ok w"
    unfolding mutexes_ok_def mq
  proof (intro conjI allI impI)
    fix m u
    assume "context_of w u = RMutex m" and "state_of w u = ST_LOCK_WAIT"
    then show "owner (mutex_of v m) \<noteq> None"
      using c(7) w by (simp add: mutexes_ok_def woken_def split: if_splits)
  next
    fix m u
    assume ctx: "context_of w u = RMutex m" and "state_of w u \<noteq> ST_LOCK_WAIT"
    then show "owner (mutex_of v m) = Some u \<or> has_flag (flags_of w u) FL_INTERRUPT"
      using c(7) w lock by (cases "u = t") (simp_all add: mutexes_ok_def woken_def)
  qed
  moreover have "compl_ok w" using c(8) w nc by (auto simp: compl_ok_def woken_def)
  moreover have "timed_ok w"
    using c(5,9) w by (auto simp: timed_ok_def context_ok_def woken_def)
  ultimately show ?thesis using w by (simp add: core_def woken_def)
qed

lemma wake_core:
  assumes "core r v" and "waiting (state_of v t)" and "t \<notin> set (compl v)"
    and "\<And>m. context_of v t = RMutex m \<Longrightarrow>
      owner (mutex_of v m) = Some t \<or> has_flag (flags_of v t) FL_INTERRUPT"
  shows "core r (wake t v)"
  using assms(1) wake_woken assms(2-4) by (rule woken_core) (use assms(1) in \<open>simp add: core_def\<close>)

text \<open>A pending completion means that the thread waits for I/O, so no other wake-up concerns it.\<close>

lemma not_compl: "core r v \<Longrightarrow> state_of v t \<noteq> ST_IO_WAIT \<Longrightarrow> t \<notin> set (compl v)"
  by (auto simp: core_def compl_ok_def)

lemma not_mutex:
  assumes "core r v" and "context_of v t = RMutex m"
  shows "state_of v t \<noteq> ST_COND_WAIT \<and> state_of v t \<noteq> ST_SLEEPING \<and> state_of v t \<noteq> ST_IO_WAIT"
  using assms by (auto simp: core_def context_ok_def)

text \<open>Waking a thread from a condition variable or from sleep.\<close>

lemma wake_cond_core:
  assumes "core r v" and "state_of v t = ST_COND_WAIT"
  shows "core r (wake t v)"
  using assms(1)
proof (rule wake_core)
  show "waiting (state_of v t)" using assms(2) by (simp add: waiting_def)
  show "t \<notin> set (compl v)" using assms by (simp add: not_compl)
  show "owner (mutex_of v m) = Some t \<or> has_flag (flags_of v t) FL_INTERRUPT"
    if "context_of v t = RMutex m" for m
    using not_mutex [OF assms(1) that] assms(2) by simp
qed

lemma wake_sleeper_core:
  assumes "core r v" and "sleep_q v = t # q"
  shows "core r (wake_sleeper t v)"
proof -
  have st: "state_of v t = ST_SLEEPING \<or> state_of v t = ST_COND_WAIT" and ok: "sleepq_ok v"
    using assms by (auto simp: core_def queues_ok_def)
  show ?thesis
  proof (rule woken_core [OF assms(1) wake_sleeper_woken [OF ok assms(2)]])
    show "waiting (state_of v t)" using st by (auto simp: waiting_def)
    show "t \<notin> set (compl v)" using not_compl [OF assms(1), of t] st by auto
    show "owner (mutex_of v m) = Some t \<or> has_flag (flags_of v t) FL_INTERRUPT"
      if "context_of v t = RMutex m" for m
      using not_mutex [OF assms(1) that] st by auto
  qed
qed

section \<open>Small updates\<close>

text \<open>Updates that touch nothing the invariant reads, or only add an interrupt.\<close>

definition same_core :: "st_vp \<Rightarrow> st_vp \<Rightarrow> bool" where
  "same_core v w =
     (run_q w = run_q v \<and> sleep_q w = sleep_q v \<and> zombie_q w = zombie_q v \<and>
      idle_thread w = idle_thread v \<and> compl w = compl v \<and>
      (\<forall>c. cond_q w c = cond_q v c) \<and> (\<forall>m. mutex_of w m = mutex_of v m) \<and>
      (\<forall>u. state_of w u = state_of v u \<and> context_of w u = context_of v u) \<and>
      (sleepq_ok v \<longrightarrow> sleepq_ok w) \<and>
      (\<forall>u. has_flag (flags_of v u) FL_INTERRUPT \<longrightarrow> has_flag (flags_of w u) FL_INTERRUPT) \<and>
      (\<forall>u. has_flag (flags_of w u) FL_TIMEDOUT \<longrightarrow> has_flag (flags_of v u) FL_TIMEDOUT))"

lemma same_core_core:
  assumes core: "core r v" and s: "same_core v w"
  shows "core r w"
proof -
  have c: "queues_ok v" "queued_ok v" "sleepq_ok v" "running_ok r v" "idle_ok v" "context_ok v"
    "waiters_ok v" "mutexes_ok v" "compl_ok v" "timed_ok v" using core by (simp_all add: core_def)
  have f: "\<And>u. state_of w u = state_of v u" "\<And>u. context_of w u = context_of v u"
    "run_q w = run_q v" "sleep_q w = sleep_q v" "zombie_q w = zombie_q v"
    "idle_thread w = idle_thread v" "compl w = compl v" "\<And>c. cond_q w c = cond_q v c"
    "\<And>m. mutex_of w m = mutex_of v m"
    using s by (simp_all add: same_core_def)
  have g: "sleepq_ok w"
    "\<And>u. has_flag (flags_of v u) FL_INTERRUPT \<Longrightarrow> has_flag (flags_of w u) FL_INTERRUPT"
    "\<And>u. has_flag (flags_of w u) FL_TIMEDOUT \<Longrightarrow> has_flag (flags_of v u) FL_TIMEDOUT"
    using s c(3) by (simp_all add: same_core_def)
  have "queues_ok w" using c(1) unfolding queues_ok_def f .
  moreover have "queued_ok w" using c(2) unfolding queued_ok_def f .
  moreover have "running_ok r w" using c(4) unfolding running_ok_def f .
  moreover have "idle_ok w" using c(5) unfolding idle_ok_def f .
  moreover have "context_ok w" using c(6) unfolding context_ok_def f .
  moreover have "waiters_ok w" using c(7) unfolding waiters_ok_def f .
  moreover have "compl_ok w" using c(9) unfolding compl_ok_def f .
  moreover have "mutexes_ok w" using c(8) g(2) unfolding mutexes_ok_def f by blast
  moreover have "timed_ok w" using c(10) g(3) unfolding timed_ok_def f by blast
  ultimately show ?thesis using g(1) by (simp add: core_def)
qed

lemma sleepq_ok_cong:
  assumes "sleepq_ok v" and "sleep_q w = sleep_q v" and "sleep_max w = sleep_max v"
    and "\<And>u. sleep_of w u = sleep_of v u"
    and "\<And>u. has_flag (flags_of w u) FL_ON_SLEEPQ = has_flag (flags_of v u) FL_ON_SLEEPQ"
  shows "sleepq_ok w"
proof -
  have "qsum (\<lambda>t. sleep_of w t) (sleep_q v) = qsum (\<lambda>t. sleep_of v t) (sleep_q v)"
    by (rule qsum_cong) (rule assms(4))
  then show ?thesis using assms by (simp add: sleepq_ok_def)
qed

lemma upd_same_core:
  assumes "\<And>x. t_state (f x) = t_state x" and "\<And>x. t_context (f x) = t_context x"
    and "\<And>x. t_flags (f x) = t_flags x \<or> t_flags (f x) = set_flag (t_flags x) FL_INTERRUPT"
    and "\<And>x. t_sleep (f x) = t_sleep x"
  shows "same_core v (upd t f v)"
proof -
  have "has_flag (t_flags (f x)) g = has_flag (t_flags x) g" if "g \<noteq> FL_INTERRUPT" for x g
    using assms(3) [of x] that by auto
  moreover have "has_flag (t_flags (f x)) FL_INTERRUPT" if "has_flag (t_flags x) FL_INTERRUPT" for x
    using assms(3) [of x] that by auto
  moreover have "sleepq_ok (upd t f v)" if "sleepq_ok v"
    using that by (rule sleepq_ok_cong) (simp_all add: frame assms calculation)
  ultimately show ?thesis
    by (simp add: same_core_def frame assms cond_q_def mutex_of_def)
qed

lemma interrupt_flag_core: "core r v \<Longrightarrow> core r (add_flag t FL_INTERRUPT v)"
  unfolding add_flag_def by (erule same_core_core, rule upd_same_core) simp_all

end
