(* ===== verification/Block.thy ===== *)
theory Block
  imports Inv
begin

text \<open>
  How the current thread gives up the processor and gets it back: every operation of the run-time is
  a composition of the wake-ups of \<open>Inv\<close> with the three transitions of this theory, so its
  preservation of the invariant is a few lines (\<open>Machine\<close>).
\<close>

section \<open>Scheduling\<close>

lemma schedule_some:
  assumes core: "core None v" and q: "run_q v = t # q"
  shows "core (Some t) (set_state t ST_RUNNING (ST_DEL_RUNQ t v))"
proof -
  define w where "w = set_state t ST_RUNNING (ST_DEL_RUNQ t v)"
  have c: "queues_ok v" "queued_ok v" "sleepq_ok v" "running_ok None v" "idle_ok v" "context_ok v"
    "waiters_ok v" "mutexes_ok v" "compl_ok v" "timed_ok v" using core by (simp_all add: core_def)
  have f: "run_q w = q" "sleep_q w = sleep_q v" "zombie_q w = zombie_q v"
    "idle_thread w = idle_thread v" "compl w = compl v" "\<And>c. cond_q w c = cond_q v c"
    "\<And>m. mutex_of w m = mutex_of v m"
    "\<And>u. state_of w u = (if u = t then ST_RUNNING else state_of v u)"
    "\<And>u. context_of w u = context_of v u" "\<And>u. flags_of w u = flags_of v u"
    "\<And>u. sleep_of w u = sleep_of v u" "sleep_max w = sleep_max v"
    using q by (simp_all add: w_def set_state_def queue_macro_defs frame cond_q_def mutex_of_def)
  have st: "state_of v t = ST_RUNNABLE" and ti: "t \<noteq> idle_thread v"
    using c(1) q by (auto simp: queues_ok_def)
  have run: "\<And>u. state_of v u = ST_RUNNING \<longleftrightarrow> context_of v u = RDead"
    "state_of v (idle_thread v) = ST_RUNNABLE" "\<And>u. context_of v u \<noteq> RUser"
    using c(4) by (simp_all add: running_ok_def)
  have nd: "context_of v t \<noteq> RDead" using run(1) [of t] st by simp
  have "sleepq_ok w" using c(3) by (rule sleepq_ok_cong) (simp_all add: f)
  moreover have "queues_ok w" using c(1) q st by (auto simp: queues_ok_def f)
  moreover have "queued_ok w" using c(2) q by (auto simp: queued_ok_def f)
  moreover have "running_ok (Some t) w" using ti nd by (auto simp: running_ok_def f run)
  moreover have "idle_ok w" using c(5) unfolding idle_ok_def f .
  moreover have "context_ok w" using c(6) by (auto simp: context_ok_def f)
  moreover have "waiters_ok w" using c(7) unfolding waiters_ok_def f .
  moreover have "mutexes_ok w"
    using c(8) by (rule mutexes_ok_cong) (use st in \<open>auto simp: f\<close>)
  moreover have "compl_ok w" using c(9) st by (auto simp: compl_ok_def f)
  moreover have "timed_ok w" using c(10) unfolding timed_ok_def f by simp
  ultimately show ?thesis by (simp add: core_def w_def)
qed

lemma schedule_idle:
  assumes core: "core None v" and q: "run_q v = []"
  shows "core (Some (idle_thread v)) (set_state (idle_thread v) ST_RUNNING v)"
proof -
  define t where "t = idle_thread v"
  define w where "w = set_state t ST_RUNNING v"
  have c: "queues_ok v" "queued_ok v" "sleepq_ok v" "running_ok None v" "idle_ok v" "context_ok v"
    "waiters_ok v" "mutexes_ok v" "compl_ok v" "timed_ok v" using core by (simp_all add: core_def)
  have f: "run_q w = []" "sleep_q w = sleep_q v" "zombie_q w = zombie_q v"
    "idle_thread w = t" "compl w = compl v" "\<And>c. cond_q w c = cond_q v c"
    "\<And>m. mutex_of w m = mutex_of v m"
    "\<And>u. state_of w u = (if u = t then ST_RUNNING else state_of v u)"
    "\<And>u. context_of w u = context_of v u" "\<And>u. flags_of w u = flags_of v u"
    "\<And>u. sleep_of w u = sleep_of v u" "sleep_max w = sleep_max v"
    using q by (simp_all add: w_def t_def set_state_def frame cond_q_def mutex_of_def)
  have st: "state_of v t = ST_RUNNABLE"
    using c(4) by (auto simp: running_ok_def t_def)
  have run: "\<And>u. state_of v u = ST_RUNNING \<longleftrightarrow> context_of v u = RDead"
    "state_of v (idle_thread v) = ST_RUNNABLE" "\<And>u. context_of v u \<noteq> RUser"
    using c(4) by (simp_all add: running_ok_def)
  have nd: "context_of v t \<noteq> RDead" using run(1) [of t] st by simp
  have "sleepq_ok w" using c(3) by (rule sleepq_ok_cong) (simp_all add: f)
  moreover have "queues_ok w" using c(1) q st by (auto simp: queues_ok_def f)
  moreover have "queued_ok w" using c(2) q by (auto simp: queued_ok_def f t_def)
  moreover have "running_ok (Some t) w" using nd by (auto simp: running_ok_def f run)
  moreover have "idle_ok w" using c(5) unfolding idle_ok_def f t_def .
  moreover have "context_ok w" using c(6) by (auto simp: context_ok_def f)
  moreover have "waiters_ok w" using c(7) unfolding waiters_ok_def f .
  moreover have "mutexes_ok w"
    using c(8) by (rule mutexes_ok_cong) (use st in \<open>auto simp: f\<close>)
  moreover have "compl_ok w" using c(9) st by (auto simp: compl_ok_def f)
  moreover have "timed_ok w" using c(10) unfolding timed_ok_def f by simp
  ultimately show ?thesis by (simp add: core_def w_def t_def)
qed

lemma core_this [simp]: "core r (v\<lparr>this_thread := t\<rparr>) = core r v"
  by (simp add: core_def core_defs sleepq_ok_def cond_q_def mutex_of_def)

lemma schedule_inv:
  assumes "core None v"
  shows "vp_inv (st_vp_schedule v)"
  using schedule_some [OF assms] schedule_idle [OF assms]
  by (cases "run_q v") (simp_all add: st_vp_schedule_def vp_inv_def)

section \<open>Returning to the thread's own code\<close>

text \<open>The state in which the current thread \<open>me\<close>, not the idle thread, returns to its own code: the
  invariant holds once its resume point is forgotten.\<close>

definition ready :: "tid \<Rightarrow> st_vp \<Rightarrow> bool" where
  "ready me v =
     (this_thread v = me \<and> me \<noteq> idle_thread v \<and> core (Some me) (set_context me RUser v))"

text \<open>What a resumed function does before it returns: it takes the thread out of the wait queues.\<close>

definition left_queues :: "tid \<Rightarrow> st_vp \<Rightarrow> st_vp \<Rightarrow> bool" where
  "left_queues me v w =
     (run_q w = run_q v \<and> sleep_q w = sleep_q v \<and> zombie_q w = zombie_q v \<and>
      idle_thread w = idle_thread v \<and> compl w = compl v \<and> sleep_max w = sleep_max v \<and>
      this_thread w = this_thread v \<and>
      (\<forall>c. cond_q w c = remove1 me (cond_q v c)) \<and>
      (\<forall>m. owner (mutex_of w m) = owner (mutex_of v m) \<and>
           m_wait_q (mutex_of w m) = remove1 me (m_wait_q (mutex_of v m))) \<and>
      (\<forall>u. state_of w u = state_of v u \<and> sleep_of w u = sleep_of v u) \<and>
      (\<forall>u. u \<noteq> me \<longrightarrow> context_of w u = context_of v u \<and> flags_of w u = flags_of v u) \<and>
      has_flag (flags_of w me) FL_ON_SLEEPQ = has_flag (flags_of v me) FL_ON_SLEEPQ \<and>
      \<not> has_flag (flags_of w me) FL_TIMEDOUT)"

lemma left_queues_ready:
  assumes inv: "vp_inv v" and me: "this_thread v = me" "me \<noteq> idle_thread v"
    and l: "left_queues me v w"
  shows "ready me w"
proof -
  define x where "x = set_context me RUser w"
  have c: "queues_ok v" "queued_ok v" "sleepq_ok v" "running_ok (Some me) v" "idle_ok v" "context_ok v"
    "waiters_ok v" "mutexes_ok v" "compl_ok v" "timed_ok v"
    using inv me by (simp_all add: vp_inv_def core_def)
  have st: "state_of v me = ST_RUNNING" using vp_invD(1) [OF inv] me by simp
  have f: "run_q x = run_q v" "sleep_q x = sleep_q v" "zombie_q x = zombie_q v"
    "idle_thread x = idle_thread v" "compl x = compl v" "sleep_max x = sleep_max v"
    "\<And>c. cond_q x c = remove1 me (cond_q v c)"
    "\<And>m. owner (mutex_of x m) = owner (mutex_of v m)"
    "\<And>m. m_wait_q (mutex_of x m) = remove1 me (m_wait_q (mutex_of v m))"
    "\<And>u. state_of x u = state_of v u" "\<And>u. sleep_of x u = sleep_of v u"
    "\<And>u. context_of x u = (if u = me then RUser else context_of v u)"
    "\<And>u. has_flag (flags_of x u) FL_ON_SLEEPQ = has_flag (flags_of v u) FL_ON_SLEEPQ"
    "\<And>u. u \<noteq> me \<Longrightarrow> has_flag (flags_of x u) g = has_flag (flags_of v u) g"
    "\<not> has_flag (flags_of x me) FL_TIMEDOUT" for g
    using l by (auto simp: left_queues_def x_def set_context_def frame cond_q_def mutex_of_def)
  have "sleepq_ok x" using c(3) by (rule sleepq_ok_cong) (simp_all add: f)
  moreover have "queues_ok x" using c(1) unfolding queues_ok_def f .
  moreover have "queued_ok x" using c(2) unfolding queued_ok_def f .
  moreover have "running_ok (Some me) x" using c(4) unfolding running_ok_def f by auto
  moreover have "idle_ok x" using c(5) me unfolding idle_ok_def f by auto
  moreover have "context_ok x" using c(6) st unfolding context_ok_def f by auto
  moreover have "waiters_ok x" using c(7) by (auto simp: waiters_ok_def f)
  moreover have "mutexes_ok x"
    using c(8) by (rule mutexes_ok_cong) (auto simp: f split: if_splits)
  moreover have "compl_ok x" using c(9) unfolding compl_ok_def f .
  moreover have "timed_ok x" unfolding timed_ok_def
  proof (intro allI impI)
    fix u
    assume a: "has_flag (flags_of x u) FL_TIMEDOUT"
    then have "u \<noteq> me" using f(15) by auto
    then show "state_of x u \<noteq> ST_COND_WAIT \<and> (\<exists>c. waits_on (context_of x u) c)"
      using c(10) a by (auto simp: timed_ok_def f)
  qed
  ultimately have "core (Some me) x" by (simp add: core_def)
  then show ?thesis using me l by (simp add: ready_def x_def left_queues_def)
qed

text \<open>A thread that is not inside a blocking function is in no wait queue.\<close>

definition plain :: "resume \<Rightarrow> bool" where
  "plain r = (r \<in> {RUser, RMain, RWait, RUsleep, RExit})"

lemma plain_not_waiting:
  assumes "vp_inv v" and "plain (context_of v (this_thread v))"
  shows "this_thread v \<notin> set (cond_q v c)"
    and "this_thread v \<notin> set (m_wait_q (mutex_of v m))"
    and "\<not> has_flag (flags_of v (this_thread v)) FL_TIMEDOUT"
proof -
  have w: "waiters_ok v" "timed_ok v" using assms(1) by (simp_all add: vp_inv_def core_def)
  have n: "\<And>c. \<not> waits_on (context_of v (this_thread v)) c"
    "\<And>m. context_of v (this_thread v) \<noteq> RMutex m"
    using assms(2) by (auto simp: plain_def)
  show "this_thread v \<notin> set (cond_q v c)" "this_thread v \<notin> set (m_wait_q (mutex_of v m))"
    using w(1) n by (simp_all add: waiters_ok_def)
  show "\<not> has_flag (flags_of v (this_thread v)) FL_TIMEDOUT"
    using w(2) n(1) by (auto simp: timed_ok_def)
qed

lemma plain_left_queues:
  assumes inv: "vp_inv v" and p: "plain (context_of v (this_thread v))"
  shows "left_queues (this_thread v) v v"
  using plain_not_waiting [OF inv p] by (auto simp: left_queues_def remove1_idem)

lemma plain_ready:
  assumes "vp_inv v" and "plain (context_of v (this_thread v))" and "this_thread v \<noteq> idle_thread v"
  shows "ready (this_thread v) v"
  using left_queues_ready [OF assms(1) refl assms(3)] plain_left_queues [OF assms(1,2)] by blast

section \<open>Giving up the processor\<close>

text \<open>The state and the resume point a thread blocks with belong together.\<close>

fun rests :: "tstate \<Rightarrow> resume \<Rightarrow> bool" where
  "rests ST_IO_WAIT RWait = True"
| "rests ST_SLEEPING RUsleep = True"
| "rests ST_COND_WAIT (RCond c) = True"
| "rests ST_COND_WAIT (RJoin t c) = True"
| "rests ST_LOCK_WAIT (RMutex m) = True"
| "rests ST_ZOMBIE RExit = True"
| "rests ST_RUNNING RDead = True"
| "rests s r = False"

lemma rests_cases:
  assumes "rests s r"
  obtains "s = ST_IO_WAIT" "r = RWait" | "s = ST_SLEEPING" "r = RUsleep"
    | c where "s = ST_COND_WAIT" "r = RCond c" | t c where "s = ST_COND_WAIT" "r = RJoin t c"
    | m where "s = ST_LOCK_WAIT" "r = RMutex m" | "s = ST_ZOMBIE" "r = RExit"
    | "s = ST_RUNNING" "r = RDead"
  using assms by (cases s; cases r) auto

definition blocked :: "tid \<Rightarrow> tstate \<Rightarrow> resume \<Rightarrow> st_vp \<Rightarrow> st_vp \<Rightarrow> bool" where
  "blocked me s r v w =
     (run_q w = run_q v \<and> zombie_q w = zombie_q v @ (if s = ST_ZOMBIE then [me] else []) \<and>
      (set (sleep_q w) = set (sleep_q v) \<and> s \<noteq> ST_SLEEPING \<or>
       set (sleep_q w) = insert me (set (sleep_q v)) \<and> (s = ST_SLEEPING \<or> s = ST_COND_WAIT)) \<and>
      sleepq_ok w \<and> idle_thread w = idle_thread v \<and> compl w = compl v \<and>
      (\<forall>c. cond_q w c = cond_q v c @ (if waits_on r c then [me] else [])) \<and>
      (\<forall>m. owner (mutex_of w m) = owner (mutex_of v m) \<and>
           m_wait_q (mutex_of w m) = m_wait_q (mutex_of v m) @ (if r = RMutex m then [me] else [])) \<and>
      (\<forall>m. r = RMutex m \<longrightarrow> owner (mutex_of v m) \<noteq> None) \<and>
      (\<forall>u. state_of w u = (if u = me then s else state_of v u)) \<and>
      (\<forall>u. context_of w u = (if u = me then r else context_of v u)) \<and>
      (\<forall>u. has_flag (flags_of w u) FL_TIMEDOUT = has_flag (flags_of v u) FL_TIMEDOUT) \<and>
      (\<forall>u. has_flag (flags_of w u) FL_INTERRUPT = has_flag (flags_of v u) FL_INTERRUPT))"

lemma ready_not_queued:
  assumes "ready me v"
  shows "state_of v me = ST_RUNNING" and "me \<notin> set (run_q v)" and "me \<notin> set (sleep_q v)"
    and "me \<notin> set (zombie_q v)" and "me \<notin> set (cond_q v c)" and "me \<notin> set (m_wait_q (mutex_of v m))"
    and "me \<notin> set (compl v)" and "\<not> has_flag (flags_of v me) FL_TIMEDOUT" and "sleepq_ok v"
proof -
  let ?x = "set_context me RUser v"
  have core: "core (Some me) ?x" and th: "this_thread v = me" using assms by (simp_all add: ready_def)
  have inv: "vp_inv ?x" using core th by (simp add: vp_inv_def set_context_def frame)
  have t: "this_thread ?x = me" using th by (simp add: set_context_def frame)
  have p: "plain (context_of ?x (this_thread ?x))"
    by (simp add: set_context_def frame th plain_def)
  note a = vp_invD [OF inv, unfolded t] and b = plain_not_waiting [OF inv p, unfolded t]
  show "state_of v me = ST_RUNNING" "me \<notin> set (run_q v)" "me \<notin> set (sleep_q v)"
    "me \<notin> set (zombie_q v)" "\<not> has_flag (flags_of v me) FL_TIMEDOUT"
    using a(1,3,4,5) b(3) by (simp_all add: set_context_def frame)
  show "me \<notin> set (cond_q v c)" "me \<notin> set (m_wait_q (mutex_of v m))"
    using b(1)[of c] b(2)[of m] by (simp_all add: set_context_def frame cond_q_def mutex_of_def)
  show "me \<notin> set (compl v)"
    using not_compl [OF core, of me] a(1) by (simp add: set_context_def frame)
  have "sleepq_ok ?x" using core by (simp add: core_def)
  then show "sleepq_ok v" by (rule sleepq_ok_cong) (simp_all add: set_context_def frame)
qed

lemma blocked_core:
  assumes ready: "ready me v" and b: "blocked me s r v w" and rest: "rests s r"
  shows "core None w"
proof -
  define x where "x = set_context me RUser v"
  note nq = ready_not_queued [OF ready]
  have c: "queues_ok x" "queued_ok x" "sleepq_ok x" "running_ok (Some me) x" "idle_ok x" "context_ok x"
    "waiters_ok x" "mutexes_ok x" "compl_ok x" "timed_ok x"
    using ready by (simp_all add: ready_def core_def x_def)
  have f: "run_q x = run_q v" "sleep_q x = sleep_q v" "zombie_q x = zombie_q v"
    "idle_thread x = idle_thread v" "compl x = compl v"
    "\<And>c. cond_q x c = cond_q v c" "\<And>m. mutex_of x m = mutex_of v m"
    "\<And>u. state_of x u = state_of v u" "\<And>u. flags_of x u = flags_of v u"
    "\<And>u. context_of x u = (if u = me then RUser else context_of v u)"
    by (simp_all add: x_def set_context_def frame cond_q_def mutex_of_def)
  have idle: "me \<noteq> idle_thread v" using ready by (simp add: ready_def)
  have d: "distinct (sleep_q w)" using b by (simp add: blocked_def sleepq_ok_def)
  have r: "r \<noteq> RUser" "\<not> idle_point r" using rest by (cases rule: rests_cases; simp)+
  have w: "run_q w = run_q v" "zombie_q w = zombie_q v @ (if s = ST_ZOMBIE then [me] else [])"
    "idle_thread w = idle_thread v" "compl w = compl v"
    "\<And>c. cond_q w c = cond_q v c @ (if waits_on r c then [me] else [])"
    "\<And>m. m_wait_q (mutex_of w m) = m_wait_q (mutex_of v m) @ (if r = RMutex m then [me] else [])"
    "\<And>u. state_of w u = (if u = me then s else state_of v u)"
    "\<And>u. context_of w u = (if u = me then r else context_of v u)"
    "\<And>u. has_flag (flags_of w u) FL_TIMEDOUT = has_flag (flags_of v u) FL_TIMEDOUT"
    and wq: "set (sleep_q w) = set (sleep_q v) \<and> s \<noteq> ST_SLEEPING \<or>
      set (sleep_q w) = insert me (set (sleep_q v)) \<and> (s = ST_SLEEPING \<or> s = ST_COND_WAIT)"
    using b by (simp_all add: blocked_def)
  have sr: "s = ST_RUNNING \<longleftrightarrow> r = RDead" "s \<noteq> ST_RUNNABLE" "s = ST_IO_WAIT \<Longrightarrow> r = RWait"
    "s = ST_SLEEPING \<Longrightarrow> r = RUsleep" "s = ST_COND_WAIT \<Longrightarrow> \<exists>c. waits_on r c"
    "s = ST_LOCK_WAIT \<Longrightarrow> \<exists>m. r = RMutex m" "s = ST_ZOMBIE \<Longrightarrow> r = RExit"
    using rest by (cases rule: rests_cases; simp; blast?)+
  have "queues_ok w"
  proof -
    have dv: "distinct (run_q v @ sleep_q v @ zombie_q v)" using c(1) by (simp add: queues_ok_def f)
    have sub: "set (sleep_q w) \<subseteq> insert me (set (sleep_q v))"
      "me \<in> set (sleep_q w) \<Longrightarrow> s = ST_SLEEPING \<or> s = ST_COND_WAIT" using wq nq(3) by auto
    have "distinct (run_q w @ sleep_q w @ zombie_q w)"
      using dv nq(2-4) d sub unfolding w(1,2) by (auto split: if_splits)
    then show ?thesis
      using c(1) sub nq(2,4) unfolding queues_ok_def f w by (auto split: if_splits)
  qed
  moreover have "queued_ok w"
    using c(2) wq sr(2) unfolding queued_ok_def f w by (auto split: if_splits)
  moreover have "running_ok None w"
  proof -
    have x: "\<And>u. u \<noteq> me \<Longrightarrow> state_of v u = ST_RUNNING \<longleftrightarrow> context_of v u = RDead"
      "state_of v (idle_thread v) = ST_RUNNABLE" "\<And>u. u \<noteq> me \<Longrightarrow> context_of v u \<noteq> RUser"
      using c(4) idle by (auto simp: running_ok_def f split: if_splits)
    show ?thesis using x r idle sr(1) by (simp add: running_ok_def w)
  qed
  moreover have "idle_ok w"
    using c(5) idle r unfolding idle_ok_def f w by auto
  moreover have "context_ok w"
  proof -
    have "(state_of w t = ST_IO_WAIT \<longrightarrow> context_of w t = RWait) \<and>
      (state_of w t = ST_SLEEPING \<longrightarrow> context_of w t = RUsleep) \<and>
      (state_of w t = ST_COND_WAIT \<longrightarrow> (\<exists>c. waits_on (context_of w t) c)) \<and>
      (state_of w t = ST_LOCK_WAIT \<longrightarrow> (\<exists>m. context_of w t = RMutex m)) \<and>
      (state_of w t = ST_ZOMBIE \<longrightarrow> context_of w t = RExit)" for t
      using c(6) [unfolded context_ok_def f, THEN spec, of t] sr(3-7) unfolding w
      by (cases "t = me") simp_all
    then show ?thesis unfolding context_ok_def by blast
  qed
  moreover have "waiters_ok w"
    using c(7) nq(5,6) unfolding waiters_ok_def f w by (auto split: if_splits)
  moreover have "compl_ok w"
    using c(9) nq(7) unfolding compl_ok_def f w by auto
  moreover have "timed_ok w"
  proof -
    have "state_of v t \<noteq> ST_COND_WAIT \<and> (\<exists>c. waits_on (context_of v t) c) \<and> t \<noteq> me"
      if "has_flag (flags_of v t) FL_TIMEDOUT" for t
      using c(10) that nq(8) by (auto simp: timed_ok_def f split: if_splits)
    then show ?thesis by (simp add: timed_ok_def w)
  qed
  moreover have "mutexes_ok w"
  proof -
    have own: "\<And>m. owner (mutex_of w m) = owner (mutex_of v m)"
      "\<And>m. r = RMutex m \<Longrightarrow> owner (mutex_of v m) \<noteq> None"
      and int: "\<And>u. has_flag (flags_of w u) FL_INTERRUPT = has_flag (flags_of v u) FL_INTERRUPT"
      using b by (simp_all add: blocked_def)
    have old: "context_of v u = RMutex m \<Longrightarrow> state_of v u = ST_LOCK_WAIT \<Longrightarrow> owner (mutex_of v m) \<noteq> None"
      "context_of v u = RMutex m \<Longrightarrow> state_of v u \<noteq> ST_LOCK_WAIT \<Longrightarrow>
        owner (mutex_of v m) = Some u \<or> has_flag (flags_of v u) FL_INTERRUPT"
      if "u \<noteq> me" for u m
      using c(8) that unfolding mutexes_ok_def f by (metis (full_types))+
    have me: "s = ST_LOCK_WAIT" if "r = RMutex m" for m
      using rest that by (cases rule: rests_cases) simp_all
    show ?thesis
      unfolding mutexes_ok_def own(1) int w(7,8)
    proof (intro conjI allI impI)
      fix m u
      assume a: "(if u = me then r else context_of v u) = RMutex m"
        "(if u = me then s else state_of v u) = ST_LOCK_WAIT"
      then show "owner (mutex_of v m) \<noteq> None" using own(2) old(1) by (cases "u = me") auto
    next
      fix m u
      assume a: "(if u = me then r else context_of v u) = RMutex m"
        "(if u = me then s else state_of v u) \<noteq> ST_LOCK_WAIT"
      then have "u \<noteq> me" using me by auto
      then show "owner (mutex_of v m) = Some u \<or> has_flag (flags_of v u) FL_INTERRUPT"
        using a old(2) by simp
    qed
  qed
  ultimately show ?thesis using b by (simp add: core_def blocked_def)
qed

lemma blocked_schedule:
  assumes "ready me v" and "blocked me s r v w" and "rests s r"
  shows "vp_inv (st_vp_schedule w)"
  using blocked_core [OF assms] by (rule schedule_inv)

end
