(* ===== verification/Ops.thy ===== *)
theory Ops
  imports Block
begin

text \<open>
  Every operation of the run-time keeps the invariant: called by the running thread it either
  returns to it (\<open>ready\<close>) or leaves a state in which another thread runs (\<open>vp_inv\<close>).
\<close>

section \<open>The result of a call\<close>

text \<open>A call that returned puts the thread back into its own code.\<close>

definition finish :: "'r outcome \<Rightarrow> st_vp" where
  "finish x = (case x of Return _ w \<Rightarrow> set_context (this_thread w) RUser w | Switch w \<Rightarrow> w)"

definition good :: "tid \<Rightarrow> 'r outcome \<Rightarrow> bool" where
  "good me x = (case x of Return _ w \<Rightarrow> ready me w | Switch w \<Rightarrow> vp_inv w)"

lemma good_simps [simp]:
  "good me (Return r w) = ready me w" "good me (Switch w) = vp_inv w"
  by (simp_all add: good_def)

lemma good_finish: "good me x \<Longrightarrow> vp_inv (finish x)"
  by (cases x) (auto simp: finish_def ready_def vp_inv_def set_context_def frame)

section \<open>Updates and readiness\<close>

lemma set_context_frame [frame]:
  "run_q (set_context t r v) = run_q v" "sleep_q (set_context t r v) = sleep_q v"
  "zombie_q (set_context t r v) = zombie_q v" "idle_thread (set_context t r v) = idle_thread v"
  "this_thread (set_context t r v) = this_thread v" "compl (set_context t r v) = compl v"
  "conds (set_context t r v) = conds v" "mutexes (set_context t r v) = mutexes v"
  "sleep_max (set_context t r v) = sleep_max v" "active_count (set_context t r v) = active_count v"
  "notify_event (set_context t r v) = notify_event v" "exited (set_context t r v) = exited v"
  "cond_q (set_context t r v) c = cond_q v c" "mutex_of (set_context t r v) m = mutex_of v m"
  "state_of (set_context t r v) u = state_of v u" "flags_of (set_context t r v) u = flags_of v u"
  "sleep_of (set_context t r v) u = sleep_of v u"
  "context_of (set_context t r v) u = (if u = t then r else context_of v u)"
  by (simp_all add: set_context_def frame cond_q_def mutex_of_def)

lemma sleepq_ok_context [simp]: "sleepq_ok (set_context t r v) = sleepq_ok v"
  by (simp add: sleepq_ok_def frame)

lemma same_core_context:
  "same_core v w \<Longrightarrow> same_core (set_context t r v) (set_context t r w)"
  by (simp add: same_core_def frame)

lemma woken_context: "woken u v w \<Longrightarrow> woken u (set_context t r v) (set_context t r w)"
  by (simp add: woken_def frame)

lemma ready_same:
  assumes "ready me v" and "same_core v w" and "this_thread w = this_thread v"
  shows "ready me w"
  using same_core_core [OF _ same_core_context [OF assms(2)], of "Some me" me RUser] assms
  by (simp add: ready_def same_core_def)

lemma ready_woken:
  assumes r: "ready me v" and w: "woken t v w" and st: "waiting (state_of v t)"
    and nc: "t \<notin> set (compl v)"
    and lock: "\<And>m. context_of v t = RMutex m \<Longrightarrow>
      owner (mutex_of v m) = Some t \<or> has_flag (flags_of v t) FL_INTERRUPT"
  shows "ready me w"
proof -
  have "state_of v me = ST_RUNNING" using r by (rule ready_not_queued)
  then have tm: "t \<noteq> me" using st by auto
  have "core (Some me) (set_context me RUser w)"
    by (rule woken_core [OF _ woken_context [OF w]])
      (use r st nc lock tm in \<open>simp_all add: ready_def frame\<close>)
  then show ?thesis using r w by (simp add: ready_def woken_def)
qed

lemma ready_take_interrupt:
  assumes r: "ready me v"
  shows "ready me (take_interrupt me v)"
proof -
  define x where "x = set_context me RUser v"
  have inv: "vp_inv x" and th: "this_thread x = me" and id: "me \<noteq> idle_thread x"
    and p: "plain (context_of x (this_thread x))"
    using r by (simp_all add: ready_def x_def vp_inv_def frame plain_def)
  have "left_queues me x (take_interrupt me x)"
    using plain_left_queues [OF inv p] unfolding th
    by (simp add: left_queues_def take_interrupt_def set_errno_def del_flag_def frame cond_q_def mutex_of_def)
  then have "ready me (take_interrupt me x)" by (rule left_queues_ready [OF inv th id])
  moreover have "set_context me RUser (take_interrupt me x) = set_context me RUser (take_interrupt me v)"
    by (simp add: x_def take_interrupt_def set_errno_def del_flag_def set_context_def upd_def)
  ultimately show ?thesis by (simp add: ready_def take_interrupt_def set_errno_def del_flag_def x_def frame)
qed

lemma same_core_refl_fields:
  assumes "thr w = thr v" and "run_q w = run_q v" and "sleep_q w = sleep_q v"
    and "zombie_q w = zombie_q v" and "idle_thread w = idle_thread v" and "compl w = compl v"
    and "sleep_max w = sleep_max v" and "\<And>c. cond_q w c = cond_q v c" and "\<And>m. mutex_of w m = mutex_of v m"
  shows "same_core v w"
  using assms by (simp add: same_core_def sleepq_ok_def)

lemma ready_set_errno: "ready me v \<Longrightarrow> ready me (set_errno e v)"
  by (erule ready_same, rule same_core_refl_fields)
    (simp_all add: set_errno_def cond_q_def mutex_of_def)

lemma ready_interrupt:
  assumes "ready me v" and "has_flag (flags_of v me) FL_INTERRUPT"
  shows "good me (Return r (take_interrupt me v))"
  using assms(1) by (simp add: ready_take_interrupt)

section \<open>Waking other threads\<close>

text \<open>What every wake-up keeps of the invariant, for a caller that runs (\<open>ready\<close>) and for the
  scheduler (\<open>core\<close>).\<close>

lemma signal_wake: "make_runnable t (leave_sleep_q t v) = wake t v"
  by (simp add: wake_def)

lemma signal_loop_core: "core r v \<Longrightarrow> core r (signal_loop b q v)"
  by (induction b q v rule: signal_loop.induct)
    (auto simp: Let_def signal_wake wake_cond_core)

lemma wake_cond_ready:
  assumes "ready me v" and "state_of v t = ST_COND_WAIT"
  shows "ready me (wake t v)"
proof (rule ready_woken [OF assms(1)])
  have c: "core (Some me) (set_context me RUser v)" using assms(1) by (simp add: ready_def)
  have "state_of v me = ST_RUNNING" using assms(1) by (rule ready_not_queued)
  then have tm: "t \<noteq> me" using assms(2) by auto
  show "woken t v (wake t v)" using ready_not_queued(9) [OF assms(1)] by (rule wake_woken)
  show "waiting (state_of v t)" using assms(2) by (simp add: waiting_def)
  show "t \<notin> set (compl v)" using not_compl [OF c, of t] assms(2) by (simp add: frame)
  show "owner (mutex_of v m) = Some t \<or> has_flag (flags_of v t) FL_INTERRUPT"
    if "context_of v t = RMutex m" for m
    using not_mutex [OF c, of t m] that assms(2) tm by (simp add: frame)
qed

lemma signal_loop_ready: "ready me v \<Longrightarrow> ready me (signal_loop b q v)"
  by (induction b q v rule: signal_loop.induct)
    (auto simp: Let_def signal_wake wake_cond_ready)

lemma expire_loop_core: "core r v \<Longrightarrow> core r (expire_loop e v)"
proof (induction e v rule: expire_loop.induct)
  case (1 e v)
  show ?case
  proof (cases "sleep_q v")
    case Nil
    then show ?thesis using 1 by (subst expire_loop.simps) simp
  next
    case (Cons t q)
    show ?thesis
    proof (cases "e < sleep_of v t")
      case True
      have ok: "sleepq_ok v" using "1.prems" by (simp add: core_def)
      have w: "expire_loop e v = (set_sleep t (sleep_of v t - e) v)\<lparr>sleep_max := sleep_max v - e\<rparr>"
        using Cons True by (subst expire_loop.simps) simp
      have "same_core v (expire_loop e v)"
        using expire_stop(2) [OF ok Cons True]
        by (simp add: same_core_def w set_sleep_def frame cond_q_def mutex_of_def)
      then show ?thesis by (rule same_core_core [OF "1.prems"])
    next
      case False
      have "core r (wake_sleeper t v)" by (rule wake_sleeper_core [OF "1.prems" Cons])
      then show ?thesis using 1 Cons False by (subst expire_loop.simps) simp
    qed
  qed
qed

section \<open>Blocking calls\<close>

lemma add_sleep_set:
  assumes "sleepq_ok v" and "t \<notin> set (sleep_q v)"
  shows "set (sleep_q (st_add_sleep_q t x v)) = insert t (set (sleep_q v))"
proof -
  have "has_flag (flags_of (st_add_sleep_q t x v) u) FL_ON_SLEEPQ \<longleftrightarrow>
      u \<in> set (sleep_q (st_add_sleep_q t x v))" for u
    using add_sleep_q_refines(2) [OF assms, of x] by (simp add: sleepq_ok_def)
  then have "u \<in> set (sleep_q (st_add_sleep_q t x v)) \<longleftrightarrow> u = t \<or> u \<in> set (sleep_q v)" for u
    using assms(1) by (auto simp: frame sleepq_ok_def)
  then show ?thesis by auto
qed

lemma set_state_frame [frame]:
  "run_q (set_state t s v) = run_q v" "sleep_q (set_state t s v) = sleep_q v"
  "zombie_q (set_state t s v) = zombie_q v" "idle_thread (set_state t s v) = idle_thread v"
  "this_thread (set_state t s v) = this_thread v" "compl (set_state t s v) = compl v"
  "conds (set_state t s v) = conds v" "mutexes (set_state t s v) = mutexes v"
  "sleep_max (set_state t s v) = sleep_max v"
  "active_count (set_state t s v) = active_count v"
  "cond_q (set_state t s v) c = cond_q v c" "mutex_of (set_state t s v) m = mutex_of v m"
  "state_of (set_state t s v) u = (if u = t then s else state_of v u)"
  "flags_of (set_state t s v) u = flags_of v u" "sleep_of (set_state t s v) u = sleep_of v u"
  "context_of (set_state t s v) u = context_of v u"
  by (simp_all add: set_state_def frame cond_q_def mutex_of_def)

lemma sleepq_ok_state [simp]: "sleepq_ok (set_state t s v) = sleepq_ok v"
  by (simp add: sleepq_ok_def frame)

text \<open>Blocking without a queue, and on the sleep queue.\<close>

lemma blocked_state:
  assumes "ready me v" and "s \<noteq> ST_SLEEPING" and "s \<noteq> ST_ZOMBIE" and "\<And>c. \<not> waits_on r c"
    and "\<And>m. r \<noteq> RMutex m"
  shows "blocked me s r v (set_context me r (set_state me s v))"
  using ready_not_queued(9) [OF assms(1)] assms(2-5) by (simp add: blocked_def frame)

lemma blocked_sleep:
  assumes "ready me v"
  shows "blocked me ST_SLEEPING RUsleep v
    (set_context me RUsleep (st_add_sleep_q me x (set_state me ST_SLEEPING v)))"
proof -
  let ?v = "set_state me ST_SLEEPING v"
  have ok: "sleepq_ok ?v" "me \<notin> set (sleep_q ?v)"
    using ready_not_queued(3,9) [OF assms] by (simp_all add: frame)
  show ?thesis
    using add_sleep_set [OF ok, of x] add_sleep_q_refines(2) [OF ok, of x]
    by (simp add: blocked_def frame cond_q_def mutex_of_def)
qed

lemma st_wait_good:
  assumes "ready me v"
  shows "good me (st_wait timeout v)"
proof -
  have th: "this_thread v = me" using assms by (simp add: ready_def)
  have "vp_inv (st_vp_schedule (set_context me RWait (set_state me ST_IO_WAIT v)))"
    by (rule blocked_schedule [OF assms blocked_state [OF assms]]) simp_all
  then show ?thesis
    using assms by (simp add: st_wait_def Let_def th switch_context_def frame ready_take_interrupt)
qed

lemma st_usleep_good:
  assumes "ready me v"
  shows "good me (st_usleep usecs v)"
proof -
  have th: "this_thread v = me" using assms by (simp add: ready_def)
  have "vp_inv (st_vp_schedule (set_context me RUsleep (st_add_sleep_q me usecs (set_state me ST_SLEEPING v))))"
    by (rule blocked_schedule [OF assms blocked_sleep [OF assms]]) simp
  then show ?thesis
    using assms by (simp add: st_usleep_def Let_def th switch_context_def frame ready_take_interrupt)
qed

text \<open>Blocking on a condition variable.\<close>

lemma set_cond_q_frame [frame]:
  "run_q (set_cond_q c q v) = run_q v" "sleep_q (set_cond_q c q v) = sleep_q v"
  "zombie_q (set_cond_q c q v) = zombie_q v" "idle_thread (set_cond_q c q v) = idle_thread v"
  "this_thread (set_cond_q c q v) = this_thread v" "compl (set_cond_q c q v) = compl v"
  "mutexes (set_cond_q c q v) = mutexes v" "thr (set_cond_q c q v) = thr v"
  "sleep_max (set_cond_q c q v) = sleep_max v"
  "cond_q (set_cond_q c q v) d = (if d = c then q else cond_q v d)"
  "mutex_of (set_cond_q c q v) m = mutex_of v m"
  by (simp_all add: set_cond_q_def cond_q_def mutex_of_def)

lemma sleepq_ok_cond [simp]: "sleepq_ok (set_cond_q c q v) = sleepq_ok v"
  by (simp add: sleepq_ok_def frame)

lemma add_sleep_conds [frame]:
  "cond_q (st_add_sleep_q t x v) c = cond_q v c" "mutex_of (st_add_sleep_q t x v) m = mutex_of v m"
  by (simp_all add: cond_q_def mutex_of_def frame)

definition cond_enqueue :: "tid \<Rightarrow> cid \<Rightarrow> utime \<Rightarrow> st_vp \<Rightarrow> st_vp" where
  "cond_enqueue me c timeout v =
     (let v2 = set_cond_q c (cond_q v c @ [me]) (set_state me ST_COND_WAIT v)
      in if timeout \<noteq> ST_UTIME_NO_TIMEOUT then st_add_sleep_q me timeout v2 else v2)"

lemma cond_block_enqueue:
  "cond_block r c timeout v =
    (if has_flag (flags_of v (this_thread v)) FL_INTERRUPT
     then Return (-1) (take_interrupt (this_thread v) v)
     else Switch (switch_context r (cond_enqueue (this_thread v) c timeout v)))"
  by (simp add: cond_block_def cond_enqueue_def Let_def frame)

lemma blocked_cond:
  assumes "ready me v" and r: "waits_on r c" and u: "\<And>d. waits_on r d \<longleftrightarrow> d = c"
  shows "blocked me ST_COND_WAIT r v (set_context me r (cond_enqueue me c timeout v))"
proof -
  define v2 where "v2 = set_cond_q c (cond_q v c @ [me]) (set_state me ST_COND_WAIT v)"
  have ok: "sleepq_ok v2" "me \<notin> set (sleep_q v2)"
    using ready_not_queued(3,9) [OF assms(1)] by (simp_all add: v2_def frame)
  have n: "r \<noteq> RMutex m" for m using r by auto
  show ?thesis
    using add_sleep_set [OF ok, of timeout] add_sleep_q_refines(2) [OF ok, of timeout] ok n u
    unfolding cond_enqueue_def Let_def v2_def [symmetric]
    by (auto simp: blocked_def frame) (auto simp: v2_def frame)
qed

lemma cond_block_good:
  assumes "ready me v" and "r = RCond c \<or> (\<exists>t. r = RJoin t c)"
  shows "good me (cond_block r c timeout v)"
proof -
  have th: "this_thread v = me" using assms(1) by (simp add: ready_def)
  have w: "waits_on r c" "\<And>d. waits_on r d \<longleftrightarrow> d = c" and rest: "rests ST_COND_WAIT r"
    using assms(2) by auto
  have "vp_inv (st_vp_schedule (set_context me r (cond_enqueue me c timeout v)))"
    by (rule blocked_schedule [OF assms(1) blocked_cond [OF assms(1) w] rest])
  moreover have "this_thread (cond_enqueue me c timeout v) = me"
    by (simp add: cond_enqueue_def Let_def frame th)
  ultimately show ?thesis
    using assms(1) by (simp add: cond_block_enqueue th switch_context_def ready_take_interrupt)
qed

text \<open>Blocking on a mutex.\<close>

lemma set_mutex_frame [frame]:
  "run_q (set_mutex m x v) = run_q v" "sleep_q (set_mutex m x v) = sleep_q v"
  "zombie_q (set_mutex m x v) = zombie_q v" "idle_thread (set_mutex m x v) = idle_thread v"
  "this_thread (set_mutex m x v) = this_thread v" "compl (set_mutex m x v) = compl v"
  "conds (set_mutex m x v) = conds v" "thr (set_mutex m x v) = thr v"
  "sleep_max (set_mutex m x v) = sleep_max v"
  "cond_q (set_mutex m x v) c = cond_q v c"
  "mutex_of (set_mutex m x v) n = (if n = m then x else mutex_of v n)"
  by (simp_all add: set_mutex_def cond_q_def mutex_of_def)

lemma sleepq_ok_mutex [simp]: "sleepq_ok (set_mutex m x v) = sleepq_ok v"
  by (simp add: sleepq_ok_def frame)

lemma blocked_mutex:
  assumes "ready me v" and "owner (mutex_of v m) \<noteq> None"
  shows "blocked me ST_LOCK_WAIT (RMutex m) v (set_context me (RMutex m)
    (set_mutex m (mutex_of v m\<lparr>m_wait_q := m_wait_q (mutex_of v m) @ [me]\<rparr>) (set_state me ST_LOCK_WAIT v)))"
  using assms(2) ready_not_queued(9) [OF assms(1)]
  by (auto simp: blocked_def frame)

text \<open>Changing the owner of a mutex the caller owns or nobody owns.\<close>

lemma ready_set_owner:
  assumes r: "ready me v" and old: "owner (mutex_of v m) = None \<or> owner (mutex_of v m) = Some me"
    and free: "x = None \<Longrightarrow> \<forall>t \<in> set (m_wait_q (mutex_of v m)). state_of v t \<noteq> ST_LOCK_WAIT"
  shows "ready me (set_mutex m (mutex_of v m\<lparr>owner := x\<rparr>) v)"
proof -
  define y where "y = set_context me RUser v"
  define w where "w = set_context me RUser (set_mutex m (mutex_of v m\<lparr>owner := x\<rparr>) v)"
  have c: "queues_ok y" "queued_ok y" "sleepq_ok y" "running_ok (Some me) y" "idle_ok y" "context_ok y"
    "waiters_ok y" "mutexes_ok y" "compl_ok y" "timed_ok y"
    using r by (simp_all add: ready_def core_def y_def)
  have f: "run_q w = run_q y" "sleep_q w = sleep_q y" "zombie_q w = zombie_q y"
    "idle_thread w = idle_thread y" "compl w = compl y" "\<And>c. cond_q w c = cond_q y c"
    "\<And>n. m_wait_q (mutex_of w n) = m_wait_q (mutex_of y n)"
    "\<And>u. state_of w u = state_of y u" "\<And>u. context_of w u = context_of y u"
    "\<And>u. flags_of w u = flags_of y u"
    by (simp_all add: w_def y_def frame)
  have own: "owner (mutex_of w n) = (if n = m then x else owner (mutex_of y n))" for n
    by (simp add: w_def y_def frame)
  have me: "context_of y me = RUser" by (simp add: y_def frame)
  have "mutexes_ok w"
    unfolding mutexes_ok_def f own
  proof (intro conjI allI impI)
    fix n u
    assume a: "context_of y u = RMutex n" "state_of y u = ST_LOCK_WAIT"
    then have "u \<in> set (m_wait_q (mutex_of y n))" using c(7) by (simp add: waiters_ok_def)
    moreover have "owner (mutex_of y n) \<noteq> None" using c(8) a unfolding mutexes_ok_def by metis
    ultimately show "(if n = m then x else owner (mutex_of y n)) \<noteq> None"
      using free a(2) by (auto simp: y_def frame)
  next
    fix n u
    assume a: "context_of y u = RMutex n" "state_of y u \<noteq> ST_LOCK_WAIT"
    then have o: "owner (mutex_of y n) = Some u \<or> has_flag (flags_of y u) FL_INTERRUPT"
      using c(8) unfolding mutexes_ok_def by metis
    have "u \<noteq> me" using a(1) me by auto
    then show "(if n = m then x else owner (mutex_of y n)) = Some u \<or> has_flag (flags_of y u) FL_INTERRUPT"
      using o old by (auto simp: y_def frame split: if_splits)
  qed
  moreover have "queues_ok w" using c(1) unfolding queues_ok_def f .
  moreover have "queued_ok w" using c(2) unfolding queued_ok_def f .
  moreover have "sleepq_ok w" using c(3) by (simp add: w_def y_def)
  moreover have "running_ok (Some me) w" using c(4) unfolding running_ok_def f .
  moreover have "idle_ok w" using c(5) unfolding idle_ok_def f .
  moreover have "context_ok w" using c(6) unfolding context_ok_def f .
  moreover have "waiters_ok w" using c(7) unfolding waiters_ok_def f .
  moreover have "compl_ok w" using c(9) unfolding compl_ok_def f .
  moreover have "timed_ok w" using c(10) unfolding timed_ok_def f .
  ultimately have "core (Some me) w" by (simp add: core_def)
  then show ?thesis using r by (simp add: ready_def w_def frame)
qed

lemma st_mutex_lock_good:
  assumes "ready me v"
  shows "good me (st_mutex_lock m v)"
proof -
  have th: "this_thread v = me" using assms by (simp add: ready_def)
  have "ready me (set_mutex m (mutex_of v m\<lparr>owner := Some me\<rparr>) v)" if "owner (mutex_of v m) = None"
    using assms that by (intro ready_set_owner) auto
  moreover have "vp_inv (switch_context (RMutex m)
      (set_mutex m (mutex_of v m\<lparr>m_wait_q := m_wait_q (mutex_of v m) @ [me]\<rparr>) (set_state me ST_LOCK_WAIT v)))"
    if "owner (mutex_of v m) \<noteq> None"
    using blocked_schedule [OF assms blocked_mutex [OF assms that]] by (simp add: switch_context_def frame th)
  ultimately show ?thesis
    using assms by (auto simp: st_mutex_lock_def Let_def th ready_take_interrupt ready_set_errno)
qed

lemma next_waiter_Some:
  "next_waiter v q = Some t \<Longrightarrow> t \<in> set q \<and> state_of v t = ST_LOCK_WAIT"
  by (induction v q rule: next_waiter.induct) (auto split: if_splits)

lemma next_waiter_None: "next_waiter v q = None \<Longrightarrow> \<forall>t \<in> set q. state_of v t \<noteq> ST_LOCK_WAIT"
  by (induction v q rule: next_waiter.induct) (auto split: if_splits)

lemma mutex_waiter: "core r v \<Longrightarrow> t \<in> set (m_wait_q (mutex_of v m)) \<Longrightarrow> context_of v t = RMutex m"
  unfolding core_def waiters_ok_def by blast

lemma cond_waiter: "core r v \<Longrightarrow> t \<in> set (cond_q v c) \<Longrightarrow> waits_on (context_of v t) c"
  unfolding core_def waiters_ok_def by blast

lemma st_mutex_unlock_ready:
  assumes "ready me v"
  shows "ready me (snd (st_mutex_unlock m v))"
proof -
  have th: "this_thread v = me" using assms by (simp add: ready_def)
  show ?thesis
  proof (cases "owner (mutex_of v m) = Some me")
    case False
    then show ?thesis using assms th by (auto simp: st_mutex_unlock_def Let_def ready_set_errno)
  next
    case True
    show ?thesis
    proof (cases "next_waiter v (m_wait_q (mutex_of v m))")
      case None
      have "ready me (set_mutex m (mutex_of v m\<lparr>owner := None\<rparr>) v)"
        using assms True next_waiter_None [OF None] by (intro ready_set_owner) auto
      then show ?thesis using True None th by (simp add: st_mutex_unlock_def Let_def)
    next
      case (Some t)
      note nw = next_waiter_Some [OF Some]
      let ?w = "set_mutex m (mutex_of v m\<lparr>owner := Some t\<rparr>) v"
      have rw: "ready me ?w" using assms True by (intro ready_set_owner) auto
      have core: "core (Some me) (set_context me RUser ?w)" using rw by (simp add: ready_def)
      have "state_of v me = ST_RUNNING" using assms by (rule ready_not_queued)
      then have tm: "t \<noteq> me" using nw by auto
      have st: "state_of ?w t = ST_LOCK_WAIT" using nw by (simp add: frame)
      have nc: "t \<notin> set (compl ?w)" using not_compl [OF core, of t] st by (simp add: frame)
      have own: "owner (mutex_of ?w n) = Some t" if "context_of ?w t = RMutex n" for n
      proof -
        have "t \<in> set (m_wait_q (mutex_of (set_context me RUser ?w) m))" using nw by (simp add: frame)
        then have "context_of (set_context me RUser ?w) t = RMutex m" by (rule mutex_waiter [OF core])
        then show ?thesis using that tm by (simp add: frame)
      qed
      have wk: "woken t ?w (wake t ?w)"
        using ready_not_queued(9) [OF rw] by (rule wake_woken)
      have wt: "waiting (state_of ?w t)" using st by (simp add: waiting_def)
      have "ready me (wake t ?w)"
        by (rule ready_woken [OF rw wk wt nc]) (rule disjI1, rule own)
      moreover have "\<not> has_flag (flags_of ?w t) FL_ON_SLEEPQ"
      proof -
        have "t \<notin> set (sleep_q ?w)" using core st by (auto simp: core_def queues_ok_def frame)
        then show ?thesis using ready_not_queued(9) [OF rw] by (simp add: sleepq_ok_def)
      qed
      ultimately show ?thesis
        using True Some th by (simp add: st_mutex_unlock_def Let_def wake_def leave_sleep_q_def)
    qed
  qed
qed

lemma st_mutex_trylock_ready:
  assumes "ready me v"
  shows "ready me (snd (st_mutex_trylock m v))"
proof (cases "owner (mutex_of v m)")
  case None
  have "ready me (set_mutex m (mutex_of v m\<lparr>owner := Some me\<rparr>) v)"
    using assms None by (intro ready_set_owner) auto
  then show ?thesis using None assms by (simp add: st_mutex_trylock_def Let_def ready_def)
next
  case (Some t)
  then show ?thesis using assms by (simp add: st_mutex_trylock_def Let_def ready_set_errno)
qed

section \<open>Allocation\<close>

lemma ready_fields:
  assumes "ready me v" and "thr w = thr v" and "run_q w = run_q v" and "sleep_q w = sleep_q v"
    and "zombie_q w = zombie_q v" and "idle_thread w = idle_thread v" and "compl w = compl v"
    and "sleep_max w = sleep_max v" and "\<And>c. cond_q w c = cond_q v c"
    and "\<And>m. mutex_of w m = mutex_of v m" and "this_thread w = this_thread v"
  shows "ready me w"
  using assms(1) same_core_refl_fields [OF assms(2-10)] assms(11) by (rule ready_same)

lemma st_cond_new_ready:
  assumes "ready me v" and "\<And>a. c = Some a \<Longrightarrow> conds v a = None"
  shows "ready me (snd (st_cond_new c v))"
proof (cases c)
  case (Some a)
  have "ready me (set_cond_q a [] v)"
    using assms(1) by (rule ready_fields) (use assms(2) Some in \<open>auto simp: set_cond_q_def cond_q_def mutex_of_def\<close>)
  then show ?thesis by (simp add: Some st_cond_new_def)
qed (simp add: st_cond_new_def assms)

lemma st_cond_destroy_ready: "ready me v \<Longrightarrow> ready me (snd (st_cond_destroy c v))"
  by (auto simp: st_cond_destroy_def ready_set_errno)
    (erule ready_fields; simp add: cond_q_def mutex_of_def)

lemma st_mutex_new_ready:
  assumes "ready me v" and "\<And>a. m = Some a \<Longrightarrow> mutexes v a = None"
  shows "ready me (snd (st_mutex_new m v))"
proof (cases m)
  case (Some a)
  have "ready me (set_mutex a \<lparr>owner = None, m_wait_q = []\<rparr> v)"
    using assms(1) by (rule ready_fields) (use assms(2) Some in \<open>auto simp: set_mutex_def cond_q_def mutex_of_def\<close>)
  then show ?thesis by (simp add: Some st_mutex_new_def)
qed (simp add: st_mutex_new_def assms)

lemma st_mutex_destroy_ready: "ready me v \<Longrightarrow> ready me (snd (st_mutex_destroy m v))"
  by (auto simp: st_mutex_destroy_def ready_set_errno)
    (erule ready_fields; simp add: cond_q_def mutex_of_def st_mutex.equality split: option.split)

section \<open>Interrupts\<close>

lemma wake_ready:
  assumes r: "ready me v" and st: "waiting (state_of v t)" "state_of v t \<noteq> ST_IO_WAIT"
    and int: "has_flag (flags_of v t) FL_INTERRUPT"
  shows "ready me (wake t v)"
proof -
  have c: "core (Some me) (set_context me RUser v)" using r by (simp add: ready_def)
  have nc: "t \<notin> set (compl v)" using not_compl [OF c, of t] st by (simp add: frame)
  show ?thesis
    by (rule ready_woken [OF r wake_woken st(1) nc]) (use int ready_not_queued(9) [OF r] in simp_all)
qed

lemma ready_add_interrupt: "ready me v \<Longrightarrow> ready me (add_flag t FL_INTERRUPT v)"
  by (erule ready_same) (simp_all add: add_flag_def upd_same_core frame)

lemma st_thread_interrupt_ready:
  assumes "ready me v" and "state_of v t \<noteq> ST_IO_WAIT"
  shows "ready me (st_thread_interrupt t v)"
proof -
  let ?w = "add_flag t FL_INTERRUPT v"
  have w: "ready me ?w" using assms(1) by (rule ready_add_interrupt)
  have f: "state_of ?w t = state_of v t" "has_flag (flags_of ?w t) FL_INTERRUPT"
    by (simp_all add: add_flag_def frame)
  show ?thesis
    using w assms wake_ready [OF w _ _ f(2)] f(1)
    by (cases "state_of v t") (simp_all add: st_thread_interrupt_def Let_def wake_def waiting_def)
qed

section \<open>Resuming\<close>

lemma st_wait_resume_good:
  assumes "ready (this_thread v) v"
  shows "good (this_thread v) (st_wait_resume v)"
  using assms by (simp add: st_wait_resume_def Let_def ready_take_interrupt)

lemma st_usleep_resume_good:
  assumes "ready (this_thread v) v"
  shows "good (this_thread v) (st_usleep_resume v)"
  using assms by (simp add: st_usleep_resume_def Let_def ready_take_interrupt)

lemma not_waiting_cond:
  assumes "core r v" and "\<not> waits_on (context_of v t) c"
  shows "remove1 t (cond_q v c) = cond_q v c"
  using cond_waiter [OF assms(1), of t c] assms(2) by (auto intro: remove1_idem)

lemma not_waiting_mutex:
  assumes "core r v" and "context_of v t \<noteq> RMutex m"
  shows "remove1 t (m_wait_q (mutex_of v m)) = m_wait_q (mutex_of v m)"
  using mutex_waiter [OF assms(1), of t m] assms(2) by (auto intro: remove1_idem)

lemma st_mutex_lock_resume_good:
  assumes inv: "vp_inv v" and ctx: "context_of v (this_thread v) = RMutex m"
    and ni: "this_thread v \<noteq> idle_thread v"
  shows "good (this_thread v) (st_mutex_lock_resume m v)"
proof -
  define me where "me = this_thread v"
  define w where "w = set_mutex m (mutex_of v m\<lparr>m_wait_q := remove1 me (m_wait_q (mutex_of v m))\<rparr>) v"
  have core: "core (Some me) v" using inv by (simp add: vp_inv_def me_def)
  have t: "\<not> has_flag (flags_of v me) FL_TIMEDOUT"
    using core ctx by (auto simp: core_def timed_ok_def me_def)
  have "left_queues me v w"
    using not_waiting_cond [OF core, of me] not_waiting_mutex [OF core, of me] ctx t
    by (simp add: left_queues_def w_def frame me_def)
  then have "ready me w" using left_queues_ready [OF inv me_def [symmetric]] ni by (simp add: me_def)
  then show ?thesis
    unfolding st_mutex_lock_resume_def Let_def me_def [symmetric] w_def [symmetric]
    by (simp add: ready_take_interrupt)
qed

lemma cond_wakeup_ready:
  assumes inv: "vp_inv v" and ctx: "waits_on (context_of v (this_thread v)) c"
    and ni: "this_thread v \<noteq> idle_thread v"
  shows "ready (this_thread v) (snd (cond_wakeup c v))"
proof -
  define me where "me = this_thread v"
  define v1 where "v1 = set_cond_q c (remove1 me (cond_q v c)) v"
  define v2 where "v2 = (if has_flag (flags_of v1 me) FL_TIMEDOUT
    then set_errno ETIME (del_flag me FL_TIMEDOUT v1) else v1)"
  have core: "core (Some me) v" using inv by (simp add: vp_inv_def me_def)
  have other: "\<not> waits_on (context_of v me) d" if "d \<noteq> c" for d
    using ctx that by (cases "context_of v me") (auto simp: me_def)
  have nm: "context_of v me \<noteq> RMutex m" for m using ctx by (auto simp: me_def)
  have "left_queues me v v2"
    using not_waiting_cond [OF core other] not_waiting_mutex [OF core nm]
    by (simp add: left_queues_def v2_def v1_def frame del_flag_def set_errno_def cond_q_def
      mutex_of_def set_cond_q_def)
  then have "ready me v2" using left_queues_ready [OF inv me_def [symmetric]] ni by (simp add: me_def)
  moreover have "snd (cond_wakeup c v) = (if has_flag (flags_of v2 me) FL_INTERRUPT then take_interrupt me v2 else v2)"
    unfolding cond_wakeup_def Let_def me_def [symmetric] v1_def [symmetric] by (auto simp: v2_def)
  ultimately show ?thesis by (auto simp: me_def [symmetric] ready_take_interrupt)
qed

lemma st_cond_timedwait_resume_good:
  assumes "vp_inv v" and "waits_on (context_of v (this_thread v)) c" and "this_thread v \<noteq> idle_thread v"
  shows "good (this_thread v) (st_cond_timedwait_resume c v)"
  using cond_wakeup_ready [OF assms] by (cases "cond_wakeup c v") (simp add: st_cond_timedwait_resume_def)

section \<open>Private data\<close>

lemma set_private_ready: "ready me v \<Longrightarrow> ready me (set_private t key x v)"
  by (erule ready_same) (simp_all add: set_private_def upd_same_core frame)

lemma call_destructor_ready: "ready me v \<Longrightarrow> ready me (call_destructor key p v)"
  by (erule ready_fields; simp add: call_destructor_def cond_q_def mutex_of_def)

lemma cleanup_key_ready: "ready me v \<Longrightarrow> ready me (cleanup_key t key v)"
  by (simp add: cleanup_key_def set_private_ready call_destructor_ready)

lemma cleanup_loop_ready: "ready me v \<Longrightarrow> ready me (cleanup_loop t key v)"
proof (induction t key v rule: cleanup_loop.induct)
  case (1 t key v)
  then show ?case by (subst cleanup_loop.simps) (simp add: cleanup_key_ready)
qed

lemma setspecific_ready: "ready me v \<Longrightarrow> ready me (snd (st_thread_setspecific key x v))"
  by (simp add: st_thread_setspecific_def Let_def set_private_ready call_destructor_ready ready_set_errno)

lemma key_create_ready: "ready me v \<Longrightarrow> ready me (snd (snd (st_key_create d v)))"
  by (auto simp: st_key_create_def Let_def ready_set_errno)
    (erule ready_fields; simp add: cond_q_def mutex_of_def)

section \<open>Ending a thread\<close>

lemma exit_tail_inv:
  assumes "ready me v"
  shows "vp_inv (exit_tail v)"
proof -
  have th: "this_thread v = me" using assms by (simp add: ready_def)
  define w where "w = (if \<not> has_flag (flags_of v me) FL_PRIMORDIAL
    then v\<lparr>stacks := st_stack_free (t_stack (thr v me)) (stacks v)\<rparr> else v)"
  have w: "ready me w" using assms by (rule ready_fields) (simp_all add: w_def cond_q_def mutex_of_def)
  have "blocked me ST_RUNNING RDead w (set_context me RDead w)"
    using ready_not_queued(1,9) [OF w] by (auto simp: blocked_def frame)
  then have "vp_inv (st_vp_schedule (set_context me RDead w))"
    by (rule blocked_schedule [OF w]) simp
  then show ?thesis
    unfolding exit_tail_def th Let_def w_def [symmetric] switch_context_def
    using w by (simp add: ready_def)
qed

lemma del_sleep_context: "st_del_sleep_q t e (set_context u r v) = set_context u r (st_del_sleep_q t e v)"
  by (cases "follower t (sleep_q v)")
    (auto simp: st_del_sleep_q_def Let_def set_context_def set_sleep_def del_flag_def upd_def fun_eq_iff)

lemma wake_context: "wake t (set_context u r v) = set_context u r (wake t v)"
  by (auto simp: wake_def leave_sleep_q_def del_sleep_context frame)
    (auto simp: make_runnable_def ST_ADD_RUNQ_def set_state_def set_context_def upd_def fun_eq_iff)

lemma signal_loop_context:
  "signal_loop b q (set_context u r v) = set_context u r (signal_loop b q v)"
  by (induction b q v rule: signal_loop.induct)
    (simp_all add: Let_def signal_wake wake_context frame)

lemma signal_loop_this: "this_thread (signal_loop b q v) = this_thread v"
  by (induction b q v rule: signal_loop.induct) (simp_all add: Let_def signal_wake frame)

lemma st_thread_exit_good:
  assumes "ready me v"
  shows "good me (st_thread_exit retval v)"
proof -
  have th: "this_thread v = me" using assms by (simp add: ready_def)
  define v2 where "v2 = st_thread_cleanup me (upd me (\<lambda>r. r\<lparr>t_retval := retval\<rparr>) v)"
  define v3 where "v3 = v2\<lparr>active_count := active_count v2 - 1\<rparr>"
  have "ready me (upd me (\<lambda>r. r\<lparr>t_retval := retval\<rparr>) v)"
    by (rule ready_same [OF assms upd_same_core]) (simp_all add: frame)
  then have "ready me v2" by (simp add: v2_def st_thread_cleanup_def cleanup_loop_ready)
  then have v3: "ready me v3"
    by (rule ready_fields) (simp_all add: v3_def cond_q_def mutex_of_def)
  have th3: "this_thread v3 = me" using v3 by (simp add: ready_def)
  have e: "st_thread_exit retval v =
      (case t_term (thr v3 me) of
         Some c \<Rightarrow> Switch (switch_context RExit
           (snd (st_cond_signal c (ST_ADD_ZOMBIEQ me (set_state me ST_ZOMBIE v3)))))
       | None \<Rightarrow> Switch (exit_tail v3))"
    unfolding st_thread_exit_def th Let_def v2_def [symmetric] v3_def [symmetric] by (rule refl)
  show ?thesis
  proof (cases "t_term (thr v3 me)")
    case None
    then show ?thesis using exit_tail_inv [OF v3] by (simp add: e)
  next
    case (Some c)
    define z where "z = ST_ADD_ZOMBIEQ me (set_state me ST_ZOMBIE v3)"
    have "blocked me ST_ZOMBIE RExit v3 (set_context me RExit z)"
      using ready_not_queued(9) [OF v3]
      by (simp add: blocked_def z_def ST_ADD_ZOMBIEQ_def frame sleepq_ok_def cond_q_def mutex_of_def)
    then have "core None (set_context me RExit z)" by (rule blocked_core [OF v3]) simp
    then have "core None (set_context me RExit (snd (st_cond_signal c z)))"
      by (simp add: st_cond_signal_def cond_signal_impl_def signal_loop_core signal_loop_context [symmetric])
    moreover have "this_thread (snd (st_cond_signal c z)) = me"
      by (simp add: st_cond_signal_def cond_signal_impl_def signal_loop_this z_def ST_ADD_ZOMBIEQ_def
          frame th3)
    ultimately show ?thesis using schedule_inv by (simp add: e Some z_def [symmetric] switch_context_def)
  qed
qed

lemma st_thread_exit_resume_good:
  assumes "ready (this_thread v) v"
  shows "good me (st_thread_exit_resume v)"
proof -
  define w where "w = (case t_term (thr v (this_thread v)) of
      Some c \<Rightarrow> snd (st_cond_destroy c v) | None \<Rightarrow> v)"
  have "ready (this_thread v) w"
    using assms by (simp add: w_def st_cond_destroy_ready split: option.split)
  then have "ready (this_thread v) (upd (this_thread v) (\<lambda>r. r\<lparr>t_term := None\<rparr>) w)"
    by (rule ready_same) (simp_all add: upd_same_core frame)
  from exit_tail_inv [OF this] show ?thesis
    unfolding st_thread_exit_resume_def Let_def w_def by simp
qed

section \<open>Joining\<close>

lemma join_release_core:
  assumes core: "core r v" and z: "state_of v t = ST_ZOMBIE"
  shows "core r (ST_ADD_RUNQ t (ST_DEL_ZOMBIEQ t (set_state t ST_RUNNABLE v)))"
proof -
  define w where "w = ST_ADD_RUNQ t (ST_DEL_ZOMBIEQ t (set_state t ST_RUNNABLE v))"
  have c: "queues_ok v" "queued_ok v" "sleepq_ok v" "running_ok r v" "idle_ok v" "context_ok v"
    "waiters_ok v" "mutexes_ok v" "compl_ok v" "timed_ok v" using core by (simp_all add: core_def)
  have f: "run_q w = run_q v @ [t]" "sleep_q w = sleep_q v" "zombie_q w = remove1 t (zombie_q v)"
    "idle_thread w = idle_thread v" "compl w = compl v" "\<And>c. cond_q w c = cond_q v c"
    "\<And>m. mutex_of w m = mutex_of v m" "\<And>u. context_of w u = context_of v u"
    "\<And>u. flags_of w u = flags_of v u" "\<And>u. sleep_of w u = sleep_of v u" "sleep_max w = sleep_max v"
    "\<And>u. state_of w u = (if u = t then ST_RUNNABLE else state_of v u)"
    by (simp_all add: w_def queue_macro_defs frame cond_q_def mutex_of_def)
  have x: "context_of v t = RExit" using c(6) z by (simp add: context_ok_def)
  have ti: "t \<noteq> idle_thread v" using core_idle [OF core] x by auto
  have tq: "t \<notin> set (run_q v)" "t \<notin> set (sleep_q v)" using c(1) z by (auto simp: queues_ok_def)
  have "sleepq_ok w" using c(3) by (rule sleepq_ok_cong) (simp_all add: f)
  moreover have "queues_ok w" using c(1) tq ti unfolding queues_ok_def f by auto
  moreover have "queued_ok w" using c(2) unfolding queued_ok_def f by auto
  moreover have "running_ok r w"
  proof -
    have "r \<noteq> Some t" using core_running [OF core, of t] z by simp
    moreover have "(if u = t then ST_RUNNABLE else state_of v u) = ST_RUNNING \<longleftrightarrow>
        r = Some u \<or> context_of v u = RDead" for u
      using core_running [OF core, of u] calculation x by auto
    ultimately show ?thesis using c(4) ti by (simp add: running_ok_def f)
  qed
  moreover have "idle_ok w" using c(5) unfolding idle_ok_def f .
  moreover have "context_ok w" using c(6) unfolding context_ok_def f by simp
  moreover have "waiters_ok w" using c(7) unfolding waiters_ok_def f .
  moreover have "mutexes_ok w"
    using c(8) by (rule mutexes_ok_cong) (use x in \<open>auto simp: f\<close>)
  moreover have "compl_ok w" using c(9) z unfolding compl_ok_def f by auto
  moreover have "timed_ok w" using c(10) unfolding timed_ok_def f by simp
  ultimately show ?thesis by (simp add: core_def w_def)
qed

lemma join_release_ready:
  assumes "ready me v" and "state_of v t = ST_ZOMBIE"
  shows "ready me (ST_ADD_RUNQ t (ST_DEL_ZOMBIEQ t (set_state t ST_RUNNABLE v)))"
proof -
  have "core (Some me) (ST_ADD_RUNQ t (ST_DEL_ZOMBIEQ t (set_state t ST_RUNNABLE (set_context me RUser v))))"
    using assms by (intro join_release_core) (simp_all add: ready_def frame)
  also have "ST_ADD_RUNQ t (ST_DEL_ZOMBIEQ t (set_state t ST_RUNNABLE (set_context me RUser v))) =
      set_context me RUser (ST_ADD_RUNQ t (ST_DEL_ZOMBIEQ t (set_state t ST_RUNNABLE v)))"
    by (auto simp: queue_macro_defs upd_defs fun_eq_iff)
  finally show ?thesis using assms(1) by (simp add: ready_def queue_macro_defs frame)
qed

lemma join_loop_good:
  assumes "ready me v"
  shows "good me (join_loop t c v)"
proof (cases "state_of v t = ST_ZOMBIE")
  case True
  then show ?thesis using join_release_ready [OF assms True] by (simp add: join_loop_def join_finish_def)
next
  case False
  have "good me (cond_block (RJoin t c) c ST_UTIME_NO_TIMEOUT v)"
    using assms by (rule cond_block_good) simp
  then show ?thesis using False
    by (cases "cond_block (RJoin t c) c ST_UTIME_NO_TIMEOUT v") (simp_all add: join_loop_def)
qed

lemma st_thread_join_good:
  assumes "ready me v"
  shows "good me (st_thread_join t v)"
  using join_loop_good [OF assms] ready_set_errno [OF assms]
  by (simp add: st_thread_join_def split: option.split)

lemma st_thread_join_resume_good:
  assumes "vp_inv v" and "context_of v (this_thread v) = RJoin t c" and "this_thread v \<noteq> idle_thread v"
  shows "good (this_thread v) (st_thread_join_resume t c v)"
proof -
  have "ready (this_thread v) (snd (cond_wakeup c v))"
    using cond_wakeup_ready [OF assms(1) _ assms(3)] assms(2) by simp
  then show ?thesis
    by (cases "cond_wakeup c v") (simp add: st_thread_join_resume_def join_loop_good)
qed

section \<open>Creating a thread\<close>

lemma new_thread_core:
  assumes core: "core r v" and dead: "context_of v t = RDead"
    and w: "\<And>u. u \<noteq> t \<Longrightarrow> thr w u = thr v u" "state_of w t = ST_RUNNABLE" "context_of w t = RMain"
      "flags_of w t = 0" "run_q w = run_q v @ [t]" "sleep_q w = sleep_q v" "zombie_q w = zombie_q v"
      "idle_thread w = idle_thread v" "compl w = compl v" "sleep_max w = sleep_max v"
      "\<And>c. cond_q w c = cond_q v c" "\<And>m. mutex_of w m = mutex_of v m"
  shows "core r w"
proof -
  have c: "queues_ok v" "queued_ok v" "sleepq_ok v" "running_ok r v" "idle_ok v" "context_ok v"
    "waiters_ok v" "mutexes_ok v" "compl_ok v" "timed_ok v" using core by (simp_all add: core_def)
  have st: "state_of v t = ST_RUNNING" using core_running [OF core, of t] dead by simp
  have ti: "t \<noteq> idle_thread v" using core_idle [OF core] dead by auto
  have rt: "r \<noteq> Some t" using core_current [of t v] core dead by auto
  have tq: "t \<notin> set (run_q v)" "t \<notin> set (zombie_q v)" using c(1) st by (auto simp: queues_ok_def)
  have ts: "t \<notin> set (sleep_q v)" using c(1) st by (auto simp: queues_ok_def)
  have f: "state_of w u = (if u = t then ST_RUNNABLE else state_of v u)"
    "context_of w u = (if u = t then RMain else context_of v u)"
    "has_flag (flags_of w u) g = (u \<noteq> t \<and> has_flag (flags_of v u) g)" for u g
    using w(1-4) by (cases "u = t"; simp)+
  have sl: "sleep_of w u = sleep_of v u" if "u \<noteq> t" for u using w(1) that by simp
  have nw: "\<not> waits_on (context_of v t) d" "context_of v t \<noteq> RMutex m" for d m by (simp_all add: dead)
  have "qsum (\<lambda>u. sleep_of w u) (sleep_q v) = qsum (\<lambda>u. sleep_of v u) (sleep_q v)"
    using ts by (intro qsum_cong sl) auto
  then have "sleepq_ok w" using c(3) ts by (auto simp: sleepq_ok_def f w)
  moreover have "queues_ok w" using c(1) tq ts ti unfolding queues_ok_def f w by auto
  moreover have "queued_ok w" using c(2) unfolding queued_ok_def f w by auto
  moreover have "running_ok r w"
  proof -
    have "(if u = t then ST_RUNNABLE else state_of v u) = ST_RUNNING \<longleftrightarrow>
        r = Some u \<or> (if u = t then RMain else context_of v u) = RDead" for u
      using core_running [OF core, of u] rt by auto
    then show ?thesis using c(4) ti unfolding running_ok_def f w(8) by simp
  qed
  moreover have "idle_ok w" using c(5) ti unfolding idle_ok_def f w by auto
  moreover have "context_ok w" using c(6) unfolding context_ok_def f by simp
  moreover have "waiters_ok w" using c(7) nw unfolding waiters_ok_def f w by auto
  moreover have "mutexes_ok w"
    using c(8) by (rule mutexes_ok_cong) (auto simp: f w split: if_splits)
  moreover have "compl_ok w" using c(9) st unfolding compl_ok_def f w by auto
  moreover have "timed_ok w" using c(10) unfolding timed_ok_def f by simp
  ultimately show ?thesis by (simp add: core_def)
qed

lemma dead_thread_core:
  assumes core: "core r v" and dead: "context_of v t = RDead"
    and w: "\<And>u. u \<noteq> t \<Longrightarrow> thr w u = thr v u" "state_of w t = ST_RUNNING" "context_of w t = RDead"
      "flags_of w t = 0" "run_q w = run_q v" "sleep_q w = sleep_q v" "zombie_q w = zombie_q v"
      "idle_thread w = idle_thread v" "compl w = compl v" "sleep_max w = sleep_max v"
      "\<And>c. cond_q w c = cond_q v c" "\<And>m. mutex_of w m = mutex_of v m"
  shows "core r w"
proof -
  have c: "queues_ok v" "queued_ok v" "sleepq_ok v" "running_ok r v" "idle_ok v" "context_ok v"
    "waiters_ok v" "mutexes_ok v" "compl_ok v" "timed_ok v" using core by (simp_all add: core_def)
  have st: "state_of v t = ST_RUNNING" using core_running [OF core, of t] dead by simp
  have ts: "t \<notin> set (sleep_q v)" using c(1) st by (auto simp: queues_ok_def)
  have f: "state_of w u = state_of v u" "context_of w u = context_of v u"
    "has_flag (flags_of w u) g = (u \<noteq> t \<and> has_flag (flags_of v u) g)" for u g
    using w(1-4) st dead by (cases "u = t"; simp)+
  have sl: "sleep_of w u = sleep_of v u" if "u \<noteq> t" for u using w(1) that by simp
  have "qsum (\<lambda>u. sleep_of w u) (sleep_q v) = qsum (\<lambda>u. sleep_of v u) (sleep_q v)"
    using ts by (intro qsum_cong sl) auto
  then have "sleepq_ok w" using c(3) ts by (auto simp: sleepq_ok_def f w)
  moreover have "queues_ok w" using c(1) unfolding queues_ok_def f w .
  moreover have "queued_ok w" using c(2) unfolding queued_ok_def f w .
  moreover have "running_ok r w" using c(4) unfolding running_ok_def f w .
  moreover have "idle_ok w" using c(5) unfolding idle_ok_def f w .
  moreover have "context_ok w" using c(6) unfolding context_ok_def f .
  moreover have "waiters_ok w" using c(7) unfolding waiters_ok_def f w .
  moreover have "mutexes_ok w"
    using c(8) by (rule mutexes_ok_cong) (use dead in \<open>auto simp: f w\<close>)
  moreover have "compl_ok w" using c(9) unfolding compl_ok_def f w .
  moreover have "timed_ok w" using c(10) unfolding timed_ok_def f by simp
  ultimately show ?thesis by (simp add: core_def)
qed

text \<open>The address of the thread object a creation would use: it lies on the new stack.\<close>

definition new_thread_addr :: "create_env \<Rightarrow> int \<Rightarrow> st_vp \<Rightarrow> tid option" where
  "new_thread_addr env bytes v =
     (case st_stack_new (env_page env) (env_calloc_stack env) (env_segment env)
             (adjust_stk_size (env_page env) bytes) (stacks v) of
        (None, _) \<Rightarrow> None
      | (Some stack, _) \<Rightarrow>
          Some (nat (fst (snd (stack_layout (env_ptr_size env) (env_thread_size env) stack)))))"

lemma st_thread_create_core:
  assumes core: "core r v"
    and fresh: "\<And>t. new_thread_addr env bytes v = Some t \<Longrightarrow> context_of v t = RDead"
    and calloc: "\<And>c. env_calloc_cond env = Some c \<Longrightarrow> conds v c = None"
  shows "core r (snd (st_thread_create env start arg joinable bytes v))"
proof (cases "st_stack_new (env_page env) (env_calloc_stack env) (env_segment env)
    (adjust_stk_size (env_page env) bytes) (stacks v)")
  case (Pair so cache)
  show ?thesis
  proof (cases so)
    case None
    then show ?thesis using Pair core by (simp add: st_thread_create_def)
  next
    case (Some stack)
    obtain ptds addr sp where lay:
      "stack_layout (env_ptr_size env) (env_thread_size env) stack = (ptds, addr, sp)"
      by (cases "stack_layout (env_ptr_size env) (env_thread_size env) stack") auto
    have dead: "context_of v (nat addr) = RDead"
      by (rule fresh) (simp add: new_thread_addr_def Pair Some lay)
    note create = st_thread_create_def Pair Some lay Let_def st_cond_new_def
    show ?thesis
    proof (cases "joinable \<and> env_calloc_cond env = None")
      case True
      then show ?thesis
        by (intro dead_thread_core [OF core dead])
          (simp_all add: create upd_defs zero_thread_def cond_q_def mutex_of_def)
    next
      case False
      then consider "\<not> joinable" | c where "joinable" "env_calloc_cond env = Some c" by auto
      then show ?thesis
      proof cases
        case 1
        then show ?thesis
          by (intro new_thread_core [OF core dead])
            (simp_all add: create upd_defs zero_thread_def cond_q_def mutex_of_def queue_macro_defs)
      next
        case 2
        then show ?thesis using calloc [OF 2(2)]
          by (intro new_thread_core [OF core dead])
            (simp_all add: create upd_defs zero_thread_def cond_q_def mutex_of_def queue_macro_defs
              set_cond_q_def)
      qed
    qed
  qed
qed

section \<open>The idle thread and completions\<close>

lemma idle_context_core:
  assumes core: "core r v" and new: "idle_point p"
  shows "core r (set_context (idle_thread v) p v)"
proof -
  define i where "i = idle_thread v"
  have c: "queues_ok v" "queued_ok v" "sleepq_ok v" "running_ok r v" "idle_ok v" "context_ok v"
    "waiters_ok v" "mutexes_ok v" "compl_ok v" "timed_ok v" using core by (simp_all add: core_def)
  let ?w = "set_context i p v"
  have old: "idle_point (context_of v i) \<or> context_of v i = RMain" using core_idle [OF core] by (simp add: i_def)
  have n: "\<not> waits_on (context_of v i) d" "context_of v i \<noteq> RMutex m" "context_of v i \<noteq> RDead"
    "context_of v i \<noteq> RWait" "context_of v i \<noteq> RUsleep" "context_of v i \<noteq> RExit" for d m
    using old by (cases "context_of v i"; simp)+
  have q: "\<not> waits_on p d" "p \<noteq> RMutex m" "p \<noteq> RDead" "p \<noteq> RUser" for d m
    using new by (cases p; simp)+
  have nf: "\<not> has_flag (flags_of v i) FL_TIMEDOUT" using c(10) n(1) by (auto simp: timed_ok_def)
  have st: "state_of v i = ST_RUNNABLE \<or> state_of v i = ST_RUNNING"
    using c(4) core_running [OF core, of i] unfolding running_ok_def i_def by blast
  have "queues_ok ?w" using c(1) unfolding queues_ok_def frame .
  moreover have "queued_ok ?w" using c(2) unfolding queued_ok_def frame .
  moreover have "sleepq_ok ?w" using c(3) by simp
  moreover have "running_ok r ?w"
  proof -
    have "state_of v t = ST_RUNNING \<longleftrightarrow> r = Some t \<or> (if t = i then p else context_of v t) = RDead" for t
      using core_running [OF core, of t] n(3) q(3) by auto
    moreover have "r = Some t \<Longrightarrow> (if t = i then p else context_of v t) \<noteq> RDead" for t
      using core_current [of t v] core q(3) by auto
    ultimately show ?thesis using c(4) q(4) unfolding running_ok_def frame by auto
  qed
  moreover have "idle_ok ?w" using c(5) new by (auto simp: idle_ok_def frame i_def)
  moreover have "context_ok ?w"
  proof -
    have "(state_of v t = ST_IO_WAIT \<longrightarrow> context_of ?w t = RWait) \<and>
      (state_of v t = ST_SLEEPING \<longrightarrow> context_of ?w t = RUsleep) \<and>
      (state_of v t = ST_COND_WAIT \<longrightarrow> (\<exists>c. waits_on (context_of ?w t) c)) \<and>
      (state_of v t = ST_LOCK_WAIT \<longrightarrow> (\<exists>m. context_of ?w t = RMutex m)) \<and>
      (state_of v t = ST_ZOMBIE \<longrightarrow> context_of ?w t = RExit)" for t
      using c(6) [unfolded context_ok_def, THEN spec, of t] st by (cases "t = i") (auto simp: frame)
    then show ?thesis unfolding context_ok_def by (simp add: frame)
  qed
  moreover have "waiters_ok ?w" using c(7) n(1,2) q(1,2) unfolding waiters_ok_def frame by auto
  moreover have "mutexes_ok ?w"
    using c(8) by (rule mutexes_ok_cong) (use q(2) in \<open>auto simp: frame split: if_splits\<close>)
  moreover have "compl_ok ?w" using c(9) unfolding compl_ok_def frame .
  moreover have "timed_ok ?w" using c(10) nf unfolding timed_ok_def frame by auto
  ultimately show ?thesis by (simp add: core_def i_def)
qed

lemma idle_rest_core:
  assumes core: "core (Some (idle_thread v)) v"
  shows "core None (set_state (idle_thread v) ST_RUNNABLE v)"
proof -
  define i where "i = idle_thread v"
  have c: "queues_ok v" "queued_ok v" "sleepq_ok v" "running_ok (Some i) v" "idle_ok v" "context_ok v"
    "waiters_ok v" "mutexes_ok v" "compl_ok v" "timed_ok v" using core by (simp_all add: core_def i_def)
  let ?w = "set_state i ST_RUNNABLE v"
  have st: "state_of v i = ST_RUNNING" using core_running [OF core, of i] by (simp add: i_def)
  have ctx: "context_of v i \<noteq> RUser" "context_of v i \<noteq> RMutex m" for m
    using core_idle [OF core] by (auto simp: i_def)
  have "queues_ok ?w" using c(1) st by (auto simp: queues_ok_def frame)
  moreover have "queued_ok ?w" using c(2) by (auto simp: queued_ok_def frame i_def)
  moreover have "sleepq_ok ?w" using c(3) by simp
  moreover have "running_ok None ?w"
  proof -
    have "(if t = i then ST_RUNNABLE else state_of v t) = ST_RUNNING \<longleftrightarrow> context_of v t = RDead" for t
      using core_running [OF core, of t] core_current [OF core] by (auto simp: i_def)
    moreover have "context_of v t \<noteq> RUser" for t
      using c(4) ctx unfolding running_ok_def by fastforce
    ultimately show ?thesis by (simp add: running_ok_def frame i_def)
  qed
  moreover have "idle_ok ?w" using c(5) unfolding idle_ok_def frame .
  moreover have "context_ok ?w" using c(6) unfolding context_ok_def frame by simp
  moreover have "waiters_ok ?w" using c(7) unfolding waiters_ok_def frame .
  moreover have "mutexes_ok ?w"
    using c(8) by (rule mutexes_ok_cong) (use ctx in \<open>auto simp: frame\<close>)
  moreover have "compl_ok ?w" using c(9) st unfolding compl_ok_def frame by auto
  moreover have "timed_ok ?w" using c(10) unfolding timed_ok_def frame by simp
  ultimately show ?thesis by (simp add: core_def i_def)
qed

lemma clock_core: "core r v \<Longrightarrow> core r (st_vp_check_clock now tm v)"
proof -
  assume core: "core r v"
  define w where "w = (let v1 = v\<lparr>last_clock := now\<rparr> in
    if curr_time v1 \<noteq> 0 \<and> now - last_tset v1 > 999000 then v1\<lparr>curr_time := tm, last_tset := now\<rparr> else v1)"
  have "same_core v w" by (rule same_core_refl_fields) (simp_all add: w_def Let_def cond_q_def mutex_of_def)
  then have "core r w" by (rule same_core_core [OF core])
  then show "core r (st_vp_check_clock now tm v)"
    by (simp add: st_vp_check_clock_def w_def Let_def expire_loop_core)
qed

lemma idle_frame:
  "idle_thread (expire_loop e v) = idle_thread v" "this_thread (expire_loop e v) = this_thread v"
proof (induction e v rule: expire_loop.induct)
  case (1 e v)
  { case 1
    with "1.IH" show ?case
      by (subst expire_loop.simps) (auto simp: frame set_sleep_def split: list.split) }
  { case 2
    with "1.IH" show ?case
      by (subst expire_loop.simps) (auto simp: frame set_sleep_def split: list.split) }
qed

lemma clock_frame:
  "idle_thread (st_vp_check_clock now tm v) = idle_thread v"
  "this_thread (st_vp_check_clock now tm v) = this_thread v"
  by (simp_all add: st_vp_check_clock_def Let_def idle_frame)

lemma idle_clock_inv:
  assumes inv: "vp_inv v" and idle: "this_thread v = idle_thread v"
  shows "vp_inv (idle_clock now tm v)"
proof -
  define x where "x = st_vp_check_clock now tm v"
  have "core (Some (idle_thread x)) x"
    using inv idle clock_core by (simp add: x_def vp_inv_def clock_frame)
  then have "core None (set_state (idle_thread x) ST_RUNNABLE x)" by (rule idle_rest_core)
  then have "core None (set_context (idle_thread x) RIdle (set_state (idle_thread x) ST_RUNNABLE x))"
    using idle_context_core [of None "set_state (idle_thread x) ST_RUNNABLE x" RIdle] by (simp add: frame)
  then have "vp_inv (st_vp_schedule (set_context (idle_thread x) RIdle (set_state (idle_thread x) ST_RUNNABLE x)))"
    by (rule schedule_inv)
  moreover have "this_thread (set_state (idle_thread x) ST_RUNNABLE x) = idle_thread x"
    "this_thread v = idle_thread x" using idle by (simp_all add: x_def clock_frame frame)
  ultimately show ?thesis
    unfolding idle_clock_def switch_context_def x_def [symmetric] by simp
qed

lemma core_compl:
  assumes core: "core r v" and ok: "compl_ok (v\<lparr>compl := q, notify_event := b\<rparr>)"
  shows "core r (v\<lparr>compl := q, notify_event := b\<rparr>)"
proof -
  define w where "w = v\<lparr>compl := q, notify_event := b\<rparr>"
  have c: "queues_ok v" "queued_ok v" "sleepq_ok v" "running_ok r v" "idle_ok v" "context_ok v"
    "waiters_ok v" "mutexes_ok v" "timed_ok v" using core by (simp_all add: core_def)
  have f: "run_q w = run_q v" "sleep_q w = sleep_q v" "zombie_q w = zombie_q v"
    "idle_thread w = idle_thread v" "thr w = thr v" "sleep_max w = sleep_max v"
    "\<And>c. cond_q w c = cond_q v c" "\<And>m. mutex_of w m = mutex_of v m"
    by (simp_all add: w_def cond_q_def mutex_of_def)
  have "queues_ok w" using c(1) unfolding queues_ok_def f .
  moreover have "queued_ok w" using c(2) unfolding queued_ok_def f .
  moreover have "sleepq_ok w" using c(3) unfolding sleepq_ok_def f .
  moreover have "running_ok r w" using c(4) unfolding running_ok_def f .
  moreover have "idle_ok w" using c(5) unfolding idle_ok_def f .
  moreover have "context_ok w" using c(6) unfolding context_ok_def f .
  moreover have "waiters_ok w" using c(7) unfolding waiters_ok_def f .
  moreover have "mutexes_ok w" using c(8) unfolding mutexes_ok_def f .
  moreover have "timed_ok w" using c(9) unfolding timed_ok_def f .
  ultimately show ?thesis using ok by (simp add: core_def w_def)
qed

lemma completion_core:
  assumes core: "core r v" and q: "compl v = t # q"
  shows "core r (wake_completed t (v\<lparr>compl := q\<rparr>))"
proof -
  let ?w = "v\<lparr>compl := q, notify_event := notify_event v\<rparr>"
  have c: "context_ok v" "compl_ok v" using core by (simp_all add: core_def)
  have st: "state_of v t = ST_IO_WAIT" and tq: "t \<notin> set q" using c(2) q by (auto simp: compl_ok_def)
  have ctx: "context_of v t = RWait" using c(1) st by (simp add: context_ok_def)
  have "compl_ok ?w" using c(2) q by (simp add: compl_ok_def)
  then have "core r ?w" by (rule core_compl [OF core])
  then have "core r (wake t ?w)"
    by (rule wake_core) (use st tq ctx in \<open>simp_all add: waiting_def\<close>)
  then show ?thesis by (simp add: wake_completed_def wake_def)
qed

lemma post_core:
  assumes "core r v" and "state_of v t = ST_IO_WAIT" and "t \<notin> set (compl v)"
  shows "core r (post_completion t v)"
  unfolding post_completion_def
  by (rule core_compl) (use assms in \<open>auto simp: core_def compl_ok_def\<close>)

lemma drain_loop_core: "core r v \<Longrightarrow> core r (drain_loop v)"
proof (induction v rule: drain_loop.induct)
  case (1 v)
  then show ?case
    by (subst drain_loop.simps) (simp add: completion_core split: list.split)
qed

lemma reset_event_core: "core r v \<Longrightarrow> core r (reset_event v)"
  using core_compl [where q = "compl v" and b = False and v = v and r = r] by (simp add: reset_event_def core_def compl_ok_def)

end
