(* ===== verification/Machine.thy ===== *)
theory Machine
  imports Ops
begin

text \<open>
  The run-time as a state machine: the calls the running thread may make, the resumption of blocked
  functions, the steps of the idle thread and the completions posted by other operating system
  threads.  Every reachable state satisfies \<open>vp_inv\<close>.
\<close>

section \<open>Steps\<close>

text \<open>A thread that executes its own code, outside the run-time.\<close>

definition in_user :: "st_vp \<Rightarrow> bool" where
  "in_user v = (\<not> exited v \<and> context_of v (this_thread v) = RUser)"

definition at_point :: "resume \<Rightarrow> st_vp \<Rightarrow> bool" where
  "at_point r v = (\<not> exited v \<and> context_of v (this_thread v) = r)"

text \<open>
  Callers keep to the interface: they pass condition variables, mutexes and threads that exist,
  allocation returns unused addresses, and no thread waiting for I/O is interrupted (the theorem
  \<open>interrupt_io_twice\<close> shows what happens otherwise).
\<close>

inductive vp_step :: "st_vp \<Rightarrow> st_vp \<Rightarrow> bool" where
  usleep: "in_user v \<Longrightarrow> vp_step v (finish (st_usleep usecs v))"
| sleep: "in_user v \<Longrightarrow> vp_step v (finish (st_sleep secs v))"
| wait: "in_user v \<Longrightarrow> vp_step v (finish (st_wait timeout v))"
| cond_new: "in_user v \<Longrightarrow> (\<And>a. c = Some a \<Longrightarrow> conds v a = None) \<Longrightarrow> vp_step v (snd (st_cond_new c v))"
| cond_destroy: "in_user v \<Longrightarrow> conds v c \<noteq> None \<Longrightarrow> vp_step v (snd (st_cond_destroy c v))"
| cond_timedwait: "in_user v \<Longrightarrow> conds v c \<noteq> None \<Longrightarrow>
    vp_step v (finish (st_cond_timedwait c timeout v))"
| cond_wait: "in_user v \<Longrightarrow> conds v c \<noteq> None \<Longrightarrow> vp_step v (finish (st_cond_wait c v))"
| cond_signal: "in_user v \<Longrightarrow> conds v c \<noteq> None \<Longrightarrow> vp_step v (snd (st_cond_signal c v))"
| cond_broadcast: "in_user v \<Longrightarrow> conds v c \<noteq> None \<Longrightarrow> vp_step v (snd (st_cond_broadcast c v))"
| mutex_new: "in_user v \<Longrightarrow> (\<And>a. m = Some a \<Longrightarrow> mutexes v a = None) \<Longrightarrow>
    vp_step v (snd (st_mutex_new m v))"
| mutex_destroy: "in_user v \<Longrightarrow> mutexes v m \<noteq> None \<Longrightarrow> vp_step v (snd (st_mutex_destroy m v))"
| mutex_lock: "in_user v \<Longrightarrow> mutexes v m \<noteq> None \<Longrightarrow> vp_step v (finish (st_mutex_lock m v))"
| mutex_unlock: "in_user v \<Longrightarrow> mutexes v m \<noteq> None \<Longrightarrow> vp_step v (snd (st_mutex_unlock m v))"
| mutex_trylock: "in_user v \<Longrightarrow> mutexes v m \<noteq> None \<Longrightarrow> vp_step v (snd (st_mutex_trylock m v))"
| interrupt: "in_user v \<Longrightarrow> context_of v t \<noteq> RDead \<Longrightarrow> state_of v t \<noteq> ST_IO_WAIT \<Longrightarrow>
    vp_step v (st_thread_interrupt t v)"
| create: "in_user v \<Longrightarrow> (\<And>t. new_thread_addr env bytes v = Some t \<Longrightarrow> context_of v t = RDead) \<Longrightarrow>
    (\<And>c. env_calloc_cond env = Some c \<Longrightarrow> conds v c = None) \<Longrightarrow>
    vp_step v (snd (st_thread_create env start arg joinable bytes v))"
| exit: "in_user v \<Longrightarrow> vp_step v (finish (st_thread_exit retval v))"
| join: "in_user v \<Longrightarrow> context_of v t \<noteq> RDead \<Longrightarrow> vp_step v (finish (st_thread_join t v))"
| key_create: "in_user v \<Longrightarrow> vp_step v (snd (snd (st_key_create d v)))"
| setspecific: "in_user v \<Longrightarrow> vp_step v (snd (st_thread_setspecific key x v))"
| timecache: "in_user v \<Longrightarrow> vp_step v (snd (st_timecache_set on now tm v))"
| main_start: "at_point RMain v \<Longrightarrow> this_thread v \<noteq> idle_thread v \<Longrightarrow>
    vp_step v (set_context (this_thread v) RUser v)"
| idle_start: "at_point RMain v \<Longrightarrow> this_thread v = idle_thread v \<Longrightarrow>
    vp_step v (set_context (this_thread v) RIdle v)"
| wait_resume: "at_point RWait v \<Longrightarrow> vp_step v (finish (st_wait_resume v))"
| usleep_resume: "at_point RUsleep v \<Longrightarrow> vp_step v (finish (st_usleep_resume v))"
| cond_resume: "at_point (RCond c) v \<Longrightarrow> vp_step v (finish (st_cond_timedwait_resume c v))"
| mutex_resume: "at_point (RMutex m) v \<Longrightarrow> vp_step v (finish (st_mutex_lock_resume m v))"
| join_resume: "at_point (RJoin t c) v \<Longrightarrow> vp_step v (finish (st_thread_join_resume t c v))"
| exit_resume: "at_point RExit v \<Longrightarrow> vp_step v (finish (st_thread_exit_resume v))"
| idle_wait: "at_point RIdle v \<Longrightarrow> active_count v > 0 \<Longrightarrow> vp_step v (idle_wait v)"
| idle_exit: "at_point RIdle v \<Longrightarrow> active_count v \<le> 0 \<Longrightarrow> vp_step v (v\<lparr>exited := True\<rparr>)"
| idle_dequeue: "at_point RIdleDrain v \<Longrightarrow> vp_step v (idle_dequeue v)"
| idle_reset: "at_point RIdleReset v \<Longrightarrow> vp_step v (idle_reset v)"
| idle_clock: "at_point RIdleClock v \<Longrightarrow> vp_step v (idle_clock now tm v)"
| post: "\<not> exited v \<Longrightarrow> state_of v t = ST_IO_WAIT \<Longrightarrow> t \<notin> set (compl v) \<Longrightarrow>
    vp_step v (post_completion t v)"

inductive_cases vp_stepE: "vp_step v w"

section \<open>Preservation\<close>

lemma idle_not_user:
  assumes "vp_inv v" and "\<not> idle_point (context_of v (this_thread v))"
    and "context_of v (this_thread v) \<noteq> RMain"
  shows "this_thread v \<noteq> idle_thread v"
  using core_idle [of "Some (this_thread v)" v] assms by (auto simp: vp_inv_def)

lemma in_user_ready:
  assumes "vp_inv v" and "in_user v"
  shows "ready (this_thread v) v"
  using assms(1)
  by (rule plain_ready) (use assms idle_not_user [OF assms(1)] in \<open>auto simp: in_user_def plain_def\<close>)

lemma at_plain_ready:
  assumes "vp_inv v" and "at_point r v" and "r \<in> {RWait, RUsleep, RExit}"
  shows "ready (this_thread v) v"
  using assms(1)
  by (rule plain_ready) (use assms idle_not_user [OF assms(1)] in \<open>auto simp: at_point_def plain_def\<close>)

text \<open>A call that returns at once leaves the resume point of the caller alone.\<close>

lemma ready_user_inv:
  assumes "ready me w" and "context_of w me = RUser"
  shows "vp_inv w"
proof -
  have "core (Some me) (set_context me RUser w)" using assms(1) by (simp add: ready_def)
  moreover have "same_core (set_context me RUser w) w"
    using assms(2) by (simp add: same_core_def frame)
  ultimately have "core (Some me) w" by (rule same_core_core)
  then show ?thesis using assms(1) by (simp add: vp_inv_def ready_def)
qed

named_theorems call_context

lemma signal_loop_ctx [call_context]: "context_of (signal_loop b q v) u = context_of v u"
  by (induction b q v rule: signal_loop.induct) (simp_all add: Let_def signal_wake frame)

lemma leave_ctx [call_context]: "context_of (leave_sleep_q t v) u = context_of v u"
  by (simp add: leave_sleep_q_def frame)

lemma make_ctx [call_context]: "context_of (make_runnable t v) u = context_of v u"
  by (simp add: make_runnable_def ST_ADD_RUNQ_def frame)

lemma small_ctx [call_context]:
  "context_of (set_errno e v) u = context_of v u"
  "context_of (add_flag t f v) u = context_of v u"
  "context_of (set_private t key x v) u = context_of v u"
  "context_of (call_destructor key p v) u = context_of v u"
  "context_of (set_cond_q c q v) u = context_of v u"
  "context_of (set_mutex m l v) u = context_of v u"
  by (simp_all add: set_errno_def add_flag_def set_private_def call_destructor_def frame)

lemma calls_ctx [call_context]:
  "context_of (snd (st_cond_new c v)) u = context_of v u"
  "context_of (snd (st_cond_destroy d v)) u = context_of v u"
  "context_of (snd (st_cond_signal d v)) u = context_of v u"
  "context_of (snd (st_cond_broadcast d v)) u = context_of v u"
  "context_of (snd (st_mutex_new m v)) u = context_of v u"
  "context_of (snd (st_mutex_destroy n v)) u = context_of v u"
  "context_of (snd (st_mutex_unlock n v)) u = context_of v u"
  "context_of (snd (st_mutex_trylock n v)) u = context_of v u"
  "context_of (st_thread_interrupt t v) u = context_of v u"
  "context_of (snd (snd (st_key_create p v))) u = context_of v u"
  "context_of (snd (st_thread_setspecific key x v)) u = context_of v u"
  "context_of (snd (st_timecache_set on now tm v)) u = context_of v u"
  by (simp_all add: st_cond_new_def st_cond_destroy_def st_cond_signal_def st_cond_broadcast_def
      cond_signal_impl_def st_mutex_new_def st_mutex_destroy_def st_mutex_unlock_def
      st_mutex_trylock_def st_thread_interrupt_def st_key_create_def st_thread_setspecific_def
      st_timecache_set_def Let_def call_context split: option.split)

lemma timecache_ready: "ready me v \<Longrightarrow> ready me (snd (st_timecache_set on now tm v))"
  by (erule ready_fields; simp add: st_timecache_set_def Let_def cond_q_def mutex_of_def)

lemma finish_resume:
  assumes "vp_inv v" and "good (this_thread v) x"
  shows "vp_inv (finish x)"
  using assms(2) by (rule good_finish)

lemma idle_move:
  assumes "vp_inv v" and "this_thread v = idle_thread v" and "idle_point p"
  shows "vp_inv (set_context (this_thread v) p v)"
  using idle_context_core [OF assms(1) [unfolded vp_inv_def] assms(3)] assms(2)
  by (simp add: vp_inv_def frame)

lemma idle_runs:
  assumes "vp_inv v" and "idle_point (context_of v (this_thread v))"
  shows "this_thread v = idle_thread v"
  using assms by (simp add: vp_inv_def core_def idle_ok_def)

lemma idle_dequeue_inv:
  assumes "vp_inv v" and "at_point RIdleDrain v"
  shows "vp_inv (idle_dequeue v)"
proof (cases "compl v")
  case Nil
  then show ?thesis
    using assms idle_move [OF assms(1) idle_runs [OF assms(1)], of RIdleReset]
    by (simp add: idle_dequeue_def at_point_def)
next
  case (Cons t q)
  have "this_thread (wake_completed t (v\<lparr>compl := q\<rparr>)) = this_thread v"
    by (simp add: wake_completed_def signal_wake frame)
  then show ?thesis
    using completion_core [OF assms(1) [unfolded vp_inv_def] Cons]
    by (simp add: idle_dequeue_def Cons vp_inv_def)
qed

lemma idle_reset_inv:
  assumes "vp_inv v" and "at_point RIdleReset v"
  shows "vp_inv (idle_reset v)"
proof -
  have inv: "vp_inv (reset_event v)"
    using reset_event_core assms(1) by (simp add: vp_inv_def reset_event_def)
  have "this_thread v = idle_thread v" using idle_runs [OF assms(1)] assms(2) by (simp add: at_point_def)
  then show ?thesis
    using idle_move [OF inv, of RIdleClock] by (simp add: idle_reset_def reset_event_def)
qed

lemma exited_inv: "vp_inv v \<Longrightarrow> vp_inv (v\<lparr>exited := True\<rparr>)"
  unfolding vp_inv_def
  by (simp, erule same_core_core, rule same_core_refl_fields) (simp_all add: cond_q_def mutex_of_def)

lemma create_this:
  "this_thread (snd (st_thread_create env start arg joinable bytes v)) = this_thread v"
  by (auto simp: st_thread_create_def Let_def st_cond_new_def upd_defs queue_macro_defs set_cond_q_def
      split: option.split prod.split)

section \<open>Reachable states\<close>

theorem vp_step_inv:
  assumes "vp_step v w" and inv: "vp_inv v"
  shows "vp_inv w"
  using assms(1)
proof (cases rule: vp_step.cases)
  case (usleep usecs)
  then show ?thesis using st_usleep_good [OF in_user_ready [OF inv]] by (simp add: finish_resume [OF inv])
next
  case (sleep secs)
  then show ?thesis
    using st_usleep_good [OF in_user_ready [OF inv]] by (simp add: finish_resume [OF inv] st_sleep_def)
next
  case (wait timeout)
  then show ?thesis using st_wait_good [OF in_user_ready [OF inv]] by (simp add: finish_resume [OF inv])
next
  case (cond_new c)
  then show ?thesis
    using st_cond_new_ready [OF in_user_ready [OF inv]]
    by (auto intro!: ready_user_inv [of "this_thread v"] simp: call_context in_user_def)
next
  case (cond_destroy c)
  then show ?thesis
    using st_cond_destroy_ready [OF in_user_ready [OF inv]]
    by (auto intro!: ready_user_inv [of "this_thread v"] simp: call_context in_user_def)
next
  case (cond_timedwait c timeout)
  then show ?thesis
    using cond_block_good [OF in_user_ready [OF inv], of "RCond c" c timeout]
    by (simp add: finish_resume [OF inv] st_cond_timedwait_def)
next
  case (cond_wait c)
  then show ?thesis
    using cond_block_good [OF in_user_ready [OF inv], of "RCond c" c]
    by (simp add: finish_resume [OF inv] st_cond_timedwait_def st_cond_wait_def)
next
  case (cond_signal c)
  then show ?thesis
    using signal_loop_ready [OF in_user_ready [OF inv], of False "cond_q v c"]
    by (intro ready_user_inv [of "this_thread v"])
      (simp_all add: call_context in_user_def st_cond_signal_def cond_signal_impl_def)
next
  case (cond_broadcast c)
  then show ?thesis
    using signal_loop_ready [OF in_user_ready [OF inv], of True "cond_q v c"]
    by (intro ready_user_inv [of "this_thread v"])
      (simp_all add: call_context in_user_def st_cond_broadcast_def cond_signal_impl_def)
next
  case (mutex_new m)
  then show ?thesis
    using st_mutex_new_ready [OF in_user_ready [OF inv]]
    by (auto intro!: ready_user_inv [of "this_thread v"] simp: call_context in_user_def)
next
  case (mutex_destroy m)
  then show ?thesis
    using st_mutex_destroy_ready [OF in_user_ready [OF inv]]
    by (auto intro!: ready_user_inv [of "this_thread v"] simp: call_context in_user_def)
next
  case (mutex_lock m)
  then show ?thesis using st_mutex_lock_good [OF in_user_ready [OF inv]] by (simp add: finish_resume [OF inv])
next
  case (mutex_unlock m)
  then show ?thesis
    using st_mutex_unlock_ready [OF in_user_ready [OF inv]]
    by (auto intro!: ready_user_inv [of "this_thread v"] simp: call_context in_user_def)
next
  case (mutex_trylock m)
  then show ?thesis
    using st_mutex_trylock_ready [OF in_user_ready [OF inv]]
    by (auto intro!: ready_user_inv [of "this_thread v"] simp: call_context in_user_def)
next
  case (interrupt t)
  then show ?thesis
    using st_thread_interrupt_ready [OF in_user_ready [OF inv]]
    by (auto intro!: ready_user_inv [of "this_thread v"] simp: call_context in_user_def)
next
  case (create env bytes start arg joinable)
  have "core (Some (this_thread v)) w"
    unfolding create(1) using inv create(3,4) unfolding vp_inv_def by (rule st_thread_create_core)
  then show ?thesis using create(1) by (simp add: vp_inv_def create_this)
next
  case (exit retval)
  then show ?thesis using st_thread_exit_good [OF in_user_ready [OF inv]] by (simp add: finish_resume [OF inv])
next
  case (join t)
  then show ?thesis using st_thread_join_good [OF in_user_ready [OF inv]] by (simp add: finish_resume [OF inv])
next
  case (key_create d)
  then show ?thesis
    using key_create_ready [OF in_user_ready [OF inv]]
    by (auto intro!: ready_user_inv [of "this_thread v"] simp: call_context in_user_def)
next
  case (setspecific key x)
  then show ?thesis
    using setspecific_ready [OF in_user_ready [OF inv]]
    by (auto intro!: ready_user_inv [of "this_thread v"] simp: call_context in_user_def)
next
  case (timecache on now tm)
  then show ?thesis
    using timecache_ready [OF in_user_ready [OF inv]]
    by (auto intro!: ready_user_inv [of "this_thread v"] simp: call_context in_user_def)
next
  case main_start
  have "ready (this_thread v) v"
    using inv by (rule plain_ready) (use main_start in \<open>simp_all add: at_point_def plain_def\<close>)
  then show ?thesis using main_start by (simp add: ready_def vp_inv_def frame)
next
  case idle_start
  then show ?thesis using idle_move [OF inv] by simp
next
  case wait_resume
  then show ?thesis
    using st_wait_resume_good [OF at_plain_ready [OF inv, of RWait]] by (simp add: finish_resume [OF inv])
next
  case usleep_resume
  then show ?thesis
    using st_usleep_resume_good [OF at_plain_ready [OF inv, of RUsleep]] by (simp add: finish_resume [OF inv])
next
  case (cond_resume c)
  then show ?thesis
    using st_cond_timedwait_resume_good [OF inv, of c] idle_not_user [OF inv]
    by (simp add: finish_resume [OF inv] at_point_def)
next
  case (mutex_resume m)
  then show ?thesis
    using st_mutex_lock_resume_good [OF inv, of m] idle_not_user [OF inv]
    by (simp add: finish_resume [OF inv] at_point_def)
next
  case (join_resume t c)
  then show ?thesis
    using st_thread_join_resume_good [OF inv, of t c] idle_not_user [OF inv]
    by (simp add: finish_resume [OF inv] at_point_def)
next
  case exit_resume
  then show ?thesis
    using st_thread_exit_resume_good [OF at_plain_ready [OF inv, of RExit]] by (simp add: finish_resume [OF inv])
next
  case idle_wait
  then show ?thesis
    using idle_move [OF inv idle_runs [OF inv]]
    by (simp add: idle_wait_def at_point_def)
next
  case idle_exit
  then show ?thesis using exited_inv [OF inv] by simp
next
  case idle_dequeue
  then show ?thesis using idle_dequeue_inv [OF inv] by simp
next
  case idle_reset
  then show ?thesis using idle_reset_inv [OF inv] by simp
next
  case (idle_clock now tm)
  then show ?thesis using idle_clock_inv [OF inv idle_runs [OF inv]] by (simp add: at_point_def)
next
  case (post t)
  then show ?thesis
    using post_core [OF inv [unfolded vp_inv_def]] by (simp add: vp_inv_def post_completion_def)
qed

text \<open>The globals before \<^verbatim>\<open>st_init\<close>, all zero, and the states \<^verbatim>\<open>st_init\<close> can leave.  The primordial
  thread's object comes from \<^verbatim>\<open>calloc\<close>, the idle thread's lies on its stack.\<close>

definition vp_zero :: st_vp where
  "vp_zero = \<lparr>thr = (\<lambda>_. zero_thread), idle_thread = 0, last_clock = 0, run_q = [], io_q = [],
     sleep_q = [], zombie_q = [], sleep_max = 0, this_thread = 0, active_count = 0, curr_time = 0,
     last_tset = 0, conds = Map.empty, mutexes = Map.empty, compl = [], notify_event = False,
     errno = 0, exited = False, stacks = \<lparr>free_stacks = [], num_free_stacks = 0\<rparr>, key_max = 0,
     destructors = replicate 16 0, dtor_log = []\<rparr>"

definition booted :: "st_vp \<Rightarrow> bool" where
  "booted v =
     (\<exists>env io_rc now idle_start p.
        st_init env io_rc now idle_start (Some p) vp_zero = (0, v) \<and>
        new_thread_addr env 0 ((vp_clear vp_zero)\<lparr>last_clock := now\<rparr>) \<noteq> Some p)"

lemma booted_fields:
  assumes "st_init env io_rc now idle_start (Some p) vp_zero = (0, v)"
    and "new_thread_addr env 0 ((vp_clear vp_zero)\<lparr>last_clock := now\<rparr>) \<noteq> Some p"
  obtains i where "i \<noteq> p" "run_q v = []" "sleep_q v = []" "zombie_q v = []" "compl v = []"
    "this_thread v = p" "idle_thread v = i" "sleep_max v = 0" "conds v = Map.empty"
    "mutexes v = Map.empty" "exited v = False" "active_count v = 1" "key_max v = 0"
    "destructors v = replicate 16 0"
    "\<And>u. state_of v u = (if u = i then ST_RUNNABLE else ST_RUNNING)"
    "\<And>u. context_of v u = (if u = i then RMain else if u = p then RUser else RDead)"
    "\<And>u. flags_of v u = (if u = i then flag_mask FL_IDLE_THREAD
       else if u = p then flag_mask FL_PRIMORDIAL else 0)"
    "\<And>u. t_private (thr v u) = replicate 16 0"
proof -
  let ?v = "(vp_clear vp_zero)\<lparr>last_clock := now\<rparr>"
  obtain so cache where st: "st_stack_new (env_page env) (env_calloc_stack env) (env_segment env)
      (adjust_stk_size (env_page env) 0) (stacks ?v) = (so, cache)" by force
  have io: "\<not> io_rc < 0" using assms(1) by (auto simp: st_init_def vp_zero_def split: if_splits)
  obtain stack where so: "so = Some stack"
    using assms(1) st io by (cases so) (auto simp: st_init_def st_thread_create_def vp_zero_def)
  obtain ptds addr sp where lay:
    "stack_layout (env_ptr_size env) (env_thread_size env) stack = (ptds, addr, sp)"
    by (cases "stack_layout (env_ptr_size env) (env_thread_size env) stack") auto
  have ip: "nat addr \<noteq> p" using assms(2) st so lay by (simp add: new_thread_addr_def)
  note defs = st_init_def st_thread_create_def so lay Let_def upd_defs queue_macro_defs
    vp_clear_def zero_thread_def
  have z: "active_count vp_zero = 0" by (simp add: vp_zero_def)
  show thesis
    by (rule that [of "nat addr"])
      (use assms(1) st io ip z in \<open>auto simp: defs\<close>, auto simp: vp_zero_def zero_thread_def)
qed

lemma booted_inv:
  assumes "booted v"
  shows "vp_inv v"
proof -
  obtain env io_rc now idle_start p where b:
    "st_init env io_rc now idle_start (Some p) vp_zero = (0, v)"
    "new_thread_addr env 0 ((vp_clear vp_zero)\<lparr>last_clock := now\<rparr>) \<noteq> Some p"
    using assms by (auto simp: booted_def)
  from b obtain i where f: "i \<noteq> p" "run_q v = []" "sleep_q v = []" "zombie_q v = []" "compl v = []"
    "this_thread v = p" "idle_thread v = i" "sleep_max v = 0" "conds v = Map.empty"
    "mutexes v = Map.empty"
    "\<And>u. state_of v u = (if u = i then ST_RUNNABLE else ST_RUNNING)"
    "\<And>u. context_of v u = (if u = i then RMain else if u = p then RUser else RDead)"
    "\<And>u. flags_of v u = (if u = i then flag_mask FL_IDLE_THREAD
       else if u = p then flag_mask FL_PRIMORDIAL else 0)"
    by (rule booted_fields) (rule that; assumption)
  have e: "cond_q v c = []" "mutex_of v m = \<lparr>owner = None, m_wait_q = []\<rparr>" for c m
    by (simp_all add: cond_q_def mutex_of_def f)
  have w: "\<not> waits_on (context_of v u) c" "context_of v u \<noteq> RMutex m" for u c m by (simp_all add: f)
  have "queues_ok v" by (simp add: queues_ok_def f)
  moreover have "queued_ok v" by (simp add: queued_ok_def f)
  moreover have "sleepq_ok v" by (simp add: sleepq_ok_def f qsum_def del: flag_mask.simps)
  moreover have "running_ok (Some p) v" using f(1) f(1) [symmetric] by (simp add: running_ok_def f(7,11-12))
  moreover have "idle_ok v" by (simp add: idle_ok_def f)
  moreover have "context_ok v" by (simp add: context_ok_def f)
  moreover have "waiters_ok v" using w by (simp add: waiters_ok_def e)
  moreover have "mutexes_ok v" using w by (simp add: mutexes_ok_def)
  moreover have "compl_ok v" by (simp add: compl_ok_def f)
  moreover have "timed_ok v" by (simp add: timed_ok_def f del: flag_mask.simps)
  ultimately show ?thesis by (simp add: vp_inv_def core_def f)
qed

inductive reachable :: "st_vp \<Rightarrow> bool" where
  boot: "booted v \<Longrightarrow> reachable v"
| step: "reachable v \<Longrightarrow> vp_step v w \<Longrightarrow> reachable w"

lemma reachable_inv: "reachable v \<Longrightarrow> vp_inv v"
  by (induction rule: reachable.induct) (auto intro: booted_inv vp_step_inv)

end
