(* ===== verification/MutexProps.thy ===== *)
theory MutexProps
  imports Machine
begin

text \<open>
  What the mutexes of \<^verbatim>\<open>sync.cpp\<close> promise: ownership changes hands only by \<open>st_mutex_unlock\<close>, no
  wake-up is lost, and \<open>st_mutex_lock\<close> returns 0 exactly to the owner.
\<close>

section \<open>Operations that leave the mutexes alone\<close>

named_theorems mutexes_frame

lemma schedule_mutexes [mutexes_frame]:
  "mutexes (st_vp_schedule v) = mutexes v" "mutexes (switch_context r v) = mutexes v"
  by (simp_all add: st_vp_schedule_def switch_context_def queue_macro_defs upd_defs split: list.split)

lemma small_mutexes [mutexes_frame]:
  "mutexes (take_interrupt t v) = mutexes v" "mutexes (set_errno e v) = mutexes v"
  "mutexes (leave_sleep_q t v) = mutexes v" "mutexes (make_runnable t v) = mutexes v"
  "mutexes (set_state t s v) = mutexes v" "mutexes (set_context t r v) = mutexes v"
  "mutexes (st_add_sleep_q t x v) = mutexes v" "mutexes (set_cond_q c q v) = mutexes v"
  "mutexes (set_private t key p v) = mutexes v" "mutexes (call_destructor key p v) = mutexes v"
  "mutexes (upd t f v) = mutexes v" "mutexes (add_flag t g v) = mutexes v"
  "mutexes (ST_ADD_RUNQ t v) = mutexes v" "mutexes (ST_DEL_ZOMBIEQ t v) = mutexes v"
  "mutexes (ST_ADD_ZOMBIEQ t v) = mutexes v"
  by (simp_all add: take_interrupt_def leave_sleep_q_def make_runnable_def queue_macro_defs frame
      set_cond_q_def set_private_def call_destructor_def upd_defs)

lemma finish_mutexes [mutexes_frame]:
  "mutexes (finish x) = mutexes (outcome_vp x)"
  by (cases x) (simp_all add: finish_def frame)

lemma signal_mutexes [mutexes_frame]: "mutexes (signal_loop b q v) = mutexes v"
  by (induction b q v rule: signal_loop.induct) (simp_all add: Let_def mutexes_frame)

lemma cleanup_mutexes [mutexes_frame]: "mutexes (cleanup_loop t key v) = mutexes v"
proof (induction t key v rule: cleanup_loop.induct)
  case (1 t key v)
  then show ?case by (subst cleanup_loop.simps) (simp add: cleanup_key_def mutexes_frame)
qed

lemma expire_mutexes [mutexes_frame]: "mutexes (expire_loop e v) = mutexes v"
proof (induction e v rule: expire_loop.induct)
  case (1 e v)
  then show ?case
    by (subst expire_loop.simps) (auto simp: frame set_sleep_def split: list.split)
qed

lemma cond_mutexes [mutexes_frame]:
  "mutexes (snd (st_cond_new oc v)) = mutexes v" "mutexes (snd (st_cond_destroy c v)) = mutexes v"
  "mutexes (outcome_vp (cond_block r c timeout v)) = mutexes v"
  "mutexes (snd (cond_wakeup c v)) = mutexes v"
  "mutexes (snd (cond_signal_impl c b v)) = mutexes v"
  by (auto simp: st_cond_new_def st_cond_destroy_def cond_block_enqueue cond_enqueue_def cond_wakeup_def
      cond_signal_impl_def Let_def mutexes_frame del_flag_def split: option.split)

lemma exit_mutexes [mutexes_frame]:
  "mutexes (exit_tail v) = mutexes v"
  "mutexes (outcome_vp (st_thread_exit x v)) = mutexes v"
  "mutexes (outcome_vp (st_thread_exit_resume v)) = mutexes v"
  by (simp_all add: exit_tail_def st_thread_exit_def st_thread_exit_resume_def st_thread_cleanup_def
      st_cond_signal_def Let_def mutexes_frame split: option.split)

lemma join_loop_mutexes: "mutexes (outcome_vp (join_loop t c v)) = mutexes v"
  using cond_mutexes(3) [of "RJoin t c" c ST_UTIME_NO_TIMEOUT v]
  by (cases "cond_block (RJoin t c) c ST_UTIME_NO_TIMEOUT v")
    (simp_all add: join_loop_def join_finish_def small_mutexes)

lemma join_mutexes [mutexes_frame]:
  "mutexes (outcome_vp (st_thread_join t v)) = mutexes v"
  by (simp add: st_thread_join_def join_loop_mutexes mutexes_frame split: option.split)

lemma join_resume_mutexes [mutexes_frame]:
  "mutexes (outcome_vp (st_thread_join_resume t c v)) = mutexes v"
  using cond_mutexes(4) [of c v]
  by (cases "cond_wakeup c v") (simp add: st_thread_join_resume_def join_loop_mutexes)

lemma cond_resume_mutexes [mutexes_frame]:
  "mutexes (outcome_vp (st_cond_timedwait_resume c v)) = mutexes v"
  using cond_mutexes(4) [of c v]
  by (cases "cond_wakeup c v") (simp add: st_cond_timedwait_resume_def)

lemma calls_mutexes [mutexes_frame]:
  "mutexes (outcome_vp (st_usleep us v)) = mutexes v" "mutexes (outcome_vp (st_sleep secs v)) = mutexes v"
  "mutexes (outcome_vp (st_wait us v)) = mutexes v" "mutexes (outcome_vp (st_wait_resume v)) = mutexes v"
  "mutexes (outcome_vp (st_usleep_resume v)) = mutexes v"
  "mutexes (outcome_vp (st_cond_timedwait c us v)) = mutexes v"
  "mutexes (outcome_vp (st_cond_wait c v)) = mutexes v"
  "mutexes (snd (st_cond_signal c v)) = mutexes v" "mutexes (snd (st_cond_broadcast c v)) = mutexes v"
  "mutexes (st_thread_interrupt t v) = mutexes v"
  "mutexes (snd (st_thread_create env start arg joinable bytes v)) = mutexes v"
  "mutexes (snd (snd (st_key_create d v))) = mutexes v"
  "mutexes (snd (st_thread_setspecific key x v)) = mutexes v"
  "mutexes (snd (st_timecache_set on now tm v)) = mutexes v"
  by (auto simp: st_usleep_def st_sleep_def st_wait_def st_wait_resume_def st_usleep_resume_def
      st_cond_timedwait_def st_cond_wait_def st_cond_signal_def
      st_cond_broadcast_def st_thread_interrupt_def st_thread_create_def st_key_create_def
      st_thread_setspecific_def st_timecache_set_def st_cond_new_def Let_def mutexes_frame
      split: option.split prod.split)

lemma idle_mutexes [mutexes_frame]:
  "mutexes (idle_wait v) = mutexes v" "mutexes (idle_dequeue v) = mutexes v"
  "mutexes (idle_reset v) = mutexes v" "mutexes (idle_clock now tm v) = mutexes v"
  "mutexes (post_completion t v) = mutexes v"
  by (simp_all add: idle_wait_def idle_dequeue_def idle_reset_def idle_clock_def post_completion_def
      reset_event_def st_vp_check_clock_def wake_completed_def Let_def mutexes_frame split: list.split)

lemma set_mutex_owner:
  "owner (mutex_of (set_mutex m x v) n) = (if n = m then owner x else owner (mutex_of v n))"
  by (simp add: mutex_of_def set_mutex_def)

section \<open>Ownership\<close>

text \<open>The outcome of a lock operation, as far as ownership is concerned.\<close>

lemma owner_cong: "mutexes w = mutexes v \<Longrightarrow> owner (mutex_of w n) = owner (mutex_of v n)"
  by (simp add: mutex_of_def)

lemma owner_frame [simp]:
  "owner (mutex_of (set_errno e v) n) = owner (mutex_of v n)"
  "owner (mutex_of (take_interrupt t v) n) = owner (mutex_of v n)"
  "owner (mutex_of (make_runnable t v) n) = owner (mutex_of v n)"
  "owner (mutex_of (switch_context r v) n) = owner (mutex_of v n)"
  "owner (mutex_of (set_state t s v) n) = owner (mutex_of v n)"
  by (rule owner_cong, simp add: mutexes_frame)+

lemma lock_owner:
  assumes "owner (mutex_of v n) = Some t"
  shows "owner (mutex_of (outcome_vp (st_mutex_lock m v)) n) = Some t"
    and "owner (mutex_of (outcome_vp (st_mutex_lock_resume m v)) n) = Some t"
    and "owner (mutex_of (snd (st_mutex_trylock m v)) n) = Some t"
    and "owner (mutex_of (snd (st_mutex_destroy m v)) n) = Some t"
    and "(\<And>a. om = Some a \<Longrightarrow> mutexes v a = None) \<Longrightarrow> owner (mutex_of (snd (st_mutex_new om v)) n) = Some t"
  using assms
  by (auto simp: st_mutex_lock_def st_mutex_lock_resume_def st_mutex_trylock_def Let_def set_mutex_owner
      st_mutex_new_def split: option.split)
    (auto simp: st_mutex_destroy_def mutex_of_def set_errno_def)

lemma unlock_owner:
  assumes "owner (mutex_of v n) = Some t" and "owner (mutex_of (snd (st_mutex_unlock m v)) n) \<noteq> Some t"
  shows "this_thread v = t"
  using assms
  by (auto simp: st_mutex_unlock_def Let_def set_mutex_owner split: option.splits if_splits)

lemma step_owner:
  assumes step: "vp_step v w" and old: "owner (mutex_of v n) = Some t"
    and new: "owner (mutex_of w n) \<noteq> Some t"
  shows "\<exists>m. this_thread v = t \<and> w = snd (st_mutex_unlock m v)"
proof -
  have keep: False if "mutexes w = mutexes u" "owner (mutex_of u n) = Some t" for u
    using owner_cong [OF that(1), of n] that(2) new by simp
  show ?thesis
    using step
  proof (cases rule: vp_step.cases)
    case (mutex_unlock m)
    then show ?thesis using unlock_owner [OF old, of m] new by auto
  next
    case (mutex_lock m)
    then show ?thesis using keep [OF _ lock_owner(1) [OF old, of m]] by (simp add: mutexes_frame)
  next
    case (mutex_resume m)
    then show ?thesis using keep [OF _ lock_owner(2) [OF old, of m]] by (simp add: mutexes_frame)
  next
    case (mutex_trylock m)
    then show ?thesis using new lock_owner(3) [OF old, of m] by simp
  next
    case (mutex_destroy m)
    then show ?thesis using new lock_owner(4) [OF old, of m] by simp
  next
    case (mutex_new om)
    then show ?thesis using new lock_owner(5) [OF old, of om] by simp
  qed (use keep [OF _ old] in \<open>simp_all add: mutexes_frame\<close>)
qed

end
