(* ===== verification/Run.thy ===== *)
theory Run
  imports MutexProps
begin

text \<open>
  A concrete run of the state machine, from \<^verbatim>\<open>st_init\<close> on: the states at which the properties are
  exercised.
\<close>

section \<open>Two threads and a mutex\<close>

text \<open>A 32-bit machine whose allocations succeed.\<close>

definition run_env :: create_env where
  "run_env = \<lparr>env_page = 4096, env_ptr_size = 4, env_thread_size = 128, env_calloc_stack = True,
     env_segment = (\<lambda>_. Some 65536), env_calloc_cond = Some 9\<rparr>"

text \<open>After \<^verbatim>\<open>st_init\<close>; with mutex 3 created; locked by the primordial thread 5.\<close>

definition run0 :: st_vp where "run0 = snd (st_init run_env 0 0 7 (Some 5) vp_zero)"
definition run1 :: st_vp where "run1 = snd (st_mutex_new (Some 3) run0)"
definition run2 :: st_vp where "run2 = finish (st_mutex_lock 3 run1)"

lemmas run_defs = run0_def run1_def run2_def run_env_def st_init_def vp_zero_def vp_clear_def
  st_thread_create_def st_stack_new_def adjust_stk_size_def ST_DEFAULT_STACK_SIZE_def
  st_new_stack_def stack_layout_def MD_STACK_PAD_SIZE_def Let_def upd_defs queue_macro_defs
  zero_thread_def new_thread_addr_def

lemma run0_booted: "booted run0"
  unfolding booted_def
  by (rule exI [of _ run_env], rule exI [of _ 0], rule exI [of _ 0], rule exI [of _ 7],
      rule exI [of _ 5]) (simp add: run_defs)

lemma run0_state:
  "this_thread run0 = 5" "context_of run0 5 = RUser" "exited run0 = False" "mutexes run0 = Map.empty"
  "conds run0 = Map.empty" "flags_of run0 5 = flag_mask FL_PRIMORDIAL" "run_q run0 = []"
  "idle_thread run0 = 134976" "active_count run0 = 1" "sleep_q run0 = []" "sleep_max run0 = 0"
  by (simp_all add: run_defs)

lemma run0_inv: "vp_inv run0"
  using run0_booted by (rule booted_inv)

lemma run1_step: "vp_step run0 run1"
  unfolding run1_def by (rule vp_step.mutex_new) (simp_all add: in_user_def run0_state)

lemma run1_state:
  "this_thread run1 = 5" "context_of run1 5 = RUser" "exited run1 = False"
  "mutexes run1 = [3 \<mapsto> \<lparr>owner = None, m_wait_q = []\<rparr>]" "flags_of run1 5 = flag_mask FL_PRIMORDIAL"
  by (simp_all add: run1_def st_mutex_new_def set_mutex_def run0_state)

lemma run2_step: "vp_step run1 run2"
  unfolding run2_def by (rule vp_step.mutex_lock) (simp_all add: in_user_def run1_state)

lemma run2_state:
  "this_thread run2 = 5" "context_of run2 5 = RUser" "exited run2 = False"
  "mutexes run2 = [3 \<mapsto> \<lparr>owner = Some 5, m_wait_q = []\<rparr>]"
  by (simp_all add: run2_def st_mutex_lock_def set_mutex_def mutex_of_def run1_state finish_def
      set_context_def upd_def del: flag_mask.simps)

text \<open>The primordial thread creates thread \<open>run_tid\<close> and sleeps; the new thread blocks on the mutex; the
  idle thread lets the sleeper run again, which unlocks the mutex and sleeps once more, so that the
  new thread is resumed inside \<open>st_mutex_lock\<close>.\<close>

definition run_env2 :: create_env where
  "run_env2 = run_env\<lparr>env_segment := (\<lambda>_. Some 200000)\<rparr>"

definition run_tid :: tid where "run_tid = 269440"

definition run3 :: st_vp where "run3 = snd (st_thread_create run_env2 8 0 True 0 run2)"
definition run4 :: st_vp where "run4 = finish (st_usleep 10 run3)"
definition run5 :: st_vp where "run5 = set_context (this_thread run4) RUser run4"
definition run6 :: st_vp where "run6 = finish (st_mutex_lock 3 run5)"
definition run6a :: st_vp where "run6a = set_context (this_thread run6) RIdle run6"
definition run6b :: st_vp where "run6b = idle_wait run6a"
definition run7 :: st_vp where "run7 = idle_reset run6b"
definition run8 :: st_vp where "run8 = idle_clock 20 0 run7"
definition run8a :: st_vp where "run8a = finish (st_usleep_resume run8)"
definition run8b :: st_vp where "run8b = snd (st_mutex_unlock 3 run8a)"
definition run9 :: st_vp where "run9 = finish (st_usleep 5 run8b)"

lemmas op_defs = st_mutex_new_def set_mutex_def st_mutex_lock_def finish_def mutex_of_def
  st_cond_new_def set_cond_q_def st_usleep_def switch_context_def st_vp_schedule_def
  st_add_sleep_q_def st_vp_check_clock_def expire_loop.simps wake_sleeper_def st_del_sleep_q_def
  idle_clock_def idle_wait_def idle_reset_def reset_event_def make_runnable_def st_usleep_resume_def
  st_mutex_unlock_def in_user_def at_point_def
  run3_def run4_def run5_def run6_def run6a_def run6b_def run7_def run8_def run8a_def run8b_def
  run9_def run_env2_def run_tid_def

lemma run3_step: "vp_step run2 run3"
  unfolding run3_def
  by (rule vp_step.create) (auto simp: run_defs op_defs simp del: flag_mask.simps)

lemma run4_step: "vp_step run3 run4"
  unfolding run4_def by (rule vp_step.usleep) (simp add: run_defs op_defs del: flag_mask.simps)

lemma run5_step: "vp_step run4 run5"
  unfolding run5_def by (rule vp_step.main_start) (simp_all add: run_defs op_defs del: flag_mask.simps)

lemma run6_step: "vp_step run5 run6"
  unfolding run6_def by (rule vp_step.mutex_lock) (simp_all add: run_defs op_defs del: flag_mask.simps)

lemma run6a_step: "vp_step run6 run6a"
  unfolding run6a_def by (rule vp_step.idle_start) (simp_all add: run_defs op_defs del: flag_mask.simps)

lemma run6b_step: "vp_step run6a run6b"
  unfolding run6b_def by (rule vp_step.idle_wait) (simp_all add: run_defs op_defs del: flag_mask.simps)

lemma run7_step: "vp_step run6b run7"
  unfolding run7_def by (rule vp_step.idle_reset) (simp add: run_defs op_defs del: flag_mask.simps)

lemma run8_step: "vp_step run7 run8"
  unfolding run8_def by (rule vp_step.idle_clock) (simp add: run_defs op_defs del: flag_mask.simps)

lemma run8a_step: "vp_step run8 run8a"
  unfolding run8a_def by (rule vp_step.usleep_resume) (simp add: run_defs op_defs del: flag_mask.simps)

lemma run8b_step: "vp_step run8a run8b"
  unfolding run8b_def by (rule vp_step.mutex_unlock) (simp_all add: run_defs op_defs del: flag_mask.simps)

lemma run9_step: "vp_step run8b run9"
  unfolding run9_def by (rule vp_step.usleep) (simp add: run_defs op_defs del: flag_mask.simps)

lemma run_reachable:
  "reachable run0" "reachable run1" "reachable run2" "reachable run3" "reachable run4" "reachable run5"
  "reachable run6" "reachable run6b" "reachable run7" "reachable run8" "reachable run8a" "reachable run9"
proof -
  note st = reachable.step
  show r0: "reachable run0" using run0_booted by (rule reachable.boot)
  show r1: "reachable run1" using r0 run1_step by (rule st)
  show r2: "reachable run2" using r1 run2_step by (rule st)
  show r3: "reachable run3" using r2 run3_step by (rule st)
  show r4: "reachable run4" using r3 run4_step by (rule st)
  show r5: "reachable run5" using r4 run5_step by (rule st)
  show r6: "reachable run6" using r5 run6_step by (rule st)
  have r6a: "reachable run6a" using r6 run6a_step by (rule st)
  show r6b: "reachable run6b" using r6a run6b_step by (rule st)
  show r7: "reachable run7" using r6b run7_step by (rule st)
  show r8: "reachable run8" using r7 run8_step by (rule st)
  show r8a: "reachable run8a" using r8 run8a_step by (rule st)
  have r8b: "reachable run8b" using r8a run8b_step by (rule st)
  show "reachable run9" using r8b run9_step by (rule st)
qed

section \<open>A condition variable with a time limit\<close>

text \<open>The new thread joins nobody here: the primordial thread waits for it with a time limit on its
  termination condition variable.\<close>

definition runc :: st_vp where "runc = finish (st_cond_timedwait 9 10 run3)"

lemma runc_reachable: "reachable runc"
  unfolding runc_def
  by (rule reachable.step [OF run_reachable(4) vp_step.cond_timedwait])
    (simp_all add: run_defs op_defs del: flag_mask.simps)

lemma runc_state:
  "cond_q runc 9 = [5]" "state_of runc 5 = ST_COND_WAIT" "run_q runc = []"
  "this_thread runc = run_tid"
  by (simp_all add: runc_def st_cond_timedwait_def cond_block_def cond_q_def ST_UTIME_NO_TIMEOUT_def
      run_defs op_defs del: flag_mask.simps)

text \<open>The waiter of \<open>runc\<close> after its time limit of 10 microseconds.\<close>

definition runc1 :: st_vp where "runc1 = set_context (this_thread runc) RUser runc"
definition runc2 :: st_vp where "runc2 = finish (st_usleep 100 runc1)"
definition runc3 :: st_vp where "runc3 = set_context (this_thread runc2) RIdle runc2"
definition runc4 :: st_vp where "runc4 = idle_wait runc3"
definition runc5 :: st_vp where "runc5 = idle_reset runc4"
definition runt :: st_vp where "runt = idle_clock 20 0 runc5"

lemmas runc_defs = runc_def st_cond_timedwait_def cond_block_def cond_q_def ST_UTIME_NO_TIMEOUT_def
  run_defs op_defs runc1_def runc2_def runc3_def runc4_def runc5_def runt_def

lemma runt_reachable: "reachable runt"
proof -
  note st = reachable.step
  have "reachable runc1" unfolding runc1_def
    by (rule st [OF runc_reachable vp_step.main_start]) (simp_all add: runc_defs del: flag_mask.simps)
  then have "reachable runc2" unfolding runc2_def
    by (rule st [OF _ vp_step.usleep]) (simp add: runc_defs del: flag_mask.simps)
  then have "reachable runc3" unfolding runc3_def
    by (rule st [OF _ vp_step.idle_start]) (simp_all add: runc_defs del: flag_mask.simps)
  then have "reachable runc4" unfolding runc4_def
    by (rule st [OF _ vp_step.idle_wait]) (simp_all add: runc_defs del: flag_mask.simps)
  then have "reachable runc5" unfolding runc5_def
    by (rule st [OF _ vp_step.idle_reset]) (simp add: runc_defs del: flag_mask.simps)
  then show "reachable runt" unfolding runt_def
    by (rule st [OF _ vp_step.idle_clock]) (simp add: runc_defs del: flag_mask.simps)
qed

end
