(* ===== verification/VpProps.thy ===== *)
theory VpProps
  imports Run
begin

text \<open>
  The properties of the virtual processor: scheduling, sleeping, synchronisation and termination, as
  they follow from the invariant of the reachable states.
\<close>

section \<open>The invariant\<close>

text \<open>C1: Every state the run-time can reach, by any calls of its threads, resumptions, idle steps
  and posted completions, satisfies the invariant: the queues are disjoint and agree with the thread
  states, no runnable or sleeping thread is lost, exactly one live thread runs, every blocked thread
  is in the wait queue of what it waits for, and the timer sum never wraps.\<close>

theorem vp_invariant: "reachable v \<Longrightarrow> vp_inv v"
  by (rule reachable_inv)

theorem vp_invariant_witness: "vp_inv run9"
  by (rule vp_invariant) (rule run_reachable)

section \<open>Mutexes\<close>

text \<open>C2: Mutual exclusion.  In any step of the run-time, a mutex that thread \<open>t\<close> owns stays owned by
  \<open>t\<close> unless the step is \<open>t\<close>'s own call of \<open>st_mutex_unlock\<close> on that mutex.\<close>

theorem mutex_exclusion:
  assumes "vp_step v w" and "owner (mutex_of v m) = Some t" and "owner (mutex_of w m) \<noteq> Some t"
  shows "this_thread v = t \<and> w = snd (st_mutex_unlock m v)"
proof -
  obtain n where n: "this_thread v = t" "w = snd (st_mutex_unlock n v)"
    using step_owner [OF assms] by blast
  have "n = m"
  proof (rule ccontr)
    assume "n \<noteq> m"
    then have "owner (mutex_of w m) = owner (mutex_of v m)"
      by (auto simp: n(2) st_mutex_unlock_def Let_def set_mutex_owner split: option.split)
    then show False using assms by simp
  qed
  then show ?thesis using n by simp
qed

theorem mutex_exclusion_witness:
  "this_thread run8a = 5 \<and> run8b = snd (st_mutex_unlock 3 run8a)"
proof (rule mutex_exclusion [where m = 3])
  show "vp_step run8a run8b" by (rule run8b_step)
  show "owner (mutex_of run8a 3) = Some 5" by (simp add: run_defs op_defs del: flag_mask.simps)
  show "owner (mutex_of run8b 3) \<noteq> Some 5" by (simp add: run_defs op_defs del: flag_mask.simps)
qed

text \<open>C4: When a blocked \<open>st_mutex_lock\<close> is resumed it returns 0 with the caller as the owner, or -1
  with \<open>EINTR\<close> when it was interrupted and the mutex is not the caller's; in both cases the caller
  has left the wait queue.\<close>

theorem mutex_lock_result:
  assumes "reachable v" and "at_point (RMutex m) v"
  shows "\<exists>rv w. st_mutex_lock_resume m v = Return rv w \<and>
    this_thread v \<notin> set (m_wait_q (mutex_of w m)) \<and>
    (rv = 0 \<and> owner (mutex_of w m) = Some (this_thread v) \<or>
     rv = -1 \<and> errno w = EINTR \<and> owner (mutex_of w m) \<noteq> Some (this_thread v) \<and>
     has_flag (flags_of v (this_thread v)) FL_INTERRUPT)"
proof -
  define me where "me = this_thread v"
  have inv: "vp_inv v" using assms(1) by (rule reachable_inv)
  have ctx: "context_of v me = RMutex m" using assms(2) by (simp add: at_point_def me_def)
  have run: "state_of v me = ST_RUNNING" using vp_invD(1) [OF inv] by (simp add: me_def)
  have core: "mutexes_ok v" "waiters_ok v" using inv by (simp_all add: vp_inv_def core_def)
  have own: "owner (mutex_of v m) = Some me \<or> has_flag (flags_of v me) FL_INTERRUPT"
    using core(1) ctx run unfolding mutexes_ok_def by (metis tstate.distinct(5))
  have d: "distinct (m_wait_q (mutex_of v m))" using core(2) by (simp add: waiters_ok_def)
  show ?thesis
    unfolding st_mutex_lock_resume_def Let_def me_def [symmetric]
    using own d by (auto simp: frame take_interrupt_def del_flag_def set_errno_def mutex_of_def
        set_mutex_def)
qed

theorem mutex_lock_result_witness:
  "\<exists>rv w. st_mutex_lock_resume 3 run9 = Return rv w \<and>
    run_tid \<notin> set (m_wait_q (mutex_of w 3)) \<and>
    (rv = 0 \<and> owner (mutex_of w 3) = Some run_tid \<or>
     rv = -1 \<and> errno w = EINTR \<and> owner (mutex_of w 3) \<noteq> Some run_tid \<and>
     has_flag (flags_of run9 run_tid) FL_INTERRUPT)"
proof -
  have "this_thread run9 = run_tid" "at_point (RMutex 3) run9"
    by (simp_all add: run_defs op_defs del: flag_mask.simps)
  then show ?thesis using mutex_lock_result [OF run_reachable(12)] by simp
qed

lemma next_waiter_filter:
  "next_waiter v q = (case filter (\<lambda>u. state_of v u = ST_LOCK_WAIT) q of [] \<Rightarrow> None | t # _ \<Rightarrow> Some t)"
  by (induction q) auto

text \<open>C5: Unlocking hands the mutex over.  The owner's \<open>st_mutex_unlock\<close> gives it to the first thread
  of the wait queue that still waits, which becomes runnable behind all others; without such a thread
  the mutex becomes free and nothing else changes.\<close>

theorem mutex_handoff:
  assumes "owner (mutex_of v m) = Some (this_thread v)"
  shows "fst (st_mutex_unlock m v) = 0 \<and>
    (case filter (\<lambda>u. state_of v u = ST_LOCK_WAIT) (m_wait_q (mutex_of v m)) of
       t # _ \<Rightarrow>
         owner (mutex_of (snd (st_mutex_unlock m v)) m) = Some t \<and>
         run_q (snd (st_mutex_unlock m v)) = run_q v @ [t] \<and>
         state_of (snd (st_mutex_unlock m v)) t = ST_RUNNABLE
     | [] \<Rightarrow>
         owner (mutex_of (snd (st_mutex_unlock m v)) m) = None \<and>
         run_q (snd (st_mutex_unlock m v)) = run_q v)"
  using assms
  by (simp add: st_mutex_unlock_def Let_def next_waiter_filter set_mutex_owner split: list.split)
    (simp add: make_runnable_def queue_macro_defs frame)

theorem mutex_handoff_witness:
  "fst (st_mutex_unlock 3 run8a) = 0 \<and> owner (mutex_of run8b 3) = Some run_tid \<and>
    run_q run8b = [run_tid]"
proof -
  have "owner (mutex_of run8a 3) = Some (this_thread run8a)"
    "m_wait_q (mutex_of run8a 3) = [run_tid]" "state_of run8a run_tid = ST_LOCK_WAIT"
    "run_q run8a = []"
    by (simp_all add: run_defs op_defs del: flag_mask.simps)
  then show ?thesis using mutex_handoff [of run8a 3] by (simp add: run8b_def)
qed

text \<open>C6: No waiter is lost.  In a reachable state every thread blocked in \<open>st_mutex_lock\<close> stands in
  the wait queue of a mutex that some thread owns, so an unlock is still to come.\<close>

theorem mutex_waiter_not_lost:
  assumes "reachable v" and "state_of v u = ST_LOCK_WAIT"
  shows "\<exists>m. u \<in> set (m_wait_q (mutex_of v m)) \<and> owner (mutex_of v m) \<noteq> None"
proof -
  have inv: "context_ok v" "waiters_ok v" "mutexes_ok v"
    using reachable_inv [OF assms(1)] by (simp_all add: vp_inv_def core_def)
  obtain n where n: "context_of v u = RMutex n"
    using inv(1) assms(2) by (auto simp: context_ok_def)
  have "u \<in> set (m_wait_q (mutex_of v n))" using inv(2) n by (simp add: waiters_ok_def)
  moreover have "owner (mutex_of v n) \<noteq> None"
    using inv(3) n assms(2) unfolding mutexes_ok_def by blast
  ultimately show ?thesis by blast
qed

theorem mutex_waiter_not_lost_witness:
  "\<exists>m. run_tid \<in> set (m_wait_q (mutex_of run6 m)) \<and> owner (mutex_of run6 m) \<noteq> None"
  by (rule mutex_waiter_not_lost [OF run_reachable(7)])
    (simp add: run_defs op_defs del: flag_mask.simps)

section \<open>Sleeping and time-outs\<close>






text \<open>C7: A clock check makes runnable exactly the sleepers whose deadline has passed since the last
  check, earliest first, brings every other deadline closer by the time that passed, and marks
  exactly the woken condition waiters as timed out.\<close>

theorem clock_wakes_due:
  assumes "reachable v" and e: "e = unat (now - last_clock v)"
    and w: "w = st_vp_check_clock now tm v"
  shows "run_q w = run_q v @ tq_due e (deadlines v) \<and> deadlines w = tq_advance e (deadlines v) \<and>
    (\<forall>t. has_flag (flags_of w t) FL_TIMEDOUT \<longleftrightarrow>
       has_flag (flags_of v t) FL_TIMEDOUT \<or>
       t \<in> set (tq_due e (deadlines v)) \<and> state_of v t = ST_COND_WAIT)"
proof -
  define u where "u = (if curr_time v \<noteq> 0 \<and> now - last_tset v > 999000
    then v\<lparr>last_clock := now, curr_time := tm, last_tset := now\<rparr> else v\<lparr>last_clock := now\<rparr>)"
  have f: "thr u = thr v" "sleep_q u = sleep_q v" "run_q u = run_q v" "sleep_max u = sleep_max v"
    by (simp_all add: u_def)
  have ok: "sleepq_ok u"
    using reachable_inv [OF assms(1)] by (simp add: sleepq_ok_def f vp_inv_def core_def)
  have d: "deadlines u = deadlines v" by (simp add: deadlines_def f)
  have "w = expire_loop (now - last_clock v) u"
    by (simp add: w st_vp_check_clock_def u_def Let_def)
  then show ?thesis
    using expire_loop_refines [OF ok, of "now - last_clock v"] by (simp add: d f e)
qed

theorem clock_wakes_due_witness:
  "run_q (st_vp_check_clock 20 0 run7) = [5]"
proof -
  have "run_q run7 = []" "last_clock run7 = 0" "sleep_q run7 = [5]" "sleep_of run7 5 = 10"
    by (simp_all add: run_defs op_defs del: flag_mask.simps)
  then show ?thesis
    using clock_wakes_due [OF run_reachable(9) refl refl, of 20 0]
    by (simp add: deadlines_def tq_due_def)
qed

text \<open>Interrupting a thread that sleeps takes exactly this thread off the sleep queue, leaves the
  deadlines of all others alone, and makes it runnable with the interrupt pending.\<close>

theorem interrupt_sleeper:
  assumes "reachable v" and "t \<in> set (sleep_q v)" and w: "w = st_thread_interrupt t v"
  shows "deadlines w = tq_delete t (deadlines v) \<and> run_q w = run_q v @ [t] \<and>
    state_of w t = ST_RUNNABLE \<and> has_flag (flags_of w t) FL_INTERRUPT"
proof -
  have c: "queues_ok v" "sleepq_ok v"
    using reachable_inv [OF assms(1)] by (simp_all add: vp_inv_def core_def)
  have st: "state_of v t = ST_SLEEPING \<or> state_of v t = ST_COND_WAIT"
    using c(1) assms(2) by (simp add: queues_ok_def)
  define u where "u = add_flag t FL_INTERRUPT v"
  have f: "run_q u = run_q v" "sleep_q u = sleep_q v" "sleep_max u = sleep_max v"
    "\<And>x. sleep_of u x = sleep_of v x" "\<And>x. state_of u x = state_of v x"
    "has_flag (flags_of u t) FL_INTERRUPT"
    "\<And>x. has_flag (flags_of u x) FL_ON_SLEEPQ = has_flag (flags_of v x) FL_ON_SLEEPQ"
    by (simp_all add: u_def add_flag_def frame)
  have ok: "sleepq_ok u" using c(2) by (rule sleepq_ok_cong) (simp_all add: f)
  have du: "deadlines u = deadlines v" by (auto simp: deadlines_def f intro: dl_cong)
  have mem: "t \<in> set (sleep_q u)" using assms(2) by (simp add: f)
  then have "has_flag (flags_of u t) FL_ON_SLEEPQ" using ok by (simp add: sleepq_ok_def)
  then have we: "w = make_runnable t (st_del_sleep_q t False u)"
    using st unfolding w st_thread_interrupt_def Let_def u_def [symmetric] leave_sleep_q_def
    by (auto simp: f)
  have "deadlines w = deadlines (st_del_sleep_q t False u)"
    by (auto simp: we make_runnable_def queue_macro_defs deadlines_def frame intro: dl_cong)
  then show ?thesis
    using del_sleep_q_refines(1) [OF ok mem]
    by (simp add: du we make_runnable_def queue_macro_defs frame f)
qed

theorem interrupt_sleeper_witness:
  "sleep_q (st_thread_interrupt 5 run5) = [] \<and> run_q (st_thread_interrupt 5 run5) = [5]"
proof -
  have f: "sleep_q run5 = [5]" "run_q run5 = []" by (simp_all add: run_defs op_defs del: flag_mask.simps)
  have "deadlines (st_thread_interrupt 5 run5) = tq_delete 5 (deadlines run5) \<and>
      run_q (st_thread_interrupt 5 run5) = run_q run5 @ [5]"
    using interrupt_sleeper [OF run_reachable(6), of 5] f by simp
  then have "map fst (deadlines (st_thread_interrupt 5 run5)) = []"
    "run_q (st_thread_interrupt 5 run5) = [5]"
    by (simp_all add: tq_delete_def deadlines_def f)
  then show ?thesis by (simp add: deadlines_def)
qed

section \<open>Condition variables\<close>

lemma wake_fields:
  "run_q (make_runnable t (leave_sleep_q t v)) = run_q v @ [t]"
  "state_of (make_runnable t (leave_sleep_q t v)) u = (if u = t then ST_RUNNABLE else state_of v u)"
  by (simp_all add: signal_wake frame)

lemma broadcast_effect:
  "distinct q \<Longrightarrow>
   run_q (signal_loop True q v) = run_q v @ filter (\<lambda>t. state_of v t = ST_COND_WAIT) q \<and>
   (\<forall>u. state_of (signal_loop True q v) u =
      (if u \<in> set q \<and> state_of v u = ST_COND_WAIT then ST_RUNNABLE else state_of v u))"
proof (induction q arbitrary: v)
  case Nil
  then show ?case by simp
next
  case (Cons t q)
  define w where "w = make_runnable t (leave_sleep_q t v)"
  have t: "t \<notin> set q" "distinct q" using Cons.prems by auto
  have w: "run_q w = run_q v @ [t]" "\<And>u. state_of w u = (if u = t then ST_RUNNABLE else state_of v u)"
    by (simp_all add: w_def wake_fields)
  have "filter (\<lambda>u. state_of w u = ST_COND_WAIT) q = filter (\<lambda>u. state_of v u = ST_COND_WAIT) q"
    using t(1) by (intro filter_cong) (auto simp: w)
  then show ?case
    using Cons.IH [OF t(2), of w] Cons.IH [OF t(2), of v] t(1)
    by (auto simp: Let_def w_def [symmetric] w)
qed

lemma signal_effect:
  "run_q (signal_loop False q v) = run_q v @ take 1 (filter (\<lambda>t. state_of v t = ST_COND_WAIT) q)"
  by (induction q) (simp_all add: Let_def wake_fields)

text \<open>\<open>st_cond_signal\<close> makes runnable the first thread of the wait queue that still waits, and
  \<open>st_cond_broadcast\<close> all of them, in the order in which they began to wait, behind the threads that
  are runnable already.\<close>

theorem cond_signal_wakes:
  assumes "reachable v"
  shows "run_q (snd (st_cond_signal c v)) =
      run_q v @ take 1 (filter (\<lambda>t. state_of v t = ST_COND_WAIT) (cond_q v c)) \<and>
    run_q (snd (st_cond_broadcast c v)) =
      run_q v @ filter (\<lambda>t. state_of v t = ST_COND_WAIT) (cond_q v c) \<and>
    (\<forall>t \<in> set (cond_q v c). state_of (snd (st_cond_broadcast c v)) t \<noteq> ST_COND_WAIT)"
proof -
  have "distinct (cond_q v c)"
    using reachable_inv [OF assms] by (simp add: vp_inv_def core_def waiters_ok_def)
  then show ?thesis
    using broadcast_effect [of "cond_q v c" v] signal_effect [of "cond_q v c" v]
    by (simp add: st_cond_signal_def st_cond_broadcast_def cond_signal_impl_def)
qed

theorem cond_signal_wakes_witness: "run_q (snd (st_cond_signal 9 runc)) = [5]"
  using cond_signal_wakes [OF runc_reachable, of 9] by (simp add: runc_state)

text \<open>C8: What \<open>st_cond_timedwait\<close> returns when it is resumed: -1 with \<open>EINTR\<close> if the thread was
  interrupted, else -1 with \<open>ETIME\<close> if the time limit passed, else 0; the thread has left the wait
  queue and neither cause stays pending.\<close>

theorem cond_timedwait_result:
  assumes "reachable v" and "at_point (RCond c) v"
  shows "\<exists>rv w. st_cond_timedwait_resume c v = Return rv w \<and> this_thread v \<notin> set (cond_q w c) \<and>
    \<not> has_flag (flags_of w (this_thread v)) FL_INTERRUPT \<and>
    \<not> has_flag (flags_of w (this_thread v)) FL_TIMEDOUT \<and>
    (if has_flag (flags_of v (this_thread v)) FL_INTERRUPT then rv = -1 \<and> errno w = EINTR
     else if has_flag (flags_of v (this_thread v)) FL_TIMEDOUT then rv = -1 \<and> errno w = ETIME
     else rv = 0 \<and> errno w = errno v)"
proof -
  have d: "distinct (cond_q v c)"
    using reachable_inv [OF assms(1)] by (simp add: vp_inv_def core_def waiters_ok_def)
  show ?thesis
    using d by (auto simp: st_cond_timedwait_resume_def cond_wakeup_def Let_def take_interrupt_def
        del_flag_def set_errno_def frame cond_q_def set_cond_q_def)
qed

theorem cond_timedwait_result_witness:
  "\<exists>w. st_cond_timedwait_resume 9 runt = Return (-1) w \<and> errno w = ETIME"
proof -
  have "at_point (RCond 9) runt" "this_thread runt = 5" "has_flag (flags_of runt 5) FL_TIMEDOUT"
    "\<not> has_flag (flags_of runt 5) FL_INTERRUPT"
    by (simp_all add: runc_defs del: flag_mask.simps)
  then show ?thesis
    using cond_timedwait_result [OF runt_reachable, of 9] by auto
qed

end
