(* ===== verification/SchedProps.thy ===== *)
theory SchedProps
  imports Run
begin

text \<open>
  Properties of the scheduler: the first-in first-out order of the run queue, joining, and two
  behaviours of the code around completions that its interface does not announce.
\<close>

section \<open>The run queue only grows at its end\<close>

definition appends :: "st_vp \<Rightarrow> st_vp \<Rightarrow> bool" where
  "appends v w = (\<exists>xs. run_q w = run_q v @ xs)"



lemma appends_refl [simp]: "run_q w = run_q v \<Longrightarrow> appends v w"
  by (simp add: appends_def)






named_theorems run_frame

lemma small_run [run_frame]:
  "run_q (take_interrupt t v) = run_q v" "run_q (set_errno e v) = run_q v"
  "run_q (leave_sleep_q t v) = run_q v" "run_q (make_runnable t v) = run_q v @ [t]"
  "run_q (set_state t s v) = run_q v" "run_q (set_context t r v) = run_q v"
  "run_q (st_add_sleep_q t x v) = run_q v" "run_q (set_cond_q c q v) = run_q v"
  "run_q (set_private t key p v) = run_q v" "run_q (call_destructor key p v) = run_q v"
  "run_q (upd t f v) = run_q v" "run_q (add_flag t g v) = run_q v"
  "run_q (del_flag t g v) = run_q v" "run_q (set_mutex m l v) = run_q v"
  "run_q (ST_ADD_RUNQ t v) = run_q v @ [t]" "run_q (ST_DEL_ZOMBIEQ t v) = run_q v"
  "run_q (ST_ADD_ZOMBIEQ t v) = run_q v"
  by (simp_all add: take_interrupt_def leave_sleep_q_def make_runnable_def queue_macro_defs frame
      set_cond_q_def set_private_def call_destructor_def upd_defs set_mutex_def)


lemma cleanup_run [run_frame]: "run_q (cleanup_loop t key v) = run_q v"
proof (induction t key v rule: cleanup_loop.induct)
  case (1 t key v)
  then show ?case by (subst cleanup_loop.simps) (simp add: cleanup_key_def run_frame)
qed












section \<open>Completions\<close>

lemma drain_one:
  assumes "compl v = [t]"
  shows "run_q (drain_loop v) = run_q v @ [t]"
proof -
  define w where "w = wake_completed t (v\<lparr>compl := []\<rparr>)"
  have w: "compl w = []" "run_q w = run_q v @ [t]"
    by (simp add: w_def, simp add: w_def wake_completed_def run_frame)
  have "drain_loop w = w" using w(1) by (subst drain_loop.simps) simp
  then show ?thesis using assms w(2) by (subst drain_loop.simps) (simp add: w_def)
qed

text \<open>Interrupting a thread that waits for I/O makes it run twice.  \<open>st_thread_interrupt\<close> puts
  the thread on the run queue without revoking its I/O request; when the request completes, the
  idle thread puts it there again, so the run queue holds the same thread twice (in the C lists:
  a thread object linked into the queue while it is in it).\<close>

theorem interrupt_io_twice:
  assumes "reachable v" and "state_of v t = ST_IO_WAIT" and "compl v = []"
  shows "run_q (drain_loop (post_completion t (st_thread_interrupt t v))) = run_q v @ [t, t]"
proof -
  have ns: "run_q (st_thread_interrupt t v) = run_q v @ [t]"
    using assms(2) by (simp add: st_thread_interrupt_def Let_def run_frame add_flag_def frame)
  have "compl (st_thread_interrupt t v) = []"
    using assms(3) by (simp add: st_thread_interrupt_def Let_def make_runnable_def queue_macro_defs
        upd_defs)
  then have "compl (post_completion t (st_thread_interrupt t v)) = [t]"
    by (simp add: post_completion_def)
  from drain_one [OF this] show ?thesis by (simp add: post_completion_def ns)
qed

text \<open>The new thread waits for I/O while the primordial one sleeps.\<close>

definition runio :: st_vp where "runio = finish (st_wait (-1) run5)"

lemma runio_reachable: "reachable runio"
  unfolding runio_def
  by (rule reachable.step [OF run_reachable(6) vp_step.wait]) (simp add: run_defs op_defs del: flag_mask.simps)

theorem interrupt_io_twice_witness:
  "run_q (drain_loop (post_completion run_tid (st_thread_interrupt run_tid runio))) = [run_tid, run_tid]"
proof -
  have "state_of runio run_tid = ST_IO_WAIT" "compl runio = []" "run_q runio = []"
    by (simp_all add: runio_def st_wait_def run_defs op_defs del: flag_mask.simps)
  then show ?thesis using interrupt_io_twice [OF runio_reachable] by simp
qed

text \<open>A completion can be left waiting.  If another operating system thread posts it after the
  idle thread saw the queue empty and before it resets the event, the event is off while the
  completion is queued; the idle thread's next waits then end by their time-out and do not drain the
  queue, until some other completion is posted.\<close>

theorem completion_left_waiting:
  assumes "reachable v" and "at_point RIdleReset v" and "state_of v t = ST_IO_WAIT"
  shows "t \<in> set (compl (idle_reset (post_completion t v))) \<and>
    \<not> notify_event (idle_reset (post_completion t v)) \<and>
    (\<forall>w. compl w = compl (idle_reset (post_completion t v)) \<and>
         notify_event w = notify_event (idle_reset (post_completion t v)) \<longrightarrow>
       compl (st_vp_idle w) = compl w \<and> run_q (st_vp_idle w) = run_q w)"
  by (auto simp: idle_reset_def reset_event_def post_completion_def st_vp_idle_def set_context_def upd_def)

definition runio1 :: st_vp where "runio1 = set_context (this_thread runio) RIdle runio"
definition runio2 :: st_vp where "runio2 = idle_wait runio1"

lemma runio2_reachable: "reachable runio2"
proof -
  note defs = runio_def st_wait_def run_defs op_defs runio1_def
  have "reachable runio1" unfolding runio1_def
    by (rule reachable.step [OF runio_reachable vp_step.idle_start])
      (simp_all add: defs del: flag_mask.simps)
  then show ?thesis unfolding runio2_def
    by (rule reachable.step [OF _ vp_step.idle_wait]) (simp_all add: defs del: flag_mask.simps)
qed

theorem completion_left_waiting_witness:
  "run_tid \<in> set (compl (idle_reset (post_completion run_tid runio2))) \<and>
   \<not> notify_event (idle_reset (post_completion run_tid runio2))"
proof -
  have "at_point RIdleReset runio2" "state_of runio2 run_tid = ST_IO_WAIT"
    by (simp_all add: runio_def st_wait_def run_defs op_defs runio1_def runio2_def del: flag_mask.simps)
  then show ?thesis using completion_left_waiting [OF runio2_reachable] by blast
qed

section \<open>Joining\<close>

text \<open>\<open>st_thread_join\<close> of a thread that already ended returns 0 and the thread's return value,
  takes it off the zombie queue and makes it runnable for its clean-up; the errors are \<open>EINVAL\<close> for a
  thread that is not joinable or that another thread is joining, and \<open>EDEADLK\<close> for joining oneself.\<close>

theorem thread_join_result:
  assumes "reachable v" and r: "st_thread_join t v = Return rv w"
    and "\<not> has_flag (flags_of v (this_thread v)) FL_INTERRUPT"
  shows "(case t_term (thr v t) of
      None \<Rightarrow> rv = (-1, None) \<and> errno w = EINVAL
    | Some c \<Rightarrow>
        if this_thread v = t then rv = (-1, None) \<and> errno w = EDEADLK
        else if cond_q v c \<noteq> [] then rv = (-1, None) \<and> errno w = EINVAL
        else state_of v t = ST_ZOMBIE \<and> rv = (0, Some (t_retval (thr v t))) \<and>
             t \<notin> set (zombie_q w) \<and> t \<in> set (run_q w) \<and> state_of w t = ST_RUNNABLE)"
proof -
  have d: "distinct (zombie_q v)"
    using reachable_inv [OF assms(1)] by (simp add: vp_inv_def core_def queues_ok_def)
  show ?thesis
    using r assms(3) d
    by (auto simp: st_thread_join_def join_loop_def join_finish_def cond_block_enqueue set_errno_def
        queue_macro_defs frame split: option.splits if_splits)
qed

text \<open>The new thread ends at once, and the primordial thread joins it.\<close>

definition runj1 :: st_vp where "runj1 = finish (st_thread_exit 77 run5)"
definition runj2 :: st_vp where "runj2 = set_context (this_thread runj1) RIdle runj1"
definition runj3 :: st_vp where "runj3 = idle_wait runj2"
definition runj4 :: st_vp where "runj4 = idle_reset runj3"
definition runj5 :: st_vp where "runj5 = idle_clock 20 0 runj4"
definition runj6 :: st_vp where "runj6 = finish (st_usleep_resume runj5)"

lemmas runj_defs = st_thread_exit_def st_thread_cleanup_def cleanup_loop.simps st_cond_signal_def
  cond_signal_impl_def cond_q_def run_defs op_defs
  runj1_def runj2_def runj3_def runj4_def runj5_def runj6_def

lemma runj_reachable: "reachable runj6"
proof -
  note st = reachable.step
  have "reachable runj1" unfolding runj1_def
    by (rule st [OF run_reachable(6) vp_step.exit]) (simp add: run_defs op_defs del: flag_mask.simps)
  then have "reachable runj2" unfolding runj2_def
    by (rule st [OF _ vp_step.idle_start]) (simp_all add: runj_defs del: flag_mask.simps)
  then have "reachable runj3" unfolding runj3_def
    by (rule st [OF _ vp_step.idle_wait]) (simp_all add: runj_defs del: flag_mask.simps)
  then have "reachable runj4" unfolding runj4_def
    by (rule st [OF _ vp_step.idle_reset]) (simp add: runj_defs del: flag_mask.simps)
  then have "reachable runj5" unfolding runj5_def
    by (rule st [OF _ vp_step.idle_clock]) (simp add: runj_defs del: flag_mask.simps)
  then show "reachable runj6" unfolding runj6_def
    by (rule st [OF _ vp_step.usleep_resume]) (simp add: runj_defs del: flag_mask.simps)
qed

theorem thread_join_result_witness:
  "\<exists>w. st_thread_join run_tid runj6 = Return (0, Some 77) w \<and> run_tid \<in> set (run_q w)"
proof -
  have f: "this_thread runj6 = 5" "\<not> has_flag (flags_of runj6 5) FL_INTERRUPT"
    "t_term (thr runj6 run_tid) = Some 9" "cond_q runj6 9 = []"
    "state_of runj6 run_tid = ST_ZOMBIE" "t_retval (thr runj6 run_tid) = 77"
    by (simp_all add: runj_defs del: flag_mask.simps)
  obtain rv w where r: "st_thread_join run_tid runj6 = Return rv w"
    using f by (simp add: st_thread_join_def join_loop_def join_finish_def run_tid_def)
  have "rv = (0, Some 77) \<and> run_tid \<in> set (run_q w)"
    using thread_join_result [OF runj_reachable r] f by (simp add: run_tid_def del: flag_mask.simps)
  then show ?thesis using r by blast
qed

end
