(* ===== verification/Io.thy ===== *)
theory Io
  imports Thread
begin

text \<open>
  Descriptors and I/O (\<^verbatim>\<open>io_win.cpp\<close>, and the completion thread of \<^verbatim>\<open>sched_win.cpp\<close>): the descriptor
  objects and their free list, the translation of error codes, and the calls that start an
  overlapped operation, wait for its completion and return its result.  What the operating system
  answers is an argument of each operation.
\<close>

section \<open>Error codes\<close>

text \<open>The documented Winsock error numbers.\<close>

named_theorems wsa_defs

definition WSABASEERR :: int where [wsa_defs]: "WSABASEERR = 10000"
definition WSAEINTR :: int where [wsa_defs]: "WSAEINTR = 10004"
definition WSAEBADF :: int where [wsa_defs]: "WSAEBADF = 10009"
definition WSAEACCES :: int where [wsa_defs]: "WSAEACCES = 10013"
definition WSAEFAULT :: int where [wsa_defs]: "WSAEFAULT = 10014"
definition WSAEINVAL :: int where [wsa_defs]: "WSAEINVAL = 10022"
definition WSAEMFILE :: int where [wsa_defs]: "WSAEMFILE = 10024"
definition WSAEWOULDBLOCK :: int where [wsa_defs]: "WSAEWOULDBLOCK = 10035"
definition WSAEINPROGRESS :: int where [wsa_defs]: "WSAEINPROGRESS = 10036"
definition WSAEALREADY :: int where [wsa_defs]: "WSAEALREADY = 10037"
definition WSAENOTSOCK :: int where [wsa_defs]: "WSAENOTSOCK = 10038"
definition WSAEDESTADDRREQ :: int where [wsa_defs]: "WSAEDESTADDRREQ = 10039"
definition WSAEMSGSIZE :: int where [wsa_defs]: "WSAEMSGSIZE = 10040"
definition WSAEPROTOTYPE :: int where [wsa_defs]: "WSAEPROTOTYPE = 10041"
definition WSAENOPROTOOPT :: int where [wsa_defs]: "WSAENOPROTOOPT = 10042"
definition WSAEOPNOTSUPP :: int where [wsa_defs]: "WSAEOPNOTSUPP = 10045"
definition WSAEADDRINUSE :: int where [wsa_defs]: "WSAEADDRINUSE = 10048"
definition WSAEADDRNOTAVAIL :: int where [wsa_defs]: "WSAEADDRNOTAVAIL = 10049"
definition WSAECONNABORTED :: int where [wsa_defs]: "WSAECONNABORTED = 10053"
definition WSAECONNRESET :: int where [wsa_defs]: "WSAECONNRESET = 10054"
definition WSAEISCONN :: int where [wsa_defs]: "WSAEISCONN = 10056"
definition WSAENOTCONN :: int where [wsa_defs]: "WSAENOTCONN = 10057"
definition WSAETIMEDOUT :: int where [wsa_defs]: "WSAETIMEDOUT = 10060"
definition WSAECONNREFUSED :: int where [wsa_defs]: "WSAECONNREFUSED = 10061"
definition WSAEHOSTUNREACH :: int where [wsa_defs]: "WSAEHOSTUNREACH = 10065"
definition ERROR_IO_PENDING :: int where [wsa_defs]: "ERROR_IO_PENDING = 997"

text \<open>The \<^verbatim>\<open>switch\<close> of \<^verbatim>\<open>_st_GetError\<close>.\<close>

definition xlate_error :: "int \<Rightarrow> int" where
  "xlate_error e =
     (if e = WSAEINTR then e
      else if e = WSAEBADF then EBADF
      else if e = WSAEACCES then EACCES
      else if e = WSAEFAULT then EFAULT
      else if e = WSAEINVAL then EINVAL
      else if e = WSAEMFILE then EMFILE
      else if e = WSAEWOULDBLOCK then EAGAIN
      else if e = WSAEINPROGRESS then EINTR
      else if e = WSAEALREADY then EINTR
      else if e = WSAENOTSOCK then ENOTSOCK
      else if e = WSAEDESTADDRREQ then EDESTADDRREQ
      else if e = WSAEMSGSIZE then EMSGSIZE
      else if e = WSAEPROTOTYPE then EPROTOTYPE
      else if e = WSAENOPROTOOPT then ENOPROTOOPT
      else if e = WSAEOPNOTSUPP then EOPNOTSUPP
      else if e = WSAEADDRINUSE then EADDRINUSE
      else if e = WSAEADDRNOTAVAIL then EADDRNOTAVAIL
      else if e = WSAECONNABORTED then ECONNABORTED
      else if e = WSAECONNRESET then ECONNRESET
      else if e = WSAEISCONN then EISCONN
      else if e = WSAENOTCONN then ENOTCONN
      else if e = WSAETIMEDOUT then ETIMEDOUT
      else if e = WSAECONNREFUSED then ECONNREFUSED
      else if e = WSAEHOSTUNREACH then EHOSTUNREACH
      else e)"

text \<open>\<^verbatim>\<open>_st_GetError\<close>: \<open>lasterr\<close> is the thread's last error, which the function sets to 0; \<open>junk\<close> is the
  uninitialised \<^verbatim>\<open>syserr\<close> it uses when \<open>err\<close> is not 0.\<close>

definition st_GetError :: "int \<Rightarrow> int \<Rightarrow> int \<Rightarrow> int" where
  "st_GetError err lasterr junk =
     (let syserr = (if err = 0 then lasterr else junk)
      in if syserr < WSABASEERR then syserr else xlate_error syserr)"

section \<open>Descriptors\<close>

text \<open>\<^verbatim>\<open>st_netfd_t\<close>; the null pointer is 0.\<close>

record st_netfd =
  nf_osfd :: int
  nf_inuse :: int
  nf_private :: ptr
  nf_destructor :: ptr
  nf_aux :: ptr
  nf_next :: ptr

text \<open>The descriptor objects, the head \<^verbatim>\<open>_st_netfd_freelist\<close>, the destructor calls made, the sockets
  closed, and the per-thread last error and \<^verbatim>\<open>errno\<close>.\<close>

record netfds =
  fds :: "ptr \<Rightarrow> st_netfd"
  freelist :: ptr
  fd_log :: "(ptr \<times> ptr) list"
  closed :: "int list"
  last_error :: int
  nf_errno :: int

definition zero_netfd :: st_netfd where
  "zero_netfd = \<lparr>nf_osfd = 0, nf_inuse = 0, nf_private = 0, nf_destructor = 0, nf_aux = 0, nf_next = 0\<rparr>"

definition upd_fd :: "ptr \<Rightarrow> (st_netfd \<Rightarrow> st_netfd) \<Rightarrow> netfds \<Rightarrow> netfds" where
  "upd_fd p f n = n\<lparr>fds := (fds n)(p := f (fds n p))\<rparr>"

definition st_netfd_free_aux_data :: "ptr \<Rightarrow> netfds \<Rightarrow> netfds" where
  "st_netfd_free_aux_data fd = upd_fd fd (\<lambda>r. r\<lparr>nf_aux := 0\<rparr>)"

definition call_fd_destructor :: "ptr \<Rightarrow> netfds \<Rightarrow> netfds" where
  "call_fd_destructor fd n =
     (if nf_private (fds n fd) \<noteq> 0 \<and> nf_destructor (fds n fd) \<noteq> 0
      then n\<lparr>fd_log := fd_log n @ [(nf_destructor (fds n fd), nf_private (fds n fd))]\<rparr> else n)"

definition st_netfd_free :: "ptr \<Rightarrow> netfds \<Rightarrow> netfds" where
  "st_netfd_free fd n =
     (if nf_inuse (fds n fd) = 0 then n
      else let n1 = upd_fd fd (\<lambda>r. r\<lparr>nf_inuse := 0\<rparr>) n;
               n2 = (if nf_aux (fds n1 fd) \<noteq> 0 then st_netfd_free_aux_data fd n1 else n1);
               n3 = call_fd_destructor fd n2;
               n4 = upd_fd fd (\<lambda>r. r\<lparr>nf_private := 0, nf_destructor := 0, nf_next := freelist n3\<rparr>) n3
           in n4\<lparr>freelist := fd\<rparr>)"

text \<open>\<^verbatim>\<open>_st_netfd_new\<close>; \<open>mem\<close> is the address \<^verbatim>\<open>calloc\<close> gives.  The code writes through it before it
  tests it, so there is no state to return if it is null: \<open>None\<close> is the access through a null
  pointer.\<close>

definition st_netfd_new :: "int \<Rightarrow> ptr option \<Rightarrow> netfds \<Rightarrow> (ptr \<times> netfds) option" where
  "st_netfd_new osfd mem n =
     (let opened = (\<lambda>fd. upd_fd fd (\<lambda>r. r\<lparr>nf_inuse := 1, nf_next := 0\<rparr>))
      in if freelist n \<noteq> 0
         then let fd = freelist n; n1 = n\<lparr>freelist := nf_next (fds n fd)\<rparr>
              in Some (fd, opened fd n1)
         else case mem of
                None \<Rightarrow> None
              | Some fd \<Rightarrow> Some (fd, opened fd (upd_fd fd (\<lambda>_. zero_netfd\<lparr>nf_osfd := osfd\<rparr>) n)))"

definition st_netfd_open :: "int \<Rightarrow> ptr option \<Rightarrow> netfds \<Rightarrow> (ptr \<times> netfds) option" where
  "st_netfd_open osfd mem n = st_netfd_new osfd mem n"

definition st_netfd_open_socket :: "int \<Rightarrow> ptr option \<Rightarrow> netfds \<Rightarrow> (ptr \<times> netfds) option" where
  "st_netfd_open_socket osfd mem n = st_netfd_new osfd mem n"

text \<open>\<^verbatim>\<open>st_netfd_close\<close>; \<open>close_error\<close> is the last error after \<^verbatim>\<open>closesocket\<close>.\<close>

definition st_netfd_close :: "ptr \<Rightarrow> int \<Rightarrow> netfds \<Rightarrow> int \<times> netfds" where
  "st_netfd_close fd close_error n =
     (let n1 = st_netfd_free fd n;
          n2 = n1\<lparr>closed := closed n1 @ [nf_osfd (fds n1 fd)]\<rparr>;
          e = st_GetError 0 close_error 0
      in (e, n2\<lparr>last_error := 0, nf_errno := e\<rparr>))"

definition st_netfd_fileno :: "ptr \<Rightarrow> netfds \<Rightarrow> int" where
  "st_netfd_fileno fd n = nf_osfd (fds n fd)"

definition st_netfd_setspecific :: "ptr \<Rightarrow> ptr \<Rightarrow> ptr \<Rightarrow> netfds \<Rightarrow> netfds" where
  "st_netfd_setspecific fd x dtor n =
     (let n1 = (if x \<noteq> nf_private (fds n fd) then call_fd_destructor fd n else n)
      in upd_fd fd (\<lambda>r. r\<lparr>nf_private := x, nf_destructor := dtor\<rparr>) n1)"

definition st_netfd_getspecific :: "ptr \<Rightarrow> netfds \<Rightarrow> ptr" where
  "st_netfd_getspecific fd n = nf_private (fds n fd)"

definition st_netfd_serialize_accept :: "ptr \<Rightarrow> netfds \<Rightarrow> int \<times> netfds" where
  "st_netfd_serialize_accept fd n = (0, upd_fd fd (\<lambda>r. r\<lparr>nf_aux := 0\<rparr>) n)"

text \<open>\<^verbatim>\<open>st_netfd_listen\<close>: the socket made by \<^verbatim>\<open>WSASocket\<close> and whether each of the calls on it fails.\<close>

definition st_netfd_listen ::
  "int \<Rightarrow> int \<Rightarrow> int \<Rightarrow> int \<Rightarrow> ptr option \<Rightarrow> netfds \<Rightarrow> (ptr \<times> netfds) option" where
  "st_netfd_listen sock setsockopt_rc bind_rc listen_rc mem n =
     (if setsockopt_rc < 0 then Some (0, n)
      else if bind_rc \<noteq> 0 then Some (0, n)
      else if listen_rc \<noteq> 0 then Some (0, n)
      else st_netfd_new sock mem n)"

text \<open>\<^verbatim>\<open>st_open\<close> opens nothing: it wraps the uninitialised \<open>junk\<close>.\<close>

definition st_open :: "int \<Rightarrow> ptr option \<Rightarrow> netfds \<Rightarrow> (ptr \<times> netfds) option" where
  "st_open junk mem n = st_netfd_new junk mem n"

section \<open>Overlapped operations\<close>

datatype io_oper = ACCEPT_OPER | CONNECT_OPER | SEND_OPER | RECV_OPER

text \<open>\<^verbatim>\<open>st_context_switch_t\<close>, one per thread: the operation under way and its result.\<close>

record st_context_switch =
  operator_type :: io_oper
  valid_len :: int
  cs_osfd :: int
  cs_buf :: ptr
  cs_len :: int

text \<open>The I/O side of the run-time: descriptors, the threads' contexts, and the socket in the data the
  completion port keeps for each socket (by the key \<^verbatim>\<open>st_per_handle_data\<close>).\<close>

record io_state =
  nfd :: netfds
  ctx :: "tid \<Rightarrow> st_context_switch"
  per_handle :: "ptr \<Rightarrow> int"
  port_assoc :: "(int \<times> ptr) list"

definition upd_ctx :: "tid \<Rightarrow> (st_context_switch \<Rightarrow> st_context_switch) \<Rightarrow> io_state \<Rightarrow> io_state" where
  "upd_ctx t f s = s\<lparr>ctx := (ctx s)(t := f (ctx s t))\<rparr>"

text \<open>The end of every I/O call: wait, and then return a value computed from the thread's context.
  The result of \<^verbatim>\<open>_st_wait\<close> is ignored by the code.\<close>

definition io_wait :: "utime \<Rightarrow> (st_context_switch \<Rightarrow> 'r) \<Rightarrow> io_state \<Rightarrow> st_vp \<Rightarrow> 'r outcome" where
  "io_wait timeout res s v =
     (case st_wait timeout v of
        Return _ w \<Rightarrow> Return (res (ctx s (this_thread v))) w
      | Switch w \<Rightarrow> Switch w)"

definition io_resume :: "(st_context_switch \<Rightarrow> 'r) \<Rightarrow> io_state \<Rightarrow> st_vp \<Rightarrow> 'r outcome" where
  "io_resume res s v =
     (case st_wait_resume v of
        Return _ w \<Rightarrow> Return (res (ctx s (this_thread v))) w
      | Switch w \<Rightarrow> Switch w)"

text \<open>\<^verbatim>\<open>st_read\<close>; \<open>rc\<close> and \<open>err\<close> are the result of \<^verbatim>\<open>WSARecv\<close> and of \<^verbatim>\<open>WSAGetLastError\<close> after it.\<close>

definition read_context :: "ptr \<Rightarrow> int \<Rightarrow> st_context_switch \<Rightarrow> st_context_switch" where
  "read_context buf n c = c\<lparr>operator_type := RECV_OPER, cs_buf := buf, cs_len := n\<rparr>"

definition st_read ::
  "ptr \<Rightarrow> int \<Rightarrow> utime \<Rightarrow> int \<Rightarrow> int \<Rightarrow> io_state \<Rightarrow> st_vp \<Rightarrow> int outcome \<times> io_state" where
  "st_read buf n timeout rc err s v =
     (let s1 = upd_ctx (this_thread v) (read_context buf n) s
      in (if rc \<noteq> 0 \<and> err \<noteq> ERROR_IO_PENDING then Return (-1) v else io_wait timeout valid_len s1 v, s1))"

definition st_read_resume :: "io_state \<Rightarrow> st_vp \<Rightarrow> int outcome" where
  "st_read_resume s v = io_resume valid_len s v"

definition write_context :: "ptr \<Rightarrow> int \<Rightarrow> st_context_switch \<Rightarrow> st_context_switch" where
  "write_context buf n c = c\<lparr>operator_type := SEND_OPER, cs_buf := buf, cs_len := n\<rparr>"

definition st_write ::
  "ptr \<Rightarrow> int \<Rightarrow> utime \<Rightarrow> int \<Rightarrow> int \<Rightarrow> io_state \<Rightarrow> st_vp \<Rightarrow> int outcome \<times> io_state" where
  "st_write buf n timeout rc err s v =
     (let s1 = upd_ctx (this_thread v) (write_context buf n) s
      in (if rc \<noteq> 0 \<and> err \<noteq> ERROR_IO_PENDING then Return (-1) v
          else io_wait ST_UTIME_NO_TIMEOUT (\<lambda>_. n) s1 v, s1))"

definition st_write_resume :: "int \<Rightarrow> io_state \<Rightarrow> st_vp \<Rightarrow> int outcome" where
  "st_write_resume n s v = io_resume (\<lambda>_. n) s v"

definition st_writev :: "netfds \<Rightarrow> int \<times> netfds" where
  "st_writev n = (-1, n\<lparr>nf_errno := EOPNOTSUPP\<rparr>)"

definition st_recvfrom :: int where "st_recvfrom = 0"

definition st_sendto :: int where "st_sendto = 0"

definition st_fd_wait :: "utime \<Rightarrow> st_vp \<Rightarrow> int outcome" where
  "st_fd_wait timeout v = st_wait timeout v"

text \<open>\<^verbatim>\<open>st_accept\<close>: \<open>ioctl_ok\<close> whether the extension function was found, \<open>sock\<close> the new socket, \<open>err\<close> the
  last error after \<^verbatim>\<open>AcceptEx\<close> (its result is not assigned to \<^verbatim>\<open>rc\<close>, so the error is always
  consulted).  The result is the descriptor or the null pointer.\<close>

definition accept_context :: "ptr \<Rightarrow> int \<Rightarrow> int \<Rightarrow> st_context_switch \<Rightarrow> st_context_switch" where
  "accept_context buf n sock c =
     c\<lparr>cs_buf := buf, cs_len := n, cs_osfd := sock, operator_type := ACCEPT_OPER\<rparr>"

definition st_accept ::
  "ptr \<Rightarrow> int \<Rightarrow> bool \<Rightarrow> int \<Rightarrow> int \<Rightarrow> ptr option \<Rightarrow> io_state \<Rightarrow> st_vp \<Rightarrow> (ptr outcome \<times> io_state) option"
where
  "st_accept buf n ioctl_ok sock err mem s v =
     (if \<not> ioctl_ok then Some (Return 0 v, s)
      else case st_netfd_new sock mem (nfd s) of
             None \<Rightarrow> None
           | Some (newfd, m) \<Rightarrow>
               let s1 = upd_ctx (this_thread v) (accept_context buf n sock) (s\<lparr>nfd := m\<rparr>)
               in Some (if err \<noteq> ERROR_IO_PENDING then Return 0 v
                        else io_wait ST_UTIME_NO_TIMEOUT (\<lambda>_. newfd) s1 v, s1))"

definition st_accept_resume :: "ptr \<Rightarrow> io_state \<Rightarrow> st_vp \<Rightarrow> ptr outcome" where
  "st_accept_resume newfd s v = io_resume (\<lambda>_. newfd) s v"

text \<open>\<^verbatim>\<open>st_connect\<close>; \<open>handle\<close> is the address of the data kept for the socket at the completion port.\<close>

definition connect_context :: "int \<Rightarrow> st_context_switch \<Rightarrow> st_context_switch" where
  "connect_context sock c = c\<lparr>cs_osfd := sock, operator_type := CONNECT_OPER\<rparr>"

definition st_connect ::
  "bool \<Rightarrow> int \<Rightarrow> ptr \<Rightarrow> bool \<Rightarrow> int \<Rightarrow> ptr option \<Rightarrow> io_state \<Rightarrow> st_vp \<Rightarrow>
   (ptr outcome \<times> io_state) option" where
  "st_connect ioctl_ok sock handle started err mem s v =
     (case st_netfd_new sock mem (nfd s) of
        None \<Rightarrow> None
      | Some (newfd, m) \<Rightarrow>
          let s1 = s\<lparr>nfd := m\<rparr> in
          if \<not> ioctl_ok then Some (Return 0 v, s1)
          else let s2 = upd_ctx (this_thread v) (connect_context sock) s1;
                   s3 = s2\<lparr>per_handle := (per_handle s2)(handle := sock),
                           port_assoc := port_assoc s2 @ [(sock, handle)]\<rparr>
               in Some (if \<not> started \<and> err \<noteq> ERROR_IO_PENDING then Return 0 v
                        else io_wait ST_UTIME_NO_TIMEOUT (\<lambda>_. newfd) s3 v, s3))"

definition st_connect_resume :: "ptr \<Rightarrow> io_state \<Rightarrow> st_vp \<Rightarrow> ptr outcome" where
  "st_connect_resume newfd s v = io_resume (\<lambda>_. newfd) s v"

section \<open>The completion thread\<close>

text \<open>One turn of the loop of \<^verbatim>\<open>_st_iocp_thread_pool\<close>, for the packet of thread \<open>t\<close>: \<open>ok\<close> and \<open>bytes\<close>
  are the results of \<^verbatim>\<open>GetQueuedCompletionStatus\<close>, \<open>handle\<close> its key and \<open>err\<close> the last error.\<close>

definition iocp_turn ::
  "bool \<Rightarrow> int \<Rightarrow> ptr \<Rightarrow> int \<Rightarrow> tid \<Rightarrow> io_state \<Rightarrow> st_vp \<Rightarrow> io_state \<times> st_vp" where
  "iocp_turn ok bytes handle err t s v =
     (let s1 = upd_ctx t (\<lambda>c. c\<lparr>valid_len := -1\<rparr>) s;
          oper = operator_type (ctx s1 t);
          s2 = (if (\<not> ok \<or> bytes = 0) \<and> oper \<noteq> ACCEPT_OPER \<and> oper \<noteq> CONNECT_OPER
                then s1\<lparr>nfd := (nfd s1)\<lparr>closed := closed (nfd s1) @ [per_handle s1 handle],
                                        last_error := 0, nf_errno := st_GetError 0 err 0\<rparr>\<rparr>
                else s1);
          s3 = upd_ctx t (\<lambda>c. c\<lparr>valid_len := bytes\<rparr>) s2;
          s4 = (if oper = ACCEPT_OPER
                then s3\<lparr>per_handle := (per_handle s3)(handle := cs_osfd (ctx s3 t)),
                        port_assoc := port_assoc s3 @ [(cs_osfd (ctx s3 t), handle)]\<rparr>
                else s3)
      in (s4, post_completion t v))"

section \<open>Reading a whole buffer\<close>

text \<open>What one call of \<^verbatim>\<open>st_read\<close> gives: bytes, or -1 with the last error.\<close>

datatype read_result = Bytes "nat list" | Failed int

text \<open>The loop of \<^verbatim>\<open>st_read_fully\<close>: \<open>nleft\<close> bytes are still wanted, \<open>buf\<close> is what was stored so far,
  and the list holds the results of the reads to come; \<open>None\<close>: the loop still waits.  The result is
  the return value, \<^verbatim>\<open>errno\<close> if it was set, and the bytes stored.\<close>

fun read_loop :: "nat \<Rightarrow> nat \<Rightarrow> nat list \<Rightarrow> int option \<Rightarrow> read_result list \<Rightarrow>
    (int \<times> int option \<times> nat list) option" where
  "read_loop nbyte nleft buf e rs =
     (if nleft = 0 then Some (int nbyte - int nleft, e, buf)
      else case rs of
             [] \<Rightarrow> None
           | Failed err # rs' \<Rightarrow>
               (let e' = st_GetError 0 err 0 in
                if e' = EINTR then read_loop nbyte nleft buf (Some e') rs'
                else Some (-1, Some e', buf))
           | Bytes xs # rs' \<Rightarrow>
               (let nleft' = nleft - length xs; buf' = buf @ xs in
                if nleft' = 0 \<or> xs = [] then Some (int nbyte - int nleft', e, buf')
                else read_loop nbyte nleft' buf' e rs'))"

declare read_loop.simps [simp del]

definition st_read_fully :: "nat \<Rightarrow> read_result list \<Rightarrow> (int \<times> int option \<times> nat list) option" where
  "st_read_fully nbyte rs = read_loop nbyte nbyte [] None rs"

end
