(* ===== verification/IoProps.thy ===== *)
theory IoProps
  imports Io
begin

text \<open>
  Properties of the I/O layer: the descriptor free list, error translation, and what the blocking
  calls return.
\<close>

section \<open>The free list of descriptors\<close>

text \<open>\<open>fl_path f p xs\<close>: following the links from \<open>p\<close> gives the descriptors \<open>xs\<close> up to the null
  pointer.\<close>

fun fl_path :: "(ptr \<Rightarrow> st_netfd) \<Rightarrow> ptr \<Rightarrow> ptr list \<Rightarrow> bool" where
  "fl_path f p [] = (p = 0)"
| "fl_path f p (x # xs) = (p = x \<and> p \<noteq> 0 \<and> fl_path f (nf_next (f p)) xs)"

definition freelist_ok :: "netfds \<Rightarrow> ptr list \<Rightarrow> bool" where
  "freelist_ok n xs =
     (fl_path (fds n) (freelist n) xs \<and> distinct xs \<and> (\<forall>x \<in> set xs. nf_inuse (fds n x) = 0))"

lemma fl_path_cong: "(\<And>x. x \<in> set xs \<Longrightarrow> nf_next (g x) = nf_next (f x)) \<Longrightarrow> fl_path g p xs = fl_path f p xs"
  by (induction xs arbitrary: p) auto

lemma call_fd_destructor_fields [simp]:
  "fds (call_fd_destructor fd n) = fds n" "freelist (call_fd_destructor fd n) = freelist n"
  "closed (call_fd_destructor fd n) = closed n"
  by (simp_all add: call_fd_destructor_def)

lemma netfd_free_fields:
  assumes "nf_inuse (fds n fd) \<noteq> 0"
  shows "freelist (st_netfd_free fd n) = fd" and "nf_next (fds (st_netfd_free fd n) fd) = freelist n"
    and "nf_inuse (fds (st_netfd_free fd n) fd) = 0" and "nf_osfd (fds (st_netfd_free fd n) fd) = nf_osfd (fds n fd)"
    and "\<And>p. p \<noteq> fd \<Longrightarrow> fds (st_netfd_free fd n) p = fds n p"
    and "closed (st_netfd_free fd n) = closed n"
  using assms by (auto simp: st_netfd_free_def Let_def upd_fd_def st_netfd_free_aux_data_def)

lemma netfd_free_ok:
  assumes ok: "freelist_ok n xs" and "fd \<noteq> 0" and use: "nf_inuse (fds n fd) \<noteq> 0"
  shows "freelist_ok (st_netfd_free fd n) (fd # xs)"
proof -
  note f = netfd_free_fields [OF use]
  have new: "fd \<notin> set xs" using ok use by (auto simp: freelist_ok_def)
  then have "fl_path (fds (st_netfd_free fd n)) (freelist n) xs = fl_path (fds n) (freelist n) xs"
    by (intro fl_path_cong) (metis f(5))
  moreover have "nf_inuse (fds (st_netfd_free fd n) x) = 0" if "x \<in> set xs" for x
    using that new ok f(5) [of x] unfolding freelist_ok_def by metis
  ultimately show ?thesis using ok new assms(2) f(1-3) by (simp add: freelist_ok_def)
qed

lemma netfd_new_pop:
  assumes ok: "freelist_ok n (x # xs)" and new: "st_netfd_new osfd mem n = Some (fd, n')"
  shows "fd = x" and "freelist_ok n' xs" and "nf_osfd (fds n' fd) = nf_osfd (fds n fd)"
    and "nf_inuse (fds n' fd) = 1"
proof -
  have p: "freelist n = x" "x \<noteq> 0" "fl_path (fds n) (nf_next (fds n x)) xs" "x \<notin> set xs"
    using ok by (auto simp: freelist_ok_def)
  have e: "fd = x" "n' = upd_fd x (\<lambda>r. r\<lparr>nf_inuse := 1, nf_next := 0\<rparr>) (n\<lparr>freelist := nf_next (fds n x)\<rparr>)"
    using new p by (auto simp: st_netfd_new_def Let_def)
  have "fl_path (fds n') (nf_next (fds n x)) xs = fl_path (fds n) (nf_next (fds n x)) xs"
    using p(4) by (intro fl_path_cong) (auto simp: e upd_fd_def)
  then show "freelist_ok n' xs" using ok p by (auto simp: freelist_ok_def e upd_fd_def)
  show "fd = x" by (rule e)
  show "nf_osfd (fds n' fd) = nf_osfd (fds n fd)" "nf_inuse (fds n' fd) = 1"
    by (simp_all add: e upd_fd_def)
qed

lemma netfd_new_fresh:
  assumes ok: "freelist_ok n []" and new: "st_netfd_new osfd mem n = Some (fd, n')"
  shows "mem = Some fd" and "freelist_ok n' []" and "nf_osfd (fds n' fd) = osfd"
    and "nf_inuse (fds n' fd) = 1"
  using assms by (auto simp: st_netfd_new_def Let_def freelist_ok_def upd_fd_def zero_netfd_def split: option.splits)

text \<open>C12: Opening and releasing descriptors keeps the free list a list of distinct descriptors that
  are not in use: a new descriptor is the head of the list, or new memory when it is empty, and is
  never one in use; releasing one twice does nothing the second time.\<close>

theorem netfd_freelist:
  assumes "freelist_ok n xs" and "mem \<noteq> Some 0" and "\<And>p. mem = Some p \<Longrightarrow> nf_inuse (fds n p) = 0"
    and "st_netfd_new osfd mem n = Some (fd, n')"
  shows "nf_inuse (fds n fd) = 0 \<and> freelist_ok n' (tl xs) \<and>
    freelist_ok (st_netfd_free fd n') (fd # tl xs) \<and>
    st_netfd_free fd (st_netfd_free fd n') = st_netfd_free fd n'"
proof -
  have use: "nf_inuse (fds n' fd) = 1 \<and> freelist_ok n' (tl xs) \<and> nf_inuse (fds n fd) = 0 \<and> fd \<noteq> 0"
  proof (cases xs)
    case Nil
    then show ?thesis using netfd_new_fresh [of n osfd mem fd n'] assms by auto
  next
    case (Cons y ys)
    then show ?thesis using netfd_new_pop [of n y ys osfd mem fd n'] assms(1,4) by (auto simp: freelist_ok_def)
  qed
  then have "nf_inuse (fds (st_netfd_free fd n') fd) = 0" by (intro netfd_free_fields) simp
  then have "st_netfd_free fd (st_netfd_free fd n') = st_netfd_free fd n'"
    by (subst st_netfd_free_def) simp
  then show ?thesis using use netfd_free_ok [of n' "tl xs" fd] by auto
qed

definition no_netfds :: netfds where
  "no_netfds = \<lparr>fds = (\<lambda>_. zero_netfd), freelist = 0, fd_log = [], closed = [], last_error = 0, nf_errno = 0\<rparr>"

text \<open>Descriptor 40 on socket 5.\<close>

definition one_netfd :: netfds where
  "one_netfd = upd_fd 40 (\<lambda>_. zero_netfd\<lparr>nf_osfd := 5, nf_inuse := 1\<rparr>) no_netfds"

theorem netfd_freelist_witness:
  "freelist_ok (st_netfd_free 40 one_netfd) [40]"
proof -
  have new: "st_netfd_new 5 (Some 40) no_netfds = Some (40, one_netfd)"
    by (simp add: st_netfd_new_def no_netfds_def one_netfd_def upd_fd_def zero_netfd_def)
  have "freelist_ok no_netfds []" by (simp add: freelist_ok_def no_netfds_def)
  from netfd_freelist [OF this _ _ new] show ?thesis by (simp add: no_netfds_def zero_netfd_def)
qed

text \<open>A descriptor taken from the free list keeps the socket of its last use.  After a descriptor
  on one socket is closed, the next \<open>st_netfd_open_socket\<close> for another socket returns the same
  object, still on the closed socket, which every later call on it then uses.\<close>

theorem netfd_stale_socket:
  assumes "nf_inuse (fds n fd) \<noteq> 0" and "fd \<noteq> 0" and "st_netfd_close fd err n = (rc, n1)"
    and "st_netfd_open_socket osfd mem n1 = Some (newfd, n2)"
  shows "newfd = fd \<and> st_netfd_fileno newfd n2 = st_netfd_fileno fd n \<and>
    st_netfd_fileno newfd n2 \<in> set (closed n2)"
proof -
  note f = netfd_free_fields [OF assms(1)]
  have n1: "freelist n1 = fd" "fds n1 = fds (st_netfd_free fd n)"
    "closed n1 = closed n @ [nf_osfd (fds n fd)]"
    using assms(3) f by (auto simp: st_netfd_close_def Let_def)
  then have "newfd = fd" "fds n2 fd = (fds n1 fd)\<lparr>nf_inuse := 1, nf_next := 0\<rparr>" "closed n2 = closed n1"
    using assms(2,4) by (auto simp: st_netfd_open_socket_def st_netfd_new_def Let_def upd_fd_def)
  then show ?thesis using n1 f(4) by (simp add: st_netfd_fileno_def)
qed

theorem netfd_stale_socket_witness:
  "\<exists>n1 n2 rc. st_netfd_close 40 0 one_netfd = (rc, n1) \<and>
     st_netfd_open_socket 6 None n1 = Some (40, n2) \<and> st_netfd_fileno 40 n2 = 5"
proof -
  obtain rc n1 where c: "st_netfd_close 40 0 one_netfd = (rc, n1)" by force
  then have "freelist n1 = 40"
    by (auto simp: st_netfd_close_def st_netfd_free_def Let_def upd_fd_def one_netfd_def zero_netfd_def
        no_netfds_def)
  then obtain fd n2 where o: "st_netfd_open_socket 6 None n1 = Some (fd, n2)"
    by (simp add: st_netfd_open_socket_def st_netfd_new_def Let_def)
  have "nf_inuse (fds one_netfd 40) \<noteq> 0" "st_netfd_fileno 40 one_netfd = 5"
    by (simp_all add: one_netfd_def upd_fd_def st_netfd_fileno_def)
  then show ?thesis using netfd_stale_socket [OF _ _ c o] c o by auto
qed

section \<open>Error translation\<close>

text \<open>The Winsock codes \<^verbatim>\<open>_st_GetError\<close> has a case for, other than \<^verbatim>\<open>WSAEINTR\<close>.\<close>

definition translated_codes :: "int list" where
  "translated_codes = [WSAEBADF, WSAEACCES, WSAEFAULT, WSAEINVAL, WSAEMFILE, WSAEWOULDBLOCK,
     WSAEINPROGRESS, WSAEALREADY, WSAENOTSOCK, WSAEDESTADDRREQ, WSAEMSGSIZE, WSAEPROTOTYPE,
     WSAENOPROTOOPT, WSAEOPNOTSUPP, WSAEADDRINUSE, WSAEADDRNOTAVAIL, WSAECONNABORTED, WSAECONNRESET,
     WSAEISCONN, WSAENOTCONN, WSAETIMEDOUT, WSAECONNREFUSED, WSAEHOSTUNREACH]"

text \<open>Error translation.  An error below \<open>WSABASEERR\<close> is passed on as it is, every Winsock error
  the code translates becomes a Unix error number, and \<open>WSAEINTR\<close> alone of the listed codes is not
  translated: an interrupted Winsock call is not reported as \<open>EINTR\<close>.\<close>

theorem error_translation:
  "(e < WSABASEERR \<longrightarrow> st_GetError 0 e j = e) \<and>
   (\<forall>c \<in> set translated_codes. 0 < st_GetError 0 c j \<and> st_GetError 0 c j < 256) \<and>
   st_GetError 0 WSAEINTR j = WSAEINTR \<and> WSAEINTR \<noteq> EINTR \<and>
   (st_GetError 0 e j = EINTR \<longleftrightarrow> e = EINTR \<or> e = WSAEINPROGRESS \<or> e = WSAEALREADY)"
  by (auto simp: st_GetError_def xlate_error_def translated_codes_def wsa_defs errno_defs)

theorem error_translation_witness:
  "st_GetError 0 5 0 = 5 \<and> 0 < st_GetError 0 WSAECONNRESET 0 \<and> st_GetError 0 WSAECONNRESET 0 < 256"
proof -
  have "WSAECONNRESET \<in> set translated_codes" "(5::int) < WSABASEERR"
    by (simp_all add: translated_codes_def wsa_defs)
  then show ?thesis using error_translation [of 5 0] by blast
qed

section \<open>Reading a whole buffer\<close>

text \<open>A read never gives more than it was asked for.\<close>

fun reads_fit :: "nat \<Rightarrow> read_result list \<Rightarrow> bool" where
  "reads_fit nleft [] = True"
| "reads_fit nleft (Failed e # rs) = reads_fit nleft rs"
| "reads_fit nleft (Bytes xs # rs) = (length xs \<le> nleft \<and> reads_fit (nleft - length xs) rs)"

fun bytes_of :: "read_result list \<Rightarrow> nat list" where
  "bytes_of [] = []"
| "bytes_of (Failed e # rs) = bytes_of rs"
| "bytes_of (Bytes xs # rs) = xs @ bytes_of rs"

definition interrupted :: "read_result \<Rightarrow> bool" where
  "interrupted r = (\<exists>e. r = Failed e \<and> st_GetError 0 e 0 = EINTR)"

definition read_outcome :: "nat \<Rightarrow> nat list \<Rightarrow> read_result list \<Rightarrow> int \<Rightarrow> nat list \<Rightarrow> bool" where
  "read_outcome nbyte buf rs k buf' =
     (\<exists>used rest. rs = used @ rest \<and> buf' = buf @ bytes_of used \<and>
       (k = int (length buf') \<and> (length buf' = nbyte \<or> used \<noteq> [] \<and> last used = Bytes []) \<or>
        k = -1 \<and> used \<noteq> [] \<and> (\<exists>e. last used = Failed e \<and> st_GetError 0 e 0 \<noteq> EINTR)))"

lemma read_outcome_step:
  assumes "read_outcome nbyte (buf @ bytes_of [r]) rs k buf'"
  shows "read_outcome nbyte buf (r # rs) k buf'"
proof -
  from assms obtain used rest where u: "rs = used @ rest" "buf' = (buf @ bytes_of [r]) @ bytes_of used"
    "k = int (length buf') \<and> (length buf' = nbyte \<or> used \<noteq> [] \<and> last used = Bytes []) \<or>
      k = -1 \<and> used \<noteq> [] \<and> (\<exists>e. last used = Failed e \<and> st_GetError 0 e 0 \<noteq> EINTR)"
    unfolding read_outcome_def by blast
  show ?thesis
    unfolding read_outcome_def
  proof (rule exI [of _ "r # used"], rule exI [of _ rest], intro conjI)
    show "r # rs = (r # used) @ rest" using u(1) by simp
    show "buf' = buf @ bytes_of (r # used)" using u(2) by (cases r) auto
    show "k = int (length buf') \<and> (length buf' = nbyte \<or> r # used \<noteq> [] \<and> last (r # used) = Bytes []) \<or>
        k = - 1 \<and> r # used \<noteq> [] \<and> (\<exists>e. last (r # used) = Failed e \<and> st_GetError 0 e 0 \<noteq> EINTR)"
      using u(3) by auto
  qed
qed

lemma read_loop_outcome:
  "read_loop nbyte nleft buf e rs = Some (k, e', buf') \<Longrightarrow> nleft + length buf = nbyte \<Longrightarrow>
   reads_fit nleft rs \<Longrightarrow> read_outcome nbyte buf rs k buf'"
proof (induction nbyte nleft buf e rs rule: read_loop.induct)
  case (1 nbyte nleft buf e rs)
  note IH = "1.IH" and prems = "1.prems"
  show ?case
  proof (cases "nleft = 0")
    case True
    then have "k = int nbyte" "buf' = buf" using prems(1) by (auto simp: read_loop.simps [of nbyte 0])
    then show ?thesis using True prems(2) unfolding read_outcome_def
      by (intro exI [of _ "[]"] exI [of _ rs]) auto
  next
    case False
    note unf = read_loop.simps [of nbyte nleft]
    show ?thesis
    proof (cases rs)
      case Nil
      then show ?thesis using prems(1) False by (simp add: unf)
    next
      case (Cons r rs')
      show ?thesis
      proof (cases r)
        case (Failed err)
        show ?thesis
        proof (cases "st_GetError 0 err 0 = EINTR")
          case True
          then have "read_outcome nbyte buf rs' k buf'"
            using IH(2) [OF False Cons Failed refl True] prems Cons Failed False
            by (simp add: unf Let_def)
          then show ?thesis unfolding Cons Failed by (intro read_outcome_step) simp
        next
          case F: False
          then have "k = -1" "buf' = buf" using prems(1) Cons Failed False by (auto simp: unf Let_def)
          then show ?thesis
            using F unfolding Cons Failed read_outcome_def
            by (intro exI [of _ "[Failed err]"] exI [of _ rs']) auto
        qed
      next
        case (Bytes xs)
        have fit: "length xs \<le> nleft" "reads_fit (nleft - length xs) rs'"
          using prems(3) by (auto simp: Cons Bytes)
        show ?thesis
        proof (cases "nleft - length xs = 0 \<or> xs = []")
          case True
          then have "k = int nbyte - int (nleft - length xs)" "buf' = buf @ xs"
            using prems(1) Cons Bytes False by (auto simp: unf Let_def)
          then show ?thesis
            using True fit(1) prems(2) unfolding Cons Bytes read_outcome_def
            by (intro exI [of _ "[Bytes xs]"] exI [of _ rs']) auto
        next
          case F: False
          have "read_outcome nbyte (buf @ xs) rs' k buf'"
            by (rule IH(1) [OF False Cons Bytes refl refl F])
              (use prems Cons Bytes False F fit in \<open>simp_all add: unf Let_def\<close>)
          then show ?thesis unfolding Cons Bytes by (intro read_outcome_step) simp
        qed
      qed
    qed
  qed
qed

lemma read_loop_returns:
  "nleft \<le> length (bytes_of rs) \<Longrightarrow> read_loop nbyte nleft buf e rs \<noteq> None"
proof (induction nbyte nleft buf e rs rule: read_loop.induct)
  case (1 nbyte nleft buf e rs)
  show ?case
  proof (cases rs)
    case Nil
    then show ?thesis using 1 by (simp add: read_loop.simps [of nbyte 0])
  next
    case (Cons r rs')
    show ?thesis
    proof (cases r)
      case (Failed err)
      then show ?thesis
        using "1.IH"(2) [OF _ Cons Failed refl] "1.prems" Cons
        by (auto simp: read_loop.simps [of nbyte nleft] Let_def)
    next
      case (Bytes xs)
      then show ?thesis
        using "1.IH"(1) [OF _ Cons Bytes refl refl] "1.prems" Cons
        by (auto simp: read_loop.simps [of nbyte nleft] Let_def)
    qed
  qed
qed

text \<open>\<open>st_read_fully\<close> stores the bytes of the reads one after another, without a gap.  It returns
  the number of bytes stored, and this is the number asked for unless the peer closed the connection;
  or it returns -1 for an error that is not \<open>EINTR\<close>, which it retries.  It returns as soon as enough
  bytes were read.\<close>

theorem read_fully_result:
  assumes "reads_fit nbyte rs"
  shows "(nbyte \<le> length (bytes_of rs) \<longrightarrow> st_read_fully nbyte rs \<noteq> None) \<and>
    (\<forall>k e buf. st_read_fully nbyte rs = Some (k, e, buf) \<longrightarrow>
      (\<exists>used rest. rs = used @ rest \<and> buf = bytes_of used \<and>
        (k = int (length buf) \<and> (length buf = nbyte \<or> used \<noteq> [] \<and> last used = Bytes []) \<or>
         k = -1 \<and> used \<noteq> [] \<and> (\<exists>e. last used = Failed e \<and> st_GetError 0 e 0 \<noteq> EINTR))))"
  using read_loop_outcome [of nbyte nbyte "[]" None rs] assms read_loop_returns [of nbyte rs nbyte "[]" None]
  unfolding st_read_fully_def read_outcome_def by auto

theorem read_fully_result_witness:
  "st_read_fully 4 [Bytes [1, 2], Failed WSAEINPROGRESS, Bytes [3, 4]] \<noteq> None"
proof -
  have "reads_fit 4 [Bytes [1, 2], Failed WSAEINPROGRESS, Bytes [3, 4]]" by simp
  from read_fully_result [OF this] show ?thesis by simp
qed

section \<open>What the blocking calls return\<close>

text \<open>After the completion of its operation, \<open>st_read\<close> returns the number of bytes the operating
  system transferred, but \<open>st_write\<close> returns the number it was asked to send, whatever the completion
  says: a failed or partial send is reported as complete.\<close>

theorem completion_results:
  assumes "this_thread v' = t"
  shows "(\<exists>w. st_read_resume (fst (iocp_turn ok bytes h err t s v)) v' = Return bytes w) \<and>
    (\<exists>w. st_write_resume n (fst (iocp_turn ok bytes h err t s v)) v' = Return n w)"
  using assms
  by (simp add: st_read_resume_def st_write_resume_def io_resume_def st_wait_resume_def Let_def
      iocp_turn_def upd_ctx_def)

definition io0 :: io_state where
  "io0 = \<lparr>nfd = no_netfds, ctx = (\<lambda>_. \<lparr>operator_type = RECV_OPER, valid_len = 8, cs_osfd = 0,
     cs_buf = 0, cs_len = 0\<rparr>), per_handle = (\<lambda>_. 0), port_assoc = []\<rparr>"

text \<open>Thread 1 alone, with an interrupt pending.\<close>

definition io_vp :: st_vp where
  "io_vp = \<lparr>thr = (\<lambda>_. zero_thread\<lparr>t_flags := flag_mask FL_INTERRUPT\<rparr>), idle_thread = 0, last_clock = 0,
     run_q = [], io_q = [], sleep_q = [], zombie_q = [], sleep_max = 0, this_thread = 1,
     active_count = 1, curr_time = 0, last_tset = 0, conds = Map.empty, mutexes = Map.empty,
     compl = [], notify_event = False, errno = 0, exited = False,
     stacks = \<lparr>free_stacks = [], num_free_stacks = 0\<rparr>, key_max = 0,
     destructors = replicate 16 0, dtor_log = []\<rparr>"

theorem completion_results_witness:
  "\<exists>w. st_write_resume 100 (fst (iocp_turn False 0 0 0 1 io0 io_vp)) io_vp = Return 100 w"
  using completion_results [of io_vp 1] by (simp add: io_vp_def)

text \<open>A read by a thread with a pending interrupt is not reported as interrupted: the receive
  operation is started, the call does not wait for it, and it returns the length left by the thread's
  previous operation.\<close>

theorem read_interrupted_stale:
  assumes "has_flag (flags_of v (this_thread v)) FL_INTERRUPT"
  shows "fst (st_read buf n timeout 0 err s v) =
    Return (valid_len (ctx s (this_thread v))) (take_interrupt (this_thread v) v)"
  using assms
  by (simp add: st_read_def Let_def io_wait_def st_wait_def upd_ctx_def read_context_def)

theorem read_interrupted_stale_witness:
  "fst (st_read 0 100 0 0 0 io0 io_vp) = Return 8 (take_interrupt 1 io_vp)"
proof -
  have "has_flag (flags_of io_vp (this_thread io_vp)) FL_INTERRUPT" "this_thread io_vp = 1"
    "valid_len (ctx io0 1) = 8"
    by (simp_all add: io_vp_def io0_def del: flag_mask.simps)
  then show ?thesis using read_interrupted_stale [of io_vp 0 100 0 0 io0] by simp
qed

end
