(* ===== verification/MsgQueue.thy ===== *)
theory MsgQueue
  imports Prelude
begin

text \<open>
  The queues other operating system threads share with the run-time: the linked queue of
  \<^verbatim>\<open>lock_free_queue.cpp\<close> and its template twin \<^verbatim>\<open>st_msg_queue_t\<close> (\<^verbatim>\<open>lock_queue.h\<close>), the array queue
  \<^verbatim>\<open>ArrayQ\<close> and the stack \<^verbatim>\<open>st_fifo_t\<close>.  The operations are modelled statement by statement for a
  thread that runs without interference.
\<close>

section \<open>The linked queue\<close>

text \<open>\<^verbatim>\<open>st_pointer_t\<close> and \<^verbatim>\<open>st_node_t\<close>; a \<^verbatim>\<open>LONG\<close> counter wraps at 32 bits.\<close>

record st_pointer =
  p_ptr :: ptr
  p_count :: "32 word"

record 'a st_node =
  node_value :: 'a
  node_next :: st_pointer

text \<open>\<^verbatim>\<open>st_queue_t\<close> with the nodes of the heap; \<open>q_freed\<close> holds the addresses given to \<^verbatim>\<open>free\<close>.\<close>

record 'a st_queue =
  q_head :: st_pointer
  q_tail :: st_pointer
  q_nodes :: "ptr \<Rightarrow> 'a st_node"
  q_freed :: "ptr set"

text \<open>\<^verbatim>\<open>cas\<close>: compares the pointer only; the count is stored by a second operation.\<close>

definition cas :: "st_pointer \<Rightarrow> st_pointer \<Rightarrow> st_pointer \<Rightarrow> bool \<times> st_pointer" where
  "cas dest compare val =
     (if p_ptr compare = p_ptr dest then (True, \<lparr>p_ptr = p_ptr val, p_count = p_count val\<rparr>)
      else (False, dest))"

definition set_next :: "ptr \<Rightarrow> st_pointer \<Rightarrow> 'a st_queue \<Rightarrow> 'a st_queue" where
  "set_next n p q = q\<lparr>q_nodes := (q_nodes q)(n := (q_nodes q n)\<lparr>node_next := p\<rparr>)\<rparr>"

definition null_pointer :: st_pointer where
  "null_pointer = \<lparr>p_ptr = 0, p_count = 0\<rparr>"

definition lock_free_queue_open :: "ptr \<Rightarrow> 'a \<Rightarrow> 'a st_queue" where
  "lock_free_queue_open node zero =
     \<lparr>q_head = \<lparr>p_ptr = node, p_count = 0\<rparr>, q_tail = \<lparr>p_ptr = node, p_count = 0\<rparr>,
      q_nodes = (\<lambda>_. \<lparr>node_value = zero, node_next = null_pointer\<rparr>), q_freed = {}\<rparr>"

text \<open>The body of the loop of \<^verbatim>\<open>_st_lock_free_enqueue\<close>.  \<open>bump\<close> is what the count of the tail grows by
  when the tail is swung; the result is whether the loop is done, \<open>None\<close> the access through a null
  tail.\<close>

definition enqueue_body :: "32 word \<Rightarrow> ptr \<Rightarrow> 'a st_queue \<Rightarrow> (bool \<times> 'a st_queue) option" where
  "enqueue_body bump pnode q =
     (let tail = q_tail q;
          nulltail = (p_ptr tail = 0);
          nxt = (if nulltail then null_pointer else node_next (q_nodes q (p_ptr tail)))
      in if p_count tail = p_count (q_tail q) \<and> p_ptr tail = p_ptr (q_tail q)
         then if p_ptr nxt = 0
              then if nulltail then None
                   else case cas (node_next (q_nodes q (p_ptr tail))) nxt
                               \<lparr>p_ptr = pnode, p_count = p_count nxt + 1\<rparr> of
                          (ok, p) \<Rightarrow> Some (ok, set_next (p_ptr tail) p q)
              else case cas (q_tail q) tail \<lparr>p_ptr = p_ptr nxt, p_count = p_count tail + bump\<rparr> of
                     (ok, p) \<Rightarrow> Some (False, q\<lparr>q_tail := p\<rparr>)
         else Some (False, q))"

partial_function (option) enqueue_loop ::
  "32 word \<Rightarrow> ptr \<Rightarrow> 'a st_queue \<Rightarrow> 'a st_queue option" where
  "enqueue_loop bump pnode q =
     (case enqueue_body bump pnode q of
        None \<Rightarrow> None
      | Some r \<Rightarrow> if fst r then Some (snd r) else enqueue_loop bump pnode (snd r))"

definition new_node :: "ptr \<Rightarrow> 'a \<Rightarrow> 'a st_queue \<Rightarrow> 'a st_queue" where
  "new_node p x q =
     q\<lparr>q_nodes := (q_nodes q)(p := \<lparr>node_value = x, node_next = null_pointer\<rparr>),
       q_freed := q_freed q - {p}\<rparr>"

definition lock_free_enqueue :: "ptr \<Rightarrow> 'a \<Rightarrow> 'a st_queue \<Rightarrow> 'a st_queue option" where
  "lock_free_enqueue pnode x q = enqueue_loop 2 pnode (new_node pnode x q)"

text \<open>The body of the loop of \<^verbatim>\<open>_st_lock_free_dequeue\<close>.\<close>

datatype 'a deq_result = Empty | Again | Taken 'a ptr

definition dequeue_body :: "'a st_queue \<Rightarrow> 'a deq_result \<times> 'a st_queue" where
  "dequeue_body q =
     (let head = q_head q; tail = q_tail q
      in if p_ptr head = 0 then (Empty, q)
         else let nxt = node_next (q_nodes q (p_ptr head))
              in if p_count head = p_count (q_head q) \<and> p_ptr head = p_ptr (q_head q)
                 then if p_ptr head = p_ptr tail
                      then if p_ptr nxt = 0 then (Empty, q)
                           else case cas (q_tail q) tail \<lparr>p_ptr = p_ptr nxt, p_count = p_count tail + 1\<rparr> of
                                  (ok, p) \<Rightarrow> (Again, q\<lparr>q_tail := p\<rparr>)
                      else let x = node_value (q_nodes q (p_ptr nxt))
                           in case cas (q_head q) head \<lparr>p_ptr = p_ptr nxt, p_count = p_count head + 1\<rparr> of
                                (ok, p) \<Rightarrow>
                                  if ok then (Taken x (p_ptr head), q\<lparr>q_head := p\<rparr>)
                                  else (Again, q\<lparr>q_head := p\<rparr>)
                 else (Again, q))"

definition free_node :: "ptr \<Rightarrow> 'a st_queue \<Rightarrow> 'a st_queue" where
  "free_node p q = q\<lparr>q_freed := insert p (q_freed q)\<rparr>"

partial_function (option) lock_free_dequeue :: "'a st_queue \<Rightarrow> ('a option \<times> 'a st_queue) option" where
  "lock_free_dequeue q =
     (case dequeue_body q of
        (Empty, q') \<Rightarrow> Some (None, q')
      | (Again, q') \<Rightarrow> lock_free_dequeue q'
      | (Taken x old, q') \<Rightarrow> Some (Some x, free_node old q'))"

text \<open>The template \<^verbatim>\<open>st_msg_queue_t\<close> differs in the count of a swung tail only; it also has an event.\<close>

definition msg_enqueue :: "ptr \<Rightarrow> 'a \<Rightarrow> 'a st_queue \<Rightarrow> 'a st_queue option" where
  "msg_enqueue pnode x q = enqueue_loop 1 pnode (new_node pnode x q)"

definition msg_dequeue :: "'a st_queue \<Rightarrow> ('a option \<times> 'a st_queue) option" where
  "msg_dequeue q = lock_free_dequeue q"

record 'a msg_queue =
  mq_queue :: "'a st_queue"
  mq_event :: bool

definition msg_queue_new :: "ptr \<Rightarrow> 'a \<Rightarrow> 'a msg_queue" where
  "msg_queue_new node zero = \<lparr>mq_queue = lock_free_queue_open node zero, mq_event = False\<rparr>"

definition msg_notify :: "'a msg_queue \<Rightarrow> 'a msg_queue" where
  "msg_notify m = m\<lparr>mq_event := True\<rparr>"

definition WAIT_OBJECT_0 :: int where "WAIT_OBJECT_0 = 0"
definition WAIT_TIMEOUT :: int where "WAIT_TIMEOUT = 258"

text \<open>\<^verbatim>\<open>wait\<close> for a thread whose time limit passes unless the event is set.\<close>

definition msg_wait :: "'a msg_queue \<Rightarrow> int \<times> 'a msg_queue" where
  "msg_wait m = (if mq_event m then WAIT_OBJECT_0 else WAIT_TIMEOUT, m\<lparr>mq_event := False\<rparr>)"

section \<open>The array queue\<close>

text \<open>\<^verbatim>\<open>ArrayQ\<close>: \<open>a_data\<close> is the array, of \<open>a_size\<close> elements.\<close>

record 'a arrayq =
  a_data :: "'a list"
  a_write :: nat
  a_read :: nat
  a_size :: nat

definition ArrayQ_InitialSize :: nat where "ArrayQ_InitialSize = 240"

definition arrayq_new :: "'a \<Rightarrow> 'a arrayq" where
  "arrayq_new dflt =
     \<lparr>a_data = replicate ArrayQ_InitialSize dflt, a_write = 0, a_read = 0, a_size = ArrayQ_InitialSize\<rparr>"

definition arrayq_resize :: "'a \<Rightarrow> 'a arrayq \<Rightarrow> 'a arrayq" where
  "arrayq_resize dflt q =
     (let newsize = 2 * a_size q;
          newdata = replicate newsize dflt
      in q\<lparr>a_data := take (a_size q) (a_data q) @ drop (a_size q) newdata, a_size := newsize\<rparr>)"

definition arrayq_enqueue :: "'a \<Rightarrow> 'a \<Rightarrow> 'a arrayq \<Rightarrow> 'a arrayq" where
  "arrayq_enqueue dflt x q =
     (let w = a_write q; sz = a_size q;
          q1 = q\<lparr>a_write := a_write q + 1\<rparr>;
          q2 = (if w = sz then arrayq_resize dflt q1 else q1)
      in q2\<lparr>a_data := (a_data q2)[w := x]\<rparr>)"

definition arrayq_dequeue :: "'a arrayq \<Rightarrow> 'a option \<times> 'a arrayq" where
  "arrayq_dequeue q =
     (let w = a_write q; r = a_read q;
          q1 = q\<lparr>a_read := a_read q + 1\<rparr>
      in if r = w
         then (None, q1\<lparr>a_read := (if a_read q1 = r + 1 then 0 else a_read q1),
                        a_write := (if a_write q1 = w then 0 else a_write q1)\<rparr>)
         else (Some (a_data q1 ! r), q1))"

section \<open>The stack\<close>

text \<open>\<^verbatim>\<open>st_fifo_t\<close>: a sequence number and the address of the top cell; cells hold a thread and the next
  cell.\<close>

record st_fifo =
  f_seq :: "32 word"
  f_top :: ptr
  f_next :: "ptr \<Rightarrow> ptr"

definition st_stack_alloc :: "32 word \<Rightarrow> (ptr \<Rightarrow> ptr) \<Rightarrow> st_fifo" where
  "st_stack_alloc junk cells = \<lparr>f_seq = junk, f_top = 0, f_next = cells\<rparr>"

text \<open>A turn of the loop of \<^verbatim>\<open>st_stack_push\<close>: read the sequence number and link the cell, exchange the
  sequence number, exchange the top.  The result of the second exchange is not looked at.\<close>

definition push_read :: "ptr \<Rightarrow> st_fifo \<Rightarrow> 32 word \<times> st_fifo" where
  "push_read cl f = (f_seq f, f\<lparr>f_next := (f_next f)(cl := f_top f)\<rparr>)"

definition push_seq :: "32 word \<Rightarrow> st_fifo \<Rightarrow> bool \<times> st_fifo" where
  "push_seq oldseq f =
     (if f_seq f = oldseq then (True, f\<lparr>f_seq := oldseq + 1\<rparr>) else (False, f))"

definition push_top :: "ptr \<Rightarrow> st_fifo \<Rightarrow> st_fifo" where
  "push_top cl f = f\<lparr>f_top := (if f_top f = f_next f cl then cl else f_top f)\<rparr>"

partial_function (option) st_stack_push :: "ptr \<Rightarrow> st_fifo \<Rightarrow> st_fifo option" where
  "st_stack_push cl f =
     (case push_read cl f of
        (oldseq, f1) \<Rightarrow>
          (case push_seq oldseq f1 of
             (ok, f2) \<Rightarrow> if ok then Some (push_top cl f2) else st_stack_push cl f2))"

text \<open>A turn of the loop of \<^verbatim>\<open>st_stack_pop\<close>: read the top, the sequence number and the next cell, then
  exchange.  The code tests that the sequence number before the exchange is not 0, not that the
  exchange was made.\<close>

definition pop_read :: "st_fifo \<Rightarrow> ptr \<times> 32 word \<times> ptr" where
  "pop_read f = (f_top f, f_seq f, if f_top f = 0 then 0 else f_next f (f_top f))"

definition pop_commit :: "ptr \<times> 32 word \<times> ptr \<Rightarrow> st_fifo \<Rightarrow> bool \<times> st_fifo" where
  "pop_commit r f =
     (case r of
        (head, oldseq, nxt) \<Rightarrow>
          let flag = f_seq f;
              f1 = (if flag = oldseq then f\<lparr>f_seq := oldseq + 1\<rparr> else f)
          in if flag \<noteq> 0 then (True, f1\<lparr>f_top := (if f_top f1 = head then nxt else f_top f1)\<rparr>)
             else (False, f1))"

partial_function (option) st_stack_pop :: "st_fifo \<Rightarrow> (ptr \<times> st_fifo) option" where
  "st_stack_pop f =
     (case pop_read f of
        (head, oldseq, nxt) \<Rightarrow>
          if head = 0 then Some (head, f)
          else case pop_commit (head, oldseq, nxt) f of
                 (ok, f') \<Rightarrow> if ok then Some (head, f') else st_stack_pop f')"

section \<open>Representation\<close>

text \<open>The nodes from the dummy node \<open>d\<close> on: \<open>ns\<close> behind it, each linked from the one before.\<close>

fun chain :: "(ptr \<Rightarrow> 'a st_node) \<Rightarrow> ptr \<Rightarrow> ptr list \<Rightarrow> bool" where
  "chain h d [] = (p_ptr (node_next (h d)) = 0)"
| "chain h d (n # ns) = (p_ptr (node_next (h d)) = n \<and> n \<noteq> 0 \<and> chain h n ns)"

definition queue_rep :: "'a st_queue \<Rightarrow> ptr list \<Rightarrow> bool" where
  "queue_rep q ns =
     (p_ptr (q_head q) \<noteq> 0 \<and> distinct (p_ptr (q_head q) # ns) \<and>
      chain (q_nodes q) (p_ptr (q_head q)) ns \<and>
      p_ptr (q_tail q) \<in> set (p_ptr (q_head q) # ns) \<and>
      q_freed q \<inter> set (p_ptr (q_head q) # ns) = {})"

definition queue_contents :: "'a st_queue \<Rightarrow> 'a list \<Rightarrow> bool" where
  "queue_contents q xs = (\<exists>ns. queue_rep q ns \<and> xs = map (\<lambda>n. node_value (q_nodes q n)) ns)"

lemma chain_cong:
  "(\<And>n. n \<in> set (d # ns) \<Longrightarrow> node_next (g n) = node_next (h n)) \<Longrightarrow> chain g d ns = chain h d ns"
  by (induction ns arbitrary: d) auto

lemma chain_nonzero: "chain h d ns \<Longrightarrow> n \<in> set ns \<Longrightarrow> n \<noteq> 0"
  by (induction ns arbitrary: d) auto

text \<open>The successor of a node of the chain.\<close>

lemma chain_next:
  "chain h d ns \<Longrightarrow> d # ns = ms @ m # rest \<Longrightarrow>
   p_ptr (node_next (h m)) = (case rest of [] \<Rightarrow> 0 | r # _ \<Rightarrow> r)"
proof (induction ns arbitrary: d ms)
  case Nil
  then show ?case by (cases ms) auto
next
  case (Cons n ns)
  show ?case
  proof (cases ms)
    case Nil
    then show ?thesis using Cons.prems by auto
  next
    case (Cons x ms')
    then show ?thesis using Cons.IH [of n ms'] Cons.prems by auto
  qed
qed

lemma chain_link:
  assumes "chain h d ns" and "distinct (d # ns)" and "p \<notin> set (d # ns)" and "p \<noteq> 0"
    and "p_ptr (node_next (h p)) = 0" and "p_ptr l = p"
  shows "chain (h(last (d # ns) := (h (last (d # ns)))\<lparr>node_next := l\<rparr>)) d (ns @ [p])"
  using assms
proof (induction ns arbitrary: d)
  case Nil
  then show ?case by auto
next
  case (Cons n ns)
  define g where "g = h(last (n # ns) := (h (last (n # ns)))\<lparr>node_next := l\<rparr>)"
  have "chain g n (ns @ [p])"
    unfolding g_def by (rule Cons.IH) (use Cons.prems in auto)
  moreover have "last (n # ns) \<noteq> d" using Cons.prems(2) by (metis distinct.simps(2) last_in_set list.discI)
  then have "g d = h d" by (simp add: g_def)
  ultimately have "chain g d ((n # ns) @ [p])" using Cons.prems(1) by simp
  moreover have "last (d # n # ns) = last (n # ns)" by simp
  ultimately show ?case by (simp only: g_def)
qed

text \<open>Enqueueing: the tail is swung to the end of the chain, then the node is linked.\<close>

lemma enqueue_loop_rep:
  assumes "queue_rep q ns" and "p_ptr (q_head q) # ns = ms @ m # rest" and "p_ptr (q_tail q) = m"
    and new: "pnode \<notin> set (p_ptr (q_head q) # ns)" "pnode \<noteq> 0" "pnode \<notin> q_freed q"
      "p_ptr (node_next (q_nodes q pnode)) = 0"
  shows "\<exists>q'. enqueue_loop bump pnode q = Some q' \<and> queue_rep q' (ns @ [pnode]) \<and>
    (\<forall>n. node_value (q_nodes q' n) = node_value (q_nodes q n)) \<and> q_head q' = q_head q \<and> q_freed q' = q_freed q"
  using assms
proof (induction rest arbitrary: q ms m)
  case Nil
  let ?h = "p_ptr (q_head q)"
  have rep: "?h \<noteq> 0" "distinct (?h # ns)" "chain (q_nodes q) ?h ns"
    "q_freed q \<inter> set (?h # ns) = {}" using Nil.prems(1) by (auto simp: queue_rep_def)
  have m: "m = last (?h # ns)" using Nil.prems(2) by simp
  have mt: "p_ptr (q_tail q) = m" by (rule Nil.prems(3))
  have "m \<in> set (?h # ns)" unfolding m by (rule last_in_set) simp
  then have m0: "m \<noteq> 0" using rep(1) chain_nonzero [OF rep(3)] by auto
  have nx: "p_ptr (node_next (q_nodes q m)) = 0" using chain_next [OF rep(3) Nil.prems(2)] by simp
  let ?l = "\<lparr>p_ptr = pnode, p_count = p_count (node_next (q_nodes q m)) + 1\<rparr>"
  have "enqueue_body bump pnode q = Some (True, set_next m ?l q)"
    using nx m0 mt by (simp add: enqueue_body_def Let_def cas_def)
  then have e: "enqueue_loop bump pnode q = Some (set_next m ?l q)"
    by (subst enqueue_loop.simps) simp
  have "chain (q_nodes (set_next m ?l q)) ?h (ns @ [pnode])"
    using chain_link [OF rep(3,2) Nil.prems(4,5,7), of ?l] by (simp add: set_next_def m)
  then have "queue_rep (set_next m ?l q) (ns @ [pnode])"
    using rep(1,2,4) Nil.prems(1,4,6) by (auto simp: queue_rep_def set_next_def)
  moreover have "\<forall>n. node_value (q_nodes (set_next m ?l q) n) = node_value (q_nodes q n)"
    "q_head (set_next m ?l q) = q_head q" "q_freed (set_next m ?l q) = q_freed q"
    by (simp_all add: set_next_def)
  ultimately show ?case using e by blast
next
  case (Cons r rest)
  let ?h = "p_ptr (q_head q)"
  have rep: "?h \<noteq> 0" "chain (q_nodes q) ?h ns" using Cons.prems(1) by (auto simp: queue_rep_def)
  have "m \<in> set (?h # ns)" "r \<in> set (?h # ns)" using Cons.prems(2) by (metis in_set_conv_decomp, auto)
  then have m0: "m \<noteq> 0" and rin: "r \<in> set (?h # ns)" using rep(1) chain_nonzero [OF rep(2)] by auto
  have "ms @ m # r # rest = (ms @ [m]) @ r # rest" by simp
  then have r0: "r \<noteq> 0" using rin rep(1) chain_nonzero [OF rep(2)] by auto
  have nx: "p_ptr (node_next (q_nodes q m)) = r" using chain_next [OF rep(2) Cons.prems(2)] by simp
  define w where "w = q\<lparr>q_tail := \<lparr>p_ptr = r, p_count = p_count (q_tail q) + bump\<rparr>\<rparr>"
  have "enqueue_body bump pnode q = Some (False, w)"
    using nx r0 m0 Cons.prems(3) by (simp add: enqueue_body_def Let_def cas_def w_def)
  then have e: "enqueue_loop bump pnode q = enqueue_loop bump pnode w"
    by (subst enqueue_loop.simps) simp
  have "\<exists>q'. enqueue_loop bump pnode w = Some q' \<and> queue_rep q' (ns @ [pnode]) \<and>
      (\<forall>n. node_value (q_nodes q' n) = node_value (q_nodes w n)) \<and> q_head q' = q_head w \<and> q_freed q' = q_freed w"
    by (rule Cons.IH [where ms = "ms @ [m]" and m = r])
      (use Cons.prems rin in \<open>auto simp: w_def queue_rep_def\<close>)
  then show ?case using e by (simp add: w_def)
qed

lemma enqueue_step:
  assumes rep: "queue_rep q ns" and new: "pnode \<noteq> 0" and fresh: "pnode \<notin> set (p_ptr (q_head q) # ns)"
  shows "\<exists>q'. enqueue_loop bump pnode (new_node pnode x q) = Some q' \<and> queue_rep q' (ns @ [pnode]) \<and>
    map (\<lambda>n. node_value (q_nodes q' n)) (ns @ [pnode]) = map (\<lambda>n. node_value (q_nodes q n)) ns @ [x] \<and>
    q_head q' = q_head q"
proof -
  define w where "w = new_node pnode x q"
  have w: "q_head w = q_head q" "q_tail w = q_tail q" "q_freed w = q_freed q - {pnode}"
    "\<And>n. n \<noteq> pnode \<Longrightarrow> q_nodes w n = q_nodes q n"
    "q_nodes w pnode = \<lparr>node_value = x, node_next = null_pointer\<rparr>"
    by (simp_all add: w_def new_node_def)
  have "chain (q_nodes w) (p_ptr (q_head q)) ns = chain (q_nodes q) (p_ptr (q_head q)) ns"
  proof (rule chain_cong)
    fix n
    assume "n \<in> set (p_ptr (q_head q) # ns)"
    then have "n \<noteq> pnode" using fresh by auto
    then show "node_next (q_nodes w n) = node_next (q_nodes q n)" by (simp add: w(4))
  qed
  then have repw: "queue_rep w ns" using rep by (auto simp: queue_rep_def w)
  obtain ms m rest where dec: "p_ptr (q_head w) # ns = ms @ m # rest" "p_ptr (q_tail w) = m"
    using repw unfolding queue_rep_def by (metis split_list)
  obtain q' where q': "enqueue_loop bump pnode w = Some q'" "queue_rep q' (ns @ [pnode])"
    "\<forall>n. node_value (q_nodes q' n) = node_value (q_nodes w n)" "q_head q' = q_head w"
    using enqueue_loop_rep [OF repw dec, of pnode bump] fresh new w by (auto simp: null_pointer_def)
  have "map (\<lambda>n. node_value (q_nodes q' n)) (ns @ [pnode]) = map (\<lambda>n. node_value (q_nodes q n)) ns @ [x]"
  proof -
    have "node_value (q_nodes q' n) = node_value (q_nodes q n)" if "n \<in> set ns" for n
    proof -
      have "n \<noteq> pnode" using that fresh by auto
      then show ?thesis using q'(3) by (simp add: w(4))
    qed
    then show ?thesis using q'(3) w(5) by simp
  qed
  then show ?thesis using q'(1,2,4) w(1) unfolding w_def by auto
qed

text \<open>Dequeueing: at most one swing of the tail, then the head moves on.\<close>

lemma dequeue_empty:
  assumes "queue_rep q []"
  shows "lock_free_dequeue q = Some (None, q)"
  using assms by (subst lock_free_dequeue.simps) (simp add: queue_rep_def dequeue_body_def Let_def)

lemma dequeue_taken:
  assumes rep: "queue_rep q (n # ns)" and t: "p_ptr (q_tail q) \<noteq> p_ptr (q_head q)"
  shows "\<exists>q'. lock_free_dequeue q = Some (Some (node_value (q_nodes q n)), q') \<and> queue_rep q' ns \<and>
    q_nodes q' = q_nodes q \<and> p_ptr (q_head q') = n \<and> q_freed q' = insert (p_ptr (q_head q)) (q_freed q)"
proof -
  let ?h = "p_ptr (q_head q)"
  have r: "?h \<noteq> 0" "n \<noteq> 0" "distinct (?h # n # ns)" "chain (q_nodes q) n ns"
    "p_ptr (node_next (q_nodes q ?h)) = n" "p_ptr (q_tail q) \<in> set (n # ns)"
    "q_freed q \<inter> set (?h # n # ns) = {}"
    using rep t by (auto simp: queue_rep_def)
  define q1 where "q1 = q\<lparr>q_head := \<lparr>p_ptr = n, p_count = p_count (q_head q) + 1\<rparr>\<rparr>"
  have "dequeue_body q = (Taken (node_value (q_nodes q n)) ?h, q1)"
    using r(1,5) t by (auto simp: dequeue_body_def Let_def cas_def q1_def)
  then have "lock_free_dequeue q = Some (Some (node_value (q_nodes q n)), free_node ?h q1)"
    by (subst lock_free_dequeue.simps) simp
  moreover have "queue_rep (free_node ?h q1) ns"
    using r by (auto simp: queue_rep_def free_node_def q1_def)
  moreover have "q_nodes (free_node ?h q1) = q_nodes q" "p_ptr (q_head (free_node ?h q1)) = n"
    "q_freed (free_node ?h q1) = insert ?h (q_freed q)"
    by (simp_all add: free_node_def q1_def)
  ultimately show ?thesis by blast
qed

lemma dequeue_first:
  assumes rep: "queue_rep q (n # ns)"
  shows "\<exists>q'. lock_free_dequeue q = Some (Some (node_value (q_nodes q n)), q') \<and> queue_rep q' ns \<and>
    q_nodes q' = q_nodes q \<and> p_ptr (q_head q') = n \<and> q_freed q' = insert (p_ptr (q_head q)) (q_freed q)"
proof (cases "p_ptr (q_tail q) = p_ptr (q_head q)")
  case False
  then show ?thesis using dequeue_taken [OF rep] by blast
next
  case True
  let ?h = "p_ptr (q_head q)"
  have r: "?h \<noteq> 0" "n \<noteq> 0" "p_ptr (node_next (q_nodes q ?h)) = n" "n \<noteq> ?h"
    using rep by (auto simp: queue_rep_def)
  define q1 where "q1 = q\<lparr>q_tail := \<lparr>p_ptr = n, p_count = p_count (q_tail q) + 1\<rparr>\<rparr>"
  have "dequeue_body q = (Again, q1)"
    using r True by (auto simp: dequeue_body_def Let_def cas_def q1_def)
  then have e: "lock_free_dequeue q = lock_free_dequeue q1"
    by (subst lock_free_dequeue.simps) simp
  have "queue_rep q1 (n # ns)" using rep by (auto simp: queue_rep_def q1_def)
  moreover have "p_ptr (q_tail q1) \<noteq> p_ptr (q_head q1)" using r(4) by (simp add: q1_def)
  ultimately show ?thesis using dequeue_taken [of q1 n ns] e by (simp add: q1_def)
qed

lemma open_contents: "node \<noteq> 0 \<Longrightarrow> queue_contents (lock_free_queue_open node zero) []"
  by (auto simp: queue_contents_def queue_rep_def lock_free_queue_open_def null_pointer_def
      intro!: exI [of _ "[]"])

section \<open>The array queue holds a list\<close>

definition arrayq_contents :: "'a arrayq \<Rightarrow> 'a list \<Rightarrow> bool" where
  "arrayq_contents q xs =
     (a_read q \<le> a_write q \<and> a_write q \<le> a_size q \<and> 0 < a_size q \<and> length (a_data q) = a_size q \<and>
      xs = take (a_write q - a_read q) (drop (a_read q) (a_data q)))"

lemma take_drop_snoc:
  assumes "r \<le> w" and "w < length d"
  shows "take (w + 1 - r) (drop r (d[w := x])) = take (w - r) (drop r d) @ [x]"
proof -
  have "w + 1 - r = Suc (w - r)" using assms(1) by simp
  moreover have "w - r < length (drop r (d[w := x]))" using assms by simp
  ultimately have "take (w + 1 - r) (drop r (d[w := x])) =
      take (w - r) (drop r (d[w := x])) @ [drop r (d[w := x]) ! (w - r)]"
    by (simp add: take_Suc_conv_app_nth)
  moreover have "take (w - r) (drop r (d[w := x])) = take (w - r) (drop r d)"
    using assms by (simp add: drop_update_swap)
  moreover have "drop r (d[w := x]) ! (w - r) = x" using assms by simp
  ultimately show ?thesis by simp
qed

lemma arrayq_enqueue_contents:
  assumes "arrayq_contents q xs"
  shows "arrayq_contents (arrayq_enqueue dflt x q) (xs @ [x])"
proof -
  have c: "a_read q \<le> a_write q" "a_write q \<le> a_size q" "0 < a_size q" "length (a_data q) = a_size q"
    "xs = take (a_write q - a_read q) (drop (a_read q) (a_data q))"
    using assms by (auto simp: arrayq_contents_def)
  define d where "d = (if a_write q = a_size q then a_data q @ replicate (a_size q) dflt else a_data q)"
  have d: "a_data (arrayq_enqueue dflt x q) = d[a_write q := x]"
    "a_write (arrayq_enqueue dflt x q) = a_write q + 1" "a_read (arrayq_enqueue dflt x q) = a_read q"
    "a_size (arrayq_enqueue dflt x q) = length d" "a_write q < length d"
    using c by (auto simp: arrayq_enqueue_def Let_def arrayq_resize_def d_def)
  have "take (a_write q - a_read q) (drop (a_read q) d) = xs"
    using c by (simp add: d_def)
  moreover have "take (a_write q + 1 - a_read q) (drop (a_read q) (d[a_write q := x])) =
      take (a_write q - a_read q) (drop (a_read q) d) @ [x]"
    by (rule take_drop_snoc [OF c(1) d(5)])
  moreover have "d \<noteq> []" using d(5) by auto
  ultimately show ?thesis
    unfolding arrayq_contents_def d(1-4) using c(1) d(5) by (simp add: Suc_le_eq)
qed

lemma arrayq_dequeue_contents:
  "arrayq_contents q [] \<Longrightarrow> fst (arrayq_dequeue q) = None \<and> arrayq_contents (snd (arrayq_dequeue q)) []"
  "arrayq_contents q (x # xs) \<Longrightarrow>
     fst (arrayq_dequeue q) = Some x \<and> arrayq_contents (snd (arrayq_dequeue q)) xs"
proof -
  assume "arrayq_contents q []"
  then have "a_read q = a_write q" "0 < a_size q" "length (a_data q) = a_size q"
    by (auto simp: arrayq_contents_def)
  then show "fst (arrayq_dequeue q) = None \<and> arrayq_contents (snd (arrayq_dequeue q)) []"
    by (simp add: arrayq_dequeue_def Let_def arrayq_contents_def)
next
  assume a: "arrayq_contents q (x # xs)"
  let ?r = "a_read q" and ?w = "a_write q"
  have c: "?r \<le> ?w" "?w \<le> a_size q" "0 < a_size q" "length (a_data q) = a_size q"
    "x # xs = take (?w - ?r) (drop ?r (a_data q))" using a by (auto simp: arrayq_contents_def)
  have lt: "?r < ?w" using c(1,5) by (cases "?r = ?w") auto
  have "drop ?r (a_data q) = a_data q ! ?r # drop (Suc ?r) (a_data q)"
    using lt c(2,4) by (simp add: Cons_nth_drop_Suc)
  moreover have "?w - ?r = Suc (?w - Suc ?r)" using lt by simp
  ultimately have "x = a_data q ! ?r" "xs = take (?w - Suc ?r) (drop (Suc ?r) (a_data q))"
    using c(5) by auto
  then show "fst (arrayq_dequeue q) = Some x \<and> arrayq_contents (snd (arrayq_dequeue q)) xs"
    using lt c by (simp add: arrayq_dequeue_def Let_def arrayq_contents_def)
qed

section \<open>The interface of a queue\<close>

text \<open>Sequences of operations, run on a queue and on the list it stands for.\<close>

datatype ('m, 'a) qop = Enq 'm 'a | Deq

fun qop_mem :: "('m, 'a) qop list \<Rightarrow> 'm list" where
  "qop_mem [] = []"
| "qop_mem (Enq m x # ops) = m # qop_mem ops"
| "qop_mem (Deq # ops) = qop_mem ops"

fun run_qops ::
  "('m \<Rightarrow> 'a \<Rightarrow> 'q \<Rightarrow> 'q option) \<Rightarrow> ('q \<Rightarrow> ('a option \<times> 'q) option) \<Rightarrow> ('m, 'a) qop list \<Rightarrow> 'q \<Rightarrow>
   ('a option list \<times> 'q) option" where
  "run_qops enq deq [] q = Some ([], q)"
| "run_qops enq deq (Enq m x # ops) q =
     (case enq m x q of None \<Rightarrow> None | Some q' \<Rightarrow> run_qops enq deq ops q')"
| "run_qops enq deq (Deq # ops) q =
     (case deq q of
        None \<Rightarrow> None
      | Some (r, q') \<Rightarrow>
          (case run_qops enq deq ops q' of None \<Rightarrow> None | Some (rs, q'') \<Rightarrow> Some (r # rs, q'')))"

fun fifo_outs :: "('m, 'a) qop list \<Rightarrow> 'a list \<Rightarrow> 'a option list" where
  "fifo_outs [] xs = []"
| "fifo_outs (Enq m x # ops) xs = fifo_outs ops (xs @ [x])"
| "fifo_outs (Deq # ops) [] = None # fifo_outs ops []"
| "fifo_outs (Deq # ops) (x # xs) = Some x # fifo_outs ops xs"

fun fifo_rest :: "('m, 'a) qop list \<Rightarrow> 'a list \<Rightarrow> 'a list" where
  "fifo_rest [] xs = xs"
| "fifo_rest (Enq m x # ops) xs = fifo_rest ops (xs @ [x])"
| "fifo_rest (Deq # ops) xs = fifo_rest ops (tl xs)"

text \<open>What the users of the queues rely on; \<open>fresh m q\<close> says that the memory \<open>m\<close> can hold a new
  element of \<open>q\<close>, \<open>sep m m'\<close> that using \<open>m\<close> leaves \<open>m'\<close> alone.\<close>

locale fifo_queue =
  fixes enq :: "'m \<Rightarrow> 'a \<Rightarrow> 'q \<Rightarrow> 'q option"
    and deq :: "'q \<Rightarrow> ('a option \<times> 'q) option"
    and contents :: "'q \<Rightarrow> 'a list \<Rightarrow> bool"
    and fresh :: "'m \<Rightarrow> 'q \<Rightarrow> bool"
    and sep :: "'m \<Rightarrow> 'm \<Rightarrow> bool"
  assumes enq_law: "contents q xs \<Longrightarrow> fresh m q \<Longrightarrow>
      \<exists>q'. enq m x q = Some q' \<and> contents q' (xs @ [x]) \<and>
        (\<forall>m'. sep m m' \<longrightarrow> fresh m' q \<longrightarrow> fresh m' q')"
    and deq_law: "contents q (x # xs) \<Longrightarrow>
      \<exists>q'. deq q = Some (Some x, q') \<and> contents q' xs \<and> (\<forall>m. fresh m q \<longrightarrow> fresh m q')"
    and empty_law: "contents q [] \<Longrightarrow>
      \<exists>q'. deq q = Some (None, q') \<and> contents q' [] \<and> (\<forall>m. fresh m q \<longrightarrow> fresh m q')"
begin

text \<open>Any sequence of operations ends, and gives what the list gives.\<close>

lemma run_qops_fifo:
  "contents q xs \<Longrightarrow> sorted_wrt sep (qop_mem ops) \<Longrightarrow> (\<forall>m \<in> set (qop_mem ops). fresh m q) \<Longrightarrow>
   \<exists>q'. run_qops enq deq ops q = Some (fifo_outs ops xs, q') \<and> contents q' (fifo_rest ops xs)"
proof (induction ops arbitrary: q xs)
  case Nil
  then show ?case by simp
next
  case (Cons op ops)
  show ?case
  proof (cases op)
    case (Enq m x)
    obtain q1 where q1: "enq m x q = Some q1" "contents q1 (xs @ [x])"
      "\<forall>m'. sep m m' \<longrightarrow> fresh m' q \<longrightarrow> fresh m' q1"
      using enq_law [of q xs m x] Cons.prems Enq by auto
    have "\<forall>m \<in> set (qop_mem ops). fresh m q1" using q1(3) Cons.prems Enq by auto
    then show ?thesis using Cons.IH [OF q1(2)] Cons.prems(2) q1(1) Enq by simp
  next
    case Deq
    have s: "sorted_wrt sep (qop_mem ops)" "\<forall>m \<in> set (qop_mem ops). fresh m q"
      using Cons.prems Deq by simp_all
    show ?thesis
    proof (cases xs)
      case Nil
      then obtain q1 where q1: "deq q = Some (None, q1)" "contents q1 []" "\<forall>m. fresh m q \<longrightarrow> fresh m q1"
        using empty_law Cons.prems(1) by blast
      then show ?thesis using Cons.IH [OF q1(2) s(1)] s(2) Deq Nil by auto
    next
      case (Cons x ys)
      then obtain q1 where q1: "deq q = Some (Some x, q1)" "contents q1 ys" "\<forall>m. fresh m q \<longrightarrow> fresh m q1"
        using deq_law Cons.prems(1) by blast
      then show ?thesis using Cons.IH [OF q1(2) s(1)] s(2) Deq Cons by auto
    qed
  qed
qed

end

section \<open>The linked queue is a queue\<close>

text \<open>The chain determines the nodes, so fresh addresses stay fresh.\<close>

lemma chain_unique: "chain h d ns \<Longrightarrow> chain h d ms \<Longrightarrow> ns = ms"
proof (induction ns arbitrary: d ms)
  case Nil
  then show ?case by (cases ms) auto
next
  case (Cons n ns)
  then show ?case by (cases ms) auto
qed

lemma queue_rep_unique: "queue_rep q ns \<Longrightarrow> queue_rep q ms \<Longrightarrow> ns = ms"
  unfolding queue_rep_def by (blast intro: chain_unique)

definition queue_fresh :: "ptr \<Rightarrow> 'a st_queue \<Rightarrow> bool" where
  "queue_fresh p q = (p \<noteq> 0 \<and> (\<forall>ns. queue_rep q ns \<longrightarrow> p \<notin> set (p_ptr (q_head q) # ns)))"

lemma queue_fresh_iff:
  "queue_rep q ns \<Longrightarrow> queue_fresh p q = (p \<noteq> 0 \<and> p \<notin> set (p_ptr (q_head q) # ns))"
  unfolding queue_fresh_def using queue_rep_unique by metis

lemma queue_contentsI:
  "queue_rep q ns \<Longrightarrow> map (\<lambda>n. node_value (q_nodes q n)) ns = xs \<Longrightarrow> queue_contents q xs"
  by (auto simp: queue_contents_def)

lemma enqueue_contents:
  assumes "queue_contents q xs" and "queue_fresh m q"
  shows "\<exists>q'. enqueue_loop bump m (new_node m x q) = Some q' \<and> queue_contents q' (xs @ [x]) \<and>
    (\<forall>m'. m \<noteq> m' \<longrightarrow> queue_fresh m' q \<longrightarrow> queue_fresh m' q')"
proof -
  obtain ns where rep: "queue_rep q ns" and xs: "xs = map (\<lambda>n. node_value (q_nodes q n)) ns"
    using assms(1) by (auto simp: queue_contents_def)
  have f: "m \<noteq> 0" "m \<notin> set (p_ptr (q_head q) # ns)" using assms(2) rep by (simp_all add: queue_fresh_iff)
  obtain q' where q': "enqueue_loop bump m (new_node m x q) = Some q'" "queue_rep q' (ns @ [m])"
    "map (\<lambda>n. node_value (q_nodes q' n)) (ns @ [m]) = xs @ [x]" "q_head q' = q_head q"
    using enqueue_step [OF rep f, of bump x] unfolding xs by blast
  have "queue_fresh m' q'" if "m \<noteq> m'" "queue_fresh m' q" for m'
    using that by (simp add: queue_fresh_iff [OF rep] queue_fresh_iff [OF q'(2)] q'(4))
  then show ?thesis using q'(1) queue_contentsI [OF q'(2,3)] by blast
qed

lemma dequeue_contents:
  assumes "queue_contents q (x # xs)"
  shows "\<exists>q'. lock_free_dequeue q = Some (Some x, q') \<and> queue_contents q' xs \<and>
    (\<forall>m. queue_fresh m q \<longrightarrow> queue_fresh m q')"
proof -
  obtain n ns where rep: "queue_rep q (n # ns)" and x: "x = node_value (q_nodes q n)"
    "xs = map (\<lambda>n. node_value (q_nodes q n)) ns"
    using assms by (auto simp: queue_contents_def Cons_eq_map_conv)
  obtain q' where q': "lock_free_dequeue q = Some (Some x, q')" "queue_rep q' ns"
    "q_nodes q' = q_nodes q" "p_ptr (q_head q') = n"
    using dequeue_first [OF rep] x(1) by blast
  have "queue_fresh m q'" if "queue_fresh m q" for m
    using that by (simp add: queue_fresh_iff [OF rep] queue_fresh_iff [OF q'(2)] q'(4))
  moreover have "queue_contents q' xs"
    by (rule queue_contentsI [OF q'(2)]) (simp add: q'(3) x(2))
  ultimately show ?thesis using q'(1) by blast
qed

lemma dequeue_contents_empty:
  assumes "queue_contents q []"
  shows "\<exists>q'. lock_free_dequeue q = Some (None, q') \<and> queue_contents q' [] \<and>
    (\<forall>m. queue_fresh m q \<longrightarrow> queue_fresh m q')"
  using assms dequeue_empty [of q] by (auto simp: queue_contents_def)

interpretation lf: fifo_queue lock_free_enqueue lock_free_dequeue queue_contents queue_fresh "(\<noteq>)"
  unfolding lock_free_enqueue_def
  by unfold_locales (fact enqueue_contents dequeue_contents dequeue_contents_empty)+

interpretation msgq: fifo_queue msg_enqueue msg_dequeue queue_contents queue_fresh "(\<noteq>)"
  unfolding msg_enqueue_def msg_dequeue_def
  by unfold_locales (fact enqueue_contents dequeue_contents dequeue_contents_empty)+

interpretation arrayq: fifo_queue "\<lambda>dflt x q. Some (arrayq_enqueue dflt x q)"
  "\<lambda>q. Some (arrayq_dequeue q)" arrayq_contents "\<lambda>_ _. True" "\<lambda>_ _. True"
proof
  show "\<exists>q'. Some (arrayq_enqueue m x q) = Some q' \<and> arrayq_contents q' (xs @ [x]) \<and>
      (\<forall>m'. True \<longrightarrow> True \<longrightarrow> True)"
    if "arrayq_contents q xs" for q xs and m x :: 'a
    using arrayq_enqueue_contents [OF that] by simp
  show "\<exists>q'. Some (arrayq_dequeue q) = Some (Some x, q') \<and> arrayq_contents q' xs \<and>
      (\<forall>m :: 'a. True \<longrightarrow> True)"
    if "arrayq_contents q (x # xs)" for q and x :: 'a and xs
    using arrayq_dequeue_contents(2) [OF that] by (cases "arrayq_dequeue q") simp
  show "\<exists>q'. Some (arrayq_dequeue q) = Some (None, q') \<and> arrayq_contents q' [] \<and>
      (\<forall>m :: 'a. True \<longrightarrow> True)"
    if "arrayq_contents q []" for q :: "'a arrayq"
    using arrayq_dequeue_contents(1) [OF that] by (cases "arrayq_dequeue q") simp
qed

end
