(* ===== verification/MsgQueueProps.thy ===== *)
theory MsgQueueProps
  imports MsgQueue
begin

text \<open>
  Properties of the queues and of the stack shared with other operating system threads.
\<close>

section \<open>The linked queue\<close>



text \<open>Enqueueing does not move the tail to the new node, and dequeueing frees the old dummy node:
  a thread that copied the tail before the dequeue goes on to read, and to link its node to, freed
  memory.\<close>

theorem enqueue_reads_freed:
  assumes "queue_contents q []" and "p_ptr (q_tail q) = p_ptr (q_head q)" and "queue_fresh m q"
  shows "\<exists>q1 q2. lock_free_enqueue m x q = Some q1 \<and> p_ptr (q_tail q1) = p_ptr (q_head q1) \<and>
    lock_free_dequeue q1 = Some (Some x, q2) \<and> p_ptr (q_tail q1) \<in> q_freed q2 \<and> queue_contents q2 []"
proof -
  have rep: "queue_rep q []" using assms(1) by (auto simp: queue_contents_def)
  have m: "m \<noteq> 0" "m \<noteq> p_ptr (q_head q)" using assms(3) by (auto simp: queue_fresh_iff [OF rep])
  define w where "w = new_node m x q"
  define h where "h = p_ptr (q_head q)"
  have h: "h \<noteq> 0" "p_ptr (node_next (q_nodes q h)) = 0" using rep by (simp_all add: queue_rep_def h_def)
  define q1 where
    "q1 = set_next h \<lparr>p_ptr = m, p_count = p_count (node_next (q_nodes q h)) + 1\<rparr> w"
  have w: "p_ptr (q_tail w) = h" "q_nodes w h = q_nodes q h"
    using assms(2) m(2) by (simp_all add: w_def new_node_def h_def)
  have "enqueue_body 2 m w = Some (True, q1)"
    using h w by (simp add: enqueue_body_def Let_def cas_def q1_def)
  then have e: "lock_free_enqueue m x q = Some q1"
    by (simp add: lock_free_enqueue_def w_def [symmetric] enqueue_loop.simps [of _ _ w])
  have t: "p_ptr (q_tail q1) = h" "p_ptr (q_head q1) = h"
    using w by (simp_all add: q1_def set_next_def w_def new_node_def h_def)
  have c1: "queue_contents q1 [x]"
    using lf.enq_law [OF assms(1,3), of x] e by auto
  then obtain n where rep1: "queue_rep q1 [n]" and x: "x = node_value (q_nodes q1 n)"
    by (auto simp: queue_contents_def map_eq_Cons_conv)
  obtain q2 where q2: "lock_free_dequeue q1 = Some (Some x, q2)" "queue_rep q2 []"
    "q_freed q2 = insert h (q_freed q1)"
    using dequeue_first [OF rep1] x t by auto
  have "queue_contents q2 []" by (rule queue_contentsI [OF q2(2)]) simp
  then show ?thesis using e t q2 by auto
qed

theorem enqueue_reads_freed_witness:
  "\<exists>q1 q2. lock_free_enqueue 2 (20::nat) (lock_free_queue_open 1 0) = Some q1 \<and>
    p_ptr (q_tail q1) = p_ptr (q_head q1) \<and> lock_free_dequeue q1 = Some (Some 20, q2) \<and>
    p_ptr (q_tail q1) \<in> q_freed q2 \<and> queue_contents q2 []"
proof (rule enqueue_reads_freed)
  show "queue_contents (lock_free_queue_open 1 (0::nat)) []" by (rule open_contents) simp
  have "queue_rep (lock_free_queue_open 1 (0::nat)) []"
    by (simp add: queue_rep_def lock_free_queue_open_def null_pointer_def)
  then show "queue_fresh 2 (lock_free_queue_open 1 (0::nat))"
    by (simp add: queue_fresh_iff lock_free_queue_open_def)
qed (simp add: lock_free_queue_open_def)

section \<open>The array queue\<close>


section \<open>The stack\<close>

text \<open>The cells of the stack, from the top.\<close>

fun linked :: "(ptr \<Rightarrow> ptr) \<Rightarrow> ptr \<Rightarrow> ptr list \<Rightarrow> bool" where
  "linked h p [] = (p = 0)"
| "linked h p (c # cs) = (p = c \<and> c \<noteq> 0 \<and> linked h (h c) cs)"

definition stack_rep :: "st_fifo \<Rightarrow> ptr list \<Rightarrow> bool" where
  "stack_rep f cs = (linked (f_next f) (f_top f) cs \<and> distinct cs)"

lemma linked_update: "c \<notin> set cs \<Longrightarrow> linked (h(c := x)) p cs = linked h p cs"
  by (induction cs arbitrary: p) auto

lemma st_stack_push_eq:
  "st_stack_push cl f = Some (f\<lparr>f_next := (f_next f)(cl := f_top f), f_seq := f_seq f + 1, f_top := cl\<rparr>)"
  by (subst st_stack_push.simps) (simp add: push_read_def push_seq_def push_top_def)

lemma stack_push:
  assumes "stack_rep f cs" and "c \<noteq> 0" and "c \<notin> set cs"
  shows "stack_rep (f\<lparr>f_next := (f_next f)(c := f_top f), f_seq := s, f_top := c\<rparr>) (c # cs)"
  using assms by (simp add: stack_rep_def linked_update)

lemma st_stack_pop_eq:
  assumes "stack_rep f (c # cs)"
  shows "st_stack_pop f =
    Some (c, f\<lparr>f_seq := f_seq f + (if f_seq f = 0 then 2 else 1), f_top := f_next f c\<rparr>)"
proof -
  have t: "f_top f = c" "c \<noteq> 0" using assms by (auto simp: stack_rep_def)
  have one: "st_stack_pop g = Some (c, g\<lparr>f_seq := f_seq g + 1, f_top := f_next g c\<rparr>)"
    if "f_top g = c" "f_seq g \<noteq> 0" for g
    using that t(2) by (subst st_stack_pop.simps) (simp add: pop_read_def pop_commit_def Let_def)
  show ?thesis
  proof (cases "f_seq f = 0")
    case False
    then show ?thesis using one t by simp
  next
    case True
    then have "st_stack_pop f = st_stack_pop (f\<lparr>f_seq := 1\<rparr>)"
      using t by (subst st_stack_pop.simps) (simp add: pop_read_def pop_commit_def Let_def)
    then show ?thesis using one [of "f\<lparr>f_seq := 1\<rparr>"] t True by simp
  qed
qed

lemma stack_pop:
  assumes "stack_rep f (c # cs)"
  shows "stack_rep (f\<lparr>f_seq := s, f_top := f_next f c\<rparr>) cs"
  using assms by (auto simp: stack_rep_def)

lemma stack_pop_empty: "stack_rep f [] \<Longrightarrow> st_stack_pop f = Some (0, f)"
  by (subst st_stack_pop.simps) (simp add: pop_read_def stack_rep_def)

fun push_all :: "ptr list \<Rightarrow> st_fifo \<Rightarrow> st_fifo option" where
  "push_all [] f = Some f"
| "push_all (c # cs) f = (case st_stack_push c f of None \<Rightarrow> None | Some f' \<Rightarrow> push_all cs f')"

fun pop_times :: "nat \<Rightarrow> st_fifo \<Rightarrow> (ptr list \<times> st_fifo) option" where
  "pop_times 0 f = Some ([], f)"
| "pop_times (Suc n) f =
     (case st_stack_pop f of
        None \<Rightarrow> None
      | Some (c, f') \<Rightarrow>
          (case pop_times n f' of None \<Rightarrow> None | Some (cs, f'') \<Rightarrow> Some (c # cs, f'')))"

lemma push_all_rep:
  "stack_rep f ds \<Longrightarrow> distinct (cs @ ds) \<Longrightarrow> 0 \<notin> set cs \<Longrightarrow>
   \<exists>f'. push_all cs f = Some f' \<and> stack_rep f' (rev cs @ ds)"
proof (induction cs arbitrary: f ds)
  case Nil
  then show ?case by simp
next
  case (Cons c cs)
  have "stack_rep (f\<lparr>f_next := (f_next f)(c := f_top f), f_seq := f_seq f + 1, f_top := c\<rparr>) (c # ds)"
    by (rule stack_push) (use Cons.prems in auto)
  from Cons.IH [OF this] Cons.prems show ?case by (auto simp: st_stack_push_eq)
qed

lemma pop_times_rep:
  "stack_rep f cs \<Longrightarrow> \<exists>f'. pop_times (Suc (length cs)) f = Some (cs @ [0], f') \<and> stack_rep f' []"
proof (induction cs arbitrary: f)
  case Nil
  then show ?case by (simp add: stack_pop_empty)
next
  case (Cons c cs)
  define f1 where "f1 = f\<lparr>f_seq := f_seq f + (if f_seq f = 0 then 2 else 1), f_top := f_next f c\<rparr>"
  have "stack_rep f1 cs" unfolding f1_def by (rule stack_pop [OF Cons.prems])
  then obtain f' where "pop_times (Suc (length cs)) f1 = Some (cs @ [0], f')" "stack_rep f' []"
    using Cons.IH by blast
  moreover have "st_stack_pop f = Some (c, f1)" unfolding f1_def by (rule st_stack_pop_eq [OF Cons.prems])
  ultimately show ?case by (simp only: length_Cons pop_times.simps(2) [of "Suc _"]) simp
qed

text \<open>Cells pushed on a new stack by one thread come back in reverse order, and then null, whatever
  the uninitialised sequence number is: both loops end.\<close>

theorem stack_lifo:
  assumes "distinct cs" and "0 \<notin> set cs"
  shows "\<exists>f f'. push_all cs (st_stack_alloc junk cells) = Some f \<and>
    pop_times (Suc (length cs)) f = Some (rev cs @ [0], f')"
proof -
  have "stack_rep (st_stack_alloc junk cells) []" by (simp add: stack_rep_def st_stack_alloc_def)
  then obtain f where f: "push_all cs (st_stack_alloc junk cells) = Some f" "stack_rep f (rev cs)"
    using push_all_rep [of _ "[]" cs] assms by auto
  then show ?thesis using pop_times_rep [OF f(2)] by auto
qed

theorem stack_lifo_witness:
  "\<exists>f f'. push_all [5, 7, 9] (st_stack_alloc (- 2) (\<lambda>_. 0)) = Some f \<and>
    pop_times 4 f = Some ([9, 7, 5, 0], f')"
  using stack_lifo [of "[5, 7, 9]" "- 2" "\<lambda>_. 0"] by (simp add: numeral_eq_Suc)

text \<open>Two threads on the stack.  If a whole push of \<open>d\<close> runs between the two exchanges of a push of
  \<open>c\<close>, the cell \<open>c\<close> is lost although both calls return.  If a whole pop runs after another one has read
  the top, both return the same cell.\<close>

theorem stack_races:
  assumes rep: "stack_rep f (t # cs)" and c: "c \<noteq> 0" "d \<noteq> 0" "c \<noteq> d" "c \<notin> set (t # cs)" "d \<notin> set (t # cs)"
    and wrap: "f_seq f \<noteq> - 1"
  shows "(\<exists>f1 f2 f3. push_read c f = (f_seq f, f1) \<and> push_seq (f_seq f) f1 = (True, f2) \<and>
      st_stack_push d f2 = Some f3 \<and> stack_rep (push_top c f3) (d # t # cs)) \<and>
    (\<exists>f1 f2. st_stack_pop f = Some (t, f1) \<and> pop_commit (pop_read f) f1 = (True, f2) \<and>
      fst (pop_read f) = t \<and> stack_rep f2 cs)"
proof
  define f2 where "f2 = f\<lparr>f_next := (f_next f)(c := f_top f), f_seq := f_seq f + 1\<rparr>"
  have r2: "stack_rep f2 (t # cs)"
    using rep c(4) unfolding f2_def stack_rep_def by (auto simp: linked_update)
  define f3 where "f3 = f2\<lparr>f_next := (f_next f2)(d := f_top f2), f_seq := f_seq f2 + 1, f_top := d\<rparr>"
  have r3: "stack_rep f3 (d # t # cs)" unfolding f3_def by (rule stack_push [OF r2 c(2,5)])
  have "f_top f = t" using rep by (simp add: stack_rep_def)
  then have "push_top c f3 = f3" using c(3,5) by (simp add: push_top_def f3_def f2_def)
  then show "\<exists>f1 f2 f3. push_read c f = (f_seq f, f1) \<and> push_seq (f_seq f) f1 = (True, f2) \<and>
      st_stack_push d f2 = Some f3 \<and> stack_rep (push_top c f3) (d # t # cs)"
    using r3 by (simp add: push_read_def push_seq_def st_stack_push_eq f2_def f3_def)
next
  define f1 where "f1 = f\<lparr>f_seq := f_seq f + (if f_seq f = 0 then 2 else 1), f_top := f_next f t\<rparr>"
  have t: "f_top f = t" "t \<noteq> 0" and nx: "f_next f t \<noteq> t"
    using rep by (auto simp: stack_rep_def neq_Nil_conv elim: linked.elims)
  have s: "f_seq f1 \<noteq> 0" "f_seq f1 \<noteq> f_seq f"
    using wrap by (auto simp: f1_def eq_neg_iff_add_eq_0)
  have "pop_commit (pop_read f) f1 = (True, f1)"
    using s t nx by (simp add: pop_commit_def pop_read_def Let_def) (simp add: f1_def)
  moreover have "stack_rep f1 cs" unfolding f1_def by (rule stack_pop [OF rep])
  ultimately show "\<exists>f1 f2. st_stack_pop f = Some (t, f1) \<and> pop_commit (pop_read f) f1 = (True, f2) \<and>
      fst (pop_read f) = t \<and> stack_rep f2 cs"
    using t st_stack_pop_eq [OF rep] by (simp add: f1_def pop_read_def)
qed

theorem stack_races_witness:
  "\<exists>f1 f2. st_stack_pop \<lparr>f_seq = 3, f_top = 5, f_next = (\<lambda>_. 0)\<rparr> = Some (5, f1) \<and>
    pop_commit (pop_read \<lparr>f_seq = 3, f_top = 5, f_next = (\<lambda>_. 0)\<rparr>) f1 = (True, f2) \<and>
    fst (pop_read \<lparr>f_seq = 3, f_top = 5, f_next = (\<lambda>_. 0)\<rparr>) = 5 \<and> stack_rep f2 []"
  using stack_races [of "\<lparr>f_seq = 3, f_top = 5, f_next = (\<lambda>_. 0)\<rparr>" 5 "[]" 7 9]
  by (simp add: stack_rep_def)

end
