(* ===== verification/DbServer.thy ===== *)
theory DbServer
  imports Thread MsgQueue
begin

text \<open>
  The database thread and its client calls (\<^verbatim>\<open>db_sqlserver.cpp\<close>): a client puts a request on the
  message queue of its handle, sets the event, and waits; the database thread takes a request,
  performs it with ADO and posts the client as a completion.  The ADO objects are arguments of the
  model: a record of functions on a state they keep.
\<close>

section \<open>Requests and handles\<close>

datatype db_event = DB_OPEN | DB_QUERY | DB_FETCH | DB_EXEC | DB_CLOSE

record wrap_db_oper =
  op_thread :: tid
  op_event :: db_event
  op_buf :: string

text \<open>\<^verbatim>\<open>_com_error\<close>: the code and the description of an exception.\<close>

record com_error =
  ce_error :: u32
  ce_description :: string

text \<open>A call of an ADO object gives an exception or a value, and the new state of the objects.\<close>

type_synonym ('a, 'c) ado_call = "'c \<Rightarrow> (com_error + 'a) \<times> 'c"

record 'c ado =
  create_connection :: "'c \<Rightarrow> bool \<times> 'c"
  create_recordset :: "'c \<Rightarrow> bool \<times> 'c"
  conn_release :: "'c \<Rightarrow> 'c"
  conn_put_timeouts :: "(unit, 'c) ado_call"
  conn_open :: "string \<Rightarrow> (unit, 'c) ado_call"
  conn_is_closed :: "(bool, 'c) ado_call"
  conn_close :: "(unit, 'c) ado_call"
  conn_execute :: "string \<Rightarrow> (unit, 'c) ado_call"
  conn_container :: "'c \<Rightarrow> bool \<times> 'c"
  conn_point :: "'c \<Rightarrow> bool \<times> 'c"
  rst_is_closed :: "(bool, 'c) ado_call"
  rst_is_open :: "(bool, 'c) ado_call"
  rst_open :: "string \<Rightarrow> (unit, 'c) ado_call"
  rst_close :: "(unit, 'c) ado_call"
  rst_move_first :: "(unit, 'c) ado_call"
  rst_move_next :: "(unit, 'c) ado_call"
  rst_end_of_file :: "(bool, 'c) ado_call"
  rst_item :: "string \<Rightarrow> (string, 'c) ado_call"
  rst_container :: "'c \<Rightarrow> bool \<times> 'c"
  rst_point :: "'c \<Rightarrow> bool \<times> 'c"
  co_uninitialize :: "'c \<Rightarrow> 'c"

text \<open>\<^verbatim>\<open>st_dbfd_t\<close>, with the state of the ADO objects it points to.\<close>

record 'c dbfd =
  db_com :: 'c
  db_connect_str :: string
  db_fetch_result :: "string list"
  db_err_code :: u32
  db_err_desc :: string
  db_msg_queue :: "wrap_db_oper msg_queue"

text \<open>Calls in a row: the first exception ends the sequence.\<close>

definition ado_then :: "('a, 'c) ado_call \<Rightarrow> ('a \<Rightarrow> ('b, 'c) ado_call) \<Rightarrow> ('b, 'c) ado_call" where
  "ado_then f g c = (case f c of (Inl e, c') \<Rightarrow> (Inl e, c') | (Inr x, c') \<Rightarrow> g x c')"

definition ado_skip :: "(unit, 'c) ado_call" where
  "ado_skip c = (Inr (), c)"

section \<open>The database object\<close>

text \<open>\<^verbatim>\<open>HandleErr\<close>.  \<^verbatim>\<open>sprintf_s\<close> ends the process when the description does not fit the 127 bytes it is
  given: \<open>None\<close>.\<close>

definition handle_err :: "com_error \<Rightarrow> 'c dbfd \<Rightarrow> 'c dbfd option" where
  "handle_err err d =
     (if length (ce_description err) < 127
      then Some (d\<lparr>db_err_code := ce_error err, db_err_desc := ce_description err\<rparr>) else None)"

definition connection_errors :: "u32 set" where
  "connection_errors = {0x80004005, 0x800a0e7d, 0x800a0e78}"

definition reconnect :: "'c ado \<Rightarrow> string \<Rightarrow> (unit, 'c) ado_call" where
  "reconnect A s =
     ado_then (conn_is_closed A)
       (\<lambda>closed. ado_then (if closed then ado_skip else conn_close A) (\<lambda>_. conn_open A s))"

definition check_db_connect :: "'c ado \<Rightarrow> u32 \<Rightarrow> 'c dbfd \<Rightarrow> 'c dbfd option" where
  "check_db_connect A err d =
     (if err \<in> connection_errors
      then case reconnect A (db_connect_str d) (db_com d) of
             (Inl e, c) \<Rightarrow> handle_err e (d\<lparr>db_com := c\<rparr>)
           | (Inr _, c) \<Rightarrow> Some (d\<lparr>db_com := c\<rparr>)
      else Some d)"

text \<open>The \<^verbatim>\<open>catch\<close> blocks of \<^verbatim>\<open>Query\<close> and \<^verbatim>\<open>Exec\<close>.\<close>

definition handle_and_check :: "'c ado \<Rightarrow> com_error \<Rightarrow> 'c dbfd \<Rightarrow> (bool \<times> 'c dbfd) option" where
  "handle_and_check A e d =
     (case handle_err e d of
        None \<Rightarrow> None
      | Some d1 \<Rightarrow>
          (case check_db_connect A (ce_error e) d1 of None \<Rightarrow> None | Some d2 \<Rightarrow> Some (False, d2)))"

definition db_open :: "'c ado \<Rightarrow> 'c dbfd \<Rightarrow> (bool \<times> 'c dbfd) option" where
  "db_open A d =
     (case create_connection A (db_com d) of
        (False, c) \<Rightarrow> Some (False, d\<lparr>db_com := c, db_err_code := 0\<rparr>)
      | (True, c) \<Rightarrow>
          (case create_recordset A c of
             (False, c') \<Rightarrow> Some (False, d\<lparr>db_com := conn_release A c', db_err_code := 0\<rparr>)
           | (True, c') \<Rightarrow>
               (case ado_then (conn_put_timeouts A) (\<lambda>_. conn_open A (db_connect_str d)) c' of
                  (Inr _, c'') \<Rightarrow> Some (True, d\<lparr>db_com := c''\<rparr>)
                | (Inl e, c'') \<Rightarrow>
                    (case handle_err e (d\<lparr>db_com := c''\<rparr>) of
                       None \<Rightarrow> None | Some d1 \<Rightarrow> Some (False, d1)))))"

definition db_query :: "'c ado \<Rightarrow> string \<Rightarrow> 'c dbfd \<Rightarrow> (bool \<times> 'c dbfd) option" where
  "db_query A sql d =
     (case ado_then (rst_is_closed A)
             (\<lambda>closed. ado_then (if closed then ado_skip else rst_close A) (\<lambda>_. rst_open A sql)) (db_com d) of
        (Inl e, c) \<Rightarrow> handle_and_check A e (d\<lparr>db_com := c\<rparr>)
      | (Inr _, c) \<Rightarrow>
          (let d1 = d\<lparr>db_com := c, db_err_code := 0\<rparr> in
           case rst_move_first A c of
             (Inl e, c') \<Rightarrow> handle_and_check A e (d1\<lparr>db_com := c'\<rparr>)
           | (Inr _, c') \<Rightarrow> Some (True, d1\<lparr>db_com := c'\<rparr>)))"

text \<open>The loop of \<^verbatim>\<open>Fetch\<close>: one turn gives a value to store, or the end of the loop, by the end of the
  records or an exception.  The list is what was fetched so far.\<close>

definition fetch_step :: "'c ado \<Rightarrow> string \<Rightarrow> (string option, 'c) ado_call" where
  "fetch_step A item =
     ado_then (rst_end_of_file A)
       (\<lambda>eof c. if eof then (Inr None, c) else ado_then (rst_item A item) (\<lambda>x c'. (Inr (Some x), c')) c)"

partial_function (option) fetch_loop ::
  "'c ado \<Rightarrow> string \<Rightarrow> string list \<Rightarrow> 'c \<Rightarrow> (string list \<times> (com_error + unit) \<times> 'c) option" where
  "fetch_loop A item xs c =
     (case fetch_step A item c of
        (Inl e, c1) \<Rightarrow> Some (xs, Inl e, c1)
      | (Inr None, c1) \<Rightarrow> Some (xs, Inr (), c1)
      | (Inr (Some x), c1) \<Rightarrow>
          (case rst_move_next A c1 of
             (Inl e, c2) \<Rightarrow> Some (xs @ [x], Inl e, c2)
           | (Inr _, c2) \<Rightarrow> fetch_loop A item (xs @ [x]) c2))"

definition db_fetch :: "'c ado \<Rightarrow> string \<Rightarrow> 'c dbfd \<Rightarrow> (bool \<times> 'c dbfd) option" where
  "db_fetch A item d =
     (let catch = (\<lambda>e d'. case handle_err e d' of None \<Rightarrow> None | Some d'' \<Rightarrow> Some (False, d'')) in
      case rst_is_open A (db_com d) of
        (Inl e, c) \<Rightarrow> catch e (d\<lparr>db_com := c\<rparr>)
      | (Inr False, c) \<Rightarrow> Some (False, d\<lparr>db_com := c\<rparr>)
      | (Inr True, c) \<Rightarrow>
          (case rst_move_first A c of
             (Inl e, c1) \<Rightarrow> catch e (d\<lparr>db_com := c1\<rparr>)
           | (Inr _, c1) \<Rightarrow>
               (case fetch_loop A item (db_fetch_result d) c1 of
                  None \<Rightarrow> None
                | Some (xs, Inl e, c2) \<Rightarrow> catch e (d\<lparr>db_com := c2, db_fetch_result := xs\<rparr>)
                | Some (xs, Inr _, c2) \<Rightarrow>
                    (case rst_close A c2 of
                       (Inl e, c3) \<Rightarrow> catch e (d\<lparr>db_com := c3, db_fetch_result := xs\<rparr>)
                     | (Inr _, c3) \<Rightarrow> Some (True, d\<lparr>db_com := c3, db_fetch_result := xs\<rparr>)))))"

definition db_exec :: "'c ado \<Rightarrow> string \<Rightarrow> 'c dbfd \<Rightarrow> (bool \<times> 'c dbfd) option" where
  "db_exec A sql d =
     (let d1 = d\<lparr>db_err_code := 0\<rparr> in
      case conn_execute A sql (db_com d1) of
        (Inl e, c) \<Rightarrow> handle_and_check A e (d1\<lparr>db_com := c\<rparr>)
      | (Inr _, c) \<Rightarrow> Some (True, d1\<lparr>db_com := c\<rparr>))"

text \<open>\<^verbatim>\<open>Close\<close> looks up the connection points and does nothing with them; it returns 0 on every path.\<close>

definition db_close :: "'c ado \<Rightarrow> 'c dbfd \<Rightarrow> 'c dbfd" where
  "db_close A d =
     (let (ok1, c1) = conn_container A (db_com d) in
      if \<not> ok1 then d\<lparr>db_com := c1\<rparr>
      else let (ok2, c2) = conn_point A c1 in
      if \<not> ok2 then d\<lparr>db_com := c2\<rparr>
      else let (ok3, c3) = rst_container A c2 in
      if \<not> ok3 then d\<lparr>db_com := c3\<rparr>
      else let (ok4, c4) = rst_point A c3 in
      if \<not> ok4 then d\<lparr>db_com := c4\<rparr>
      else d\<lparr>db_com := co_uninitialize A c4\<rparr>)"

section \<open>The database thread\<close>

text \<open>What the thread does for a request, and whether it then ends.\<close>

definition db_dispatch :: "'c ado \<Rightarrow> wrap_db_oper \<Rightarrow> 'c dbfd \<Rightarrow> (bool \<times> 'c dbfd) option" where
  "db_dispatch A oper d =
     (case op_event oper of
        DB_OPEN \<Rightarrow> (case db_open A d of None \<Rightarrow> None | Some (ok, d') \<Rightarrow> Some (\<not> ok, d'))
      | DB_QUERY \<Rightarrow> (case db_query A (op_buf oper) d of None \<Rightarrow> None | Some (_, d') \<Rightarrow> Some (False, d'))
      | DB_FETCH \<Rightarrow> (case db_fetch A (op_buf oper) d of None \<Rightarrow> None | Some (_, d') \<Rightarrow> Some (False, d'))
      | DB_EXEC \<Rightarrow> (case db_exec A (op_buf oper) d of None \<Rightarrow> None | Some (_, d') \<Rightarrow> Some (False, d'))
      | DB_CLOSE \<Rightarrow> Some (True, db_close A d))"

datatype turn = Blocked | Turn bool "tid option"

text \<open>A request is performed and its thread posted; a thread that ends runs the destructor, which closes
  again.\<close>

definition db_serve :: "'c ado \<Rightarrow> wrap_db_oper \<Rightarrow> 'c dbfd \<Rightarrow> (turn \<times> 'c dbfd) option" where
  "db_serve A oper d =
     (case db_dispatch A oper d of
        None \<Rightarrow> None
      | Some (ends, d') \<Rightarrow> Some (Turn ends (Some (op_thread oper)), if ends then db_close A d' else d'))"

text \<open>One turn of the loop of \<^verbatim>\<open>db_server\<close>: \<open>Blocked\<close> while the event is not set, otherwise whether the loop
  ends and the thread posted to the run-time.  \<open>None\<close>: the process ends or the turn does not return.\<close>

definition db_turn :: "'c ado \<Rightarrow> 'c dbfd \<Rightarrow> (turn \<times> 'c dbfd) option" where
  "db_turn A d =
     (case msg_wait (db_msg_queue d) of
        (result, m) \<Rightarrow>
          if result \<noteq> WAIT_OBJECT_0 then Some (Blocked, d)
          else (case msg_dequeue (mq_queue m) of
                  None \<Rightarrow> None
                | Some (None, q) \<Rightarrow> Some (Turn False None, d\<lparr>db_msg_queue := m\<lparr>mq_queue := q\<rparr>\<rparr>)
                | Some (Some oper, q) \<Rightarrow>
                    db_serve A oper (d\<lparr>db_msg_queue := m\<lparr>mq_queue := q\<rparr>\<rparr>)))"

text \<open>The completion reaches the run-time.\<close>

definition db_post :: "turn \<Rightarrow> st_vp \<Rightarrow> st_vp" where
  "db_post r v = (case r of Turn _ (Some t) \<Rightarrow> post_completion t v | _ \<Rightarrow> v)"

section \<open>The client calls\<close>

text \<open>What the calls share: the request is queued and notified, then the thread waits.  \<open>mem\<close> is the
  memory for the node of the queue.\<close>

definition db_submit :: "ptr \<Rightarrow> wrap_db_oper \<Rightarrow> 'c dbfd \<Rightarrow> 'c dbfd option" where
  "db_submit mem oper d =
     (case msg_enqueue mem oper (mq_queue (db_msg_queue d)) of
        None \<Rightarrow> None
      | Some q \<Rightarrow>
          Some (d\<lparr>db_err_code := 0, db_msg_queue := msg_notify ((db_msg_queue d)\<lparr>mq_queue := q\<rparr>)\<rparr>))"

definition db_request ::
  "db_event \<Rightarrow> string \<Rightarrow> ptr \<Rightarrow> 'c dbfd \<Rightarrow> st_vp \<Rightarrow> (int outcome \<times> 'c dbfd) option" where
  "db_request ev s mem d v =
     (if 1024 \<le> length s then None
      else case db_submit mem \<lparr>op_thread = this_thread v, op_event = ev, op_buf = s\<rparr> d of
             None \<Rightarrow> None
           | Some d' \<Rightarrow> Some (st_wait (- 1) v, d'))"

text \<open>\<^verbatim>\<open>st_db_connect\<close> up to the wait, \<open>com\<close> being the zeroed object pointers; and after it: the handle is
  freed when there was an error.\<close>

definition st_db_connect ::
  "string \<Rightarrow> 'c \<Rightarrow> ptr \<Rightarrow> wrap_db_oper \<Rightarrow> ptr \<Rightarrow> st_vp \<Rightarrow> (int outcome \<times> 'c dbfd) option" where
  "st_db_connect connect_str com node zero mem v =
     db_request DB_OPEN [] mem
       \<lparr>db_com = com, db_connect_str = connect_str, db_fetch_result = [], db_err_code = 0,
        db_err_desc = [], db_msg_queue = msg_queue_new node zero\<rparr> v"

text \<open>The results go through \<^verbatim>\<open>strcpy_s\<close>, which ends the process when the buffer is too small.\<close>

definition copy_desc :: "nat \<Rightarrow> 'c dbfd \<Rightarrow> string option" where
  "copy_desc desc_len d = (if length (db_err_desc d) < desc_len then Some (db_err_desc d) else None)"

definition st_db_connect_result :: "nat \<Rightarrow> 'c dbfd \<Rightarrow> ('c dbfd option \<times> u32 \<times> string) option" where
  "st_db_connect_result desc_len d =
     (case copy_desc desc_len d of
        None \<Rightarrow> None
      | Some s \<Rightarrow> Some (if db_err_code d \<noteq> 0 then None else Some d, db_err_code d, s))"

definition st_db_query :: "string \<Rightarrow> ptr \<Rightarrow> 'c dbfd \<Rightarrow> st_vp \<Rightarrow> (int outcome \<times> 'c dbfd) option" where
  "st_db_query sql mem d v = db_request DB_QUERY sql mem d v"

definition st_db_query_result :: "nat \<Rightarrow> 'c dbfd \<Rightarrow> (u32 \<times> string) option" where
  "st_db_query_result desc_len d =
     (case copy_desc desc_len d of None \<Rightarrow> None | Some s \<Rightarrow> Some (db_err_code d, s))"

definition st_db_fetch :: "string \<Rightarrow> ptr \<Rightarrow> 'c dbfd \<Rightarrow> st_vp \<Rightarrow> (int outcome \<times> 'c dbfd) option" where
  "st_db_fetch item mem d v = db_request DB_FETCH item mem d v"

definition st_db_fetch_result ::
  "nat \<Rightarrow> string list \<Rightarrow> 'c dbfd \<Rightarrow> (u32 \<times> string \<times> string list \<times> 'c dbfd) option" where
  "st_db_fetch_result desc_len result d =
     (let result' = result @ db_fetch_result d; d' = d\<lparr>db_fetch_result := []\<rparr> in
      case copy_desc desc_len d' of
        None \<Rightarrow> None | Some s \<Rightarrow> Some (db_err_code d', s, result', d'))"

definition st_db_exec :: "string \<Rightarrow> ptr \<Rightarrow> 'c dbfd \<Rightarrow> st_vp \<Rightarrow> (int outcome \<times> 'c dbfd) option" where
  "st_db_exec sql mem d v = db_request DB_EXEC sql mem d v"

definition st_db_exec_result :: "nat \<Rightarrow> 'c dbfd \<Rightarrow> (u32 \<times> string) option" where
  "st_db_exec_result desc_len d =
     (case copy_desc desc_len d of None \<Rightarrow> None | Some s \<Rightarrow> Some (db_err_code d, s))"

definition st_db_close :: "ptr \<Rightarrow> 'c dbfd \<Rightarrow> st_vp \<Rightarrow> (int outcome \<times> 'c dbfd) option" where
  "st_db_close mem d v = db_request DB_CLOSE [] mem d v"

section \<open>Requests and turns\<close>

lemma db_submit_contents:
  assumes "queue_contents (mq_queue (db_msg_queue d)) xs"
    and "queue_fresh mem (mq_queue (db_msg_queue d))"
  shows "\<exists>q. db_submit mem oper d =
      Some (d\<lparr>db_err_code := 0, db_msg_queue := \<lparr>mq_queue = q, mq_event = True\<rparr>\<rparr>) \<and>
    queue_contents q (xs @ [oper]) \<and>
    (\<forall>m. mem \<noteq> m \<longrightarrow> queue_fresh m (mq_queue (db_msg_queue d)) \<longrightarrow> queue_fresh m q)"
proof -
  obtain q where "msg_enqueue mem oper (mq_queue (db_msg_queue d)) = Some q"
    "queue_contents q (xs @ [oper])"
    "\<forall>m. mem \<noteq> m \<longrightarrow> queue_fresh m (mq_queue (db_msg_queue d)) \<longrightarrow> queue_fresh m q"
    using msgq.enq_law [OF assms] by blast
  then show ?thesis by (cases "db_msg_queue d") (auto simp: db_submit_def msg_notify_def)
qed

text \<open>A turn with the event set takes the first request, and turns the event off.\<close>

lemma db_turn_served:
  assumes "queue_contents (mq_queue (db_msg_queue d)) (oper # xs)" and "mq_event (db_msg_queue d)"
  shows "\<exists>q. queue_contents q xs \<and>
    (\<forall>A. db_turn A d = db_serve A oper (d\<lparr>db_msg_queue := \<lparr>mq_queue = q, mq_event = False\<rparr>\<rparr>))"
proof -
  obtain r where r: "db_msg_queue d = \<lparr>mq_queue = r, mq_event = True\<rparr>"
    using assms(2) by (cases "db_msg_queue d") auto
  obtain q where "msg_dequeue r = Some (Some oper, q)" "queue_contents q xs"
    using msgq.deq_law [of r oper xs] assms(1) r by auto
  then show ?thesis
    by (intro exI [of _ q]) (simp add: db_turn_def msg_wait_def r)
qed

text \<open>The database calls leave the message queue alone.\<close>

lemma handle_err_queue: "handle_err e d = Some d' \<Longrightarrow> db_msg_queue d' = db_msg_queue d"
  by (auto simp: handle_err_def split: if_splits)

lemma check_db_connect_queue: "check_db_connect A n d = Some d' \<Longrightarrow> db_msg_queue d' = db_msg_queue d"
  by (auto simp: check_db_connect_def split: if_splits prod.splits sum.splits dest: handle_err_queue)

lemma handle_and_check_queue:
  "handle_and_check A e d = Some (b, d') \<Longrightarrow> db_msg_queue d' = db_msg_queue d"
  by (auto simp: handle_and_check_def split: option.splits dest!: handle_err_queue check_db_connect_queue)

lemma db_close_queue: "db_msg_queue (db_close A d) = db_msg_queue d"
  by (simp add: db_close_def split: prod.split)

lemma db_open_queue: "db_open A d = Some (b, d') \<Longrightarrow> db_msg_queue d' = db_msg_queue d"
  by (auto simp: db_open_def split: prod.splits bool.splits sum.splits option.splits dest: handle_err_queue)

lemma db_query_queue: "db_query A s d = Some (b, d') \<Longrightarrow> db_msg_queue d' = db_msg_queue d"
  by (auto simp: db_query_def Let_def split: prod.splits sum.splits dest: handle_and_check_queue)

lemma db_exec_queue: "db_exec A s d = Some (b, d') \<Longrightarrow> db_msg_queue d' = db_msg_queue d"
  by (auto simp: db_exec_def Let_def split: prod.splits sum.splits dest: handle_and_check_queue)

lemma db_fetch_queue: "db_fetch A s d = Some (b, d') \<Longrightarrow> db_msg_queue d' = db_msg_queue d"
  by (auto simp: db_fetch_def Let_def split: prod.splits sum.splits bool.splits option.splits
      dest: handle_err_queue)

lemma db_turn_blocked: "\<not> mq_event (db_msg_queue d) \<Longrightarrow> db_turn A d = Some (Blocked, d)"
  by (simp add: db_turn_def msg_wait_def WAIT_OBJECT_0_def WAIT_TIMEOUT_def)

lemma db_dispatch_queue: "db_dispatch A oper d = Some (b, d') \<Longrightarrow> db_msg_queue d' = db_msg_queue d"
  by (auto simp: db_dispatch_def db_close_queue split: db_event.splits option.splits
      dest: db_open_queue db_query_queue db_fetch_queue db_exec_queue)

lemma db_serve_queue:
  assumes "db_serve A oper d = Some (t, d')"
  shows "db_msg_queue d' = db_msg_queue d \<and> (\<exists>ends. t = Turn ends (Some (op_thread oper)))"
  using assms
  by (auto simp: db_serve_def db_close_queue split: option.splits if_splits dest: db_dispatch_queue)

end
