(* ===== verification/DbProps.thy ===== *)
theory DbProps
  imports DbServer
begin

text \<open>
  Properties of the database thread and its clients.
\<close>

text \<open>A handle with no request under way.\<close>

definition quiescent :: "'c dbfd \<Rightarrow> bool" where
  "quiescent d = (queue_contents (mq_queue (db_msg_queue d)) [] \<and> \<not> mq_event (db_msg_queue d))"

lemma db_request_submit:
  "length s < 1024 \<Longrightarrow> db_submit mem \<lparr>op_thread = this_thread v, op_event = ev, op_buf = s\<rparr> d = Some d' \<Longrightarrow>
   db_request ev s mem d v = Some (st_wait (- 1) v, d')"
  by (simp add: db_request_def)

text \<open>C15: A request on a quiescent handle: the calling thread goes to wait, the next turn of the database
  thread performs exactly this request, with the error code cleared, and posts exactly the calling
  thread, and the handle is quiescent again.\<close>

theorem db_request_served:
  assumes "quiescent d" and "queue_fresh mem (mq_queue (db_msg_queue d))" and "length s < 1024"
  shows "\<exists>d1 d2. db_request ev s mem d v = Some (st_wait (- 1) v, d1) \<and>
    quiescent d2 \<and> db_err_code d2 = 0 \<and> db_com d2 = db_com d \<and>
    (\<forall>A. db_turn A d1 = db_serve A \<lparr>op_thread = this_thread v, op_event = ev, op_buf = s\<rparr> d2) \<and>
    (\<forall>A r d3 w. db_turn A d1 = Some (r, d3) \<longrightarrow>
       quiescent d3 \<and> compl (db_post r w) = compl w @ [this_thread v])"
proof -
  define oper where "oper = \<lparr>op_thread = this_thread v, op_event = ev, op_buf = s\<rparr>"
  have "queue_contents (mq_queue (db_msg_queue d)) []" using assms(1) by (simp add: quiescent_def)
  then obtain q where q: "db_submit mem oper d =
      Some (d\<lparr>db_err_code := 0, db_msg_queue := \<lparr>mq_queue = q, mq_event = True\<rparr>\<rparr>)"
    "queue_contents q [oper]"
    using db_submit_contents [OF _ assms(2), of "[]" oper] by auto
  define d1 where "d1 = d\<lparr>db_err_code := 0, db_msg_queue := \<lparr>mq_queue = q, mq_event = True\<rparr>\<rparr>"
  have m1: "queue_contents (mq_queue (db_msg_queue d1)) [oper]" "mq_event (db_msg_queue d1)"
    using q(2) by (simp_all add: d1_def)
  obtain r where r: "queue_contents r []"
    "\<And>A. db_turn A d1 = db_serve A oper (d1\<lparr>db_msg_queue := \<lparr>mq_queue = r, mq_event = False\<rparr>\<rparr>)"
    using db_turn_served [OF m1] by blast
  define d2 where "d2 = d1\<lparr>db_msg_queue := \<lparr>mq_queue = r, mq_event = False\<rparr>\<rparr>"
  have q2: "quiescent d2" "db_err_code d2 = 0" "db_com d2 = db_com d"
    using r(1) by (simp_all add: quiescent_def d2_def d1_def)
  have post: "quiescent d3 \<and> compl (db_post t w) = compl w @ [this_thread v]"
    if t: "db_turn A d1 = Some (t, d3)" for A t d3 and w :: st_vp
    using db_serve_queue [of A oper d2 t d3] t q2(1)
    by (auto simp: r(2) d2_def [symmetric] quiescent_def db_post_def post_completion_def oper_def)
  have "db_request ev s mem d v = Some (st_wait (- 1) v, d1)"
    by (rule db_request_submit [OF assms(3)]) (use q(1) in \<open>simp add: oper_def d1_def\<close>)
  then show ?thesis
    using q2 r(2) [folded d2_def] post unfolding oper_def by blast
qed

text \<open>ADO objects that always succeed, and a new handle.\<close>

definition ado0 :: "unit ado" where
  "ado0 = \<lparr>create_connection = (\<lambda>c. (True, c)), create_recordset = (\<lambda>c. (True, c)), conn_release = (\<lambda>c. c),
     conn_put_timeouts = (\<lambda>c. (Inr (), c)), conn_open = (\<lambda>s c. (Inr (), c)),
     conn_is_closed = (\<lambda>c. (Inr False, c)), conn_close = (\<lambda>c. (Inr (), c)),
     conn_execute = (\<lambda>s c. (Inr (), c)), conn_container = (\<lambda>c. (True, c)), conn_point = (\<lambda>c. (True, c)),
     rst_is_closed = (\<lambda>c. (Inr False, c)), rst_is_open = (\<lambda>c. (Inr True, c)),
     rst_open = (\<lambda>s c. (Inr (), c)), rst_close = (\<lambda>c. (Inr (), c)), rst_move_first = (\<lambda>c. (Inr (), c)),
     rst_move_next = (\<lambda>c. (Inr (), c)), rst_end_of_file = (\<lambda>c. (Inr True, c)),
     rst_item = (\<lambda>s c. (Inr [], c)), rst_container = (\<lambda>c. (True, c)), rst_point = (\<lambda>c. (True, c)),
     co_uninitialize = (\<lambda>c. c)\<rparr>"

definition oper0 :: "tid \<Rightarrow> wrap_db_oper" where
  "oper0 t = \<lparr>op_thread = t, op_event = DB_EXEC, op_buf = ''x''\<rparr>"

definition handle0 :: "unit dbfd" where
  "handle0 = \<lparr>db_com = (), db_connect_str = [], db_fetch_result = [], db_err_code = 5,
     db_err_desc = [], db_msg_queue = msg_queue_new 1 (oper0 0)\<rparr>"

lemma handle0_facts:
  "quiescent handle0" "queue_contents (mq_queue (db_msg_queue handle0)) []"
  "m \<notin> {0, 1} \<Longrightarrow> queue_fresh m (mq_queue (db_msg_queue handle0))"
proof -
  show c: "queue_contents (mq_queue (db_msg_queue handle0)) []"
    using open_contents [of 1] by (simp add: handle0_def msg_queue_new_def)
  then show "quiescent handle0" by (simp add: quiescent_def handle0_def msg_queue_new_def)
  have "queue_rep (lock_free_queue_open 1 (oper0 0)) []"
    by (simp add: queue_rep_def lock_free_queue_open_def null_pointer_def)
  moreover have "p_ptr (q_head (lock_free_queue_open 1 (oper0 0))) = 1"
    by (simp add: lock_free_queue_open_def)
  ultimately show "m \<notin> {0, 1} \<Longrightarrow> queue_fresh m (mq_queue (db_msg_queue handle0))"
    by (simp only: queue_fresh_iff handle0_def msg_queue_new_def msg_queue.select_convs dbfd.select_convs) simp
qed

theorem db_request_served_witness:
  "\<forall>v. \<exists>d1 d3. db_request DB_EXEC ''x'' 2 handle0 v = Some (st_wait (- 1) v, d1) \<and>
     db_turn ado0 d1 = Some (Turn False (Some (this_thread v)), d3) \<and> quiescent d3"
proof
  fix v
  have "queue_fresh 2 (mq_queue (db_msg_queue handle0))" by (rule handle0_facts(3)) simp
  then obtain d1 d2 where r: "db_request DB_EXEC ''x'' 2 handle0 v = Some (st_wait (- 1) v, d1)"
    "\<And>A. db_turn A d1 = db_serve A \<lparr>op_thread = this_thread v, op_event = DB_EXEC, op_buf = ''x''\<rparr> d2"
    "\<And>A r d3. db_turn A d1 = Some (r, d3) \<Longrightarrow> quiescent d3"
    using db_request_served [of handle0 2 "''x''" DB_EXEC v] handle0_facts(1)
    by (simp only: list.size) auto
  have "db_turn ado0 d1 = Some (Turn False (Some (this_thread v)), d2\<lparr>db_err_code := 0, db_com := ()\<rparr>)"
    unfolding r(2) by (simp add: db_serve_def db_dispatch_def db_exec_def ado0_def)
  then show "\<exists>d1 d3. db_request DB_EXEC ''x'' 2 handle0 v = Some (st_wait (- 1) v, d1) \<and>
     db_turn ado0 d1 = Some (Turn False (Some (this_thread v)), d3) \<and> quiescent d3"
    using r(1,3) by blast
qed

text \<open>Two clients that put their requests on the queue before the database thread runs: one turn
  serves the first, turns the event off and leaves the second request in the queue, and the database
  thread blocks until another client notifies it.\<close>

theorem db_second_request_lost:
  assumes "quiescent d" and "m1 \<noteq> m2" and "queue_fresh m1 (mq_queue (db_msg_queue d))"
    and "queue_fresh m2 (mq_queue (db_msg_queue d))"
    and "db_submit m1 o1 d = Some d1" and "db_submit m2 o2 d1 = Some d2"
    and "db_turn A d2 = Some (Turn False r, d3)"
  shows "r = Some (op_thread o1) \<and> queue_contents (mq_queue (db_msg_queue d3)) [o2] \<and>
    (\<forall>B. db_turn B d3 = Some (Blocked, d3))"
proof -
  have "queue_contents (mq_queue (db_msg_queue d)) []" using assms(1) by (simp add: quiescent_def)
  then obtain q1 where q1: "db_msg_queue d1 = \<lparr>mq_queue = q1, mq_event = True\<rparr>" "queue_contents q1 [o1]"
    "queue_fresh m2 q1"
    using db_submit_contents [OF _ assms(3), of "[]" o1] assms(2,4,5) by auto
  then obtain q2 where q2: "db_msg_queue d2 = \<lparr>mq_queue = q2, mq_event = True\<rparr>" "queue_contents q2 [o1, o2]"
    using db_submit_contents [of d1 "[o1]" m2 o2] assms(6) by auto
  obtain q where q: "queue_contents q [o2]"
    "db_turn A d2 = db_serve A o1 (d2\<lparr>db_msg_queue := \<lparr>mq_queue = q, mq_event = False\<rparr>\<rparr>)"
    using db_turn_served [of d2 o1 "[o2]"] q2 by auto
  have "db_msg_queue d3 = \<lparr>mq_queue = q, mq_event = False\<rparr>" "r = Some (op_thread o1)"
    using db_serve_queue [OF assms(7) [unfolded q(2)]] by auto
  then show ?thesis using q(1) by (simp add: db_turn_blocked)
qed

theorem db_second_request_lost_witness:
  "\<exists>d1 d2 d3. db_submit 2 (oper0 7) handle0 = Some d1 \<and> db_submit 3 (oper0 8) d1 = Some d2 \<and>
     db_turn ado0 d2 = Some (Turn False (Some 7), d3) \<and> db_turn ado0 d3 = Some (Blocked, d3)"
proof -
  have f: "queue_fresh 2 (mq_queue (db_msg_queue handle0))" "queue_fresh 3 (mq_queue (db_msg_queue handle0))"
    by (rule handle0_facts(3), simp)+
  obtain q1 where q1: "db_submit 2 (oper0 7) handle0 =
      Some (handle0\<lparr>db_err_code := 0, db_msg_queue := \<lparr>mq_queue = q1, mq_event = True\<rparr>\<rparr>)"
    "queue_contents q1 [oper0 7]" "queue_fresh 3 q1"
    using db_submit_contents [OF handle0_facts(2) f(1), of "oper0 7"] f(2) by auto
  define d1 where "d1 = handle0\<lparr>db_err_code := 0, db_msg_queue := \<lparr>mq_queue = q1, mq_event = True\<rparr>\<rparr>"
  obtain q2 where q2: "db_submit 3 (oper0 8) d1 =
      Some (d1\<lparr>db_err_code := 0, db_msg_queue := \<lparr>mq_queue = q2, mq_event = True\<rparr>\<rparr>)"
    "queue_contents q2 [oper0 7, oper0 8]"
    using db_submit_contents [of d1 "[oper0 7]" 3 "oper0 8"] q1 by (auto simp: d1_def)
  define d2 where "d2 = d1\<lparr>db_err_code := 0, db_msg_queue := \<lparr>mq_queue = q2, mq_event = True\<rparr>\<rparr>"
  have "\<exists>d3. db_turn ado0 d2 = Some (Turn False (Some 7), d3)"
    using db_turn_served [of d2 "oper0 7" "[oper0 8]"] q2(2)
    by (auto simp: d2_def db_serve_def db_dispatch_def db_exec_def ado0_def oper0_def)
  then obtain d3 where d3: "db_turn ado0 d2 = Some (Turn False (Some 7), d3)" by blast
  have "db_turn ado0 d3 = Some (Blocked, d3)"
    using db_second_request_lost [OF handle0_facts(1) _ f _ _ d3] q1(1) q2(1)
    by (simp add: d1_def d2_def)
  then show ?thesis using q1(1) q2(1) d3 unfolding d1_def d2_def by blast
qed

text \<open>When the connection object cannot be created, the database thread ends with the error code 0:
  the client is given a handle and success, no turn will serve its requests.\<close>

theorem db_connect_failure_hidden:
  assumes "queue_contents (mq_queue (db_msg_queue d)) [\<lparr>op_thread = t, op_event = DB_OPEN, op_buf = []\<rparr>]"
    and "mq_event (db_msg_queue d)" and "\<not> fst (create_connection A (db_com d))"
    and "length (db_err_desc d) < n"
  shows "\<exists>d'. db_turn A d = Some (Turn True (Some t), d') \<and>
    st_db_connect_result n d' = Some (Some d', 0, db_err_desc d)"
proof -
  obtain c where c: "create_connection A (db_com d) = (False, c)"
    using assms(3) by (cases "create_connection A (db_com d)") auto
  have e: "db_err_code (db_close A x) = db_err_code x" "db_err_desc (db_close A x) = db_err_desc x" for x
    by (simp_all add: db_close_def split: prod.split)
  obtain q where "db_turn A d = db_serve A \<lparr>op_thread = t, op_event = DB_OPEN, op_buf = []\<rparr>
      (d\<lparr>db_msg_queue := \<lparr>mq_queue = q, mq_event = False\<rparr>\<rparr>)"
    using db_turn_served [OF assms(1,2)] by blast
  then show ?thesis
    using assms(4) by (simp add: db_serve_def db_dispatch_def db_open_def c st_db_connect_result_def copy_desc_def e)
qed

definition ado_fails :: "unit ado" where
  "ado_fails = ado0\<lparr>create_connection := (\<lambda>c. (False, c))\<rparr>"

theorem db_connect_failure_hidden_witness:
  "\<exists>d d'. db_submit 2 \<lparr>op_thread = 7, op_event = DB_OPEN, op_buf = []\<rparr> handle0 = Some d \<and>
     db_turn ado_fails d = Some (Turn True (Some 7), d') \<and>
     st_db_connect_result 128 d' = Some (Some d', 0, [])"
proof -
  obtain q where q: "db_submit 2 \<lparr>op_thread = 7, op_event = DB_OPEN, op_buf = []\<rparr> handle0 =
      Some (handle0\<lparr>db_err_code := 0, db_msg_queue := \<lparr>mq_queue = q, mq_event = True\<rparr>\<rparr>)"
    "queue_contents q [\<lparr>op_thread = 7, op_event = DB_OPEN, op_buf = []\<rparr>]"
    using db_submit_contents [OF handle0_facts(2), of 2] handle0_facts(3) [of 2] by auto
  define d where "d = handle0\<lparr>db_err_code := 0, db_msg_queue := \<lparr>mq_queue = q, mq_event = True\<rparr>\<rparr>"
  have "\<exists>d'. db_turn ado_fails d = Some (Turn True (Some 7), d') \<and>
     st_db_connect_result 128 d' = Some (Some d', 0, db_err_desc d)"
    by (rule db_connect_failure_hidden) (use q(2) in \<open>simp_all add: d_def ado_fails_def handle0_def\<close>)
  then show ?thesis using q(1) by (simp add: d_def handle0_def)
qed

end
