(* ===== verification/Proto.thy ===== *)
theory Proto
  imports Sync
begin

unbundle bit_operations_syntax

text \<open>
  The protocol of the video server (\<^verbatim>\<open>server/proto.hpp\<close>): command words, the message header and its byte
  order, reference counts of messages and servers, and the socket wrapper.
\<close>

section \<open>Byte order\<close>

definition mcr_ntoh_32 :: "u32 \<Rightarrow> u32" where
  "mcr_ntoh_32 v =
     push_bit 24 (v AND 0xFF) OR push_bit 8 (v AND 0xFF00) OR drop_bit 8 (v AND 0xFF0000) OR
     drop_bit 24 (v AND 0xFF000000)"

definition mcr_ntoh_16 :: "u32 \<Rightarrow> u32" where
  "mcr_ntoh_16 v = push_bit 8 (v AND 0xFF) OR drop_bit 8 (v AND 0xFF00)"

section \<open>Command words\<close>

definition command_id :: "u32 \<Rightarrow> u32" where
  "command_id c = c AND 0xFFFF"

definition command_ext :: "u32 \<Rightarrow> u32" where
  "command_ext c = drop_bit 16 (c AND 0x00FF0000)"

definition command_dir :: "u32 \<Rightarrow> u32" where
  "command_dir c = c AND 0xFF000000"

definition command_dir_request :: u32 where "command_dir_request = 0"
definition command_dir_response :: u32 where "command_dir_response = 0x80000000"

definition make_request_command :: "u32 \<Rightarrow> u32" where
  "make_request_command v = v OR command_dir_request"

definition make_response_command :: "u32 \<Rightarrow> u32" where
  "make_response_command v = v OR command_dir_response"

definition make_request_command_ext :: "u32 \<Rightarrow> u32 \<Rightarrow> u32" where
  "make_request_command_ext v e = v OR push_bit 16 e OR command_dir_request"

definition make_response_command_ext :: "u32 \<Rightarrow> u32 \<Rightarrow> u32" where
  "make_response_command_ext v e = v OR push_bit 16 e OR command_dir_response"

definition command_matched :: "u32 \<Rightarrow> u32 \<Rightarrow> bool" where
  "command_matched c1 c2 = (command_id c1 = command_id c2)"

text \<open>The command numbers.\<close>

named_theorems hmcmd_defs

definition hmcmdex_stop_command :: u32 where [hmcmd_defs]: "hmcmdex_stop_command = 0"
definition hmcmd_open_video :: u32 where [hmcmd_defs]: "hmcmd_open_video = 0x101"
definition hmcmd_recv_video :: u32 where [hmcmd_defs]: "hmcmd_recv_video = 0x102"
definition hmcmd_close_video :: u32 where [hmcmd_defs]: "hmcmd_close_video = 0x103"
definition hmcmd_force_iframe :: u32 where [hmcmd_defs]: "hmcmd_force_iframe = 0x104"
definition hmcmd_open_nvs_replay :: u32 where [hmcmd_defs]: "hmcmd_open_nvs_replay = 0x1F1"
definition hmcmd_recv_nvs_replay :: u32 where [hmcmd_defs]: "hmcmd_recv_nvs_replay = 0x1F2"
definition hmcmd_close_nvs_replay :: u32 where [hmcmd_defs]: "hmcmd_close_nvs_replay = 0x1F3"
definition hmcmd_open_audio :: u32 where [hmcmd_defs]: "hmcmd_open_audio = 0x201"
definition hmcmd_recv_audio :: u32 where [hmcmd_defs]: "hmcmd_recv_audio = 0x202"
definition hmcmd_close_audio :: u32 where [hmcmd_defs]: "hmcmd_close_audio = 0x203"
definition hmcmd_open_talk :: u32 where [hmcmd_defs]: "hmcmd_open_talk = 0x301"
definition hmcmd_send_talk :: u32 where [hmcmd_defs]: "hmcmd_send_talk = 0x302"
definition hmcmd_close_talk :: u32 where [hmcmd_defs]: "hmcmd_close_talk = 0x303"
definition hmcmd_open_alarm :: u32 where [hmcmd_defs]: "hmcmd_open_alarm = 0x1213"
definition hmcmd_recv_alarm :: u32 where [hmcmd_defs]: "hmcmd_recv_alarm = 0x60C"
definition hmcmd_close_alarm :: u32 where [hmcmd_defs]: "hmcmd_close_alarm = 0x1214"
definition hmcmd_set_alarm :: u32 where [hmcmd_defs]: "hmcmd_set_alarm = 0x1201"
definition hmcmd_reset_alarm :: u32 where [hmcmd_defs]: "hmcmd_reset_alarm = 0x1202"
definition hmcmd_add_area :: u32 where [hmcmd_defs]: "hmcmd_add_area = 0x1204"
definition hmcmd_del_area :: u32 where [hmcmd_defs]: "hmcmd_del_area = 0x1205"
definition hmcmd_change_area :: u32 where [hmcmd_defs]: "hmcmd_change_area = 0x1206"
definition hmcmd_add_sensor :: u32 where [hmcmd_defs]: "hmcmd_add_sensor = 0x1207"
definition hmcmd_del_sensor :: u32 where [hmcmd_defs]: "hmcmd_del_sensor = 0x1208"
definition hmcmd_change_sensor :: u32 where [hmcmd_defs]: "hmcmd_change_sensor = 0x1209"
definition hmcmd_enter_learning :: u32 where [hmcmd_defs]: "hmcmd_enter_learning = 0x1210"
definition hmcmd_exit_learning :: u32 where [hmcmd_defs]: "hmcmd_exit_learning = 0x1211"
definition hmcmd_get_paried_sensor :: u32 where [hmcmd_defs]: "hmcmd_get_paried_sensor = 0x1212"
definition hmcmd_remote_open_record :: u32 where [hmcmd_defs]: "hmcmd_remote_open_record = 0x900"
definition hmcmd_remote_close_record :: u32 where [hmcmd_defs]: "hmcmd_remote_close_record = 0x901"
definition hmcmd_record_query :: u32 where [hmcmd_defs]: "hmcmd_record_query = 0x701"
definition hmcmd_record_delete :: u32 where [hmcmd_defs]: "hmcmd_record_delete = 0x706"
definition hmcmd_open_replay :: u32 where [hmcmd_defs]: "hmcmd_open_replay = 0x702"
definition hmcmd_recv_replay :: u32 where [hmcmd_defs]: "hmcmd_recv_replay = 0x703"
definition hmcmd_eof_replay :: u32 where [hmcmd_defs]: "hmcmd_eof_replay = 0x704"
definition hmcmd_close_replay :: u32 where [hmcmd_defs]: "hmcmd_close_replay = 0x705"
definition hmcmd_pause_replay :: u32 where [hmcmd_defs]: "hmcmd_pause_replay = 0x707"
definition hmcmd_resume_replay :: u32 where [hmcmd_defs]: "hmcmd_resume_replay = 0x708"
definition hmcmd_step_replay :: u32 where [hmcmd_defs]: "hmcmd_step_replay = 0x709"
definition hmcmd_rate_replay :: u32 where [hmcmd_defs]: "hmcmd_rate_replay = 0x710"
definition hmcmd_open_replay_download :: u32 where [hmcmd_defs]: "hmcmd_open_replay_download = 0x1001"
definition hmcmd_recv_replay_download :: u32 where [hmcmd_defs]: "hmcmd_recv_replay_download = 0x1002"
definition hmcmd_close_replay_download :: u32 where [hmcmd_defs]: "hmcmd_close_replay_download = 0x1003"
definition hmcmd_capture_image :: u32 where [hmcmd_defs]: "hmcmd_capture_image = 0x801"
definition hmcmd_query_image :: u32 where [hmcmd_defs]: "hmcmd_query_image = 0x802"
definition hmcmd_delete_image :: u32 where [hmcmd_defs]: "hmcmd_delete_image = 0x806"
definition hmcmd_open_image_download :: u32 where [hmcmd_defs]: "hmcmd_open_image_download = 0x803"
definition hmcmd_recv_image_download :: u32 where [hmcmd_defs]: "hmcmd_recv_image_download = 0x804"
definition hmcmd_close_image_download :: u32 where [hmcmd_defs]: "hmcmd_close_image_download = 0x805"
definition hmcmd_authencate :: u32 where [hmcmd_defs]: "hmcmd_authencate = 0x60D"
definition hmcmd_online_authencate :: u32 where [hmcmd_defs]: "hmcmd_online_authencate = 0x611"
definition hmcmd_rev_authencate :: u32 where [hmcmd_defs]: "hmcmd_rev_authencate = 0x60A"
definition hmcmd_heartbeat :: u32 where [hmcmd_defs]: "hmcmd_heartbeat = 0xA01"
definition hmcmd_population_flow :: u32 where [hmcmd_defs]: "hmcmd_population_flow = 0x60B"
definition hmcmd_restart_device :: u32 where [hmcmd_defs]: "hmcmd_restart_device = 0x60E"
definition hmcmd_close_connection :: u32 where [hmcmd_defs]: "hmcmd_close_connection = 0x60F"
definition hmcmd_sync_time :: u32 where [hmcmd_defs]: "hmcmd_sync_time = 0x610"
definition hmcmd_connection_inner_auth :: u32 where [hmcmd_defs]: "hmcmd_connection_inner_auth = 0x611"
definition hmcmd_nvs_redirect :: u32 where [hmcmd_defs]: "hmcmd_nvs_redirect = 0x612"
definition hmcmd_ptz_ctrl :: u32 where [hmcmd_defs]: "hmcmd_ptz_ctrl = 0x401"
definition hmcmd_set_param :: u32 where [hmcmd_defs]: "hmcmd_set_param = 0x501"
definition hmcmd_get_param :: u32 where [hmcmd_defs]: "hmcmd_get_param = 0x502"
definition hmcmd_set_config :: u32 where [hmcmd_defs]: "hmcmd_set_config = 0x503"
definition hmcmd_get_config :: u32 where [hmcmd_defs]: "hmcmd_get_config = 0x504"
definition hmcmd_reset_device :: u32 where [hmcmd_defs]: "hmcmd_reset_device = 0xB01"
definition hmcmd_states_change_open :: u32 where [hmcmd_defs]: "hmcmd_states_change_open = 0x505"
definition hmcmd_states_change_report :: u32 where [hmcmd_defs]: "hmcmd_states_change_report = 0x506"
definition hmcmd_defence_enable :: u32 where [hmcmd_defs]: "hmcmd_defence_enable = 0x1201"
definition hmcmd_defence_disable :: u32 where [hmcmd_defs]: "hmcmd_defence_disable = 0x1202"
definition hmcmd_defence_get_info :: u32 where [hmcmd_defs]: "hmcmd_defence_get_info = 0x1203"
definition hmcmd_get_sysinfo :: u32 where [hmcmd_defs]: "hmcmd_get_sysinfo = 0x1109"
definition hmcmd_restore_default :: u32 where [hmcmd_defs]: "hmcmd_restore_default = 0x1108"
definition hmcmd_open_update :: u32 where [hmcmd_defs]: "hmcmd_open_update = 0x1104"
definition hmcmd_update_data :: u32 where [hmcmd_defs]: "hmcmd_update_data = 0x1105"
definition hmcmd_close_update :: u32 where [hmcmd_defs]: "hmcmd_close_update = 0x1106"
definition hmcmd_update_result :: u32 where [hmcmd_defs]: "hmcmd_update_result = 0x1107"
definition hmcmd_sd_format :: u32 where [hmcmd_defs]: "hmcmd_sd_format = 0x1103"
definition hmcmd_upnp_test :: u32 where [hmcmd_defs]: "hmcmd_upnp_test = 0x1102"
definition hmcmd_query_wifi :: u32 where [hmcmd_defs]: "hmcmd_query_wifi = 0x1101"
definition hmcmd_device_lock :: u32 where [hmcmd_defs]: "hmcmd_device_lock = 0x1301"
definition hmcmd_privacy_protect :: u32 where [hmcmd_defs]: "hmcmd_privacy_protect = 0x1303"

text \<open>All command numbers of the header, in its order.\<close>

definition hm_commands :: "u32 list" where
  "hm_commands =
   [
    hmcmdex_stop_command, hmcmd_open_video, hmcmd_recv_video, hmcmd_close_video, hmcmd_force_iframe, 
    hmcmd_open_nvs_replay, hmcmd_recv_nvs_replay, hmcmd_close_nvs_replay, hmcmd_open_audio, 
    hmcmd_recv_audio, hmcmd_close_audio, hmcmd_open_talk, hmcmd_send_talk, hmcmd_close_talk, 
    hmcmd_open_alarm, hmcmd_recv_alarm, hmcmd_close_alarm, hmcmd_set_alarm, hmcmd_reset_alarm, 
    hmcmd_add_area, hmcmd_del_area, hmcmd_change_area, hmcmd_add_sensor, hmcmd_del_sensor, 
    hmcmd_change_sensor, hmcmd_enter_learning, hmcmd_exit_learning, hmcmd_get_paried_sensor, 
    hmcmd_remote_open_record, hmcmd_remote_close_record, hmcmd_record_query, hmcmd_record_delete, 
    hmcmd_open_replay, hmcmd_recv_replay, hmcmd_eof_replay, hmcmd_close_replay, hmcmd_pause_replay, 
    hmcmd_resume_replay, hmcmd_step_replay, hmcmd_rate_replay, hmcmd_open_replay_download, 
    hmcmd_recv_replay_download, hmcmd_close_replay_download, hmcmd_capture_image, hmcmd_query_image, 
    hmcmd_delete_image, hmcmd_open_image_download, hmcmd_recv_image_download, 
    hmcmd_close_image_download, hmcmd_authencate, hmcmd_online_authencate, hmcmd_rev_authencate, 
    hmcmd_heartbeat, hmcmd_population_flow, hmcmd_restart_device, hmcmd_close_connection, 
    hmcmd_sync_time, hmcmd_connection_inner_auth, hmcmd_nvs_redirect, hmcmd_ptz_ctrl, 
    hmcmd_set_param, hmcmd_get_param, hmcmd_set_config, hmcmd_get_config, hmcmd_reset_device, 
    hmcmd_states_change_open, hmcmd_states_change_report, hmcmd_defence_enable, 
    hmcmd_defence_disable, hmcmd_defence_get_info, hmcmd_get_sysinfo, hmcmd_restore_default, 
    hmcmd_open_update, hmcmd_update_data, hmcmd_close_update, hmcmd_update_result, hmcmd_sd_format, 
    hmcmd_upnp_test, hmcmd_query_wifi, hmcmd_device_lock, hmcmd_privacy_protect]"

definition MAX_FRAME_BUF :: nat where "MAX_FRAME_BUF = 40000"

section \<open>The message header\<close>

record net_port_header =
  h_cmdno :: u32
  h_bodylen :: u32
  h_errcode :: u32
  h_serialid :: u32

definition transfer_in :: "net_port_header \<Rightarrow> net_port_header" where
  "transfer_in h =
     \<lparr>h_cmdno = mcr_ntoh_32 (h_cmdno h), h_bodylen = mcr_ntoh_32 (h_bodylen h),
      h_errcode = mcr_ntoh_32 (h_errcode h), h_serialid = mcr_ntoh_32 (h_serialid h)\<rparr>"

definition transfer_out :: "net_port_header \<Rightarrow> net_port_header" where
  "transfer_out h = transfer_in h"

text \<open>\<^verbatim>\<open>standard_protocol_t\<close>: the conversions do nothing, and replies are matched by the serial number.\<close>

definition std_transfer_in :: "net_port_header \<Rightarrow> net_port_header" where
  "std_transfer_in h = h"

definition std_transfer_out :: "net_port_header \<Rightarrow> net_port_header" where
  "std_transfer_out h = h"

definition header_size :: nat where "header_size = 16"

definition is_request_command :: "u32 \<Rightarrow> bool" where
  "is_request_command c = (c AND 0x80000000 \<noteq> 0)"

definition is_longlive_command :: "u32 \<Rightarrow> bool" where
  "is_longlive_command c = (c AND 0x40000000 \<noteq> 0)"

definition match_command :: "u32 \<Rightarrow> u32 \<Rightarrow> u32 \<Rightarrow> u32 \<Rightarrow> bool" where
  "match_command serial cmd sserial scmd = (serial = sserial)"

definition is_bad_header :: "net_port_header \<Rightarrow> bool" where
  "is_bad_header h = False"

text \<open>The bytes of the structure in memory: the processor stores the low byte of a word first.\<close>

definition word_bytes :: "u32 \<Rightarrow> 8 word list" where
  "word_bytes v = [ucast v, ucast (drop_bit 8 v), ucast (drop_bit 16 v), ucast (drop_bit 24 v)]"

definition bytes_word :: "8 word list \<Rightarrow> u32" where
  "bytes_word bs =
     ucast (bs ! 0) OR push_bit 8 (ucast (bs ! 1)) OR push_bit 16 (ucast (bs ! 2)) OR push_bit 24 (ucast (bs ! 3))"

definition header_bytes :: "net_port_header \<Rightarrow> 8 word list" where
  "header_bytes h =
     word_bytes (h_cmdno h) @ word_bytes (h_bodylen h) @ word_bytes (h_errcode h) @ word_bytes (h_serialid h)"

definition bytes_header :: "8 word list \<Rightarrow> net_port_header" where
  "bytes_header bs =
     \<lparr>h_cmdno = bytes_word (take 4 bs), h_bodylen = bytes_word (take 4 (drop 4 bs)),
      h_errcode = bytes_word (take 4 (drop 8 bs)), h_serialid = bytes_word (take 4 (drop 12 bs))\<rparr>"

lemma length_word_bytes [simp]: "length (word_bytes v) = 4"
  by (simp add: word_bytes_def)

lemma length_header_bytes [simp]: "length (header_bytes h) = 16"
  by (simp add: header_bytes_def)

text \<open>Bit by bit.\<close>

lemma bit_ntoh:
  "bit (mcr_ntoh_32 v) n =
    (if n < 8 then bit v (n + 24) else if n < 16 then bit v (n + 8)
     else if n < 24 then bit v (n - 8) else n < 32 \<and> bit v (n - 24))"
proof -
  have m: "bit (0xFF :: u32) k = (k < 8)" "bit (0xFF00 :: u32) k = (8 \<le> k \<and> k < 16)"
    "bit (0xFF0000 :: u32) k = (16 \<le> k \<and> k < 24)" "bit (0xFF000000 :: u32) k = (24 \<le> k \<and> k < 32)" for k
  proof -
    have e: "(0xFF :: u32) = mask 8" "(0xFF00 :: u32) = push_bit 8 (mask 8)"
      "(0xFF0000 :: u32) = push_bit 16 (mask 8)" "(0xFF000000 :: u32) = push_bit 24 (mask 8)"
      by (simp_all add: mask_eq_exp_minus_1 push_bit_eq_mult)
    show "bit (0xFF :: u32) k = (k < 8)" "bit (0xFF00 :: u32) k = (8 \<le> k \<and> k < 16)"
      "bit (0xFF0000 :: u32) k = (16 \<le> k \<and> k < 24)" "bit (0xFF000000 :: u32) k = (24 \<le> k \<and> k < 32)"
      unfolding e bit_mask_iff bit_push_bit_iff by (auto simp: possible_bit_def)
  qed
  have b: "bit v k \<Longrightarrow> k < 32" for k using bit_imp_le_length by fastforce
  show ?thesis
    unfolding mcr_ntoh_32_def bit_or_iff bit_push_bit_iff bit_drop_bit_eq comp_def bit_and_iff m
    using b by (auto simp: add.commute)
qed

lemma ntoh_ntoh: "mcr_ntoh_32 (mcr_ntoh_32 v) = v"
proof (rule bit_eqI)
  fix n
  assume "possible_bit TYPE(u32) n"
  then have "n < 32" by (simp add: possible_bit_def)
  then show "bit (mcr_ntoh_32 (mcr_ntoh_32 v)) n = bit v n" by (auto simp: bit_ntoh)
qed

lemma word_bytes_ntoh: "word_bytes (mcr_ntoh_32 v) = rev (word_bytes v)"
proof -
  have e: "(ucast (drop_bit i (mcr_ntoh_32 v)) :: 8 word) = ucast (drop_bit (24 - i) v)"
    if "i \<in> {0, 8, 16, 24}" for i
    by (rule bit_eqI) (use that in \<open>auto simp: bit_ucast_iff bit_drop_bit_eq bit_ntoh possible_bit_def add.commute\<close>)
  show ?thesis using e [of 0] e [of 8] e [of 16] e [of 24] by (simp add: word_bytes_def)
qed

lemma bytes_word_bytes: "bytes_word (word_bytes v) = v"
proof (rule bit_eqI)
  fix n
  assume "possible_bit TYPE(u32) n"
  then have "n < 32" by (simp add: possible_bit_def)
  then show "bit (bytes_word (word_bytes v)) n = bit v n"
    by (cases "n < 8"; cases "n < 16"; cases "n < 24")
      (auto simp: bytes_word_def word_bytes_def bit_or_iff bit_push_bit_iff bit_ucast_iff bit_drop_bit_eq)
qed

lemma bytes_header_bytes: "bytes_header (header_bytes h @ rest) = h"
  by (simp add: bytes_header_def header_bytes_def bytes_word_bytes)

lemma transfer_in_out: "transfer_in (transfer_out h) = h"
  by (simp add: transfer_in_def transfer_out_def ntoh_ntoh)

end
