(* ===== verification/ProtoProps.thy ===== *)
theory ProtoProps
  imports Proto
begin

text \<open>
  Properties of the message header and of the command words.
\<close>

text \<open>The header goes over the wire as four words in network byte order, sixteen bytes in all, and the
  receiver reads back the header that was sent, whatever follows it.\<close>

theorem header_roundtrip:
  "header_bytes (transfer_out h) =
     rev (word_bytes (h_cmdno h)) @ rev (word_bytes (h_bodylen h)) @ rev (word_bytes (h_errcode h)) @
     rev (word_bytes (h_serialid h)) \<and>
   length (header_bytes (transfer_out h)) = header_size \<and>
   transfer_in (bytes_header (header_bytes (transfer_out h) @ body)) = h"
proof -
  have "header_bytes (transfer_out h) =
     rev (word_bytes (h_cmdno h)) @ rev (word_bytes (h_bodylen h)) @ rev (word_bytes (h_errcode h)) @
     rev (word_bytes (h_serialid h))"
    by (simp add: transfer_out_def transfer_in_def header_bytes_def word_bytes_ntoh)
  then show ?thesis
    using bytes_header_bytes [of "transfer_out h" body] length_header_bytes [of "transfer_out h"]
    by (simp only: transfer_in_out header_size_def)
qed

text \<open>The parts of a command word, bit by bit.\<close>

lemma bit_lt:
  assumes "unat (v :: u32) < 2 ^ k" and "bit v n"
  shows "n < k"
proof -
  have "take_bit k (unat v) = unat v" using assms(1) by (rule take_bit_nat_eq_self)
  then have "take_bit k v = v" by (simp add: word_unat_eq_iff unsigned_take_bit_eq)
  then show ?thesis using assms(2) by (metis bit_take_bit_iff)
qed

lemma word_masks:
  "(0xFFFF :: u32) = mask 16" "(0x00FF0000 :: u32) = push_bit 16 (mask 8)"
  "(0xFF000000 :: u32) = push_bit 24 (mask 8)"
  by (simp_all add: mask_eq_exp_minus_1 push_bit_eq_mult)

lemmas command_defs = command_id_def command_ext_def command_dir_def command_dir_request_def
  command_dir_response_def make_request_command_def make_response_command_def
  make_request_command_ext_def make_response_command_ext_def command_matched_def word_masks

lemmas word_bits = bit_and_iff bit_or_iff bit_push_bit_iff bit_drop_bit_eq bit_mask_iff comp_def

text \<open>A command number and an extension that fit their fields come back from the command words, the
  direction is what the word was made for, and a response matches its request.\<close>

theorem command_fields:
  assumes "unat v < 2 ^ 16" and "unat e < 2 ^ 8"
  shows "command_id (make_response_command_ext v e) = v \<and> command_ext (make_response_command_ext v e) = e \<and>
    command_dir (make_response_command_ext v e) = command_dir_response \<and>
    command_id (make_request_command_ext v e) = v \<and> command_ext (make_request_command_ext v e) = e \<and>
    command_dir (make_request_command_ext v e) = command_dir_request \<and>
    command_matched (make_request_command v) (make_response_command v)"
proof -
  have v: "bit v n \<Longrightarrow> n < 16" and e: "bit e n \<Longrightarrow> n < 8" for n
    using bit_lt assms by blast+
  then have v': "16 \<le> n \<Longrightarrow> \<not> bit v n" and e': "8 \<le> n \<Longrightarrow> \<not> bit e n" for n
    by fastforce+
  have "(0x80000000 :: u32) = push_bit 31 1" by (simp add: push_bit_eq_mult)
  then have r: "bit (0x80000000 :: u32) n = (n = 31)" for n
    by (simp only: bit_push_bit_iff bit_1_iff) (auto simp: possible_bit_def)
  have "command_id (make_response_command_ext v e) = v"
    unfolding command_defs by (rule bit_eqI, unfold word_bits r) (use v v' e e' in \<open>fastforce simp: not_less\<close>)
  moreover have "command_ext (make_response_command_ext v e) = e"
    unfolding command_defs by (rule bit_eqI, unfold word_bits r) (use v v' e e' in \<open>fastforce simp: not_less\<close>)
  moreover have "command_dir (make_response_command_ext v e) = command_dir_response"
    unfolding command_defs by (rule bit_eqI, unfold word_bits r) (use v v' e e' in \<open>fastforce simp: not_less\<close>)
  moreover have "command_id (make_request_command_ext v e) = v"
    unfolding command_defs by (rule bit_eqI, unfold word_bits r) (use v v' e e' in \<open>fastforce simp: not_less\<close>)
  moreover have "command_ext (make_request_command_ext v e) = e"
    unfolding command_defs by (rule bit_eqI, unfold word_bits r) (use v v' e e' in \<open>fastforce simp: not_less\<close>)
  moreover have "command_dir (make_request_command_ext v e) = command_dir_request"
    unfolding command_defs by (rule bit_eqI, unfold word_bits r) (use v v' e e' in \<open>fastforce simp: not_less\<close>)
  moreover have "command_matched (make_request_command v) (make_response_command v)"
    unfolding command_defs by (rule bit_eqI, unfold word_bits r) (use v v' e e' in \<open>fastforce simp: not_less\<close>)
  ultimately show ?thesis by blast
qed

text \<open>Every command number of the header fits its field.\<close>

lemma hm_commands_fit: "c \<in> set hm_commands \<Longrightarrow> unat c < 2 ^ 16"
proof -
  have "list_all (\<lambda>c. unat c < 2 ^ 16) hm_commands" by (simp add: hm_commands_def hmcmd_defs)
  then show "c \<in> set hm_commands \<Longrightarrow> unat c < 2 ^ 16" by (simp add: list_all_iff)
qed

theorem command_fields_witness:
  "command_id (make_response_command_ext hmcmd_recv_video 5) = hmcmd_recv_video \<and>
   command_ext (make_response_command_ext hmcmd_recv_video 5) = 5"
  using command_fields [of hmcmd_recv_video 5] hm_commands_fit [of hmcmd_recv_video]
  by (simp add: hm_commands_def)

end
