(* ===== verification/Proxy.thy ===== *)
theory Proxy
  imports Proto "HOL-Library.Monad_Syntax"
begin

text \<open>
  The video server's objects (\<^verbatim>\<open>pu_proxy.cpp\<close>, \<^verbatim>\<open>cu_proxy.cpp\<close> and the reference counts of
  \<^verbatim>\<open>proto.hpp\<close>): a device (\<^verbatim>\<open>pu_proxy_t\<close>) sends frames that are forwarded to the clients
  (\<^verbatim>\<open>cu_proxy_t\<close>) watching it.  Messages, devices and clients are objects with a reference count in a
  store; an operation gives \<open>None\<close> where the code uses a deleted object or a null pointer, frees memory
  twice or fails an assertion.  Addresses of new objects are arguments.
\<close>

section \<open>Objects\<close>

record net_port_msg =
  m_hdr :: net_port_header
  m_body :: ptr
  m_cond :: cid
  m_ref :: u32

text \<open>Where the thread that runs \<^verbatim>\<open>handle_send\<close> is: not started, in \<^verbatim>\<open>wait\<close>, woken, in the loop over the
  messages it took (with the flag \<^verbatim>\<open>exit\<close>), in \<^verbatim>\<open>st_write\<close> for the first of them, ended.\<close>

datatype sender =
    SStart
  | SWaiting
  | SReady
  | SSending "ptr list" bool
  | SWriting "ptr list"
  | SEnded

text \<open>\<^verbatim>\<open>pu_proxy_t\<close> with its base \<^verbatim>\<open>server_base_t\<close> and its \<^verbatim>\<open>socket_fd_t\<close>.\<close>

record pu_proxy =
  pu_sn :: string
  pu_ref :: u32
  pu_queue :: "ptr list"
  pu_fd :: ptr
  pu_net :: bool
  pu_cus :: "ptr list"
  pu_video_cmd :: ptr
  pu_serial :: u32
  pu_sender :: sender

text \<open>\<^verbatim>\<open>cu_proxy_t\<close>; \<open>cu_wrap\<close> is the message of \<^verbatim>\<open>_video_msg_wrap\<close>.\<close>

record cu_proxy =
  cu_ref :: u32
  cu_queue :: "ptr list"
  cu_fd :: ptr
  cu_net :: bool
  cu_pu :: ptr
  cu_video_serial :: u32
  cu_wrap :: "ptr option"
  cu_sender :: sender

datatype task =
    PuRecv ptr
  | PuSend ptr
  | PuHeart ptr
  | PuOpenVideo ptr
  | CuRecv ptr
  | CuSend ptr
  | CuOpenVideo ptr ptr

record world =
  msgs :: "ptr \<Rightarrow> net_port_msg"
  live_msgs :: "ptr set"
  bodies :: "ptr \<Rightarrow> 8 word list"
  live_bodies :: "ptr set"
  pus :: "ptr \<Rightarrow> pu_proxy"
  live_pus :: "ptr set"
  cus :: "ptr \<Rightarrow> cu_proxy"
  live_cus :: "ptr set"
  pu_dev_count :: u32
  cu_dev_count :: u32
  device_map :: "string \<rightharpoonup> ptr"
  net_out :: "(ptr \<times> 8 word list) list"
  closed_fds :: "ptr list"
  started :: "task list"
  woken :: "cid list"

definition upd_msg :: "ptr \<Rightarrow> (net_port_msg \<Rightarrow> net_port_msg) \<Rightarrow> world \<Rightarrow> world" where
  "upd_msg m f w = w\<lparr>msgs := (msgs w)(m := f (msgs w m))\<rparr>"

definition upd_pu :: "ptr \<Rightarrow> (pu_proxy \<Rightarrow> pu_proxy) \<Rightarrow> world \<Rightarrow> world" where
  "upd_pu p f w = w\<lparr>pus := (pus w)(p := f (pus w p))\<rparr>"

definition upd_cu :: "ptr \<Rightarrow> (cu_proxy \<Rightarrow> cu_proxy) \<Rightarrow> world \<Rightarrow> world" where
  "upd_cu c f w = w\<lparr>cus := (cus w)(c := f (cus w c))\<rparr>"

text \<open>Access through a pointer, and \<^verbatim>\<open>assert\<close>.\<close>

definition guard :: "bool \<Rightarrow> unit option" where
  "guard b = (if b then Some () else None)"

definition run_task :: "task \<Rightarrow> world \<Rightarrow> world" where
  "run_task t w = w\<lparr>started := started w @ [t]\<rparr>"

section \<open>Messages\<close>

definition zero_header :: net_port_header where
  "zero_header = \<lparr>h_cmdno = 0, h_bodylen = 0, h_errcode = 0, h_serialid = 0\<rparr>"

definition net_port_msg_new :: "ptr \<Rightarrow> world \<Rightarrow> world" where
  "net_port_msg_new m w =
     w\<lparr>msgs := (msgs w)(m := \<lparr>m_hdr = zero_header, m_body = 0, m_cond = 0, m_ref = 1\<rparr>),
       live_msgs := insert m (live_msgs w)\<rparr>"

definition msg_add :: "ptr \<Rightarrow> world \<Rightarrow> world option" where
  "msg_add m w =
     do {
       guard (m \<in> live_msgs w);
       Some (upd_msg m (\<lambda>r. r\<lparr>m_ref := m_ref r + 1\<rparr>) w)
     }"

text \<open>\<^verbatim>\<open>malloc\<close> and \<^verbatim>\<open>free\<close> of message bodies; \<^verbatim>\<open>free\<close> of a null pointer does nothing.\<close>

definition alloc_body :: "ptr \<Rightarrow> 8 word list \<Rightarrow> world \<Rightarrow> world" where
  "alloc_body b xs w = w\<lparr>bodies := (bodies w)(b := xs), live_bodies := insert b (live_bodies w)\<rparr>"

definition free_body :: "ptr \<Rightarrow> world \<Rightarrow> world option" where
  "free_body b w =
     (if b = 0 then Some w
      else do { guard (b \<in> live_bodies w); Some (w\<lparr>live_bodies := live_bodies w - {b}\<rparr>) })"

definition net_port_msg_delete :: "ptr \<Rightarrow> world \<Rightarrow> world option" where
  "net_port_msg_delete m w =
     do {
       w1 \<leftarrow> free_body (m_body (msgs w m)) (upd_msg m (\<lambda>r. r\<lparr>m_cond := 0\<rparr>) w);
       Some ((upd_msg m (\<lambda>r. r\<lparr>m_body := 0\<rparr>) w1)\<lparr>live_msgs := live_msgs w1 - {m}\<rparr>)
     }"

definition msg_release :: "ptr \<Rightarrow> world \<Rightarrow> world option" where
  "msg_release m w =
     do {
       guard (m \<in> live_msgs w);
       guard (1 \<le> m_ref (msgs w m));
       let w1 = upd_msg m (\<lambda>r. r\<lparr>m_ref := m_ref r - 1\<rparr>) w;
       if m_ref (msgs w1 m) = 0 then net_port_msg_delete m w1 else Some w1
     }"

text \<open>The loops of \<^verbatim>\<open>msg_queue_t::clear\<close> and of its destructor.\<close>

fun release_all :: "ptr list \<Rightarrow> world \<Rightarrow> world option" where
  "release_all [] w = Some w"
| "release_all (m # ms) w = do { w1 \<leftarrow> msg_release m w; release_all ms w1 }"

section \<open>Clients\<close>

text \<open>\<^verbatim>\<open>notify\<close> wakes the sending thread if it is in \<^verbatim>\<open>wait\<close>, and is lost otherwise.\<close>

definition wake :: "sender \<Rightarrow> sender" where
  "wake s = (if s = SWaiting then SReady else s)"

definition cu_new :: "ptr \<Rightarrow> ptr \<Rightarrow> world \<Rightarrow> world" where
  "cu_new c junk w =
     w\<lparr>cus := (cus w)(c := \<lparr>cu_ref = 1, cu_queue = [], cu_fd = junk, cu_net = False, cu_pu = 0,
                           cu_video_serial = 0, cu_wrap = None, cu_sender = SStart\<rparr>),
       live_cus := insert c (live_cus w), cu_dev_count := cu_dev_count w + 1\<rparr>"

definition cu_add :: "ptr \<Rightarrow> world \<Rightarrow> world option" where
  "cu_add c w =
     do { guard (c \<in> live_cus w); Some (upd_cu c (\<lambda>r. r\<lparr>cu_ref := cu_ref r + 1\<rparr>) w) }"

text \<open>The destructor closes the socket and releases the messages in the queue.\<close>

definition cu_delete :: "ptr \<Rightarrow> world \<Rightarrow> world option" where
  "cu_delete c w =
     do {
       let w1 = w\<lparr>cu_dev_count := cu_dev_count w - 1\<rparr>;
       guard (cu_fd (cus w1 c) \<noteq> 0);
       let w2 = w1\<lparr>closed_fds := closed_fds w1 @ [cu_fd (cus w1 c)]\<rparr>;
       w3 \<leftarrow> release_all (cu_queue (cus w2 c)) w2;
       Some (w3\<lparr>live_cus := live_cus w3 - {c}\<rparr>)
     }"

definition cu_release :: "ptr \<Rightarrow> world \<Rightarrow> world option" where
  "cu_release c w =
     do {
       guard (c \<in> live_cus w);
       guard (cu_ref (cus w c) \<noteq> 0);
       let w1 = upd_cu c (\<lambda>r. r\<lparr>cu_ref := cu_ref r - 1\<rparr>) w;
       if cu_ref (cus w1 c) = 0 then cu_delete c w1 else Some w1
     }"

definition cu_send_msg :: "ptr \<Rightarrow> ptr \<Rightarrow> world \<Rightarrow> world option" where
  "cu_send_msg c m w =
     do {
       guard (c \<in> live_cus w);
       if cu_net (cus w c)
       then do {
         w1 \<leftarrow> msg_add m w;
         Some (upd_cu c (\<lambda>r. r\<lparr>cu_queue := cu_queue r @ [m], cu_sender := wake (cu_sender r)\<rparr>) w1)
       }
       else Some w
     }"

section \<open>Devices\<close>

definition pu_new :: "ptr \<Rightarrow> string \<Rightarrow> ptr \<Rightarrow> world \<Rightarrow> world" where
  "pu_new p sn junk w =
     w\<lparr>pus := (pus w)(p := \<lparr>pu_sn = sn, pu_ref = 1, pu_queue = [], pu_fd = junk, pu_net = False,
                           pu_cus = [], pu_video_cmd = 0, pu_serial = 0, pu_sender = SStart\<rparr>),
       live_pus := insert p (live_pus w), pu_dev_count := pu_dev_count w + 1\<rparr>"

definition pu_add :: "ptr \<Rightarrow> world \<Rightarrow> world option" where
  "pu_add p w =
     do { guard (p \<in> live_pus w); Some (upd_pu p (\<lambda>r. r\<lparr>pu_ref := pu_ref r + 1\<rparr>) w) }"

definition server_unregister :: "string \<Rightarrow> world \<Rightarrow> world" where
  "server_unregister sn w = w\<lparr>device_map := (device_map w)(sn := None)\<rparr>"

definition pu_delete :: "ptr \<Rightarrow> world \<Rightarrow> world option" where
  "pu_delete p w =
     do {
       w1 \<leftarrow> msg_release (pu_video_cmd (pus w p)) (w\<lparr>pu_dev_count := pu_dev_count w - 1\<rparr>);
       let w2 = server_unregister (pu_sn (pus w1 p)) w1;
       guard (pu_fd (pus w2 p) \<noteq> 0);
       let w3 = w2\<lparr>closed_fds := closed_fds w2 @ [pu_fd (pus w2 p)]\<rparr>;
       w4 \<leftarrow> release_all (pu_queue (pus w3 p)) w3;
       Some (w4\<lparr>live_pus := live_pus w4 - {p}\<rparr>)
     }"

definition pu_release :: "ptr \<Rightarrow> world \<Rightarrow> world option" where
  "pu_release p w =
     do {
       guard (p \<in> live_pus w);
       guard (pu_ref (pus w p) \<noteq> 0);
       let w1 = upd_pu p (\<lambda>r. r\<lparr>pu_ref := pu_ref r - 1\<rparr>) w;
       if pu_ref (pus w1 p) = 0 then pu_delete p w1 else Some w1
     }"

definition is_video_open :: "ptr \<Rightarrow> world \<Rightarrow> bool" where
  "is_video_open p w = (pu_video_cmd (pus w p) \<noteq> 0)"

definition pu_is_valid :: "ptr \<Rightarrow> world \<Rightarrow> bool" where
  "pu_is_valid p w = pu_net (pus w p)"

text \<open>\<^verbatim>\<open>send_msg\<close>; the flag says that the thread goes to wait for the answer.\<close>

definition pu_send_msg :: "ptr \<Rightarrow> ptr \<Rightarrow> world \<Rightarrow> (bool \<times> world) option" where
  "pu_send_msg p m w =
     do {
       guard (p \<in> live_pus w);
       if pu_net (pus w p)
       then do {
         w1 \<leftarrow> msg_add m w;
         let w2 = upd_pu p (\<lambda>r. r\<lparr>pu_queue := pu_queue r @ [m], pu_sender := wake (pu_sender r)\<rparr>) w1;
         Some (m_cond (msgs w2 m) \<noteq> 0, w2)
       }
       else Some (False, w)
     }"

text \<open>The result is the message returned (0 if null) and whether the thread waits in \<^verbatim>\<open>send_msg\<close>.\<close>

definition pu_open_real_video :: "ptr \<Rightarrow> ptr \<Rightarrow> ptr \<Rightarrow> world \<Rightarrow> (ptr \<times> bool \<times> world) option" where
  "pu_open_real_video p c m w =
     do {
       guard (p \<in> live_pus w);
       w1 \<leftarrow> cu_add c w;
       let w2 = upd_pu p (\<lambda>r. r\<lparr>pu_cus := pu_cus r @ [c]\<rparr>) w1;
       let cmd = pu_video_cmd (pus w2 p);
       if cmd \<noteq> 0
       then do { w3 \<leftarrow> msg_add cmd w2; Some (cmd, False, w3) }
       else do { r \<leftarrow> pu_send_msg p m w2; Some (0, fst r, snd r) }
     }"

definition pu_close_real_video :: "ptr \<Rightarrow> ptr \<Rightarrow> world \<Rightarrow> world option" where
  "pu_close_real_video p c w =
     do {
       guard (p \<in> live_pus w);
       if c \<in> set (pu_cus (pus w p))
       then do {
         w1 \<leftarrow> cu_release c w;
         let w2 = upd_pu p (\<lambda>r. r\<lparr>pu_cus := remove1 c (pu_cus r)\<rparr>) w1;
         msg_release (pu_video_cmd (pus w2 p)) w2
       }
       else Some w
     }"

definition pu_close :: "ptr \<Rightarrow> world \<Rightarrow> world option" where
  "pu_close p w =
     do {
       guard (p \<in> live_pus w);
       let w1 = (if pu_net (pus w p)
                 then upd_pu p (\<lambda>r. r\<lparr>pu_net := False, pu_sender := wake (pu_sender r)\<rparr>) w else w);
       pu_release p w1
     }"

section \<open>The sending thread of a device\<close>

text \<open>\<^verbatim>\<open>msg_queue_t::backup\<close>: the messages are taken over, and each loses the reference of the queue.\<close>

definition pu_backup :: "ptr \<Rightarrow> world \<Rightarrow> (ptr list \<times> world) option" where
  "pu_backup p w =
     do {
       let vec = pu_queue (pus w p);
       w1 \<leftarrow> release_all vec w;
       Some (vec, upd_pu p (\<lambda>r. r\<lparr>pu_queue := []\<rparr>) w1)
     }"

text \<open>The packet of a message; the body must be there when the header names a length.\<close>

definition packet :: "net_port_header \<Rightarrow> ptr \<Rightarrow> world \<Rightarrow> 8 word list option" where
  "packet hdr b w =
     (if h_bodylen hdr = 0 then Some (header_bytes (transfer_out hdr))
      else do {
        guard (b \<noteq> 0 \<and> b \<in> live_bodies w \<and> unat (h_bodylen hdr) \<le> length (bodies w b));
        Some (header_bytes (transfer_out hdr) @ take (unat (h_bodylen hdr)) (bodies w b))
      })"

definition set_sender :: "ptr \<Rightarrow> sender \<Rightarrow> world \<Rightarrow> world" where
  "set_sender p s = upd_pu p (\<lambda>r. r\<lparr>pu_sender := s\<rparr>)"

text \<open>The part of the loop body of \<^verbatim>\<open>handle_send\<close> up to \<^verbatim>\<open>st_write\<close>, for the message \<open>m\<close>.\<close>

definition pu_write :: "ptr \<Rightarrow> ptr \<Rightarrow> ptr list \<Rightarrow> world \<Rightarrow> world option" where
  "pu_write p m ms w =
     do {
       guard (m \<in> live_msgs w);
       let serial = pu_serial (pus w p);
       let hdr = (m_hdr (msgs w m))\<lparr>h_serialid := serial\<rparr>;
       let w1 = upd_msg m (\<lambda>r. r\<lparr>m_hdr := (m_hdr r)\<lparr>h_serialid := serial\<rparr>\<rparr>) w;
       let w2 = upd_pu p (\<lambda>r. r\<lparr>pu_serial := serial + 1\<rparr>) w1;
       guard (h_bodylen hdr + 16 < 1024);
       bs \<leftarrow> packet hdr (m_body (msgs w2 m)) w2;
       if pu_net (pus w2 p)
       then Some (set_sender p (SWriting (m # ms)) (w2\<lparr>net_out := net_out w2 @ [(pu_fd (pus w2 p), bs)]\<rparr>))
       else do { w3 \<leftarrow> msg_release m w2; Some (set_sender p (SSending ms True) w3) }
     }"

text \<open>One piece of \<^verbatim>\<open>handle_send\<close>; \<open>ok\<close> says whether the \<^verbatim>\<open>st_write\<close> that is under way succeeds.  The
  loop over the messages is cut into one piece for each message, so other threads may run between two
  pieces even where the code does not switch.\<close>

definition pu_send_turn :: "ptr \<Rightarrow> bool \<Rightarrow> world \<Rightarrow> world option" where
  "pu_send_turn p ok w =
     do {
       guard (p \<in> live_pus w);
       case pu_sender (pus w p) of
         SStart \<Rightarrow> Some (run_task (PuHeart p) (upd_pu p (\<lambda>r. r\<lparr>pu_serial := 1, pu_sender := SWaiting\<rparr>) w))
       | SWaiting \<Rightarrow> Some w
       | SReady \<Rightarrow>
           if \<not> pu_net (pus w p) then pu_close p (set_sender p SEnded w)
           else do { r \<leftarrow> pu_backup p w; Some (set_sender p (SSending (fst r) False) (snd r)) }
       | SSending [] exits \<Rightarrow>
           if exits then pu_close p (set_sender p SEnded w) else Some (set_sender p SWaiting w)
       | SSending (m # ms) exits \<Rightarrow>
           if exits then do { w1 \<leftarrow> msg_release m w; Some (set_sender p (SSending ms True) w1) }
           else pu_write p m ms w
       | SWriting [] \<Rightarrow> Some w
       | SWriting (m # ms) \<Rightarrow> do { w1 \<leftarrow> msg_release m w; Some (set_sender p (SSending ms (\<not> ok)) w1) }
       | SEnded \<Rightarrow> Some w
     }"

section \<open>The receiving thread and the timer threads of a device\<close>

fun forward :: "ptr \<Rightarrow> ptr list \<Rightarrow> world \<Rightarrow> world option" where
  "forward m [] w = Some w"
| "forward m (c # cs) w = do { w1 \<leftarrow> msg_add m w; w2 \<leftarrow> cu_send_msg c m w1; forward m cs w2 }"

text \<open>A received frame goes to every client that watches the device.\<close>

definition forward_video :: "ptr \<Rightarrow> ptr \<Rightarrow> net_port_header \<Rightarrow> ptr \<Rightarrow> world \<Rightarrow> world option" where
  "forward_video p m hdr b w =
     do {
       let w1 = upd_msg m (\<lambda>r. r\<lparr>m_hdr := hdr, m_body := b\<rparr>) (net_port_msg_new m w);
       w2 \<leftarrow> forward m (pu_cus (pus w1 p)) w1;
       msg_release m w2
     }"

text \<open>The answer to the request for video is kept.\<close>

definition keep_answer :: "ptr \<Rightarrow> net_port_header \<Rightarrow> ptr \<Rightarrow> world \<Rightarrow> world option" where
  "keep_answer p hdr b w =
     do {
       let cmd = pu_video_cmd (pus w p);
       guard (cmd \<in> live_msgs w);
       let w1 = upd_msg cmd (\<lambda>r. r\<lparr>m_hdr := (m_hdr r)\<lparr>h_cmdno := h_cmdno hdr\<rparr>\<rparr>) w;
       w2 \<leftarrow> free_body (m_body (msgs w1 cmd)) w1;
       Some (upd_msg cmd (\<lambda>r. r\<lparr>m_hdr := (m_hdr r)\<lparr>h_bodylen := h_bodylen hdr\<rparr>, m_body := b\<rparr>) w2)
     }"

text \<open>What \<^verbatim>\<open>calloc(1, bodylen+1)\<close> and \<^verbatim>\<open>st_read_fully\<close> leave in the body.\<close>

definition read_body :: "u32 \<Rightarrow> 8 word list \<Rightarrow> 8 word list" where
  "read_body n xs = take (unat n + 1) (take (unat n) xs @ replicate (unat n + 1) 0)"

text \<open>One turn of \<^verbatim>\<open>handle_recv\<close>: the header and the body read, \<open>None\<close> for a failed read; \<open>m\<close> and \<open>b\<close> are the
  memory of a new message and body.  The flag says whether the loop goes on.\<close>

definition pu_recv_turn ::
  "ptr \<Rightarrow> net_port_header option \<Rightarrow> 8 word list option \<Rightarrow> ptr \<Rightarrow> ptr \<Rightarrow> world \<Rightarrow> (bool \<times> world) option" where
  "pu_recv_turn p hdr_in body_in m b w =
     do {
       guard (p \<in> live_pus w);
       let leave = (\<lambda>v. do { v1 \<leftarrow> pu_close p v; Some (False, v1) });
       case (if pu_net (pus w p) then hdr_in else None) of
         None \<Rightarrow> leave w
       | Some h \<Rightarrow>
           (let hdr = transfer_in h in
            if h_bodylen hdr = 0 then Some (True, w)
            else if 1024 * 1024 < h_bodylen hdr then leave w
            else case body_in of
                   None \<Rightarrow> leave (alloc_body b (read_body (h_bodylen hdr) []) w)
                 | Some xs \<Rightarrow>
                     (let w1 = alloc_body b (read_body (h_bodylen hdr) xs) w;
                          hdr1 = hdr\<lparr>h_cmdno := command_id (h_cmdno hdr)\<rparr> in
                      if h_cmdno hdr1 = hmcmd_recv_video
                      then do { w2 \<leftarrow> forward_video p m hdr1 b w1; Some (True, w2) }
                      else if h_cmdno hdr1 = hmcmd_open_video
                      then do { w2 \<leftarrow> keep_answer p hdr1 b w1; Some (True, w2) }
                      else Some (True, w1)))
     }"

text \<open>\<^verbatim>\<open>heart_thread\<close>: its start, and what it does after each second; \<open>n\<close> is \<^verbatim>\<open>heart_count\<close>, the result the
  count for the next second, \<open>None\<close> when the thread ended; \<open>junk\<close> is the serial number nobody sets.\<close>

definition heart_start :: "ptr \<Rightarrow> world \<Rightarrow> world option" where
  "heart_start p w = pu_add p (run_task (PuOpenVideo p) w)"

definition heart_tick :: "ptr \<Rightarrow> nat \<Rightarrow> ptr \<Rightarrow> u32 \<Rightarrow> world \<Rightarrow> (nat option \<times> world) option" where
  "heart_tick p n m junk w =
     do {
       guard (p \<in> live_pus w);
       if \<not> pu_net (pus w p) then do { w1 \<leftarrow> pu_release p w; Some (None, w1) }
       else if n \<le> 10 then Some (Some (n + 1), w)
       else do {
         let w1 = upd_msg m (\<lambda>r. r\<lparr>m_hdr := \<lparr>h_cmdno = hmcmd_heartbeat, h_bodylen = 0, h_errcode = 0,
                                             h_serialid = junk\<rparr>\<rparr>) (net_port_msg_new m w);
         r \<leftarrow> pu_send_msg p m w1;
         Some (Some 1, snd r)
       }
     }"

definition open_video_body :: string where
  \<open>open_video_body =
     ''<?xml version="1.0" encoding="utf-8"?>'' @ ''<Message>'' @ ''<Channel>0</Channel>'' @
     ''<StreamType>1</StreamType>'' @ ''<VideoType>1</VideoType>'' @ ''</Message>''\<close>

definition string_bytes :: "string \<Rightarrow> 8 word list" where
  "string_bytes s = map of_char s @ [0]"

definition handle_open_video :: "ptr \<Rightarrow> ptr \<Rightarrow> ptr \<Rightarrow> world \<Rightarrow> world option" where
  "handle_open_video p m b w =
     do {
       w1 \<leftarrow> pu_add p w;
       let w2 = upd_pu p (\<lambda>r. r\<lparr>pu_video_cmd := m\<rparr>) (net_port_msg_new m w1);
       let bs = string_bytes open_video_body;
       let w3 = alloc_body b bs w2;
       let w4 = upd_msg m (\<lambda>r. r\<lparr>m_hdr := \<lparr>h_cmdno = hmcmd_open_video, h_bodylen = of_nat (length bs),
                                          h_errcode = 0, h_serialid = h_serialid (m_hdr r)\<rparr>,
                               m_body := b\<rparr>) w3;
       w5 \<leftarrow> msg_add m w4;
       r \<leftarrow> pu_send_msg p m w5;
       pu_release p (snd r)
     }"

definition pu_run :: "ptr \<Rightarrow> ptr \<Rightarrow> world \<Rightarrow> world option" where
  "pu_run p fd w =
     do {
       guard (p \<in> live_pus w \<and> fd \<noteq> 0);
       w1 \<leftarrow> pu_add p (upd_pu p (\<lambda>r. r\<lparr>pu_fd := fd, pu_net := True\<rparr>) w);
       w2 \<leftarrow> pu_add p w1;
       Some (run_task (PuSend p) (run_task (PuRecv p) w2))
     }"

end
