(* ===== verification/Client.thy ===== *)
theory Client
  imports Proxy
begin

text \<open>
  The threads of a client of the video server (\<^verbatim>\<open>cu_proxy.cpp\<close>): sending, receiving, and the thread that
  serves a request for video.
\<close>

definition cu_init :: "ptr \<Rightarrow> ptr \<Rightarrow> world \<Rightarrow> world option" where
  "cu_init c p w =
     do { guard (c \<in> live_cus w); pu_add p (upd_cu c (\<lambda>r. r\<lparr>cu_pu := p\<rparr>) w) }"

definition cu_uninit :: "ptr \<Rightarrow> world \<Rightarrow> world option" where
  "cu_uninit c w =
     do {
       guard (c \<in> live_cus w);
       w1 \<leftarrow> pu_release (cu_pu (cus w c)) w;
       Some (upd_cu c (\<lambda>r. r\<lparr>cu_pu := 0\<rparr>) w1)
     }"

definition check_net :: "ptr \<Rightarrow> world \<Rightarrow> bool option" where
  "check_net c w =
     do {
       guard (c \<in> live_cus w);
       let p = cu_pu (cus w c);
       if p = 0 then Some False else do { guard (p \<in> live_pus w); Some (pu_is_valid p w) }
     }"

definition cu_close :: "ptr \<Rightarrow> world \<Rightarrow> world option" where
  "cu_close c w =
     do {
       guard (c \<in> live_cus w);
       w1 \<leftarrow> (if cu_net (cus w c)
              then do {
                w2 \<leftarrow> (case cu_wrap (cus w c) of
                         None \<Rightarrow> Some w
                       | Some m \<Rightarrow> do {
                           guard (m \<in> live_msgs w);
                           Some (upd_cu c (\<lambda>r. r\<lparr>cu_wrap := None\<rparr>)
                                  (w\<lparr>woken := woken w @ [m_cond (msgs w m)]\<rparr>))
                         });
                Some (upd_cu c (\<lambda>r. r\<lparr>cu_net := False, cu_sender := wake (cu_sender r)\<rparr>) w2)
              }
              else Some w);
       cu_release c w1
     }"

section \<open>The sending thread\<close>

definition cu_backup :: "ptr \<Rightarrow> world \<Rightarrow> (ptr list \<times> world) option" where
  "cu_backup c w =
     do {
       let vec = cu_queue (cus w c);
       w1 \<leftarrow> release_all vec w;
       Some (vec, upd_cu c (\<lambda>r. r\<lparr>cu_queue := []\<rparr>) w1)
     }"

definition set_cu_sender :: "ptr \<Rightarrow> sender \<Rightarrow> world \<Rightarrow> world" where
  "set_cu_sender c s = upd_cu c (\<lambda>r. r\<lparr>cu_sender := s\<rparr>)"

text \<open>The end of the thread: the queue is cleared and the client closed.\<close>

definition cu_send_exit :: "ptr \<Rightarrow> world \<Rightarrow> world option" where
  "cu_send_exit c w =
     do {
       w1 \<leftarrow> release_all (cu_queue (cus w c)) w;
       cu_close c (upd_cu c (\<lambda>r. r\<lparr>cu_queue := [], cu_sender := SEnded\<rparr>) w1)
     }"

text \<open>The loop body of \<^verbatim>\<open>handle_send\<close> up to \<^verbatim>\<open>st_write\<close>; \<^verbatim>\<open>memcpy\<close> writes past the packet when its length has
  wrapped around.\<close>

definition cu_write :: "ptr \<Rightarrow> ptr \<Rightarrow> ptr list \<Rightarrow> world \<Rightarrow> world option" where
  "cu_write c m ms w =
     do {
       guard (m \<in> live_msgs w);
       let hdr0 = m_hdr (msgs w m);
       let sendlen = h_bodylen hdr0 + 16;
       let hdr = (if h_cmdno hdr0 = hmcmd_recv_video
                  then hdr0\<lparr>h_serialid := cu_video_serial (cus w c)\<rparr> else hdr0);
       guard (sendlen \<noteq> 0 \<and> h_bodylen hdr0 < sendlen);
       bs \<leftarrow> packet hdr (m_body (msgs w m)) w;
       if cu_net (cus w c)
       then Some (set_cu_sender c (SWriting (m # ms)) (w\<lparr>net_out := net_out w @ [(cu_fd (cus w c), bs)]\<rparr>))
       else do { w1 \<leftarrow> msg_release m w; Some (set_cu_sender c (SSending ms True) w1) }
     }"

definition cu_send_turn :: "ptr \<Rightarrow> bool \<Rightarrow> world \<Rightarrow> world option" where
  "cu_send_turn c ok w =
     do {
       guard (c \<in> live_cus w);
       case cu_sender (cus w c) of
         SStart \<Rightarrow> Some (set_cu_sender c SWaiting w)
       | SWaiting \<Rightarrow> Some w
       | SReady \<Rightarrow>
           if \<not> cu_net (cus w c) then cu_send_exit c w
           else do { r \<leftarrow> cu_backup c w; Some (set_cu_sender c (SSending (fst r) False) (snd r)) }
       | SSending [] exits \<Rightarrow>
           if exits then cu_send_exit c w else Some (set_cu_sender c SWaiting w)
       | SSending (m # ms) exits \<Rightarrow>
           if exits then do { w1 \<leftarrow> msg_release m w; Some (set_cu_sender c (SSending ms True) w1) }
           else cu_write c m ms w
       | SWriting [] \<Rightarrow> Some w
       | SWriting (m # ms) \<Rightarrow>
           do { w1 \<leftarrow> msg_release m w; Some (set_cu_sender c (SSending ms (\<not> ok)) w1) }
       | SEnded \<Rightarrow> Some w
     }"

section \<open>The receiving thread\<close>

text \<open>A body is read and freed at once, but the message keeps its address.\<close>

definition cu_read_body :: "ptr \<Rightarrow> ptr \<Rightarrow> 8 word list \<Rightarrow> u32 \<Rightarrow> world \<Rightarrow> world option" where
  "cu_read_body m b xs n w =
     free_body b (alloc_body b (take (unat n) xs) (upd_msg m (\<lambda>r. r\<lparr>m_body := b\<rparr>) w))"

text \<open>What is done with a request, and whether the loop goes on; \<open>cond\<close> is a new condition variable.\<close>

definition cu_dispatch :: "ptr \<Rightarrow> ptr \<Rightarrow> cid \<Rightarrow> net_port_header \<Rightarrow> world \<Rightarrow> (bool \<times> world) option" where
  "cu_dispatch c m cond hdr w =
     (if h_cmdno hdr = hmcmd_heartbeat
      then do {
        let w1 = upd_msg m (\<lambda>r. r\<lparr>m_hdr := (m_hdr r)\<lparr>h_cmdno := make_response_command hmcmd_heartbeat,
                                                    h_bodylen := 0\<rparr>\<rparr>) w;
        w2 \<leftarrow> cu_send_msg c m w1;
        Some (True, w2)
      }
      else if h_cmdno hdr = hmcmd_open_video
      then Some (True, run_task (CuOpenVideo c m)
                         (upd_cu c (\<lambda>r. r\<lparr>cu_wrap := Some m\<rparr>) (upd_msg m (\<lambda>r. r\<lparr>m_cond := cond\<rparr>) w)))
      else do { w1 \<leftarrow> msg_release m w; Some (False, w1) })"

definition cu_recv_turn ::
  "ptr \<Rightarrow> net_port_header option \<Rightarrow> 8 word list option \<Rightarrow> ptr \<Rightarrow> ptr \<Rightarrow> cid \<Rightarrow> world \<Rightarrow>
   (bool \<times> world) option" where
  "cu_recv_turn c hdr_in body_in m b cond w =
     do {
       guard (c \<in> live_cus w);
       let leave = (\<lambda>v. do { v1 \<leftarrow> cu_close c v; Some (False, v1) });
       let release_leave = (\<lambda>v. do { v1 \<leftarrow> msg_release m v; leave v1 });
       case (if cu_net (cus w c) then hdr_in else None) of
         None \<Rightarrow> leave w
       | Some h \<Rightarrow> do {
           net \<leftarrow> check_net c w;
           if \<not> net then leave w
           else do {
             let hdr = transfer_in h;
             let w1 = upd_msg m (\<lambda>r. r\<lparr>m_hdr := hdr\<rparr>) (net_port_msg_new m w);
             if h_bodylen hdr \<noteq> 0 \<and> body_in = None
             then release_leave (alloc_body b [] (upd_msg m (\<lambda>r. r\<lparr>m_body := b\<rparr>) w1))
             else do {
               w2 \<leftarrow> (if h_bodylen hdr = 0 then Some w1
                      else cu_read_body m b (the body_in) (h_bodylen hdr) w1);
               net2 \<leftarrow> check_net c w2;
               if \<not> net2 then release_leave w2
               else do {
                 r \<leftarrow> cu_dispatch c m cond hdr w2;
                 if fst r then Some r else leave (snd r)
               }
             }
           }
         }
     }"

section \<open>The thread that serves a request for video\<close>

text \<open>\<^verbatim>\<open>open_real_video\<close> up to the return of the call of the device.\<close>

definition open_video_start :: "ptr \<Rightarrow> ptr \<Rightarrow> world \<Rightarrow> (ptr \<times> bool \<times> world) option" where
  "open_video_start c m w =
     do {
       w1 \<leftarrow> cu_add c w;
       guard (m \<in> live_msgs w1);
       let serial = h_serialid (m_hdr (msgs w1 m));
       let w2 = upd_cu c (\<lambda>r. r\<lparr>cu_video_serial := serial\<rparr>) w1;
       pu_open_real_video (cu_pu (cus w2 c)) c m w2
     }"

text \<open>From there to \<^verbatim>\<open>st_cond_wait\<close>, \<open>tmp\<close> being the message the device returned and \<open>b\<close> memory for a copy of
  its body.  The other branch asserts a flag that is only set behind the assertion.\<close>

definition open_video_answer :: "ptr \<Rightarrow> ptr \<Rightarrow> u32 \<Rightarrow> ptr \<Rightarrow> ptr \<Rightarrow> world \<Rightarrow> world option" where
  "open_video_answer c m serial tmp b w =
     do {
       guard (tmp \<noteq> 0);
       guard (tmp \<in> live_msgs w \<and> m \<in> live_msgs w);
       let th = m_hdr (msgs w tmp);
       let tb = m_body (msgs w tmp);
       w1 \<leftarrow> (if h_bodylen th = 0 then Some w
              else do {
                guard (tb \<in> live_bodies w \<and> unat (h_bodylen th) \<le> length (bodies w tb));
                Some (alloc_body b (take (unat (h_bodylen th)) (bodies w tb))
                       (upd_msg m (\<lambda>r. r\<lparr>m_body := b\<rparr>) w))
              });
       let w2 = upd_msg m (\<lambda>r. r\<lparr>m_hdr := th\<lparr>h_serialid := serial\<rparr>\<rparr>) w1;
       w3 \<leftarrow> cu_send_msg c m w2;
       msg_add m w3
     }"

text \<open>After the condition was signalled.\<close>

definition open_video_end :: "ptr \<Rightarrow> ptr \<Rightarrow> world \<Rightarrow> world option" where
  "open_video_end c m w =
     do {
       guard (c \<in> live_cus w);
       w1 \<leftarrow> (if cu_pu (cus w c) \<noteq> 0 then pu_close_real_video (cu_pu (cus w c)) c w else Some w);
       w2 \<leftarrow> msg_release m w1;
       w3 \<leftarrow> cu_uninit c w2;
       cu_release c w3
     }"

definition cu_run :: "ptr \<Rightarrow> ptr \<Rightarrow> world \<Rightarrow> world option" where
  "cu_run c fd w =
     do {
       guard (c \<in> live_cus w \<and> fd \<noteq> 0);
       w1 \<leftarrow> cu_add c (upd_cu c (\<lambda>r. r\<lparr>cu_fd := fd, cu_net := True\<rparr>) w);
       w2 \<leftarrow> cu_add c w1;
       Some (run_task (CuSend c) (run_task (CuRecv c) w2))
     }"

end
