(* ===== verification/ProxyRefs.thy ===== *)
theory ProxyRefs
  imports Client
begin

text \<open>
  Reference counts: what \<^verbatim>\<open>add\<close> and \<^verbatim>\<open>release\<close> promise for messages, devices and clients, and how many
  references the queues and sending threads of the clients hold of a message.
\<close>

section \<open>The interface of a counted object\<close>

text \<open>\<open>rc w x\<close> is the count of \<open>x\<close>, 0 if it is deleted.\<close>

locale ref_counted =
  fixes add :: "'o \<Rightarrow> 'w \<Rightarrow> 'w option"
    and rel :: "'o \<Rightarrow> 'w \<Rightarrow> 'w option"
    and rc :: "'w \<Rightarrow> 'o \<Rightarrow> nat"
  assumes add_law: "add x w = Some w' \<Longrightarrow> rc w x + 1 < 2 ^ 32 \<Longrightarrow> rc w' = (rc w)(x := rc w x + 1)"
    and rel_law: "rel x w = Some w' \<Longrightarrow> 0 < rc w x \<and> rc w' = (rc w)(x := rc w x - 1)"
begin

lemma add_rel:
  "add x w = Some w1 \<Longrightarrow> rel x w1 = Some w2 \<Longrightarrow> rc w x + 1 < 2 ^ 32 \<Longrightarrow> rc w2 = rc w"
  using add_law rel_law by fastforce

text \<open>Two threads get a reference each, and the creator gives up its own.\<close>

lemma hand_over:
  assumes "add x w = Some w1" and "add x w1 = Some w2" and "rel x w2 = Some w3" and "rc w x = 1"
  shows "rc w3 = (rc w)(x := 2)"
proof -
  have e: "rc w x + 1 = 2" using assms(4) by simp
  have w1: "rc w1 = (rc w)(x := 2)" using add_law [OF assms(1)] unfolding e by simp
  then have e1: "rc w1 x + 1 = 3" by simp
  have w2: "rc w2 = (rc w)(x := 3)" using add_law [OF assms(2)] w1 unfolding e1 by simp
  show ?thesis using rel_law [OF assms(3)] w2 by simp
qed

text \<open>One that is released as often as it was created and added is gone.\<close>

lemma last_rel: "rel x w = Some w' \<Longrightarrow> rc w x = 1 \<Longrightarrow> rc w' x = 0"
  using rel_law by fastforce

end

text \<open>A count that wrapped around to 0 in an object that is still there counts as \<open>2 ^ 32\<close>.\<close>

definition ref_value :: "u32 \<Rightarrow> nat" where
  "ref_value r = (if r = 0 then 2 ^ 32 else unat r)"

definition msg_rc :: "world \<Rightarrow> ptr \<Rightarrow> nat" where
  "msg_rc w m = (if m \<in> live_msgs w then ref_value (m_ref (msgs w m)) else 0)"

definition cu_rc :: "world \<Rightarrow> ptr \<Rightarrow> nat" where
  "cu_rc w c = (if c \<in> live_cus w then ref_value (cu_ref (cus w c)) else 0)"

definition pu_rc :: "world \<Rightarrow> ptr \<Rightarrow> nat" where
  "pu_rc w p = (if p \<in> live_pus w then ref_value (pu_ref (pus w p)) else 0)"

text \<open>What the operations on messages do not touch.\<close>

lemma guard_Some [simp]: "(guard b = Some u) = b"
  by (simp add: guard_def)

lemma guard_bind [simp]: "(guard b \<bind> f = Some x) = (b \<and> f () = Some x)"
  by (simp add: guard_def)

definition same_servers :: "world \<Rightarrow> world \<Rightarrow> bool" where
  "same_servers w w' = (pus w' = pus w \<and> live_pus w' = live_pus w \<and> cus w' = cus w \<and>
     live_cus w' = live_cus w \<and> device_map w' = device_map w \<and> pu_dev_count w' = pu_dev_count w \<and>
     cu_dev_count w' = cu_dev_count w \<and> started w' = started w)"

lemma same_servers_refl [simp]: "same_servers w w"
  by (simp add: same_servers_def)

lemma same_servers_trans: "same_servers w w' \<Longrightarrow> same_servers w' w'' \<Longrightarrow> same_servers w w''"
  by (simp add: same_servers_def)

lemma msg_add_servers: "msg_add m w = Some w' \<Longrightarrow> same_servers w w'"
  by (auto simp: msg_add_def upd_msg_def same_servers_def)

lemma free_body_servers:
  "free_body b w = Some w' \<Longrightarrow> same_servers w w' \<and> msgs w' = msgs w \<and> live_msgs w' = live_msgs w"
  by (auto simp: free_body_def same_servers_def split: if_splits)

lemma msg_delete_effect:
  assumes "net_port_msg_delete m w = Some w'"
  shows "same_servers w w' \<and> live_msgs w' = live_msgs w - {m} \<and> (\<forall>x. x \<noteq> m \<longrightarrow> msgs w' x = msgs w x)"
proof -
  obtain w1 where w1: "free_body (m_body (msgs w m)) (upd_msg m (\<lambda>r. r\<lparr>m_cond := 0\<rparr>) w) = Some w1"
    "w' = (upd_msg m (\<lambda>r. r\<lparr>m_body := 0\<rparr>) w1)\<lparr>live_msgs := live_msgs w1 - {m}\<rparr>"
    using assms by (auto simp: net_port_msg_delete_def bind_eq_Some_conv)
  show ?thesis using free_body_servers [OF w1(1)] w1(2) by (auto simp: same_servers_def upd_msg_def)
qed

lemma msg_release_servers: "msg_release m w = Some w' \<Longrightarrow> same_servers w w'"
  using msg_delete_effect
  by (fastforce simp: msg_release_def Let_def upd_msg_def same_servers_def split: if_splits)

lemma release_all_servers: "release_all ms w = Some w' \<Longrightarrow> same_servers w w'"
proof (induction ms arbitrary: w)
  case (Cons m ms)
  then show ?case using msg_release_servers same_servers_trans by (fastforce simp: bind_eq_Some_conv)
qed simp

lemma ref_value_minus:
  assumes "(r :: u32) \<noteq> 0"
  shows "0 < ref_value r" and "r - 1 \<noteq> 0 \<Longrightarrow> ref_value (r - 1) = ref_value r - 1"
    and "r - 1 = 0 \<Longrightarrow> ref_value r = 1"
proof -
  have u: "unat (r - 1) = unat r - 1" using assms by (rule unat_minus_one)
  show "0 < ref_value r" using assms by (simp add: ref_value_def unat_gt_0)
  show "r - 1 \<noteq> 0 \<Longrightarrow> ref_value (r - 1) = ref_value r - 1" using assms u by (simp add: ref_value_def)
  show "r - 1 = 0 \<Longrightarrow> ref_value r = 1" by (simp add: ref_value_def)
qed

lemma ref_value_plus:
  assumes "ref_value (r :: u32) + 1 < 2 ^ 32"
  shows "ref_value (r + 1) = ref_value r + 1"
proof -
  have "r \<noteq> 0" "unat r + 1 < 2 ^ 32" using assms by (auto simp: ref_value_def split: if_splits)
  moreover from this have "unat (r + 1) = unat r + 1" by (simp add: unat_word_ariths)
  ultimately show ?thesis by (auto simp: ref_value_def)
qed

lemma msg_add_rc:
  "msg_add m w = Some w' \<Longrightarrow> msg_rc w m + 1 < 2 ^ 32 \<Longrightarrow> msg_rc w' = (msg_rc w)(m := msg_rc w m + 1)"
  by (auto simp: msg_add_def upd_msg_def msg_rc_def ref_value_plus fun_eq_iff)

lemma msg_release_rc:
  assumes "msg_release m w = Some w'"
  shows "0 < msg_rc w m \<and> msg_rc w' = (msg_rc w)(m := msg_rc w m - 1)"
proof -
  define w1 where "w1 = upd_msg m (\<lambda>r. r\<lparr>m_ref := m_ref r - 1\<rparr>) w"
  have l: "m \<in> live_msgs w" "m_ref (msgs w m) \<noteq> 0"
    and w': "(if m_ref (msgs w1 m) = 0 then net_port_msg_delete m w1 else Some w1) = Some w'"
    using assms by (auto simp: msg_release_def w1_def Let_def word_less_1)
  have r1: "m_ref (msgs w1 m) = m_ref (msgs w m) - 1" "live_msgs w1 = live_msgs w"
    "\<And>x. x \<noteq> m \<Longrightarrow> msgs w1 x = msgs w x" by (simp_all add: w1_def upd_msg_def)
  note u = ref_value_minus [OF l(2)]
  show ?thesis
  proof (cases "m_ref (msgs w1 m) = 0")
    case True
    then have "net_port_msg_delete m w1 = Some w'" using w' by simp
    from msg_delete_effect [OF this] show ?thesis
      using True l r1 u by (auto simp: msg_rc_def fun_eq_iff)
  next
    case False
    then have "w' = w1" using w' by simp
    then show ?thesis using False l r1 u by (auto simp: msg_rc_def fun_eq_iff)
  qed
qed

interpretation msg: ref_counted msg_add msg_release msg_rc
  by unfold_locales (fact msg_add_rc msg_release_rc)+

text \<open>Clients and devices.\<close>

lemma cu_delete_effect:
  assumes "cu_delete c w = Some w'"
  shows "cus w' = cus w \<and> live_cus w' = live_cus w - {c} \<and> pus w' = pus w \<and> live_pus w' = live_pus w"
  using assms
  by (auto simp: cu_delete_def Let_def bind_eq_Some_conv same_servers_def dest!: release_all_servers)

lemma pu_delete_effect:
  assumes "pu_delete p w = Some w'"
  shows "pus w' = pus w \<and> live_pus w' = live_pus w - {p} \<and> cus w' = cus w \<and> live_cus w' = live_cus w"
  using assms
  by (auto simp: pu_delete_def Let_def bind_eq_Some_conv same_servers_def server_unregister_def
      dest!: release_all_servers msg_release_servers)

lemma cu_add_rc:
  "cu_add c w = Some w' \<Longrightarrow> cu_rc w c + 1 < 2 ^ 32 \<Longrightarrow> cu_rc w' = (cu_rc w)(c := cu_rc w c + 1)"
  by (auto simp: cu_add_def upd_cu_def cu_rc_def ref_value_plus fun_eq_iff)

lemma pu_add_rc:
  "pu_add p w = Some w' \<Longrightarrow> pu_rc w p + 1 < 2 ^ 32 \<Longrightarrow> pu_rc w' = (pu_rc w)(p := pu_rc w p + 1)"
  by (auto simp: pu_add_def upd_pu_def pu_rc_def ref_value_plus fun_eq_iff)

lemma cu_release_rc:
  assumes "cu_release c w = Some w'"
  shows "0 < cu_rc w c \<and> cu_rc w' = (cu_rc w)(c := cu_rc w c - 1)"
proof -
  define w1 where "w1 = upd_cu c (\<lambda>r. r\<lparr>cu_ref := cu_ref r - 1\<rparr>) w"
  have l: "c \<in> live_cus w" "cu_ref (cus w c) \<noteq> 0"
    and w': "(if cu_ref (cus w1 c) = 0 then cu_delete c w1 else Some w1) = Some w'"
    using assms by (auto simp: cu_release_def w1_def Let_def)
  have r1: "cu_ref (cus w1 c) = cu_ref (cus w c) - 1" "live_cus w1 = live_cus w"
    "\<And>x. x \<noteq> c \<Longrightarrow> cus w1 x = cus w x" by (simp_all add: w1_def upd_cu_def)
  note u = ref_value_minus [OF l(2)]
  show ?thesis
  proof (cases "cu_ref (cus w1 c) = 0")
    case True
    then have "cu_delete c w1 = Some w'" using w' by simp
    from cu_delete_effect [OF this] show ?thesis
      using True l r1 u by (auto simp: cu_rc_def fun_eq_iff)
  next
    case False
    then have "w' = w1" using w' by simp
    then show ?thesis using False l r1 u by (auto simp: cu_rc_def fun_eq_iff)
  qed
qed

lemma pu_release_rc:
  assumes "pu_release p w = Some w'"
  shows "0 < pu_rc w p \<and> pu_rc w' = (pu_rc w)(p := pu_rc w p - 1)"
proof -
  define w1 where "w1 = upd_pu p (\<lambda>r. r\<lparr>pu_ref := pu_ref r - 1\<rparr>) w"
  have l: "p \<in> live_pus w" "pu_ref (pus w p) \<noteq> 0"
    and w': "(if pu_ref (pus w1 p) = 0 then pu_delete p w1 else Some w1) = Some w'"
    using assms by (auto simp: pu_release_def w1_def Let_def)
  have r1: "pu_ref (pus w1 p) = pu_ref (pus w p) - 1" "live_pus w1 = live_pus w"
    "\<And>x. x \<noteq> p \<Longrightarrow> pus w1 x = pus w x" by (simp_all add: w1_def upd_pu_def)
  note u = ref_value_minus [OF l(2)]
  show ?thesis
  proof (cases "pu_ref (pus w1 p) = 0")
    case True
    then have "pu_delete p w1 = Some w'" using w' by simp
    from pu_delete_effect [OF this] show ?thesis
      using True l r1 u by (auto simp: pu_rc_def fun_eq_iff)
  next
    case False
    then have "w' = w1" using w' by simp
    then show ?thesis using False l r1 u by (auto simp: pu_rc_def fun_eq_iff)
  qed
qed

interpretation cu: ref_counted cu_add cu_release cu_rc
  by unfold_locales (fact cu_add_rc cu_release_rc)+

interpretation pu: ref_counted pu_add pu_release pu_rc
  by unfold_locales (fact pu_add_rc pu_release_rc)+

section \<open>Who holds a frame\<close>

text \<open>A message in a client's queue is held twice, by the creator's reference, which the sending thread
  gives back, and by the queue's; a message the sending thread took is held once.\<close>

definition sending :: "sender \<Rightarrow> ptr list" where
  "sending s = (case s of SSending ms _ \<Rightarrow> ms | SWriting ms \<Rightarrow> ms | _ \<Rightarrow> [])"

lemma sending_simps [simp]:
  "sending SStart = []" "sending SWaiting = []" "sending SReady = []" "sending SEnded = []"
  "sending (SSending ms e) = ms" "sending (SWriting ms) = ms" "sending (wake s) = sending s"
  by (simp_all add: sending_def wake_def)

definition cu_holds :: "ptr \<Rightarrow> cu_proxy \<Rightarrow> nat" where
  "cu_holds m r = 2 * count_list (cu_queue r) m + count_list (sending (cu_sender r)) m"

definition holds :: "world \<Rightarrow> ptr \<Rightarrow> nat" where
  "holds w m = (\<Sum>c \<in> live_cus w. cu_holds m (cus w c))"

lemma holds_upd:
  assumes "finite (live_cus w)" and "c \<in> live_cus w" and "live_cus w' = live_cus w"
    and "\<And>x. x \<noteq> c \<Longrightarrow> cus w' x = cus w x"
  shows "holds w' m + cu_holds m (cus w c) = holds w m + cu_holds m (cus w' c)"
proof -
  have "holds w m = cu_holds m (cus w c) + (\<Sum>x \<in> live_cus w - {c}. cu_holds m (cus w x))"
    unfolding holds_def using assms(1,2) by (rule sum.remove)
  moreover have "holds w' m = cu_holds m (cus w' c) + (\<Sum>x \<in> live_cus w - {c}. cu_holds m (cus w' x))"
    unfolding holds_def assms(3) using assms(1,2) by (rule sum.remove)
  moreover have "(\<Sum>x \<in> live_cus w - {c}. cu_holds m (cus w' x)) = (\<Sum>x \<in> live_cus w - {c}. cu_holds m (cus w x))"
    by (rule sum.cong) (auto simp: assms(4))
  ultimately show ?thesis by simp
qed

lemma holds_same: "same_servers w w' \<Longrightarrow> holds w' m = holds w m"
  by (simp add: same_servers_def holds_def)

lemma release_all_rc:
  "release_all ms w = Some w' \<Longrightarrow> msg_rc w' m + count_list ms m = msg_rc w m"
proof (induction ms arbitrary: w)
  case (Cons x ms)
  then obtain w1 where w1: "msg_release x w = Some w1" "release_all ms w1 = Some w'"
    by (auto simp: bind_eq_Some_conv)
  show ?case using Cons.IH [OF w1(2)] msg.rel_law [OF w1(1)] by (auto split: if_splits)
qed simp

text \<open>The count of a frame is what the clients hold.\<close>

definition frame_ok :: "world \<Rightarrow> ptr \<Rightarrow> bool" where
  "frame_ok w m = (msg_rc w m = holds w m)"

text \<open>A client changes, and the references it no longer holds are given back.\<close>

lemma frame_ok_upd:
  assumes "same_servers w w1" and "finite (live_cus w)" and "c \<in> live_cus w"
    and "msg_rc w1 m + k = msg_rc w m" and "cu_holds m (f (cus w c)) + k = cu_holds m (cus w c)"
    and "frame_ok w m"
  shows "frame_ok (upd_cu c f w1) m \<and> live_cus (upd_cu c f w1) = live_cus w"
proof -
  have s: "cus w1 = cus w" "live_cus w1 = live_cus w" using assms(1) by (simp_all add: same_servers_def)
  have "holds (upd_cu c f w1) m + cu_holds m (cus w c) = holds w m + cu_holds m (f (cus w c))"
    using holds_upd [OF assms(2,3), of "upd_cu c f w1" m] s by (simp add: upd_cu_def)
  moreover have "msg_rc (upd_cu c f w1) m = msg_rc w1 m" by (simp add: msg_rc_def upd_cu_def)
  ultimately show ?thesis using assms(4-6) s by (simp add: frame_ok_def upd_cu_def)
qed

lemma release_rc_eq: "msg_release x w = Some w' \<Longrightarrow> msg_rc w' m + (if x = m then 1 else 0) = msg_rc w m"
  using msg.rel_law [of x w w'] by auto

text \<open>A piece of the sending thread of a client that does not end the thread.\<close>

lemma cu_write_frame:
  assumes "cu_write c x ms w = Some w'" and "cu_sender (cus w c) = SSending (x # ms) False"
    and "finite (live_cus w)" and "c \<in> live_cus w" and "frame_ok w m"
  shows "frame_ok w' m \<and> live_cus w' = live_cus w"
proof -
  consider (wr) bs where "w' = set_cu_sender c (SWriting (x # ms)) (w\<lparr>net_out := net_out w @ [(cu_fd (cus w c), bs)]\<rparr>)"
    | (rel) w1 where "msg_release x w = Some w1" "w' = set_cu_sender c (SSending ms True) w1"
    using assms(1) by (auto simp: cu_write_def Let_def bind_eq_Some_conv split: if_splits)
  then show ?thesis
  proof cases
    case wr
    then show ?thesis unfolding wr set_cu_sender_def
      using assms by (intro frame_ok_upd [where k = 0]) (auto simp: same_servers_def msg_rc_def cu_holds_def)
  next
    case rel
    show ?thesis unfolding rel(2) set_cu_sender_def
      by (rule frame_ok_upd [OF msg_release_servers [OF rel(1)] assms(3,4) release_rc_eq [OF rel(1)] _ assms(5)])
        (simp add: assms(2) cu_holds_def)
  qed
qed

lemma cu_release_sender: "cu_release c w = Some w' \<Longrightarrow> cu_sender (cus w' c) = cu_sender (cus w c)"
  by (auto simp: cu_release_def Let_def upd_cu_def split: if_splits dest!: cu_delete_effect)

lemma cus_upd_cu [simp]: "cus (upd_cu c f w) c = f (cus w c)"
  by (simp add: upd_cu_def)

lemma cu_close_ended:
  assumes "cu_close c w = Some w'" and "cu_sender (cus w c) = SEnded"
  shows "cu_sender (cus w' c) = SEnded"
proof -
  obtain w1 where "cu_release c w1 = Some w'" "cu_sender (cus w1 c) = SEnded"
  proof (cases "cu_net (cus w c)")
    case False
    then show ?thesis using assms that [of w] by (simp add: cu_close_def)
  next
    case True
    define g where "g = (\<lambda>r. r\<lparr>cu_net := False, cu_sender := wake (cu_sender r)\<rparr> :: cu_proxy)"
    define u where "u = (case cu_wrap (cus w c) of None \<Rightarrow> w
      | Some m \<Rightarrow> upd_cu c (\<lambda>r. r\<lparr>cu_wrap := None\<rparr>) (w\<lparr>woken := woken w @ [m_cond (msgs w m)]\<rparr>))"
    have "cu_release c (upd_cu c g u) = Some w'"
      using assms(1) True by (cases "cu_wrap (cus w c)") (simp_all add: cu_close_def g_def u_def)
    moreover have "cu_sender (cus u c) = SEnded" using assms(2) by (simp add: u_def split: option.split)
    ultimately show ?thesis using that by (simp add: g_def wake_def)
  qed
  then show ?thesis using cu_release_sender by fastforce
qed

lemma cu_send_exit_ended: "cu_send_exit c w = Some w' \<Longrightarrow> cu_sender (cus w' c) = SEnded"
  using cu_close_ended by (auto simp: cu_send_exit_def bind_eq_Some_conv upd_cu_def)

lemma cu_send_turn_frame:
  assumes "cu_send_turn c ok w = Some w'" and "cu_sender (cus w' c) \<noteq> SEnded" and "finite (live_cus w)"
    and "frame_ok w m"
  shows "frame_ok w' m \<and> live_cus w' = live_cus w"
proof -
  have c: "c \<in> live_cus w" using assms(1) by (simp add: cu_send_turn_def)
  have ended: False if "cu_send_exit c v = Some w'" for v
    using that assms(2) cu_send_exit_ended by blast
  have sender: "frame_ok (set_cu_sender c s v) m \<and> live_cus (set_cu_sender c s v) = live_cus w"
    if "same_servers w v" "msg_rc v m + k = msg_rc w m"
      "count_list (sending s) m + k = count_list (sending (cu_sender (cus w c))) m" for s v k
    unfolding set_cu_sender_def
    by (rule frame_ok_upd [OF that(1) assms(3) c that(2) _ assms(4)]) (use that(3) in \<open>simp add: cu_holds_def\<close>)
  show ?thesis
  proof (cases "cu_sender (cus w c)")
    case SStart
    then show ?thesis using assms(1) c sender [of w 0 SWaiting] by (simp add: cu_send_turn_def)
  next
    case SReady
    then obtain w1 where w1: "release_all (cu_queue (cus w c)) w = Some w1"
      "w' = set_cu_sender c (SSending (cu_queue (cus w c)) False) (upd_cu c (\<lambda>r. r\<lparr>cu_queue := []\<rparr>) w1)"
      using assms(1) ended
      by (auto simp: cu_send_turn_def cu_backup_def Let_def bind_eq_Some_conv split: if_splits)
    let ?f = "\<lambda>r. r\<lparr>cu_queue := [], cu_sender := SSending (cu_queue (cus w c)) False\<rparr>"
    have "w' = upd_cu c ?f w1" unfolding w1(2) by (simp add: set_cu_sender_def upd_cu_def)
    moreover have "frame_ok (upd_cu c ?f w1) m \<and> live_cus (upd_cu c ?f w1) = live_cus w"
      by (rule frame_ok_upd [OF release_all_servers [OF w1(1)] assms(3) c release_all_rc [OF w1(1)] _ assms(4)])
        (simp add: SReady cu_holds_def)
    ultimately show ?thesis by simp
  next
    case (SSending ms e)
    show ?thesis
    proof (cases ms)
      case Nil
      then have "w' = set_cu_sender c SWaiting w"
        using assms(1) ended SSending by (auto simp: cu_send_turn_def split: if_splits)
      then show ?thesis using sender [of w 0 SWaiting] SSending Nil by simp
    next
      case (Cons x xs)
      show ?thesis
      proof (cases e)
        case True
        then obtain w1 where w1: "msg_release x w = Some w1" "w' = set_cu_sender c (SSending xs True) w1"
          using assms(1) SSending Cons by (auto simp: cu_send_turn_def bind_eq_Some_conv)
        show ?thesis unfolding w1(2)
          by (rule sender [OF msg_release_servers [OF w1(1)] release_rc_eq [OF w1(1)]])
            (simp add: SSending Cons)
      next
        case False
        then show ?thesis
          using cu_write_frame [of c x xs w w' m] assms c SSending Cons by (simp add: cu_send_turn_def)
      qed
    qed
  next
    case (SWriting ms)
    show ?thesis
    proof (cases ms)
      case Nil
      then show ?thesis using assms SWriting by (simp add: cu_send_turn_def)
    next
      case (Cons x xs)
      then obtain w1 where w1: "msg_release x w = Some w1" "w' = set_cu_sender c (SSending xs (\<not> ok)) w1"
        using assms(1) SWriting by (auto simp: cu_send_turn_def bind_eq_Some_conv)
      show ?thesis unfolding w1(2)
        by (rule sender [OF msg_release_servers [OF w1(1)] release_rc_eq [OF w1(1)]])
          (simp add: SWriting Cons)
    qed
  qed (use assms c in \<open>auto simp: cu_send_turn_def\<close>)
qed

section \<open>Forwarding\<close>

text \<open>Handing a frame to one client that is connected.\<close>

lemma cu_send_msg_frame:
  assumes "cu_send_msg c x w = Some w'" and "cu_net (cus w c)" and "finite (live_cus w)"
    and "msg_rc w x + 1 < 2 ^ 32"
  shows "live_cus w' = live_cus w \<and> (\<forall>d. cu_net (cus w' d) = cu_net (cus w d)) \<and>
    holds w' m = holds w m + (if x = m then 2 else 0) \<and> msg_rc w' m = msg_rc w m + (if x = m then 1 else 0) \<and>
    live_pus w' = live_pus w"
proof -
  define f where "f = (\<lambda>r. r\<lparr>cu_queue := cu_queue r @ [x], cu_sender := wake (cu_sender r)\<rparr> :: cu_proxy)"
  obtain w1 where w1: "msg_add x w = Some w1" "w' = upd_cu c f w1" and c: "c \<in> live_cus w"
    using assms(1,2) by (auto simp: cu_send_msg_def bind_eq_Some_conv f_def)
  have s: "cus w1 = cus w" "live_cus w1 = live_cus w" "live_pus w1 = live_pus w"
    using msg_add_servers [OF w1(1)] by (simp_all add: same_servers_def)
  have "holds w' m + cu_holds m (cus w c) = holds w m + cu_holds m (f (cus w c))"
    using holds_upd [OF assms(3) c, of w' m] s by (simp add: w1(2) upd_cu_def)
  moreover have "cu_holds m (f (cus w c)) = cu_holds m (cus w c) + (if x = m then 2 else 0)"
    by (simp add: f_def cu_holds_def)
  moreover have "msg_rc w' = msg_rc w1" by (simp add: w1(2) upd_cu_def msg_rc_def fun_eq_iff)
  ultimately show ?thesis
    using s msg.add_law [OF w1(1) assms(4)] by (auto simp: w1(2) upd_cu_def f_def)
qed

lemma forward_frame:
  assumes "forward x cs w = Some w'" and "\<forall>c \<in> set cs. cu_net (cus w c)" and "finite (live_cus w)"
    and "msg_rc w x + 2 * length cs + 1 < 2 ^ 32"
  shows "live_cus w' = live_cus w \<and>
    holds w' m = holds w m + (if x = m then 2 * length cs else 0) \<and>
    msg_rc w' m = msg_rc w m + (if x = m then 2 * length cs else 0)"
  using assms
proof (induction cs arbitrary: w)
  case (Cons c cs)
  obtain w1 w2 where w: "msg_add x w = Some w1" "cu_send_msg c x w1 = Some w2" "forward x cs w2 = Some w'"
    using Cons.prems(1) by (auto simp: bind_eq_Some_conv)
  have b: "msg_rc w x + 1 < 2 ^ 32" using Cons.prems(4) by simp
  have s: "cus w1 = cus w" "live_cus w1 = live_cus w" "holds w1 m = holds w m"
    using msg_add_servers [OF w(1)] holds_same [OF msg_add_servers [OF w(1)]]
    by (simp_all add: same_servers_def)
  have r1: "msg_rc w1 = (msg_rc w)(x := msg_rc w x + 1)" by (rule msg.add_law [OF w(1) b])
  have b1: "msg_rc w1 x + 1 < 2 ^ 32" using Cons.prems(4) r1 by simp
  have t: "live_cus w2 = live_cus w1 \<and> (\<forall>d. cu_net (cus w2 d) = cu_net (cus w1 d)) \<and>
      holds w2 k = holds w1 k + (if x = k then 2 else 0) \<and> msg_rc w2 k = msg_rc w1 k + (if x = k then 1 else 0) \<and>
      live_pus w2 = live_pus w1" for k
    by (rule cu_send_msg_frame [OF w(2) _ _ b1]) (use Cons.prems(2,3) s in auto)
  have b2: "msg_rc w2 x + 2 * length cs + 1 < 2 ^ 32" using t [of x] r1 Cons.prems(4) by simp
  have "\<forall>d \<in> set cs. cu_net (cus w2 d)" "finite (live_cus w2)"
    using t s Cons.prems(2,3) by auto
  from Cons.IH [OF w(3) this b2]
  have "live_cus w' = live_cus w2" "holds w' m = holds w2 m + (if x = m then 2 * length cs else 0)"
    "msg_rc w' m = msg_rc w2 m + (if x = m then 2 * length cs else 0)" by blast+
  then show ?case using t [of m] s r1 by (simp split: if_splits)
qed simp

text \<open>A frame that arrives is held by the clients only; the counts of other frames stay as they are.\<close>

lemma forward_video_frame:
  assumes "forward_video p x hdr b w = Some w'" and "x \<notin> live_msgs w" and "holds w x = 0"
    and "\<forall>c \<in> set (pu_cus (pus w p)). cu_net (cus w c)" and "finite (live_cus w)"
    and "length (pu_cus (pus w p)) < 2 ^ 30"
  shows "live_cus w' = live_cus w \<and> frame_ok w' x \<and> (frame_ok w m \<longrightarrow> m \<noteq> x \<longrightarrow> frame_ok w' m)"
proof -
  define cs where "cs = pu_cus (pus w p)"
  define w1 where "w1 = upd_msg x (\<lambda>r. r\<lparr>m_hdr := hdr, m_body := b\<rparr>) (net_port_msg_new x w)"
  have s: "cus w1 = cus w" "live_cus w1 = live_cus w" "pus w1 = pus w"
    by (simp_all add: w1_def upd_msg_def net_port_msg_new_def)
  have r1: "msg_rc w1 = (msg_rc w)(x := 1)"
    by (auto simp: w1_def upd_msg_def net_port_msg_new_def msg_rc_def ref_value_def fun_eq_iff)
  have h1: "holds w1 k = holds w k" for k using s by (simp add: holds_def)
  obtain w2 where w2: "forward x cs w1 = Some w2" "msg_release x w2 = Some w'"
    using assms(1) s(3)
    by (auto simp: forward_video_def Let_def w1_def [symmetric] cs_def bind_eq_Some_conv)
  have f: "live_cus w2 = live_cus w1 \<and> holds w2 k = holds w1 k + (if x = k then 2 * length cs else 0) \<and>
      msg_rc w2 k = msg_rc w1 k + (if x = k then 2 * length cs else 0)" for k
    by (rule forward_frame [OF w2(1)]) (use assms(4-6) s r1 in \<open>auto simp: cs_def\<close>)
  have r: "msg_rc w' = (msg_rc w2)(x := msg_rc w2 x - 1)" using msg.rel_law [OF w2(2)] by blast
  have h: "holds w' k = holds w2 k" "live_cus w' = live_cus w2" for k
    using holds_same [OF msg_release_servers [OF w2(2)]] msg_release_servers [OF w2(2)]
    by (simp_all add: same_servers_def)
  show ?thesis
    using f [of x] f [of m] r h h1 r1 s assms(3) by (simp add: frame_ok_def)
qed

text \<open>A heartbeat of a client is answered through its own queue.\<close>

lemma heartbeat_frame:
  assumes "cu_recv_turn c (Some h) body_in x b cond w = Some (True, w')" and "h_bodylen (transfer_in h) = 0"
    and "h_cmdno (transfer_in h) = hmcmd_heartbeat" and "x \<notin> live_msgs w" and "holds w x = 0"
    and "finite (live_cus w)"
  shows "live_cus w' = live_cus w \<and> frame_ok w' x \<and> (frame_ok w m \<longrightarrow> m \<noteq> x \<longrightarrow> frame_ok w' m)"
proof -
  define w1 where "w1 = upd_msg x (\<lambda>r. r\<lparr>m_hdr := transfer_in h\<rparr>) (net_port_msg_new x w)"
  define w2 where "w2 = upd_msg x (\<lambda>r. r\<lparr>m_hdr := (m_hdr r)\<lparr>h_cmdno := make_response_command hmcmd_heartbeat,
      h_bodylen := 0\<rparr>\<rparr>) w1"
  have n: "cu_net (cus w c)" and d: "cu_dispatch c x cond (transfer_in h) w1 = Some (True, w')"
    using assms(1,2)
    by (auto simp: cu_recv_turn_def Let_def w1_def bind_eq_Some_conv split: if_splits)
  have w': "cu_send_msg c x w2 = Some w'"
    using d assms(3) by (auto simp: cu_dispatch_def Let_def w2_def bind_eq_Some_conv)
  have s: "cus w2 = cus w" "live_cus w2 = live_cus w"
    by (simp_all add: w2_def w1_def upd_msg_def net_port_msg_new_def)
  have r2: "msg_rc w2 = (msg_rc w)(x := 1)"
    by (auto simp: w2_def w1_def upd_msg_def net_port_msg_new_def msg_rc_def ref_value_def fun_eq_iff)
  have h2: "holds w2 k = holds w k" for k using s by (simp add: holds_def)
  have f: "live_cus w' = live_cus w2 \<and> (\<forall>d. cu_net (cus w' d) = cu_net (cus w2 d)) \<and>
      holds w' k = holds w2 k + (if x = k then 2 else 0) \<and>
      msg_rc w' k = msg_rc w2 k + (if x = k then 1 else 0) \<and> live_pus w' = live_pus w2" for k
    by (rule cu_send_msg_frame [OF w']) (use n s r2 assms(6) in auto)
  show ?thesis using f [of x] f [of m] h2 r2 s assms(5) by (simp add: frame_ok_def)
qed

end
