(* ===== verification/ProxyProps.thy ===== *)
theory ProxyProps
  imports ProxyRefs
begin

text \<open>
  Properties of the message traffic between a device and its clients.
\<close>

section \<open>Reference counts of frames\<close>





text \<open>A device (at 20) and a client (at 10) that watches it; the header of a heartbeat and of a frame.\<close>

definition cu0 :: cu_proxy where
  "cu0 = \<lparr>cu_ref = 2, cu_queue = [], cu_fd = 5, cu_net = True, cu_pu = 20, cu_video_serial = 0,
          cu_wrap = None, cu_sender = SWaiting\<rparr>"

definition pu0 :: pu_proxy where
  "pu0 = \<lparr>pu_sn = ''a'', pu_ref = 2, pu_queue = [], pu_fd = 6, pu_net = True, pu_cus = [10],
          pu_video_cmd = 0, pu_serial = 1, pu_sender = SWaiting\<rparr>"

definition msg0 :: net_port_msg where
  "msg0 = \<lparr>m_hdr = zero_header, m_body = 0, m_cond = 0, m_ref = 0\<rparr>"

definition world0 :: world where
  "world0 = \<lparr>msgs = (\<lambda>_. msg0), live_msgs = {}, bodies = (\<lambda>_. []), live_bodies = {}, pus = (\<lambda>_. pu0),
     live_pus = {20}, cus = (\<lambda>_. cu0), live_cus = {10}, pu_dev_count = 1, cu_dev_count = 1,
     device_map = Map.empty, net_out = [], closed_fds = [], started = [], woken = []\<rparr>"

lemmas world_evals = world0_def cu0_def pu0_def msg0_def zero_header_def forward_video_def cu_send_msg_def
  msg_add_def msg_release_def net_port_msg_delete_def free_body_def net_port_msg_new_def upd_msg_def
  upd_cu_def upd_pu_def guard_def wake_def holds_def cu_holds_def frame_ok_def msg_rc_def


text \<open>A frame for a client that is no longer connected is leaked: the reference taken for the client is
  never given back, and when the other clients are done the frame stays allocated with count 1 while
  nobody holds it.\<close>

theorem frame_leak:
  assumes "pu_cus (pus w p) = [c]" and "c \<in> live_cus w" and "\<not> cu_net (cus w c)" and "finite (live_cus w)"
    and "holds w x = 0"
  shows "\<exists>w'. forward_video p x hdr b w = Some w' \<and> x \<in> live_msgs w' \<and> msg_rc w' x = 1 \<and>
    holds w' x = 0 \<and> cus w' = cus w"
proof -
  define w' where "w' = w\<lparr>msgs := (msgs w)(x := \<lparr>m_hdr = hdr, m_body = b, m_cond = 0, m_ref = 1\<rparr>),
    live_msgs := insert x (live_msgs w)\<rparr>"
  have "forward_video p x hdr b w = Some w'"
    using assms(1-3)
    by (simp add: forward_video_def net_port_msg_new_def upd_msg_def msg_add_def cu_send_msg_def guard_def
        msg_release_def Let_def w'_def)
  moreover have "holds w' x = 0" using assms(5) by (simp add: w'_def holds_def)
  ultimately show ?thesis by (auto simp: w'_def msg_rc_def ref_value_def)
qed

theorem frame_leak_witness:
  "\<exists>w'. forward_video 20 7 zero_header 0 (world0\<lparr>cus := (\<lambda>_. cu0\<lparr>cu_net := False\<rparr>)\<rparr>) = Some w' \<and>
     7 \<in> live_msgs w' \<and> msg_rc w' 7 = 1"
proof -
  let ?w = "world0\<lparr>cus := (\<lambda>_. cu0\<lparr>cu_net := False\<rparr>)\<rparr>"
  have "pu_cus (pus ?w 20) = [10]" "10 \<in> live_cus ?w" "\<not> cu_net (cus ?w 10)" "finite (live_cus ?w)"
    "holds ?w 7 = 0" by (simp_all add: world0_def pu0_def cu0_def holds_def cu_holds_def)
  from frame_leak [OF this] show ?thesis by blast
qed

section \<open>A heartbeat with a body\<close>

text \<open>The body of a client's request is freed as soon as it was read, but the message keeps its
  address: a heartbeat with a body is answered, and when the sending thread gives back the message its
  body is freed a second time.\<close>

theorem heartbeat_double_free:
  assumes "cu_recv_turn c (Some h) (Some xs) m b cond w = Some (True, w1)" and "b \<noteq> 0"
    and "h_bodylen (transfer_in h) \<noteq> 0" and "h_cmdno (transfer_in h) = hmcmd_heartbeat"
    and "cu_queue (cus w c) = []" and "cu_sender (cus w c) = SWaiting"
  shows "\<exists>w2 w3. cu_send_turn c True w1 = Some w2 \<and> cu_send_turn c True w2 = Some w3 \<and>
    net_out w3 = net_out w @ [(cu_fd (cus w c), header_bytes (transfer_out ((transfer_in h)
      \<lparr>h_cmdno := make_response_command hmcmd_heartbeat, h_bodylen := 0\<rparr>)))] \<and>
    cu_send_turn c True w3 = None"
proof -
  define hdr where "hdr = (transfer_in h)\<lparr>h_cmdno := make_response_command hmcmd_heartbeat, h_bodylen := 0\<rparr>"
  define r where "r n = \<lparr>m_hdr = hdr, m_body = b, m_cond = 0, m_ref = n\<rparr>" for n
  have n: "cu_net (cus w c)" "c \<in> live_cus w" using assms(1)
    by (auto simp: cu_recv_turn_def Let_def bind_eq_Some_conv split: if_splits)
  define v where "v q s k = w\<lparr>msgs := (msgs w)(m := r k), live_msgs := insert m (live_msgs w),
    bodies := (bodies w)(b := take (unat (h_bodylen (transfer_in h))) xs), live_bodies := live_bodies w - {b},
    cus := (cus w)(c := (cus w c)\<lparr>cu_queue := q, cu_sender := s\<rparr>)\<rparr>" for q s k
  have w1: "w1 = v [m] SReady 2"
    using assms n
    by (auto simp: cu_recv_turn_def Let_def cu_read_body_def alloc_body_def free_body_def cu_dispatch_def
        cu_send_msg_def msg_add_def upd_msg_def upd_cu_def net_port_msg_new_def wake_def v_def r_def hdr_def
        bind_eq_Some_conv zero_header_def split: if_splits)
  have h: "h_bodylen hdr = 0" "h_cmdno hdr \<noteq> hmcmd_recv_video"
    by (simp_all add: hdr_def make_response_command_def hmcmd_heartbeat_def hmcmd_recv_video_def
        command_dir_response_def)
  have t1: "cu_send_turn c True w1 = Some (v [] (SSending [m] False) 1)"
    using n unfolding w1
    by (simp add: cu_send_turn_def v_def cu_backup_def msg_release_def upd_msg_def upd_cu_def guard_def
        set_cu_sender_def r_def Let_def)
  define w3 where "w3 = (v [] (SWriting [m]) 1)\<lparr>net_out := net_out w @ [(cu_fd (cus w c), header_bytes (transfer_out hdr))]\<rparr>"
  have t2: "cu_send_turn c True (v [] (SSending [m] False) 1) = Some w3"
    using n h
    by (simp add: cu_send_turn_def v_def cu_write_def upd_cu_def guard_def packet_def
        set_cu_sender_def r_def Let_def w3_def)
  have t3: "cu_send_turn c True w3 = None"
    using n assms(2)
    by (simp add: cu_send_turn_def v_def w3_def msg_release_def net_port_msg_delete_def free_body_def
        upd_msg_def guard_def r_def Let_def)
  have "net_out w3 = net_out w @ [(cu_fd (cus w c), header_bytes (transfer_out hdr))]"
    by (simp add: w3_def)
  then show ?thesis using t1 t2 t3 unfolding hdr_def by blast
qed

theorem heartbeat_double_free_witness:
  "\<exists>w1 w2 w3. cu_recv_turn 10 (Some (transfer_out (zero_header\<lparr>h_cmdno := hmcmd_heartbeat, h_bodylen := 1\<rparr>)))
      (Some [65]) 7 8 3 world0 = Some (True, w1) \<and>
    cu_send_turn 10 True w1 = Some w2 \<and> cu_send_turn 10 True w2 = Some w3 \<and>
    cu_send_turn 10 True w3 = None"
proof -
  define h where "h = transfer_out (zero_header\<lparr>h_cmdno := hmcmd_heartbeat, h_bodylen := 1\<rparr>)"
  have h: "h_bodylen (transfer_in h) = 1" "h_cmdno (transfer_in h) = hmcmd_heartbeat"
    by (simp_all add: h_def transfer_in_out)
  obtain w1 where w1: "cu_recv_turn 10 (Some h) (Some [65]) 7 8 3 world0 = Some (True, w1)"
    using h
    by (simp add: cu_recv_turn_def check_net_def pu_is_valid_def cu_read_body_def alloc_body_def
        cu_dispatch_def world_evals)
  have "cu_queue (cus world0 10) = []" "cu_sender (cus world0 10) = SWaiting"
    by (simp_all add: world0_def cu0_def)
  then show ?thesis
    using heartbeat_double_free [OF w1 _ _ h(2)] h(1) w1 unfolding h_def by auto
qed

end
