(* ===== verification/TiText.thy ===== *)
theory TiText
  imports Prelude "HOL-Library.Char_ord"
begin

unbundle bit_operations_syntax

text \<open>
  The character level of the XML library (\<^verbatim>\<open>tinyxmlparser.cpp\<close>, \<^verbatim>\<open>tinyxml.cpp\<close>): white space, names,
  entities, text, and the encoding of text.  A pointer into the input is the rest of the C string from
  it; the empty list stands at the terminating null character.
\<close>

section \<open>Characters\<close>

datatype encoding = ENC_UNKNOWN | ENC_UTF8 | ENC_LEGACY

abbreviation code :: "char \<Rightarrow> nat" where "code c \<equiv> of_char c"

text \<open>\<^verbatim>\<open>isspace\<close>, \<^verbatim>\<open>isalpha\<close>, \<^verbatim>\<open>isalnum\<close> and \<^verbatim>\<open>tolower\<close> of the C locale.\<close>

definition IsWhiteSpace :: "char \<Rightarrow> bool" where
  "IsWhiteSpace c = (code c = 32 \<or> (9 \<le> code c \<and> code c \<le> 13))"

definition is_letter :: "char \<Rightarrow> bool" where
  "is_letter c = ((65 \<le> code c \<and> code c \<le> 90) \<or> (97 \<le> code c \<and> code c \<le> 122))"

definition is_digit :: "char \<Rightarrow> bool" where
  "is_digit c = (48 \<le> code c \<and> code c \<le> 57)"

definition IsAlpha :: "char \<Rightarrow> bool" where
  "IsAlpha c = (if code c < 127 then is_letter c else True)"

definition IsAlphaNum :: "char \<Rightarrow> bool" where
  "IsAlphaNum c = (if code c < 127 then is_letter c \<or> is_digit c else True)"

definition to_lower :: "char \<Rightarrow> char" where
  "to_lower c = (if 65 \<le> code c \<and> code c \<le> 90 then char_of (code c + 32) else c)"

text \<open>The number of bytes of a character, by its first byte (\<^verbatim>\<open>utf8ByteTable\<close>).\<close>

definition utf8_bytes :: "nat \<Rightarrow> nat" where
  "utf8_bytes n =
     (if n < 0xC2 then 1 else if n < 0xE0 then 2 else if n < 0xF0 then 3 else if n < 0xF5 then 4 else 1)"

text \<open>\<^verbatim>\<open>ConvertUTF32ToUTF8\<close>: the bytes stored, none when the value is too large.\<close>

definition byte_char :: "u32 \<Rightarrow> char" where
  "byte_char v = char_of (unat (v AND 0xFF))"

definition continuation :: "u32 \<Rightarrow> char" where
  "continuation v = byte_char ((v OR 0x80) AND 0xBF)"

definition ConvertUTF32ToUTF8 :: "u32 \<Rightarrow> string" where
  "ConvertUTF32ToUTF8 v =
     (if v < 0x80 then [byte_char v]
      else if v < 0x800 then [byte_char (drop_bit 6 v OR 0xC0), continuation v]
      else if v < 0x10000 then [byte_char (drop_bit 12 v OR 0xE0), continuation (drop_bit 6 v), continuation v]
      else if v < 0x200000
      then [byte_char (drop_bit 18 v OR 0xF0), continuation (drop_bit 12 v), continuation (drop_bit 6 v),
            continuation v]
      else [])"

section \<open>White space, names, comparison\<close>

text \<open>The byte order marks that \<^verbatim>\<open>SkipWhiteSpace\<close> passes over.\<close>

definition bom :: "string \<Rightarrow> bool" where
  "bom p = (map code (take 3 p) \<in> {[0xEF, 0xBB, 0xBF], [0xEF, 0xBF, 0xBE], [0xEF, 0xBF, 0xBF]})"

lemma bom_length: "bom p \<Longrightarrow> 3 \<le> length p"
proof -
  assume "bom p"
  then have "length (map code (take 3 p)) = 3" by (auto simp: bom_def simp del: length_take length_map dest: arg_cong [where f = length])
  then show ?thesis by simp
qed

function skip_space :: "encoding \<Rightarrow> string \<Rightarrow> string" where
  "skip_space e [] = []"
| "skip_space e (c # p) =
     (if e = ENC_UTF8 \<and> bom (c # p) then skip_space e (drop 3 (c # p))
      else if IsWhiteSpace c then skip_space e p
      else c # p)"
  by pat_completeness auto
termination by (relation "measure (\<lambda>(e, p). length p)") (auto dest: bom_length)

text \<open>\<^verbatim>\<open>SkipWhiteSpace\<close>: null at the end of the string and for a null pointer.\<close>

definition SkipWhiteSpace :: "encoding \<Rightarrow> string option \<Rightarrow> string option" where
  "SkipWhiteSpace e p = (case p of None \<Rightarrow> None | Some [] \<Rightarrow> None | Some s \<Rightarrow> Some (skip_space e s))"

definition name_start :: "char \<Rightarrow> bool" where
  "name_start c = (IsAlpha c \<or> c = CHR ''_'')"

definition name_char :: "char \<Rightarrow> bool" where
  "name_char c = (IsAlphaNum c \<or> c \<in> {CHR ''_'', CHR ''-'', CHR ''.'', CHR '':''})"

definition ReadName :: "string \<Rightarrow> (string \<times> string) option" where
  "ReadName p =
     (case p of
        [] \<Rightarrow> None
      | c # _ \<Rightarrow> if name_start c then Some (takeWhile name_char p, dropWhile name_char p) else None)"

text \<open>\<^verbatim>\<open>StringEqual\<close>: does the input begin with the tag; at the end of the input it asserts.\<close>

fun begins :: "bool \<Rightarrow> string \<Rightarrow> string \<Rightarrow> bool" where
  "begins ci [] q = True"
| "begins ci (t # tag) [] = False"
| "begins ci (t # tag) (c # q) = ((if ci then to_lower c = to_lower t else c = t) \<and> begins ci tag q)"

definition StringEqual :: "string \<Rightarrow> string \<Rightarrow> bool \<Rightarrow> bool" where
  "StringEqual p tag ci = (p \<noteq> [] \<and> begins ci tag p)"

section \<open>Entities\<close>

definition hex_value :: "char \<Rightarrow> u32 option" where
  "hex_value c =
     (if is_digit c then Some (of_nat (code c - 48))
      else if 97 \<le> code c \<and> code c \<le> 102 then Some (of_nat (code c - 97 + 10))
      else if 65 \<le> code c \<and> code c \<le> 70 then Some (of_nat (code c - 65 + 10))
      else None)"

definition dec_value :: "char \<Rightarrow> u32 option" where
  "dec_value c = (if is_digit c then Some (of_nat (code c - 48)) else None)"

text \<open>The loops over the digits, which go from the semicolon back to the character \<open>stop\<close>.\<close>

fun digits_value :: "(char \<Rightarrow> u32 option) \<Rightarrow> u32 \<Rightarrow> char \<Rightarrow> string \<Rightarrow> u32 \<Rightarrow> u32 \<Rightarrow> u32 option" where
  "digits_value dv base stop [] m ucs = Some ucs"
| "digits_value dv base stop (c # cs) m ucs =
     (if c = stop then Some ucs
      else case dv c of
             None \<Rightarrow> None
           | Some d \<Rightarrow> digits_value dv base stop cs (m * base) (ucs + m * d))"

text \<open>What reading a character gives: bytes and the rest; the null pointer; or a pointer past the
  terminating null character.\<close>

datatype scan = Chars string string | Null | Past

definition store_char :: "encoding \<Rightarrow> u32 \<Rightarrow> string" where
  "store_char e ucs = (if e = ENC_UTF8 then ConvertUTF32ToUTF8 ucs else [byte_char ucs])"

definition numeric_entity ::
  "encoding \<Rightarrow> (char \<Rightarrow> u32 option) \<Rightarrow> u32 \<Rightarrow> char \<Rightarrow> string \<Rightarrow> scan" where
  "numeric_entity e dv base stop p =
     (if CHR '';'' \<notin> set p then Null
      else case digits_value dv base stop (rev (takeWhile (\<lambda>c. c \<noteq> CHR '';'') p)) 1 0 of
             None \<Rightarrow> Null
           | Some ucs \<Rightarrow> Chars (store_char e ucs) (tl (dropWhile (\<lambda>c. c \<noteq> CHR '';'') p)))"

text \<open>The table \<^verbatim>\<open>entity\<close>.\<close>

definition entities :: "(string \<times> char) list" where
  "entities =
     [(''&amp;'', CHR ''&''), (''&lt;'', CHR ''<''), (''&gt;'', CHR ''>''), (''&quot;'', CHR 0x22),
      (''&apos;'', CHR 0x27)]"

fun find_entity :: "(string \<times> char) list \<Rightarrow> string \<Rightarrow> scan" where
  "find_entity [] p = Chars [] (tl p)"
| "find_entity ((s, c) # es) p = (if begins False s p then Chars [c] (drop (length s) p) else find_entity es p)"

text \<open>\<^verbatim>\<open>GetEntity\<close>; an ampersand that begins no entity is dropped.\<close>

definition GetEntity :: "encoding \<Rightarrow> string \<Rightarrow> scan" where
  "GetEntity e p =
     (case p of
        _ # h # x # rest \<Rightarrow>
          if h = CHR ''#''
          then if x = CHR ''x''
               then if rest = [] then Null else numeric_entity e hex_value 16 (CHR ''x'') rest
               else numeric_entity e dec_value 10 (CHR ''#'') (x # rest)
          else find_entity entities p
      | _ \<Rightarrow> find_entity entities p)"

definition GetChar :: "encoding \<Rightarrow> string \<Rightarrow> scan" where
  "GetChar e p =
     (case p of
        [] \<Rightarrow> Null
      | c # rest \<Rightarrow>
          (let n = (if e = ENC_UTF8 then utf8_bytes (code c) else 1) in
           if n = 1 then if c = CHR ''&'' then GetEntity e p else Chars [c] rest
           else if n \<le> length p then Chars (take n p) (drop n p)
           else Past))"

lemma find_entity_shorter: "p \<noteq> [] \<Longrightarrow> find_entity es p = Chars x q \<Longrightarrow> (\<forall>(s, c) \<in> set es. s \<noteq> []) \<Longrightarrow> length q < length p"
proof (induction es)
  case (Cons a es)
  then show ?case by (cases a) (auto split: if_splits)
qed auto

lemma numeric_entity_shorter:
  assumes "numeric_entity e dv b s p = Chars x q"
  shows "length q < length p"
proof -
  have "CHR '';'' \<in> set p" "q = tl (dropWhile (\<lambda>c. c \<noteq> CHR '';'') p)"
    using assms by (auto simp: numeric_entity_def split: if_splits option.splits)
  moreover have "length (dropWhile (\<lambda>c. c \<noteq> CHR '';'') p) \<le> length p" by (rule length_dropWhile_le)
  moreover have "dropWhile (\<lambda>c. c \<noteq> CHR '';'') p \<noteq> []" using calculation(1) by (auto simp: dropWhile_eq_Nil_conv)
  ultimately show ?thesis by (cases "dropWhile (\<lambda>c. c \<noteq> CHR '';'') p") auto
qed

lemma GetEntity_shorter: "p \<noteq> [] \<Longrightarrow> GetEntity e p = Chars x q \<Longrightarrow> length q < length p"
  using find_entity_shorter [of p entities x q]
  by (auto simp: GetEntity_def entities_def split: list.splits if_splits dest!: numeric_entity_shorter)

lemma utf8_bytes_pos: "0 < utf8_bytes n"
  by (simp add: utf8_bytes_def)

lemma GetChar_shorter:
  assumes "GetChar e p = Chars x q"
  shows "length q < length p"
proof -
  have "p \<noteq> []" using assms by (auto simp: GetChar_def)
  then show ?thesis
    using assms utf8_bytes_pos GetEntity_shorter [of p e x q]
    by (auto simp: GetChar_def Let_def split: list.splits if_splits)
qed

section \<open>Text\<close>

text \<open>The loops of \<^verbatim>\<open>ReadText\<close>; the result is the text and the pointer, or \<open>None\<close> when the pointer went
  past the end of the string.\<close>

function text_keep ::
  "encoding \<Rightarrow> string \<Rightarrow> bool \<Rightarrow> string \<Rightarrow> string \<Rightarrow> (string \<times> string option) option" where
  "text_keep e tag ci p txt =
     (if p = [] \<or> StringEqual p tag ci then Some (txt, Some p)
      else case GetChar e p of
             Chars x q \<Rightarrow> text_keep e tag ci q (txt @ x)
           | Null \<Rightarrow> Some (txt, None)
           | Past \<Rightarrow> None)"
  by pat_completeness auto
termination by (relation "measure (\<lambda>(e, tag, ci, p, txt). length p)") (auto dest: GetChar_shorter)

declare text_keep.simps [simp del]

function text_trim ::
  "encoding \<Rightarrow> string \<Rightarrow> bool \<Rightarrow> string \<Rightarrow> bool \<Rightarrow> string \<Rightarrow> (string \<times> string option) option" where
  "text_trim e tag ci p white txt =
     (if p = [] \<or> StringEqual p tag ci then Some (txt, Some p)
      else if IsWhiteSpace (hd p) then text_trim e tag ci (tl p) True txt
      else case GetChar e p of
             Chars x q \<Rightarrow> text_trim e tag ci q False ((if white then txt @ '' '' else txt) @ x)
           | Null \<Rightarrow> Some (if white then txt @ '' '' else txt, None)
           | Past \<Rightarrow> None)"
  by pat_completeness auto
termination by (relation "measure (\<lambda>(e, tag, ci, p, white, txt). length p)") (auto dest: GetChar_shorter)

declare text_trim.simps [simp del]

text \<open>\<^verbatim>\<open>ReadText\<close>, with \<^verbatim>\<open>condenseWhiteSpace\<close> an argument: the pointer returned is null also when the
  end tag ends the input.\<close>

definition ReadText ::
  "bool \<Rightarrow> encoding \<Rightarrow> string option \<Rightarrow> bool \<Rightarrow> string \<Rightarrow> bool \<Rightarrow> (string \<times> string option) option" where
  "ReadText condense e p trim tag ci =
     (let start = (if \<not> trim \<or> \<not> condense then p else SkipWhiteSpace e p);
          r = (case start of
                 None \<Rightarrow> Some ([], None)
               | Some s \<Rightarrow> if \<not> trim \<or> \<not> condense then text_keep e tag ci s [] else text_trim e tag ci s False [])
      in case r of
           None \<Rightarrow> None
         | Some (txt, q) \<Rightarrow>
             Some (txt, case q of
                          None \<Rightarrow> None
                        | Some s \<Rightarrow> if s = [] then None
                                    else let s' = drop (length tag) s in if s' = [] then None else Some s'))"

section \<open>Encoding\<close>

definition hex_digit :: "nat \<Rightarrow> char" where
  "hex_digit n = (if n < 10 then char_of (48 + n) else char_of (55 + n))"

definition char_ref :: "char \<Rightarrow> string" where
  "char_ref c = ''&#x'' @ [hex_digit (code c div 16), hex_digit (code c mod 16), CHR '';'']"

text \<open>The part of the input that is passed through unchanged from an ampersand on, and the rest.\<close>

fun pass_ref :: "string \<Rightarrow> string \<times> string" where
  "pass_ref (c # d # s) =
     (if d = CHR '';'' then ([c], d # s)
      else case pass_ref (d # s) of (a, b) \<Rightarrow> (c # a, b))"
| "pass_ref s = ([], s)"

lemma pass_ref_shorter: "length (snd (pass_ref (c # d # s))) < length (c # d # s)"
proof (induction s arbitrary: c d)
  case (Cons x s)
  have "length (snd (pass_ref (d # x # s))) < length (d # x # s)" by (rule Cons.IH)
  then show ?case by (auto split: prod.splits simp del: pass_ref.simps(1) simp add: pass_ref.simps(1) [of c])
qed simp

definition encode_char :: "char \<Rightarrow> string" where
  "encode_char c =
     (if c = CHR ''&'' then ''&amp;''
      else if c = CHR ''<'' then ''&lt;''
      else if c = CHR ''>'' then ''&gt;''
      else if c = CHR 0x22 then ''&quot;''
      else if c = CHR 0x27 then ''&apos;''
      else if code c < 32 then char_ref c
      else [c])"

definition is_ref :: "string \<Rightarrow> bool" where
  "is_ref s = (take 3 s = ''&#x'')"

function EncodeString :: "string \<Rightarrow> string" where
  "EncodeString [] = []"
| "EncodeString (c # s) =
     (if is_ref (c # s) then fst (pass_ref (c # s)) @ EncodeString (snd (pass_ref (c # s)))
      else encode_char c @ EncodeString s)"
  by pat_completeness auto
termination
proof (relation "measure length")
  fix c :: char and s
  assume "is_ref (c # s)"
  then obtain d s' where "s = d # s'" by (cases s) (auto simp: is_ref_def)
  then show "(snd (pass_ref (c # s)), c # s) \<in> measure length" using pass_ref_shorter [of c d s'] by simp
qed auto

declare EncodeString.simps(2) [simp del]

end
