(* ===== verification/XmlTree.thy ===== *)
theory XmlTree
  imports TiText
begin

text \<open>
  The document tree of the XML library (\<^verbatim>\<open>tinyxml.h\<close>, \<^verbatim>\<open>tinyxml.cpp\<close>).  The sibling and parent pointers
  are the structure of the datatype; a pointer to a node is the path of child indices from the document.
\<close>

section \<open>Nodes\<close>

type_synonym attributes = "(string \<times> string) list"

datatype node_type =
    TINYXML_DOCUMENT
  | TINYXML_ELEMENT attributes
  | TINYXML_COMMENT
  | TINYXML_UNKNOWN
  | TINYXML_TEXT bool
  | TINYXML_DECLARATION string string string

datatype xnode = XNode (ntype: node_type) (nvalue: string) (children: "xnode list")

type_synonym path = "nat list"

definition is_element :: "xnode \<Rightarrow> bool" where
  "is_element x = (case ntype x of TINYXML_ELEMENT as \<Rightarrow> True | _ \<Rightarrow> False)"

definition is_text :: "xnode \<Rightarrow> bool" where
  "is_text x = (case ntype x of TINYXML_TEXT cdata \<Rightarrow> True | _ \<Rightarrow> False)"

definition attributes_of :: "xnode \<Rightarrow> attributes" where
  "attributes_of x = (case ntype x of TINYXML_ELEMENT as \<Rightarrow> as | _ \<Rightarrow> [])"

definition set_attributes :: "attributes \<Rightarrow> xnode \<Rightarrow> xnode" where
  "set_attributes as x = (case ntype x of TINYXML_ELEMENT bs \<Rightarrow> XNode (TINYXML_ELEMENT as) (nvalue x) (children x) | _ \<Rightarrow> x)"

definition new_element :: "string \<Rightarrow> xnode" where
  "new_element name = XNode (TINYXML_ELEMENT []) name []"

definition new_text :: "string \<Rightarrow> xnode" where
  "new_text s = XNode (TINYXML_TEXT False) s []"

definition new_document :: xnode where
  "new_document = XNode TINYXML_DOCUMENT [] []"

section \<open>Navigation\<close>

fun node_at :: "path \<Rightarrow> xnode \<Rightarrow> xnode option" where
  "node_at [] x = Some x"
| "node_at (i # p) x = (if i < length (children x) then node_at p (children x ! i) else None)"

fun upd_at :: "path \<Rightarrow> (xnode \<Rightarrow> xnode) \<Rightarrow> xnode \<Rightarrow> xnode" where
  "upd_at [] f x = f x"
| "upd_at (i # p) f x =
     (if i < length (children x)
      then XNode (ntype x) (nvalue x) ((children x)[i := upd_at p f (children x ! i)]) else x)"

text \<open>The loops over the children from index \<open>i\<close> on.\<close>

fun find_child :: "(xnode \<Rightarrow> bool) \<Rightarrow> nat \<Rightarrow> xnode list \<Rightarrow> nat option" where
  "find_child P i [] = None"
| "find_child P i (x # xs) = (if P x then Some i else find_child P (Suc i) xs)"

definition FirstChild :: "xnode \<Rightarrow> path \<Rightarrow> string \<Rightarrow> path option" where
  "FirstChild doc p name =
     (case node_at p doc of
        None \<Rightarrow> None
      | Some x \<Rightarrow> map_option (\<lambda>i. p @ [i]) (find_child (\<lambda>y. nvalue y = name) 0 (children x)))"

definition NextSibling :: "xnode \<Rightarrow> path \<Rightarrow> string \<Rightarrow> path option" where
  "NextSibling doc p name =
     (if p = [] then None
      else case node_at (butlast p) doc of
             None \<Rightarrow> None
           | Some x \<Rightarrow>
               map_option (\<lambda>i. butlast p @ [i])
                 (find_child (\<lambda>y. nvalue y = name) (Suc (last p)) (drop (Suc (last p)) (children x))))"

text \<open>\<^verbatim>\<open>FirstChildElement\<close>, and \<^verbatim>\<open>RootElement\<close> of the document.\<close>

definition FirstChildElement :: "xnode \<Rightarrow> path \<Rightarrow> path option" where
  "FirstChildElement doc p =
     (case node_at p doc of
        None \<Rightarrow> None
      | Some x \<Rightarrow> map_option (\<lambda>i. p @ [i]) (find_child is_element 0 (children x)))"

definition Parent :: "path \<Rightarrow> path option" where
  "Parent p = (if p = [] then None else Some (butlast p))"

text \<open>\<^verbatim>\<open>GetText\<close> of an element: the value of its first child when that is a text.\<close>

definition GetText :: "xnode \<Rightarrow> string option" where
  "GetText x = (case children x of [] \<Rightarrow> None | c # _ \<Rightarrow> if is_text c then Some (nvalue c) else None)"

section \<open>Building\<close>

definition link_child :: "xnode \<Rightarrow> xnode \<Rightarrow> xnode" where
  "link_child c x = XNode (ntype x) (nvalue x) (children x @ [c])"

text \<open>\<^verbatim>\<open>LinkEndChild\<close> of the node \<open>p\<close> and where the child is; a document is never a child.\<close>

definition LinkEndChild :: "path \<Rightarrow> xnode \<Rightarrow> xnode \<Rightarrow> path option \<times> xnode" where
  "LinkEndChild p c doc =
     (if ntype c = TINYXML_DOCUMENT then (None, doc)
      else (map_option (\<lambda>x. p @ [length (children x)]) (node_at p doc), upd_at p (link_child c) doc))"

text \<open>\<^verbatim>\<open>TiXmlAttributeSet::Find\<close> and \<^verbatim>\<open>FindOrCreate\<close> with the new value.\<close>

definition find_attribute :: "string \<Rightarrow> attributes \<Rightarrow> string option" where
  "find_attribute name as = map_of as name"

fun set_attribute :: "string \<Rightarrow> string \<Rightarrow> attributes \<Rightarrow> attributes" where
  "set_attribute name v [] = [(name, v)]"
| "set_attribute name v ((n, w) # as) = (if n = name then (n, v) # as else (n, w) # set_attribute name v as)"

text \<open>\<^verbatim>\<open>SetAttribute\<close>: \<^verbatim>\<open>Add\<close> gets the new attribute before it has its name, and asserts that there is none
  without a name.\<close>

definition SetAttribute :: "string \<Rightarrow> string \<Rightarrow> attributes \<Rightarrow> attributes option" where
  "SetAttribute name v as =
     (if find_attribute name as = None \<and> find_attribute [] as \<noteq> None then None else Some (set_attribute name v as))"

section \<open>Lemmas\<close>

lemma find_child_bounds: "find_child P i xs = Some j \<Longrightarrow> i \<le> j \<and> j < i + length xs \<and> P (xs ! (j - i))"
proof (induction xs arbitrary: i)
  case (Cons x xs)
  show ?case
  proof (cases "P x")
    case False
    then have r: "find_child P (Suc i) xs = Some j" using Cons.prems by simp
    have "Suc i \<le> j \<and> j < Suc i + length xs \<and> P (xs ! (j - Suc i))" by (rule Cons.IH [OF r])
    then show ?thesis by (auto simp: nth_Cons' Suc_diff_Suc)
  qed (use Cons.prems in auto)
qed simp

lemma node_at_append: "node_at (p @ q) x = (case node_at p x of None \<Rightarrow> None | Some y \<Rightarrow> node_at q y)"
  by (induction p arbitrary: x) auto

lemma node_at_upd: "node_at p (upd_at p f x) = map_option f (node_at p x)"
  by (induction p arbitrary: x) auto

lemma find_set_attribute: "find_attribute n (set_attribute m v as) = (if n = m then Some v else find_attribute n as)"
  by (induction as) (auto simp: find_attribute_def)

lemma set_attribute_names: "set (map fst (set_attribute n v as)) = insert n (set (map fst as))"
  by (induction n v as rule: set_attribute.induct) (simp_all add: insert_commute)

lemma set_attribute_distinct: "distinct (map fst as) \<Longrightarrow> distinct (map fst (set_attribute n v as))"
  by (induction n v as rule: set_attribute.induct) (auto simp: set_attribute_names [unfolded set_map])

lemma FirstChild_node:
  assumes "FirstChild doc p name = Some q"
  shows "\<exists>i y. q = p @ [i] \<and> node_at q doc = Some y \<and> nvalue y = name"
  using assms
  by (auto simp: FirstChild_def node_at_append split: option.splits dest!: find_child_bounds)

lemma LinkEndChild_node:
  assumes "ntype c \<noteq> TINYXML_DOCUMENT" and "node_at p doc = Some x"
  shows "\<exists>q. fst (LinkEndChild p c doc) = Some q \<and> node_at q (snd (LinkEndChild p c doc)) = Some c"
  using assms by (simp add: LinkEndChild_def node_at_append node_at_upd link_child_def)

end
