(* ===== verification/XmlParse.thy ===== *)
theory XmlParse
  imports XmlTree "HOL-Library.Sublist"
begin

text \<open>
  The parser of the XML library (\<^verbatim>\<open>tinyxmlparser.cpp\<close>).  An assertion has no effect, as in a release
  build.  Row and column of the nodes and of errors are not kept; the first error of a document is.
\<close>

section \<open>Errors\<close>

datatype xml_error =
    TIXML_ERROR_PARSING_ELEMENT
  | TIXML_ERROR_FAILED_TO_READ_ELEMENT_NAME
  | TIXML_ERROR_READING_ELEMENT_VALUE
  | TIXML_ERROR_READING_ATTRIBUTES
  | TIXML_ERROR_PARSING_EMPTY
  | TIXML_ERROR_READING_END_TAG
  | TIXML_ERROR_PARSING_UNKNOWN
  | TIXML_ERROR_PARSING_COMMENT
  | TIXML_ERROR_PARSING_DECLARATION
  | TIXML_ERROR_DOCUMENT_EMPTY
  | TIXML_ERROR_PARSING_CDATA
  | TIXML_ERROR_DOCUMENT_TOP_ONLY
  | TIXML_ERROR_OPENING_FILE

type_synonym err = "xml_error option"

definition SetError :: "xml_error \<Rightarrow> err \<Rightarrow> err" where
  "SetError x e = (case e of None \<Rightarrow> Some x | Some y \<Rightarrow> Some y)"

text \<open>An error of a node without a document is not recorded.\<close>

definition set_error_if :: "bool \<Rightarrow> xml_error \<Rightarrow> err \<Rightarrow> err" where
  "set_error_if document x e = (if document then SetError x e else e)"

text \<open>\<^verbatim>\<open>SkipWhiteSpace\<close> with the test that follows it: null and the end of the string are alike.\<close>

definition skip_to :: "encoding \<Rightarrow> string option \<Rightarrow> string option" where
  "skip_to e p = (case SkipWhiteSpace e p of Some s \<Rightarrow> if s = [] then None else Some s | None \<Rightarrow> None)"

section \<open>Attributes\<close>

text \<open>An unquoted value; no rest when a quote is found in it.\<close>

fun bare_value :: "string \<Rightarrow> string \<times> string option" where
  "bare_value [] = ([], Some [])"
| "bare_value (c # p) =
     (if IsWhiteSpace c \<or> c = CHR ''/'' \<or> c = CHR ''>'' then ([], Some (c # p))
      else if c = CHR 0x27 \<or> c = CHR 0x22 then ([], None)
      else case bare_value p of (v, q) \<Rightarrow> (c # v, q))"

text \<open>\<^verbatim>\<open>TiXmlAttribute::Parse\<close>: the name, the value, the pointer and the error; \<open>None\<close> when the pointer
  leaves the string.\<close>

definition attr_value :: "encoding \<Rightarrow> bool \<Rightarrow> string \<Rightarrow> err \<Rightarrow> (string \<times> string option \<times> err) option" where
  "attr_value e document p err =
     (if hd p = CHR 0x27 \<or> hd p = CHR 0x22
      then case ReadText True e (Some (tl p)) False [hd p] False of
             None \<Rightarrow> None
           | Some (v, q) \<Rightarrow> Some (v, q, err)
      else case bare_value p of
             (v, None) \<Rightarrow> Some (v, None, set_error_if document TIXML_ERROR_READING_ATTRIBUTES err)
           | (v, Some q) \<Rightarrow> Some (v, Some q, err))"

definition attr_parse ::
  "encoding \<Rightarrow> bool \<Rightarrow> string option \<Rightarrow> err \<Rightarrow> (string \<times> string \<times> string option \<times> err) option" where
  "attr_parse e document p err =
     (let bad = set_error_if document TIXML_ERROR_READING_ATTRIBUTES err in
      case skip_to e p of
        None \<Rightarrow> Some ([], [], None, err)
      | Some s \<Rightarrow>
          (case ReadName s of
             None \<Rightarrow> Some ([], [], None, bad)
           | Some (n, s1) \<Rightarrow>
               if s1 = [] then Some (n, [], None, bad)
               else case skip_to e (Some s1) of
                      None \<Rightarrow> Some (n, [], None, bad)
                    | Some s2 \<Rightarrow>
                        if hd s2 \<noteq> CHR ''='' then Some (n, [], None, bad)
                        else case skip_to e (Some (tl s2)) of
                               None \<Rightarrow> Some (n, [], None, bad)
                             | Some s3 \<Rightarrow> map_option (\<lambda>(v, q, er). (n, v, q, er)) (attr_value e document s3 err)))"

section \<open>Suffixes\<close>

text \<open>What every reading function leaves is a suffix of its input.\<close>

lemma suffix_length: "suffix q p \<Longrightarrow> length q \<le> length p"
  by (rule suffix_length_le)

lemma strict_suffix_length: "strict_suffix q p \<Longrightarrow> length q < length p"
  by (auto simp: strict_suffix_def suffix_def)

lemma suffix_ConsD2: "suffix (c # q) p \<Longrightarrow> strict_suffix q p"
  by (auto simp: strict_suffix_def suffix_def)

lemma strict_suffix_ConsI: "suffix q p \<Longrightarrow> strict_suffix q (c # p)"
  by (auto simp: strict_suffix_def suffix_def)

lemma suffix_strict: "suffix q p \<Longrightarrow> strict_suffix p r \<Longrightarrow> strict_suffix q r"
  "strict_suffix q p \<Longrightarrow> suffix p r \<Longrightarrow> strict_suffix q r"
  by (auto simp: strict_suffix_def suffix_def)

lemma strict_suffix_suffix: "strict_suffix q p \<Longrightarrow> suffix q p"
  by (simp add: strict_suffix_def)

lemma skip_space_suffix: "suffix (skip_space e p) p"
proof (induction e p rule: skip_space.induct)
  case (2 e c p)
  show ?case
  proof (cases "e = ENC_UTF8 \<and> bom (c # p)")
    case True
    then show ?thesis
      using 2(1) [OF True] suffix_drop [of 3 "c # p"] by (auto simp del: drop_Suc_Cons intro: suffix_order.trans)
  next
    case False
    then show ?thesis using 2(2) [OF False] by (auto intro: suffix_ConsI)
  qed
qed simp

lemma skip_to_suffix: "skip_to e p = Some s \<Longrightarrow> s \<noteq> [] \<and> (\<exists>p'. p = Some p' \<and> suffix s p')"
  using skip_space_suffix
  by (auto simp: skip_to_def SkipWhiteSpace_def simp del: skip_space.simps
      split: option.splits list.splits if_splits)

lemma ReadName_suffix:
  assumes "ReadName p = Some (n, q)"
  shows "n \<noteq> []" "strict_suffix q p"
proof -
  obtain c r where p: "p = c # r" and c: "name_start c" and n: "n = takeWhile name_char p"
    and q: "q = dropWhile name_char p"
    using assms by (auto simp: ReadName_def split: list.splits if_splits)
  have "name_char c" using c by (auto simp: name_start_def name_char_def IsAlpha_def IsAlphaNum_def)
  then show "n \<noteq> []" "strict_suffix q p"
    using suffix_dropWhile [of name_char r] by (auto simp: n q p intro: strict_suffix_ConsI)
qed

lemma bare_value_suffix: "bare_value p = (v, Some q) \<Longrightarrow> suffix q p"
  by (induction p arbitrary: v) (auto split: if_splits prod.splits intro: suffix_ConsI)

lemma suffix_tl: "suffix (tl p) p"
  by (cases p) (auto intro: suffix_ConsI)

lemma find_entity_suffix: "find_entity es p = Chars x q \<Longrightarrow> suffix q p"
  by (induction es p rule: find_entity.induct) (auto simp: suffix_tl suffix_drop split: if_splits)

lemma numeric_entity_suffix: "numeric_entity e dv b st p = Chars x q \<Longrightarrow> suffix q p"
  by (auto simp: numeric_entity_def split: if_splits option.splits
      intro!: suffix_order.trans [OF suffix_tl suffix_dropWhile])

lemma GetEntity_suffix: "GetEntity e p = Chars x q \<Longrightarrow> suffix q p"
  by (auto simp: GetEntity_def split: list.splits if_splits
      dest!: numeric_entity_suffix find_entity_suffix intro: suffix_ConsI)

lemma GetChar_suffix:
  assumes "GetChar e p = Chars x q"
  shows "strict_suffix q p"
proof -
  have "suffix q p"
    using assms suffix_drop
    by (auto simp: GetChar_def Let_def split: list.splits if_splits dest!: GetEntity_suffix
        intro: suffix_ConsI)
  moreover have "q \<noteq> p" using GetChar_shorter [OF assms] by auto
  ultimately show ?thesis by (simp add: strict_suffix_def)
qed

lemma GetChar_then: "suffix q r \<Longrightarrow> GetChar e p = Chars x r \<Longrightarrow> suffix q p"
  by (rule strict_suffix_suffix [OF suffix_strict(1) [OF _ GetChar_suffix]])

lemma tl_then: "suffix q (tl p) \<Longrightarrow> suffix q p"
  by (rule suffix_order.trans [OF _ suffix_tl])

lemma text_keep_suffix: "text_keep e tag ci p acc = Some (x, Some q) \<Longrightarrow> suffix q p"
proof (induction e tag ci p acc rule: text_keep.induct)
  case (1 e tag ci p acc)
  show ?case
    using 1(2) 1(1)
    by (subst (asm) text_keep.simps) (auto split: if_splits scan.splits intro: GetChar_then)
qed

lemma text_trim_suffix: "text_trim e tag ci p white acc = Some (x, Some q) \<Longrightarrow> suffix q p"
proof (induction e tag ci p white acc rule: text_trim.induct)
  case (1 e tag ci p white acc)
  show ?case
    using 1(3) 1(1,2)
    by (subst (asm) text_trim.simps) (auto split: if_splits scan.splits intro: GetChar_then tl_then)
qed

lemma ReadText_keep_suffix: "ReadText cw e (Some p) False tag ci = Some (v, Some q) \<Longrightarrow> suffix q p"
  by (auto simp: ReadText_def Let_def split: option.splits if_splits prod.splits
      intro!: suffix_order.trans [OF suffix_drop text_keep_suffix])

lemma attr_value_suffix:
  assumes "attr_value e d p err = Some (v, Some q, err')"
  shows "suffix q p"
  using assms
  by (auto simp: attr_value_def split: if_splits option.splits prod.splits
      dest: bare_value_suffix ReadText_keep_suffix intro: tl_then)

lemma attr_parse_suffix:
  assumes "attr_parse e d (Some p) err = Some (n, v, Some q, err')"
  shows "strict_suffix q p"
proof -
  obtain s s1 s2 s3 where s: "skip_to e (Some p) = Some s" "ReadName s = Some (n, s1)"
    "skip_to e (Some s1) = Some s2" "skip_to e (Some (tl s2)) = Some s3"
    "attr_value e d s3 err = Some (v, Some q, err')"
    using assms by (auto simp: attr_parse_def Let_def split: option.splits prod.splits if_splits)
  have "suffix q s3" using s(5) by (rule attr_value_suffix)
  moreover have "suffix s3 (tl s2)" "suffix s2 s1" "suffix s p"
    using skip_to_suffix [OF s(4)] skip_to_suffix [OF s(3)] skip_to_suffix [OF s(1)] by auto
  moreover have "strict_suffix s1 s" using s(2) by (rule ReadName_suffix)
  ultimately show ?thesis
    by (meson suffix_strict suffix_order.trans tl_then)
qed

section \<open>Start tags\<close>

datatype tag_end = Empty_Tag string | Open_Tag string | Bad_Tag

text \<open>The loop over the attributes in \<^verbatim>\<open>TiXmlElement::Parse\<close>.\<close>

function read_attrs ::
  "encoding \<Rightarrow> attributes \<Rightarrow> string \<Rightarrow> err \<Rightarrow> (attributes \<times> tag_end \<times> err) option" where
  "read_attrs e as p err =
     (case skip_to e (Some p) of
        None \<Rightarrow> Some (as, Bad_Tag, SetError TIXML_ERROR_READING_ATTRIBUTES err)
      | Some s \<Rightarrow>
          if hd s = CHR ''/''
          then if tl s \<noteq> [] \<and> hd (tl s) = CHR ''>'' then Some (as, Empty_Tag (tl (tl s)), err)
               else Some (as, Bad_Tag, SetError TIXML_ERROR_PARSING_EMPTY err)
          else if hd s = CHR ''>'' then Some (as, Open_Tag (tl s), err)
          else case attr_parse e True (Some s) err of
                 None \<Rightarrow> None
               | Some (n, v, q, err1) \<Rightarrow>
                   (case q of
                      None \<Rightarrow> Some (as, Bad_Tag, SetError TIXML_ERROR_PARSING_ELEMENT err1)
                    | Some q' \<Rightarrow>
                        if q' = [] \<or> find_attribute n as \<noteq> None
                        then Some (as, Bad_Tag, SetError TIXML_ERROR_PARSING_ELEMENT err1)
                        else read_attrs e (as @ [(n, v)]) q' err1))"
  by pat_completeness auto
termination
proof (relation "measure (\<lambda>(e, as, p, err). length p)")
  fix e as p err s n v q q' err1 x y z
  assume "skip_to e (Some p) = Some s" and "attr_parse e True (Some s) err = Some x"
    and "(n, y) = x" "(v, z) = y" "(q, err1) = z" "q = Some q'"
  then show "((e, as @ [(n, v)], q', err1), e, as, p, err) \<in> measure (\<lambda>(e, as, p, err). length p)"
    by (auto dest!: skip_to_suffix attr_parse_suffix strict_suffix_length suffix_length)
qed simp

declare read_attrs.simps [simp del]

fun tag_rest :: "tag_end \<Rightarrow> string option" where
  "tag_rest (Empty_Tag q) = Some q"
| "tag_rest (Open_Tag q) = Some q"
| "tag_rest Bad_Tag = None"

lemma read_attrs_suffix:
  "read_attrs e as p err = Some (bs, t, err') \<Longrightarrow> tag_rest t = Some q \<Longrightarrow> suffix q p"
proof (induction e as p err rule: read_attrs.induct)
  case (1 e as p err)
  show ?case
  proof (cases "skip_to e (Some p)")
    case None
    then show ?thesis using 1(2,3) by (subst (asm) read_attrs.simps) auto
  next
    case (Some s)
    then have sp: "suffix s p" using skip_to_suffix by blast
    have tl2: "suffix (tl (tl s)) s" by (rule tl_then [OF suffix_tl])
    have "suffix q s"
    proof (cases "hd s = CHR ''/'' \<or> hd s = CHR ''>''")
      case True
      then show ?thesis
        using 1(2,3) tl2 by (subst (asm) read_attrs.simps) (auto simp: Some suffix_tl split: if_splits)
    next
      case False
      then obtain n v q' err1 where a: "attr_parse e True (Some s) err = Some (n, v, Some q', err1)"
        and q': "q' \<noteq> []" "find_attribute n as = None"
        and r: "read_attrs e (as @ [(n, v)]) q' err1 = Some (bs, t, err')"
        using 1(2,3)
        by (subst (asm) read_attrs.simps) (auto simp: Some split: if_splits option.splits prod.splits)
      have "suffix q q'"
        by (rule 1(1) [OF Some _ _ a refl refl refl refl _ r 1(3)]) (use False q' in auto)
      then show ?thesis using attr_parse_suffix [OF a] suffix_strict(1) strict_suffix_suffix by blast
    qed
    then show ?thesis using sp by (rule suffix_order.trans)
  qed
qed

end
