(* ===== verification/XmlDoc.thy ===== *)
theory XmlDoc
  imports XmlParse
begin

text \<open>
  The nodes and the document of the XML parser (\<^verbatim>\<open>tinyxmlparser.cpp\<close>).  Elements are parsed with
  a counter of the nested calls; the lemmas at the end show which count is enough.
\<close>

section \<open>Nodes without children\<close>

text \<open>The characters before the tag, unchanged, and the rest from the tag on.\<close>

fun read_until :: "string \<Rightarrow> string \<Rightarrow> string \<times> string" where
  "read_until tag [] = ([], [])"
| "read_until tag (c # p) =
     (if StringEqual (c # p) tag False then ([], c # p)
      else case read_until tag p of (v, q) \<Rightarrow> (c # v, q))"

definition comment_parse :: "encoding \<Rightarrow> string \<Rightarrow> err \<Rightarrow> xnode \<times> string option \<times> err" where
  "comment_parse e p err =
     (case skip_to e (Some p) of
        None \<Rightarrow> (XNode TINYXML_COMMENT [] [], None, SetError TIXML_ERROR_PARSING_COMMENT err)
      | Some s \<Rightarrow>
          if \<not> StringEqual s ''<!--'' False
          then (XNode TINYXML_COMMENT [] [], None, SetError TIXML_ERROR_PARSING_COMMENT err)
          else case read_until ''-->'' (drop 4 s) of
                 (v, q) \<Rightarrow> (XNode TINYXML_COMMENT v [], Some (drop 3 q), err))"

definition unknown_parse :: "encoding \<Rightarrow> string \<Rightarrow> err \<Rightarrow> xnode \<times> string option \<times> err" where
  "unknown_parse e p err =
     (case skip_to e (Some p) of
        None \<Rightarrow> (XNode TINYXML_UNKNOWN [] [], None, SetError TIXML_ERROR_PARSING_UNKNOWN err)
      | Some s \<Rightarrow>
          if hd s \<noteq> CHR ''<'' then (XNode TINYXML_UNKNOWN [] [], None, SetError TIXML_ERROR_PARSING_UNKNOWN err)
          else (XNode TINYXML_UNKNOWN (takeWhile (\<lambda>c. c \<noteq> CHR ''>'') (tl s)) [],
                Some (tl (dropWhile (\<lambda>c. c \<noteq> CHR ''>'') (tl s))), err))"

text \<open>\<^verbatim>\<open>TiXmlText::Parse\<close>, for a node with or without a document; the pointer goes back onto the \<open><\<close> that
  ended the text.\<close>

definition text_parse ::
  "bool \<Rightarrow> encoding \<Rightarrow> bool \<Rightarrow> bool \<Rightarrow> string \<Rightarrow> err \<Rightarrow> (xnode \<times> string option \<times> err) option" where
  "text_parse condense e document cdata p err =
     (if cdata \<or> StringEqual p ''<![CDATA['' False
      then if \<not> StringEqual p ''<![CDATA['' False
           then Some (XNode (TINYXML_TEXT True) [] [], None,
                      set_error_if document TIXML_ERROR_PARSING_CDATA err)
           else case read_until '']]>'' (drop 9 p) of
                  (v, rest) \<Rightarrow>
                    (case ReadText condense e (Some rest) False '']]>'' False of
                       None \<Rightarrow> None
                     | Some (_, q) \<Rightarrow> Some (XNode (TINYXML_TEXT True) v [], q, err))
      else case ReadText condense e (Some p) True ''<'' False of
             None \<Rightarrow> None
           | Some (v, q) \<Rightarrow>
               Some (XNode (TINYXML_TEXT False) v [],
                     (case q of None \<Rightarrow> None | Some s \<Rightarrow> if s = [] then None else Some (CHR ''<'' # s)), err))"

definition Blank :: "string \<Rightarrow> bool" where
  "Blank v = list_all IsWhiteSpace v"

section \<open>Declarations\<close>

text \<open>The loop of \<^verbatim>\<open>TiXmlDeclaration::Parse\<close>, with version, encoding and standalone read so far.\<close>

definition decl_end :: "char \<Rightarrow> bool" where
  "decl_end c = (c = CHR ''>'' \<or> IsWhiteSpace c)"

type_synonym decl = "string \<times> string \<times> string"

fun set_decl :: "string \<Rightarrow> string \<Rightarrow> decl \<Rightarrow> decl" where
  "set_decl key val (v, en, st) =
     (if key = ''version'' then (val, en, st) else if key = ''encoding'' then (v, val, st) else (v, en, val))"

fun decl_key :: "string \<Rightarrow> string option" where
  "decl_key p =
     (if StringEqual p ''version'' True then Some ''version''
      else if StringEqual p ''encoding'' True then Some ''encoding''
      else if StringEqual p ''standalone'' True then Some ''standalone'' else None)"

function decl_loop :: "encoding \<Rightarrow> decl \<Rightarrow> string \<Rightarrow> (decl \<times> string option) option" where
  "decl_loop e d p =
     (if p = [] then Some (d, None)
      else if hd p = CHR ''>'' then Some (d, Some (tl p))
      else case skip_to e (Some p) of
             None \<Rightarrow> Some (d, None)
           | Some s \<Rightarrow>
               (case decl_key s of
                  Some k \<Rightarrow>
                    (case attr_parse e False (Some s) None of
                       None \<Rightarrow> None
                     | Some (_, v, None, _) \<Rightarrow> Some (set_decl k v d, None)
                     | Some (_, v, Some q, _) \<Rightarrow> decl_loop e (set_decl k v d) q)
                | None \<Rightarrow> decl_loop e d (dropWhile (\<lambda>c. \<not> decl_end c) s)))"
  by pat_completeness auto

lemma skip_to_head:
  assumes "skip_to e (Some p) = Some s"
  shows "\<not> IsWhiteSpace (hd s) \<and> (e = ENC_UTF8 \<longrightarrow> \<not> bom s)"
proof -
  have "skip_space e p \<noteq> [] \<Longrightarrow> \<not> IsWhiteSpace (hd (skip_space e p)) \<and> (e = ENC_UTF8 \<longrightarrow> \<not> bom (skip_space e p))"
    by (induction e p rule: skip_space.induct) (auto split: if_splits)
  then show ?thesis
    using assms by (auto simp: skip_to_def SkipWhiteSpace_def simp del: skip_space.simps
        split: list.splits if_splits)
qed

lemma decl_step:
  assumes "p \<noteq> []" and "hd p \<noteq> CHR ''>''" and s: "skip_to e (Some p) = Some s"
  shows "strict_suffix (dropWhile (\<lambda>c. \<not> decl_end c) s) p"
proof -
  have sp: "s \<noteq> []" "suffix s p" using skip_to_suffix [OF s] by auto
  have d: "suffix (dropWhile (\<lambda>c. \<not> decl_end c) s) s" by (rule suffix_dropWhile)
  show ?thesis
  proof (cases "s = p")
    case True
    then have "\<not> decl_end (hd s)" using assms(2) skip_to_head [OF s] by (simp add: decl_end_def)
    then have "dropWhile (\<lambda>c. \<not> decl_end c) s = dropWhile (\<lambda>c. \<not> decl_end c) (tl s)"
      using sp(1) by (cases s) auto
    then show ?thesis
      using True sp(1) suffix_dropWhile [of "\<lambda>c. \<not> decl_end c" "tl s"]
      by (cases p) (auto intro: strict_suffix_ConsI)
  next
    case False
    then show ?thesis using sp d by (meson strict_suffix_def suffix_strict(1))
  qed
qed

termination decl_loop
proof (relation "measure (\<lambda>(e, d, p). length p)")
  fix e d p s k x n v y z q w er
  assume a: "skip_to e (Some p) = Some s" "attr_parse e False (Some s) None = Some x"
    "(n, y) = x" "(v, z) = y" "(w, er) = z" "w = Some q"
  then show "((e, set_decl k v d, q), e, d, p) \<in> measure (\<lambda>(e, d, p). length p)"
    by (auto dest!: skip_to_suffix attr_parse_suffix strict_suffix_length suffix_length)
next
  fix e d p s
  assume "\<not> p = []" "hd p \<noteq> CHR ''>''" "skip_to e (Some p) = Some s"
  then show "((e, d, dropWhile (\<lambda>c. \<not> decl_end c) s), e, d, p) \<in> measure (\<lambda>(e, d, p). length p)"
    by (simp add: strict_suffix_length [OF decl_step])
qed simp

declare decl_loop.simps [simp del]

definition decl_parse :: "encoding \<Rightarrow> string \<Rightarrow> err \<Rightarrow> (xnode \<times> string option \<times> err) option" where
  "decl_parse e p err =
     (let bad = Some (XNode (TINYXML_DECLARATION [] [] []) [] [], None,
                      SetError TIXML_ERROR_PARSING_DECLARATION err) in
      case skip_to e (Some p) of
        None \<Rightarrow> bad
      | Some s \<Rightarrow>
          if \<not> StringEqual s ''<?xml'' True then bad
          else map_option (\<lambda>((v, en, st), q). (XNode (TINYXML_DECLARATION v en st) [] [], q, err))
                 (decl_loop e ([], [], []) (drop 5 s)))"

section \<open>Elements\<close>

text \<open>What parsing gives: a result, a pointer that left the string, or too few calls allowed.\<close>

datatype 'a parsed = Parsed 'a | Crash | NoFuel

definition of_option :: "'a option \<Rightarrow> 'a parsed" where
  "of_option x = (case x of None \<Rightarrow> Crash | Some y \<Rightarrow> Parsed y)"

text \<open>\<^verbatim>\<open>Identify\<close>: the kind of the node at \<open>p\<close>.\<close>

definition Identify :: "encoding \<Rightarrow> string \<Rightarrow> node_type option" where
  "Identify e p =
     (case skip_to e (Some p) of
        None \<Rightarrow> None
      | Some s \<Rightarrow>
          if hd s \<noteq> CHR ''<'' then None
          else if StringEqual s ''<?xml'' True then Some (TINYXML_DECLARATION [] [] [])
          else if StringEqual s ''<!--'' False then Some TINYXML_COMMENT
          else if StringEqual s ''<![CDATA['' False then Some (TINYXML_TEXT True)
          else if StringEqual s ''<!'' False then Some TINYXML_UNKNOWN
          else if tl s \<noteq> [] \<and> name_start (hd (tl s)) then Some (TINYXML_ELEMENT [])
          else Some TINYXML_UNKNOWN)"

text \<open>The tag and the attributes of an element.\<close>

definition start_tag :: "encoding \<Rightarrow> string \<Rightarrow> err \<Rightarrow> (string \<times> attributes \<times> tag_end \<times> err) option" where
  "start_tag e p err =
     (case skip_to e (Some p) of
        None \<Rightarrow> Some ([], [], Bad_Tag, SetError TIXML_ERROR_PARSING_ELEMENT err)
      | Some s \<Rightarrow>
          if hd s \<noteq> CHR ''<'' then Some ([], [], Bad_Tag, SetError TIXML_ERROR_PARSING_ELEMENT err)
          else case Option.bind (SkipWhiteSpace e (Some (tl s))) ReadName of
                 None \<Rightarrow> Some ([], [], Bad_Tag, SetError TIXML_ERROR_FAILED_TO_READ_ELEMENT_NAME err)
               | Some (n, s1) \<Rightarrow>
                   if s1 = [] then Some (n, [], Bad_Tag, SetError TIXML_ERROR_FAILED_TO_READ_ELEMENT_NAME err)
                   else map_option (\<lambda>(as, t, er). (n, as, t, er)) (read_attrs e [] s1 err))"

definition end_tag :: "encoding \<Rightarrow> string \<Rightarrow> string option \<Rightarrow> err \<Rightarrow> string option \<times> err" where
  "end_tag e n p err =
     (let bad = (None, SetError TIXML_ERROR_READING_END_TAG err) in
      case p of
        None \<Rightarrow> bad
      | Some s \<Rightarrow>
          if s \<noteq> [] \<and> StringEqual s (''</'' @ n) False
          then case skip_to e (Some (drop (2 + length n) s)) of
                 None \<Rightarrow> bad
               | Some r \<Rightarrow> if hd r = CHR ''>'' then (Some (tl r), err) else bad
          else bad)"

text \<open>A node of any kind but an element.\<close>

definition leaf_parse ::
  "bool \<Rightarrow> encoding \<Rightarrow> node_type \<Rightarrow> string \<Rightarrow> err \<Rightarrow> (xnode \<times> string option \<times> err) option" where
  "leaf_parse condense e ty p err =
     (case ty of
        TINYXML_DECLARATION v en st \<Rightarrow> decl_parse e p err
      | TINYXML_COMMENT \<Rightarrow> Some (comment_parse e p err)
      | TINYXML_TEXT cdata \<Rightarrow> text_parse condense e True cdata p err
      | _ \<Rightarrow> Some (unknown_parse e p err))"

text \<open>\<^verbatim>\<open>TiXmlElement::Parse\<close> and the loop of \<^verbatim>\<open>ReadValue\<close>, whose \<open>cs\<close> are the children so far and whose
  \<open>ws\<close> is the pointer before the white space.\<close>

fun element_parse ::
    "nat \<Rightarrow> bool \<Rightarrow> encoding \<Rightarrow> string \<Rightarrow> err \<Rightarrow> (xnode \<times> string option \<times> err) parsed"
  and read_value ::
    "nat \<Rightarrow> bool \<Rightarrow> encoding \<Rightarrow> xnode list \<Rightarrow> string option \<Rightarrow> err \<Rightarrow> (xnode list \<times> string option \<times> err) parsed"
where
  "element_parse 0 condense e p err = NoFuel"
| "element_parse (Suc k) condense e p err =
     (case start_tag e p err of
        None \<Rightarrow> Crash
      | Some (n, as, Bad_Tag, err1) \<Rightarrow> Parsed (XNode (TINYXML_ELEMENT as) n [], None, err1)
      | Some (n, as, Empty_Tag q, err1) \<Rightarrow> Parsed (XNode (TINYXML_ELEMENT as) n [], Some q, err1)
      | Some (n, as, Open_Tag q, err1) \<Rightarrow>
          (case read_value k condense e [] (Some q) err1 of
             NoFuel \<Rightarrow> NoFuel
           | Crash \<Rightarrow> Crash
           | Parsed (cs, r, err2) \<Rightarrow> Parsed (XNode (TINYXML_ELEMENT as) n cs, end_tag e n r err2)))"
| "read_value 0 condense e cs ws err = NoFuel"
| "read_value (Suc k) condense e cs ws err =
     (case SkipWhiteSpace e ws of
        None \<Rightarrow> Parsed (cs, None, SetError TIXML_ERROR_READING_ELEMENT_VALUE err)
      | Some [] \<Rightarrow> Parsed (cs, Some [], err)
      | Some (c # s) \<Rightarrow>
          if c \<noteq> CHR ''<''
          then case text_parse condense e False False (if condense then c # s else the ws) err of
                 None \<Rightarrow> Crash
               | Some (x, q, err1) \<Rightarrow>
                   read_value k condense e (if Blank (nvalue x) then cs else cs @ [x]) q err1
          else if StringEqual (c # s) ''</'' False then Parsed (cs, Some (c # s), err)
          else case Identify e (c # s) of
                 None \<Rightarrow> Parsed (cs, None, err)
               | Some ty \<Rightarrow>
                   (case (case ty of
                            TINYXML_ELEMENT _ \<Rightarrow> element_parse k condense e (c # s) err
                          | _ \<Rightarrow> of_option (leaf_parse condense e ty (c # s) err)) of
                      NoFuel \<Rightarrow> NoFuel
                    | Crash \<Rightarrow> Crash
                    | Parsed (x, q, err1) \<Rightarrow> read_value k condense e (cs @ [x]) q err1))"

section \<open>The document\<close>

text \<open>The encoding after a declaration was read.\<close>

definition new_encoding :: "encoding \<Rightarrow> xnode \<Rightarrow> encoding" where
  "new_encoding e x =
     (case ntype x of
        TINYXML_DECLARATION v en st \<Rightarrow>
          if e \<noteq> ENC_UNKNOWN then e
          else if en = [] \<or> StringEqual en ''UTF-8'' True \<or> StringEqual en ''UTF8'' True then ENC_UTF8
          else ENC_LEGACY
      | _ \<Rightarrow> e)"

fun doc_loop ::
  "nat \<Rightarrow> nat \<Rightarrow> bool \<Rightarrow> encoding \<Rightarrow> xnode list \<Rightarrow> string option \<Rightarrow> err \<Rightarrow>
     (xnode list \<times> string option \<times> err \<times> encoding) parsed" where
  "doc_loop 0 m condense e cs p err = NoFuel"
| "doc_loop (Suc k) m condense e cs p err =
     (case p of
        None \<Rightarrow> Parsed (cs, p, err, e)
      | Some [] \<Rightarrow> Parsed (cs, p, err, e)
      | Some (c # s) \<Rightarrow>
          (case Identify e (c # s) of
             None \<Rightarrow> Parsed (cs, p, err, e)
           | Some ty \<Rightarrow>
               (case (case ty of
                        TINYXML_ELEMENT _ \<Rightarrow> element_parse m condense e (c # s) err
                      | _ \<Rightarrow> of_option (leaf_parse condense e ty (c # s) err)) of
                  NoFuel \<Rightarrow> NoFuel
                | Crash \<Rightarrow> Crash
                | Parsed (x, q, err1) \<Rightarrow>
                    (let e1 = new_encoding e x
                     in doc_loop k m condense e1 (cs @ [x]) (SkipWhiteSpace e1 q) err1))))"

text \<open>\<^verbatim>\<open>TiXmlDocument::Parse\<close> of a cleared document: its nodes, the pointer, the error and the encoding at
  the end.\<close>

definition start_encoding :: "encoding \<Rightarrow> string \<Rightarrow> encoding" where
  "start_encoding e p =
     (if e = ENC_UNKNOWN \<and> map code (take 3 p) = [0xEF, 0xBB, 0xBF] then ENC_UTF8 else e)"

definition xml_parse ::
  "bool \<Rightarrow> encoding \<Rightarrow> string \<Rightarrow> (xnode list \<times> string option \<times> err \<times> encoding) parsed" where
  "xml_parse condense e p =
     (if p = [] then Parsed ([], None, Some TIXML_ERROR_DOCUMENT_EMPTY, e)
      else let e1 = start_encoding e p in
           case SkipWhiteSpace e1 (Some p) of
             None \<Rightarrow> Parsed ([], None, Some TIXML_ERROR_DOCUMENT_EMPTY, e1)
           | Some s \<Rightarrow>
               (case doc_loop (Suc (length p)) (2 * length p + 2) condense e1 [] (Some s) None of
                  NoFuel \<Rightarrow> NoFuel
                | Crash \<Rightarrow> Crash
                | Parsed (cs, q, err, e2) \<Rightarrow>
                    if cs = [] then Parsed (cs, None, SetError TIXML_ERROR_DOCUMENT_EMPTY err, e2)
                    else Parsed (cs, q, err, e2)))"

section \<open>Every pointer stays in the input and moves on\<close>

lemma read_until_suffix: "read_until tag p = (v, q) \<Longrightarrow> suffix q p"
  by (induction tag p arbitrary: v rule: read_until.induct)
    (auto split: if_splits prod.splits intro: suffix_ConsI)

lemma drop_strict: "n \<noteq> 0 \<Longrightarrow> s \<noteq> [] \<Longrightarrow> strict_suffix (drop n s) s"
  by (cases n; cases s) (auto intro: strict_suffix_ConsI suffix_drop)

lemma drop_then: "suffix q (drop n s) \<Longrightarrow> n \<noteq> 0 \<Longrightarrow> s \<noteq> [] \<Longrightarrow> strict_suffix q s"
  by (rule suffix_strict(1) [OF _ drop_strict])

lemma comment_parse_suffix:
  assumes "comment_parse e p err = (x, Some q, err')"
  shows "strict_suffix q p"
proof -
  obtain s v r where s: "skip_to e (Some p) = Some s" "read_until ''-->'' (drop 4 s) = (v, r)" "q = drop 3 r"
    using assms by (auto simp: comment_parse_def split: option.splits if_splits prod.splits)
  have "suffix r (drop 4 s)" using s(2) by (rule read_until_suffix)
  then have "suffix q (drop 4 s)" unfolding s(3) by (rule suffix_order.trans [OF suffix_drop])
  moreover have "s \<noteq> []" "suffix s p" using skip_to_suffix [OF s(1)] by auto
  ultimately show ?thesis using drop_then [of q 4 s] suffix_strict(2) by simp
qed

lemma unknown_parse_suffix:
  assumes "unknown_parse e p err = (x, Some q, err')"
  shows "strict_suffix q p"
proof -
  obtain s where s: "skip_to e (Some p) = Some s" "q = tl (dropWhile (\<lambda>c. c \<noteq> CHR ''>'') (tl s))"
    using assms by (auto simp: unknown_parse_def split: option.splits if_splits)
  have "suffix q (tl s)" unfolding s(2) by (rule suffix_order.trans [OF suffix_tl suffix_dropWhile])
  moreover have "s \<noteq> []" "suffix s p" using skip_to_suffix [OF s(1)] by auto
  ultimately show ?thesis using drop_then [of q 1 s] suffix_strict(2) by (simp add: drop_Suc)
qed

lemma decl_loop_suffix: "decl_loop e d p = Some (d', Some q) \<Longrightarrow> strict_suffix q p"
proof (induction e d p rule: decl_loop.induct)
  case (1 e d p)
  show ?case
  proof (cases "p = [] \<or> hd p = CHR ''>'' \<or> skip_to e (Some p) = None")
    case True
    then show ?thesis
      using 1(3) drop_strict [of 1 p] by (subst (asm) decl_loop.simps) (auto simp: drop_Suc split: if_splits)
  next
    case False
    then obtain s where p: "p \<noteq> []" "hd p \<noteq> CHR ''>''" and s: "skip_to e (Some p) = Some s" by auto
    have sp: "suffix s p" using skip_to_suffix [OF s] by auto
    show ?thesis
    proof (cases "decl_key s")
      case None
      have "decl_loop e d (dropWhile (\<lambda>c. \<not> decl_end c) s) = Some (d', Some q)"
        using 1(3) p s None by (subst (asm) decl_loop.simps) (simp del: decl_key.simps)
      then have "strict_suffix q (dropWhile (\<lambda>c. \<not> decl_end c) s)" by (rule 1(1) [OF p s None])
      then show ?thesis using decl_step [OF p s] strict_suffix_suffix suffix_strict(1) by blast
    next
      case (Some k)
      obtain n v r er where a: "attr_parse e False (Some s) None = Some (n, v, Some r, er)"
        and l: "decl_loop e (set_decl k v d) r = Some (d', Some q)"
        using 1(3) p s Some
        by (subst (asm) decl_loop.simps) (auto simp del: decl_key.simps split: option.splits prod.splits)
      have "strict_suffix q r" by (rule 1(2) [OF p s Some a refl refl refl refl l])
      then show ?thesis
        using attr_parse_suffix [OF a] sp strict_suffix_suffix suffix_strict by blast
    qed
  qed
qed

lemma decl_parse_suffix:
  assumes "decl_parse e p err = Some (x, Some q, err')"
  shows "strict_suffix q p"
proof -
  obtain s d where s: "skip_to e (Some p) = Some s" "decl_loop e ([], [], []) (drop 5 s) = Some (d, Some q)"
    using assms by (auto simp: decl_parse_def Let_def split: option.splits if_splits prod.splits)
  have "suffix q (drop 5 s)" using decl_loop_suffix [OF s(2)] by (rule strict_suffix_suffix)
  moreover have "s \<noteq> []" "suffix s p" using skip_to_suffix [OF s(1)] by auto
  ultimately show ?thesis using drop_then [of q 5 s] suffix_strict(2) by simp
qed

lemma text_keep_stop: "text_keep e tag ci p acc = Some (x, Some q) \<Longrightarrow> q = [] \<or> StringEqual q tag ci"
proof (induction e tag ci p acc rule: text_keep.induct)
  case (1 e tag ci p acc)
  show ?case
    using 1(2) 1(1) by (subst (asm) text_keep.simps) (auto split: if_splits scan.splits)
qed

lemma text_trim_stop: "text_trim e tag ci p white acc = Some (x, Some q) \<Longrightarrow> q = [] \<or> StringEqual q tag ci"
proof (induction e tag ci p white acc rule: text_trim.induct)
  case (1 e tag ci p white acc)
  show ?case
    using 1(3) 1(1,2) by (subst (asm) text_trim.simps) (auto split: if_splits scan.splits)
qed

lemma StringEqual_one: "StringEqual q [c] False \<longleftrightarrow> (\<exists>r. q = c # r)"
  by (cases q) (auto simp: StringEqual_def)

lemma ReadText_text:
  assumes "ReadText cw e (Some p) True [c] False = Some (v, Some q)"
  shows "suffix (c # q) p" "q \<noteq> []"
proof -
  obtain s r where s: "s = p \<or> SkipWhiteSpace e (Some p) = Some s" and r: "r \<noteq> []" "q = tl r" "q \<noteq> []"
    and t: "text_keep e [c] False s [] = Some (v, Some r) \<or> text_trim e [c] False s False [] = Some (v, Some r)"
    using assms
    by (auto simp: ReadText_def Let_def drop_Suc split: option.splits if_splits prod.splits)
  have sp: "suffix s p" using s skip_space_suffix
    by (auto simp: SkipWhiteSpace_def simp del: skip_space.simps split: list.splits)
  have "suffix r s" using t text_keep_suffix text_trim_suffix by blast
  then have "suffix r p" using sp by (rule suffix_order.trans)
  moreover have "r = c # q"
  proof -
    have "r = [] \<or> StringEqual r [c] False" using t text_keep_stop text_trim_stop by blast
    then obtain r' where "r = c # r'" using r(1) StringEqual_one by blast
    then show ?thesis using r(2) by simp
  qed
  ultimately show "suffix (c # q) p" "q \<noteq> []" using r(3) by simp_all
qed

lemma text_parse_suffix:
  assumes "text_parse cw e d cd p err = Some (x, Some q, err')" and "cd \<or> p \<noteq> [] \<and> hd p \<noteq> CHR ''<''"
  shows "strict_suffix q p"
proof (cases "cd \<or> StringEqual p ''<![CDATA['' False")
  case True
  then obtain v r y where r: "StringEqual p ''<![CDATA['' False" "read_until '']]>'' (drop 9 p) = (v, r)"
    "ReadText cw e (Some r) False '']]>'' False = Some (y, Some q)"
    using assms(1) by (auto simp: text_parse_def split: if_splits option.splits prod.splits)
  have "suffix q (drop 9 p)"
    by (rule suffix_order.trans [OF ReadText_keep_suffix [OF r(3)] read_until_suffix [OF r(2)]])
  moreover have "p \<noteq> []" using r(1) by (simp add: StringEqual_def)
  ultimately show ?thesis using drop_then [of q 9 p] by simp
next
  case False
  then obtain v r where r: "ReadText cw e (Some p) True ''<'' False = Some (v, Some r)" "q = CHR ''<'' # r"
    using assms(1) by (auto simp: text_parse_def split: if_splits option.splits)
  have "suffix q p" using ReadText_text(1) [OF r(1)] by (simp add: r(2))
  moreover have "q \<noteq> p" using assms(2) False r(2) by auto
  ultimately show ?thesis by (simp add: strict_suffix_def)
qed

lemma leaf_parse_suffix:
  assumes "leaf_parse cw e ty p err = Some (x, Some q, err')" and "\<forall>cd. ty = TINYXML_TEXT cd \<longrightarrow> cd"
  shows "strict_suffix q p"
  using assms
  by (auto simp: leaf_parse_def split: node_type.splits
      dest: decl_parse_suffix comment_parse_suffix unknown_parse_suffix text_parse_suffix)

lemma start_tag_suffix:
  assumes "start_tag e p err = Some (n, as, t, err')" and "tag_rest t = Some q"
  shows "strict_suffix q p"
proof -
  obtain s s1 s2 where s: "skip_to e (Some p) = Some s" "SkipWhiteSpace e (Some (tl s)) = Some s1"
    "ReadName s1 = Some (n, s2)" "read_attrs e [] s2 err = Some (as, t, err')"
    using assms
    by (auto simp: start_tag_def bind_eq_Some_conv split: option.splits if_splits prod.splits)
  have "suffix s1 (tl s)" using s(2) skip_space_suffix
    by (auto simp: SkipWhiteSpace_def simp del: skip_space.simps split: list.splits)
  moreover have "suffix q s2" using s(4) assms(2) by (rule read_attrs_suffix)
  moreover have "strict_suffix s2 s1" using s(3) by (rule ReadName_suffix)
  moreover have "suffix s p" using skip_to_suffix [OF s(1)] by auto
  ultimately show ?thesis by (meson suffix_strict suffix_order.trans tl_then)
qed

lemma end_tag_suffix:
  assumes "end_tag e n (Some p) err = (Some q, err')"
  shows "strict_suffix q p"
proof -
  obtain r where r: "p \<noteq> []" "skip_to e (Some (drop (2 + length n) p)) = Some r" "q = tl r"
    using assms by (auto simp: end_tag_def Let_def split: option.splits if_splits)
  have "suffix q (drop (2 + length n) p)"
    using skip_to_suffix [OF r(2)] tl_then suffix_tl suffix_order.trans unfolding r(3) by blast
  then show ?thesis by (rule drop_then) (use r(1) in auto)
qed

text \<open>The result of a parsing function, where it has one.\<close>

lemma Identify_leaf: "Identify e p = Some ty \<Longrightarrow> ty = TINYXML_TEXT cd \<Longrightarrow> cd"
  by (auto simp: Identify_def split: option.splits if_splits)

lemma of_option_simps [simp]:
  "of_option x = Parsed y \<longleftrightarrow> x = Some y" "of_option x = NoFuel \<longleftrightarrow> False" "of_option x = Crash \<longleftrightarrow> x = None"
  by (auto simp: of_option_def split: option.splits)

definition node_parse ::
  "nat \<Rightarrow> bool \<Rightarrow> encoding \<Rightarrow> node_type \<Rightarrow> string \<Rightarrow> err \<Rightarrow> (xnode \<times> string option \<times> err) parsed" where
  "node_parse k condense e ty p err =
     (case ty of
        TINYXML_ELEMENT _ \<Rightarrow> element_parse k condense e p err
      | _ \<Rightarrow> of_option (leaf_parse condense e ty p err))"

lemmas node_parse_fold = node_parse_def [symmetric]

lemma node_parse_suffix:
  assumes "node_parse k cw e ty p err = Parsed (x, Some q, err')" and "Identify e p = Some ty"
    and "\<And>x q err err'. element_parse k cw e p err = Parsed (x, Some q, err') \<Longrightarrow> strict_suffix q p"
  shows "strict_suffix q p"
  using assms leaf_parse_suffix [of cw e ty p err x q err'] Identify_leaf [OF assms(2)]
  by (auto simp: node_parse_def split: node_type.splits)

lemma read_value_step:
  "read_value (Suc k) condense e cs ws err =
     (case SkipWhiteSpace e ws of
        None \<Rightarrow> Parsed (cs, None, SetError TIXML_ERROR_READING_ELEMENT_VALUE err)
      | Some [] \<Rightarrow> Parsed (cs, Some [], err)
      | Some (c # s) \<Rightarrow>
          if c \<noteq> CHR ''<''
          then case text_parse condense e False False (if condense then c # s else the ws) err of
                 None \<Rightarrow> Crash
               | Some (x, q, err1) \<Rightarrow>
                   read_value k condense e (if Blank (nvalue x) then cs else cs @ [x]) q err1
          else if StringEqual (c # s) ''</'' False then Parsed (cs, Some (c # s), err)
          else case Identify e (c # s) of
                 None \<Rightarrow> Parsed (cs, None, err)
               | Some ty \<Rightarrow>
                   (case node_parse k condense e ty (c # s) err of
                      NoFuel \<Rightarrow> NoFuel
                    | Crash \<Rightarrow> Crash
                    | Parsed (x, q, err1) \<Rightarrow> read_value k condense e (cs @ [x]) q err1))"
  unfolding node_parse_def by (rule read_value.simps)

lemma read_value_null: "read_value k cw e cs None err \<noteq> Parsed (cs', Some q, err')"
  by (cases k) (simp_all add: SkipWhiteSpace_def)

lemma SkipWhiteSpace_Some: "SkipWhiteSpace e (Some p) = Some s \<Longrightarrow> suffix s p \<and> p \<noteq> []"
  using skip_space_suffix by (auto simp: SkipWhiteSpace_def simp del: skip_space.simps split: list.splits)

lemma skip_stays: "hd p = CHR ''<'' \<Longrightarrow> SkipWhiteSpace e (Some p) = Some s \<Longrightarrow> s = p"
  by (auto simp: SkipWhiteSpace_def IsWhiteSpace_def bom_def split: list.splits if_splits)

lemma text_source:
  assumes "SkipWhiteSpace e (Some p) = Some (c # s)" and "c \<noteq> CHR ''<''"
  shows "suffix (if cw then c # s else p) p \<and> (if cw then c # s else p) \<noteq> [] \<and>
    hd (if cw then c # s else p) \<noteq> CHR ''<''"
  using assms SkipWhiteSpace_Some [OF assms(1)] skip_stays [OF _ assms(1)] by auto

lemma parse_suffix:
  "element_parse k cw e p err = Parsed (x, Some q, err') \<Longrightarrow> strict_suffix q p"
  "read_value k cw e cs (Some p) err = Parsed (cs', Some q, err') \<Longrightarrow> suffix q p"
proof (induction k arbitrary: p err x q err' cs cs')
  case (Suc k)
  {
    case 1
    obtain n as t err1 where s: "start_tag e p err = Some (n, as, t, err1)"
      using 1 by (auto split: option.splits)
    show ?case
    proof (cases t)
      case (Empty_Tag r)
      then show ?thesis using 1 start_tag_suffix [OF s] by (simp add: s)
    next
      case (Open_Tag r)
      then obtain cs r' err2 where v: "read_value k cw e [] (Some r) err1 = Parsed (cs, r', err2)"
        and q: "end_tag e n r' err2 = (Some q, err')"
        using 1 by (auto simp: s split: parsed.splits)
      then obtain r'' where r': "r' = Some r''" by (cases r') (auto simp: end_tag_def Let_def)
      have "suffix r'' r" using v Suc(2) unfolding r' by blast
      moreover have "strict_suffix q r''" using q end_tag_suffix unfolding r' by blast
      moreover have "strict_suffix r p" using start_tag_suffix [OF s] Open_Tag by simp
      ultimately show ?thesis by (meson suffix_strict strict_suffix_suffix)
    next
      case Bad_Tag
      then show ?thesis using 1 by (simp add: s)
    qed
  next
    case 2
    note more = 2 [unfolded read_value_step]
    obtain s where s: "SkipWhiteSpace e (Some p) = Some s" using more by (auto split: option.splits)
    note sp = SkipWhiteSpace_Some [OF s]
    show ?case
    proof (cases s)
      case Nil
      then show ?thesis using more by (simp add: s)
    next
      case (Cons c s')
      show ?thesis
      proof (cases "c = CHR ''<''")
        case False
        have u: "(if cw then c # s' else the (Some p)) = (if cw then c # s' else p)" by simp
        from False obtain x1 r er where t: "text_parse cw e False False (if cw then c # s' else p) err = Some (x1, r, er)"
          and v: "read_value k cw e (if Blank (nvalue x1) then cs else cs @ [x1]) r er = Parsed (cs', Some q, err')"
          using more by (auto simp: s Cons u split: option.splits)
        obtain r' where r': "r = Some r'" using v read_value_null by (cases r) auto
        have "suffix q r'" using v Suc(2) unfolding r' by blast
        then show ?thesis
          using text_parse_suffix [OF t [unfolded r']] text_source [OF s [unfolded Cons] False]
            suffix_order.trans strict_suffix_suffix by blast
      next
        case True
        show ?thesis
        proof (cases "StringEqual s ''</'' False")
          case True
          then show ?thesis using more sp \<open>c = CHR ''<''\<close> by (simp add: s Cons)
        next
          case False
          then obtain ty x1 r er where i: "Identify e s = Some ty" and n: "node_parse k cw e ty s err = Parsed (x1, r, er)"
            and v: "read_value k cw e (cs @ [x1]) r er = Parsed (cs', Some q, err')"
            using more True by (auto simp: s Cons split: option.splits parsed.splits)
          obtain r' where r': "r = Some r'" using v read_value_null by (cases r) auto
          have "suffix q r'" using v Suc(2) unfolding r' by blast
          moreover have "strict_suffix r' s" by (rule node_parse_suffix [OF n [unfolded r'] i Suc(1)])
          ultimately show ?thesis using sp suffix_order.trans strict_suffix_suffix by blast
        qed
      qed
    qed
  }
qed simp_all

end
