(* ===== verification/XmlTotal.thy ===== *)
theory XmlTotal
  imports XmlDoc
begin

text \<open>
  The XML parser returns: the counters of nested calls it is started with are enough for every input,
  and it stays inside the input when no character begins a sequence of several bytes.
\<close>

section \<open>Inputs of single bytes\<close>

definition plain :: "string \<Rightarrow> bool" where
  "plain p = (\<forall>c \<in> set p. code c < 0xC2)"

lemma plain_suffix: "suffix q p \<Longrightarrow> plain p \<Longrightarrow> plain q"
  by (auto simp: plain_def dest: set_mono_suffix)

lemma plain_tl: "plain p \<Longrightarrow> plain (tl p)"
  by (rule plain_suffix [OF suffix_tl])

lemma find_entity_in: "find_entity es p \<noteq> Past"
  by (induction es p rule: find_entity.induct) auto

lemma GetEntity_in: "GetEntity e p \<noteq> Past"
  using find_entity_in
  by (auto simp: GetEntity_def numeric_entity_def split: list.splits option.splits)

lemma GetChar_in: "plain p \<Longrightarrow> GetChar e p \<noteq> Past"
  using GetEntity_in
  by (auto simp: GetChar_def Let_def utf8_bytes_def plain_def split: list.splits)

lemma GetChar_plain: "GetChar e p = Chars x q \<Longrightarrow> plain p \<Longrightarrow> plain q"
  using GetChar_suffix strict_suffix_suffix plain_suffix by blast

declare not_None_eq [iff del]

lemma text_keep_in: "plain p \<Longrightarrow> text_keep e tag ci p acc \<noteq> None"
proof (induction e tag ci p acc rule: text_keep.induct)
  case (1 e tag ci p acc)
  show ?case
    using 1 GetChar_in [OF 1(2)]
    by (subst text_keep.simps) (auto split: scan.splits intro: GetChar_plain)
qed

lemma text_trim_in: "plain p \<Longrightarrow> text_trim e tag ci p white acc \<noteq> None"
proof (induction e tag ci p white acc rule: text_trim.induct)
  case (1 e tag ci p white acc)
  show ?case
  proof (cases "GetChar e p")
    case (Chars x q)
    then have "plain q" using 1(3) by (rule GetChar_plain)
    then show ?thesis
      using 1 Chars plain_tl [OF 1(3)] by (subst text_trim.simps) auto
  next
    case Null
    then show ?thesis using 1(1,3) plain_tl [OF 1(3)] by (subst text_trim.simps) auto
  next
    case Past
    then show ?thesis using GetChar_in [OF 1(3)] by simp
  qed
qed

lemma ReadText_in:
  assumes "plain p"
  shows "ReadText cw e (Some p) trim tag ci \<noteq> None"
proof -
  have "plain s" if "SkipWhiteSpace e (Some p) = Some s" for s
    using SkipWhiteSpace_Some [OF that] plain_suffix assms by blast
  then show ?thesis
    using assms text_keep_in [of p] text_trim_in
    by (auto simp: ReadText_def Let_def split: option.split)
qed

lemma skip_to_plain: "skip_to e (Some p) = Some s \<Longrightarrow> plain p \<Longrightarrow> plain s"
  using skip_to_suffix plain_suffix by blast

lemma attr_value_in: "plain p \<Longrightarrow> attr_value e d p err \<noteq> None"
  using ReadText_in [OF plain_tl, of p]
  by (auto simp: attr_value_def split: option.splits prod.splits)

lemma attr_parse_in:
  assumes "plain p"
  shows "attr_parse e d (Some p) err \<noteq> None"
proof -
  have "plain s1" if "skip_to e (Some p) = Some s" "ReadName s = Some (n, s1)" for s n s1
    using that assms skip_to_plain ReadName_suffix(2) strict_suffix_suffix plain_suffix by blast
  then show ?thesis
    using attr_value_in skip_to_plain plain_tl
    by (auto simp: attr_parse_def Let_def split: option.splits)
qed

lemma read_attrs_in: "plain p \<Longrightarrow> read_attrs e as p err \<noteq> None"
proof (induction e as p err rule: read_attrs.induct)
  case (1 e as p err)
  show ?case
  proof (cases "skip_to e (Some p)")
    case None
    then show ?thesis by (subst read_attrs.simps) simp
  next
    case (Some s)
    have s: "plain s" using skip_to_plain [OF Some 1(2)] .
    have "plain q" if "attr_parse e True (Some s) err = Some (n, v, Some q, er)" for n v q er
      using attr_parse_suffix [OF that] s strict_suffix_suffix plain_suffix by blast
    then show ?thesis
      using attr_parse_in [OF s] 1(1) [OF Some]
      by (subst read_attrs.simps) (auto simp: Some split: option.splits)
  qed
qed

lemma decl_loop_in: "plain p \<Longrightarrow> decl_loop e d p \<noteq> None"
proof (induction e d p rule: decl_loop.induct)
  case (1 e d p)
  show ?case
  proof (cases "p = [] \<or> hd p = CHR ''>'' \<or> skip_to e (Some p) = None")
    case True
    then show ?thesis by (subst decl_loop.simps) auto
  next
    case False
    then obtain s where p: "p \<noteq> []" "hd p \<noteq> CHR ''>''" and s: "skip_to e (Some p) = Some s"
      by (cases "skip_to e (Some p)") auto
    have ps: "plain s" using skip_to_plain [OF s 1(3)] .
    show ?thesis
    proof (cases "decl_key s")
      case None
      have "plain (dropWhile (\<lambda>c. \<not> decl_end c) s)" using ps by (rule plain_suffix [OF suffix_dropWhile])
      then have "decl_loop e d (dropWhile (\<lambda>c. \<not> decl_end c) s) \<noteq> None" by (rule 1(1) [OF p s None])
      then show ?thesis using p s None by (subst decl_loop.simps) (simp del: decl_key.simps)
    next
      case (Some k)
      have "decl_loop e (set_decl k v d) q \<noteq> None"
        if a: "attr_parse e False (Some s) None = Some (n, v, Some q, er)" for n v q er
        by (rule 1(2) [OF p s Some a refl refl refl refl])
          (use attr_parse_suffix [OF a] ps strict_suffix_suffix plain_suffix in blast)
      then show ?thesis
        using attr_parse_in [OF ps] p s Some
        by (subst decl_loop.simps) (auto simp del: decl_key.simps split: option.splits)
    qed
  qed
qed

lemma text_parse_in: "plain p \<Longrightarrow> text_parse cw e d cd p err \<noteq> None"
  using ReadText_in plain_suffix [OF read_until_suffix] plain_suffix [OF suffix_drop [of 9 p]]
  by (auto simp: text_parse_def split: option.splits prod.splits)

lemma leaf_parse_in: "plain p \<Longrightarrow> leaf_parse cw e ty p err \<noteq> None"
  using text_parse_in decl_loop_in plain_suffix [OF suffix_drop [of 5]] skip_to_plain
  by (auto simp: leaf_parse_def decl_parse_def Let_def split: node_type.splits option.splits)

lemma start_tag_in:
  assumes "plain p"
  shows "start_tag e p err \<noteq> None"
proof -
  have "plain s2" if "skip_to e (Some p) = Some s" "SkipWhiteSpace e (Some (tl s)) = Some s1"
    "ReadName s1 = Some (n, s2)" for s s1 n s2
    using that assms skip_to_plain plain_tl SkipWhiteSpace_Some ReadName_suffix(2) strict_suffix_suffix
      plain_suffix by meson
  then show ?thesis
    using read_attrs_in by (auto simp: start_tag_def bind_eq_Some_conv split: option.splits)
qed

declare not_None_eq [iff]

section \<open>Enough calls\<close>

text \<open>A result that is not for want of calls, and in the input when that is plain.\<close>

definition returns :: "bool \<Rightarrow> 'a parsed \<Rightarrow> bool" where
  "returns pl r = (r \<noteq> NoFuel \<and> (pl \<longrightarrow> r \<noteq> Crash))"

lemma returns_simps [simp]: "returns pl (Parsed x)" "returns pl NoFuel \<longleftrightarrow> False" "returns pl Crash \<longleftrightarrow> \<not> pl"
  by (simp_all add: returns_def)

lemma returns_mono: "returns pl r \<Longrightarrow> (pl' \<longrightarrow> pl) \<Longrightarrow> returns pl' r"
  by (auto simp: returns_def)

lemma read_value_null_returns: "0 < k \<Longrightarrow> returns pl (read_value k cw e cs None err)"
  by (cases k) (simp_all add: SkipWhiteSpace_def)

lemma suffix_smaller:
  assumes "strict_suffix q p"
  shows "length q < length p" "plain p \<Longrightarrow> plain q"
  using assms plain_suffix strict_suffix_suffix by (auto dest: strict_suffix_length)

lemma suffix_not_larger:
  assumes "suffix q p"
  shows "length q \<le> length p" "plain p \<Longrightarrow> plain q"
  using assms plain_suffix by (auto dest: suffix_length)

lemma node_parse_returns:
  assumes "returns (plain p) (element_parse k cw e p err)"
  shows "returns (plain p) (node_parse k cw e ty p err)"
  using assms leaf_parse_in
  by (auto simp: node_parse_def returns_def split: node_type.split)

lemma parse_returns:
  "2 * length p + 1 \<le> k \<Longrightarrow> returns (plain p) (element_parse k cw e p err)"
  "2 * length p + 2 \<le> k \<Longrightarrow> returns (plain p) (read_value k cw e cs (Some p) err)"
proof (induction k arbitrary: p err cs)
  case (Suc k)
  {
    case 1
    show ?case
    proof (cases "start_tag e p err")
      case None
      then show ?thesis using start_tag_in [of p e err] by auto
    next
      case (Some x)
      then obtain n as t err1 where s: "start_tag e p err = Some (n, as, t, err1)" by (cases x) auto
      show ?thesis
      proof (cases t)
        case (Open_Tag r)
        have "strict_suffix r p" using start_tag_suffix [OF s] Open_Tag by simp
        note q = suffix_smaller [OF this]
        have "returns (plain r) (read_value k cw e [] (Some r) err1)" by (rule Suc(2)) (use q(1) 1 in simp)
        then show ?thesis
          using q(2) by (auto simp: s Open_Tag returns_def split: parsed.split)
      qed (simp_all add: s)
    qed
  next
    case 2
    have k: "0 < k" using 2 by simp
    note step = read_value_step
    show ?case
    proof (cases "SkipWhiteSpace e (Some p)")
      case None
      then show ?thesis by (simp add: step del: read_value.simps)
    next
      case (Some s)
      note sp = SkipWhiteSpace_Some [OF Some]
      note len = suffix_not_larger [OF conjunct1 [OF sp]]
      show ?thesis
      proof (cases s)
        case Nil
        then show ?thesis by (simp add: Some step del: read_value.simps)
      next
        case (Cons c s')
        have more: "returns (plain p) (read_value k cw e cs2 q er)"
          if "\<And>r. q = Some r \<Longrightarrow> strict_suffix r p" for cs2 q er
        proof (cases q)
          case None
          then show ?thesis using k read_value_null_returns by simp
        next
          case (Some r)
          note r = suffix_smaller [OF that [OF Some]]
          have "returns (plain r) (read_value k cw e cs2 (Some r) er)" by (rule Suc(2)) (use r(1) 2 in simp)
          then show ?thesis using r(2) returns_mono Some by blast
        qed
        show ?thesis
        proof (cases "c = CHR ''<''")
          case False
          define u where "u = (if cw then c # s' else p)"
          have u: "suffix u p" "u \<noteq> [] \<and> hd u \<noteq> CHR ''<''"
            using text_source [OF Some [unfolded Cons] False, of cw] by (simp_all add: u_def)
          have us: "(if cw then c # s' else the (Some p)) = u" by (simp add: u_def)
          show ?thesis
          proof (cases "text_parse cw e False False u err")
            case None
            then have "\<not> plain p" using text_parse_in plain_suffix [OF u(1)] by blast
            then show ?thesis using None by (simp add: Some Cons step us False del: read_value.simps)
          next
            case t: (Some x)
            then obtain x1 q er where x: "text_parse cw e False False u err = Some (x1, q, er)" by (cases x) auto
            have "strict_suffix r p" if "q = Some r" for r
              using text_parse_suffix [OF x [unfolded that]] u suffix_strict(2) by blast
            then show ?thesis using more by (simp add: Some Cons step us False x del: read_value.simps)
          qed
        next
          case True
          show ?thesis
          proof (cases "StringEqual s ''</'' False \<or> Identify e s = None")
            case T: True
            then show ?thesis using True by (auto simp: Some Cons step simp del: read_value.simps)
          next
            case False
            then obtain ty where i: "Identify e s = Some ty" by auto
            have "returns (plain s) (node_parse k cw e ty s err)"
              by (rule node_parse_returns, rule Suc(1)) (use len(1) 2 in simp)
            moreover have "returns (plain p) (read_value k cw e (cs @ [x1]) q er)"
              if n: "node_parse k cw e ty s err = Parsed (x1, q, er)" for x1 q er
            proof (rule more)
              fix r
              assume "q = Some r"
              then have "strict_suffix r s" using node_parse_suffix [OF _ i parse_suffix(1)] n by simp
              then show "strict_suffix r p" using sp suffix_strict(2) by blast
            qed
            ultimately show ?thesis
              using False True i len(2)
              by (auto simp: Some Cons step returns_def simp del: read_value.simps split: parsed.split)
          qed
        qed
      qed
    qed
  }
qed simp_all

lemma doc_loop_returns:
  assumes "\<And>s. p = Some s \<Longrightarrow> length s < k \<and> 2 * length s + 1 \<le> m"
    and "\<And>s. p = Some s \<Longrightarrow> pl \<Longrightarrow> plain s" and "0 < k"
  shows "returns pl (doc_loop k m cw e cs p err)"
  using assms
proof (induction k arbitrary: e cs p err)
  case (Suc k)
  show ?case
  proof (cases "p = None \<or> p = Some [] \<or> Identify e (the p) = None")
    case True
    then show ?thesis by (auto split: option.splits list.splits)
  next
    case False
    then obtain c s ty where p: "p = Some (c # s)" and i: "Identify e (c # s) = Some ty"
      by (cases p; cases "the p") auto
    have n: "returns (plain (c # s)) (node_parse m cw e ty (c # s) err)"
      by (rule node_parse_returns, rule parse_returns(1)) (use Suc.prems(1) [OF p] in simp)
    have "returns pl (doc_loop k m cw e1 (cs @ [x]) (SkipWhiteSpace e1 q) er)"
      if x: "node_parse m cw e ty (c # s) err = Parsed (x, q, er)" for x q er e1
    proof (rule Suc.IH)
      fix r
      assume r: "SkipWhiteSpace e1 q = Some r"
      then obtain q' where q': "q = Some q'" by (cases q) (auto simp: SkipWhiteSpace_def)
      have "strict_suffix q' (c # s)" by (rule node_parse_suffix [OF x [unfolded q'] i parse_suffix(1)])
      then have "strict_suffix r (c # s)" using SkipWhiteSpace_Some r suffix_strict(1) unfolding q' by blast
      note r' = suffix_smaller [OF this]
      show "length r < k \<and> 2 * length r + 1 \<le> m" using r'(1) Suc.prems(1) [OF p] by simp
      show "pl \<Longrightarrow> plain r" using r'(2) Suc.prems(2) [OF p] by simp
    next
      show "0 < k" using Suc.prems(1) [OF p] by simp
    qed
    then show ?thesis
      using n i Suc.prems(2) [OF p]
      by (auto simp: p node_parse_fold Let_def returns_def split: parsed.split)
  qed
qed simp

end
