(* ===== verification/TiEncode.thy ===== *)
theory TiEncode
  imports TiText
begin

text \<open>
  Encoded text: what \<^verbatim>\<open>EncodeString\<close> writes \<^verbatim>\<open>ReadText\<close> reads back, up to the quote or tag behind it.
\<close>

definition no_ref :: "string \<Rightarrow> bool" where
  "no_ref s = (\<forall>i. \<not> is_ref (drop i s))"

definition one_byte :: "encoding \<Rightarrow> char \<Rightarrow> bool" where
  "one_byte e c = (e = ENC_UTF8 \<longrightarrow> utf8_bytes (code c) = 1)"

lemma no_ref_Cons: "no_ref (c # s) \<Longrightarrow> \<not> is_ref (c # s) \<and> no_ref s"
  unfolding no_ref_def by (metis drop0 drop_Suc_Cons)

lemma hex_digit_props:
  assumes "k < 16"
  shows "hex_value (hex_digit k) = Some (of_nat k)" "hex_digit k \<noteq> CHR '';''" "hex_digit k \<noteq> CHR ''x''"
proof -
  have "k < 10 \<or> k = 10 \<or> k = 11 \<or> k = 12 \<or> k = 13 \<or> k = 14 \<or> k = 15" using assms by presburger
  then have c: "code (hex_digit k) = (if k < 10 then 48 + k else 55 + k)"
    by (auto simp: hex_digit_def)
  then show "hex_value (hex_digit k) = Some (of_nat k)"
    using assms by (simp add: hex_value_def is_digit_def)
  show "hex_digit k \<noteq> CHR '';''" "hex_digit k \<noteq> CHR ''x''"
    using c assms by (auto dest!: arg_cong [where f = code] split: if_splits)
qed

lemma low_byte:
  assumes "n < 256"
  shows "unat (of_nat n AND 0xFF :: u32) = n"
proof -
  have "unat (take_bit 8 (of_nat n :: u32)) = n"
    using assms by (simp add: unsigned_take_bit_eq unat_of_nat take_bit_nat_eq_self)
  moreover have "take_bit 8 (of_nat n) = (of_nat n AND 0xFF :: u32)"
    by (simp add: take_bit_eq_mask mask_eq_exp_minus_1)
  ultimately show ?thesis by simp
qed

lemma byte_char_code: "byte_char (of_nat (code c)) = c"
  using low_byte [OF nat_of_char_less_256, of c] by (simp add: byte_char_def)

lemma control_char:
  assumes "code c < 32"
  shows "GetChar e (char_ref c @ rest) = Chars [c] rest"
proof -
  define hi lo where "hi = hex_digit (code c div 16)" and "lo = hex_digit (code c mod 16)"
  have h: "hex_value hi = Some (of_nat (code c div 16))" "hi \<noteq> CHR '';''" "hi \<noteq> CHR ''x''"
    and l: "hex_value lo = Some (of_nat (code c mod 16))" "lo \<noteq> CHR '';''" "lo \<noteq> CHR ''x''"
    using assms hex_digit_props [of "code c div 16"] hex_digit_props [of "code c mod 16"]
    by (simp_all add: hi_def lo_def)
  have "of_nat (code c mod 16) + 16 * of_nat (code c div 16) = (of_nat (code c) :: u32)"
    using arg_cong [OF mod_mult_div_eq [of "code c" 16], of "of_nat :: nat \<Rightarrow> u32"]
    by (simp only: of_nat_add of_nat_mult of_nat_numeral)
  moreover have "(of_nat (code c) :: u32) < 0x80"
    using assms by (simp add: word_less_nat_alt unat_of_nat)
  ultimately have "numeric_entity e hex_value 16 (CHR ''x'') (hi # lo # CHR '';'' # rest) = Chars [c] rest"
    using h l
    by (simp add: numeric_entity_def store_char_def ConvertUTF32ToUTF8_def byte_char_code)
  then show ?thesis
    by (auto simp: char_ref_def hi_def lo_def GetChar_def GetEntity_def utf8_bytes_def)
qed

lemma GetChar_encoded:
  assumes "one_byte e c"
  shows "GetChar e (encode_char c @ rest) = Chars [c] rest"
proof (cases "code c < 32")
  case True
  then have "encode_char c = char_ref c" by (auto simp: encode_char_def)
  then show ?thesis using control_char [OF True] by simp
next
  case False
  then show ?thesis
    using assms
    by (auto simp: encode_char_def GetChar_def one_byte_def GetEntity_def entities_def utf8_bytes_def)
qed

definition is_quote :: "char \<Rightarrow> bool" where
  "is_quote q = (q = CHR 0x22 \<or> q = CHR 0x27)"

lemma encoded_head:
  "hd (encode_char c @ rest) \<notin> {CHR 0x22, CHR 0x27, CHR ''<'', CHR ''>''}" "encode_char c \<noteq> []"
  by (auto simp: encode_char_def char_ref_def)

lemma encoded_not_tag:
  assumes "q \<in> {CHR 0x22, CHR 0x27, CHR ''<''}"
  shows "\<not> StringEqual (encode_char c @ rest) (q # tag) False"
proof -
  obtain d s where "encode_char c @ rest = d # s" using encoded_head(2) by (cases "encode_char c @ rest") auto
  then show ?thesis using encoded_head(1) [of c rest] assms by (auto simp: StringEqual_def)
qed

lemma text_keep_encoded:
  assumes "no_ref s" and "\<forall>c \<in> set s. one_byte e c" and "is_quote q"
  shows "text_keep e [q] False (EncodeString s @ q # rest) acc = Some (acc @ s, Some (q # rest))"
  using assms(1,2)
proof (induction s arbitrary: acc)
  case Nil
  then show ?case by (simp add: text_keep.simps StringEqual_def)
next
  case (Cons c s)
  define p where "p = EncodeString s @ q # rest"
  have e: "EncodeString (c # s) @ q # rest = encode_char c @ p"
    using no_ref_Cons [OF Cons.prems(1)] by (simp add: EncodeString.simps p_def)
  have "\<not> StringEqual (encode_char c @ p) [q] False"
    using assms(3) by (intro encoded_not_tag) (auto simp: is_quote_def)
  then have "text_keep e [q] False (encode_char c @ p) acc = text_keep e [q] False p (acc @ [c])"
    using GetChar_encoded [of e c p] Cons.prems(2) encoded_head(2)
    by (subst text_keep.simps) simp
  then show ?case
    using Cons.IH [of "acc @ [c]"] Cons.prems(2) no_ref_Cons [OF Cons.prems(1)]
    by (simp add: e) (simp add: p_def)
qed

lemma ReadText_encoded:
  assumes "no_ref s" and "\<forall>c \<in> set s. one_byte e c" and "is_quote q"
  shows "ReadText condense e (Some (EncodeString s @ q # rest)) False [q] False =
    Some (s, if rest = [] then None else Some rest)"
  using text_keep_encoded [OF assms, of rest "[]"] by (simp add: ReadText_def)

end
