(* ===== verification/XmlPrint.thy ===== *)
theory XmlPrint
  imports XmlTotal TiEncode
begin

text \<open>
  The printer of the XML library (\<^verbatim>\<open>TiXmlPrinter\<close> in \<^verbatim>\<open>tinyxml.cpp\<close>), and the printed form of an element
  as one string.
\<close>

section \<open>The printer\<close>

record printer =
  pr_depth :: nat
  simpleTextPrint :: bool
  buffer :: string

definition new_printer :: printer where
  "new_printer = \<lparr>pr_depth = 0, simpleTextPrint = False, buffer = []\<rparr>"

definition put :: "string \<Rightarrow> printer \<Rightarrow> printer" where
  "put s pr = pr\<lparr>buffer := buffer pr @ s\<rparr>"

definition indentation :: "nat \<Rightarrow> string" where
  "indentation d = concat (replicate d ''    '')"

definition DoIndent :: "printer \<Rightarrow> printer" where
  "DoIndent pr = put (indentation (pr_depth pr)) pr"

definition line_break :: string where
  "line_break = [CHR 0x0A]"

definition DoLineBreak :: "printer \<Rightarrow> printer" where
  "DoLineBreak pr = put line_break pr"

text \<open>\<^verbatim>\<open>TiXmlAttribute::Print\<close>: single quotes when the value has a double one.\<close>

definition quote_of :: "string \<Rightarrow> char" where
  "quote_of v = (if CHR 0x22 \<in> set v then CHR 0x27 else CHR 0x22)"

definition attr_print :: "string \<times> string \<Rightarrow> string" where
  "attr_print a =
     EncodeString (fst a) @ [CHR ''='', quote_of (snd a)] @ EncodeString (snd a) @ [quote_of (snd a)]"

text \<open>\<^verbatim>\<open>First\<close> and \<^verbatim>\<open>Next\<close>: an attribute without name and value is taken for the end of the list.\<close>

definition shown_attributes :: "attributes \<Rightarrow> attributes" where
  "shown_attributes as = (case as of [] \<Rightarrow> [] | a # r \<Rightarrow> a # takeWhile (\<lambda>(n, v). n \<noteq> [] \<or> v \<noteq> []) r)"

definition attrs_print :: "attributes \<Rightarrow> string" where
  "attrs_print as = concat (map (\<lambda>a. CHR '' '' # attr_print a) as)"

definition decl_item :: "string \<Rightarrow> string \<Rightarrow> string" where
  "decl_item key v = (if v = [] then [] else key @ [CHR ''='', CHR 0x22] @ v @ [CHR 0x22, CHR '' ''])"

definition decl_print :: "string \<Rightarrow> string \<Rightarrow> string \<Rightarrow> string" where
  "decl_print v en st =
     ''<?xml '' @ decl_item ''version'' v @ decl_item ''encoding'' en @ decl_item ''standalone'' st @ ''?>''"

definition simple_text :: "xnode list \<Rightarrow> bool" where
  "simple_text cs = (case cs of [c] \<Rightarrow> ntype c = TINYXML_TEXT False | _ \<Rightarrow> False)"

text \<open>\<^verbatim>\<open>VisitEnter\<close> and \<^verbatim>\<open>VisitExit\<close> of an element.\<close>

definition VisitEnter :: "string \<Rightarrow> attributes \<Rightarrow> xnode list \<Rightarrow> printer \<Rightarrow> printer" where
  "VisitEnter n as cs pr =
     (let p1 = put (''<'' @ n @ attrs_print (shown_attributes as)) (DoIndent pr);
          p2 = (if cs = [] then DoLineBreak (put '' />'' p1)
                else let p3 = put ''>'' p1 in
                     if simple_text cs then p3\<lparr>simpleTextPrint := True\<rparr> else DoLineBreak p3)
      in p2\<lparr>pr_depth := pr_depth p2 + 1\<rparr>)"

definition VisitExit :: "string \<Rightarrow> xnode list \<Rightarrow> printer \<Rightarrow> printer" where
  "VisitExit n cs pr =
     (let p1 = pr\<lparr>pr_depth := pr_depth pr - 1\<rparr> in
      if cs = [] then p1
      else DoLineBreak (put (''</'' @ n @ ''>'')
             (if simpleTextPrint p1 then p1\<lparr>simpleTextPrint := False\<rparr> else DoIndent p1)))"

definition line :: "string \<Rightarrow> printer \<Rightarrow> printer" where
  "line s pr = DoLineBreak (put s (DoIndent pr))"

definition VisitText :: "bool \<Rightarrow> string \<Rightarrow> printer \<Rightarrow> printer" where
  "VisitText cdata v pr =
     (if cdata then line (''<![CDATA['' @ v @ '']]>'') pr
      else if simpleTextPrint pr then put (EncodeString v) pr
      else line (EncodeString v) pr)"

text \<open>\<^verbatim>\<open>Accept\<close>: the nodes in document order.\<close>

fun Accept :: "xnode \<Rightarrow> printer \<Rightarrow> printer" where
  "Accept (XNode ty v cs) pr =
     (case ty of
        TINYXML_DOCUMENT \<Rightarrow> fold Accept cs pr
      | TINYXML_ELEMENT as \<Rightarrow> VisitExit v cs (fold Accept cs (VisitEnter v as cs pr))
      | TINYXML_TEXT cdata \<Rightarrow> VisitText cdata v pr
      | TINYXML_DECLARATION ver en st \<Rightarrow> line (decl_print ver en st) pr
      | TINYXML_COMMENT \<Rightarrow> line (''<!--'' @ v @ ''-->'') pr
      | TINYXML_UNKNOWN \<Rightarrow> line (''<'' @ v @ ''>'') pr)"

definition xml_print :: "xnode \<Rightarrow> string" where
  "xml_print doc = buffer (Accept doc new_printer)"

section \<open>The printed form of an element\<close>

text \<open>Documents as \<^verbatim>\<open>DMXml\<close> builds them: elements with attributes, around elements or around one text.\<close>

fun elements_only :: "xnode \<Rightarrow> bool" where
  "elements_only (XNode ty v cs) =
     ((\<exists>as. ty = TINYXML_ELEMENT as) \<and> (simple_text cs \<or> (\<forall>c \<in> set cs. elements_only c)))"

fun render :: "nat \<Rightarrow> xnode \<Rightarrow> string" where
  "render d (XNode ty n cs) =
     ''<'' @ n @ attrs_print (shown_attributes (case ty of TINYXML_ELEMENT as \<Rightarrow> as | _ \<Rightarrow> [])) @
     (if cs = [] then '' />''
      else ''>'' @
        (if simple_text cs then EncodeString (nvalue (hd cs))
         else line_break @ concat (map (\<lambda>c. indentation (d + 1) @ render (d + 1) c @ line_break) cs) @ indentation d) @
        ''</'' @ n @ ''>'')"

definition render_line :: "nat \<Rightarrow> xnode \<Rightarrow> string" where
  "render_line d x = indentation d @ render d x @ line_break"

lemma put_simps [simp]:
  "buffer (put s pr) = buffer pr @ s" "pr_depth (put s pr) = pr_depth pr"
  "simpleTextPrint (put s pr) = simpleTextPrint pr"
  "put s (put t pr) = put (t @ s) pr"
  by (simp_all add: put_def)

lemma fold_Accept:
  assumes "\<And>x pr. x \<in> set cs \<Longrightarrow> pr_depth pr = d \<Longrightarrow> \<not> simpleTextPrint pr \<Longrightarrow> Accept x pr = put (f x) pr"
  shows "pr_depth pr = d \<Longrightarrow> \<not> simpleTextPrint pr \<Longrightarrow> fold Accept cs pr = put (concat (map f cs)) pr"
  using assms
proof (induction cs arbitrary: pr)
  case Nil
  then show ?case by (simp add: put_def)
qed simp

lemma simple_textE:
  assumes "simple_text cs"
  obtains v ks where "cs = [XNode (TINYXML_TEXT False) v ks]"
proof -
  obtain c where c: "cs = [c]" "ntype c = TINYXML_TEXT False"
    using assms by (auto simp: simple_text_def split: list.splits)
  then show ?thesis using that by (cases c) auto
qed

lemma Accept_render:
  "elements_only x \<Longrightarrow> \<not> simpleTextPrint pr \<Longrightarrow> Accept x pr = put (render_line (pr_depth pr) x) pr"
proof (induction x arbitrary: pr)
  case (XNode ty n cs)
  then obtain as where ty: "ty = TINYXML_ELEMENT as" by auto
  consider "cs = []" | v k where "cs = [XNode (TINYXML_TEXT False) v k]"
    | "cs \<noteq> []" "\<not> simple_text cs" "\<forall>c \<in> set cs. elements_only c"
    using XNode.prems(1) by (cases "simple_text cs") (auto elim: simple_textE)
  then show ?case
  proof cases
    case 3
    have "fold Accept cs p = put (concat (map (render_line (pr_depth pr + 1)) cs)) p"
      if "pr_depth p = pr_depth pr + 1" "\<not> simpleTextPrint p" for p
      by (rule fold_Accept [OF _ that]) (use 3 XNode.IH in simp)
    then show ?thesis
      using 3 XNode.prems
      by (simp add: ty VisitEnter_def VisitExit_def Let_def DoIndent_def DoLineBreak_def render_line_def)
        (simp add: put_def render_line_def [abs_def])
  qed (use XNode.prems in \<open>simp_all add: ty VisitEnter_def VisitExit_def VisitText_def Let_def DoIndent_def
      DoLineBreak_def render_line_def simple_text_def put_def\<close>)
qed

end
