(* ===== verification/XmlRound.thy ===== *)
theory XmlRound
  imports XmlPrint
begin

text \<open>
  Reading back printed elements: names, attributes, texts and nested elements, piece by piece.
\<close>

section \<open>What is printed\<close>

text \<open>Names, values and texts that survive.\<close>

definition good_name :: "encoding \<Rightarrow> string \<Rightarrow> bool" where
  "good_name e n =
     (n \<noteq> [] \<and> name_start (hd n) \<and> list_all name_char n \<and> list_all (one_byte e) n)"

definition good_value :: "encoding \<Rightarrow> string \<Rightarrow> bool" where
  "good_value e v = (no_ref v \<and> (\<forall>c \<in> set v. one_byte e c))"

text \<open>No space at the end and no two in a row; \<open>w\<close>: a space stands before.\<close>

fun single_spaces :: "bool \<Rightarrow> string \<Rightarrow> bool" where
  "single_spaces w [] = (\<not> w)"
| "single_spaces w (c # s) = (if c = CHR '' '' then \<not> w \<and> single_spaces True s else single_spaces False s)"

definition good_text :: "encoding \<Rightarrow> string \<Rightarrow> bool" where
  "good_text e v = (good_value e v \<and> single_spaces True v \<and> \<not> Blank v)"

definition good_attributes :: "encoding \<Rightarrow> attributes \<Rightarrow> bool" where
  "good_attributes e as =
     (distinct (map fst as) \<and> list_all (\<lambda>(n, v). good_name e n \<and> good_value e v) as)"

fun good_element :: "encoding \<Rightarrow> xnode \<Rightarrow> bool" where
  "good_element e (XNode ty n cs) =
     ((case ty of TINYXML_ELEMENT as \<Rightarrow> good_attributes e as | _ \<Rightarrow> False) \<and> good_name e n \<and>
      (if simple_text cs then good_text e (nvalue (hd cs)) \<and> children (hd cs) = []
       else (\<forall>c \<in> set cs. good_element e c)))"

section \<open>Names and white space\<close>

lemma not_bom: "one_byte e c \<Longrightarrow> e = ENC_UTF8 \<Longrightarrow> \<not> bom (c # p)"
  by (auto simp: one_byte_def utf8_bytes_def bom_def split: if_splits)

lemma white_not_bom: "IsWhiteSpace c \<Longrightarrow> \<not> bom (c # p)"
  by (auto simp: IsWhiteSpace_def bom_def)

lemma skip_white: "list_all IsWhiteSpace w \<Longrightarrow> skip_space e (w @ p) = skip_space e p"
  using white_not_bom by (induction w) auto

lemma skip_stop:
  assumes "one_byte e c" and "\<not> IsWhiteSpace c"
  shows "skip_space e (c # p) = c # p"
  using assms not_bom by auto

lemma skip_to_stop:
  assumes "list_all IsWhiteSpace w" and "one_byte e c" and "\<not> IsWhiteSpace c"
  shows "SkipWhiteSpace e (Some (w @ c # p)) = Some (c # p)" "skip_to e (Some (w @ c # p)) = Some (c # p)"
proof -
  have "skip_space e (w @ c # p) = c # p" using skip_white skip_stop assms by simp
  then show "SkipWhiteSpace e (Some (w @ c # p)) = Some (c # p)"
    by (cases w) (simp_all add: SkipWhiteSpace_def del: skip_space.simps)
  then show "skip_to e (Some (w @ c # p)) = Some (c # p)" by (simp add: skip_to_def)
qed

lemma ascii_one_byte: "code c < 0xC2 \<Longrightarrow> one_byte e c"
  by (simp add: one_byte_def utf8_bytes_def)

lemma name_char_props:
  assumes "name_char c"
  shows "encode_char c = [c]" "\<not> IsWhiteSpace c" "c \<notin> {CHR ''='', CHR ''/'', CHR ''>'', CHR ''&'', CHR ''<''}"
proof -
  have ne: "c \<noteq> CHR ''&''" "c \<noteq> CHR ''<''" "c \<noteq> CHR ''>''" "c \<noteq> CHR 0x22" "c \<noteq> CHR 0x27" "c \<noteq> CHR ''=''"
    "c \<noteq> CHR ''/''"
    using assms by (auto simp: name_char_def IsAlphaNum_def is_letter_def is_digit_def)
  have ge: "33 \<le> code c"
    using assms by (auto simp: name_char_def IsAlphaNum_def is_letter_def is_digit_def split: if_splits)
  show "encode_char c = [c]" using ne ge by (simp add: encode_char_def)
  show "\<not> IsWhiteSpace c" using ge by (simp add: IsWhiteSpace_def)
  show "c \<notin> {CHR ''='', CHR ''/'', CHR ''>'', CHR ''&'', CHR ''<''}" using ne by simp
qed

lemma name_start_char: "name_start c \<Longrightarrow> name_char c"
  by (auto simp: name_start_def name_char_def IsAlpha_def IsAlphaNum_def)

lemma encode_name: "list_all name_char n \<Longrightarrow> EncodeString n = n"
proof (induction n)
  case (Cons c n)
  have "\<not> is_ref (c # n)" using name_char_props(3) [of c] Cons.prems by (cases n) (auto simp: is_ref_def)
  then show ?case using Cons name_char_props(1) [of c] by (simp add: EncodeString.simps(2))
qed simp

lemma ReadName_printed:
  assumes "good_name e n" and "\<not> name_char c"
  shows "ReadName (n @ c # p) = Some (n, c # p)"
proof -
  obtain d r where n: "n = d # r" using assms(1) by (cases n) (auto simp: good_name_def)
  have all: "\<And>x. x \<in> set n \<Longrightarrow> name_char x" using assms(1) by (simp add: good_name_def list_all_iff)
  have "takeWhile name_char (n @ c # p) = n" "dropWhile name_char (n @ c # p) = c # p"
    using takeWhile_append2 [of n name_char "c # p"] dropWhile_append2 [of n name_char "c # p"] all assms(2) by simp_all
  then show ?thesis using assms(1) by (auto simp: ReadName_def n good_name_def)
qed

section \<open>Attributes\<close>

lemma attr_parse_printed:
  assumes "list_all IsWhiteSpace w" and n: "good_name e n" and v: "good_value e v" and q: "is_quote q"
    and r: "rest \<noteq> []"
  shows "attr_parse e d (Some (w @ n @ [CHR ''='', q] @ EncodeString v @ [q] @ rest)) err = Some (n, v, Some rest, err)"
proof -
  obtain c m where m: "n = c # m" using n by (cases n) (auto simp: good_name_def)
  have c: "name_char c" "one_byte e c" using n by (simp_all add: m good_name_def)
  define t where "t = EncodeString v @ q # rest"
  have s: "skip_to e (Some (w @ n @ CHR ''='' # q # t)) = Some (n @ CHR ''='' # q # t)"
    using skip_to_stop(2) [OF assms(1) c(2) name_char_props(2) [OF c(1)]] by (simp add: m)
  have rn: "ReadName (n @ CHR ''='' # q # t) = Some (n, CHR ''='' # q # t)"
    by (rule ReadName_printed [OF n]) (simp add: name_char_def IsAlphaNum_def is_letter_def is_digit_def)
  have eq: "skip_to e (Some (CHR ''='' # q # t)) = Some (CHR ''='' # q # t)"
    using skip_to_stop(2) [of "[]" e "CHR ''=''"] by (simp add: ascii_one_byte IsWhiteSpace_def)
  have qt: "skip_to e (Some (q # t)) = Some (q # t)"
    using skip_to_stop(2) [of "[]" e q] q by (auto simp: ascii_one_byte IsWhiteSpace_def is_quote_def)
  have "ReadText True e (Some t) False [q] False = Some (v, Some rest)"
    using ReadText_encoded [of v e q True rest] v q r by (simp add: t_def good_value_def)
  then have "attr_value e d (q # t) err = Some (v, Some rest, err)"
    using q by (auto simp: attr_value_def is_quote_def)
  then show ?thesis using s rn eq qt by (simp add: attr_parse_def Let_def t_def)
qed

lemma attr_print_good:
  assumes "good_name e n"
  shows "attr_print (n, v) = n @ [CHR ''='', quote_of v] @ EncodeString v @ [quote_of v]"
  using encode_name [of n] assms by (simp add: attr_print_def good_name_def)

lemma quote_of_quote: "is_quote (quote_of v)"
  by (simp add: quote_of_def is_quote_def)

text \<open>The end of a start tag.\<close>

lemma read_attrs_end:
  "read_attrs e as ('' />'' @ rest) err = Some (as, Empty_Tag rest, err)"
  "read_attrs e as (''>'' @ rest) err = Some (as, Open_Tag rest, err)"
proof -
  have "skip_to e (Some ('' '' @ CHR ''/'' # CHR ''>'' # rest)) = Some (CHR ''/'' # CHR ''>'' # rest)"
    by (rule skip_to_stop) (simp_all add: ascii_one_byte IsWhiteSpace_def)
  then show "read_attrs e as ('' />'' @ rest) err = Some (as, Empty_Tag rest, err)"
    by (subst read_attrs.simps) simp
  have "skip_to e (Some ([] @ CHR ''>'' # rest)) = Some (CHR ''>'' # rest)"
    by (rule skip_to_stop) (simp_all add: ascii_one_byte IsWhiteSpace_def)
  then show "read_attrs e as (''>'' @ rest) err = Some (as, Open_Tag rest, err)"
    by (subst read_attrs.simps) simp
qed

lemma find_attribute_None: "find_attribute n as = None \<longleftrightarrow> n \<notin> set (map fst as)"
  by (simp add: find_attribute_def map_of_eq_None_iff)

lemma shown_good: "good_attributes e as \<Longrightarrow> shown_attributes as = as"
proof -
  assume g: "good_attributes e as"
  have "takeWhile (\<lambda>(n, v). n \<noteq> [] \<or> v \<noteq> []) bs = bs" if "set bs \<subseteq> set as" for bs
    using g that by (auto simp: takeWhile_eq_all_conv good_attributes_def list_all_iff good_name_def)
  then show "shown_attributes as = as" by (cases as) (auto simp: shown_attributes_def)
qed

lemma read_attrs_printed:
  assumes "good_attributes e (as @ bs)" and "rest \<noteq> []"
  shows "read_attrs e as (attrs_print bs @ rest) err = read_attrs e (as @ bs) rest err"
  using assms(1)
proof (induction bs arbitrary: as)
  case Nil
  then show ?case by (simp add: attrs_print_def)
next
  case (Cons b bs)
  obtain n v where b: "b = (n, v)" by (cases b)
  have g: "good_name e n" "good_value e v" "n \<notin> set (map fst as)"
    using Cons.prems by (auto simp: good_attributes_def b)
  define t where "t = attrs_print bs @ rest"
  have t: "t \<noteq> []" using assms(2) by (simp add: t_def)
  obtain c m where m: "n = c # m" using g(1) by (cases n) (auto simp: good_name_def)
  have c: "name_char c" "one_byte e c" using g(1) by (simp_all add: m good_name_def)
  define u where "u = attr_print b @ t"
  have u: "u = n @ [CHR ''='', quote_of v] @ EncodeString v @ [quote_of v] @ t"
    using attr_print_good [OF g(1)] by (simp add: u_def b)
  have p: "attrs_print (b # bs) @ rest = '' '' @ u" by (simp add: attrs_print_def t_def u_def)
  have s: "skip_to e (Some ('' '' @ u)) = Some u"
    using skip_to_stop(2) [of "'' ''" e c] name_char_props(2) [OF c(1)] c(2)
    by (simp add: u m IsWhiteSpace_def)
  have "attr_parse e True (Some u) err = Some (n, v, Some t, err)"
    using attr_parse_printed [of "[]" e n v "quote_of v" t True err] g t quote_of_quote by (simp add: u)
  moreover have "hd u = c" by (simp add: u m)
  ultimately have "read_attrs e as ('' '' @ u) err = read_attrs e (as @ [b]) t err"
    using s name_char_props(3) [OF c(1)] t g(3)
    by (subst read_attrs.simps) (simp add: b find_attribute_None)
  also have "\<dots> = read_attrs e ((as @ [b]) @ bs) rest err"
    unfolding t_def by (rule Cons.IH) (use Cons.prems in simp)
  finally show ?case by (simp add: p)
qed

section \<open>Tags\<close>

lemma stop_at_tag:
  assumes "list_all IsWhiteSpace w"
  shows "SkipWhiteSpace e (Some (w @ CHR ''<'' # p)) = Some (CHR ''<'' # p)"
    "skip_to e (Some (w @ CHR ''<'' # p)) = Some (CHR ''<'' # p)"
  using skip_to_stop [OF assms, of e "CHR ''<''" p] by (simp_all add: ascii_one_byte IsWhiteSpace_def)

lemma start_tag_printed:
  assumes n: "good_name e n" and a: "good_attributes e as" and r: "rest \<noteq> []" "\<not> name_char (hd rest)"
  shows "start_tag e (CHR ''<'' # n @ attrs_print as @ rest) err =
    map_option (\<lambda>(bs, t, er). (n, bs, t, er)) (read_attrs e as rest err)"
proof -
  obtain c m where m: "n = c # m" using n by (cases n) (auto simp: good_name_def)
  have c: "name_char c" "one_byte e c" using n by (simp_all add: m good_name_def)
  define t where "t = attrs_print as @ rest"
  have t: "t \<noteq> []" "\<not> name_char (hd t)"
    using r by (cases as; simp add: t_def attrs_print_def name_char_def IsAlphaNum_def is_letter_def is_digit_def)+
  then obtain h u where h: "t = h # u" "\<not> name_char h" by (cases t) auto
  have "SkipWhiteSpace e (Some (n @ t)) = Some (n @ t)"
    using skip_to_stop(1) [of "[]" e c] name_char_props(2) [OF c(1)] c(2) by (simp add: m)
  moreover have "ReadName (n @ t) = Some (n, t)" using ReadName_printed [OF n h(2)] by (simp add: h)
  moreover have "read_attrs e [] t err = read_attrs e as rest err"
    using read_attrs_printed [of e "[]" as rest err] a r(1) by (simp add: t_def)
  ultimately show ?thesis
    using stop_at_tag(2) [of "[]" e] t(1) by (simp add: start_tag_def flip: t_def)
qed

lemma lower_letter: "name_start c \<Longrightarrow> to_lower c \<noteq> CHR ''?''"
  by (auto simp: name_start_def IsAlpha_def is_letter_def to_lower_def split: if_splits dest: arg_cong [where f = code])

lemma Identify_element:
  assumes "name_start c"
  shows "Identify e (CHR ''<'' # c # p) = Some (TINYXML_ELEMENT [])" "\<not> StringEqual (CHR ''<'' # c # p) ''</'' False"
proof -
  have c: "c \<noteq> CHR ''!''" "c \<noteq> CHR ''/''"
    using assms by (auto simp: name_start_def IsAlpha_def is_letter_def)
  have l: "to_lower (CHR ''?'') = CHR ''?''" by (simp add: to_lower_def)
  show "Identify e (CHR ''<'' # c # p) = Some (TINYXML_ELEMENT [])"
    using stop_at_tag(2) [of "[]" e "c # p"] lower_letter [OF assms] c assms l
    by (simp add: Identify_def StringEqual_def)
  show "\<not> StringEqual (CHR ''<'' # c # p) ''</'' False" using c by (simp add: StringEqual_def)
qed

lemma begins_append: "begins ci tag (tag @ p)"
  by (induction tag) auto

lemma end_tag_printed: "end_tag e n (Some (''</'' @ n @ CHR ''>'' # rest)) err = (Some rest, err)"
proof -
  have "StringEqual (''</'' @ n @ CHR ''>'' # rest) (''</'' @ n) False"
    using begins_append [of False "''</'' @ n"] by (simp add: StringEqual_def)
  moreover have "skip_to e (Some (CHR ''>'' # rest)) = Some (CHR ''>'' # rest)"
    using skip_to_stop(2) [of "[]" e "CHR ''>''"] by (simp add: ascii_one_byte IsWhiteSpace_def)
  ultimately show ?thesis by (simp add: end_tag_def Let_def)
qed

section \<open>Texts\<close>

lemma encoded_first:
  assumes "c \<noteq> CHR '' ''" and "one_byte e c"
  obtains h t where "encode_char c = h # t" "\<not> IsWhiteSpace h" "one_byte e h" "h \<noteq> CHR ''<''"
proof -
  obtain h t where ht: "encode_char c = h # t" using encoded_head(2) [of c] by (cases "encode_char c") auto
  have "h \<noteq> CHR ''<''" using encoded_head(1) [of c "[]"] ht by simp
  moreover have "h = CHR ''&'' \<or> h = c \<and> 33 \<le> code c"
  proof -
    have "code c = code (CHR '' '') \<longrightarrow> c = CHR '' ''" by (simp only: of_char_eq_iff simp_thms)
    then show ?thesis using ht assms(1) by (fastforce simp: encode_char_def char_ref_def split: if_splits)
  qed
  then have "\<not> IsWhiteSpace h \<and> one_byte e h"
    using assms(2) by (auto simp: IsWhiteSpace_def ascii_one_byte)
  ultimately show ?thesis using that ht by blast
qed

lemma text_trim_encoded:
  assumes "good_value e s" and "single_spaces w s"
  shows "text_trim e ''<'' False (EncodeString s @ CHR ''<'' # rest) w acc =
    Some (acc @ (if w then '' '' else []) @ s, Some (CHR ''<'' # rest))"
  using assms
proof (induction s arbitrary: w acc)
  case Nil
  then show ?case by (simp add: text_trim.simps StringEqual_def)
next
  case (Cons c s)
  define p where "p = EncodeString s @ CHR ''<'' # rest"
  have nr: "\<not> is_ref (c # s)" "good_value e s" "one_byte e c"
    using Cons.prems(1) no_ref_Cons by (auto simp: good_value_def)
  have e: "EncodeString (c # s) @ CHR ''<'' # rest = encode_char c @ p"
    using nr(1) by (simp add: EncodeString.simps p_def)
  have ne: "\<not> StringEqual (encode_char c @ p) ''<'' False" "encode_char c @ p \<noteq> []"
    using encoded_not_tag [of "CHR ''<''" c p "[]"] encoded_head(2) by simp_all
  show ?case
  proof (cases "c = CHR '' ''")
    case True
    then have w: "\<not> w" "single_spaces True s" using Cons.prems(2) by simp_all
    have "encode_char c = '' ''" by (simp add: True encode_char_def)
    then have "text_trim e ''<'' False (encode_char c @ p) w acc = text_trim e ''<'' False p True acc"
      using ne by (subst text_trim.simps) (simp add: IsWhiteSpace_def)
    then show ?thesis
      unfolding e using Cons.IH [OF nr(2) w(2), of acc] w(1) by (simp add: True p_def)
  next
    case False
    obtain h t where h: "encode_char c = h # t" "\<not> IsWhiteSpace h" by (rule encoded_first [OF False nr(3)])
    have "text_trim e ''<'' False (encode_char c @ p) w acc =
        text_trim e ''<'' False p False ((if w then acc @ '' '' else acc) @ [c])"
      using ne h GetChar_encoded [OF nr(3), of p] by (subst text_trim.simps) simp
    then show ?thesis
      using Cons.IH [OF nr(2), of False] Cons.prems(2) False by (simp add: e p_def)
  qed
qed

lemma text_parse_printed:
  assumes "good_text e v" and "rest \<noteq> []"
  defines "p \<equiv> EncodeString v @ CHR ''<'' # rest"
  shows "SkipWhiteSpace e (Some p) = Some p" "p \<noteq> [] \<and> hd p \<noteq> CHR ''<''"
    "text_parse True e d False p err = Some (new_text v, Some (CHR ''<'' # rest), err)"
proof -
  obtain c s where v: "v = c # s" and c: "c \<noteq> CHR '' ''" and s: "single_spaces False v"
    using assms(1) by (cases v) (auto simp: good_text_def split: if_splits)
  have nr: "\<not> is_ref (c # s)" "one_byte e c"
    using assms(1) no_ref_Cons by (auto simp: good_text_def good_value_def v)
  obtain h t where h: "encode_char c = h # t" "\<not> IsWhiteSpace h" "one_byte e h" "h \<noteq> CHR ''<''"
    by (rule encoded_first [OF c nr(2)])
  obtain u where p: "p = h # u" using nr(1) h(1) by (simp add: p_def v EncodeString.simps)
  show sk: "SkipWhiteSpace e (Some p) = Some p" using skip_to_stop(1) [of "[]" e h u] h by (simp add: p)
  show hd: "p \<noteq> [] \<and> hd p \<noteq> CHR ''<''" using h by (simp add: p)
  have "text_trim e ''<'' False p False [] = Some (v, Some (CHR ''<'' # rest))"
    using text_trim_encoded [of e v False rest "[]"] assms(1) s by (simp add: p_def good_text_def)
  then have "ReadText True e (Some p) True ''<'' False = Some (v, Some rest)"
    using sk assms(2) by (simp add: ReadText_def)
  moreover have "\<not> StringEqual p ''<![CDATA['' False" using h(4) by (simp add: p StringEqual_def)
  ultimately show "text_parse True e d False p err = Some (new_text v, Some (CHR ''<'' # rest), err)"
    using assms(2) by (simp add: text_parse_def new_text_def)
qed

section \<open>Elements\<close>

lemma good_element_head:
  assumes "good_element e x"
  obtains c p where "render d x = CHR ''<'' # c # p" "name_start c"
proof -
  obtain ty n cs where x: "x = XNode ty n cs" by (cases x)
  obtain c m where "n = c # m" "name_start c" using assms by (cases n) (auto simp: x good_name_def)
  then show ?thesis using that by (simp add: x)
qed

lemma white_prefix: "list_all IsWhiteSpace (indentation d)" "list_all IsWhiteSpace line_break"
  by (induction d) (auto simp: indentation_def line_break_def IsWhiteSpace_def)

text \<open>The children of an element that has no text, given that each of them is read back.\<close>

lemma read_value_printed:
  assumes "\<And>x k rest err. x \<in> set cs \<Longrightarrow> 2 * length (render d x @ rest) + 1 \<le> k \<Longrightarrow>
      element_parse k True e (render d x @ rest) err = Parsed (x, Some rest, err)"
    and "\<And>x. x \<in> set cs \<Longrightarrow> good_element e x"
    and "list_all IsWhiteSpace w" and "list_all IsWhiteSpace w'"
    and "2 * length (w @ concat (map (render_line d) cs) @ w' @ ''</'' @ rest) + 2 \<le> k"
  shows "read_value k True e acc (Some (w @ concat (map (render_line d) cs) @ w' @ ''</'' @ rest)) err =
    Parsed (acc @ cs, Some (''</'' @ rest), err)"
  using assms
proof (induction cs arbitrary: k w acc)
  case Nil
  obtain j where k: "k = Suc j" using Nil.prems(5) by (cases k) auto
  have "SkipWhiteSpace e (Some ((w @ w') @ ''</'' @ rest)) = Some (''</'' @ rest)"
    using stop_at_tag(1) [of "w @ w'" e "CHR ''/'' # rest"] Nil.prems(3,4) by simp
  then show ?case by (simp add: k StringEqual_def)
next
  case (Cons x cs)
  obtain j where k: "k = Suc j" using Cons.prems(5) by (cases k) auto
  define more where "more = concat (map (render_line d) cs) @ w' @ ''</'' @ rest"
  define r where "r = line_break @ more"
  have p: "w @ concat (map (render_line d) (x # cs)) @ w' @ ''</'' @ rest = (w @ indentation d) @ render d x @ r"
    by (simp add: render_line_def r_def more_def)
  have len: "2 * length ((w @ indentation d) @ render d x @ r) + 2 \<le> Suc j"
    using Cons.prems(5) unfolding p k .
  have g: "good_element e x" using Cons.prems(2) by simp
  obtain c u where c: "render d x = CHR ''<'' # c # u" "name_start c" by (rule good_element_head [OF g])
  have "SkipWhiteSpace e (Some ((w @ indentation d) @ render d x @ r)) = Some (render d x @ r)"
    using stop_at_tag(1) [of "w @ indentation d" e "c # u @ r"] Cons.prems(3) white_prefix by (simp add: c(1))
  moreover have "element_parse j True e (render d x @ r) err = Parsed (x, Some r, err)"
    by (rule Cons.prems(1)) (use len in simp_all)
  moreover have "read_value j True e (acc @ [x]) (Some r) err = Parsed ((acc @ [x]) @ cs, Some (''</'' @ rest), err)"
    unfolding r_def more_def
  proof (rule Cons.IH)
    show "2 * length (line_break @ concat (map (render_line d) cs) @ w' @ ''</'' @ rest) + 2 \<le> j"
      using len by (simp add: r_def more_def c(1))
  qed (use Cons.prems white_prefix in auto)
  ultimately show ?case
    using Identify_element(1) [OF c(2), of e "u @ r"] Identify_element(2) [OF c(2), of "u @ r"] unfolding p k read_value_step
    by (simp add: c(1) node_parse_def)
qed

lemma element_printed:
  "good_element e x \<Longrightarrow> 2 * length (render d x @ rest) + 1 \<le> k \<Longrightarrow>
    element_parse k True e (render d x @ rest) err = Parsed (x, Some rest, err)"
proof (induction x arbitrary: d rest k err)
  case (XNode ty n cs)
  obtain as where ty: "ty = TINYXML_ELEMENT as" and a: "good_attributes e as" and n: "good_name e n"
    using XNode.prems(1) by (auto split: node_type.splits)
  obtain j where k: "k = Suc j" using XNode.prems(2) by (cases k) auto
  have tags: "\<not> name_char (CHR '' '')" "\<not> name_char (CHR ''>'')"
    by (simp_all add: name_char_def IsAlphaNum_def is_letter_def is_digit_def)
  show ?case
  proof (cases "cs = []")
    case True
    have "start_tag e (CHR ''<'' # n @ attrs_print as @ '' />'' @ rest) err = Some (n, as, Empty_Tag rest, err)"
      using start_tag_printed [OF n a, of "'' />'' @ rest" err] read_attrs_end(1) tags by simp
    then show ?thesis by (simp add: k ty True shown_good [OF a])
  next
    case cs: False
    define body where "body = (if simple_text cs then EncodeString (nvalue (hd cs))
      else line_break @ concat (map (render_line (d + 1)) cs) @ indentation d)"
    define tail where "tail = n @ CHR ''>'' # rest"
    have p: "render d (XNode ty n cs) @ rest = CHR ''<'' # n @ attrs_print as @ ''>'' @ body @ ''</'' @ tail"
      using cs by (simp add: ty body_def tail_def render_line_def [abs_def] shown_good [OF a])
    have len: "2 * length (CHR ''<'' # n @ attrs_print as @ ''>'' @ body @ ''</'' @ tail) + 1 \<le> Suc j"
      using XNode.prems(2) unfolding p k .
    have "start_tag e (CHR ''<'' # n @ attrs_print as @ ''>'' @ body @ ''</'' @ tail) err =
        Some (n, as, Open_Tag (body @ ''</'' @ tail), err)"
      using start_tag_printed [OF n a, of "''>'' @ body @ ''</'' @ tail" err] read_attrs_end(2) tags by simp
    moreover have "read_value j True e [] (Some (body @ ''</'' @ tail)) err = Parsed (cs, Some (''</'' @ tail), err)"
    proof (cases "simple_text cs")
      case True
      then obtain v ks where v: "cs = [XNode (TINYXML_TEXT False) v ks]" by (rule simple_textE)
      have g: "good_text e v" "ks = []" using XNode.prems(1) by (simp_all add: v simple_text_def)
      note t = text_parse_printed [OF g(1), of "CHR ''/'' # tail"]
      obtain i where j: "j = Suc (Suc i)"
        using len by (cases j; cases "j - 1") auto
      define q where "q = EncodeString v @ CHR ''<'' # CHR ''/'' # tail"
      have q: "SkipWhiteSpace e (Some q) = Some q" "text_parse True e False False q err =
          Some (new_text v, Some (CHR ''<'' # CHR ''/'' # tail), err)"
        using t by (simp_all add: q_def)
      obtain h u where h: "q = h # u" "h \<noteq> CHR ''<''" using t(2) by (cases q) (simp_all add: q_def)
      have nb: "\<not> Blank (nvalue (new_text v))" using g(1) by (simp add: good_text_def new_text_def)
      have e1: "read_value (Suc (Suc i)) True e [] (Some q) err =
          read_value (Suc i) True e [new_text v] (Some (CHR ''<'' # CHR ''/'' # tail)) err"
        using q h nb unfolding read_value_step [of "Suc i"] by simp
      have e2: "read_value (Suc i) True e [new_text v] (Some (CHR ''<'' # CHR ''/'' # tail)) err =
          Parsed ([new_text v], Some (CHR ''<'' # CHR ''/'' # tail), err)"
        using stop_at_tag(1) [of "[]" e "CHR ''/'' # tail"] unfolding read_value_step
        by (simp add: StringEqual_def)
      show ?thesis using e1 e2 True by (simp add: j body_def v q_def new_text_def g(2))
    next
      case False
      have gc: "good_element e x" if "x \<in> set cs" for x using XNode.prems(1) False that by simp
      have "read_value j True e [] (Some (line_break @ concat (map (render_line (d + 1)) cs) @ indentation d @
          ''</'' @ tail)) err = Parsed ([] @ cs, Some (''</'' @ tail), err)"
      proof (rule read_value_printed)
        show "element_parse i True e (render (d + 1) x @ r) er = Parsed (x, Some r, er)"
          if "x \<in> set cs" "2 * length (render (d + 1) x @ r) + 1 \<le> i" for x i r er
          by (rule XNode.IH [OF that(1) gc [OF that(1)] that(2)])
        show "2 * length (line_break @ concat (map (render_line (d + 1)) cs) @ indentation d @ ''</'' @ tail) + 2 \<le> j"
          using len False by (simp add: body_def)
      qed (use gc white_prefix in auto)
      then show ?thesis using False by (simp add: body_def)
    qed
    moreover have "end_tag e n (Some (''</'' @ tail)) err = (Some rest, err)"
      unfolding tail_def by (rule end_tag_printed)
    ultimately show ?thesis unfolding p k by (simp add: ty)
  qed
qed

section \<open>Documents\<close>

definition decl_node :: xnode where
  "decl_node = XNode (TINYXML_DECLARATION ''1.0'' ''utf-8'' ''no'') [] []"

lemma good_elements_only: "good_element e x \<Longrightarrow> elements_only x"
  by (induction x) (auto split: node_type.splits if_splits)

lemma document_printed:
  assumes "elements_only x"
  shows "xml_print (XNode TINYXML_DOCUMENT [] [decl_node, x]) =
    decl_print ''1.0'' ''utf-8'' ''no'' @ line_break @ render 0 x @ line_break"
  using Accept_render [OF assms]
  by (simp add: xml_print_def decl_node_def new_printer_def line_def DoIndent_def DoLineBreak_def
      render_line_def indentation_def)

lemma decl_item_read:
  assumes "EncodeString v = v" and "good_name e key" and "good_value e v" and "rest \<noteq> []"
    and "\<And>t. decl_key (key @ t) = Some key" and "\<not> hd key = CHR ''>''"
  shows "decl_loop e d (CHR '' '' # key @ CHR ''='' # CHR 0x22 # v @ CHR 0x22 # rest) =
    decl_loop e (set_decl key v d) rest"
proof -
  define p where "p = key @ CHR ''='' # CHR 0x22 # v @ CHR 0x22 # rest"
  obtain c m where m: "key = c # m" using assms(2) by (cases key) (auto simp: good_name_def)
  have c: "name_char c" "one_byte e c" using assms(2) by (simp_all add: m good_name_def)
  have s: "skip_to e (Some (CHR '' '' # p)) = Some p"
    using skip_to_stop(2) [of "'' ''" e c] name_char_props(2) [OF c(1)] c(2)
    by (simp add: p_def m IsWhiteSpace_def)
  have "attr_parse e False (Some p) None = Some (key, v, Some rest, None)"
    using attr_parse_printed [of "[]" e key v "CHR 0x22" rest False None] assms
    by (simp add: p_def is_quote_def)
  moreover have "decl_key p = Some key" using assms(5) by (simp add: p_def)
  ultimately have "decl_loop e d (CHR '' '' # p) = decl_loop e (set_decl key v d) rest"
    using s by (subst decl_loop.simps) (simp del: decl_key.simps)
  then show ?thesis by (simp add: p_def)
qed

lemma ascii_name:
  "list_all (\<lambda>c. name_char c \<and> code c < 0xC2) n \<Longrightarrow> n \<noteq> [] \<Longrightarrow> name_start (hd n) \<Longrightarrow> good_name e n"
  by (auto simp: good_name_def list_all_iff ascii_one_byte)

lemma ascii_value: "list_all (\<lambda>c. c \<noteq> CHR ''&'' \<and> code c < 0xC2) v \<Longrightarrow> good_value e v"
proof -
  assume a: "list_all (\<lambda>c. c \<noteq> CHR ''&'' \<and> code c < 0xC2) v"
  have "\<not> is_ref (drop i v)" for i
  proof
    assume "is_ref (drop i v)"
    then have "CHR ''&'' \<in> set (drop i v)" by (cases "drop i v") (auto simp: is_ref_def)
    then show False using a set_drop_subset by (fastforce simp: list_all_iff)
  qed
  then show ?thesis using a by (auto simp: good_value_def no_ref_def list_all_iff ascii_one_byte)
qed

lemmas ascii_defs = name_char_def name_start_def IsAlpha_def IsAlphaNum_def is_letter_def is_digit_def

lemma decl_parsed:
  "leaf_parse cw ENC_UNKNOWN (TINYXML_DECLARATION [] [] []) (decl_print ''1.0'' ''utf-8'' ''no'' @ rest) err =
    Some (decl_node, Some rest, err)"
proof -
  define p where "p = CHR ''?'' # CHR ''>'' # rest"
  have names: "good_name e ''version''" "good_name e ''encoding''" "good_name e ''standalone''" for e
    by (rule ascii_name; simp add: ascii_defs)+
  have vals: "good_value e ''1.0''" "good_value e ''utf-8''" "good_value e ''no''" for e
    by (rule ascii_value; simp)+
  have enc: "EncodeString ''1.0'' = ''1.0''" "EncodeString ''utf-8'' = ''utf-8''" "EncodeString ''no'' = ''no''"
    by (simp_all add: EncodeString.simps is_ref_def encode_char_def)
  have low: "to_lower (CHR ''v'') = CHR ''v''" "to_lower (CHR ''e'') = CHR ''e''" "to_lower (CHR ''s'') = CHR ''s''"
    by (simp_all add: to_lower_def)
  have keys: "decl_key (''version'' @ t) = Some ''version''" "decl_key (''encoding'' @ t) = Some ''encoding''"
    "decl_key (''standalone'' @ t) = Some ''standalone''" for t
    using begins_append [of True "''version''" t] begins_append [of True "''encoding''" t]
      begins_append [of True "''standalone''" t] by (simp_all add: StringEqual_def low)
  have "skip_to ENC_UNKNOWN (Some (CHR '' '' # p)) = Some p"
    using skip_to_stop(2) [of "'' ''" ENC_UNKNOWN "CHR ''?''"] by (simp add: p_def ascii_one_byte IsWhiteSpace_def)
  moreover have "decl_key p = None" by (simp add: p_def StringEqual_def low) (simp add: to_lower_def)
  ultimately have last: "decl_loop ENC_UNKNOWN d (CHR '' '' # p) = Some (d, Some rest)" for d
    by (subst decl_loop.simps) (simp add: p_def decl_end_def IsWhiteSpace_def, subst decl_loop.simps, simp)
  define q3 q2 q1 q0 where "q3 = CHR '' '' # p"
    and "q2 = CHR '' '' # ''standalone'' @ CHR ''='' # CHR 0x22 # ''no'' @ CHR 0x22 # q3"
    and "q1 = CHR '' '' # ''encoding'' @ CHR ''='' # CHR 0x22 # ''utf-8'' @ CHR 0x22 # q2"
    and "q0 = CHR '' '' # ''version'' @ CHR ''='' # CHR 0x22 # ''1.0'' @ CHR 0x22 # q1"
  have "decl_loop ENC_UNKNOWN d q0 = decl_loop ENC_UNKNOWN (set_decl ''version'' ''1.0'' d) q1" for d
    unfolding q0_def by (rule decl_item_read [OF enc(1) names(1) vals(1) _ keys(1)]) (simp_all add: q1_def)
  moreover have "decl_loop ENC_UNKNOWN d q1 = decl_loop ENC_UNKNOWN (set_decl ''encoding'' ''utf-8'' d) q2" for d
    unfolding q1_def by (rule decl_item_read [OF enc(2) names(2) vals(2) _ keys(2)]) (simp_all add: q2_def)
  moreover have "decl_loop ENC_UNKNOWN d q2 = decl_loop ENC_UNKNOWN (set_decl ''standalone'' ''no'' d) q3" for d
    unfolding q2_def by (rule decl_item_read [OF enc(3) names(3) vals(3) _ keys(3)]) (simp_all add: q3_def)
  ultimately have loop: "decl_loop ENC_UNKNOWN ([], [], []) q0 = Some ((''1.0'', ''utf-8'', ''no''), Some rest)"
    using last by (simp add: q3_def)
  define doc where "doc = ''<?xml'' @ q0"
  have pr: "decl_print ''1.0'' ''utf-8'' ''no'' @ rest = doc"
    by (simp add: doc_def decl_print_def decl_item_def q0_def q1_def q2_def q3_def p_def)
  have "skip_to ENC_UNKNOWN (Some doc) = Some doc"
    using stop_at_tag(2) [of "[]" ENC_UNKNOWN] by (simp add: doc_def)
  moreover have "StringEqual doc ''<?xml'' True"
    using begins_append [of True "''<?xml''" q0] by (simp add: doc_def StringEqual_def)
  moreover have "drop 5 doc = q0" by (simp add: doc_def)
  ultimately show ?thesis
    using loop by (simp add: pr leaf_parse_def decl_parse_def Let_def decl_node_def)
qed

lemma decl_identified: "Identify e (decl_print v en st @ rest) = Some (TINYXML_DECLARATION [] [] [])"
proof -
  define q where "q = '' '' @ decl_item ''version'' v @ decl_item ''encoding'' en @ decl_item ''standalone'' st @ ''?>'' @ rest"
  have p: "decl_print v en st @ rest = ''<?xml'' @ q" by (simp add: decl_print_def q_def)
  have "StringEqual (''<?xml'' @ q) ''<?xml'' True"
    using begins_append [of True "''<?xml''" q] by (simp add: StringEqual_def)
  then show ?thesis
    unfolding p using stop_at_tag(2) [of "[]" e "''?xml'' @ q"] by (simp add: Identify_def)
qed

lemma decl_encoding: "new_encoding ENC_UNKNOWN decl_node = ENC_UTF8"
  by (simp add: new_encoding_def decl_node_def StringEqual_def to_lower_def char_of_def bit_0)

lemma document_parsed:
  assumes "good_element ENC_UTF8 x"
  shows "xml_parse True ENC_UNKNOWN (xml_print (XNode TINYXML_DOCUMENT [] [decl_node, x])) =
    Parsed ([decl_node, x], Some [], None, ENC_UTF8)"
proof -
  define q where "q = line_break @ render 0 x @ line_break"
  define p where "p = decl_print ''1.0'' ''utf-8'' ''no'' @ q"
  obtain c u where c: "render 0 x = CHR ''<'' # c # u" "name_start c" by (rule good_element_head [OF assms])
  obtain t where t: "p = CHR ''<'' # CHR ''?'' # t" by (simp add: p_def decl_print_def)
  have start: "start_encoding ENC_UNKNOWN p = ENC_UNKNOWN" by (simp add: t start_encoding_def)
  have s1: "SkipWhiteSpace ENC_UNKNOWN (Some p) = Some p"
    using stop_at_tag(1) [of "[]" ENC_UNKNOWN] by (simp add: t)
  have s2: "SkipWhiteSpace ENC_UTF8 (Some q) = Some (render 0 x @ line_break)"
    using stop_at_tag(1) [of line_break ENC_UTF8 "c # u @ line_break"] white_prefix by (simp add: q_def c)
  have s3: "SkipWhiteSpace ENC_UTF8 (Some line_break) = Some []"
    by (simp add: SkipWhiteSpace_def line_break_def IsWhiteSpace_def bom_def)
  have lq: "length p = length (decl_print ''1.0'' ''utf-8'' ''no'') + length q" by (simp add: p_def)
  then obtain j where j: "length p = Suc (Suc j)" by (simp add: t)
  have el: "element_parse (2 * length p + 2) True ENC_UTF8 (render 0 x @ line_break) None =
      Parsed (x, Some line_break, None)"
    by (rule element_printed [OF assms]) (simp add: lq q_def)
  have d: "node_parse m True ENC_UNKNOWN (TINYXML_DECLARATION [] [] []) p None = Parsed (decl_node, Some q, None)" for m
    using decl_parsed by (simp add: node_parse_def p_def)
  have i1: "Identify ENC_UNKNOWN p = Some (TINYXML_DECLARATION [] [] [])" by (simp add: p_def decl_identified)
  have i2: "Identify ENC_UTF8 (render 0 x @ line_break) = Some (TINYXML_ELEMENT [])"
    using Identify_element(1) [OF c(2)] by (simp add: c(1))
  have "ntype x \<noteq> TINYXML_DECLARATION a b cc" for a b cc using assms by (cases x) (auto split: node_type.splits)
  then have e2: "new_encoding ENC_UTF8 x = ENC_UTF8" by (simp add: new_encoding_def split: node_type.split)
  define m where "m = 2 * length p + 2"
  have l3: "doc_loop (Suc k) m True ENC_UTF8 cs (Some []) er = Parsed (cs, Some [], er, ENC_UTF8)" for k cs er by simp
  have l2: "doc_loop (Suc (Suc k)) m True ENC_UTF8 [decl_node] (Some (render 0 x @ line_break)) None =
      Parsed ([decl_node, x], Some [], None, ENC_UTF8)" for k
    using i2 el s3 e2 l3 by (simp add: c(1) m_def Let_def del: doc_loop.simps add: doc_loop.simps(2) [of "Suc k"])
  have "doc_loop (Suc (Suc (Suc j))) m True ENC_UNKNOWN [] (Some p) None =
      Parsed ([decl_node, x], Some [], None, ENC_UTF8)"
    using i1 d [of m] s2 l2 [of j] decl_encoding
    by (simp add: t node_parse_def of_option_def Let_def del: doc_loop.simps add: doc_loop.simps(2) [of "Suc (Suc j)"])
  then have "xml_parse True ENC_UNKNOWN p = Parsed ([decl_node, x], Some [], None, ENC_UTF8)"
    using start s1 j t by (simp add: xml_parse_def Let_def m_def del: doc_loop.simps)
  then show ?thesis
    using document_printed [OF good_elements_only [OF assms]] by (simp add: p_def q_def)
qed

end
