(* ===== verification/DmXml.thy ===== *)
theory DmXml
  imports XmlPrint "HOL-Library.Monad_Syntax"
begin

text \<open>
  The XML wrapper of the synchronisation server (\<^verbatim>\<open>HMSyncPlatformServer/xml.cpp\<close>): a document, the node
  the calls work on, and the node found last.  \<open>None\<close> stands for undefined behaviour: a null or dangling
  pointer is followed, or a buffer is too small.  \<^verbatim>\<open>strdup\<close> is that of the Microsoft library, which
  returns null for null.
\<close>

section \<open>Decimal numbers\<close>

definition digit :: "nat \<Rightarrow> char" where
  "digit n = char_of (48 + n)"

fun show_nat :: "nat \<Rightarrow> string" where
  "show_nat n = (if n < 10 then [digit n] else show_nat (n div 10) @ [digit (n mod 10)])"

declare show_nat.simps [simp del]

definition show_int :: "int \<Rightarrow> string" where
  "show_int i = (if i < 0 then CHR ''-'' # show_nat (nat (- i)) else show_nat (nat i))"

fun read_digits :: "string \<Rightarrow> int \<Rightarrow> int" where
  "read_digits [] acc = acc"
| "read_digits (c # s) acc = (if is_digit c then read_digits s (acc * 10 + int (code c - 48)) else acc)"

text \<open>\<^verbatim>\<open>atoi\<close> and \<^verbatim>\<open>atol\<close>, which give the closest value when the number does not fit.\<close>

definition clamp :: "int \<Rightarrow> int" where
  "clamp i = max (- (2 ^ 31)) (min (2 ^ 31 - 1) i)"

definition atoi :: "string \<Rightarrow> int" where
  "atoi s =
     (let t = dropWhile IsWhiteSpace s in
      case t of
        [] \<Rightarrow> 0
      | c # r \<Rightarrow> if c = CHR ''-'' then clamp (- read_digits r 0)
                 else if c = CHR ''+'' then clamp (read_digits r 0) else clamp (read_digits t 0))"

section \<open>The wrapper\<close>

text \<open>A pointer to a node that was deleted is as bad as one that was never set.\<close>

datatype node_ptr = Bad_Node | Null_Node | At path

record dmxml =
  m_Doc :: xnode
  m_pnode :: node_ptr
  m_pre_pnode :: node_ptr

definition new_DMXml :: dmxml where
  "new_DMXml = \<lparr>m_Doc = new_document, m_pnode = Bad_Node, m_pre_pnode = Bad_Node\<rparr>"

definition to_ptr :: "path option \<Rightarrow> node_ptr" where
  "to_ptr p = (case p of None \<Rightarrow> Null_Node | Some q \<Rightarrow> At q)"

definition deleted :: "node_ptr \<Rightarrow> node_ptr" where
  "deleted p = (case p of At q \<Rightarrow> Bad_Node | _ \<Rightarrow> p)"

definition ClearDoc :: "dmxml \<Rightarrow> dmxml" where
  "ClearDoc x = \<lparr>m_Doc = new_document, m_pnode = deleted (m_pnode x), m_pre_pnode = deleted (m_pre_pnode x)\<rparr>"

text \<open>The node the pointer leads to, and the same for a cast to an element.\<close>

definition follow :: "node_ptr \<Rightarrow> dmxml \<Rightarrow> (path \<times> xnode) option" where
  "follow p x = (case p of At q \<Rightarrow> map_option (Pair q) (node_at q (m_Doc x)) | _ \<Rightarrow> None)"

definition follow_element :: "dmxml \<Rightarrow> (path \<times> xnode) option" where
  "follow_element x =
     (case follow (m_pnode x) x of
        None \<Rightarrow> None
      | Some (q, n) \<Rightarrow> if is_element n then Some (q, n) else None)"

definition NewRoot :: "string \<Rightarrow> dmxml \<Rightarrow> dmxml option" where
  "NewRoot name x =
     (let decl = XNode (TINYXML_DECLARATION ''1.0'' ''utf-8'' ''no'') [] [];
          x1 = ClearDoc x;
          (_, d1) = LinkEndChild [] decl (m_Doc x1);
          (q, d2) = LinkEndChild [] (new_element name) d1
      in Some (x1\<lparr>m_Doc := d2, m_pnode := to_ptr q\<rparr>))"

definition NewChild :: "string \<Rightarrow> string option \<Rightarrow> dmxml \<Rightarrow> dmxml option" where
  "NewChild name val x =
     do {
       (p, _) \<leftarrow> follow (m_pnode x) x;
       let nn = (case val of None \<Rightarrow> new_element name | Some v \<Rightarrow> link_child (new_text v) (new_element name));
       let (q, d) = LinkEndChild p nn (m_Doc x);
       Some (x\<lparr>m_Doc := d, m_pnode := to_ptr q\<rparr>)
     }"

definition GetRoot :: "dmxml \<Rightarrow> dmxml option" where
  "GetRoot x = Some (x\<lparr>m_pnode := to_ptr (FirstChildElement (m_Doc x) [])\<rparr>)"

definition CheckNodeValid :: "dmxml \<Rightarrow> bool" where
  "CheckNodeValid x = (m_pnode x \<noteq> Null_Node)"

definition GetParent :: "dmxml \<Rightarrow> dmxml option" where
  "GetParent x =
     do {
       (p, _) \<leftarrow> follow (if m_pnode x \<noteq> Null_Node then m_pnode x else m_pre_pnode x) x;
       Some (x\<lparr>m_pnode := to_ptr (Parent p)\<rparr>)
     }"

definition SetTextAttribute :: "string \<Rightarrow> string \<Rightarrow> dmxml \<Rightarrow> dmxml option" where
  "SetTextAttribute name v x =
     do {
       (p, n) \<leftarrow> follow_element x;
       as \<leftarrow> SetAttribute name v (attributes_of n);
       Some (x\<lparr>m_Doc := upd_at p (set_attributes as) (m_Doc x)\<rparr>)
     }"

definition SetIntAttribute :: "string \<Rightarrow> int \<Rightarrow> dmxml \<Rightarrow> dmxml option" where
  "SetIntAttribute name v x = SetTextAttribute name (show_int v) x"

text \<open>\<^verbatim>\<open>SetIntValue\<close> renames the element; \<^verbatim>\<open>itoa\<close> writes into ten characters.\<close>

definition SetIntValue :: "int \<Rightarrow> dmxml \<Rightarrow> dmxml option" where
  "SetIntValue v x =
     do {
       (p, n) \<leftarrow> follow_element x;
       if length (show_int v) < 10
       then Some (x\<lparr>m_Doc := upd_at p (\<lambda>y. XNode (ntype y) (show_int v) (children y)) (m_Doc x)\<rparr>)
       else None
     }"

definition Encode :: "dmxml \<Rightarrow> string" where
  "Encode x = xml_print (m_Doc x)"

text \<open>\<^verbatim>\<open>Decode\<close>; the parser always returns.\<close>

definition Decode :: "string \<Rightarrow> dmxml \<Rightarrow> (string option \<times> dmxml) option" where
  "Decode s x =
     (case xml_parse True ENC_UNKNOWN s of
        Parsed (cs, p, err, e) \<Rightarrow> Some (p, (ClearDoc x)\<lparr>m_Doc := XNode TINYXML_DOCUMENT [] cs\<rparr>)
      | _ \<Rightarrow> None)"

definition FindElement :: "string \<Rightarrow> dmxml \<Rightarrow> dmxml option" where
  "FindElement name x =
     (if m_pnode x = Null_Node then Some x
      else do {
        (p, _) \<leftarrow> follow (m_pnode x) x;
        let q = to_ptr (FirstChild (m_Doc x) p name);
        let x1 = x\<lparr>m_pnode := q\<rparr>;
        Some (if q \<noteq> Null_Node then x1\<lparr>m_pre_pnode := q\<rparr> else x1)
      })"

definition FindAllElement :: "string \<Rightarrow> dmxml \<Rightarrow> (bool \<times> dmxml) option" where
  "FindAllElement name x =
     (if m_pnode x = Null_Node then Some (False, x)
      else do {
        (p, _) \<leftarrow> follow (m_pnode x) x;
        let q = to_ptr (NextSibling (m_Doc x) p name);
        Some (q \<noteq> Null_Node, x\<lparr>m_pnode := q\<rparr>)
      })"

definition GetValueText :: "dmxml \<Rightarrow> string option option" where
  "GetValueText x =
     (if m_pnode x = Null_Node then Some None
      else do { (p, n) \<leftarrow> follow_element x; Some (GetText n) })"

definition GetValueInt :: "dmxml \<Rightarrow> int option" where
  "GetValueInt x =
     (if m_pnode x = Null_Node then Some 0
      else do { (p, n) \<leftarrow> follow_element x; t \<leftarrow> GetText n; Some (atoi t) })"

definition GetAttributeText :: "string \<Rightarrow> dmxml \<Rightarrow> string option option" where
  "GetAttributeText name x =
     (if m_pnode x = Null_Node then Some None
      else do { (p, n) \<leftarrow> follow_element x; Some (find_attribute name (attributes_of n)) })"

section \<open>The wrapper of the video server\<close>

text \<open>\<^verbatim>\<open>server/xml.cpp\<close> has no node found last: \<^verbatim>\<open>GetParent\<close> follows the pointer as it is.\<close>

definition server_GetParent :: "dmxml \<Rightarrow> dmxml option" where
  "server_GetParent x = do { (p, _) \<leftarrow> follow (m_pnode x) x; Some (x\<lparr>m_pnode := to_ptr (Parent p)\<rparr>) }"

definition server_FindElement :: "string \<Rightarrow> dmxml \<Rightarrow> dmxml option" where
  "server_FindElement name x =
     (if m_pnode x = Null_Node then Some x
      else do { (p, _) \<leftarrow> follow (m_pnode x) x; Some (x\<lparr>m_pnode := to_ptr (FirstChild (m_Doc x) p name)\<rparr>) })"

definition server_FindAllElement :: "string \<Rightarrow> dmxml \<Rightarrow> dmxml option" where
  "server_FindAllElement name x =
     (if m_pnode x = Null_Node then Some x
      else do { (p, _) \<leftarrow> follow (m_pnode x) x; Some (x\<lparr>m_pnode := to_ptr (NextSibling (m_Doc x) p name)\<rparr>) })"

end
