(* ===== verification/SyncHttp.thy ===== *)
theory SyncHttp
  imports DmXml
begin

text \<open>
  The web service of the synchronisation server (\<^verbatim>\<open>SMUSync.cpp\<close>): reading a request, taking the records
  out of its body, and building the answer.  \<open>None\<close> stands for undefined behaviour or the end of the
  process, as in \<open>DmXml\<close>.
\<close>

section \<open>Records\<close>

record SyncPlatformData =
  d_SerialNumber :: string
  d_CustID :: string
  d_CustAccunt :: string
  d_CustName :: string
  d_CustState :: string
  d_AreaID :: string
  d_LinkAddr :: string

record SyncPlatformDataResult =
  r_SerialNumber :: string
  r_ErrCode :: string
  r_Desc :: string
  r_UserState :: string
  r_ViewName :: string

definition empty_data :: SyncPlatformData where
  "empty_data = \<lparr>d_SerialNumber = [], d_CustID = [], d_CustAccunt = [], d_CustName = [], d_CustState = [],
     d_AreaID = [], d_LinkAddr = []\<rparr>"

section \<open>Reading a request\<close>

text \<open>\<^verbatim>\<open>std::string::find\<close>, and a buffer read as a C string.\<close>

fun find_sub :: "string \<Rightarrow> string \<Rightarrow> nat option" where
  "find_sub pat [] = (if pat = [] then Some 0 else None)"
| "find_sub pat (c # s) = (if begins False pat (c # s) then Some 0 else map_option Suc (find_sub pat s))"

definition c_str :: "string \<Rightarrow> string" where
  "c_str s = takeWhile (\<lambda>c. c \<noteq> CHR 0x00) s"

definition blank_line :: string where
  "blank_line = [CHR 0x0D, CHR 0x0A, CHR 0x0D, CHR 0x0A]"

definition crlf :: string where
  "crlf = [CHR 0x0D, CHR 0x0A]"

text \<open>The number behind \<^verbatim>\<open>Content-Length:\<close> in the header, when it has that field after its first
  character.\<close>

definition content_length :: "string \<Rightarrow> u32 option" where
  "content_length header =
     (case find_sub ''Content-Length:'' header of
        None \<Rightarrow> None
      | Some pos \<Rightarrow>
          if pos = 0 then None
          else let field = drop pos header;
                   contlen = (case find_sub crlf field of None \<Rightarrow> field | Some n \<Rightarrow> take n field)
               in Some (word_of_int (atoi (drop 15 contlen))))"

text \<open>\<^verbatim>\<open>ReadInfo\<close>.  \<open>first\<close> is what \<^verbatim>\<open>st_read\<close> stored, if it succeeded; \<open>later n\<close> what \<^verbatim>\<open>st_read_fully\<close>
  stored of the \<open>n\<close> bytes asked for.  The buffer for those has no terminating null character, so
  appending it reads past its end when it is full and holds none.\<close>

definition append_buffer :: "nat \<Rightarrow> string \<Rightarrow> string option" where
  "append_buffer n bytes = (if length bytes < n \<or> CHR 0x00 \<in> set bytes then Some (c_str bytes) else None)"

definition ReadInfo :: "string option \<Rightarrow> (nat \<Rightarrow> string) \<Rightarrow> string option" where
  "ReadInfo first later =
     (case first of
        None \<Rightarrow> Some []
      | Some bytes \<Rightarrow>
          (let WebInfo = c_str bytes in
           case find_sub blank_line WebInfo of
             None \<Rightarrow> Some []
           | Some body_pos \<Rightarrow>
               if body_pos = 0 then Some []
               else case content_length (take body_pos WebInfo) of
                      None \<Rightarrow> Some []
                    | Some bodylen \<Rightarrow>
                        (let total_len = sint (of_nat body_pos + bodylen + 4 :: u32);
                             read_len = int (length bytes)
                         in if find_sub ''POST'' WebInfo = None then Some []
                            else if read_len < total_len
                            then let n = nat (total_len - read_len) in
                                 map_option (\<lambda>s. drop (body_pos + 4) (WebInfo @ s)) (append_buffer n (later n))
                            else Some (drop (body_pos + 4) WebInfo))))"

section \<open>Records of the body\<close>

text \<open>One field: the element is looked for, its text stored, and the node checked.  \<open>Some (False, \<dots>)\<close>
  leaves the block.\<close>

definition read_field ::
  "string \<Rightarrow> (string \<Rightarrow> SyncPlatformData \<Rightarrow> SyncPlatformData) \<Rightarrow> dmxml \<times> SyncPlatformData \<Rightarrow>
     (bool \<times> dmxml \<times> SyncPlatformData) option" where
  "read_field name store xd =
     (case xd of
        (x, d) \<Rightarrow>
          do {
            x1 \<leftarrow> FindElement name x;
            tmp \<leftarrow> GetValueText x1;
            Some (CheckNodeValid x1, x1, case tmp of None \<Rightarrow> d | Some s \<Rightarrow> store s d)
          })"

text \<open>\<^verbatim>\<open>UnicodeToAscii\<close> of \<^verbatim>\<open>Utf8ToUnicode\<close>; the conversion of Windows is an argument.\<close>

definition to_ascii :: "(string \<Rightarrow> string) \<Rightarrow> string \<Rightarrow> string" where
  "to_ascii conv s = (if s = [] then [] else conv s)"

definition data_fields ::
  "(string \<Rightarrow> string) \<Rightarrow> (string \<times> (string \<Rightarrow> SyncPlatformData \<Rightarrow> SyncPlatformData)) list" where
  "data_fields conv =
     [(''StreamNo'', \<lambda>s. d_SerialNumber_update (\<lambda>_. s)),
      (''OPFlag'', \<lambda>s. d_CustState_update (\<lambda>_. s)),
      (''CustID'', \<lambda>s. d_CustID_update (\<lambda>_. s)),
      (''CustAccount'', \<lambda>s. d_CustAccunt_update (\<lambda>_. s)),
      (''CustName'', \<lambda>s. d_CustName_update (\<lambda>_. to_ascii conv s)),
      (''InstalledAddress'', \<lambda>s. d_LinkAddr_update (\<lambda>_. to_ascii conv s))]"

text \<open>The blocks in order; from the second on, each starts at the parent of the field before.\<close>

fun read_fields ::
  "bool \<Rightarrow> (string \<times> (string \<Rightarrow> SyncPlatformData \<Rightarrow> SyncPlatformData)) list \<Rightarrow> dmxml \<times> SyncPlatformData \<Rightarrow>
     (bool \<times> dmxml \<times> SyncPlatformData) option" where
  "read_fields up [] (x, d) = Some (True, x, d)"
| "read_fields up ((name, store) # fs) (x, d) =
     do {
       x1 \<leftarrow> (if up then GetParent x else Some x);
       (ok, x2, d2) \<leftarrow> read_field name store (x1, d);
       if ok then read_fields True fs (x2, d2) else Some (False, x2, d2)
     }"

definition ParseData ::
  "(string \<Rightarrow> string) \<Rightarrow> dmxml \<Rightarrow> (bool \<times> dmxml \<times> SyncPlatformData) option" where
  "ParseData conv x =
     do {
       (flag, x1, d) \<leftarrow> read_fields False (data_fields conv) (x, empty_data);
       x2 \<leftarrow> GetParent x1;
       Some (flag, x2, d)
     }"

text \<open>One turn of the loop of \<^verbatim>\<open>ParseWebService\<close>: undefined, done, or to be repeated.\<close>

datatype 'a loop_turn = Undefined | Done 'a | Repeat 'a

definition sync_turn ::
  "(string \<Rightarrow> string) \<Rightarrow> dmxml \<times> SyncPlatformData list \<Rightarrow> (dmxml \<times> SyncPlatformData list) loop_turn" where
  "sync_turn conv xv =
     (case xv of
        (x, v) \<Rightarrow>
          (case FindAllElement ''SyncData'' x of
             None \<Rightarrow> Undefined
           | Some (False, x1) \<Rightarrow> Done (x1, v)
           | Some (True, x1) \<Rightarrow>
               (case ParseData conv x1 of
                  None \<Rightarrow> Undefined
                | Some (flag, x2, d) \<Rightarrow> Repeat (x2, if flag then v @ [d] else v))))"

text \<open>The loop; \<open>None\<close>: it never ends.  Its result is \<open>None\<close> when a turn is undefined.\<close>

partial_function (option) sync_loop ::
  "(string \<Rightarrow> string) \<Rightarrow> dmxml \<times> SyncPlatformData list \<Rightarrow> (dmxml \<times> SyncPlatformData list) option option" where
  "sync_loop conv xv =
     (case sync_turn conv xv of
        Undefined \<Rightarrow> Some None
      | Done yw \<Rightarrow> Some (Some yw)
      | Repeat yw \<Rightarrow> sync_loop conv yw)"

text \<open>\<^verbatim>\<open>ParseWebService\<close> on the body: the flag and the records.\<close>

definition sync_start ::
  "(string \<Rightarrow> string) \<Rightarrow> string \<Rightarrow> (bool \<times> dmxml \<times> SyncPlatformData list) option" where
  "sync_start conv body =
     do {
       (_, x) \<leftarrow> Decode body new_DMXml;
       x1 \<leftarrow> GetRoot x;
       if \<not> CheckNodeValid x1 then Some (False, x1, [])
       else do {
         x2 \<leftarrow> GetRoot x1;
         x3 \<leftarrow> FindElement ''SyncData'' x2;
         if \<not> CheckNodeValid x3 then Some (False, x3, [])
         else do {
           (flag, x4, d) \<leftarrow> ParseData conv x3;
           Some (True, x4, if flag then [d] else [])
         }
       }
     }"

definition ParseWebService ::
  "(string \<Rightarrow> string) \<Rightarrow> string \<Rightarrow> (bool \<times> SyncPlatformData list) option option" where
  "ParseWebService conv body =
     (if body = [] then Some (Some (False, []))
      else case sync_start conv body of
             None \<Rightarrow> Some None
           | Some (False, x, v) \<Rightarrow> Some (Some (False, v))
           | Some (True, x, v) \<Rightarrow>
               (case sync_loop conv (x, v) of
                  None \<Rightarrow> None
                | Some None \<Rightarrow> Some None
                | Some (Some (y, w)) \<Rightarrow> Some (Some (True, w))))"

section \<open>The answer\<close>

definition result_children :: "SyncPlatformDataResult \<Rightarrow> (string \<times> string) list" where
  "result_children r =
     [(''StreamNo'', r_SerialNumber r), (''Result'', r_ErrCode r), (''Descr'', r_Desc r),
      (''OPFlag'', r_UserState r), (''ViewerName'', r_ViewName r)]"

fun put_children :: "(string \<times> string) list \<Rightarrow> dmxml \<Rightarrow> dmxml option" where
  "put_children [] x = Some x"
| "put_children ((n, v) # cs) x =
     do { x1 \<leftarrow> NewChild n (Some v) x; x2 \<leftarrow> GetParent x1; put_children cs x2 }"

fun put_results :: "SyncPlatformDataResult list \<Rightarrow> dmxml \<Rightarrow> dmxml option" where
  "put_results [] x = Some x"
| "put_results (r # rs) x =
     do {
       x1 \<leftarrow> NewChild ''SyncResult'' None x;
       x2 \<leftarrow> put_children (result_children r) x1;
       x3 \<leftarrow> GetParent x2;
       put_results rs x3
     }"

definition answer_body :: "SyncPlatformDataResult list \<Rightarrow> string option" where
  "answer_body result =
     (if result = [] then Some ''<body>This is HMSyncPlatformServer, Is Running!</body>''
      else do {
        x \<leftarrow> NewRoot ''SyncResponseResult'' new_DMXml;
        y \<leftarrow> put_results result x;
        Some (Encode y)
      })"

text \<open>\<^verbatim>\<open>PacketWebService\<close>: the bytes written, with the terminating null character; \<^verbatim>\<open>sprintf_s\<close> ends the
  process when the length does not fit its buffer of ten.\<close>

definition PacketWebService :: "string \<Rightarrow> SyncPlatformDataResult list \<Rightarrow> string option" where
  "PacketWebService status_code result =
     do {
       body \<leftarrow> answer_body result;
       let body_len = '' '' @ show_nat (length body) @ crlf;
       if 10 \<le> length body_len then None
       else Some (''HTTP/1.1 '' @ status_code @ crlf @ ''Server: HMSyncPlatformServer'' @ crlf @
              ''Content-Type: text/html'' @ crlf @ ''Accept-Ranges: byte'' @ crlf @ ''Connection: close'' @ crlf @
              ''Content-Length: '' @ body_len @ crlf @ body @ [CHR 0x00])
     }"

text \<open>\<^verbatim>\<open>GetValueByName\<close> looks for the same colon twice, so the length it computes is \<open>-1\<close>: the rest of the
  message from the colon on.\<close>

definition GetValueByName :: "string \<Rightarrow> string \<Rightarrow> string option" where
  "GetValueByName msg name =
     (case find_sub name msg of
        None \<Rightarrow> None
      | Some pos \<Rightarrow>
          (let tmp1 = drop pos msg in
           case find_sub '':'' tmp1 of
             None \<Rightarrow> None
           | Some colon_pos \<Rightarrow> Some (drop colon_pos tmp1)))"

end
