(* ===== verification/SyncRead.thy ===== *)
theory SyncRead
  imports SyncHttp XmlRound
begin

text \<open>
  How the synchronisation server walks through the records of a request.
\<close>

section \<open>Records\<close>

definition child_named :: "xnode \<Rightarrow> string \<Rightarrow> xnode option" where
  "child_named x name = find (\<lambda>y. nvalue y = name) (children x)"

text \<open>A record with an element for each field, and what is taken from it.\<close>

definition field_ok :: "xnode \<Rightarrow> string \<Rightarrow> bool" where
  "field_ok x name = (case child_named x name of None \<Rightarrow> False | Some y \<Rightarrow> is_element y)"

definition field_text :: "xnode \<Rightarrow> string \<Rightarrow> string option" where
  "field_text x name = Option.bind (child_named x name) GetText"

definition complete_record :: "(string \<Rightarrow> string) \<Rightarrow> xnode \<Rightarrow> bool" where
  "complete_record conv x = list_all (\<lambda>(name, _). field_ok x name) (data_fields conv)"

definition store_field ::
  "xnode \<Rightarrow> string \<times> (string \<Rightarrow> SyncPlatformData \<Rightarrow> SyncPlatformData) \<Rightarrow> SyncPlatformData \<Rightarrow> SyncPlatformData" where
  "store_field x f d = (case field_text x (fst f) of None \<Rightarrow> d | Some s \<Rightarrow> snd f s d)"

definition record_of :: "(string \<Rightarrow> string) \<Rightarrow> xnode \<Rightarrow> SyncPlatformData" where
  "record_of conv x = fold (store_field x) (data_fields conv) empty_data"

section \<open>Moving the pointer\<close>

lemma find_child_find:
  "find_child P i xs = None \<longleftrightarrow> find P xs = None"
  "find_child P i xs = Some j \<Longrightarrow> find P xs = Some (xs ! (j - i)) \<and> i \<le> j \<and> j < i + length xs"
proof -
  show "find_child P i xs = None \<longleftrightarrow> find P xs = None" by (induction xs arbitrary: i) auto
  show "find_child P i xs = Some j \<Longrightarrow> find P xs = Some (xs ! (j - i)) \<and> i \<le> j \<and> j < i + length xs"
  proof (induction xs arbitrary: i)
    case (Cons x xs)
    show ?case
    proof (cases "P x")
      case False
      then have "find_child P (Suc i) xs = Some j" using Cons.prems by simp
      then have "find P xs = Some (xs ! (j - Suc i)) \<and> Suc i \<le> j \<and> j < Suc i + length xs" by (rule Cons.IH)
      then show ?thesis using False by (auto simp: nth_Cons' Suc_diff_Suc)
    qed (use Cons.prems in auto)
  qed simp
qed

lemma FindElement_at:
  assumes "m_pnode x = At p" and "node_at p (m_Doc x) = Some n"
  shows "child_named n name = None \<Longrightarrow> FindElement name x = Some (x\<lparr>m_pnode := Null_Node\<rparr>)"
    "child_named n name = Some c \<Longrightarrow> \<exists>i. FindElement name x = Some (x\<lparr>m_pnode := At (p @ [i]), m_pre_pnode := At (p @ [i])\<rparr>) \<and>
      node_at (p @ [i]) (m_Doc x) = Some c"
proof -
  assume "child_named n name = None"
  then have "FirstChild (m_Doc x) p name = None"
    using assms(2) by (simp add: child_named_def FirstChild_def find_child_find(1))
  then show "FindElement name x = Some (x\<lparr>m_pnode := Null_Node\<rparr>)"
    using assms by (simp add: FindElement_def follow_def to_ptr_def)
next
  assume c: "child_named n name = Some c"
  then obtain i where i: "find_child (\<lambda>y. nvalue y = name) 0 (children n) = Some i"
    using find_child_find(1) [of "\<lambda>y. nvalue y = name" 0 "children n"] by (fastforce simp: child_named_def)
  then have "i < length (children n)" "children n ! i = c"
    using find_child_find(2) [OF i] c by (simp_all add: child_named_def)
  moreover have "FirstChild (m_Doc x) p name = Some (p @ [i])" using assms(2) i by (simp add: FirstChild_def)
  ultimately have "FindElement name x = Some (x\<lparr>m_pnode := At (p @ [i]), m_pre_pnode := At (p @ [i])\<rparr>) \<and>
      node_at (p @ [i]) (m_Doc x) = Some c"
    using assms by (simp add: FindElement_def follow_def to_ptr_def node_at_append Let_def)
  then show "\<exists>i. FindElement name x = Some (x\<lparr>m_pnode := At (p @ [i]), m_pre_pnode := At (p @ [i])\<rparr>) \<and>
      node_at (p @ [i]) (m_Doc x) = Some c" ..
qed

lemma GetParent_child:
  assumes "m_pnode x = At (p @ [i])" and "node_at (p @ [i]) (m_Doc x) = Some c"
  shows "GetParent x = Some (x\<lparr>m_pnode := At p\<rparr>)"
  using assms by (simp add: GetParent_def follow_def to_ptr_def Parent_def)

lemma GetParent_last:
  assumes "m_pnode x = Null_Node" and "m_pre_pnode x = At (p @ [i])" and "node_at (p @ [i]) (m_Doc x) = Some c"
  shows "GetParent x = Some (x\<lparr>m_pnode := At p\<rparr>)"
  using assms by (simp add: GetParent_def follow_def to_ptr_def Parent_def)

lemma find_child_filter:
  "find_child P i xs = None \<Longrightarrow> filter P xs = []"
  "find_child P i xs = Some j \<Longrightarrow> filter P xs = xs ! (j - i) # filter P (drop (Suc (j - i)) xs)"
proof -
  show "find_child P i xs = None \<Longrightarrow> filter P xs = []"
    by (induction xs arbitrary: i) (auto split: if_splits)
  show "find_child P i xs = Some j \<Longrightarrow> filter P xs = xs ! (j - i) # filter P (drop (Suc (j - i)) xs)"
  proof (induction xs arbitrary: i)
    case (Cons x xs)
    show ?case
    proof (cases "P x")
      case False
      then have f: "find_child P (Suc i) xs = Some j" using Cons.prems by simp
      then have "Suc i \<le> j" using find_child_find(2) by blast
      then show ?thesis using False Cons.IH [OF f] by (simp add: Suc_diff_Suc nth_Cons')
    qed (use Cons.prems in auto)
  qed simp
qed

text \<open>The records behind child \<open>i\<close>, and the move to the next of them.\<close>

definition records :: "xnode list \<Rightarrow> xnode list" where
  "records xs = filter (\<lambda>y. nvalue y = ''SyncData'') xs"

lemma FindAllElement_at:
  assumes x: "m_pnode x = At (p @ [i])" "node_at p (m_Doc x) = Some n" "i < length (children n)"
  shows "records (drop (Suc i) (children n)) = [] \<Longrightarrow>
      FindAllElement ''SyncData'' x = Some (False, x\<lparr>m_pnode := Null_Node\<rparr>)"
    "records (drop (Suc i) (children n)) = c # cs \<Longrightarrow>
      \<exists>j. j < length (children n) \<and> children n ! j = c \<and> cs = records (drop (Suc j) (children n)) \<and>
        FindAllElement ''SyncData'' x = Some (True, x\<lparr>m_pnode := At (p @ [j])\<rparr>)"
proof -
  let ?P = "\<lambda>y. nvalue y = ''SyncData''"
  define f where "f = find_child ?P (Suc i) (drop (Suc i) (children n))"
  have move: "FindAllElement ''SyncData'' x =
      Some (to_ptr (map_option (\<lambda>j. p @ [j]) f) \<noteq> Null_Node, x\<lparr>m_pnode := to_ptr (map_option (\<lambda>j. p @ [j]) f)\<rparr>)"
    using x by (simp add: FindAllElement_def follow_def NextSibling_def node_at_append f_def Let_def)
  show "records (drop (Suc i) (children n)) = [] \<Longrightarrow>
      FindAllElement ''SyncData'' x = Some (False, x\<lparr>m_pnode := Null_Node\<rparr>)"
    using find_child_filter(2) [of ?P "Suc i" "drop (Suc i) (children n)"]
    by (cases f) (simp_all add: move to_ptr_def records_def f_def)
  assume r: "records (drop (Suc i) (children n)) = c # cs"
  then obtain j where j: "f = Some j"
    using find_child_filter(1) [of ?P "Suc i" "drop (Suc i) (children n)"]
    by (cases f) (simp_all add: records_def f_def)
  then have b: "Suc i \<le> j \<and> j < length (children n)"
    using find_child_find(2) [of ?P "Suc i" "drop (Suc i) (children n)" j] x(3) by (auto simp: f_def)
  have "c = children n ! j \<and> cs = records (drop (Suc j) (children n))"
    using find_child_filter(2) [of ?P "Suc i" "drop (Suc i) (children n)" j] j r b
    by (simp add: f_def records_def)
  then show "\<exists>j. j < length (children n) \<and> children n ! j = c \<and> cs = records (drop (Suc j) (children n)) \<and>
        FindAllElement ''SyncData'' x = Some (True, x\<lparr>m_pnode := At (p @ [j])\<rparr>)"
    using b j by (intro exI [of _ j]) (simp add: move to_ptr_def)
qed

section \<open>One record\<close>

lemma read_field_at:
  assumes "m_pnode x = At p" and "node_at p (m_Doc x) = Some n" and "field_ok n name"
  shows "\<exists>i c. read_field name store (x, d) =
      Some (True, x\<lparr>m_pnode := At (p @ [i]), m_pre_pnode := At (p @ [i])\<rparr>, store_field n (name, store) d) \<and>
    node_at (p @ [i]) (m_Doc x) = Some c"
proof -
  obtain c where c: "child_named n name = Some c" "is_element c"
    using assms(3) by (auto simp: field_ok_def split: option.splits)
  obtain i where i: "FindElement name x = Some (x\<lparr>m_pnode := At (p @ [i]), m_pre_pnode := At (p @ [i])\<rparr>)"
    "node_at (p @ [i]) (m_Doc x) = Some c"
    using FindElement_at(2) [OF assms(1,2) c(1)] by blast
  define x1 where "x1 = x\<lparr>m_pnode := At (p @ [i]), m_pre_pnode := At (p @ [i])\<rparr>"
  have "GetValueText x1 = Some (GetText c)"
    using i(2) c(2) by (simp add: x1_def GetValueText_def follow_element_def follow_def)
  moreover have "CheckNodeValid x1" by (simp add: x1_def CheckNodeValid_def)
  ultimately have "read_field name store (x, d) = Some (True, x1, store_field n (name, store) d)"
    using i(1) by (simp add: read_field_def x1_def store_field_def field_text_def c(1) split: option.split)
  then show ?thesis using i(2) by (auto simp: x1_def)
qed

lemma read_field_missing:
  assumes "m_pnode x = At p" and "node_at p (m_Doc x) = Some n" and "child_named n name = None"
  shows "read_field name store (x, d) = Some (False, x\<lparr>m_pnode := Null_Node\<rparr>, d)"
  using FindElement_at(1) [OF assms]
  by (simp add: read_field_def GetValueText_def CheckNodeValid_def)

text \<open>The pointer at a field of the record, or at the record itself before the first.\<close>

lemma read_fields_at:
  assumes "node_at p (m_Doc x) = Some n" and "list_all (\<lambda>(name, _). field_ok n name) fs"
    and "if up then \<exists>i c. m_pnode x = At (p @ [i]) \<and> node_at (p @ [i]) (m_Doc x) = Some c else m_pnode x = At p \<and> fs \<noteq> []"
    and "up \<longrightarrow> m_pre_pnode x = m_pnode x"
  shows "\<exists>i c. read_fields up fs (x, d) =
      Some (True, x\<lparr>m_pnode := At (p @ [i]), m_pre_pnode := At (p @ [i])\<rparr>, fold (store_field n) fs d) \<and>
    node_at (p @ [i]) (m_Doc x) = Some c"
  using assms
proof (induction fs arbitrary: up x d)
  case Nil
  then obtain i c where i: "m_pnode x = At (p @ [i])" "m_pre_pnode x = At (p @ [i])" "node_at (p @ [i]) (m_Doc x) = Some c"
    by (cases up) auto
  have "x\<lparr>m_pnode := At (p @ [i]), m_pre_pnode := At (p @ [i])\<rparr> = x" using i(1,2) by simp
  then show ?case using i(3) by (intro exI [of _ i] exI [of _ c]) simp
next
  case (Cons f fs)
  obtain name store where f: "f = (name, store)" by (cases f)
  define x1 where "x1 = x\<lparr>m_pnode := At p\<rparr>"
  have up: "(if up then GetParent x else Some x) = Some x1"
    using Cons.prems(3) GetParent_child by (cases up) (auto simp: x1_def)
  have x1: "m_pnode x1 = At p" "node_at p (m_Doc x1) = Some n" "field_ok n name"
    using Cons.prems(1,2) by (simp_all add: x1_def f)
  obtain i c where i: "read_field name store (x1, d) =
      Some (True, x1\<lparr>m_pnode := At (p @ [i]), m_pre_pnode := At (p @ [i])\<rparr>, store_field n (name, store) d)"
    "node_at (p @ [i]) (m_Doc x1) = Some c"
    using read_field_at [OF x1] by blast
  define x2 where "x2 = x1\<lparr>m_pnode := At (p @ [i]), m_pre_pnode := At (p @ [i])\<rparr>"
  obtain j c' where j: "read_fields True fs (x2, store_field n f d) =
      Some (True, x2\<lparr>m_pnode := At (p @ [j]), m_pre_pnode := At (p @ [j])\<rparr>, fold (store_field n) fs (store_field n f d))"
    "node_at (p @ [j]) (m_Doc x2) = Some c'"
    using Cons.IH [of x2 True "store_field n f d"] Cons.prems(1,2) i(2) by (auto simp: x2_def x1_def)
  have "read_fields up (f # fs) (x, d) = read_fields True fs (x2, store_field n f d)"
    using up i(1) by (simp add: f x2_def)
  then show ?case using j by (auto simp: x2_def x1_def)
qed

lemma ParseData_complete:
  assumes "m_pnode x = At p" and "node_at p (m_Doc x) = Some n" and "complete_record conv n"
  shows "\<exists>i c. ParseData conv x = Some (True, x\<lparr>m_pnode := At p, m_pre_pnode := At (p @ [i])\<rparr>, record_of conv n) \<and>
    node_at (p @ [i]) (m_Doc x) = Some c"
proof -
  obtain i c where i: "read_fields False (data_fields conv) (x, empty_data) =
      Some (True, x\<lparr>m_pnode := At (p @ [i]), m_pre_pnode := At (p @ [i])\<rparr>, record_of conv n)"
    "node_at (p @ [i]) (m_Doc x) = Some c"
    using read_fields_at [of p x n "data_fields conv" False empty_data] assms
    by (auto simp: complete_record_def record_of_def data_fields_def)
  have "GetParent (x\<lparr>m_pnode := At (p @ [i]), m_pre_pnode := At (p @ [i])\<rparr>) =
      Some (x\<lparr>m_pnode := At p, m_pre_pnode := At (p @ [i])\<rparr>)"
    using GetParent_child [of "x\<lparr>m_pnode := At (p @ [i]), m_pre_pnode := At (p @ [i])\<rparr>" p i c] i(2) by simp
  then show ?thesis using i by (auto simp: ParseData_def)
qed

text \<open>A record without its first field, after a field was found elsewhere: the pointer goes to the parent of
  that field.\<close>

lemma ParseData_missing:
  assumes "m_pnode x = At p" and "node_at p (m_Doc x) = Some n" and "child_named n ''StreamNo'' = None"
    and "m_pre_pnode x = At (q @ [i])" and "node_at (q @ [i]) (m_Doc x) = Some c"
  shows "ParseData conv x = Some (False, x\<lparr>m_pnode := At q\<rparr>, empty_data)"
proof -
  have "read_fields False (data_fields conv) (x, empty_data) = Some (False, x\<lparr>m_pnode := Null_Node\<rparr>, empty_data)"
    using read_field_missing [OF assms(1-3)] by (simp add: data_fields_def)
  moreover have "GetParent (x\<lparr>m_pnode := Null_Node\<rparr>) = Some (x\<lparr>m_pnode := At q\<rparr>)"
    using GetParent_last [of "x\<lparr>m_pnode := Null_Node\<rparr>" q i c] assms(4,5) by simp
  ultimately show ?thesis by (simp add: ParseData_def)
qed

section \<open>All records\<close>

lemma sync_loop_complete:
  assumes "list_all (complete_record conv) (records (drop (Suc i) (children n)))"
    and "m_pnode x = At (p @ [i])" and "node_at p (m_Doc x) = Some n" and "i < length (children n)"
  shows "\<exists>y. sync_loop conv (x, v) =
    Some (Some (y, v @ map (record_of conv) (records (drop (Suc i) (children n)))))"
  using assms
proof (induction "records (drop (Suc i) (children n))" arbitrary: i x v)
  case Nil
  have "FindAllElement ''SyncData'' x = Some (False, x\<lparr>m_pnode := Null_Node\<rparr>)"
    by (rule FindAllElement_at(1) [OF Nil.prems(2-4) Nil.hyps [symmetric]])
  then show ?case using Nil.hyps by (subst sync_loop.simps) (simp add: sync_turn_def)
next
  case (Cons c cs)
  obtain j where j: "j < length (children n)" "children n ! j = c" "cs = records (drop (Suc j) (children n))"
    "FindAllElement ''SyncData'' x = Some (True, x\<lparr>m_pnode := At (p @ [j])\<rparr>)"
    using FindAllElement_at(2) [OF Cons.prems(2-4) Cons.hyps(2) [symmetric]] by blast
  define x1 where "x1 = x\<lparr>m_pnode := At (p @ [j])\<rparr>"
  have c: "complete_record conv c" "list_all (complete_record conv) cs"
    using Cons.prems(1) by (simp_all add: Cons.hyps(2) [symmetric])
  have "node_at (p @ [j]) (m_Doc x1) = Some c" using Cons.prems(3) j(1,2) by (simp add: x1_def node_at_append)
  then obtain k where k: "ParseData conv x1 = Some (True, x1\<lparr>m_pnode := At (p @ [j]), m_pre_pnode := At ((p @ [j]) @ [k])\<rparr>, record_of conv c)"
    using ParseData_complete [of x1 "p @ [j]" c conv] c(1) by (auto simp: x1_def)
  define x2 where "x2 = x1\<lparr>m_pnode := At (p @ [j]), m_pre_pnode := At ((p @ [j]) @ [k])\<rparr>"
  have "sync_loop conv (x, v) = sync_loop conv (x2, v @ [record_of conv c])"
    using j(4) k by (subst sync_loop.simps) (simp add: sync_turn_def x1_def x2_def)
  moreover obtain y where "sync_loop conv (x2, v @ [record_of conv c]) =
      Some (Some (y, (v @ [record_of conv c]) @ map (record_of conv) (records (drop (Suc j) (children n)))))"
    using Cons.hyps(1) [OF j(3), of x2 "v @ [record_of conv c]"] c(2) j(1,3) Cons.prems(3)
    by (auto simp: x2_def x1_def)
  ultimately show ?case using Cons.hyps(2) [symmetric] j(3) by auto
qed

lemma sync_loop_stuck:
  assumes "sync_turn conv (x, v) = Repeat (x, v)"
  shows "sync_loop conv (x, v) = None"
proof -
  have "conv = conv \<longrightarrow> (x, v) \<noteq> (x, v)" if "sync_loop conv (x, v) = Some r" for r
  proof (rule sync_loop.raw_induct [where P = "\<lambda>c xv r. c = conv \<longrightarrow> xv \<noteq> (x, v)", OF _ that])
    fix f c xv r
    assume ih: "\<And>c xv r. f c xv = Some r \<Longrightarrow> c = conv \<longrightarrow> xv \<noteq> (x, v)"
      and body: "(case sync_turn c xv of Undefined \<Rightarrow> Some None | Done yw \<Rightarrow> Some (Some yw) | Repeat yw \<Rightarrow> f c yw) = Some r"
    show "c = conv \<longrightarrow> xv \<noteq> (x, v)"
    proof (intro impI notI)
      assume e: "c = conv" "xv = (x, v)"
      then have "f conv (x, v) = Some r" using body assms by simp
      then show False using ih [of conv "(x, v)" r] by simp
    qed
  qed
  then show ?thesis by (cases "sync_loop conv (x, v)") auto
qed

text \<open>The first record.\<close>

lemma FindElement_record:
  assumes x: "m_pnode x = At p" "node_at p (m_Doc x) = Some n" and r: "records (children n) = c # cs"
  shows "\<exists>i. i < length (children n) \<and> children n ! i = c \<and> cs = records (drop (Suc i) (children n)) \<and>
    FindElement ''SyncData'' x = Some (x\<lparr>m_pnode := At (p @ [i]), m_pre_pnode := At (p @ [i])\<rparr>)"
proof -
  let ?P = "\<lambda>y. nvalue y = ''SyncData''"
  obtain i where i: "find_child ?P 0 (children n) = Some i"
    using r find_child_filter(1) [of ?P 0 "children n"]
    by (cases "find_child ?P 0 (children n)") (simp_all add: records_def)
  have "i < length (children n)" using find_child_bounds [OF i] by simp
  moreover have "children n ! i = c \<and> cs = records (drop (Suc i) (children n))"
    using find_child_filter(2) [OF i] r by (simp add: records_def)
  moreover have "FindElement ''SyncData'' x = Some (x\<lparr>m_pnode := At (p @ [i]), m_pre_pnode := At (p @ [i])\<rparr>)"
    using x i by (simp add: FindElement_def follow_def to_ptr_def FirstChild_def Let_def)
  ultimately show ?thesis by blast
qed

text \<open>The root element of a body, and what the server has read when it enters the loop.\<close>

definition body_root :: "string \<Rightarrow> xnode option" where
  "body_root body =
     (case xml_parse True ENC_UNKNOWN body of Parsed (cs, p, err, e) \<Rightarrow> find is_element cs | _ \<Rightarrow> None)"

lemma body_root_printed:
  assumes "good_element ENC_UTF8 x" and "is_element x"
  shows "body_root (xml_print (XNode TINYXML_DOCUMENT [] [decl_node, x])) = Some x"
  using document_parsed [OF assms(1)] assms(2) by (simp add: body_root_def decl_node_def is_element_def)

lemma sync_started:
  assumes "body_root body = Some n" and "records (children n) = c # cs" and "complete_record conv c"
  shows "\<exists>x p i j d. sync_start conv body = Some (True, x, [record_of conv c]) \<and> m_pnode x = At (p @ [i]) \<and>
    node_at p (m_Doc x) = Some n \<and> i < length (children n) \<and> cs = records (drop (Suc i) (children n)) \<and>
    m_pre_pnode x = At ((p @ [i]) @ [j]) \<and> node_at ((p @ [i]) @ [j]) (m_Doc x) = Some d"
proof -
  obtain ds q err e where p: "xml_parse True ENC_UNKNOWN body = Parsed (ds, q, err, e)" "find is_element ds = Some n"
    using assms(1) by (auto simp: body_root_def split: parsed.splits)
  then obtain k where k: "find_child is_element 0 ds = Some k"
    using find_child_find(1) [of is_element 0 ds] by fastforce
  then have n: "k < length ds" "ds ! k = n" using find_child_find(2) [OF k] p(2) by auto
  define y where "y = \<lparr>m_Doc = XNode TINYXML_DOCUMENT [] ds, m_pnode = At [k], m_pre_pnode = Bad_Node\<rparr>"
  have y: "m_pnode y = At [k]" "node_at [k] (m_Doc y) = Some n" by (simp_all add: y_def n)
  obtain i where i: "i < length (children n)" "children n ! i = c" "cs = records (drop (Suc i) (children n))"
    "FindElement ''SyncData'' y = Some (y\<lparr>m_pnode := At ([k] @ [i]), m_pre_pnode := At ([k] @ [i])\<rparr>)"
    using FindElement_record [OF y assms(2)] by blast
  define z where "z = y\<lparr>m_pnode := At ([k] @ [i]), m_pre_pnode := At ([k] @ [i])\<rparr>"
  have z: "m_pnode z = At ([k] @ [i])" "node_at ([k] @ [i]) (m_Doc z) = Some c"
    using i(1,2) n by (simp_all add: z_def y_def)
  obtain j d where j: "ParseData conv z =
      Some (True, z\<lparr>m_pnode := At ([k] @ [i]), m_pre_pnode := At (([k] @ [i]) @ [j])\<rparr>, record_of conv c)"
    "node_at (([k] @ [i]) @ [j]) (m_Doc z) = Some d"
    using ParseData_complete [OF z assms(3)] by blast
  have g: "GetRoot (y\<lparr>m_pnode := Bad_Node\<rparr>) = Some y" "GetRoot y = Some y"
    by (simp_all add: GetRoot_def y_def FirstChildElement_def k to_ptr_def)
  have "Decode body new_DMXml = Some (q, y\<lparr>m_pnode := Bad_Node\<rparr>)"
    by (simp add: Decode_def p(1) ClearDoc_def new_DMXml_def deleted_def y_def)
  then have "sync_start conv body =
      Some (True, z\<lparr>m_pnode := At ([k] @ [i]), m_pre_pnode := At (([k] @ [i]) @ [j])\<rparr>, [record_of conv c])"
    using g i(4) j(1) z(1) y(1)
    by (simp add: sync_start_def CheckNodeValid_def z_def)
  moreover have "node_at [k] (m_Doc z) = Some n" using n by (simp add: z_def y_def)
  ultimately show ?thesis using i(1,3) j(2)
    by (intro exI [of _ "z\<lparr>m_pnode := At ([k] @ [i]), m_pre_pnode := At (([k] @ [i]) @ [j])\<rparr>"] exI [of _ "[k]"]
        exI [of _ i] exI [of _ j] exI [of _ d]) simp
qed

end
