(* ===== verification/SyncDb.thy ===== *)
theory SyncDb
  imports SyncHttp DbServer
begin

text \<open>
  The users' table of the synchronisation server (\<^verbatim>\<open>DatabaseSync.cpp\<close>) and the session that serves a
  request (\<^verbatim>\<open>SyncServer.cpp\<close>).  A database call is performed at once, as \<open>DbProps\<close> shows of a request
  that is alone.  \<open>None\<close> stands for the end of the process, as when \<^verbatim>\<open>sprintf_s\<close> finds its buffer too small.
\<close>

section \<open>Database calls\<close>

text \<open>The three client calls with a description buffer of 128, for an open handle.\<close>

definition call_query :: "'c ado \<Rightarrow> string \<Rightarrow> 'c dbfd \<Rightarrow> (u32 \<times> string \<times> 'c dbfd) option" where
  "call_query A sql d =
     (if 1024 \<le> length sql then None
      else do {
        (_, d1) \<leftarrow> db_query A sql (d\<lparr>db_err_code := 0\<rparr>);
        (e, s) \<leftarrow> st_db_query_result 128 d1;
        Some (e, s, d1)
      })"

definition call_fetch :: "'c ado \<Rightarrow> string \<Rightarrow> 'c dbfd \<Rightarrow> (u32 \<times> string \<times> string list \<times> 'c dbfd) option" where
  "call_fetch A item d =
     do {
       (_, d1) \<leftarrow> db_fetch A item (d\<lparr>db_err_code := 0\<rparr>);
       st_db_fetch_result 128 [] d1
     }"

definition call_exec :: "'c ado \<Rightarrow> string \<Rightarrow> 'c dbfd \<Rightarrow> (u32 \<times> string \<times> 'c dbfd) option" where
  "call_exec A sql d =
     (if 1024 \<le> length sql then None
      else do {
        (_, d1) \<leftarrow> db_exec A sql (d\<lparr>db_err_code := 0\<rparr>);
        (e, s) \<leftarrow> st_db_exec_result 128 d1;
        Some (e, s, d1)
      })"

definition sprintf_s :: "nat \<Rightarrow> string \<Rightarrow> string option" where
  "sprintf_s n s = (if length s < n then Some s else None)"

text \<open>A value between the quotes of an SQL literal; the code escapes nothing.\<close>

definition quoted :: "string \<Rightarrow> string" where
  "quoted s = [CHR 0x27] @ s @ [CHR 0x27]"

section \<open>The table of users\<close>

record DBConnectInfo =
  i_server :: string
  i_server_ip :: string
  i_database_name :: string
  i_dbms_user_name :: string
  i_dbms_user_pwd :: string
  i_server_port :: "16 word"

definition connect_str :: "DBConnectInfo \<Rightarrow> string option" where
  "connect_str info =
     sprintf_s 1024 (''Provider=SQLOLEDB;Server='' @ i_server info @ '';Database='' @ i_database_name info @
       '';User ID='' @ i_dbms_user_name info @ '';Password='' @ i_dbms_user_pwd info @ '';Data Source='' @
       i_server_ip info @
       (if i_server_port info = 1433 then [] else CHR '','' # show_nat (unat (i_server_port info))))"

text \<open>\<^verbatim>\<open>GetUserState\<close> and \<^verbatim>\<open>GetPlatName\<close>: one column of one user; the result is left alone unless exactly one
  row is found.\<close>

definition select_column ::
  "'c ado \<Rightarrow> string \<Rightarrow> string \<Rightarrow> string \<Rightarrow> 'c dbfd \<Rightarrow> (bool \<times> string \<times> 'c dbfd) option" where
  "select_column A column userID old d =
     do {
       sql \<leftarrow> sprintf_s 1024 (''select '' @ column @ '' from HM_User  where UserID='' @ quoted userID);
       (e, s, d1) \<leftarrow> call_query A sql d;
       if e \<noteq> 0 then Some (False, old, d1)
       else do {
         (e2, s2, rows, d2) \<leftarrow> call_fetch A column d1;
         Some (if e2 \<noteq> 0 then (False, old, d2)
               else (True, case rows of [r] \<Rightarrow> r | _ \<Rightarrow> old, d2))
       }
     }"

definition GetUserState :: "'c ado \<Rightarrow> string \<Rightarrow> string \<Rightarrow> 'c dbfd \<Rightarrow> (bool \<times> string \<times> 'c dbfd) option" where
  "GetUserState A userID old d = select_column A ''UserState'' userID old d"

definition GetPlatName :: "'c ado \<Rightarrow> string \<Rightarrow> string \<Rightarrow> 'c dbfd \<Rightarrow> (bool \<times> string \<times> 'c dbfd) option" where
  "GetPlatName A userID old d = select_column A ''PlatLoginName'' userID old d"

text \<open>The three operations: whether they succeeded, the result, and the handle.\<close>

definition UpdateUserStateByDB ::
  "'c ado \<Rightarrow> SyncPlatformData \<Rightarrow> SyncPlatformDataResult \<Rightarrow> 'c dbfd \<Rightarrow>
     (bool \<times> SyncPlatformDataResult \<times> 'c dbfd) option" where
  "UpdateUserStateByDB A data r d =
     do {
       (_, view, d1) \<leftarrow> GetPlatName A (d_CustName data) (r_ViewName r) d;
       let r1 = r\<lparr>r_ViewName := view\<rparr>;
       sql \<leftarrow> sprintf_s 1024 (''update HM_User set UserState = '' @ quoted (d_CustState data) @
         '' where UserID='' @ quoted (d_CustAccunt data));
       (e, desc, d2) \<leftarrow> call_exec A sql d1;
       Some (e = 0, if e \<noteq> 0 then r1\<lparr>r_ErrCode := ''3'', r_Desc := desc\<rparr> else r1, d2)
     }"

text \<open>A failed update passes a \<^verbatim>\<open>std::string\<close> to the log as a variable argument: undefined.\<close>

definition UpdateUserByDB ::
  "'c ado \<Rightarrow> SyncPlatformData \<Rightarrow> SyncPlatformDataResult \<Rightarrow> 'c dbfd \<Rightarrow>
     (bool \<times> SyncPlatformDataResult \<times> 'c dbfd) option" where
  "UpdateUserByDB A data r d =
     do {
       sql \<leftarrow> sprintf_s 1024 (''update HM_User set UserName= '' @ quoted (d_CustName data) @
         '' where UserID='' @ quoted (d_CustAccunt data));
       (e, desc, d1) \<leftarrow> call_exec A sql d;
       if e \<noteq> 0 then None else Some (True, r, d1)
     }"

text \<open>The handle is not null here: \<^verbatim>\<open>GetUserState\<close> has used it.  \<open>today\<close> is the date of \<^verbatim>\<open>st_time()\<close>.\<close>

definition insert_sql :: "string \<Rightarrow> SyncPlatformData \<Rightarrow> string" where
  "insert_sql today data =
     ''insert into [HM_User](UserID,AreaID,Address, UserName, CreateUserTime, SerialNumber, UserState) values('' @
     quoted (d_CustAccunt data) @ '','' @ quoted ''root'' @ '','' @ quoted (d_LinkAddr data) @ '','' @
     quoted (d_CustName data) @ '','' @ quoted today @ '','' @ quoted (d_SerialNumber data) @ '','' @
     quoted (d_CustState data) @ '')''"

definition CreateUserByDB ::
  "'c ado \<Rightarrow> string \<Rightarrow> SyncPlatformData \<Rightarrow> SyncPlatformDataResult \<Rightarrow> 'c dbfd \<Rightarrow>
     (bool \<times> SyncPlatformDataResult \<times> 'c dbfd) option" where
  "CreateUserByDB A today data r d =
     do {
       (flag, UserState, d1) \<leftarrow> GetUserState A (d_CustAccunt data) [] d;
       if UserState = ''0103'' then UpdateUserStateByDB A data r d1
       else do {
         sql \<leftarrow> sprintf_s 512 (insert_sql today data);
         (e, desc, d2) \<leftarrow> call_exec A sql d1;
         Some (if e \<noteq> 0
               then (False, r\<lparr>r_Desc := desc, r_ErrCode := (if e = 0x80040e2f then ''1'' else ''2'')\<rparr>, d2)
               else (flag, r, d2))
       }
     }"

section \<open>The session\<close>

text \<open>The body of the loop of \<^verbatim>\<open>HandleSessionTask\<close>: one record.\<close>

definition new_result :: "SyncPlatformData \<Rightarrow> SyncPlatformDataResult" where
  "new_result data = \<lparr>r_SerialNumber = d_SerialNumber data, r_ErrCode = ''0'', r_Desc = [], r_UserState = [],
     r_ViewName = []\<rparr>"

definition failed_as ::
  "string \<Rightarrow> bool \<times> SyncPlatformDataResult \<times> 'c dbfd \<Rightarrow> SyncPlatformDataResult \<times> 'c dbfd" where
  "failed_as ec x = (case x of (ok, r, d) \<Rightarrow> (if ok then r else r\<lparr>r_ErrCode := ec\<rparr>, d))"

definition serve_record ::
  "'c ado \<Rightarrow> string \<Rightarrow> SyncPlatformData \<Rightarrow> 'c dbfd \<Rightarrow> (SyncPlatformDataResult \<times> 'c dbfd) option" where
  "serve_record A today data d =
     do {
       let r = new_result data;
       (r1, d1) \<leftarrow>
         (if d_CustState data = ''0101'' then map_option (failed_as ''1'') (CreateUserByDB A today data r d)
          else if d_CustState data = ''0102'' then map_option (failed_as ''1'') (UpdateUserByDB A data r d)
          else if d_CustState data = ''0103'' then map_option (failed_as ''3'') (UpdateUserStateByDB A data r d)
          else Some (r\<lparr>r_ErrCode := ''4'', r_Desc := ''No Support Cmd''\<rparr>, d));
       Some (r1\<lparr>r_UserState := d_CustState data\<rparr>, d1)
     }"

fun serve_records ::
  "'c ado \<Rightarrow> string \<Rightarrow> SyncPlatformData list \<Rightarrow> 'c dbfd \<Rightarrow> (SyncPlatformDataResult list \<times> 'c dbfd) option" where
  "serve_records A today [] d = Some ([], d)"
| "serve_records A today (x # xs) d =
     do { (r, d1) \<leftarrow> serve_record A today x d; (rs, d2) \<leftarrow> serve_records A today xs d1; Some (r # rs, d2) }"

text \<open>\<^verbatim>\<open>HandleSessionTask\<close>: the bytes written to the client.  The outer \<open>None\<close>: the session never ends.\<close>

definition HandleSessionTask ::
  "(string \<Rightarrow> string) \<Rightarrow> 'c ado \<Rightarrow> string \<Rightarrow> string option \<Rightarrow> (nat \<Rightarrow> string) \<Rightarrow> 'c dbfd \<Rightarrow>
     (string \<times> 'c dbfd) option option" where
  "HandleSessionTask conv A today first later d =
     (case ReadInfo first later of
        None \<Rightarrow> Some None
      | Some body \<Rightarrow>
          (case ParseWebService conv body of
             None \<Rightarrow> None
           | Some None \<Rightarrow> Some None
           | Some (Some (False, v)) \<Rightarrow> Some (map_option (\<lambda>s. (s, d)) (PacketWebService ''404'' []))
           | Some (Some (True, v)) \<Rightarrow>
               Some (do {
                 (rs, d1) \<leftarrow> serve_records A today v d;
                 s \<leftarrow> PacketWebService ''200 OK'' rs;
                 Some (s, d1)
               })))"

end
