(* ===== verification/SyncProps.thy ===== *)
theory SyncProps
  imports SyncRead SyncDb
begin

text \<open>
  The properties of the synchronisation server: what is taken out of a request, and how the result of an
  operation on the users' table is reported.
\<close>

section \<open>Sample requests\<close>

definition text_element :: "string \<Rightarrow> string \<Rightarrow> xnode" where
  "text_element name v = XNode (TINYXML_ELEMENT []) name [new_text v]"

definition sample_fields :: "(string \<times> string) list" where
  "sample_fields = [(''StreamNo'', ''7''), (''OPFlag'', ''0101''), (''CustID'', ''c''), (''CustAccount'', ''acc''),
     (''CustName'', ''Li''), (''InstalledAddress'', ''road 1'')]"

definition sample_record :: "(string \<times> string) list \<Rightarrow> xnode" where
  "sample_record fs = XNode (TINYXML_ELEMENT []) ''SyncData'' (map (\<lambda>(n, v). text_element n v) fs)"

definition sample_root :: "(string \<times> string) list list \<Rightarrow> xnode" where
  "sample_root rs = XNode (TINYXML_ELEMENT []) ''SyncRequest'' (map sample_record rs)"

definition sample_body :: "(string \<times> string) list list \<Rightarrow> string" where
  "sample_body rs = xml_print (XNode TINYXML_DOCUMENT [] [decl_node, sample_root rs])"

lemmas sample_defs = text_element_def sample_fields_def sample_record_def sample_root_def

section \<open>Reading the records\<close>

text \<open>C21: The records of a request are read.  If the body has a root element, and every record below it
  holds an element for each of the six fields, the service takes all records, in order, each with
  the texts of its fields; records may be apart and fields in any order.\<close>

theorem sync_records_read:
  assumes "body_root body = Some n" and "records (children n) \<noteq> []"
    and "list_all (complete_record conv) (records (children n))"
  shows "ParseWebService conv body = Some (Some (True, map (record_of conv) (records (children n))))"
proof -
  obtain c cs where r: "records (children n) = c # cs" using assms(2) by (cases "records (children n)") auto
  then have c: "complete_record conv c" "list_all (complete_record conv) cs" using assms(3) by simp_all
  obtain x p i where x: "sync_start conv body = Some (True, x, [record_of conv c])" "m_pnode x = At (p @ [i])"
    "node_at p (m_Doc x) = Some n" "i < length (children n)" "cs = records (drop (Suc i) (children n))"
    using sync_started [OF assms(1) r c(1)] by blast
  obtain y where "sync_loop conv (x, [record_of conv c]) =
      Some (Some (y, [record_of conv c] @ map (record_of conv) cs))"
    using sync_loop_complete [of conv i n x p "[record_of conv c]"] c(2) x(2-5) by metis
  moreover have "body \<noteq> []"
    using assms(1) by (auto simp: body_root_def xml_parse_def start_encoding_def split: if_splits)
  ultimately show ?thesis using x(1) r by (simp add: ParseWebService_def)
qed

theorem sync_records_read_witness:
  "ParseWebService id (sample_body [sample_fields, rev sample_fields]) =
    Some (Some (True, replicate 2 \<lparr>d_SerialNumber = ''7'', d_CustID = ''c'', d_CustAccunt = ''acc'',
      d_CustName = ''Li'', d_CustState = ''0101'', d_AreaID = [], d_LinkAddr = ''road 1''\<rparr>))"
proof -
  let ?n = "sample_root [sample_fields, rev sample_fields]"
  have "good_element ENC_UTF8 ?n"
    by (simp add: sample_defs new_text_def simple_text_def good_text_def good_value_def good_name_def
        good_attributes_def Blank_def IsWhiteSpace_def one_byte_def utf8_bytes_def ascii_defs no_ref_def is_ref_def
        drop_Cons split: nat.split)
  then have b: "body_root (sample_body [sample_fields, rev sample_fields]) = Some ?n"
    unfolding sample_body_def by (rule body_root_printed) (simp add: sample_root_def is_element_def)
  have r: "records (children ?n) = [sample_record sample_fields, sample_record (rev sample_fields)]"
    by (simp add: records_def sample_root_def sample_record_def)
  have c: "complete_record id (sample_record sample_fields)" "complete_record id (sample_record (rev sample_fields))"
    by (simp_all add: complete_record_def data_fields_def field_ok_def child_named_def sample_defs is_element_def)
  have v: "record_of id (sample_record fs) = \<lparr>d_SerialNumber = ''7'', d_CustID = ''c'', d_CustAccunt = ''acc'',
      d_CustName = ''Li'', d_CustState = ''0101'', d_AreaID = [], d_LinkAddr = ''road 1''\<rparr>"
    if "fs = sample_fields \<or> fs = rev sample_fields" for fs
    using that by (auto simp: record_of_def data_fields_def empty_data_def store_field_def field_text_def
        child_named_def sample_defs new_text_def GetText_def is_text_def to_ascii_def)
  show ?thesis using sync_records_read [OF b, of id] r c v
    by (simp add: numeral_2_eq_2)
qed

text \<open>A request can keep the server busy for ever.  If the first record is complete and the next one
  has no \<open>StreamNo\<close>, the loop over the records never ends: the search fails, the pointer goes back to
  the first record, and the second is found again.\<close>

theorem sync_missing_number_loops:
  assumes "body_root body = Some n" and "records (children n) = c1 # c2 # cs"
    and "complete_record conv c1" and "child_named c2 ''StreamNo'' = None"
  shows "ParseWebService conv body = None"
proof -
  obtain x p i j d where x: "sync_start conv body = Some (True, x, [record_of conv c1])" "m_pnode x = At (p @ [i])"
    "node_at p (m_Doc x) = Some n" "i < length (children n)" "c2 # cs = records (drop (Suc i) (children n))"
    "m_pre_pnode x = At ((p @ [i]) @ [j])" "node_at ((p @ [i]) @ [j]) (m_Doc x) = Some d"
    using sync_started [OF assms(1-3)] by blast
  obtain k where k: "k < length (children n)" "children n ! k = c2"
    "FindAllElement ''SyncData'' x = Some (True, x\<lparr>m_pnode := At (p @ [k])\<rparr>)"
    using FindAllElement_at(2) [OF x(2-4) x(5) [symmetric]] by blast
  have "node_at (p @ [k]) (m_Doc x) = Some c2" using x(3) k(1,2) by (simp add: node_at_append)
  then have "ParseData conv (x\<lparr>m_pnode := At (p @ [k])\<rparr>) = Some (False, x\<lparr>m_pnode := At (p @ [i])\<rparr>, empty_data)"
    using ParseData_missing [of "x\<lparr>m_pnode := At (p @ [k])\<rparr>" "p @ [k]" c2 "p @ [i]" j d conv] x(6,7) assms(4)
    by simp
  moreover have "x\<lparr>m_pnode := At (p @ [i])\<rparr> = x" using x(2) by simp
  ultimately have "sync_turn conv (x, [record_of conv c1]) = Repeat (x, [record_of conv c1])"
    using k(3) by (simp add: sync_turn_def)
  then have "sync_loop conv (x, [record_of conv c1]) = None" by (rule sync_loop_stuck)
  moreover have "body \<noteq> []"
    using assms(1) by (auto simp: body_root_def xml_parse_def start_encoding_def split: if_splits)
  ultimately show ?thesis using x(1) by (simp add: ParseWebService_def)
qed

theorem sync_missing_number_loops_witness:
  "ParseWebService id (sample_body [sample_fields, tl sample_fields]) = None"
proof (rule sync_missing_number_loops)
  let ?n = "sample_root [sample_fields, tl sample_fields]"
  have "good_element ENC_UTF8 ?n"
    by (simp add: sample_defs new_text_def simple_text_def good_text_def good_value_def good_name_def
        good_attributes_def Blank_def IsWhiteSpace_def one_byte_def utf8_bytes_def ascii_defs no_ref_def is_ref_def
        drop_Cons split: nat.split)
  then show "body_root (sample_body [sample_fields, tl sample_fields]) = Some ?n"
    unfolding sample_body_def by (rule body_root_printed) (simp add: sample_root_def is_element_def)
  show "records (children ?n) = sample_record sample_fields # sample_record (tl sample_fields) # []"
    by (simp add: records_def sample_root_def sample_record_def)
  show "complete_record id (sample_record sample_fields)"
    by (simp add: complete_record_def data_fields_def field_ok_def child_named_def sample_defs is_element_def)
  show "child_named (sample_record (tl sample_fields)) ''StreamNo'' = None"
    by (simp add: child_named_def sample_defs)
qed

section \<open>Reporting the results\<close>

lemma select_column_result:
  "select_column A column userID old d = Some (flag, s, d') \<Longrightarrow> \<not> flag \<Longrightarrow> s = old"
  by (auto simp: select_column_def Let_def split: bind_splits if_splits prod.splits)

lemma UpdateUserStateByDB_keeps:
  "UpdateUserStateByDB A data r d = Some (ok, r', d') \<Longrightarrow>
    r_SerialNumber r' = r_SerialNumber r \<and> (if ok then r_ErrCode r' = r_ErrCode r else r_ErrCode r' = ''3'')"
  by (auto simp: UpdateUserStateByDB_def Let_def split: bind_splits if_splits prod.splits)

lemma UpdateUserByDB_keeps: "UpdateUserByDB A data r d = Some (ok, r', d') \<Longrightarrow> ok \<and> r' = r"
  by (auto simp: UpdateUserByDB_def split: bind_splits if_splits prod.splits)

lemma CreateUserByDB_keeps:
  assumes "CreateUserByDB A today data r d = Some (ok, r', d')"
  shows "r_SerialNumber r' = r_SerialNumber r \<and> (ok \<longrightarrow> r_ErrCode r' = r_ErrCode r)"
  using assms
  by (auto simp: CreateUserByDB_def split: bind_splits if_splits prod.splits dest!: UpdateUserStateByDB_keeps)

lemma serve_record_result:
  assumes "serve_record A today data d = Some (r, d')"
  shows "r_SerialNumber r = d_SerialNumber data \<and> r_UserState r = d_CustState data \<and>
    r_ErrCode r \<in> {''0'', ''1'', ''3'', ''4''} \<and>
    (r_ErrCode r = ''4'' \<longleftrightarrow> d_CustState data \<notin> {''0101'', ''0102'', ''0103''}) \<and>
    (d_CustState data = ''0102'' \<longrightarrow> r_ErrCode r = ''0'')"
  using assms
  by (auto simp: serve_record_def new_result_def failed_as_def Let_def split: bind_splits if_splits prod.splits
      dest!: UpdateUserStateByDB_keeps UpdateUserByDB_keeps CreateUserByDB_keeps)

text \<open>ADO objects on a table without users, with the statements executed as their state.\<close>

definition no_users :: "string list ado" where
  "no_users = \<lparr>create_connection = (\<lambda>c. (True, c)), create_recordset = (\<lambda>c. (True, c)), conn_release = (\<lambda>c. c),
     conn_put_timeouts = (\<lambda>c. (Inr (), c)), conn_open = (\<lambda>s c. (Inr (), c)),
     conn_is_closed = (\<lambda>c. (Inr False, c)), conn_close = (\<lambda>c. (Inr (), c)),
     conn_execute = (\<lambda>s c. (Inr (), c @ [s])), conn_container = (\<lambda>c. (True, c)), conn_point = (\<lambda>c. (True, c)),
     rst_is_closed = (\<lambda>c. (Inr True, c)), rst_is_open = (\<lambda>c. (Inr False, c)),
     rst_open = (\<lambda>s c. (Inr (), c)), rst_close = (\<lambda>c. (Inr (), c)),
     rst_move_first = (\<lambda>c. (Inl \<lparr>ce_error = 0x800a0bcd, ce_description = ''no record''\<rparr>, c)),
     rst_move_next = (\<lambda>c. (Inr (), c)), rst_end_of_file = (\<lambda>c. (Inr True, c)),
     rst_item = (\<lambda>s c. (Inr [], c)), rst_container = (\<lambda>c. (True, c)), rst_point = (\<lambda>c. (True, c)),
     co_uninitialize = (\<lambda>c. c)\<rparr>"

definition no_users_handle :: "string list dbfd" where
  "no_users_handle = \<lparr>db_com = [], db_connect_str = [], db_fetch_result = [], db_err_code = 0, db_err_desc = [],
     db_msg_queue = msg_queue_new 1 undefined\<rparr>"

definition sample_data :: SyncPlatformData where
  "sample_data = empty_data\<lparr>d_SerialNumber := ''7'', d_CustAccunt := ''acc'', d_CustState := ''0101''\<rparr>"

text \<open>C22: Every record is answered.  The results are as many as the records and in their order, each with
  the stream number and the operation of its record; the error code \<open>4\<close> is given exactly for an
  operation the server does not know, and \<open>2\<close>, which \<open>CreateUserByDB\<close> sets, reaches no client.\<close>

theorem sync_answers_match:
  assumes "serve_records A today xs d = Some (rs, d')"
  shows "map r_SerialNumber rs = map d_SerialNumber xs \<and> map r_UserState rs = map d_CustState xs \<and>
    list_all2 (\<lambda>x r. r_ErrCode r \<in> {''0'', ''1'', ''3'', ''4''} \<and>
      (r_ErrCode r = ''4'' \<longleftrightarrow> d_CustState x \<notin> {''0101'', ''0102'', ''0103''})) xs rs"
  using assms
proof (induction xs arbitrary: d rs)
  case (Cons x xs)
  obtain r d1 rs1 where s: "serve_record A today x d = Some (r, d1)" "serve_records A today xs d1 = Some (rs1, d')"
    "rs = r # rs1"
    using Cons.prems by (auto split: bind_splits prod.splits)
  show ?case unfolding s(3) using Cons.IH [OF s(2)] serve_record_result [OF s(1)] by (simp del: insert_iff)
qed simp

theorem sync_answers_match_witness:
  "\<exists>d. serve_records no_users ''2024-01-01'' [sample_data\<lparr>d_CustState := ''0105''\<rparr>] no_users_handle =
      Some ([\<lparr>r_SerialNumber = ''7'', r_ErrCode = ''4'', r_Desc = ''No Support Cmd'', r_UserState = ''0105'',
        r_ViewName = []\<rparr>], d) \<and>
    ''4'' \<in> {''0'', ''1'', ''3'', ''4''}"
proof -
  have s: "serve_records no_users ''2024-01-01'' [sample_data\<lparr>d_CustState := ''0105''\<rparr>] no_users_handle =
      Some ([\<lparr>r_SerialNumber = ''7'', r_ErrCode = ''4'', r_Desc = ''No Support Cmd'', r_UserState = ''0105'',
        r_ViewName = []\<rparr>], no_users_handle)"
    by (simp add: serve_record_def new_result_def sample_data_def Let_def)
  show ?thesis using s sync_answers_match [OF s] by simp
qed

text \<open>What ADO does for a user that is not there: the select opens an empty recordset, and
  \<^verbatim>\<open>MoveFirst\<close> on it raises the error \<^verbatim>\<open>0x800a0bcd\<close>.\<close>

definition finds_no_row :: "'c ado \<Rightarrow> string \<Rightarrow> 'c \<Rightarrow> 'c \<Rightarrow> bool" where
  "finds_no_row A sql c c' \<longleftrightarrow> rst_is_closed A c = (Inr True, c) \<and>
     (case rst_open A sql c of
        (Inr _, c1) \<Rightarrow>
          (case rst_move_first A c1 of
             (Inl e, c2) \<Rightarrow> c2 = c' \<and> ce_error e = 0x800a0bcd \<and> length (ce_description e) < 127
           | _ \<Rightarrow> False)
      | _ \<Rightarrow> False)"

definition state_sql :: "string \<Rightarrow> string" where
  "state_sql userID = ''select UserState from HM_User  where UserID='' @ quoted userID"

lemma GetUserState_no_row:
  assumes "finds_no_row A (state_sql u) (db_com d) c" and "length (state_sql u) < 1024"
  shows "\<exists>d1. GetUserState A u old d = Some (False, old, d1) \<and> db_com d1 = c \<and> length (db_err_desc d1) < 127"
proof -
  obtain c1 e where e: "rst_open A (state_sql u) (db_com d) = (Inr (), c1)" "rst_move_first A c1 = (Inl e, c)"
    "ce_error e = 0x800a0bcd" "length (ce_description e) < 127" "rst_is_closed A (db_com d) = (Inr True, db_com d)"
    using assms(1) by (auto simp: finds_no_row_def split: prod.splits sum.splits)
  define d1 where "d1 = d\<lparr>db_com := c, db_err_code := 0x800a0bcd, db_err_desc := ce_description e\<rparr>"
  have "db_query A (state_sql u) (d\<lparr>db_err_code := 0\<rparr>) = Some (False, d1)"
    using e by (simp add: db_query_def ado_then_def ado_skip_def handle_and_check_def handle_err_def
        check_db_connect_def connection_errors_def d1_def Let_def)
  then have "call_query A (state_sql u) d = Some (0x800a0bcd, ce_description e, d1)"
    using assms(2) e(4) by (simp add: call_query_def st_db_query_result_def copy_desc_def d1_def)
  moreover have "sprintf_s 1024 (''select '' @ ''UserState'' @ '' from HM_User  where UserID='' @ quoted u) =
      Some (state_sql u)"
    using assms(2) by (simp add: sprintf_s_def state_sql_def)
  ultimately have "GetUserState A u old d = Some (False, old, d1)"
    unfolding GetUserState_def select_column_def by simp
  then show ?thesis using e(4) by (auto simp: d1_def)
qed

text \<open>A new user is created and reported as failed.  If the account is not in the table, so that the
  select finds no row, and the insert succeeds, the client is told error \<open>1\<close>: the flag of the failed
  select is what \<open>CreateUserByDB\<close> returns.\<close>

theorem created_user_reported_failed:
  assumes "d_CustState data = ''0101''"
    and "finds_no_row A (state_sql (d_CustAccunt data)) (db_com d) c" and "length (state_sql (d_CustAccunt data)) < 1024"
    and "conn_execute A (insert_sql today data) c = (Inr (), c')" and "length (insert_sql today data) < 512"
  shows "\<exists>r d'. serve_record A today data d = Some (r, d') \<and> db_com d' = c' \<and> r_ErrCode r = ''1''"
proof -
  obtain d1 where d1: "GetUserState A (d_CustAccunt data) [] d = Some (False, [], d1)" "db_com d1 = c"
    "length (db_err_desc d1) < 127"
    using GetUserState_no_row [OF assms(2,3)] by blast
  define d2 where "d2 = d1\<lparr>db_com := c', db_err_code := 0\<rparr>"
  have "call_exec A (insert_sql today data) d1 = Some (0, db_err_desc d1, d2)"
    using assms(4,5) d1(2,3)
    by (simp add: call_exec_def db_exec_def st_db_exec_result_def copy_desc_def d2_def Let_def)
  then have "CreateUserByDB A today data r d = Some (False, r, d2)" for r
    using d1(1) assms(5) by (simp add: CreateUserByDB_def sprintf_s_def)
  then show ?thesis
    by (simp add: serve_record_def assms(1) failed_as_def d2_def Let_def)
qed

theorem created_user_reported_failed_witness:
  "\<exists>r d. serve_record no_users ''2024-01-01'' sample_data no_users_handle = Some (r, d) \<and>
    db_com d = [insert_sql ''2024-01-01'' sample_data] \<and> r_ErrCode r = ''1''"
  by (rule created_user_reported_failed [where c = "[]"])
    (simp_all add: sample_data_def finds_no_row_def no_users_def no_users_handle_def empty_data_def state_sql_def
      insert_sql_def quoted_def)

end
