(* ===== verification/Poll.thy ===== *)
theory Poll
  imports Thread
begin

text \<open>
  The portable scheduler (\<^verbatim>\<open>sched.c\<close>), which waits for descriptors with \<^verbatim>\<open>select\<close>: the queue of threads that
  poll, the sets of descriptors, and the counts of requests for each of them.  What \<^verbatim>\<open>sched.c\<close> shares with
  \<^verbatim>\<open>sched_win.cpp\<close> (the run queue, the sleep queue, threads) is the state of \<open>Vp\<close>.
\<close>

section \<open>Requests\<close>

datatype poll_event = POLLIN | POLLOUT | POLLPRI

record pollfd =
  p_fd :: nat
  p_events :: "poll_event set"
  p_revents :: "poll_event set"

text \<open>\<^verbatim>\<open>st_pollq_t\<close> is on the stack of the thread that polls; the queue is the list of these threads.\<close>

record pollq =
  pq_pds :: "pollfd list"
  pq_on_ioq :: bool

record poll_vp =
  pvp :: st_vp
  polls :: "tid \<Rightarrow> pollq"
  fd_sets :: "poll_event \<Rightarrow> nat set"
  fd_cnts :: "poll_event \<Rightarrow> nat \<Rightarrow> int"
  maxfd :: int

text \<open>What is in the sets: the descriptor itself or, for a Winsock socket, what \<^verbatim>\<open>fds\<close> maps it to.\<close>

definition sock_of :: "(nat \<Rightarrow> nat) \<Rightarrow> bool \<Rightarrow> nat \<Rightarrow> nat" where
  "sock_of fds os fd = (if os then fd else fds fd)"

definition add_event :: "(nat \<Rightarrow> nat) \<Rightarrow> bool \<Rightarrow> pollfd \<Rightarrow> poll_event \<Rightarrow> poll_vp \<Rightarrow> poll_vp" where
  "add_event fds os pd ev s =
     (if ev \<in> p_events pd
      then s\<lparr>fd_sets := (fd_sets s)(ev := insert (sock_of fds os (p_fd pd)) (fd_sets s ev)),
             fd_cnts := (fd_cnts s)(ev := (fd_cnts s ev)(p_fd pd := fd_cnts s ev (p_fd pd) + 1))\<rparr>
      else s)"

definition del_event :: "(nat \<Rightarrow> nat) \<Rightarrow> bool \<Rightarrow> pollfd \<Rightarrow> poll_event \<Rightarrow> poll_vp \<Rightarrow> poll_vp" where
  "del_event fds os pd ev s =
     (if ev \<in> p_events pd
      then let c = fd_cnts s ev (p_fd pd) - 1;
               s1 = s\<lparr>fd_cnts := (fd_cnts s)(ev := (fd_cnts s ev)(p_fd pd := c))\<rparr>
           in if c = 0 then s1\<lparr>fd_sets := (fd_sets s)(ev := fd_sets s ev - {sock_of fds os (p_fd pd)})\<rparr> else s1
      else s)"

definition poll_events :: "poll_event list" where
  "poll_events = [POLLIN, POLLOUT, POLLPRI]"

definition raise_maxfd :: "int \<Rightarrow> poll_vp \<Rightarrow> poll_vp" where
  "raise_maxfd fd s = (if maxfd s < fd then s\<lparr>maxfd := fd\<rparr> else s)"

definition enter_fd :: "(nat \<Rightarrow> nat) \<Rightarrow> bool \<Rightarrow> pollfd \<Rightarrow> poll_vp \<Rightarrow> poll_vp" where
  "enter_fd fds os pd s = raise_maxfd (int (p_fd pd)) (fold (add_event fds os pd) poll_events s)"

definition leave_fd :: "(nat \<Rightarrow> nat) \<Rightarrow> bool \<Rightarrow> pollfd \<Rightarrow> poll_vp \<Rightarrow> poll_vp" where
  "leave_fd fds os pd s = fold (del_event fds os pd) poll_events s"

definition set_poll :: "tid \<Rightarrow> pollq \<Rightarrow> poll_vp \<Rightarrow> poll_vp" where
  "set_poll t q s = s\<lparr>polls := (polls s)(t := q)\<rparr>"

definition on_vp :: "(st_vp \<Rightarrow> st_vp) \<Rightarrow> poll_vp \<Rightarrow> poll_vp" where
  "on_vp f s = s\<lparr>pvp := f (pvp s)\<rparr>"

section \<open>Polling\<close>

text \<open>A call that returned, or that switched to another thread.\<close>

datatype 'r poll_outcome = PReturn 'r poll_vp | PSwitch poll_vp

text \<open>\<^verbatim>\<open>_st_poll\<close> up to the context switch.\<close>

definition st_poll ::
  "(nat \<Rightarrow> nat) \<Rightarrow> bool \<Rightarrow> pollfd list \<Rightarrow> utime \<Rightarrow> poll_vp \<Rightarrow> int poll_outcome" where
  "st_poll fds os pds timeout s =
     (let me = this_thread (pvp s) in
      if has_flag (flags_of (pvp s) me) FL_INTERRUPT then PReturn (-1) (on_vp (take_interrupt me) s)
      else let s1 = fold (enter_fd fds os) pds s;
               s2 = set_poll me \<lparr>pq_pds = pds, pq_on_ioq = True\<rparr> s1;
               s3 = on_vp (\<lambda>v. v\<lparr>io_q := io_q v @ [me]\<rparr>) s2;
               s4 = (if timeout \<noteq> ST_UTIME_NO_TIMEOUT then on_vp (st_add_sleep_q me timeout) s3 else s3)
           in PSwitch (on_vp (\<lambda>v. switch_context RWait (set_state me ST_IO_WAIT v)) s4))"

text \<open>And after it, when the thread runs again.\<close>

definition st_poll_resume :: "(nat \<Rightarrow> nat) \<Rightarrow> bool \<Rightarrow> poll_vp \<Rightarrow> int \<times> poll_vp" where
  "st_poll_resume fds os s =
     (let me = this_thread (pvp s);
          q = polls s me;
          n = (if pq_on_ioq q then 0 else int (length (filter (\<lambda>pd. p_revents pd \<noteq> {}) (pq_pds q))));
          s1 = (if pq_on_ioq q
                then fold (leave_fd fds os) (pq_pds q) (on_vp (\<lambda>v. v\<lparr>io_q := remove1 me (io_q v)\<rparr>) s)
                else s)
      in if has_flag (flags_of (pvp s1) me) FL_INTERRUPT then (-1, on_vp (take_interrupt me) s1)
         else (n, s1))"

section \<open>The idle thread\<close>

text \<open>The timeout passed to \<^verbatim>\<open>select\<close>, in seconds and microseconds; \<open>None\<close>: it waits for ever.\<close>

definition select_timeout :: "st_vp \<Rightarrow> (nat \<times> nat) option" where
  "select_timeout v =
     (case sleep_q v of
        [] \<Rightarrow> None
      | t # _ \<Rightarrow> Some (unat (sleep_of v t) div 1000000, unat (sleep_of v t) mod 1000000))"

text \<open>The largest descriptor of a request, \<open>-1\<close> when there is none.\<close>

definition max_fd :: "pollfd list \<Rightarrow> int" where
  "max_fd pds = fold (\<lambda>pd m. max m (int (p_fd pd))) pds (-1)"

definition with_revents :: "(nat \<Rightarrow> nat) \<Rightarrow> (poll_event \<Rightarrow> nat set) \<Rightarrow> pollfd \<Rightarrow> pollfd" where
  "with_revents fds ready pd = pd\<lparr>p_revents := {ev \<in> p_events pd. fds (p_fd pd) \<in> ready ev}\<rparr>"

text \<open>A request taken off the queue, its thread woken.\<close>

definition notify_poll :: "(nat \<Rightarrow> nat) \<Rightarrow> tid \<Rightarrow> poll_vp \<Rightarrow> poll_vp" where
  "notify_poll fds t s =
     (let s1 = on_vp (\<lambda>v. v\<lparr>io_q := remove1 t (io_q v)\<rparr>) s;
          s2 = set_poll t ((polls s t)\<lparr>pq_on_ioq := False\<rparr>) s1;
          s3 = fold (leave_fd fds False) (pq_pds (polls s t)) s2
      in on_vp (\<lambda>v. make_runnable t (leave_sleep_q t v)) s3)"

text \<open>One turn of the loop over the queue.\<close>

definition check_poll :: "(nat \<Rightarrow> nat) \<Rightarrow> (poll_event \<Rightarrow> nat set) \<Rightarrow> tid \<Rightarrow> poll_vp \<Rightarrow> poll_vp" where
  "check_poll fds ready t s =
     (let pds = map (with_revents fds ready) (pq_pds (polls s t));
          s1 = set_poll t ((polls s t)\<lparr>pq_pds := pds\<rparr>) s
      in if (\<exists>pd \<in> set pds. p_revents pd \<noteq> {}) then notify_poll fds t s1 else raise_maxfd (max_fd pds) s1)"

text \<open>\<^verbatim>\<open>_st_find_bad_fd\<close>: it clears the events and never notifies, since it sets \<^verbatim>\<open>notify\<close> to 0 only.\<close>

definition check_bad :: "tid \<Rightarrow> poll_vp \<Rightarrow> poll_vp" where
  "check_bad t s =
     (let pds = map (\<lambda>pd. pd\<lparr>p_revents := {}\<rparr>) (pq_pds (polls s t))
      in raise_maxfd (max_fd (filter (\<lambda>pd. p_events pd \<noteq> {}) pds)) (set_poll t ((polls s t)\<lparr>pq_pds := pds\<rparr>) s))"

definition st_find_bad_fd :: "poll_vp \<Rightarrow> poll_vp" where
  "st_find_bad_fd s = fold check_bad (io_q (pvp s)) (s\<lparr>maxfd := -1\<rparr>)"

text \<open>\<^verbatim>\<open>_st_vp_idle\<close>; \<open>nfd\<close>, \<open>ready\<close> and \<open>err\<close> are what \<^verbatim>\<open>select\<close> gives: its result, the sets and the
  translated error.\<close>

definition st_poll_idle ::
  "(nat \<Rightarrow> nat) \<Rightarrow> int \<Rightarrow> (poll_event \<Rightarrow> nat set) \<Rightarrow> int \<Rightarrow> poll_vp \<Rightarrow> poll_vp" where
  "st_poll_idle fds nfd ready err s =
     (let s0 = on_vp (set_errno err) s in
      if nfd > 0 then fold (check_poll fds ready) (io_q (pvp s0)) (s0\<lparr>maxfd := -1\<rparr>)
      else if nfd < 0 \<and> (err = EBADF \<or> err = ENOTSOCK) then st_find_bad_fd s0
      else s0)"

text \<open>The loop body of \<^verbatim>\<open>_st_idle_thread_start\<close>.\<close>

definition st_poll_idle_body ::
  "(nat \<Rightarrow> nat) \<Rightarrow> int \<Rightarrow> (poll_event \<Rightarrow> nat set) \<Rightarrow> int \<Rightarrow> utime \<Rightarrow> int \<Rightarrow> poll_vp \<Rightarrow> unit poll_outcome" where
  "st_poll_idle_body fds nfd ready err now tm s =
     (if active_count (pvp s) > 0
      then let me = this_thread (pvp s);
               s1 = on_vp (st_vp_check_clock now tm) (st_poll_idle fds nfd ready err s)
           in PSwitch (on_vp (\<lambda>v. switch_context RIdle (set_state me ST_RUNNABLE v)) s1)
      else PReturn () (on_vp (\<lambda>v. v\<lparr>exited := True\<rparr>) s))"

section \<open>Starting\<close>

text \<open>\<^verbatim>\<open>st_init\<close> on the part that belongs to polling.\<close>

definition poll_init :: "st_vp \<Rightarrow> poll_vp" where
  "poll_init v = \<lparr>pvp = v\<lparr>io_q := []\<rparr>, polls = (\<lambda>_. \<lparr>pq_pds = [], pq_on_ioq = False\<rparr>), fd_sets = (\<lambda>_. {}),
     fd_cnts = (\<lambda>_ _. 0), maxfd = -1\<rparr>"

end
