(* ===== verification/PollInv.thy ===== *)
theory PollInv
  imports Poll
begin

text \<open>
  The accounting of \<^verbatim>\<open>sched.c\<close>: the counts of requests for each descriptor, the sets that go to
  \<^verbatim>\<open>select\<close> and the largest descriptor agree with the queue of the threads that poll.
\<close>

section \<open>Requests of a list of descriptors\<close>

definition req :: "pollfd list \<Rightarrow> poll_event \<Rightarrow> nat \<Rightarrow> int" where
  "req pds ev fd = int (length (filter (\<lambda>pd. p_fd pd = fd \<and> ev \<in> p_events pd) pds))"

lemma req_simps [simp]:
  "req [] ev fd = 0"
  "req (pd # pds) ev fd = (if p_fd pd = fd \<and> ev \<in> p_events pd then 1 else 0) + req pds ev fd"
  by (simp_all add: req_def)

lemma req_nonneg [simp]: "0 \<le> req pds ev fd"
  by (simp add: req_def)

lemma req_revents:
  assumes "\<And>pd. p_fd (f pd) = p_fd pd \<and> p_events (f pd) = p_events pd"
  shows "req (map f pds) ev fd = req pds ev fd"
  by (induction pds) (simp_all add: assms)

definition total :: "(tid \<Rightarrow> pollq) \<Rightarrow> tid list \<Rightarrow> poll_event \<Rightarrow> nat \<Rightarrow> int" where
  "total f ts ev fd = (\<Sum>t\<leftarrow>ts. req (pq_pds (f t)) ev fd)"

lemma total_simps [simp]:
  "total f [] ev fd = 0"
  "total f (t # ts) ev fd = req (pq_pds (f t)) ev fd + total f ts ev fd"
  "total f (ts @ us) ev fd = total f ts ev fd + total f us ev fd"
  by (simp_all add: total_def)

lemma total_nonneg: "0 \<le> total f ts ev fd"
  by (induction ts) simp_all

lemma total_cong: "(\<And>t. t \<in> set ts \<Longrightarrow> req (pq_pds (f t)) ev fd = req (pq_pds (g t)) ev fd) \<Longrightarrow>
    total f ts ev fd = total g ts ev fd"
  by (induction ts) simp_all

lemma total_remove1: "t \<in> set ts \<Longrightarrow> total f (remove1 t ts) ev fd = total f ts ev fd - req (pq_pds (f t)) ev fd"
  by (induction ts) auto

section \<open>Entering and leaving\<close>

lemma event_split: "set poll_events = UNIV"
  by (auto simp: poll_events_def intro: poll_event.exhaust)

lemma add_event_facts:
  "fd_cnts (add_event fds os pd e s) ev fd =
    fd_cnts s ev fd + (if e = ev \<and> p_fd pd = fd \<and> ev \<in> p_events pd then 1 else 0)"
  "fd_sets (add_event fds os pd e s) ev =
    (if e = ev \<and> ev \<in> p_events pd then insert (sock_of fds os (p_fd pd)) (fd_sets s ev) else fd_sets s ev)"
  "pvp (add_event fds os pd e s) = pvp s" "polls (add_event fds os pd e s) = polls s"
  "maxfd (add_event fds os pd e s) = maxfd s"
  by (auto simp: add_event_def)

lemma enter_fd_facts:
  "fd_cnts (enter_fd fds os pd s) ev fd =
    fd_cnts s ev fd + (if p_fd pd = fd \<and> ev \<in> p_events pd then 1 else 0)"
  "fd_sets (enter_fd fds os pd s) ev =
    (if ev \<in> p_events pd then insert (sock_of fds os (p_fd pd)) (fd_sets s ev) else fd_sets s ev)"
  "pvp (enter_fd fds os pd s) = pvp s" "polls (enter_fd fds os pd s) = polls s"
  "maxfd (enter_fd fds os pd s) = max (maxfd s) (int (p_fd pd))"
  by (cases ev; simp add: enter_fd_def raise_maxfd_def poll_events_def add_event_facts)+

lemma del_event_facts:
  "fd_cnts (del_event fds os pd e s) ev fd =
    fd_cnts s ev fd - (if e = ev \<and> p_fd pd = fd \<and> ev \<in> p_events pd then 1 else 0)"
  "fd_sets (del_event fds os pd e s) ev =
    (if e = ev \<and> ev \<in> p_events pd \<and> fd_cnts s ev (p_fd pd) = 1
     then fd_sets s ev - {sock_of fds os (p_fd pd)} else fd_sets s ev)"
  "pvp (del_event fds os pd e s) = pvp s" "polls (del_event fds os pd e s) = polls s"
  "maxfd (del_event fds os pd e s) = maxfd s"
  by (auto simp: del_event_def Let_def)

lemma leave_fd_facts:
  "fd_cnts (leave_fd fds os pd s) ev fd =
    fd_cnts s ev fd - (if p_fd pd = fd \<and> ev \<in> p_events pd then 1 else 0)"
  "fd_sets (leave_fd fds os pd s) ev =
    (if ev \<in> p_events pd \<and> fd_cnts s ev (p_fd pd) = 1
     then fd_sets s ev - {sock_of fds os (p_fd pd)} else fd_sets s ev)"
  "pvp (leave_fd fds os pd s) = pvp s" "polls (leave_fd fds os pd s) = polls s"
  "maxfd (leave_fd fds os pd s) = maxfd s"
  by (cases ev; simp add: leave_fd_def poll_events_def del_event_facts)+

text \<open>The sets hold exactly the sockets of the descriptors with a request.\<close>

definition sets_ok :: "(nat \<Rightarrow> nat) \<Rightarrow> poll_vp \<Rightarrow> bool" where
  "sets_ok fds s \<longleftrightarrow> (\<forall>ev. fd_sets s ev = fds ` {fd. 0 < fd_cnts s ev fd})"

lemma enter_fd_sets:
  assumes "sets_ok fds s" and "\<And>ev fd. 0 \<le> fd_cnts s ev fd"
  shows "sets_ok fds (enter_fd fds False pd s)"
  unfolding sets_ok_def
proof
  fix ev
  have s: "fd_sets s ev = fds ` {fd. 0 < fd_cnts s ev fd}" using assms(1) by (simp add: sets_ok_def)
  have "{fd. 0 < fd_cnts s ev fd + (if p_fd pd = fd \<and> ev \<in> p_events pd then 1 else 0)} =
      (if ev \<in> p_events pd then insert (p_fd pd) {fd. 0 < fd_cnts s ev fd} else {fd. 0 < fd_cnts s ev fd})"
    using assms(2) by (auto simp: add_nonneg_pos)
  then show "fd_sets (enter_fd fds False pd s) ev = fds ` {fd. 0 < fd_cnts (enter_fd fds False pd s) ev fd}"
    by (simp add: enter_fd_facts s sock_of_def)
qed

lemma leave_fd_sets:
  assumes "sets_ok fds s" and "inj fds"
    and "\<And>ev. ev \<in> p_events pd \<Longrightarrow> 1 \<le> fd_cnts s ev (p_fd pd)"
  shows "sets_ok fds (leave_fd fds False pd s)"
  unfolding sets_ok_def
proof
  fix ev
  have s: "fd_sets s ev = fds ` {fd. 0 < fd_cnts s ev fd}" using assms(1) by (simp add: sets_ok_def)
  show "fd_sets (leave_fd fds False pd s) ev = fds ` {fd. 0 < fd_cnts (leave_fd fds False pd s) ev fd}"
  proof (cases "ev \<in> p_events pd")
    case True
    have "{fd. 0 < fd_cnts s ev fd - (if p_fd pd = fd \<and> ev \<in> p_events pd then 1 else 0)} =
        (if fd_cnts s ev (p_fd pd) = 1 then {fd. 0 < fd_cnts s ev fd} - {p_fd pd} else {fd. 0 < fd_cnts s ev fd})"
      using assms(3) [OF True] True by auto
    then show ?thesis
      using True by (simp add: leave_fd_facts s sock_of_def image_set_diff [OF assms(2)])
  qed (simp add: leave_fd_facts s)
qed

lemma fold_enter_facts:
  "fd_cnts (fold (enter_fd fds os) pds s) ev fd = fd_cnts s ev fd + req pds ev fd"
  "pvp (fold (enter_fd fds os) pds s) = pvp s" "polls (fold (enter_fd fds os) pds s) = polls s"
  by (induction pds arbitrary: s) (simp_all add: enter_fd_facts)

lemma fold_enter_grows: "maxfd s \<le> maxfd (fold (enter_fd fds os) pds s)"
proof (induction pds arbitrary: s)
  case (Cons pd pds)
  show ?case using Cons [of "enter_fd fds os pd s"] by (simp add: enter_fd_facts)
qed simp

lemma fold_enter_max: "pd \<in> set pds \<Longrightarrow> int (p_fd pd) \<le> maxfd (fold (enter_fd fds os) pds s)"
proof (induction pds arbitrary: s)
  case (Cons a pds)
  show ?case
  proof (cases "pd \<in> set pds")
    case False
    then have "a = pd" using Cons.prems by simp
    then show ?thesis
      using fold_enter_grows [of "enter_fd fds os a s" fds os pds] by (simp add: enter_fd_facts)
  qed (use Cons.IH in simp)
qed simp

lemma fold_enter_sets:
  assumes "sets_ok fds s" and "\<And>ev fd. 0 \<le> fd_cnts s ev fd"
  shows "sets_ok fds (fold (enter_fd fds False) pds s)"
  using assms
proof (induction pds arbitrary: s)
  case (Cons pd pds)
  have "sets_ok fds (enter_fd fds False pd s)" by (rule enter_fd_sets [OF Cons.prems])
  moreover have "0 \<le> fd_cnts (enter_fd fds False pd s) ev fd" for ev fd
    using Cons.prems(2) [of ev fd] by (simp add: enter_fd_facts)
  ultimately show ?case using Cons.IH by simp
qed simp

lemma fold_leave_facts:
  "fd_cnts (fold (leave_fd fds os) pds s) ev fd = fd_cnts s ev fd - req pds ev fd"
  "pvp (fold (leave_fd fds os) pds s) = pvp s" "polls (fold (leave_fd fds os) pds s) = polls s"
  "maxfd (fold (leave_fd fds os) pds s) = maxfd s"
  by (induction pds arbitrary: s) (simp_all add: leave_fd_facts)

lemma fold_leave_sets:
  assumes "sets_ok fds s" and "inj fds" and "\<And>ev fd. req pds ev fd \<le> fd_cnts s ev fd"
  shows "sets_ok fds (fold (leave_fd fds False) pds s)"
  using assms(1,3)
proof (induction pds arbitrary: s)
  case (Cons pd pds)
  have r: "req (pd # pds) ev fd \<le> fd_cnts s ev fd" for ev fd by (rule Cons.prems(2))
  have "1 \<le> fd_cnts s ev (p_fd pd)" if "ev \<in> p_events pd" for ev
    using r [of ev "p_fd pd"] that req_nonneg [of pds ev "p_fd pd"] by (simp del: req_nonneg)
  then have "sets_ok fds (leave_fd fds False pd s)" by (rule leave_fd_sets [OF Cons.prems(1) assms(2)])
  moreover have "req pds ev fd \<le> fd_cnts (leave_fd fds False pd s) ev fd" for ev fd
    using r [of ev fd] by (simp add: leave_fd_facts)
  ultimately show ?case using Cons.IH by simp
qed simp

section \<open>The invariant\<close>

text \<open>\<open>P\<close> are the threads inside \<^verbatim>\<open>_st_poll\<close>.\<close>

definition covers :: "poll_vp \<Rightarrow> tid \<Rightarrow> bool" where
  "covers s t \<longleftrightarrow> (\<forall>pd \<in> set (pq_pds (polls s t)). p_events pd \<noteq> {} \<longrightarrow> int (p_fd pd) \<le> maxfd s)"

definition queue_ok :: "(nat \<Rightarrow> nat) \<Rightarrow> tid set \<Rightarrow> poll_vp \<Rightarrow> bool" where
  "queue_ok fds P s \<longleftrightarrow> distinct (io_q (pvp s)) \<and> set (io_q (pvp s)) \<subseteq> P \<and>
     (\<forall>t \<in> P. pq_on_ioq (polls s t) \<longleftrightarrow> t \<in> set (io_q (pvp s))) \<and>
     (\<forall>ev fd. fd_cnts s ev fd = total (polls s) (io_q (pvp s)) ev fd) \<and> sets_ok fds s"

definition poll_ok :: "(nat \<Rightarrow> nat) \<Rightarrow> tid set \<Rightarrow> poll_vp \<Rightarrow> bool" where
  "poll_ok fds P s \<longleftrightarrow> queue_ok fds P s \<and> (\<forall>t \<in> set (io_q (pvp s)). covers s t)"

lemma io_q_schedule [simp]:
  "io_q (st_vp_schedule v) = io_q v" "io_q (switch_context r v) = io_q v"
  "io_q (set_state t st v) = io_q v" "io_q (set_errno e v) = io_q v"
  by (simp_all add: st_vp_schedule_def switch_context_def upd_defs ST_DEL_RUNQ_def split: list.split)

lemma io_q_sleep [simp]:
  "io_q (st_add_sleep_q t d v) = io_q v" "io_q (st_del_sleep_q t b v) = io_q v"
  "io_q (leave_sleep_q t v) = io_q v" "io_q (make_runnable t v) = io_q v" "io_q (take_interrupt t v) = io_q v"
  by (simp_all add: st_add_sleep_q_def st_del_sleep_q_def leave_sleep_q_def make_runnable_def ST_ADD_RUNQ_def
      take_interrupt_def upd_defs Let_def split: prod.split list.split option.split)

lemma on_vp_simps [simp]:
  "pvp (on_vp f s) = f (pvp s)" "polls (on_vp f s) = polls s" "fd_cnts (on_vp f s) = fd_cnts s"
  "fd_sets (on_vp f s) = fd_sets s" "maxfd (on_vp f s) = maxfd s"
  by (simp_all add: on_vp_def)

lemma set_poll_simps [simp]:
  "pvp (set_poll t q s) = pvp s" "polls (set_poll t q s) = (polls s)(t := q)" "fd_cnts (set_poll t q s) = fd_cnts s"
  "fd_sets (set_poll t q s) = fd_sets s" "maxfd (set_poll t q s) = maxfd s"
  by (simp_all add: set_poll_def)

lemma raise_maxfd_simps [simp]:
  "pvp (raise_maxfd m s) = pvp s" "polls (raise_maxfd m s) = polls s" "fd_cnts (raise_maxfd m s) = fd_cnts s"
  "fd_sets (raise_maxfd m s) = fd_sets s" "maxfd (raise_maxfd m s) = max (maxfd s) m"
  by (simp_all add: raise_maxfd_def)

text \<open>Only the queue, the requests, the counts and the sets matter.\<close>

lemma queue_ok_cong:
  assumes "queue_ok fds P s" and "io_q (pvp s') = io_q (pvp s)" and "polls s' = polls s"
    and "fd_cnts s' = fd_cnts s" and "fd_sets s' = fd_sets s"
  shows "queue_ok fds P s'"
  using assms by (simp add: queue_ok_def sets_ok_def)

lemma poll_ok_cong:
  assumes "poll_ok fds P s" and "io_q (pvp s') = io_q (pvp s)" and "polls s' = polls s"
    and "fd_cnts s' = fd_cnts s" and "fd_sets s' = fd_sets s" and "maxfd s \<le> maxfd s'"
  shows "poll_ok fds P s'"
proof -
  have "queue_ok fds P s'" using assms queue_ok_cong [of fds P s s'] by (simp add: poll_ok_def)
  moreover have "covers s' t" if "covers s t" for t
    using that assms(3,6) by (fastforce simp: covers_def)
  ultimately show ?thesis using assms(1,2) by (simp add: poll_ok_def)
qed

section \<open>Polling keeps it\<close>

lemma st_poll_ok:
  assumes ok: "poll_ok fds P s" and me: "this_thread (pvp s) \<notin> P"
    and sw: "st_poll fds False pds timeout s = PSwitch s'"
  shows "poll_ok fds (insert (this_thread (pvp s)) P) s'"
proof -
  let ?me = "this_thread (pvp s)"
  define s1 where "s1 = fold (enter_fd fds False) pds s"
  have q: "queue_ok fds P s" using ok by (simp add: poll_ok_def)
  have new: "?me \<notin> set (io_q (pvp s))" using q me by (auto simp: queue_ok_def)
  have s': "io_q (pvp s') = io_q (pvp s) @ [?me]" "polls s' = (polls s)(?me := \<lparr>pq_pds = pds, pq_on_ioq = True\<rparr>)"
    "fd_cnts s' = fd_cnts s1" "fd_sets s' = fd_sets s1" "maxfd s' = maxfd s1"
    using sw by (auto simp: st_poll_def Let_def s1_def fold_enter_facts(2,3) split: if_splits)
  have c: "fd_cnts s ev fd = total (polls s) (io_q (pvp s)) ev fd" for ev fd using q by (simp add: queue_ok_def)
  have t: "total (polls s') (io_q (pvp s)) ev fd = total (polls s) (io_q (pvp s)) ev fd" for ev fd
    by (rule total_cong) (use new s'(2) in auto)
  have "sets_ok fds s1"
    unfolding s1_def using q c by (intro fold_enter_sets) (simp_all add: queue_ok_def total_nonneg)
  then have "sets_ok fds s'" using s'(3,4) by (simp add: sets_ok_def)
  moreover have "fd_cnts s' ev fd = total (polls s') (io_q (pvp s')) ev fd" for ev fd
    unfolding s'(1) total_simps(3) t using s'(2,3) c by (simp add: s1_def fold_enter_facts(1))
  ultimately have "queue_ok fds (insert ?me P) s'"
    using q new me by (auto simp: queue_ok_def s'(1,2))
  moreover have "covers s' u" if "u \<in> set (io_q (pvp s'))" for u
  proof (cases "u = ?me")
    case True
    then show ?thesis using s'(2,5) fold_enter_max [of _ pds fds False s] by (simp add: covers_def s1_def)
  next
    case False
    then have "covers s u" using that ok s'(1) by (simp add: poll_ok_def)
    moreover have "maxfd s \<le> maxfd s'" using fold_enter_grows [of s fds False pds] s'(5) by (simp add: s1_def)
    ultimately show ?thesis using s'(2) False by (fastforce simp: covers_def)
  qed
  ultimately show ?thesis by (simp add: poll_ok_def)
qed

text \<open>A request leaves the queue.\<close>

lemma queue_ok_leave:
  assumes q: "queue_ok fds P s" and t: "t \<in> set (io_q (pvp s))" and inj: "inj fds"
    and s': "io_q (pvp s') = remove1 t (io_q (pvp s))" "fd_cnts s' = fd_cnts (fold (leave_fd fds False) (pq_pds (polls s t)) s)"
    "fd_sets s' = fd_sets (fold (leave_fd fds False) (pq_pds (polls s t)) s)"
    and p': "\<And>u. u \<noteq> t \<Longrightarrow> polls s' u = polls s u" and on: "t \<in> P' \<Longrightarrow> \<not> pq_on_ioq (polls s' t)"
    and P': "P - {t} \<subseteq> P'" "P' \<subseteq> P"
  shows "queue_ok fds P' s'"
proof -
  have d: "distinct (io_q (pvp s))" using q by (simp add: queue_ok_def)
  have c: "fd_cnts s ev fd = total (polls s) (io_q (pvp s)) ev fd" for ev fd using q by (simp add: queue_ok_def)
  have r: "total (polls s) (remove1 t (io_q (pvp s))) ev fd = fd_cnts s ev fd - req (pq_pds (polls s t)) ev fd" for ev fd
    using total_remove1 [OF t] c by simp
  have e: "total (polls s') (remove1 t (io_q (pvp s))) ev fd = total (polls s) (remove1 t (io_q (pvp s))) ev fd" for ev fd
    by (rule total_cong) (use d p' in auto)
  have "fd_cnts s' ev fd = total (polls s') (io_q (pvp s')) ev fd" for ev fd
    using r e by (simp add: s' fold_leave_facts(1))
  moreover have "sets_ok fds (fold (leave_fd fds False) (pq_pds (polls s t)) s)"
  proof (rule fold_leave_sets [OF _ inj])
    show "sets_ok fds s" using q by (simp add: queue_ok_def)
    show "req (pq_pds (polls s t)) ev fd \<le> fd_cnts s ev fd" for ev fd
      using r [of ev fd] total_nonneg [of "polls s" "remove1 t (io_q (pvp s))" ev fd] by simp
  qed
  then have "sets_ok fds s'" by (simp add: sets_ok_def s'(2,3))
  moreover have "pq_on_ioq (polls s' u) \<longleftrightarrow> u \<in> set (remove1 t (io_q (pvp s)))" if "u \<in> P'" for u
    using that on p' q d P'(2) by (cases "u = t") (auto simp: queue_ok_def)
  moreover have "set (remove1 t (io_q (pvp s))) \<subseteq> P'"
    using q d P'(1) by (auto simp: queue_ok_def)
  ultimately show ?thesis using d by (simp add: queue_ok_def s'(1) distinct_remove1)
qed

lemma del_event_on_vp: "del_event fds os pd ev (on_vp g z) = on_vp g (del_event fds os pd ev z)"
  by (simp add: del_event_def on_vp_def Let_def)

lemma leave_fd_on_vp: "leave_fd fds os pd (on_vp g z) = on_vp g (leave_fd fds os pd z)"
  by (simp add: leave_fd_def poll_events_def del_event_on_vp)

lemma fold_leave_on_vp: "fold (leave_fd fds os) pds (on_vp g z) = on_vp g (fold (leave_fd fds os) pds z)"
  by (induction pds arbitrary: z) (simp_all add: leave_fd_on_vp)

lemma st_poll_resume_ok:
  assumes ok: "poll_ok fds P s" and me: "this_thread (pvp s) \<in> P" and inj: "inj fds"
  shows "poll_ok fds (P - {this_thread (pvp s)}) (snd (st_poll_resume fds False s))"
proof -
  let ?me = "this_thread (pvp s)" and ?s = "snd (st_poll_resume fds False s)"
  have q: "queue_ok fds P s" using ok by (simp add: poll_ok_def)
  have i: "pq_on_ioq (polls s ?me) \<longleftrightarrow> ?me \<in> set (io_q (pvp s))" using q me by (simp add: queue_ok_def)
  show ?thesis
  proof (cases "?me \<in> set (io_q (pvp s))")
    case True
    let ?f = "fold (leave_fd fds False) (pq_pds (polls s ?me))"
    define w where "w = on_vp (\<lambda>v. v\<lparr>io_q := remove1 ?me (io_q v)\<rparr>) s"
    have w: "fd_cnts (?f w) = fd_cnts (?f s)" "fd_sets (?f w) = fd_sets (?f s)"
      by (simp_all add: w_def fold_leave_on_vp)
    have "?s = ?f w \<or> ?s = on_vp (take_interrupt ?me) (?f w)"
      using i True by (simp add: st_poll_resume_def Let_def w_def)
    moreover have "io_q (pvp (?f w)) = remove1 ?me (io_q (pvp s))" "polls (?f w) = polls s" "maxfd (?f w) = maxfd s"
      by (simp_all add: fold_leave_facts(2-4) w_def)
    ultimately have s: "io_q (pvp ?s) = remove1 ?me (io_q (pvp s))" "fd_cnts ?s = fd_cnts (?f s)"
      "fd_sets ?s = fd_sets (?f s)" "polls ?s = polls s" "maxfd ?s = maxfd s"
      using w by (metis on_vp_simps io_q_sleep(5))+
    have "queue_ok fds (P - {?me}) ?s"
      by (rule queue_ok_leave [OF q True inj s(1-3)]) (auto simp: s(4))
    moreover have "covers ?s u" if "u \<in> set (io_q (pvp ?s))" for u
    proof -
      have "u \<in> set (io_q (pvp s))" using that s(1) by (metis notin_set_remove1)
      then show ?thesis using ok by (simp add: poll_ok_def covers_def s(4,5))
    qed
    ultimately show ?thesis by (simp add: poll_ok_def)
  next
    case False
    then have "io_q (pvp ?s) = io_q (pvp s)" "fd_cnts ?s = fd_cnts s" "fd_sets ?s = fd_sets s"
      "polls ?s = polls s" "maxfd ?s = maxfd s"
      using i by (simp_all add: st_poll_resume_def Let_def)
    then have "poll_ok fds P ?s" using poll_ok_cong [OF ok] by simp
    then show ?thesis using False i by (auto simp: poll_ok_def queue_ok_def \<open>io_q (pvp ?s) = io_q (pvp s)\<close>)
  qed
qed

section \<open>The idle thread keeps it\<close>

lemma del_event_set_poll: "del_event fds os pd ev (set_poll t q z) = set_poll t q (del_event fds os pd ev z)"
  by (simp add: del_event_def set_poll_def Let_def)

lemma leave_fd_set_poll: "leave_fd fds os pd (set_poll t q z) = set_poll t q (leave_fd fds os pd z)"
  by (simp add: leave_fd_def poll_events_def del_event_set_poll)

lemma fold_leave_set_poll:
  "fold (leave_fd fds os) pds (set_poll t q z) = set_poll t q (fold (leave_fd fds os) pds z)"
  by (induction pds arbitrary: z) (simp_all add: leave_fd_set_poll)

lemma with_revents_simps [simp]:
  "p_fd (with_revents fds ready pd) = p_fd pd" "p_events (with_revents fds ready pd) = p_events pd"
  by (simp_all add: with_revents_def)

lemma leave_fd_revents: "leave_fd fds os (with_revents fds ready pd) = leave_fd fds os pd"
proof -
  have "del_event fds os (with_revents fds ready pd) = del_event fds os pd"
    by (intro ext) (simp add: del_event_def Let_def)
  then show ?thesis by (intro ext) (simp add: leave_fd_def)
qed

lemma fold_leave_revents:
  "fold (leave_fd fds os) (map (with_revents fds ready) pds) s = fold (leave_fd fds os) pds s"
  by (induction pds arbitrary: s) (simp_all add: leave_fd_revents)

text \<open>A request one of whose descriptors is ready.\<close>

definition ready_poll :: "(nat \<Rightarrow> nat) \<Rightarrow> (poll_event \<Rightarrow> nat set) \<Rightarrow> pollfd list \<Rightarrow> bool" where
  "ready_poll fds ready pds \<longleftrightarrow> (\<exists>pd \<in> set pds. \<exists>ev \<in> p_events pd. fds (p_fd pd) \<in> ready ev)"

lemma ready_revents:
  "ready_poll fds ready pds \<longleftrightarrow> (\<exists>pd \<in> set pds. p_revents (with_revents fds ready pd) \<noteq> {})"
  by (auto simp: ready_poll_def with_revents_def)

lemma check_poll_ready:
  assumes "ready_poll fds ready (pq_pds (polls s t))"
  shows "check_poll fds ready t s =
    on_vp (\<lambda>v. make_runnable t (leave_sleep_q t v))
      (set_poll t \<lparr>pq_pds = map (with_revents fds ready) (pq_pds (polls s t)), pq_on_ioq = False\<rparr>
        (on_vp (\<lambda>v. v\<lparr>io_q := remove1 t (io_q v)\<rparr>) (fold (leave_fd fds False) (pq_pds (polls s t)) s)))"
proof -
  let ?pds = "map (with_revents fds ready) (pq_pds (polls s t))"
  have e: "set_poll t q (on_vp f (set_poll t r z)) = set_poll t q (on_vp f z)" for q r f z
    by (simp add: set_poll_def on_vp_def)
  have q: "(polls s t)\<lparr>pq_pds := x, pq_on_ioq := b\<rparr> = \<lparr>pq_pds = x, pq_on_ioq = b\<rparr>" for x b
    by (cases "polls s t") simp
  have "\<exists>pd \<in> set ?pds. p_revents pd \<noteq> {}" using assms by (simp add: ready_revents)
  then have "check_poll fds ready t s = notify_poll fds t (set_poll t ((polls s t)\<lparr>pq_pds := ?pds\<rparr>) s)"
    unfolding check_poll_def Let_def by (rule if_P)
  then show ?thesis
    by (simp add: notify_poll_def fold_leave_set_poll fold_leave_on_vp fold_leave_revents Let_def e q)
qed

lemma check_poll_idle:
  assumes "\<not> ready_poll fds ready (pq_pds (polls s t))"
  shows "check_poll fds ready t s =
    raise_maxfd (max_fd (map (with_revents fds ready) (pq_pds (polls s t))))
      (set_poll t ((polls s t)\<lparr>pq_pds := map (with_revents fds ready) (pq_pds (polls s t))\<rparr>) s)"
proof -
  have "\<not> (\<exists>pd \<in> set (map (with_revents fds ready) (pq_pds (polls s t))). p_revents pd \<noteq> {})"
    using assms by (simp add: ready_revents)
  then show ?thesis unfolding check_poll_def Let_def by (rule if_not_P)
qed

lemma max_fd_upper: "pd \<in> set pds \<Longrightarrow> int (p_fd pd) \<le> max_fd pds"
proof -
  have m: "m \<le> fold (\<lambda>pd m. max m (int (p_fd pd))) ps m" for ps m
  proof (induction ps arbitrary: m)
    case (Cons a ps)
    show ?case using Cons [of "max m (int (p_fd a))"] by simp
  qed simp
  have "pd \<in> set pds \<Longrightarrow> int (p_fd pd) \<le> fold (\<lambda>pd m. max m (int (p_fd pd))) pds m" for m
  proof (induction pds arbitrary: m)
    case (Cons a pds)
    show ?case using Cons m [of "max m (int (p_fd a))" pds] by auto
  qed simp
  then show "pd \<in> set pds \<Longrightarrow> int (p_fd pd) \<le> max_fd pds" by (simp add: max_fd_def)
qed

lemma run_q_wake [simp]: "run_q (make_runnable t (leave_sleep_q t v)) = run_q v @ [t]"
  by (simp add: make_runnable_def ST_ADD_RUNQ_def leave_sleep_q_def st_del_sleep_q_def upd_defs Let_def
      split: option.split)

text \<open>One turn of the loop, for a request on the queue.\<close>

lemma check_poll_facts:
  "polls (check_poll fds ready t s) =
    (polls s)(t := \<lparr>pq_pds = map (with_revents fds ready) (pq_pds (polls s t)),
      pq_on_ioq = (pq_on_ioq (polls s t) \<and> \<not> ready_poll fds ready (pq_pds (polls s t)))\<rparr>)"
  "io_q (pvp (check_poll fds ready t s)) =
    (if ready_poll fds ready (pq_pds (polls s t)) then remove1 t (io_q (pvp s)) else io_q (pvp s))"
  "run_q (pvp (check_poll fds ready t s)) =
    run_q (pvp s) @ (if ready_poll fds ready (pq_pds (polls s t)) then [t] else [])"
  "maxfd s \<le> maxfd (check_poll fds ready t s)"
proof -
  note r = check_poll_ready [of fds ready s t] and n = check_poll_idle [of fds ready s t]
  have q: "(polls s t)\<lparr>pq_pds := x\<rparr> = \<lparr>pq_pds = x, pq_on_ioq = pq_on_ioq (polls s t)\<rparr>" for x
    by (cases "polls s t") simp
  show "polls (check_poll fds ready t s) =
    (polls s)(t := \<lparr>pq_pds = map (with_revents fds ready) (pq_pds (polls s t)),
      pq_on_ioq = (pq_on_ioq (polls s t) \<and> \<not> ready_poll fds ready (pq_pds (polls s t)))\<rparr>)"
    by (cases "ready_poll fds ready (pq_pds (polls s t))") (simp_all add: r n fold_leave_facts(2-4) q)
  show "io_q (pvp (check_poll fds ready t s)) =
    (if ready_poll fds ready (pq_pds (polls s t)) then remove1 t (io_q (pvp s)) else io_q (pvp s))"
    "run_q (pvp (check_poll fds ready t s)) =
    run_q (pvp s) @ (if ready_poll fds ready (pq_pds (polls s t)) then [t] else [])"
    "maxfd s \<le> maxfd (check_poll fds ready t s)"
    by (cases "ready_poll fds ready (pq_pds (polls s t))"; simp add: r n fold_leave_facts(2-4))+
qed

lemma check_poll_ok:
  assumes q: "queue_ok fds P s" and t: "t \<in> set (io_q (pvp s))" and inj: "inj fds"
  shows "queue_ok fds P (check_poll fds ready t s)"
    "\<not> ready_poll fds ready (pq_pds (polls s t)) \<Longrightarrow> covers (check_poll fds ready t s) t"
proof -
  let ?s = "check_poll fds ready t s"
  show "queue_ok fds P ?s"
  proof (cases "ready_poll fds ready (pq_pds (polls s t))")
    case True
    show ?thesis
      by (rule queue_ok_leave [OF q t inj]) (use True in \<open>simp_all add: check_poll_facts check_poll_ready fold_leave_facts(2,3)\<close>)
  next
    case False
    have c: "fd_cnts ?s = fd_cnts s" "fd_sets ?s = fd_sets s" using False by (simp_all add: check_poll_idle)
    have "total (polls ?s) (io_q (pvp s)) ev fd = total (polls s) (io_q (pvp s)) ev fd" for ev fd
      by (rule total_cong) (simp add: check_poll_facts(1) req_revents)
    then show ?thesis
      using q False c by (simp add: queue_ok_def sets_ok_def check_poll_facts(1,2))
  qed
  assume n: "\<not> ready_poll fds ready (pq_pds (polls s t))"
  then have "max_fd (map (with_revents fds ready) (pq_pds (polls s t))) \<le> maxfd ?s" by (simp add: check_poll_idle)
  moreover have "pq_pds (polls ?s t) = map (with_revents fds ready) (pq_pds (polls s t))"
    by (simp add: check_poll_facts(1))
  ultimately show "covers ?s t"
    using max_fd_upper order_trans unfolding covers_def by metis
qed

text \<open>The whole loop.\<close>

lemma covers_mono: "covers s t \<Longrightarrow> maxfd s \<le> maxfd s' \<Longrightarrow> pq_pds (polls s' t) = pq_pds (polls s t) \<Longrightarrow> covers s' t"
  by (fastforce simp: covers_def)

abbreviation rdy :: "(nat \<Rightarrow> nat) \<Rightarrow> (poll_event \<Rightarrow> nat set) \<Rightarrow> poll_vp \<Rightarrow> tid \<Rightarrow> bool" where
  "rdy fds ready s t \<equiv> ready_poll fds ready (pq_pds (polls s t))"

lemma idle_loop:
  assumes "queue_ok fds P s" and "set ts \<subseteq> set (io_q (pvp s))" and "distinct ts" and inj: "inj fds"
  shows "queue_ok fds P (fold (check_poll fds ready) ts s) \<and>
    io_q (pvp (fold (check_poll fds ready) ts s)) = filter (\<lambda>t. t \<notin> set ts \<or> \<not> rdy fds ready s t) (io_q (pvp s)) \<and>
    run_q (pvp (fold (check_poll fds ready) ts s)) = run_q (pvp s) @ filter (rdy fds ready s) ts \<and>
    maxfd s \<le> maxfd (fold (check_poll fds ready) ts s) \<and>
    (\<forall>t \<in> set ts. \<not> rdy fds ready s t \<longrightarrow> covers (fold (check_poll fds ready) ts s) t) \<and>
    (\<forall>t. polls (fold (check_poll fds ready) ts s) t =
      (if t \<in> set ts
       then \<lparr>pq_pds = map (with_revents fds ready) (pq_pds (polls s t)),
             pq_on_ioq = (pq_on_ioq (polls s t) \<and> \<not> rdy fds ready s t)\<rparr>
       else polls s t))"
  using assms(1-3)
proof (induction ts arbitrary: s)
  case (Cons t ts)
  define s1 where "s1 = check_poll fds ready t s"
  define s2 where "s2 = fold (check_poll fds ready) ts s1"
  have d: "distinct (io_q (pvp s))" "t \<in> set (io_q (pvp s))" "t \<notin> set ts" "distinct ts"
    using Cons.prems by (simp_all add: queue_ok_def)
  have s1: "queue_ok fds P s1" "\<not> rdy fds ready s t \<Longrightarrow> covers s1 t"
    using check_poll_ok [OF Cons.prems(1) d(2) inj] by (simp_all add: s1_def)
  have p1: "polls s1 u = polls s u" if "u \<noteq> t" for u using that by (simp add: s1_def check_poll_facts(1))
  have pt: "polls s1 t = \<lparr>pq_pds = map (with_revents fds ready) (pq_pds (polls s t)),
      pq_on_ioq = (pq_on_ioq (polls s t) \<and> \<not> rdy fds ready s t)\<rparr>"
    by (simp add: s1_def check_poll_facts(1))
  have i1: "io_q (pvp s1) = filter (\<lambda>u. u \<noteq> t \<or> \<not> rdy fds ready s u) (io_q (pvp s))"
    using d(1) by (auto simp: s1_def check_poll_facts(2) distinct_remove1_removeAll removeAll_filter_not_eq
        intro!: filter_cong)
  have ts: "set ts \<subseteq> set (io_q (pvp s1))"
    using Cons.prems(2) d(3) by (auto simp: i1)
  have r1: "rdy fds ready s1 u \<longleftrightarrow> rdy fds ready s u" if "u \<noteq> t" for u using p1 [OF that] by simp
  have rt: "rdy fds ready s1 u \<longleftrightarrow> rdy fds ready s u" if "u \<in> set ts" for u using r1 that d(3) by metis
  note ih = Cons.IH [OF s1(1) ts d(4), folded s2_def]
  have s2: "queue_ok fds P s2" "maxfd s1 \<le> maxfd s2"
    "io_q (pvp s2) = filter (\<lambda>u. u \<notin> set ts \<or> \<not> rdy fds ready s1 u) (io_q (pvp s1))"
    "run_q (pvp s2) = run_q (pvp s1) @ filter (rdy fds ready s1) ts"
    "\<And>u. u \<in> set ts \<Longrightarrow> \<not> rdy fds ready s1 u \<Longrightarrow> covers s2 u"
    using ih by blast+
  have p2: "polls s2 u = (if u \<in> set ts
       then \<lparr>pq_pds = map (with_revents fds ready) (pq_pds (polls s1 u)),
             pq_on_ioq = (pq_on_ioq (polls s1 u) \<and> \<not> rdy fds ready s1 u)\<rparr>
       else polls s1 u)" for u
    using ih by blast
  have "filter (rdy fds ready s1) ts = filter (rdy fds ready s) ts"
    by (intro filter_cong refl rt)
  then have "run_q (pvp s2) = run_q (pvp s) @ filter (rdy fds ready s) (t # ts)"
    using s2(4) by (simp add: s1_def check_poll_facts(3))
  moreover have "io_q (pvp s2) = filter (\<lambda>u. u \<notin> set (t # ts) \<or> \<not> rdy fds ready s u) (io_q (pvp s))"
    unfolding s2(3) i1 filter_filter using rt d(3) by (intro filter_cong) auto
  moreover have "maxfd s \<le> maxfd s2"
    using s2(2) check_poll_facts(4) [of s fds ready t] by (simp add: s1_def)
  moreover have "covers s2 u" if "u \<in> set (t # ts)" "\<not> rdy fds ready s u" for u
  proof (cases "u = t")
    case True
    then show ?thesis
      using s1(2) that(2) covers_mono [OF _ s2(2), of t] p2 [of t] d(3) by simp
  next
    case False
    then show ?thesis using s2(5) r1 [OF False] that by simp
  qed
  moreover have "polls s2 u =
      (if u \<in> set (t # ts)
       then \<lparr>pq_pds = map (with_revents fds ready) (pq_pds (polls s u)),
             pq_on_ioq = (pq_on_ioq (polls s u) \<and> \<not> rdy fds ready s u)\<rparr>
       else polls s u)" for u
    using p2 [of u] p1 [of u] pt d(3) by (cases "u = t") simp_all
  ultimately show ?case using s2(1) unfolding fold_simps s1_def [symmetric] s2_def [symmetric] by blast
qed simp

end
