(* ===== verification/PollProps.thy ===== *)
theory PollProps
  imports PollInv Run
begin

text \<open>
  The properties of polling with \<^verbatim>\<open>select\<close> (\<^verbatim>\<open>sched.c\<close>).
\<close>

section \<open>The accounting\<close>

lemma poll_init_ok: "poll_ok fds {} (poll_init v)"
  by (simp add: poll_ok_def queue_ok_def poll_init_def sets_ok_def)

lemma st_find_bad_fd_facts:
  "io_q (pvp (st_find_bad_fd s)) = io_q (pvp s) \<and> run_q (pvp (st_find_bad_fd s)) = run_q (pvp s) \<and>
   fd_cnts (st_find_bad_fd s) = fd_cnts s \<and> fd_sets (st_find_bad_fd s) = fd_sets s \<and>
   (\<forall>t. pq_on_ioq (polls (st_find_bad_fd s) t) = pq_on_ioq (polls s t) \<and>
     map (\<lambda>pd. pd\<lparr>p_revents := {}\<rparr>) (pq_pds (polls (st_find_bad_fd s) t)) =
     map (\<lambda>pd. pd\<lparr>p_revents := {}\<rparr>) (pq_pds (polls s t))) \<and>
   (\<forall>t \<in> set (io_q (pvp s)). covers (st_find_bad_fd s) t)"
proof -
  have one: "pvp (check_bad t s) = pvp s \<and> fd_cnts (check_bad t s) = fd_cnts s \<and> fd_sets (check_bad t s) = fd_sets s \<and>
      maxfd s \<le> maxfd (check_bad t s) \<and> covers (check_bad t s) t \<and>
      (\<forall>u. pq_on_ioq (polls (check_bad t s) u) = pq_on_ioq (polls s u) \<and>
        map (\<lambda>pd. pd\<lparr>p_revents := {}\<rparr>) (pq_pds (polls (check_bad t s) u)) =
        map (\<lambda>pd. pd\<lparr>p_revents := {}\<rparr>) (pq_pds (polls s u)))" for t s
  proof -
    let ?pds = "map (\<lambda>pd. pd\<lparr>p_revents := {}\<rparr>) (pq_pds (polls s t))"
    have "covers (check_bad t s) t"
      using max_fd_upper [of _ "filter (\<lambda>pd. p_events pd \<noteq> {}) ?pds"]
      by (fastforce simp: covers_def check_bad_def Let_def)
    then show ?thesis by (auto simp: check_bad_def Let_def)
  qed
  have sim: "covers s' u" if "covers s u" "maxfd s \<le> maxfd s'"
    "map (\<lambda>pd. pd\<lparr>p_revents := {}\<rparr>) (pq_pds (polls s' u)) = map (\<lambda>pd. pd\<lparr>p_revents := {}\<rparr>) (pq_pds (polls s u))"
    for s s' :: poll_vp and u
  proof -
    have c: "covers z u \<longleftrightarrow> (\<forall>pd \<in> set (map (\<lambda>pd. pd\<lparr>p_revents := {}\<rparr>) (pq_pds (polls z u))).
        p_events pd \<noteq> {} \<longrightarrow> int (p_fd pd) \<le> maxfd z)" for z
      by (simp add: covers_def)
    show ?thesis using that(1,2) unfolding c that(3) by fastforce
  qed
  define good where "good (z :: poll_vp) = (pvp z = pvp s \<and> fd_cnts z = fd_cnts s \<and> fd_sets z = fd_sets s \<and>
      (\<forall>u. pq_on_ioq (polls z u) = pq_on_ioq (polls s u) \<and>
        map (\<lambda>pd. pd\<lparr>p_revents := {}\<rparr>) (pq_pds (polls z u)) =
        map (\<lambda>pd. pd\<lparr>p_revents := {}\<rparr>) (pq_pds (polls s u))))" for z
  have loop: "good z \<Longrightarrow> good (fold check_bad ts z) \<and> maxfd z \<le> maxfd (fold check_bad ts z) \<and>
      (\<forall>t \<in> set ts. covers (fold check_bad ts z) t)" for ts z
  proof (induction ts arbitrary: z)
    case (Cons t ts)
    have g: "good (check_bad t z)" using Cons.prems one [of t z] by (simp add: good_def)
    note ih0 = Cons.IH [OF g]
    note ih = ih0 [THEN conjunct1] ih0 [THEN conjunct2, THEN conjunct1] ih0 [THEN conjunct2, THEN conjunct2]
    have "covers (fold check_bad ts (check_bad t z)) t"
      by (rule sim [of "check_bad t z"]) (use one [of t z] ih(1,2) g in \<open>simp_all add: good_def\<close>)
    then show ?case using ih one [of t z] by auto
  qed simp
  have "good (s\<lparr>maxfd := -1\<rparr>)" by (simp add: good_def)
  from loop [OF this, of "io_q (pvp s)"] show ?thesis by (auto simp: good_def st_find_bad_fd_def)
qed

lemma req_same:
  assumes "map (\<lambda>pd. pd\<lparr>p_revents := {}\<rparr>) ps = map (\<lambda>pd. pd\<lparr>p_revents := {}\<rparr>) qs"
  shows "req ps ev fd = req qs ev fd"
  using req_revents [of "\<lambda>pd. pd\<lparr>p_revents := {}\<rparr>" ps] req_revents [of "\<lambda>pd. pd\<lparr>p_revents := {}\<rparr>" qs] assms
  by simp

lemma st_find_bad_fd_ok:
  assumes "poll_ok fds P s"
  shows "poll_ok fds P (st_find_bad_fd s)"
proof -
  note f = st_find_bad_fd_facts [of s]
  have "total (polls (st_find_bad_fd s)) (io_q (pvp s)) ev fd = total (polls s) (io_q (pvp s)) ev fd" for ev fd
    by (rule total_cong, rule req_same) (use f in blast)
  then show ?thesis using assms f by (simp add: poll_ok_def queue_ok_def sets_ok_def)
qed

lemma st_poll_idle_ok:
  assumes "poll_ok fds P s" and "inj fds"
  shows "poll_ok fds P (st_poll_idle fds nfd rset err s)"
proof -
  define s0 where "s0 = on_vp (set_errno err) s"
  have s0: "poll_ok fds P s0" by (rule poll_ok_cong [OF assms(1)]) (simp_all add: s0_def)
  have q: "queue_ok fds P (s0\<lparr>maxfd := -1\<rparr>)"
    by (rule queue_ok_cong [of _ _ s0]) (use s0 in \<open>simp_all add: poll_ok_def\<close>)
  have "poll_ok fds P (fold (check_poll fds rset) (io_q (pvp s0)) (s0\<lparr>maxfd := -1\<rparr>))"
    using idle_loop [OF q _ _ assms(2), of "io_q (pvp s0)"] s0 by (auto simp: poll_ok_def queue_ok_def)
  then show ?thesis using s0 st_find_bad_fd_ok [OF s0] by (simp add: st_poll_idle_def s0_def Let_def)
qed

text \<open>The states reached by polling, resuming and idling; what the rest of the run-time does in between
  leaves the queue of polling threads alone.\<close>

inductive poll_reach :: "(nat \<Rightarrow> nat) \<Rightarrow> poll_vp \<Rightarrow> tid set \<Rightarrow> bool" for fds where
  reach_init: "poll_reach fds (poll_init v) {}"
| reach_poll: "poll_reach fds s P \<Longrightarrow> this_thread (pvp s) \<notin> P \<Longrightarrow> st_poll fds False pds timeout s = PSwitch s' \<Longrightarrow>
    poll_reach fds s' (insert (this_thread (pvp s)) P)"
| reach_resume: "poll_reach fds s P \<Longrightarrow> this_thread (pvp s) \<in> P \<Longrightarrow>
    poll_reach fds (snd (st_poll_resume fds False s)) (P - {this_thread (pvp s)})"
| reach_idle: "poll_reach fds s P \<Longrightarrow> poll_reach fds (st_poll_idle fds nfd rset err s) P"
| reach_other: "poll_reach fds s P \<Longrightarrow> io_q v = io_q (pvp s) \<Longrightarrow> poll_reach fds (s\<lparr>pvp := v\<rparr>) P"

inductive_cases poll_reach_emptyE: "poll_reach fds s {}"

lemma poll_reach_ok: "poll_reach fds s P \<Longrightarrow> inj fds \<Longrightarrow> poll_ok fds P s"
proof (induction rule: poll_reach.induct)
  case (reach_init v)
  show ?case by (rule poll_init_ok)
next
  case (reach_poll s P pds timeout s')
  show ?case by (rule st_poll_ok [OF reach_poll.IH [OF reach_poll.prems] reach_poll.hyps(2,3)])
next
  case (reach_resume s P)
  show ?case by (rule st_poll_resume_ok [OF reach_resume.IH [OF reach_resume.prems] reach_resume.hyps(2) reach_resume.prems])
next
  case (reach_idle s P nfd rset err)
  show ?case by (rule st_poll_idle_ok [OF reach_idle.IH [OF reach_idle.prems] reach_idle.prems])
next
  case (reach_other s P v)
  show ?case by (rule poll_ok_cong [OF reach_other.IH [OF reach_other.prems]]) (use reach_other.hyps in simp_all)
qed


text \<open>A thread that polls descriptor 3, from the state after \<^verbatim>\<open>st_init\<close>.\<close>

definition sample_pd :: pollfd where
  "sample_pd = \<lparr>p_fd = 3, p_events = {POLLIN}, p_revents = {}\<rparr>"

definition sample_poll :: poll_vp where
  "sample_poll = (case st_poll id False [sample_pd] ST_UTIME_NO_TIMEOUT (poll_init run0) of PSwitch s \<Rightarrow> s | PReturn n s \<Rightarrow> s)"

lemma sample_poll_switch:
  "st_poll id False [sample_pd] ST_UTIME_NO_TIMEOUT (poll_init run0) = PSwitch sample_poll"
  by (simp add: sample_poll_def st_poll_def poll_init_def run0_state Let_def del: flag_mask.simps)

lemma sample_poll_reach: "poll_reach id sample_poll {5}"
proof -
  have "this_thread (pvp (poll_init run0)) = 5" by (simp add: poll_init_def run0_state)
  then show ?thesis
    using poll_reach.reach_poll [OF poll_reach.reach_init _ sample_poll_switch] by simp
qed

lemma sample_poll_state:
  "io_q (pvp sample_poll) = [5]" "polls sample_poll 5 = \<lparr>pq_pds = [sample_pd], pq_on_ioq = True\<rparr>"
  "run_q (pvp sample_poll) = []"
  by (simp_all add: sample_poll_def st_poll_def poll_init_def run0_state Let_def fold_enter_facts enter_fd_facts
      switch_context_def st_vp_schedule_def upd_defs del: flag_mask.simps)


section \<open>Waking\<close>

lemma idle_select_result:
  assumes "poll_reach fds s P" and "inj fds" and "nfd > 0"
  shows "run_q (pvp (st_poll_idle fds nfd rset err s)) = run_q (pvp s) @ filter (rdy fds rset s) (io_q (pvp s)) \<and>
    io_q (pvp (st_poll_idle fds nfd rset err s)) = filter (\<lambda>t. \<not> rdy fds rset s t) (io_q (pvp s)) \<and>
    (\<forall>t \<in> set (io_q (pvp s)). polls (st_poll_idle fds nfd rset err s) t =
      \<lparr>pq_pds = map (with_revents fds rset) (pq_pds (polls s t)),
       pq_on_ioq = (pq_on_ioq (polls s t) \<and> \<not> rdy fds rset s t)\<rparr>)"
proof -
  define s0 where "s0 = (on_vp (set_errno err) s)\<lparr>maxfd := -1\<rparr>"
  have ok: "poll_ok fds P s" by (rule poll_reach_ok [OF assms(1,2)])
  have e: "io_q (pvp s0) = io_q (pvp s)" "polls s0 = polls s" "run_q (pvp s0) = run_q (pvp s)"
    by (simp_all add: s0_def set_errno_def)
  have q: "queue_ok fds P s0"
    by (rule queue_ok_cong [of _ _ s]) (use ok in \<open>simp_all add: poll_ok_def s0_def\<close>)
  have d: "distinct (io_q (pvp s))" using ok by (simp add: poll_ok_def queue_ok_def)
  have r: "st_poll_idle fds nfd rset err s = fold (check_poll fds rset) (io_q (pvp s)) s0"
    using assms(3) by (simp add: st_poll_idle_def s0_def Let_def)
  note l = idle_loop [OF q _ d assms(2), of rset, unfolded e, OF order_refl]
  have "filter (\<lambda>t. t \<notin> set (io_q (pvp s)) \<or> \<not> rdy fds rset s t) (io_q (pvp s)) =
      filter (\<lambda>t. \<not> rdy fds rset s t) (io_q (pvp s))"
    by (rule filter_cong) simp_all
  then show ?thesis unfolding r using l by simp
qed

text \<open>A successful \<^verbatim>\<open>select\<close> wakes exactly the threads with a descriptor that is ready for what they asked,
  in the order in which they polled, behind the runnable threads; the others stay on the queue.  A
  thread that was woken, when it runs, returns the number of its descriptors that are ready.\<close>

theorem poll_wakes_ready:
  assumes "poll_reach fds s P" and "inj fds" and "nfd > 0"
    and "s' = st_poll_idle fds nfd rset err s"
  shows "run_q (pvp s') = run_q (pvp s) @ filter (\<lambda>t. ready_poll fds rset (pq_pds (polls s t))) (io_q (pvp s)) \<and>
    io_q (pvp s') = filter (\<lambda>t. \<not> ready_poll fds rset (pq_pds (polls s t))) (io_q (pvp s)) \<and>
    (\<forall>t \<in> set (io_q (pvp s)). ready_poll fds rset (pq_pds (polls s t)) \<longrightarrow>
      (\<forall>w os. this_thread (pvp w) = t \<longrightarrow> polls w t = polls s' t \<longrightarrow> \<not> has_flag (flags_of (pvp w) t) FL_INTERRUPT \<longrightarrow>
        fst (st_poll_resume fds os w) =
          int (length (filter (\<lambda>pd. \<exists>ev \<in> p_events pd. fds (p_fd pd) \<in> rset ev) (pq_pds (polls s t)))) \<and>
        0 < fst (st_poll_resume fds os w)))"
proof -
  note l = idle_select_result [OF assms(1-3), of rset err, folded assms(4)]
  have n: "filter ((\<lambda>pd. p_revents pd \<noteq> {}) \<circ> with_revents fds rset) pds =
      filter (\<lambda>pd. \<exists>ev \<in> p_events pd. fds (p_fd pd) \<in> rset ev) pds" for pds
    by (rule filter_cong) (auto simp: with_revents_def)
  have pos: "0 < length (filter (\<lambda>pd. \<exists>ev \<in> p_events pd. fds (p_fd pd) \<in> rset ev) pds)"
    if "ready_poll fds rset pds" for pds
    using that by (auto simp: ready_poll_def filter_empty_conv)
  have "fst (st_poll_resume fds os w) =
        int (length (filter (\<lambda>pd. \<exists>ev \<in> p_events pd. fds (p_fd pd) \<in> rset ev) (pq_pds (polls s t))))"
    if "t \<in> set (io_q (pvp s))" "ready_poll fds rset (pq_pds (polls s t))" "this_thread (pvp w) = t"
      "polls w t = polls s' t" "\<not> has_flag (flags_of (pvp w) t) FL_INTERRUPT" for t w os
  proof -
    have "polls w t = \<lparr>pq_pds = map (with_revents fds rset) (pq_pds (polls s t)), pq_on_ioq = False\<rparr>"
      using l that(1,2,4) by simp
    then show ?thesis using that(3,5) by (simp add: st_poll_resume_def n Let_def)
  qed
  then show ?thesis using l pos by simp
qed

theorem poll_wakes_ready_witness:
  "\<exists>s'. run_q (pvp s') = [5] \<and> io_q (pvp s') = [] \<and> s' = st_poll_idle id 1 (\<lambda>ev. {3, 4}) 0 sample_poll"
proof -
  have "ready_poll id (\<lambda>ev. {3, 4}) (pq_pds (polls sample_poll 5))"
    by (simp add: ready_poll_def sample_poll_state sample_pd_def)
  then show ?thesis
    using poll_wakes_ready [OF sample_poll_reach inj_on_id, of 1 _ "\<lambda>ev. {3, 4}" 0]
    by (simp add: sample_poll_state)
qed

text \<open>A bad descriptor stops the server.  When \<^verbatim>\<open>select\<close> fails, whatever the reason, no thread is woken and
  no request is taken back: the next call gets the same sets, and fails in the same way.\<close>

theorem poll_bad_fd_stuck:
  assumes "nfd < 0"
  shows "run_q (pvp (st_poll_idle fds nfd rset err s)) = run_q (pvp s) \<and>
    io_q (pvp (st_poll_idle fds nfd rset err s)) = io_q (pvp s) \<and>
    fd_sets (st_poll_idle fds nfd rset err s) = fd_sets s \<and> fd_cnts (st_poll_idle fds nfd rset err s) = fd_cnts s"
  using assms st_find_bad_fd_facts [of "on_vp (set_errno err) s"]
  by (auto simp: st_poll_idle_def Let_def set_errno_def)

theorem poll_bad_fd_stuck_witness:
  "run_q (pvp (st_poll_idle id (-1) (\<lambda>ev. {}) EBADF sample_poll)) = [] \<and>
   io_q (pvp (st_poll_idle id (-1) (\<lambda>ev. {}) EBADF sample_poll)) = [5]"
  using poll_bad_fd_stuck [of "-1" id "\<lambda>ev. {}" EBADF sample_poll] by (simp add: sample_poll_state)

end
