(* ===== verification/UnixIo.thy ===== *)
theory UnixIo
  imports Io
begin

text \<open>
  Descriptors and I/O with non-blocking system calls (\<^verbatim>\<open>io.c\<close>).  A call is tried, and while it is not ready
  the thread polls.  The results of the system calls and of \<^verbatim>\<open>st_netfd_poll\<close> to come are lists; \<open>None\<close>
  stands for a call that still waits when the lists are used up.
\<close>

section \<open>Descriptors\<close>

record unix_io =
  u_fds :: "ptr \<Rightarrow> st_netfd"
  u_freelist :: ptr
  u_pairs :: "ptr \<Rightarrow> ptr \<times> ptr"
  u_log :: "(ptr \<times> ptr) list"
  u_closed :: "int list"
  u_errno :: int

definition u_upd :: "ptr \<Rightarrow> (st_netfd \<Rightarrow> st_netfd) \<Rightarrow> unix_io \<Rightarrow> unix_io" where
  "u_upd p f s = s\<lparr>u_fds := (u_fds s)(p := f (u_fds s p))\<rparr>"

definition u_destroy :: "ptr \<Rightarrow> unix_io \<Rightarrow> unix_io" where
  "u_destroy fd s =
     (if nf_private (u_fds s fd) \<noteq> 0 \<and> nf_destructor (u_fds s fd) \<noteq> 0
      then s\<lparr>u_log := u_log s @ [(nf_destructor (u_fds s fd), nf_private (u_fds s fd))]\<rparr> else s)"

definition u_close_osfd :: "ptr \<Rightarrow> unix_io \<Rightarrow> unix_io" where
  "u_close_osfd fd s = s\<lparr>u_closed := u_closed s @ [nf_osfd (u_fds s fd)]\<rparr>"

text \<open>\<^verbatim>\<open>_st_netfd_free_aux_data\<close>: the two ends of the pipe of a serialised socket are closed; \<open>free\<close> is
  \<^verbatim>\<open>st_netfd_free\<close>.\<close>

definition u_free_aux_data ::
  "(ptr \<Rightarrow> unix_io \<Rightarrow> unix_io option) \<Rightarrow> ptr \<Rightarrow> unix_io \<Rightarrow> unix_io option" where
  "u_free_aux_data free fd s =
     (let (p0, p1) = u_pairs s (nf_aux (u_fds s fd)) in
      case free p0 s of
        None \<Rightarrow> None
      | Some w \<Rightarrow>
          (case free p1 (u_close_osfd p0 w) of
             None \<Rightarrow> None
           | Some w' \<Rightarrow> Some (u_upd fd (\<lambda>r. r\<lparr>nf_aux := 0\<rparr>) (u_close_osfd p1 w'))))"

text \<open>\<^verbatim>\<open>st_netfd_free\<close>.  Freeing the pipe of a serialised socket frees descriptors again; the number bounds the
  nesting.\<close>

primrec u_netfd_free :: "nat \<Rightarrow> ptr \<Rightarrow> unix_io \<Rightarrow> unix_io option" where
  "u_netfd_free 0 = (\<lambda>fd s. None)"
| "u_netfd_free (Suc k) = (\<lambda>fd s.
     if nf_inuse (u_fds s fd) = 0 then Some s
     else let s1 = u_upd fd (\<lambda>r. r\<lparr>nf_inuse := 0\<rparr>) s in
          case (if nf_aux (u_fds s1 fd) = 0 then Some s1 else u_free_aux_data (u_netfd_free k) fd s1) of
            None \<Rightarrow> None
          | Some w \<Rightarrow>
              Some ((u_upd fd (\<lambda>r. r\<lparr>nf_private := 0, nf_destructor := 0, nf_next := u_freelist w\<rparr>) (u_destroy fd w))
                      \<lparr>u_freelist := fd\<rparr>))"

definition u_netfd_close :: "nat \<Rightarrow> ptr \<Rightarrow> unix_io \<Rightarrow> unix_io option" where
  "u_netfd_close k fd s = map_option (u_close_osfd fd) (u_netfd_free k fd s)"

text \<open>\<^verbatim>\<open>FD_SETSIZE\<close> of Unix.\<close>

definition FD_SETSIZE :: int where "FD_SETSIZE = 1024"

definition ENOMEM :: int where "ENOMEM = 12"

text \<open>\<^verbatim>\<open>_st_netfd_new\<close>: the address \<^verbatim>\<open>calloc\<close> gives, whether \<^verbatim>\<open>ioctl\<close> succeeds, and the error of \<^verbatim>\<open>fcntl\<close>, if any.
  The result 0 is the null pointer.\<close>

definition u_netfd_new ::
  "int \<Rightarrow> bool \<Rightarrow> bool \<Rightarrow> ptr option \<Rightarrow> bool \<Rightarrow> int option \<Rightarrow> unix_io \<Rightarrow> (ptr \<times> unix_io) option" where
  "u_netfd_new osfd nonblock is_socket mem ioctl_ok fcntl_err s =
     (if osfd \<ge> FD_SETSIZE then Some (0, s\<lparr>u_errno := EMFILE\<rparr>)
      else case (if u_freelist s \<noteq> 0
                 then Some (u_freelist s, s\<lparr>u_freelist := nf_next (u_fds s (u_freelist s))\<rparr>)
                 else map_option (\<lambda>p. (p, u_upd p (\<lambda>_. zero_netfd) s)) mem) of
             None \<Rightarrow> Some (0, s\<lparr>u_errno := ENOMEM\<rparr>)
           | Some (fd, s1) \<Rightarrow>
               (let s2 = u_upd fd (\<lambda>r. r\<lparr>nf_osfd := osfd, nf_inuse := 1, nf_next := 0\<rparr>) s1
                in if \<not> nonblock \<or> is_socket \<and> ioctl_ok then Some (fd, s2)
                   else case fcntl_err of
                          None \<Rightarrow> Some (fd, s2)
                        | Some e \<Rightarrow> map_option (Pair 0) (u_netfd_free 2 fd (s2\<lparr>u_errno := e\<rparr>))))"

definition u_netfd_open :: "int \<Rightarrow> ptr option \<Rightarrow> int option \<Rightarrow> unix_io \<Rightarrow> (ptr \<times> unix_io) option" where
  "u_netfd_open osfd mem fcntl_err s = u_netfd_new osfd True False mem False fcntl_err s"

definition u_netfd_open_socket ::
  "int \<Rightarrow> ptr option \<Rightarrow> bool \<Rightarrow> int option \<Rightarrow> unix_io \<Rightarrow> (ptr \<times> unix_io) option" where
  "u_netfd_open_socket osfd mem ioctl_ok fcntl_err s = u_netfd_new osfd True True mem ioctl_ok fcntl_err s"

definition u_netfd_fileno :: "ptr \<Rightarrow> unix_io \<Rightarrow> int" where
  "u_netfd_fileno fd s = nf_osfd (u_fds s fd)"

definition u_netfd_setspecific :: "ptr \<Rightarrow> ptr \<Rightarrow> ptr \<Rightarrow> unix_io \<Rightarrow> unix_io" where
  "u_netfd_setspecific fd x dtor s =
     u_upd fd (\<lambda>r. r\<lparr>nf_private := x, nf_destructor := dtor\<rparr>)
       (if x \<noteq> nf_private (u_fds s fd) then u_destroy fd s else s)"

definition u_netfd_getspecific :: "ptr \<Rightarrow> unix_io \<Rightarrow> ptr" where
  "u_netfd_getspecific fd s = nf_private (u_fds s fd)"

text \<open>\<^verbatim>\<open>st_netfd_serialize_accept\<close>: the memory for the pair, the pipe or its error, the memory and the error of
  \<^verbatim>\<open>fcntl\<close> for each end, and the error of the write that puts the lock into the pipe.\<close>

definition u_free_if :: "ptr \<Rightarrow> unix_io \<Rightarrow> unix_io option" where
  "u_free_if fd s = (if fd = 0 then Some s else u_netfd_free 2 fd s)"

definition u_serialize_accept ::
  "ptr \<Rightarrow> ptr option \<Rightarrow> int + int \<times> int \<Rightarrow> ptr option \<times> int option \<Rightarrow> ptr option \<times> int option \<Rightarrow> int option \<Rightarrow>
     unix_io \<Rightarrow> (int \<times> unix_io) option" where
  "u_serialize_accept fd pair pipe end0 end1 write_err s =
     (if nf_aux (u_fds s fd) \<noteq> 0 then Some (-1, s\<lparr>u_errno := EINVAL\<rparr>)
      else case pair of
             None \<Rightarrow> Some (-1, s\<lparr>u_errno := ENOMEM\<rparr>)
           | Some p \<Rightarrow>
               (case pipe of
                  Inl e \<Rightarrow> Some (-1, s\<lparr>u_errno := e\<rparr>)
                | Inr (o0, o1) \<Rightarrow>
                    (case u_netfd_open o0 (fst end0) (snd end0) s of
                       None \<Rightarrow> None
                     | Some (p0, s0) \<Rightarrow>
                         (case (if p0 = 0 then Some (0, s0) else u_netfd_open o1 (fst end1) (snd end1) s0) of
                            None \<Rightarrow> None
                          | Some (p1, s1) \<Rightarrow>
                              if p1 \<noteq> 0 \<and> write_err = None
                              then Some (0, u_upd fd (\<lambda>r. r\<lparr>nf_aux := p\<rparr>) (s1\<lparr>u_pairs := (u_pairs s1)(p := (p0, p1))\<rparr>))
                              else let err = (if p1 \<noteq> 0 then the write_err else u_errno s1) in
                                   map_option (\<lambda>w. (-1, w\<lparr>u_closed := u_closed w @ [o0, o1], u_errno := err\<rparr>))
                                     (Option.bind (u_free_if p0 s1) (u_free_if p1))))))"

text \<open>\<^verbatim>\<open>_st_io_init\<close>: whether \<^verbatim>\<open>sigaction\<close>, \<^verbatim>\<open>getrlimit\<close> and \<^verbatim>\<open>setrlimit\<close> succeed, and the hard limit; the result
  and \<^verbatim>\<open>_st_osfd_limit\<close>, which is \<open>-1\<close> before.\<close>

definition u_io_init :: "bool \<Rightarrow> int option \<Rightarrow> bool \<Rightarrow> int \<times> int" where
  "u_io_init sigaction_ok rlim_max setrlimit_ok =
     (if \<not> sigaction_ok then (-1, -1)
      else case rlim_max of
             None \<Rightarrow> (-1, -1)
           | Some m \<Rightarrow> if setrlimit_ok then (0, min m FD_SETSIZE) else (-1, -1))"

section \<open>Waiting\<close>

text \<open>\<^verbatim>\<open>st_netfd_poll\<close>: what \<^verbatim>\<open>st_poll\<close> returned, its error, and whether the event is \<^verbatim>\<open>POLLNVAL\<close>; the result is the
  error, if any.\<close>

definition u_netfd_poll :: "int \<Rightarrow> int \<Rightarrow> bool \<Rightarrow> int option" where
  "u_netfd_poll n err nval = (if n < 0 then Some err else if n = 0 then Some ETIME else if nval then Some EBADF else None)"

text \<open>A system call gives a value or an error; a poll gives no error or one.  A call that gives a value
  returns it; \<open>\<^verbatim>\<open>EINTR\<close>\<close> tries again; not ready polls first.\<close>

type_synonym 'a sys = "int + 'a"

fun retry_loop :: "'a sys list \<Rightarrow> int option list \<Rightarrow> ('a sys \<times> 'a sys list \<times> int option list) option" where
  "retry_loop [] ps = None"
| "retry_loop (Inr x # rs) ps = Some (Inr x, rs, ps)"
| "retry_loop (Inl e # rs) ps =
     (if e = EINTR then retry_loop rs ps
      else if e \<noteq> EAGAIN then Some (Inl e, rs, ps)
      else case ps of
             [] \<Rightarrow> None
           | Some e' # ps' \<Rightarrow> Some (Inl e', rs, ps')
           | None # ps' \<Rightarrow> retry_loop rs ps')"

text \<open>\<^verbatim>\<open>st_read\<close>, \<^verbatim>\<open>st_recvfrom\<close>, \<^verbatim>\<open>st_sendto\<close> and the unserialised \<^verbatim>\<open>st_accept\<close> up to the new descriptor.\<close>

definition u_read :: "nat \<Rightarrow> 'a list sys list \<Rightarrow> int option list \<Rightarrow> 'a list sys option" where
  "u_read nbyte rs ps = map_option (\<lambda>(r, _). map_sum id (take nbyte) r) (retry_loop rs ps)"

definition u_recvfrom :: "nat \<Rightarrow> 'a list sys list \<Rightarrow> int option list \<Rightarrow> 'a list sys option" where
  "u_recvfrom len rs ps = map_option (\<lambda>(r, _). map_sum id (take len) r) (retry_loop rs ps)"

definition u_sendto :: "nat sys list \<Rightarrow> int option list \<Rightarrow> nat sys option" where
  "u_sendto rs ps = map_option fst (retry_loop rs ps)"

definition u_accept :: "int sys list \<Rightarrow> int option list \<Rightarrow> int sys option" where
  "u_accept rs ps = map_option fst (retry_loop rs ps)"

text \<open>\<^verbatim>\<open>st_accept\<close> of a serialised socket: each try holds the lock, a byte in the pipe; \<open>ls\<close> are the results
  of \<^verbatim>\<open>st_read\<close> on the pipe.  The write that gives the lock back does not change the error.\<close>

fun u_accept_serialized :: "int option list \<Rightarrow> int sys list \<Rightarrow> int option list \<Rightarrow> int sys option" where
  "u_accept_serialized (None # ls) (Inr osfd # rs) ps = Some (Inr osfd)"
| "u_accept_serialized (Some e # ls) rs ps = Some (Inl e)"
| "u_accept_serialized (None # ls) (Inl e # rs) ps =
     (if e = EINTR then u_accept_serialized ls rs ps
      else if e \<noteq> EAGAIN then Some (Inl e)
      else case ps of
             [] \<Rightarrow> None
           | Some e' # ps' \<Rightarrow> Some (Inl e')
           | None # ps' \<Rightarrow> u_accept_serialized ls rs ps')"
| "u_accept_serialized ls rs ps = None"

text \<open>The end of \<^verbatim>\<open>st_accept\<close> and \<^verbatim>\<open>st_open\<close>: a socket that gets no descriptor is closed.\<close>

definition u_wrap_osfd ::
  "bool \<Rightarrow> bool \<Rightarrow> int \<Rightarrow> ptr option \<Rightarrow> bool \<Rightarrow> int option \<Rightarrow> unix_io \<Rightarrow> (ptr \<times> unix_io) option" where
  "u_wrap_osfd nonblock is_socket osfd mem ioctl_ok fcntl_err s =
     (case u_netfd_new osfd nonblock is_socket mem ioctl_ok fcntl_err s of
        None \<Rightarrow> None
      | Some (fd, s1) \<Rightarrow> Some (fd, if fd = 0 then s1\<lparr>u_closed := u_closed s1 @ [osfd]\<rparr> else s1))"

text \<open>\<^verbatim>\<open>open\<close> in \<^verbatim>\<open>st_open\<close> is tried again only when it was interrupted.\<close>

fun u_open :: "int sys list \<Rightarrow> int sys option" where
  "u_open [] = None"
| "u_open (Inr osfd # rs) = Some (Inr osfd)"
| "u_open (Inl e # rs) = (if e \<noteq> EINTR then Some (Inl e) else u_open rs)"

definition EINPROGRESS :: int where "EINPROGRESS = 115"

text \<open>\<^verbatim>\<open>st_connect\<close>: the results of \<^verbatim>\<open>connect\<close> and of the poll, and what \<^verbatim>\<open>getsockopt\<close> gives.  \<open>again\<close> is set once a
  try was interrupted: then an address in use means that the first try goes on.\<close>

fun u_connect :: "bool \<Rightarrow> int option list \<Rightarrow> int option list \<Rightarrow> int sys \<Rightarrow> unit sys option" where
  "u_connect again [] ps so = None"
| "u_connect again (None # rs) ps so = Some (Inr ())"
| "u_connect again (Some e # rs) ps so =
     (if e = EINTR then u_connect True rs ps so
      else if e \<noteq> EINPROGRESS \<and> (e \<noteq> EADDRINUSE \<or> \<not> again) then Some (Inl e)
      else case ps of
             [] \<Rightarrow> None
           | Some e' # ps' \<Rightarrow> Some (Inl e')
           | None # ps' \<Rightarrow>
               (case so of
                  Inl e' \<Rightarrow> Some (Inl e')
                | Inr err \<Rightarrow> if err = 0 then Some (Inr ()) else Some (Inl err)))"

section \<open>Reading a buffer\<close>

text \<open>The loop of \<^verbatim>\<open>st_read_fully\<close>: the value returned or the error, and the bytes stored.\<close>

fun u_read_loop :: "nat \<Rightarrow> nat \<Rightarrow> 'a list \<Rightarrow> 'a list sys list \<Rightarrow> int option list \<Rightarrow> (int sys \<times> 'a list) option" where
  "u_read_loop nbyte nleft buf rs ps =
     (if nleft = 0 then Some (Inr (int nbyte - int nleft), buf)
      else case rs of
             [] \<Rightarrow> None
           | Inl e # rs' \<Rightarrow>
               (if e = EINTR then u_read_loop nbyte nleft buf rs' ps
                else if e \<noteq> EAGAIN then Some (Inl e, buf)
                else case ps of
                       [] \<Rightarrow> None
                     | Some e' # ps' \<Rightarrow> Some (Inl e', buf)
                     | None # ps' \<Rightarrow> u_read_loop nbyte nleft buf rs' ps')
           | Inr ys # rs' \<Rightarrow>
               (let xs = take nleft ys; nleft' = nleft - length xs; buf' = buf @ xs in
                if nleft' = 0 \<or> xs = [] then Some (Inr (int nbyte - int nleft'), buf')
                else case ps of
                       [] \<Rightarrow> None
                     | Some e' # ps' \<Rightarrow> Some (Inl e', buf')
                     | None # ps' \<Rightarrow> u_read_loop nbyte nleft' buf' rs' ps'))"

declare u_read_loop.simps [simp del]

definition u_read_fully :: "nat \<Rightarrow> 'a list sys list \<Rightarrow> int option list \<Rightarrow> (int sys \<times> 'a list) option" where
  "u_read_fully nbyte rs ps = u_read_loop nbyte nbyte [] rs ps"

section \<open>Writing\<close>

text \<open>What a try to write \<open>len\<close> bytes leads to; the system never writes more than it was given.\<close>

datatype write_turn = Try_Again | Written | Give_Up int | Not_Ready | Partial nat

definition write_turn :: "nat \<Rightarrow> nat sys \<Rightarrow> write_turn" where
  "write_turn len r =
     (case r of
        Inl e \<Rightarrow> if e = EINTR then Try_Again else if e \<noteq> EAGAIN then Give_Up e else Not_Ready
      | Inr k \<Rightarrow> if min k len = len then Written else Partial (min k len))"

text \<open>The loop of \<^verbatim>\<open>st_write\<close>: \<open>data\<close> are the bytes left, \<open>out\<close> those written.  The result is the error, if any,
  the bytes written, and the results of the system not used.\<close>

type_synonym ('e, 'a) written = "('e \<times> 'a list \<times> nat sys list \<times> int option list) option"

fun write_loop :: "'a list \<Rightarrow> 'a list \<Rightarrow> nat sys list \<Rightarrow> int option list \<Rightarrow> (int option, 'a) written" where
  "write_loop data out rs ps =
     (if data = [] then Some (None, out, rs, ps)
      else case rs of
             [] \<Rightarrow> None
           | r # rs' \<Rightarrow>
               (case write_turn (length data) r of
                  Try_Again \<Rightarrow> write_loop data out rs' ps
                | Give_Up e \<Rightarrow> Some (Some e, out, rs', ps)
                | Written \<Rightarrow> Some (None, out @ data, rs', ps)
                | Not_Ready \<Rightarrow>
                    (case ps of
                       [] \<Rightarrow> None
                     | Some e # ps' \<Rightarrow> Some (Some e, out, rs', ps')
                     | None # ps' \<Rightarrow> write_loop data out rs' ps')
                | Partial n \<Rightarrow>
                    (case ps of
                       [] \<Rightarrow> None
                     | Some e # ps' \<Rightarrow> Some (Some e, out @ take n data, rs', ps')
                     | None # ps' \<Rightarrow> write_loop (drop n data) (out @ take n data) rs' ps')))"

declare write_loop.simps [simp del]

text \<open>The value returned: the number of bytes asked for, or the error.\<close>

definition all_or_error :: "nat \<Rightarrow> int option \<times> 'x \<Rightarrow> int sys \<times> 'x" where
  "all_or_error nbyte r = (case r of (None, x) \<Rightarrow> (Inr (int nbyte), x) | (Some e, x) \<Rightarrow> (Inl e, x))"

definition u_write :: "'a list \<Rightarrow> nat sys list \<Rightarrow> int option list \<Rightarrow> (int sys, 'a) written" where
  "u_write buf rs ps = map_option (all_or_error (length buf)) (write_loop buf [] rs ps)"

text \<open>The next unwritten vector of \<^verbatim>\<open>st_writev\<close>, when \<open>n\<close> bytes of all were written; \<open>None\<close>: past the end of the
  array.\<close>

fun skip_vectors :: "'a list list \<Rightarrow> nat \<Rightarrow> 'a list list option" where
  "skip_vectors [] n = None"
| "skip_vectors (v # vs) n = (if length v \<le> n then skip_vectors vs (n - length v) else Some (drop n v # vs))"

text \<open>\<^verbatim>\<open>_LOCAL_MAXIOV\<close>: more vectors go to memory of \<^verbatim>\<open>calloc\<close>, if it has any.\<close>

definition LOCAL_MAXIOV :: nat where "LOCAL_MAXIOV = 16"

text \<open>The loop of \<^verbatim>\<open>st_writev\<close>: \<open>tmp\<close> is \<^verbatim>\<open>tmp_iov\<close>, which \<open>copied\<close> tells from the caller's vectors.  An index past the
  array is left open (\<open>None\<close>); it does not happen.\<close>

fun writev_loop ::
  "bool \<Rightarrow> 'a list list \<Rightarrow> 'a list list \<Rightarrow> bool \<Rightarrow> nat \<Rightarrow> 'a list \<Rightarrow> nat sys list \<Rightarrow> int option list \<Rightarrow>
     (int option, 'a) written" where
  "writev_loop calloc_ok iov tmp copied nleft out rs ps =
     (if nleft = 0 then Some (None, out, rs, ps)
      else if length tmp = 1
      then map_option (\<lambda>(e, out', x). (e, out @ out', x)) (write_loop (take nleft (hd tmp)) [] rs ps)
      else case rs of
             [] \<Rightarrow> None
           | r # rs' \<Rightarrow>
               (case write_turn nleft r of
                  Try_Again \<Rightarrow> writev_loop calloc_ok iov tmp copied nleft out rs' ps
                | Give_Up e \<Rightarrow> Some (Some e, out, rs', ps)
                | Written \<Rightarrow> Some (None, out @ take nleft (concat tmp), rs', ps)
                | Not_Ready \<Rightarrow>
                    (case ps of
                       [] \<Rightarrow> None
                     | Some e # ps' \<Rightarrow> Some (Some e, out, rs', ps')
                     | None # ps' \<Rightarrow> writev_loop calloc_ok iov tmp copied nleft out rs' ps')
                | Partial n \<Rightarrow>
                    (let nleft' = nleft - n; out' = out @ take n (concat tmp) in
                     case skip_vectors iov (length (concat iov) - nleft') of
                       None \<Rightarrow> None
                     | Some tmp' \<Rightarrow>
                         if \<not> copied \<and> LOCAL_MAXIOV < length tmp' \<and> \<not> calloc_ok
                         then Some (Some ENOMEM, out', rs', ps)
                         else case ps of
                                [] \<Rightarrow> None
                              | Some e # ps' \<Rightarrow> Some (Some e, out', rs', ps')
                              | None # ps' \<Rightarrow> writev_loop calloc_ok iov tmp' True nleft' out' rs' ps')))"

declare writev_loop.simps [simp del]

definition u_writev :: "bool \<Rightarrow> 'a list list \<Rightarrow> nat sys list \<Rightarrow> int option list \<Rightarrow> (int sys, 'a) written" where
  "u_writev calloc_ok iov rs ps =
     map_option (all_or_error (length (concat iov)))
       (writev_loop calloc_ok iov iov False (length (concat iov)) [] rs ps)"

end
