(* ===== verification/UnixProps.thy ===== *)
theory UnixProps
  imports UnixIo "HOL-Library.Sublist"
begin

text \<open>
  The properties of the I/O calls over non-blocking system calls (\<^verbatim>\<open>io.c\<close>).
\<close>

section \<open>Writing\<close>

lemma write_turn_partial: "write_turn len r = Partial n \<Longrightarrow> n < len"
  by (auto simp: write_turn_def min_def split: sum.splits if_splits)

text \<open>What \<^verbatim>\<open>st_write\<close> wrote before does not matter to it.\<close>

lemma write_loop_shift:
  "write_loop data (pre @ out) rs ps =
    map_option (\<lambda>(r, o', x). (r, pre @ o', x)) (write_loop data out rs ps)"
proof (induction data out rs ps rule: write_loop.induct)
  case (1 data out rs ps)
  show ?case
    by (subst (1 2) write_loop.simps)
      (use 1 in \<open>auto split: list.split write_turn.split option.split\<close>)
qed

lemma write_loop_result:
  "write_loop data out rs ps = Some (r, res, x) \<Longrightarrow> \<exists>k. res = out @ take k data \<and> (r = None \<longrightarrow> take k data = data)"
proof (induction rs arbitrary: data out ps)
  case (Cons t rs)
  show ?case
  proof (cases "data = []")
    case False
    show ?thesis
    proof (cases "write_turn (length data) t")
      case (Partial n)
      then obtain e ps' where ps: "ps = e # ps'"
        using Cons.prems False by (subst (asm) write_loop.simps) (auto split: list.splits)
      show ?thesis
      proof (cases e)
        case None
        have "write_loop (drop n data) (out @ take n data) rs ps' = Some (r, res, x)"
          using Cons.prems False Partial ps None by (subst (asm) write_loop.simps) simp
        then obtain k where k: "res = (out @ take n data) @ take k (drop n data)"
          "r = None \<longrightarrow> take k (drop n data) = drop n data"
          using Cons.IH by blast
        have "take n data @ take k (drop n data) = take (n + k) data" by (simp add: take_add)
        then show ?thesis using k by (metis append.assoc append_take_drop_id)
      next
        case (Some e')
        then have "res = out @ take n data" "r = Some e'"
          using Cons.prems False Partial ps by (subst (asm) write_loop.simps; simp)+
        then show ?thesis by blast
      qed
    next
      case (Give_Up e)
      then have "res = out @ take 0 data" "r = Some e"
        using Cons.prems False by (subst (asm) write_loop.simps; simp)+
      then show ?thesis by blast
    next
      case Written
      then have "res = out @ take (length data) data" "r = None"
        using Cons.prems False by (subst (asm) write_loop.simps; simp)+
      then show ?thesis by (intro exI [of _ "length data"]) simp
    next
      case Try_Again
      have "write_loop data out rs ps = Some (r, res, x)"
        using Cons.prems False Try_Again by (subst (asm) write_loop.simps) simp
      then show ?thesis by (rule Cons.IH)
    next
      case Not_Ready
      then obtain e ps' where ps: "ps = e # ps'"
        using Cons.prems False by (subst (asm) write_loop.simps) (auto split: list.splits)
      show ?thesis
      proof (cases e)
        case None
        have "write_loop data out rs ps' = Some (r, res, x)"
          using Cons.prems False Not_Ready ps None by (subst (asm) write_loop.simps) simp
        then show ?thesis by (rule Cons.IH)
      next
        case (Some e')
        then have "res = out @ take 0 data" "r = Some e'"
          using Cons.prems False Not_Ready ps by (subst (asm) write_loop.simps; simp)+
        then show ?thesis by blast
      qed
    qed
  qed (use Cons.prems in \<open>subst (asm) write_loop.simps, simp\<close>)
qed (subst (asm) write_loop.simps, auto split: if_splits)

lemma skip_vectors_drop:
  "n < length (concat iov) \<Longrightarrow>
    \<exists>tmp. skip_vectors iov n = Some tmp \<and> concat tmp = drop n (concat iov) \<and> length tmp \<le> length iov"
proof (induction iov n rule: skip_vectors.induct)
  case (2 v vs n)
  show ?case
  proof (cases "length v \<le> n")
    case True
    have "n - length v < length (concat vs)" using "2.prems" True by simp
    then obtain tmp where "skip_vectors vs (n - length v) = Some tmp" "concat tmp = drop (n - length v) (concat vs)"
      "length tmp \<le> length vs"
      using "2.IH" [OF True] by blast
    then show ?thesis using True by simp
  qed simp
qed simp

lemma write_loop_out: "map_option (\<lambda>(e, o', x). (e, out @ o', x)) (write_loop data [] rs ps) = write_loop data out rs ps"
  using write_loop_shift [of data out "[]" rs ps] by simp

lemma writev_loop_eq:
  assumes "calloc_ok \<or> length iov \<le> LOCAL_MAXIOV"
    and "nleft = length (concat tmp)" and "concat tmp = drop (length (concat iov) - nleft) (concat iov)"
  shows "writev_loop calloc_ok iov tmp copied nleft out rs ps = write_loop (concat tmp) out rs ps"
  using assms(2,3)
proof (induction rs arbitrary: tmp copied nleft out ps)
  case (Cons r rs)
  let ?N = "length (concat iov)"
  note unfold = writev_loop.simps [of calloc_ok iov tmp copied nleft out "r # rs" ps]
    write_loop.simps [of "concat tmp" out "r # rs" ps]
  consider "nleft = 0" | v where "nleft \<noteq> 0" "tmp = [v]" | "nleft \<noteq> 0" "length tmp \<noteq> 1"
    by (cases tmp) (auto simp: length_Suc_conv)
  then show ?case
  proof cases
    case 1
    then show ?thesis using Cons.prems(1) by (subst unfold(1), subst unfold(2)) simp
  next
    case 2
    then show ?thesis
      using Cons.prems(1) write_loop_out [of out v "r # rs" ps] by (subst unfold(1)) simp
  next
    case 3
    then have ne: "concat tmp \<noteq> []" using Cons.prems(1) by auto
    show ?thesis
    proof (cases "write_turn nleft r")
      case (Partial n)
      have n: "n < nleft" by (rule write_turn_partial [OF Partial])
      have le: "nleft \<le> ?N" using Cons.prems by (metis diff_le_self length_drop)
      have "?N - (nleft - n) < ?N" using n le by simp
      then obtain tmp' where t: "skip_vectors iov (?N - (nleft - n)) = Some tmp'"
        "concat tmp' = drop (?N - (nleft - n)) (concat iov)" "length tmp' \<le> length iov"
        using skip_vectors_drop by blast
      have d: "drop n (concat tmp) = concat tmp'"
        using Cons.prems(2) t(2) n le by (simp add: add.commute)
      have "length (concat tmp') = nleft - n" using t(2) le by simp
      then have "writev_loop calloc_ok iov tmp' True (nleft - n) (out @ take n (concat tmp)) rs ps' =
          write_loop (concat tmp') (out @ take n (concat tmp)) rs ps'" for ps'
        using Cons.IH [of "nleft - n" tmp' True] t(2) by simp
      moreover have "\<not> (\<not> copied \<and> LOCAL_MAXIOV < length tmp' \<and> \<not> calloc_ok)" using assms(1) t(3) by auto
      ultimately show ?thesis
        using 3 ne Partial t(1) d Cons.prems(1)
        by (subst unfold(1), subst unfold(2)) (auto simp: Let_def simp del: length_concat split: list.split option.split)
    next
      case Try_Again
      then show ?thesis
        using 3 ne Cons.IH [OF Cons.prems] Cons.prems(1)
        by (subst unfold(1), subst unfold(2)) (auto simp del: length_concat split: list.split option.split)
    next
      case Written
      then show ?thesis
        using 3 ne Cons.IH [OF Cons.prems] Cons.prems(1)
        by (subst unfold(1), subst unfold(2)) (auto simp del: length_concat split: list.split option.split)
    next
      case (Give_Up e)
      then show ?thesis
        using 3 ne Cons.IH [OF Cons.prems] Cons.prems(1)
        by (subst unfold(1), subst unfold(2)) (auto simp del: length_concat split: list.split option.split)
    next
      case Not_Ready
      have w: "write_turn (length (concat tmp)) r = Not_Ready" using Not_Ready Cons.prems(1) by simp
      have ih: "writev_loop calloc_ok iov tmp copied nleft out rs ps' = write_loop (concat tmp) out rs ps'" for ps'
        by (rule Cons.IH [OF Cons.prems])
      have "writev_loop calloc_ok iov tmp copied nleft out (r # rs) ps =
          (case ps of [] \<Rightarrow> None | Some e # ps' \<Rightarrow> Some (Some e, out, rs, ps')
            | None # ps' \<Rightarrow> writev_loop calloc_ok iov tmp copied nleft out rs ps')"
        by (subst unfold(1)) (simp only: 3 Not_Ready if_False list.case write_turn.case)
      moreover have "write_loop (concat tmp) out (r # rs) ps =
          (case ps of [] \<Rightarrow> None | Some e # ps' \<Rightarrow> Some (Some e, out, rs, ps')
            | None # ps' \<Rightarrow> write_loop (concat tmp) out rs ps')"
        by (subst unfold(2)) (simp only: ne w if_False list.case write_turn.case)
      ultimately show ?thesis by (simp only: ih)
    qed
  qed
next
  case Nil
  have w: "write_loop xs out' [] ps = (if xs = [] then Some (None, out', [], ps) else None)" for xs :: "'a list" and out'
    by (subst write_loop.simps) simp
  have "writev_loop calloc_ok iov tmp copied nleft out [] ps =
      (if nleft = 0 then Some (None, out, [], ps)
       else if length tmp = 1
       then map_option (\<lambda>(e, out', x). (e, out @ out', x)) (write_loop (take nleft (hd tmp)) [] [] ps)
       else None)"
    by (subst writev_loop.simps) (simp only: list.case)
  moreover have "nleft = 0 \<longleftrightarrow> concat tmp = []" using Nil(1) by (simp only: length_0_conv)
  moreover have "take nleft (hd tmp) \<noteq> []" if "nleft \<noteq> 0" "length tmp = 1"
    using that Nil(1) by (cases tmp) auto
  ultimately show ?case by (simp add: w)
qed

text \<open>C24: Gathering vectors is writing their concatenation.  For every sequence of results of the system calls and
  of polling, \<^verbatim>\<open>st_writev\<close> returns the same value or error, writes the same bytes and makes the same calls as
  \<^verbatim>\<open>st_write\<close> of all vectors in one buffer, unless there is no memory for more than 16 vectors.\<close>

theorem writev_is_write:
  assumes "calloc_ok \<or> length iov \<le> LOCAL_MAXIOV"
  shows "u_writev calloc_ok iov rs ps = u_write (concat iov) rs ps"
proof -
  have "writev_loop calloc_ok iov iov False (length (concat iov)) [] rs ps = write_loop (concat iov) [] rs ps"
    by (rule writev_loop_eq [OF assms]) simp_all
  then show ?thesis by (simp add: u_writev_def u_write_def)
qed

theorem writev_is_write_witness:
  "u_writev False [[1, 2], [], [3::nat, 4]] [Inr 1, Inl EINTR, Inr 2, Inl EAGAIN, Inr 1] [None, None, None] =
    Some (Inr 4, [1, 2, 3, 4], [], [])"
proof -
  have "u_write (concat [[1, 2], [], [3::nat, 4]]) [Inr 1, Inl EINTR, Inr 2, Inl EAGAIN, Inr 1] [None, None, None] =
      Some (Inr 4, [1, 2, 3, 4], [], [])"
    by (simp add: u_write_def all_or_error_def write_loop.simps write_turn_def EINTR_def EAGAIN_def)
  moreover have "length [[1, 2], [], [3::nat, 4]] \<le> LOCAL_MAXIOV" by (simp add: LOCAL_MAXIOV_def)
  ultimately show ?thesis using writev_is_write [of False] by metis
qed

text \<open>\<^verbatim>\<open>st_write\<close> writes everything or reports an error.  When it returns, either it returns the length of the
  buffer and the bytes written are the buffer, or it gives an error and they are a part from its start.\<close>

theorem write_all_or_error:
  assumes "u_write buf rs ps = Some (r, out, rest)"
  shows "(r = Inr (int (length buf)) \<and> out = buf) \<or> (\<exists>e. r = Inl e \<and> prefix out buf)"
proof -
  obtain e where e: "write_loop buf [] rs ps = Some (e, out, rest)"
    "r = (case e of None \<Rightarrow> Inr (int (length buf)) | Some x \<Rightarrow> Inl x)"
    using assms by (auto simp: u_write_def all_or_error_def split: option.splits)
  obtain k where "out = take k buf" "e = None \<longrightarrow> take k buf = buf"
    using write_loop_result [of buf "[]" rs ps e out rest] e(1) by auto
  then show ?thesis using e(2) by (cases e) (simp_all add: take_is_prefix)
qed

theorem write_all_or_error_witness:
  "\<exists>r out rest. u_write [1, 2, 3::nat] [Inr 2, Inl 32] [None] = Some (r, out, rest) \<and> r = Inl 32 \<and> prefix out [1, 2, 3]"
proof -
  have w: "u_write [1, 2, 3::nat] [Inr 2, Inl 32] [None] = Some (Inl 32, [1, 2], [], [])"
    by (simp add: u_write_def all_or_error_def write_loop.simps write_turn_def EINTR_def EAGAIN_def)
  then show ?thesis using write_all_or_error [OF w] by simp
qed

end
