(* ===== verification/Session.thy ===== *)
theory Session
  imports Client DmXml
begin

text \<open>
  The sessions of the video server (\<^verbatim>\<open>server/server.cpp\<close>): accepting a connection, reading who it is, the answer, and
  the hand-over to the threads of a device or a client.  The thread of a session switches while it reads and
  writes, so it is cut there; \<open>None\<close> is undefined behaviour or a failed assertion, as in \<open>Proxy\<close>.
\<close>

section \<open>The listening socket\<close>

record srv_socket =
  s_nfd :: ptr
  s_addr :: "string option"
  s_port :: u32
  wait_threads :: int
  busy_threads :: int
  rqst_count :: int

definition new_srv_socket :: srv_socket where
  "new_srv_socket = \<lparr>s_nfd = 0, s_addr = None, s_port = 0, wait_threads = 0, busy_threads = 0, rqst_count = 0\<rparr>"

definition total_threads :: "srv_socket \<Rightarrow> u32" where
  "total_threads s = of_int (wait_threads s + busy_threads s)"

definition sign_thread :: "bool \<Rightarrow> srv_socket \<Rightarrow> srv_socket" where
  "sign_thread busy s =
     (if busy then s\<lparr>busy_threads := busy_threads s + 1, wait_threads := wait_threads s - 1\<rparr>
      else s\<lparr>busy_threads := busy_threads s - 1, wait_threads := wait_threads s + 1\<rparr>)"

definition rqst_cout :: "srv_socket \<Rightarrow> u32 \<times> srv_socket" where
  "rqst_cout s = (of_int (rqst_count s), s\<lparr>rqst_count := rqst_count s + 1\<rparr>)"

definition wait_thread_is_empty :: "srv_socket \<Rightarrow> bool" where
  "wait_thread_is_empty s = (wait_threads s = 0)"

definition SERV_PORT_DEFAULT :: u32 where "SERV_PORT_DEFAULT = 10000"

text \<open>The address to listen on; \<open>inet_addr\<close> and \<open>gethostbyname\<close> are those of Winsock.\<close>

definition create_listeners ::
  "(string \<Rightarrow> u32) \<Rightarrow> (string \<Rightarrow> u32 option) \<Rightarrow> srv_socket \<Rightarrow> (u32 \<times> u32 \<times> srv_socket) option" where
  "create_listeners inet_addr gethostbyname s =
     (let addr = (case s_addr s of None \<Rightarrow> ''0.0.0.0'' | Some a \<Rightarrow> a);
          s1 = s\<lparr>s_addr := Some addr, s_port := SERV_PORT_DEFAULT\<rparr>
      in if inet_addr addr \<noteq> 0xFFFFFFFF then Some (inet_addr addr, SERV_PORT_DEFAULT, s1)
         else case gethostbyname addr of None \<Rightarrow> None | Some a \<Rightarrow> Some (a, SERV_PORT_DEFAULT, s1))"

text \<open>The threads of the server: \<^verbatim>\<open>handle_connections\<close> accepts one connection and starts its successor.\<close>

datatype server_thread = Connections ptr | Print ptr | Session ptr

definition start_threads :: "ptr \<Rightarrow> server_thread list" where
  "start_threads srvfd = [Connections srvfd, Print srvfd]"

definition handle_connections :: "ptr \<Rightarrow> ptr option \<Rightarrow> server_thread list" where
  "handle_connections srvfd accepted =
     (case accepted of
        None \<Rightarrow> [Connections srvfd]
      | Some fd \<Rightarrow> [Connections srvfd, Session fd])"

section \<open>Who is there\<close>

definition close_fd :: "ptr \<Rightarrow> world \<Rightarrow> world" where
  "close_fd fd w = w\<lparr>closed_fds := closed_fds w @ [fd]\<rparr>"

text \<open>A C string in memory.\<close>

definition c_string :: "8 word list \<Rightarrow> string" where
  "c_string bs = map (\<lambda>x. char_of (unat x)) (takeWhile (\<lambda>x. x \<noteq> 0) bs)"

text \<open>\<^verbatim>\<open>read_auth_type_wrap\<close>: the header without its serial number, and the body; \<open>None\<close> is a failed read, a short
  one means that the peer closed.  The body goes to the address \<open>b\<close>.  The result is this address, or 0.  With
  a length of \<open>2 ^ 32 - 1\<close> the memory has no bytes.\<close>

definition read_auth_type_wrap ::
  "ptr \<Rightarrow> 8 word list option \<Rightarrow> 8 word list option \<Rightarrow> ptr \<Rightarrow> world \<Rightarrow> (ptr \<times> world) option" where
  "read_auth_type_wrap fd hdr_in body_in b w =
     (case hdr_in of
        None \<Rightarrow> Some (0, close_fd fd w)
      | Some hs \<Rightarrow>
          (let hdr = transfer_in (bytes_header (take 16 (take 12 hs @ replicate 16 0)));
               n = h_bodylen hdr
           in case body_in of
                None \<Rightarrow> Some (0, close_fd fd (alloc_body b (read_body n []) w))
              | Some xs \<Rightarrow> do { guard (n + 1 \<noteq> 0); Some (b, alloc_body b (read_body n xs) w) }))"

text \<open>The elements \<^verbatim>\<open>Type\<close> and \<^verbatim>\<open>SN\<close> (or \<^verbatim>\<open>Sn\<close>) of the message; the second is only looked for when there is a type.\<close>

definition auth_fields :: "string \<Rightarrow> (string option \<times> string option) option" where
  "auth_fields s =
     do {
       (_, x) \<leftarrow> Decode s new_DMXml;
       x1 \<leftarrow> GetRoot x;
       x2 \<leftarrow> server_FindElement ''Type'' x1;
       t \<leftarrow> GetValueText x2;
       case t of
         None \<Rightarrow> Some (None, None)
       | Some _ \<Rightarrow> do {
           x3 \<leftarrow> server_GetParent x2;
           x4 \<leftarrow> server_FindElement ''SN'' x3;
           sn \<leftarrow> GetValueText x4;
           case sn of
             Some _ \<Rightarrow> Some (t, sn)
           | None \<Rightarrow> do {
               x5 \<leftarrow> GetRoot x4;
               x6 \<leftarrow> server_FindElement ''Sn'' x5;
               sn' \<leftarrow> GetValueText x6;
               Some (t, sn')
             }
         }
     }"

text \<open>The name in quotes, in 20 characters; the library prints \<^verbatim>\<open>(null)\<close> for a null pointer.\<close>

definition quoted :: "string option \<Rightarrow> string option" where
  "quoted sn =
     (let s = CHR 0x22 # (case sn of None \<Rightarrow> ''(null)'' | Some x \<Rightarrow> x) @ [CHR 0x22]
      in if length s + 1 \<le> 20 then Some s else None)"

section \<open>The answer\<close>

definition auth_body :: string where
  \<open>auth_body =
     ''<?xml version="1.0" encoding="utf-8" ?>'' @ ''<Message>'' @ ''<UserName>"guest"</UserName >'' @
     ''<UserType>1</UserType >'' @ ''<Ver>V2.0</Ver>'' @ ''</Message>''\<close>

definition auth_packet :: "8 word list" where
  "auth_packet =
     take 12 (header_bytes (transfer_out (zero_header\<lparr>h_cmdno := hmcmd_authencate, h_bodylen := of_nat (length auth_body + 1)\<rparr>)))
       @ string_bytes auth_body"

text \<open>\<^verbatim>\<open>write_auth_wrap\<close> up to \<^verbatim>\<open>st_write\<close>, whose result comes with the next piece.\<close>

definition write_auth_wrap :: "ptr \<Rightarrow> world \<Rightarrow> world" where
  "write_auth_wrap fd w = w\<lparr>net_out := net_out w @ [(fd, auth_packet)]\<rparr>"

section \<open>The session\<close>

text \<open>Where a session is: over, or writing the answer to a device or a client.\<close>

datatype session = Ended | Device string | Watching ptr

text \<open>A device gets an object, under its name in the table, unless the name is there already: then the session
  ends with the socket open.\<close>

definition login_device :: "ptr \<Rightarrow> ptr \<Rightarrow> ptr \<Rightarrow> string \<Rightarrow> world \<Rightarrow> session \<times> world" where
  "login_device fd p junk key w =
     (if device_map w key = None
      then (let w1 = pu_new p key junk w
            in (Device key, write_auth_wrap fd (w1\<lparr>device_map := (device_map w1)(key \<mapsto> p)\<rparr>)))
      else (Ended, w))"

definition refuse :: "ptr \<Rightarrow> ptr \<Rightarrow> world \<Rightarrow> (session \<times> world) option" where
  "refuse fd b w = do { w1 \<leftarrow> free_body b (close_fd fd w); Some (Ended, w1) }"

definition login_client :: "ptr \<Rightarrow> ptr \<Rightarrow> string \<Rightarrow> world \<Rightarrow> (session \<times> world) option" where
  "login_client fd b key w =
     (case device_map w key of
        None \<Rightarrow> refuse fd b w
      | Some q \<Rightarrow> do {
          guard (q \<in> live_pus w);
          if is_video_open q w then Some (Watching q, write_auth_wrap fd w) else refuse fd b w
        })"

text \<open>\<^verbatim>\<open>handle_session\<close> from the first message, at \<open>b\<close>, to the answer.  A null name of a device with a quoted type
  makes a \<^verbatim>\<open>std::string\<close> of a null pointer.\<close>

definition handle_session_start :: "ptr \<Rightarrow> ptr \<Rightarrow> ptr \<Rightarrow> ptr \<Rightarrow> world \<Rightarrow> (session \<times> world) option" where
  "handle_session_start fd b p junk w =
     (if b = 0 then Some (Ended, w)
      else do {
        (type, sn) \<leftarrow> auth_fields (c_string (bodies w b));
        case type of
          None \<Rightarrow> refuse fd b w
        | Some t \<Rightarrow>
            if t = CHR 0x22 # ''10'' @ [CHR 0x22] then map_option (\<lambda>key. login_device fd p junk key w) sn
            else if t = ''10'' then map_option (\<lambda>key. login_device fd p junk key w) (quoted sn)
            else do { key \<leftarrow> quoted sn; login_client fd b key w }
      })"

text \<open>The rest, behind the answer; \<open>c\<close> is memory for a client.  The pointer to the device was taken before the
  answer was written.\<close>

definition handle_session_written ::
  "ptr \<Rightarrow> ptr \<Rightarrow> session \<Rightarrow> bool \<Rightarrow> ptr \<Rightarrow> ptr \<Rightarrow> world \<Rightarrow> world option" where
  "handle_session_written fd b s ok c junk w =
     (case s of
        Ended \<Rightarrow> Some w
      | Device key \<Rightarrow> do {
          p \<leftarrow> device_map w key;
          w1 \<leftarrow> pu_run p fd w;
          p' \<leftarrow> device_map w1 key;
          w2 \<leftarrow> pu_release p' w1;
          free_body b w2
        }
      | Watching q \<Rightarrow>
          if \<not> ok then map_option snd (refuse fd b w)
          else do {
            w1 \<leftarrow> cu_init c q (cu_new c junk w);
            w2 \<leftarrow> cu_run c fd w1;
            w3 \<leftarrow> cu_release c w2;
            free_body b w3
          })"

text \<open>\<^verbatim>\<open>run\<close> sleeps until it is interrupted: the results of \<^verbatim>\<open>st_sleep\<close> with the error; \<open>None\<close>: it still sleeps.\<close>

fun server_run :: "(int \<times> int) list \<Rightarrow> unit option" where
  "server_run [] = None"
| "server_run ((rc, err) # rs) =
     (if (if rc = -1 then err else rc) \<noteq> EINTR then server_run rs else Some ())"

end
