(* ===== verification/SessionInv.thy ===== *)
theory SessionInv
  imports Session ProxyRefs
begin

text \<open>
  The table of devices: every operation of sessions, devices and clients keeps it free of dangling pointers.
  The relation \<open>keeps_table\<close> is what an operation may do to it without registering a device.
\<close>

section \<open>What operations do to the table\<close>

definition keeps_table :: "world \<Rightarrow> world \<Rightarrow> bool" where
  "keeps_table w w' \<longleftrightarrow>
     live_pus w' \<subseteq> live_pus w \<and> (\<forall>p. pu_sn (pus w' p) = pu_sn (pus w p)) \<and> device_map w' \<subseteq>\<^sub>m device_map w \<and>
     (\<forall>p \<in> live_pus w - live_pus w'. device_map w' (pu_sn (pus w p)) = None)"

definition table_ok :: "world \<Rightarrow> bool" where
  "table_ok w \<longleftrightarrow> (\<forall>sn p. device_map w sn = Some p \<longrightarrow> p \<in> live_pus w \<and> pu_sn (pus w p) = sn)"

lemma keeps_table_refl [simp]: "keeps_table w w"
  by (simp add: keeps_table_def)

lemma keeps_table_trans:
  assumes "keeps_table w v" and "keeps_table v u"
  shows "keeps_table w u"
  unfolding keeps_table_def
proof (intro conjI ballI)
  show "live_pus u \<subseteq> live_pus w" using assms by (auto simp: keeps_table_def)
  show "\<forall>p. pu_sn (pus u p) = pu_sn (pus w p)" using assms by (simp add: keeps_table_def)
  show m: "device_map u \<subseteq>\<^sub>m device_map w" using assms by (auto simp: keeps_table_def intro: map_le_trans)
  fix p
  assume p: "p \<in> live_pus w - live_pus u"
  show "device_map u (pu_sn (pus w p)) = None"
  proof (cases "p \<in> live_pus v")
    case True
    then show ?thesis using p assms by (auto simp: keeps_table_def)
  next
    case False
    then have "device_map v (pu_sn (pus w p)) = None" using p assms(1) by (auto simp: keeps_table_def)
    moreover have "device_map u \<subseteq>\<^sub>m device_map v" using assms(2) by (simp add: keeps_table_def)
    ultimately show ?thesis by (metis domIff map_le_implies_dom_le subsetD)
  qed
qed

lemma table_ok_keeps:
  assumes "table_ok w" and "keeps_table w w'"
  shows "table_ok w'"
  unfolding table_ok_def
proof (intro allI impI)
  fix sn p
  assume a: "device_map w' sn = Some p"
  have "device_map w sn = Some p"
    using a assms(2) unfolding keeps_table_def map_le_def by (metis domI)
  then have w: "p \<in> live_pus w" "pu_sn (pus w p) = sn" using assms(1) by (simp_all add: table_ok_def)
  have "p \<in> live_pus w'"
  proof (rule ccontr)
    assume "p \<notin> live_pus w'"
    then have "device_map w' (pu_sn (pus w p)) = None" using w assms(2) by (auto simp: keeps_table_def)
    then show False using a w by simp
  qed
  then show "p \<in> live_pus w' \<and> pu_sn (pus w' p) = sn" using w assms(2) by (simp add: keeps_table_def)
qed

text \<open>An operation that changes neither devices nor the table, and one that changes a device in place.\<close>

lemma keeps_tableI:
  "live_pus w' = live_pus w \<Longrightarrow> device_map w' = device_map w \<Longrightarrow> (\<And>p. pu_sn (pus w' p) = pu_sn (pus w p)) \<Longrightarrow>
    keeps_table w w'"
  by (simp add: keeps_table_def)

lemma same_servers_keeps: "same_servers w w' \<Longrightarrow> keeps_table w w'"
  by (simp add: same_servers_def keeps_table_def)

lemma keeps_table_upd [intro!]:
  assumes "keeps_table w0 w"
  shows "keeps_table w0 (upd_cu c f w)" and "keeps_table w0 (upd_msg m g w)" and "keeps_table w0 (run_task t w)"
    and "keeps_table w0 (alloc_body b xs w)" and "keeps_table w0 (net_port_msg_new m w)"
    and "keeps_table w0 (close_fd fd w)" and "keeps_table w0 (write_auth_wrap fd w)"
    and "keeps_table w0 (cu_new c junk w)" and "keeps_table w0 (set_cu_sender c s w)"
    and "keeps_table w0 (w\<lparr>woken := ws\<rparr>)" and "keeps_table w0 (w\<lparr>net_out := ns\<rparr>)"
    and "keeps_table w0 (set_sender p s w)"
  by (rule keeps_table_trans [OF assms], rule keeps_tableI;
      simp add: upd_cu_def upd_msg_def run_task_def alloc_body_def net_port_msg_new_def close_fd_def
        write_auth_wrap_def cu_new_def set_cu_sender_def set_sender_def upd_pu_def)+

lemma keeps_table_upd_pu [intro!]:
  assumes "keeps_table w0 w" and "\<And>r. pu_sn (f r) = pu_sn r"
  shows "keeps_table w0 (upd_pu p f w)"
  by (rule keeps_table_trans [OF assms(1)], rule keeps_tableI) (simp_all add: upd_pu_def assms(2))

section \<open>The operations\<close>

text \<open>\<open>kept get w m\<close>: when \<open>m\<close> gives a result, the world in it keeps the table of \<open>w\<close>.\<close>

definition kept :: "('a \<Rightarrow> world) \<Rightarrow> world \<Rightarrow> 'a option \<Rightarrow> bool" where
  "kept get w m \<longleftrightarrow> (\<forall>x. m = Some x \<longrightarrow> keeps_table w (get x))"

abbreviation kept_world :: "world \<Rightarrow> world option \<Rightarrow> bool" where
  "kept_world \<equiv> kept (\<lambda>w. w)"

lemma keptI: "(\<And>x. m = Some x \<Longrightarrow> keeps_table w (get x)) \<Longrightarrow> kept get w m"
  by (simp add: kept_def)

lemma kept_Some: "keeps_table w (get x) \<Longrightarrow> kept get w (Some x)"
  by (simp add: kept_def)

lemma kept_None: "kept get w None"
  by (simp add: kept_def)

lemma kept_if: "(b \<Longrightarrow> kept get w x) \<Longrightarrow> (\<not> b \<Longrightarrow> kept get w y) \<Longrightarrow> kept get w (if b then x else y)"
  by simp

lemma kept_guard: "(b \<Longrightarrow> kept get w (f ())) \<Longrightarrow> kept get w (guard b \<bind> f)"
  by (simp add: kept_def)

lemma kept_bind_world:
  "kept_world w m \<Longrightarrow> (\<And>x. keeps_table w x \<Longrightarrow> kept get w (f x)) \<Longrightarrow> kept get w (m \<bind> f)"
  by (auto simp: kept_def bind_eq_Some_conv)

lemma kept_bind_pair:
  "kept snd w m \<Longrightarrow> (\<And>x. keeps_table w (snd x) \<Longrightarrow> kept get w (f x)) \<Longrightarrow> kept get w (m \<bind> f)"
  by (auto simp: kept_def bind_eq_Some_conv)

lemma kept_bind_any: "(\<And>x. kept get w (f x)) \<Longrightarrow> kept get w (m \<bind> f)"
  by (auto simp: kept_def bind_eq_Some_conv)

lemma kept_case_option:
  "(m = None \<Longrightarrow> kept get w a) \<Longrightarrow> (\<And>x. m = Some x \<Longrightarrow> kept get w (f x)) \<Longrightarrow>
    kept get w (case m of None \<Rightarrow> a | Some x \<Rightarrow> f x)"
  by (cases m) auto

lemma kept_map: "kept (\<lambda>x. get (f x)) w m \<Longrightarrow> kept get w (map_option f m)"
  by (auto simp: kept_def)

lemma kept_same: "keeps_table w0 w \<Longrightarrow> (\<And>x. m = Some x \<Longrightarrow> same_servers w (get x)) \<Longrightarrow> kept get w0 m"
  unfolding kept_def using keeps_table_trans same_servers_keeps by blast

lemma kept_msgs:
  assumes "keeps_table w0 w"
  shows "kept_world w0 (msg_add m w)" and "kept_world w0 (msg_release m w)" and "kept_world w0 (free_body b w)"
    and "kept_world w0 (release_all ms w)"
  using assms
  by (auto intro: kept_same msg_add_servers msg_release_servers release_all_servers dest: free_body_servers)

lemma kept_refs:
  assumes "keeps_table w0 w"
  shows "kept_world w0 (cu_add c w)" and "kept_world w0 (pu_add p w)"
  using assms by (auto simp: cu_add_def pu_add_def intro!: kept_guard kept_Some)

lemma kept_cu_delete:
  assumes "keeps_table w0 w"
  shows "kept_world w0 (cu_delete c w)"
proof (rule keptI)
  fix w'
  assume a: "cu_delete c w = Some w'"
  define w2 where "w2 = w\<lparr>cu_dev_count := cu_dev_count w - 1, closed_fds := closed_fds w @ [cu_fd (cus w c)]\<rparr>"
  obtain w3 where w3: "release_all (cu_queue (cus w c)) w2 = Some w3" "w' = w3\<lparr>live_cus := live_cus w3 - {c}\<rparr>"
    using a by (auto simp: cu_delete_def w2_def Let_def bind_eq_Some_conv)
  have "keeps_table w w'"
    by (rule keeps_tableI) (use release_all_servers [OF w3(1)] w3(2) in \<open>simp_all add: same_servers_def w2_def\<close>)
  then show "keeps_table w0 w'" by (rule keeps_table_trans [OF assms])
qed

text \<open>The destructor of a device takes its name out of the table.\<close>

lemma kept_pu_delete:
  assumes "keeps_table w0 w"
  shows "kept_world w0 (pu_delete p w)"
proof (rule keptI)
  fix w'
  assume a: "pu_delete p w = Some w'"
  obtain w1 w4 where w1: "msg_release (pu_video_cmd (pus w p)) (w\<lparr>pu_dev_count := pu_dev_count w - 1\<rparr>) = Some w1"
    and w4: "release_all (pu_queue (pus w1 p))
        (w1\<lparr>device_map := (device_map w1)(pu_sn (pus w1 p) := None), closed_fds := closed_fds w1 @ [pu_fd (pus w1 p)]\<rparr>) =
        Some w4" "w' = w4\<lparr>live_pus := live_pus w4 - {p}\<rparr>"
    using a by (auto simp: pu_delete_def Let_def bind_eq_Some_conv server_unregister_def)
  have "keeps_table w w'"
    using msg_release_servers [OF w1] release_all_servers [OF w4(1)] w4(2)
    by (auto simp: keeps_table_def same_servers_def map_le_def)
  then show "keeps_table w0 w'" by (rule keeps_table_trans [OF assms])
qed

lemma kept_releases:
  assumes "keeps_table w0 w"
  shows "kept_world w0 (cu_release c w)" and "kept_world w0 (pu_release p w)"
  using assms by (auto simp: cu_release_def pu_release_def Let_def
      intro!: kept_guard kept_if kept_Some kept_cu_delete kept_pu_delete)

lemmas kept_rules = kept_guard kept_if kept_Some kept_None kept_msgs kept_refs kept_releases kept_case_option kept_map
  kept_bind_world kept_bind_pair

lemma kept_packet: "(\<And>x. kept get w (f x)) \<Longrightarrow> kept get w (packet h b v \<bind> f)"
  by (rule kept_bind_any)

lemma kept_lookup: "(\<And>x. kept get w (f x)) \<Longrightarrow> kept get w (device_map v key \<bind> f)"
  by (rule kept_bind_any)

lemma kept_check_net: "(\<And>x. kept get w (f x)) \<Longrightarrow> kept get w (check_net c v \<bind> f)"
  by (rule kept_bind_any)

text \<open>Each operation of a device and a client is composed of these.\<close>

lemma kept_pu_send_msg: "keeps_table w0 w \<Longrightarrow> kept snd w0 (pu_send_msg p m w)"
  by (auto simp: pu_send_msg_def Let_def intro!: kept_rules)

lemma kept_cu_send_msg: "keeps_table w0 w \<Longrightarrow> kept_world w0 (cu_send_msg c m w)"
  by (auto simp: cu_send_msg_def Let_def intro!: kept_rules)

lemma kept_pu_close: "keeps_table w0 w \<Longrightarrow> kept_world w0 (pu_close p w)"
  by (auto simp: pu_close_def Let_def intro!: kept_rules)

lemma kept_cu_close: "keeps_table w0 w \<Longrightarrow> kept_world w0 (cu_close c w)"
  by (auto simp: cu_close_def Let_def intro!: kept_rules)

lemma kept_pu_backup: "keeps_table w0 w \<Longrightarrow> kept snd w0 (pu_backup p w)"
  by (auto simp: pu_backup_def Let_def intro!: kept_rules)

lemma kept_cu_backup: "keeps_table w0 w \<Longrightarrow> kept snd w0 (cu_backup c w)"
  by (auto simp: cu_backup_def Let_def intro!: kept_rules)

lemma kept_pu_write: "keeps_table w0 w \<Longrightarrow> kept_world w0 (pu_write p m ms w)"
  by (auto simp: pu_write_def Let_def intro!: kept_rules kept_packet)

lemma kept_cu_write: "keeps_table w0 w \<Longrightarrow> kept_world w0 (cu_write c m ms w)"
  by (auto simp: cu_write_def Let_def intro!: kept_rules kept_packet)

lemma kept_cu_send_exit: "keeps_table w0 w \<Longrightarrow> kept_world w0 (cu_send_exit c w)"
  by (auto simp: cu_send_exit_def intro!: kept_rules kept_cu_close)

lemma kept_pu_send_turn: "kept_world w (pu_send_turn p ok w)"
  by (auto simp: pu_send_turn_def intro!: kept_rules kept_pu_close kept_pu_backup kept_pu_write
      split: sender.split list.split)

lemma kept_cu_send_turn: "kept_world w (cu_send_turn c ok w)"
  by (auto simp: cu_send_turn_def intro!: kept_rules kept_cu_send_exit kept_cu_backup kept_cu_write
      split: sender.split list.split)

lemma kept_forward: "keeps_table w0 w \<Longrightarrow> kept_world w0 (forward m cs w)"
  by (induction cs arbitrary: w) (auto intro!: kept_rules kept_cu_send_msg)

lemma kept_pu_recv_turn: "kept snd w (pu_recv_turn p hdr_in body_in m b w)"
  by (auto simp: pu_recv_turn_def forward_video_def keep_answer_def Let_def
      intro!: kept_rules kept_pu_close kept_forward)

lemma kept_heart_start: "kept_world w (heart_start p w)"
  by (auto simp: heart_start_def intro!: kept_rules)

lemma kept_heart_tick: "kept snd w (heart_tick p n m junk w)"
  by (auto simp: heart_tick_def Let_def intro!: kept_rules kept_pu_send_msg)

lemma kept_handle_open_video: "kept_world w (handle_open_video p m b w)"
  by (auto simp: handle_open_video_def Let_def intro!: kept_rules kept_pu_send_msg)

lemma kept_cu_recv_turn: "kept snd w (cu_recv_turn c hdr_in body_in m b cond w)"
  by (auto simp: cu_recv_turn_def cu_read_body_def cu_dispatch_def Let_def
      intro!: kept_rules kept_check_net kept_cu_close kept_cu_send_msg)

lemma kept_open_video_start: "kept (\<lambda>r. snd (snd r)) w (open_video_start c m w)"
  by (auto simp: open_video_start_def pu_open_real_video_def Let_def intro!: kept_rules kept_pu_send_msg)

lemma kept_open_video_answer: "kept_world w (open_video_answer c m serial tmp b w)"
  by (auto simp: open_video_answer_def Let_def intro!: kept_rules kept_cu_send_msg)

lemma kept_open_video_end: "kept_world w (open_video_end c m w)"
  by (auto simp: open_video_end_def pu_close_real_video_def cu_uninit_def Let_def intro!: kept_rules)

text \<open>The pieces of a session but the login of a device.\<close>

lemma kept_read_auth: "kept snd w (read_auth_type_wrap fd hdr_in body_in b w)"
  by (auto simp: read_auth_type_wrap_def Let_def intro!: kept_rules)

lemma kept_refuse: "keeps_table w0 w \<Longrightarrow> kept snd w0 (refuse fd b w)"
  by (auto simp: refuse_def intro!: kept_rules)

lemma kept_login_client: "keeps_table w0 w \<Longrightarrow> kept snd w0 (login_client fd b key w)"
  by (auto simp: login_client_def intro!: kept_rules kept_refuse)

lemma kept_written: "kept_world w (handle_session_written fd b s ok c junk w)"
  by (auto simp: handle_session_written_def pu_run_def cu_init_def cu_run_def
      intro!: kept_rules kept_lookup kept_refuse split: session.split)

section \<open>The whole server\<close>

text \<open>One piece of some thread of the server, with whatever the system and the network give.  The memory of a new
  device is not that of one that exists.\<close>

inductive server_step :: "world \<Rightarrow> world \<Rightarrow> bool" where
  step_read: "read_auth_type_wrap fd hdr_in body_in b w = Some (r, w') \<Longrightarrow> server_step w w'"
| step_start: "handle_session_start fd b p junk w = Some (s, w') \<Longrightarrow> p \<notin> live_pus w \<Longrightarrow> server_step w w'"
| step_written: "handle_session_written fd b s ok c junk w = Some w' \<Longrightarrow> server_step w w'"
| step_pu_send: "pu_send_turn p ok w = Some w' \<Longrightarrow> server_step w w'"
| step_pu_recv: "pu_recv_turn p hdr_in body_in m b w = Some (go, w') \<Longrightarrow> server_step w w'"
| step_heart_start: "heart_start p w = Some w' \<Longrightarrow> server_step w w'"
| step_heart: "heart_tick p n m junk32 w = Some (next, w') \<Longrightarrow> server_step w w'"
| step_open_video: "handle_open_video p m b w = Some w' \<Longrightarrow> server_step w w'"
| step_cu_send: "cu_send_turn c ok w = Some w' \<Longrightarrow> server_step w w'"
| step_cu_recv: "cu_recv_turn c hdr_in body_in m b cond w = Some (go, w') \<Longrightarrow> server_step w w'"
| step_video_start: "open_video_start c m w = Some (tmp, wait, w') \<Longrightarrow> server_step w w'"
| step_video_answer: "open_video_answer c m serial tmp b w = Some w' \<Longrightarrow> server_step w w'"
| step_video_end: "open_video_end c m w = Some w' \<Longrightarrow> server_step w w'"

lemma table_ok_login:
  assumes "table_ok w" and "p \<notin> live_pus w" and "login_device fd p junk key w = (s, w')"
  shows "table_ok w'"
proof (cases "device_map w key = None")
  case True
  have "w' = write_auth_wrap fd ((pu_new p key junk w)\<lparr>device_map := (device_map w)(key \<mapsto> p)\<rparr>)"
    using assms(3) True by (simp add: login_device_def pu_new_def Let_def)
  moreover have "q \<noteq> p" if "device_map w sn = Some q" for sn q
    using that assms(1,2) by (auto simp: table_ok_def)
  ultimately show ?thesis
    using assms(1) by (auto simp: table_ok_def write_auth_wrap_def pu_new_def)
qed (use assms in \<open>auto simp: login_device_def\<close>)

text \<open>What the first piece of a session comes to.\<close>

lemma handle_session_startE:
  assumes "handle_session_start fd b p junk w = Some (s, w')"
  obtains (no_message) "w' = w" | (refused) "refuse fd b w = Some (s, w')"
    | (device) key where "login_device fd p junk key w = (s, w')"
    | (client) key where "login_client fd b key w = Some (s, w')"
proof (cases "b = 0")
  case True
  then show ?thesis using assms no_message by (simp add: handle_session_start_def)
next
  case False
  then obtain type sn where a: "auth_fields (c_string (bodies w b)) = Some (type, sn)"
    using assms by (auto simp: handle_session_start_def bind_eq_Some_conv)
  note e = assms [unfolded handle_session_start_def a]
  show ?thesis
  proof (cases type)
    case None
    then show ?thesis using e False refused by simp
  next
    case (Some t)
    consider "t = CHR 0x22 # ''10'' @ [CHR 0x22]" | "t = ''10''" |
      "t \<noteq> CHR 0x22 # ''10'' @ [CHR 0x22]" "t \<noteq> ''10''" by blast
    then show ?thesis
      using e False Some device client by cases (auto simp: bind_eq_Some_conv)
  qed
qed

lemma kept_table:
  "kept_world w m \<Longrightarrow> m = Some w' \<Longrightarrow> table_ok w \<Longrightarrow> table_ok w'"
  by (auto simp: kept_def intro: table_ok_keeps)

lemma kept_table_pair: "kept snd w m \<Longrightarrow> m = Some (r, w') \<Longrightarrow> table_ok w \<Longrightarrow> table_ok w'"
  by (auto simp: kept_def intro: table_ok_keeps)

lemma kept_table_triple:
  "kept (\<lambda>r. snd (snd r)) w m \<Longrightarrow> m = Some (r, s, w') \<Longrightarrow> table_ok w \<Longrightarrow> table_ok w'"
  by (auto simp: kept_def intro: table_ok_keeps)

lemma table_ok_start:
  assumes "handle_session_start fd b p junk w = Some (s, w')" and "p \<notin> live_pus w" and "table_ok w"
  shows "table_ok w'"
  using assms(1)
proof (cases rule: handle_session_startE)
  case refused
  then show ?thesis using kept_table_pair [OF kept_refuse [OF keeps_table_refl]] assms(3) by blast
next
  case (device key)
  then show ?thesis using table_ok_login assms by blast
next
  case (client key)
  then show ?thesis using kept_table_pair [OF kept_login_client [OF keeps_table_refl]] assms(3) by blast
qed (use assms in simp)

lemmas step_tables =
  kept_table_pair [OF kept_read_auth] kept_table [OF kept_written] kept_table [OF kept_pu_send_turn]
  kept_table_pair [OF kept_pu_recv_turn] kept_table [OF kept_heart_start] kept_table_pair [OF kept_heart_tick]
  kept_table [OF kept_handle_open_video] kept_table [OF kept_cu_send_turn] kept_table_pair [OF kept_cu_recv_turn]
  kept_table_triple [OF kept_open_video_start] kept_table [OF kept_open_video_answer]
  kept_table [OF kept_open_video_end]

lemma server_step_keeps: "server_step w w' \<Longrightarrow> table_ok w \<Longrightarrow> table_ok w'"
  by (induction rule: server_step.induct) (assumption | erule (1) step_tables table_ok_start)+

lemma server_steps_keep: "server_step\<^sup>*\<^sup>* w w' \<Longrightarrow> table_ok w \<Longrightarrow> table_ok w'"
  by (induction rule: rtranclp_induct) (auto intro: server_step_keeps)

end
