(* ===== verification/SessionProps.thy ===== *)
theory SessionProps
  imports SessionInv SyncRead
begin

text \<open>
  The properties of the sessions of the video server: who is recognised, what a login does to devices and
  clients, and the table of devices.
\<close>

section \<open>Reading the login\<close>

text \<open>The text of a child element; undefined when the child is no element.\<close>

definition text_of :: "xnode \<Rightarrow> string \<Rightarrow> string option option" where
  "text_of n name =
     (case child_named n name of None \<Rightarrow> Some None | Some c \<Rightarrow> if is_element c then Some (GetText c) else None)"

lemma server_FindElement_at:
  assumes "m_pnode x = At p" and "node_at p (m_Doc x) = Some n"
  shows "\<exists>y. server_FindElement name x = Some y \<and> GetValueText y = text_of n name \<and> m_Doc y = m_Doc x \<and>
    m_pre_pnode y = m_pre_pnode x \<and>    (child_named n name \<noteq> None \<longrightarrow> server_GetParent y = Some x)"
proof (cases "child_named n name")
  case None
  then have "FirstChild (m_Doc x) p name = None"
    using assms(2) by (simp add: child_named_def FirstChild_def find_child_find(1))
  then show ?thesis
    using assms None by (simp add: server_FindElement_def follow_def to_ptr_def GetValueText_def text_of_def)
next
  case (Some c)
  then obtain i where i: "find_child (\<lambda>y. nvalue y = name) 0 (children n) = Some i"
    using find_child_find(1) [of "\<lambda>y. nvalue y = name" 0 "children n"] by (fastforce simp: child_named_def)
  then have c: "i < length (children n)" "children n ! i = c"
    using find_child_find(2) [OF i] Some by (simp_all add: child_named_def)
  define y where "y = x\<lparr>m_pnode := At (p @ [i])\<rparr>"
  have "server_FindElement name x = Some y"
    using assms i by (simp add: server_FindElement_def follow_def to_ptr_def FirstChild_def y_def)
  moreover have n: "node_at (p @ [i]) (m_Doc y) = Some c" using assms c by (simp add: y_def node_at_append)
  moreover have "server_GetParent y = Some x"
    using n assms(1) by (cases x) (simp add: server_GetParent_def follow_def to_ptr_def Parent_def y_def)
  ultimately show ?thesis
    using Some by (auto simp: GetValueText_def follow_element_def follow_def text_of_def y_def)
qed

text \<open>The fields are the texts of the children of the root element.\<close>

definition login_fields :: "xnode \<Rightarrow> (string option \<times> string option) option" where
  "login_fields n =
     do {
       t \<leftarrow> text_of n ''Type'';
       if t = None then Some (None, None)
       else do {
         sn \<leftarrow> text_of n ''SN'';
         if sn = None then map_option (Pair t) (text_of n ''Sn'') else Some (t, sn)
       }
     }"

lemma auth_fields_root:
  assumes "body_root s = Some n"
  shows "auth_fields s = login_fields n"
proof -
  obtain ds q err e where p: "xml_parse True ENC_UNKNOWN s = Parsed (ds, q, err, e)" "find is_element ds = Some n"
    using assms by (auto simp: body_root_def split: parsed.splits)
  then obtain k where k: "find_child is_element 0 ds = Some k"
    using find_child_find(1) [of is_element 0 ds] by fastforce
  then have n: "k < length ds" "ds ! k = n" using find_child_find(2) [OF k] p(2) by auto
  define x where "x = \<lparr>m_Doc = XNode TINYXML_DOCUMENT [] ds, m_pnode = Bad_Node, m_pre_pnode = Bad_Node\<rparr>"
  define x1 where "x1 = x\<lparr>m_pnode := At [k]\<rparr>"
  have x: "Decode s new_DMXml = Some (q, x)"
    by (simp add: Decode_def p(1) new_DMXml_def ClearDoc_def deleted_def x_def)
  have root: "GetRoot y = Some x1" if "m_Doc y = m_Doc x" "m_pre_pnode y = Bad_Node" for y
    using that k by (cases y) (simp add: GetRoot_def FirstChildElement_def to_ptr_def x_def x1_def)
  have x1: "m_pnode x1 = At [k]" "node_at [k] (m_Doc x1) = Some n" "m_Doc x1 = m_Doc x" "m_pre_pnode x1 = Bad_Node"
    by (simp_all add: x1_def x_def n)
  note find = server_FindElement_at [OF x1(1,2), unfolded x1(3,4)]
  obtain x2 where x2: "server_FindElement ''Type'' x1 = Some x2" "GetValueText x2 = text_of n ''Type''"
    "child_named n ''Type'' \<noteq> None \<longrightarrow> server_GetParent x2 = Some x1"
    using find [of "''Type''"] by blast
  obtain x4 where x4: "server_FindElement ''SN'' x1 = Some x4" "GetValueText x4 = text_of n ''SN''"
    "m_Doc x4 = m_Doc x" "m_pre_pnode x4 = Bad_Node"
    using find [of "''SN''"] by blast
  obtain x6 where x6: "server_FindElement ''Sn'' x1 = Some x6" "GetValueText x6 = text_of n ''Sn''"
    using find [of "''Sn''"] by blast
  have start: "GetRoot x = Some x1" by (rule root) (simp_all add: x_def)
  have rest: "auth_fields s =
      do { t \<leftarrow> text_of n ''Type'';
           case t of None \<Rightarrow> Some (None, None)
           | Some _ \<Rightarrow> do { x3 \<leftarrow> server_GetParent x2; x4 \<leftarrow> server_FindElement ''SN'' x3; sn \<leftarrow> GetValueText x4;
               case sn of Some _ \<Rightarrow> Some (t, sn)
               | None \<Rightarrow> do { x5 \<leftarrow> GetRoot x4; x6 \<leftarrow> server_FindElement ''Sn'' x5; sn' \<leftarrow> GetValueText x6; Some (t, sn') } } }"
    by (simp add: auth_fields_def x start x2(1,2))
  show ?thesis
  proof (cases "text_of n ''Type''")
    case (Some t)
    then have "child_named n ''Type'' \<noteq> None" if "t \<noteq> None"
      using that by (cases "child_named n ''Type''") (auto simp: text_of_def)
    then show ?thesis
      using Some x2(3) x4 x6 root [OF x4(3,4)]
      by (cases t; cases "text_of n ''SN''"; cases "text_of n ''Sn''")
        (auto simp: rest login_fields_def split: option.split)
  qed (simp add: rest login_fields_def)
qed

section \<open>Messages in memory\<close>

lemma char_byte: "char_of (unat (of_char c :: 8 word)) = c"
proof -
  have "unat (of_char c :: 8 word) = of_char c"
    by (simp add: of_char_def)
  then show ?thesis by simp
qed

lemma c_string_bytes:
  assumes "CHR 0x00 \<notin> set s"
  shows "c_string (string_bytes s) = s"
proof -
  have "of_char c \<noteq> (0 :: 8 word)" if "c \<in> set s" for c
  proof
    assume "of_char c = (0 :: 8 word)"
    then have "c = char_of (0 :: nat)" using char_byte [of c] by simp
    then show False using that assms by (simp add: char_of_def)
  qed
  then have "takeWhile (\<lambda>x. x \<noteq> 0) (string_bytes s) = map of_char s"
    by (simp add: string_bytes_def takeWhile_append)
  then show ?thesis by (simp add: c_string_def char_byte comp_def)
qed

text \<open>The header without its last word.\<close>

lemma bytes_header_12:
  "bytes_header (take 16 (take 12 (header_bytes h) @ replicate 16 0)) = h\<lparr>h_serialid := 0\<rparr>"
proof -
  have "take 16 (take 12 (header_bytes h) @ replicate 16 0) =
      word_bytes (h_cmdno h) @ word_bytes (h_bodylen h) @ word_bytes (h_errcode h) @ word_bytes 0"
    by (simp add: header_bytes_def word_bytes_def eval_nat_numeral)
  then show ?thesis by (simp add: bytes_header_def bytes_word_bytes)
qed

section \<open>Devices\<close>

text \<open>The name a device is registered under.\<close>

definition device_key :: "string \<Rightarrow> string \<Rightarrow> string option" where
  "device_key t sn =
     (if t = CHR 0x22 # ''10'' @ [CHR 0x22] then Some sn else if t = ''10'' then quoted (Some sn) else None)"

lemma start_of_device:
  assumes "b \<noteq> 0" and "body_root (c_string (bodies w b)) = Some n" and "login_fields n = Some (Some t, Some sn)"
    and "device_key t sn = Some key"
  shows "handle_session_start fd b p junk w = Some (login_device fd p junk key w)"
  using assms by (auto simp: handle_session_start_def auth_fields_root device_key_def split: if_splits)

lemma pu_run_effect:
  assumes "p \<in> live_pus w" and "fd \<noteq> 0" and "pu_ref (pus w p) = 1"
  shows "pu_run p fd w = Some (run_task (PuSend p) (run_task (PuRecv p)
    (upd_pu p (\<lambda>r. r\<lparr>pu_fd := fd, pu_net := True, pu_ref := 3\<rparr>) w)))"
  using assms by (simp add: pu_run_def pu_add_def upd_pu_def run_task_def guard_def)

lemma pu_release_shared:
  assumes "p \<in> live_pus w" and "pu_ref (pus w p) = 3"
  shows "pu_release p w = Some (upd_pu p (\<lambda>r. r\<lparr>pu_ref := 2\<rparr>) w)"
  using assms by (simp add: pu_release_def upd_pu_def guard_def Let_def)

section \<open>Samples\<close>

definition text_node :: "string \<Rightarrow> string \<Rightarrow> xnode" where
  "text_node name v = XNode (TINYXML_ELEMENT []) name [new_text v]"

definition login_message :: "string \<Rightarrow> string \<Rightarrow> xnode" where
  "login_message t sn = XNode (TINYXML_ELEMENT []) ''Message'' [text_node ''Type'' t, text_node ''SN'' sn]"

definition login_text :: "string \<Rightarrow> string \<Rightarrow> string" where
  "login_text t sn = xml_print (XNode TINYXML_DOCUMENT [] [decl_node, login_message t sn])"

definition quoted_a1 :: string where "quoted_a1 = CHR 0x22 # ''a1'' @ [CHR 0x22]"

text \<open>A server with two messages in memory: a device \<^verbatim>\<open>a1\<close> logs in, a client asks for it.\<close>

definition server0 :: world where
  "server0 = \<lparr>msgs = (\<lambda>_. \<lparr>m_hdr = zero_header, m_body = 0, m_cond = 0, m_ref = 0\<rparr>), live_msgs = {},
     bodies = (\<lambda>b. string_bytes (login_text (if b = 1 then ''10'' else ''1'') ''a1'')), live_bodies = {1, 2},
     pus = (\<lambda>_. \<lparr>pu_sn = [], pu_ref = 0, pu_queue = [], pu_fd = 0, pu_net = False, pu_cus = [], pu_video_cmd = 0,
       pu_serial = 0, pu_sender = SStart\<rparr>), live_pus = {},
     cus = (\<lambda>_. \<lparr>cu_ref = 0, cu_queue = [], cu_fd = 0, cu_net = False, cu_pu = 0, cu_video_serial = 0, cu_wrap = None,
       cu_sender = SStart\<rparr>), live_cus = {}, pu_dev_count = 0, cu_dev_count = 0,
     device_map = Map.empty, net_out = [], closed_fds = [], started = [], woken = []\<rparr>"

lemma login_text_plain: "CHR 0x00 \<notin> set (login_text ''10'' ''a1'')" "CHR 0x00 \<notin> set (login_text ''1'' ''a1'')"
  by code_simp+

lemma login_root:
  assumes "t = ''10'' \<or> t = ''1''"
  shows "body_root (c_string (string_bytes (login_text t ''a1''))) = Some (login_message t ''a1'')"
proof -
  have "good_element ENC_UTF8 (login_message t ''a1'')"
    using assms
    by (elim disjE)
      (simp_all add: login_message_def text_node_def new_text_def simple_text_def good_text_def good_value_def
        good_name_def good_attributes_def Blank_def IsWhiteSpace_def one_byte_def utf8_bytes_def ascii_defs no_ref_def
        is_ref_def drop_Cons split: nat.split)
  then have "body_root (login_text t ''a1'') = Some (login_message t ''a1'')"
    unfolding login_text_def by (rule body_root_printed) (simp add: login_message_def is_element_def)
  moreover have "CHR 0x00 \<notin> set (login_text t ''a1'')" using assms login_text_plain by auto
  ultimately show ?thesis using c_string_bytes by simp
qed

lemma server0_root:
  "body_root (c_string (bodies server0 1)) = Some (login_message ''10'' ''a1'')"
  "body_root (c_string (bodies server0 2)) = Some (login_message ''1'' ''a1'')"
  by (simp_all add: server0_def login_root)

lemma login_message_fields: "login_fields (login_message t sn) = Some (Some t, Some sn)"
  by (simp add: login_fields_def login_message_def text_of_def child_named_def text_node_def is_element_def GetText_def
      new_text_def is_text_def)

lemma quoted_sample: "quoted (Some ''a1'') = Some quoted_a1" "device_key ''10'' ''a1'' = Some quoted_a1"
  by (simp_all add: quoted_def device_key_def quoted_a1_def)

section \<open>The properties of logins\<close>

text \<open>A login is read as it was sent.  Whatever the first three words of the header hold beside the length,
  a body sent as a string with its terminating character arrives as this string, in memory of its own.\<close>

theorem login_read:
  assumes "h_bodylen h = of_nat (length s + 1)" and "length s + 2 < 2 ^ 32" and "CHR 0x00 \<notin> set s"
  shows "\<exists>w'. read_auth_type_wrap fd (Some (take 12 (header_bytes (transfer_out h)))) (Some (string_bytes s)) b w =
      Some (b, w') \<and> c_string (bodies w' b) = s \<and> live_bodies w' = insert b (live_bodies w)"
proof -
  have l: "h_bodylen (transfer_in ((transfer_out h)\<lparr>h_serialid := 0\<rparr>)) = of_nat (length s + 1)"
    using assms(1) by (simp add: transfer_out_def transfer_in_def ntoh_ntoh)
  have nat: "unat (of_nat k :: u32) = k" if "k < 2 ^ 32" for k using that by (simp add: unat_of_nat)
  have u: "unat (of_nat (length s + 1) :: u32) = length s + 1" by (rule nat) (use assms(2) in simp)
  have "(of_nat (length s + 1) :: u32) + 1 = of_nat (length s + 2)" by simp
  moreover have "unat (of_nat (length s + 2) :: u32) = length s + 2" by (rule nat) (rule assms(2))
  ultimately have n: "(of_nat (length s + 1) :: u32) + 1 \<noteq> 0" by (metis add_is_0 unat_0 zero_neq_numeral)
  have "length (string_bytes s) = length s + 1" by (simp add: string_bytes_def)
  then have r: "read_body (of_nat (length s + 1)) (string_bytes s) = string_bytes s @ [0]"
    unfolding read_body_def u by simp
  have "c_string (string_bytes s @ [0]) = c_string (string_bytes s)"
    by (simp add: c_string_def string_bytes_def takeWhile_append)
  then have c: "c_string (string_bytes s @ [0]) = s" using c_string_bytes [OF assms(3)] by simp
  have e: "h_bodylen (transfer_in (bytes_header (take 16 (take 12 (take 12 (header_bytes (transfer_out h))) @ replicate 16 0)))) =
      of_nat (length s + 1)"
    by (simp only: take_take min.idem bytes_header_12 l)
  show ?thesis
    unfolding read_auth_type_wrap_def option.case Let_def e r guard_def if_P [OF n]
    by (simp add: alloc_body_def c)
qed

theorem login_read_witness:
  "\<exists>w'. read_auth_type_wrap 7 (Some (take 12 (header_bytes (transfer_out (zero_header\<lparr>h_bodylen := 3\<rparr>)))))
      (Some (string_bytes ''ab'')) 1 server0 = Some (1, w') \<and> c_string (bodies w' 1) = ''ab''"
  using login_read [of "zero_header\<lparr>h_bodylen := 3\<rparr>" "''ab''" 7 1 server0] by auto

text \<open>C25: The table of devices has no dangling pointers.  From a server without devices, after any interleaving
  of the threads of sessions, devices and clients, an entry of the table leads to a live device, which is
  registered under its own name; so no device has two entries.\<close>

theorem device_table_live:
  assumes "server_step\<^sup>*\<^sup>* w0 w" and "device_map w0 = Map.empty"
  shows "(\<forall>sn p. device_map w sn = Some p \<longrightarrow> p \<in> live_pus w \<and> pu_sn (pus w p) = sn) \<and>
    inj_on (device_map w) (dom (device_map w))"
proof -
  have ok: "table_ok w" using server_steps_keep [OF assms(1)] assms(2) by (simp add: table_ok_def)
  have "inj_on (device_map w) (dom (device_map w))"
  proof (rule inj_onI)
    fix a b
    assume "a \<in> dom (device_map w)" "b \<in> dom (device_map w)" "device_map w a = device_map w b"
    then show "a = b" using ok by (metis domD table_ok_def)
  qed
  then show ?thesis using ok by (simp add: table_ok_def)
qed

theorem device_table_live_witness:
  "\<exists>w. server_step\<^sup>*\<^sup>* server0 w \<and> device_map w quoted_a1 = Some 20 \<and> 20 \<in> live_pus w \<and> pu_sn (pus w 20) = quoted_a1"
proof -
  obtain s w where w: "login_device 7 20 0 quoted_a1 server0 = (s, w)" "device_map w quoted_a1 = Some 20"
    by (simp add: login_device_def server0_def pu_new_def write_auth_wrap_def)
  have "handle_session_start 7 1 20 0 server0 = Some (s, w)"
    using start_of_device [OF _ server0_root(1) login_message_fields quoted_sample(2), of 7 20 0] w(1) by simp
  then have "server_step server0 w" by (rule step_start) (simp add: server0_def)
  then have r: "server_step\<^sup>*\<^sup>* server0 w" by blast
  have "device_map server0 = Map.empty" by (simp add: server0_def)
  then show ?thesis using device_table_live [OF r] w(2) r by blast
qed

text \<open>A device that logs in is registered and served.  A message with the type of a device and a name that is
  not in the table makes a new object under this name and gets the answer.  When the answer is written,
  the object has the socket and a reference for each of the two threads started for it, the session gives
  up its own, and the message is freed.\<close>

theorem device_login:
  assumes "b \<noteq> 0" and "body_root (c_string (bodies w b)) = Some n" and "login_fields n = Some (Some t, Some sn)"
    and "device_key t sn = Some key" and "device_map w key = None"
  shows "\<exists>w1. handle_session_start fd b p junk w = Some (Device key, w1) \<and>
    device_map w1 = (device_map w)(key \<mapsto> p) \<and> pu_rc w1 p = 1 \<and> net_out w1 = net_out w @ [(fd, auth_packet)] \<and>
    (\<forall>w2 ok c. device_map w2 key = Some p \<longrightarrow> pu_rc w2 p = 1 \<longrightarrow> fd \<noteq> 0 \<longrightarrow> b \<in> live_bodies w2 \<longrightarrow>
      (\<exists>w3. handle_session_written fd b (Device key) ok c junk w2 = Some w3 \<and> pu_rc w3 p = 2 \<and>
        pu_fd (pus w3 p) = fd \<and> pu_net (pus w3 p) \<and> started w3 = started w2 @ [PuRecv p, PuSend p] \<and>
        device_map w3 = device_map w2 \<and> b \<notin> live_bodies w3))"
proof -
  have start: "handle_session_start fd b p junk w =
      Some (Device key, write_auth_wrap fd ((pu_new p key junk w)\<lparr>device_map := (device_map w)(key \<mapsto> p)\<rparr>))"
    using start_of_device [OF assms(1-4)] assms(5) by (simp add: login_device_def pu_new_def Let_def)
  have written: "\<exists>w3. handle_session_written fd b (Device key) ok c junk w2 = Some w3 \<and> pu_rc w3 p = 2 \<and>
        pu_fd (pus w3 p) = fd \<and> pu_net (pus w3 p) \<and> started w3 = started w2 @ [PuRecv p, PuSend p] \<and>
        device_map w3 = device_map w2 \<and> b \<notin> live_bodies w3"
    if "device_map w2 key = Some p" "pu_rc w2 p = 1" "fd \<noteq> 0" "b \<in> live_bodies w2" for w2 ok c
  proof -
    have p: "p \<in> live_pus w2" "pu_ref (pus w2 p) = 1"
      using that(2) by (auto simp: pu_rc_def ref_value_def word_unat_eq_iff split: if_splits)
    show ?thesis
      using that p assms(1) pu_run_effect [OF p(1) that(3) p(2)]
      by (simp add: handle_session_written_def pu_release_shared free_body_def pu_rc_def ref_value_def
          run_task_def upd_pu_def)
  qed
  then show ?thesis
    unfolding start by (auto simp: write_auth_wrap_def pu_new_def pu_rc_def ref_value_def)
qed

theorem device_login_witness:
  "\<exists>w1. handle_session_start 7 1 20 0 server0 = Some (Device quoted_a1, w1) \<and> device_map w1 quoted_a1 = Some 20 \<and>
    pu_rc w1 20 = 1"
  using device_login [OF _ server0_root(1) login_message_fields quoted_sample(2), of 7 20 0]
  by (auto simp: server0_def)

text \<open>A second login under the same name is dropped.  The session ends without an answer and with the socket
  open, and the message is never freed: the world is as before.\<close>

theorem second_login_dropped:
  assumes "b \<noteq> 0" and "body_root (c_string (bodies w b)) = Some n" and "login_fields n = Some (Some t, Some sn)"
    and "device_key t sn = Some key" and "device_map w key = Some q"
  shows "handle_session_start fd b p junk w = Some (Ended, w) \<and>
    handle_session_written fd b Ended ok c junk w = Some w"
  using start_of_device [OF assms(1-4)] assms(5) by (simp add: login_device_def handle_session_written_def)

theorem second_login_dropped_witness:
  "handle_session_start 7 1 20 0 (server0\<lparr>device_map := [quoted_a1 \<mapsto> 15]\<rparr>) =
    Some (Ended, server0\<lparr>device_map := [quoted_a1 \<mapsto> 15]\<rparr>)"
proof -
  have "body_root (c_string (bodies (server0\<lparr>device_map := [quoted_a1 \<mapsto> 15]\<rparr>) 1)) = Some (login_message ''10'' ''a1'')"
    using server0_root(1) by simp
  from second_login_dropped [OF _ this login_message_fields quoted_sample(2), of 15 7 20 0 False 0]
  show ?thesis by simp
qed

section \<open>Clients\<close>

lemma start_of_client:
  assumes "b \<noteq> 0" and "body_root (c_string (bodies w b)) = Some n" and "login_fields n = Some (Some t, sn)"
    and "t \<noteq> ''10''" and "t \<noteq> CHR 0x22 # ''10'' @ [CHR 0x22]" and "quoted sn = Some key"
  shows "handle_session_start fd b p junk w = login_client fd b key w"
  using assms by (simp add: handle_session_start_def auth_fields_root)

text \<open>C26: A client is attached to the device it names.  In a reachable state of the server, a message of another
  type is answered if the named device is in the table and has its video open.  If the device is still
  there when the answer is written, the client gets an object with a reference for each of its two
  threads, and holds one more reference of the device.\<close>

theorem client_attached:
  assumes "server_step\<^sup>*\<^sup>* w0 w" and "device_map w0 = Map.empty"
    and "b \<noteq> 0" and "body_root (c_string (bodies w b)) = Some n" and "login_fields n = Some (Some t, sn)"
    and "t \<noteq> ''10''" and "t \<noteq> CHR 0x22 # ''10'' @ [CHR 0x22]" and "quoted sn = Some key"
    and "device_map w key = Some q" and "is_video_open q w"
  shows "handle_session_start fd b p junk w = Some (Watching q, write_auth_wrap fd w) \<and>
    (\<forall>w2 c. 0 < pu_rc w2 q \<longrightarrow> pu_rc w2 q + 1 < 2 ^ 32 \<longrightarrow> c \<notin> live_cus w2 \<longrightarrow> fd \<noteq> 0 \<longrightarrow> b \<in> live_bodies w2 \<longrightarrow>
      (\<exists>w3. handle_session_written fd b (Watching q) True c junk w2 = Some w3 \<and>
        cu_rc w3 = (cu_rc w2)(c := 2) \<and> pu_rc w3 = (pu_rc w2)(q := pu_rc w2 q + 1) \<and>
        cu_pu (cus w3 c) = q \<and> cu_fd (cus w3 c) = fd \<and> cu_net (cus w3 c) \<and>
        started w3 = started w2 @ [CuRecv c, CuSend c] \<and> b \<notin> live_bodies w3))"
proof -
  have "q \<in> live_pus w" using server_steps_keep [OF assms(1)] assms(2,9) by (simp add: table_ok_def)
  then have start: "handle_session_start fd b p junk w = Some (Watching q, write_auth_wrap fd w)"
    using start_of_client [OF assms(3-8)] assms(9,10) by (simp add: login_client_def guard_def)
  have "\<exists>w3. handle_session_written fd b (Watching q) True c junk w2 = Some w3 \<and>
        cu_rc w3 = (cu_rc w2)(c := 2) \<and> pu_rc w3 = (pu_rc w2)(q := pu_rc w2 q + 1) \<and>
        cu_pu (cus w3 c) = q \<and> cu_fd (cus w3 c) = fd \<and> cu_net (cus w3 c) \<and>
        started w3 = started w2 @ [CuRecv c, CuSend c] \<and> b \<notin> live_bodies w3"
    if w2: "0 < pu_rc w2 q" "pu_rc w2 q + 1 < 2 ^ 32" "c \<notin> live_cus w2" "fd \<noteq> 0" "b \<in> live_bodies w2" for w2 c
  proof -
    have q: "q \<in> live_pus w2" "ref_value (pu_ref (pus w2 q)) + 1 < 2 ^ 32"
      using w2(1,2) by (auto simp: pu_rc_def split: if_splits)
    have "ref_value (pu_ref (pus w2 q) + 1) = ref_value (pu_ref (pus w2 q)) + 1"
      by (rule ref_value_plus [OF q(2)])
    moreover have "pu_ref (pus w2 q) \<noteq> 0" using q(2) by (auto simp: ref_value_def)
    moreover from calculation have "pu_ref (pus w2 q) + 1 \<noteq> 0" using q(2) by (auto simp: ref_value_def)
    ultimately have nz: "pu_ref (pus w2 q) \<noteq> 0" "pu_ref (pus w2 q) + 1 \<noteq> 0"
      "unat (pu_ref (pus w2 q) + 1) = Suc (unat (pu_ref (pus w2 q)))" by (simp_all add: ref_value_def)
    show ?thesis
      using w2(3-5) q(1) assms(3) nz
      by (simp add: handle_session_written_def cu_new_def cu_init_def cu_run_def cu_add_def cu_release_def pu_add_def
          upd_cu_def upd_pu_def run_task_def guard_def free_body_def Let_def cu_rc_def pu_rc_def ref_value_def fun_eq_iff)
  qed
  then show ?thesis using start by blast
qed

text \<open>The device logs in, its threads start, and it asks for video.\<close>

lemma server0_watched:
  "\<exists>w. server_step\<^sup>*\<^sup>* server0 w \<and> device_map w quoted_a1 = Some 20 \<and> is_video_open 20 w \<and> bodies w 2 = bodies server0 2"
proof -
  define w1 where "w1 = snd (login_device 7 20 0 quoted_a1 server0)"
  have "handle_session_start 7 1 20 0 server0 = Some (fst (login_device 7 20 0 quoted_a1 server0), w1)"
    using start_of_device [OF _ server0_root(1) login_message_fields quoted_sample(2), of 7 20 0] by (simp add: w1_def)
  then have s1: "server_step server0 w1" by (rule step_start) (simp add: server0_def)
  obtain w2 where w2: "handle_open_video 20 30 31 w1 = Some w2" "device_map w2 quoted_a1 = Some 20"
    "is_video_open 20 w2" "bodies w2 2 = bodies server0 2"
    by (simp add: handle_open_video_def w1_def login_device_def server0_def pu_new_def write_auth_wrap_def pu_add_def
        upd_pu_def net_port_msg_new_def alloc_body_def upd_msg_def msg_add_def pu_send_msg_def pu_release_def guard_def
        is_video_open_def Let_def)
  have "server_step w1 w2" by (rule step_open_video [OF w2(1)])
  then show ?thesis using s1 w2(2-4) by (meson converse_rtranclp_into_rtranclp rtranclp.rtrancl_refl)
qed

theorem client_attached_witness:
  "\<exists>w. server_step\<^sup>*\<^sup>* server0 w \<and> handle_session_start 8 2 21 0 w = Some (Watching 20, write_auth_wrap 8 w)"
proof -
  obtain w where w: "server_step\<^sup>*\<^sup>* server0 w" "device_map w quoted_a1 = Some 20" "is_video_open 20 w"
    "bodies w 2 = bodies server0 2"
    using server0_watched by blast
  have r: "body_root (c_string (bodies w 2)) = Some (login_message ''1'' ''a1'')" using w(4) server0_root(2) by simp
  have "device_map server0 = Map.empty" by (simp add: server0_def)
  from client_attached [OF w(1) this _ r login_message_fields _ _ quoted_sample(1) w(2,3), of 8 21 0]
  show ?thesis using w(1) by auto
qed

end
