(* ===== verification/XmlHeap.thy ===== *)
theory XmlHeap
  imports XmlParse CList "HOL-Library.Monad_Syntax"
begin

text \<open>
  The nodes of the XML library as objects that point to each other (\<^verbatim>\<open>tinyxml.cpp\<close>): the children of a node are
  a doubly linked list that ends in null pointers at both ends, and every child points to its parent.
  \<open>None\<close> stands for a failed assertion (which the lemmas show not to happen), the use of a deleted node, or a loop
  that does not end.
\<close>

section \<open>Nodes\<close>

record tnode =
  t_type :: node_type
  t_value :: string
  t_parent :: ptr
  t_first :: ptr
  t_last :: ptr
  t_prev :: ptr
  t_next :: ptr

text \<open>The nodes, which of them are allocated, and the errors of documents.\<close>

record dom =
  t_nodes :: "ptr \<Rightarrow> tnode"
  t_live :: "ptr set"
  t_error :: "ptr \<Rightarrow> err"

definition set_node :: "ptr \<Rightarrow> (tnode \<Rightarrow> tnode) \<Rightarrow> dom \<Rightarrow> dom" where
  "set_node x f s = s\<lparr>t_nodes := (t_nodes s)(x := f (t_nodes s x))\<rparr>"

definition ensure :: "bool \<Rightarrow> unit option" where
  "ensure b = (if b then Some () else None)"

definition is_document :: "dom \<Rightarrow> ptr \<Rightarrow> bool" where
  "is_document s x = (t_type (t_nodes s x) = TINYXML_DOCUMENT)"

text \<open>A node as its constructor leaves it.\<close>

definition new_tnode :: "node_type \<Rightarrow> string \<Rightarrow> tnode" where
  "new_tnode ty v = \<lparr>t_type = ty, t_value = v, t_parent = 0, t_first = 0, t_last = 0, t_prev = 0, t_next = 0\<rparr>"

definition create_node :: "ptr \<Rightarrow> node_type \<Rightarrow> string \<Rightarrow> dom \<Rightarrow> dom" where
  "create_node x ty v s =
     s\<lparr>t_nodes := (t_nodes s)(x := new_tnode ty v), t_live := insert x (t_live s), t_error := (t_error s)(x := None)\<rparr>"

text \<open>\<^verbatim>\<open>GetDocument\<close> climbs to the first document; 0 when there is none.\<close>

partial_function (option) get_document :: "dom \<Rightarrow> ptr \<Rightarrow> ptr option" where
  "get_document s x =
     (if x = 0 then Some 0
      else if x \<notin> t_live s then None
      else if is_document s x then Some x
      else get_document s (t_parent (t_nodes s x)))"

text \<open>The error \<^verbatim>\<open>TIXML_ERROR_DOCUMENT_TOP_ONLY\<close>, if there is a document to hold it.\<close>

definition top_only_error :: "ptr \<Rightarrow> dom \<Rightarrow> dom option" where
  "top_only_error this s =
     map_option (\<lambda>d. if d = 0 then s else s\<lparr>t_error := (t_error s)(d := SetError TIXML_ERROR_DOCUMENT_TOP_ONLY (t_error s d))\<rparr>) (get_document s this)"

section \<open>Deleting\<close>

text \<open>The destructor deletes the children one by one, each pointer to the next sibling read before; \<open>Clear\<close> does the
  same.  The number bounds the nesting of the calls.\<close>

fun delete_node :: "nat \<Rightarrow> ptr \<Rightarrow> dom \<Rightarrow> dom option"
  and delete_chain :: "nat \<Rightarrow> ptr \<Rightarrow> dom \<Rightarrow> dom option" where
  "delete_node 0 x s = None"
| "delete_node (Suc k) x s =
     do {
       ensure (x \<in> t_live s);
       s1 \<leftarrow> delete_chain k (t_first (t_nodes s x)) s;
       Some (s1\<lparr>t_live := t_live s1 - {x}\<rparr>)
     }"
| "delete_chain 0 x s = None"
| "delete_chain (Suc k) x s =
     (if x = 0 then Some s
      else do {
        ensure (x \<in> t_live s);
        let nx = t_next (t_nodes s x);
        s1 \<leftarrow> delete_node k x s;
        delete_chain k nx s1
      })"

definition clear_node :: "nat \<Rightarrow> ptr \<Rightarrow> dom \<Rightarrow> dom option" where
  "clear_node k x s =
     do {
       ensure (x \<in> t_live s);
       s1 \<leftarrow> delete_chain k (t_first (t_nodes s x)) s;
       Some (set_node x (\<lambda>r. r\<lparr>t_first := 0, t_last := 0\<rparr>) s1)
     }"

section \<open>The list of children\<close>

definition link_end_child :: "nat \<Rightarrow> ptr \<Rightarrow> ptr \<Rightarrow> dom \<Rightarrow> (ptr \<times> dom) option" where
  "link_end_child k this node s =
     do {
       ensure (this \<in> t_live s \<and> node \<in> t_live s);
       ensure (t_parent (t_nodes s node) = 0 \<or> t_parent (t_nodes s node) = this);
       dn \<leftarrow> get_document s node;
       dt \<leftarrow> get_document s this;
       ensure (dn = 0 \<or> dn = dt);
       if is_document s node
       then do { s1 \<leftarrow> delete_node k node s; s2 \<leftarrow> top_only_error this s1; Some (0, s2) }
       else do {
         let s1 = set_node node (\<lambda>r. r\<lparr>t_parent := this\<rparr>) s;
         let s2 = set_node node (\<lambda>r. r\<lparr>t_prev := t_last (t_nodes s1 this)\<rparr>) s1;
         let s3 = set_node node (\<lambda>r. r\<lparr>t_next := 0\<rparr>) s2;
         let l = t_last (t_nodes s3 this);
         let s4 = (if l \<noteq> 0 then set_node l (\<lambda>r. r\<lparr>t_next := node\<rparr>) s3
                   else set_node this (\<lambda>r. r\<lparr>t_first := node\<rparr>) s3);
         Some (node, set_node this (\<lambda>r. r\<lparr>t_last := node\<rparr>) s4)
       }
     }"

text \<open>The other operations copy what they insert: \<open>add\<close> is the node given, \<open>node\<close> its copy, 0 when there is no
  memory for it.  An operation on a child of another node does nothing.\<close>

definition insert_before_child :: "ptr \<Rightarrow> ptr \<Rightarrow> ptr \<Rightarrow> ptr \<Rightarrow> dom \<Rightarrow> (ptr \<times> dom) option" where
  "insert_before_child this before add node s =
     (if before = 0 then Some (0, s)
      else do {
        ensure (before \<in> t_live s);
        if t_parent (t_nodes s before) \<noteq> this then Some (0, s)
        else if is_document s add then map_option (Pair 0) (top_only_error this s)
        else if node = 0 then Some (0, s)
        else do {
          let s1 = set_node node (\<lambda>r. r\<lparr>t_parent := this\<rparr>) s;
          let s2 = set_node node (\<lambda>r. r\<lparr>t_next := before\<rparr>) s1;
          let s3 = set_node node (\<lambda>r. r\<lparr>t_prev := t_prev (t_nodes s2 before)\<rparr>) s2;
          let p = t_prev (t_nodes s3 before);
          s4 \<leftarrow> (if p \<noteq> 0 then Some (set_node p (\<lambda>r. r\<lparr>t_next := node\<rparr>) s3)
                 else do {
                   ensure (t_first (t_nodes s3 this) = before);
                   Some (set_node this (\<lambda>r. r\<lparr>t_first := node\<rparr>) s3)
                 });
          Some (node, set_node before (\<lambda>r. r\<lparr>t_prev := node\<rparr>) s4)
        }
      })"

definition insert_after_child :: "ptr \<Rightarrow> ptr \<Rightarrow> ptr \<Rightarrow> ptr \<Rightarrow> dom \<Rightarrow> (ptr \<times> dom) option" where
  "insert_after_child this after add node s =
     (if after = 0 then Some (0, s)
      else do {
        ensure (after \<in> t_live s);
        if t_parent (t_nodes s after) \<noteq> this then Some (0, s)
        else if is_document s add then map_option (Pair 0) (top_only_error this s)
        else if node = 0 then Some (0, s)
        else do {
          let s1 = set_node node (\<lambda>r. r\<lparr>t_parent := this\<rparr>) s;
          let s2 = set_node node (\<lambda>r. r\<lparr>t_prev := after\<rparr>) s1;
          let s3 = set_node node (\<lambda>r. r\<lparr>t_next := t_next (t_nodes s2 after)\<rparr>) s2;
          let n = t_next (t_nodes s3 after);
          s4 \<leftarrow> (if n \<noteq> 0 then Some (set_node n (\<lambda>r. r\<lparr>t_prev := node\<rparr>) s3)
                 else do {
                   ensure (t_last (t_nodes s3 this) = after);
                   Some (set_node this (\<lambda>r. r\<lparr>t_last := node\<rparr>) s3)
                 });
          Some (node, set_node after (\<lambda>r. r\<lparr>t_next := node\<rparr>) s4)
        }
      })"

definition replace_child :: "nat \<Rightarrow> ptr \<Rightarrow> ptr \<Rightarrow> ptr \<Rightarrow> ptr \<Rightarrow> dom \<Rightarrow> (ptr \<times> dom) option" where
  "replace_child k this old add node s =
     (if old = 0 then Some (0, s)
      else do {
        ensure (old \<in> t_live s);
        if t_parent (t_nodes s old) \<noteq> this then Some (0, s)
        else if is_document s add then map_option (Pair 0) (top_only_error this s)
        else if node = 0 then Some (0, s)
        else do {
          let s1 = set_node node (\<lambda>r. r\<lparr>t_next := t_next (t_nodes s old)\<rparr>) s;
          let s2 = set_node node (\<lambda>r. r\<lparr>t_prev := t_prev (t_nodes s1 old)\<rparr>) s1;
          let n = t_next (t_nodes s2 old);
          let s3 = (if n \<noteq> 0 then set_node n (\<lambda>r. r\<lparr>t_prev := node\<rparr>) s2
                    else set_node this (\<lambda>r. r\<lparr>t_last := node\<rparr>) s2);
          let p = t_prev (t_nodes s3 old);
          let s4 = (if p \<noteq> 0 then set_node p (\<lambda>r. r\<lparr>t_next := node\<rparr>) s3
                    else set_node this (\<lambda>r. r\<lparr>t_first := node\<rparr>) s3);
          s5 \<leftarrow> delete_node k old s4;
          Some (node, set_node node (\<lambda>r. r\<lparr>t_parent := this\<rparr>) s5)
        }
      })"

definition remove_child :: "nat \<Rightarrow> ptr \<Rightarrow> ptr \<Rightarrow> dom \<Rightarrow> (bool \<times> dom) option" where
  "remove_child k this x s =
     (if x = 0 then Some (False, s)
      else do {
        ensure (x \<in> t_live s \<and> t_parent (t_nodes s x) = this);
        let n = t_next (t_nodes s x);
        let s1 = (if n \<noteq> 0 then set_node n (\<lambda>r. r\<lparr>t_prev := t_prev (t_nodes s x)\<rparr>) s
                  else set_node this (\<lambda>r. r\<lparr>t_last := t_prev (t_nodes s x)\<rparr>) s);
        let p = t_prev (t_nodes s1 x);
        let s2 = (if p \<noteq> 0 then set_node p (\<lambda>r. r\<lparr>t_next := t_next (t_nodes s1 x)\<rparr>) s1
                  else set_node this (\<lambda>r. r\<lparr>t_first := t_next (t_nodes s1 x)\<rparr>) s1);
        s3 \<leftarrow> delete_node k x s2;
        Some (True, s3)
      })"

section \<open>Searching\<close>

text \<open>The loops that follow \<^verbatim>\<open>next\<close> or \<^verbatim>\<open>prev\<close>, \<open>step\<close>, until a node is right; 0 when there is none.\<close>

partial_function (option) search :: "(tnode \<Rightarrow> ptr) \<Rightarrow> (tnode \<Rightarrow> bool) \<Rightarrow> dom \<Rightarrow> ptr \<Rightarrow> ptr option" where
  "search step P s x =
     (if x = 0 then Some 0
      else if x \<notin> t_live s then None
      else if P (t_nodes s x) then Some x
      else search step P s (step (t_nodes s x)))"

definition first_child :: "string \<Rightarrow> ptr \<Rightarrow> dom \<Rightarrow> ptr option" where
  "first_child v this s = search t_next (\<lambda>r. t_value r = v) s (t_first (t_nodes s this))"

definition last_child :: "string \<Rightarrow> ptr \<Rightarrow> dom \<Rightarrow> ptr option" where
  "last_child v this s = search t_prev (\<lambda>r. t_value r = v) s (t_last (t_nodes s this))"

definition next_sibling :: "string \<Rightarrow> ptr \<Rightarrow> dom \<Rightarrow> ptr option" where
  "next_sibling v this s = search t_next (\<lambda>r. t_value r = v) s (t_next (t_nodes s this))"

definition previous_sibling :: "string \<Rightarrow> ptr \<Rightarrow> dom \<Rightarrow> ptr option" where
  "previous_sibling v this s = search t_prev (\<lambda>r. t_value r = v) s (t_prev (t_nodes s this))"

definition iterate_children :: "ptr \<Rightarrow> ptr \<Rightarrow> dom \<Rightarrow> ptr option" where
  "iterate_children this previous s =
     (if previous = 0 then Some (t_first (t_nodes s this))
      else do {
        ensure (previous \<in> t_live s \<and> t_parent (t_nodes s previous) = this);
        Some (t_next (t_nodes s previous))
      })"

definition iterate_children_named :: "string \<Rightarrow> ptr \<Rightarrow> ptr \<Rightarrow> dom \<Rightarrow> ptr option" where
  "iterate_children_named v this previous s =
     (if previous = 0 then first_child v this s
      else do {
        ensure (previous \<in> t_live s \<and> t_parent (t_nodes s previous) = this);
        next_sibling v previous s
      })"

definition element_node :: "tnode \<Rightarrow> bool" where
  "element_node r = (case t_type r of TINYXML_ELEMENT as \<Rightarrow> True | _ \<Rightarrow> False)"

definition first_child_element :: "ptr \<Rightarrow> dom \<Rightarrow> ptr option" where
  "first_child_element this s = search t_next element_node s (t_first (t_nodes s this))"

definition next_sibling_element :: "ptr \<Rightarrow> dom \<Rightarrow> ptr option" where
  "next_sibling_element this s = search t_next element_node s (t_next (t_nodes s this))"

text \<open>With a name: the loop goes on with the next node of this name until one is an element.\<close>

partial_function (option) search_element :: "string \<Rightarrow> dom \<Rightarrow> ptr \<Rightarrow> ptr option" where
  "search_element v s x =
     (if x = 0 then Some 0
      else if element_node (t_nodes s x) then Some x
      else do { y \<leftarrow> next_sibling v x s; search_element v s y })"

definition first_child_element_named :: "string \<Rightarrow> ptr \<Rightarrow> dom \<Rightarrow> ptr option" where
  "first_child_element_named v this s = do { x \<leftarrow> first_child v this s; search_element v s x }"

definition next_sibling_element_named :: "string \<Rightarrow> ptr \<Rightarrow> dom \<Rightarrow> ptr option" where
  "next_sibling_element_named v this s = do { x \<leftarrow> next_sibling v this s; search_element v s x }"

end
