(* ===== verification/XmlHeapInv.thy ===== *)
theory XmlHeapInv
  imports XmlHeap
begin

text \<open>
  Well-formed documents: the pointers of the nodes agree with lists of children and form trees.  The list of
  the children of a node is a circular list of \<open>CList\<close> once the null pointers at its ends are read as the node
  itself, so the operations are those of \<open>CList\<close>.
\<close>

section \<open>The list of children as a circular list\<close>

text \<open>The null pointer and the head of the list change places.\<close>

definition or_head :: "ptr \<Rightarrow> ptr \<Rightarrow> ptr" where
  "or_head l p = (if p = 0 then l else if p = l then 0 else p)"

definition view :: "dom \<Rightarrow> ptr \<Rightarrow> st_clist" where
  "view s l =
     \<lparr>nxt = (\<lambda>x. or_head l (if x = l then t_first (t_nodes s l) else t_next (t_nodes s x))),
      prv = (\<lambda>x. or_head l (if x = l then t_last (t_nodes s l) else t_prev (t_nodes s x)))\<rparr>"

definition kid :: "dom \<Rightarrow> (ptr \<times> ptr) set" where
  "kid s = {(y, x). y \<in> t_live s \<and> x \<in> t_live s \<and> t_parent (t_nodes s y) = x}"

definition dom_ok :: "dom \<Rightarrow> (ptr \<Rightarrow> ptr list) \<Rightarrow> bool" where
  "dom_ok s C \<longleftrightarrow>
     finite (t_live s) \<and> 0 \<notin> t_live s \<and> acyclic (kid s) \<and>
     (\<forall>x \<in> t_live s. is_clist (view s x) x (C x) \<and> set (C x) = {y \<in> t_live s. t_parent (t_nodes s y) = x}) \<and>
     (\<forall>y \<in> t_live s. t_parent (t_nodes s y) = 0 \<or> t_parent (t_nodes s y) \<in> t_live s) \<and>
     (\<forall>y \<in> t_live s. t_parent (t_nodes s y) = 0 \<longrightarrow> t_prev (t_nodes s y) = 0 \<and> t_next (t_nodes s y) = 0) \<and>
     (\<forall>y \<in> t_live s. is_document s y \<longrightarrow> t_parent (t_nodes s y) = 0)"

lemma view_cong:
  assumes "is_clist (view s l) l cs"
    and "t_first (t_nodes s' l) = t_first (t_nodes s l)" and "t_last (t_nodes s' l) = t_last (t_nodes s l)"
    and "\<And>x. x \<in> set cs \<Longrightarrow> t_next (t_nodes s' x) = t_next (t_nodes s x) \<and> t_prev (t_nodes s' x) = t_prev (t_nodes s x)"
  shows "is_clist (view s' l) l cs"
proof -
  have "dpath (view s' l) l cs l = dpath (view s l) l cs l"
    by (rule dpath_frame) (use assms(2-4) in \<open>auto simp: view_def\<close>)
  then show ?thesis using assms(1) by (simp add: is_clist_def)
qed

lemma or_head_inverse: "or_head l p = q \<longleftrightarrow> p = or_head l q"
  by (auto simp: or_head_def)

text \<open>What the pointers are, for a list \<open>cs\<close> without null pointers.\<close>

lemma child_links:
  assumes "is_clist (view s l) l cs" and "0 \<notin> set (l # cs)"
  shows "t_first (t_nodes s l) = (if cs = [] then 0 else hd cs)"
    and "t_last (t_nodes s l) = (if cs = [] then 0 else last cs)"
    and "cs = xs @ c # ys \<Longrightarrow> t_next (t_nodes s c) = (if ys = [] then 0 else hd ys)"
    and "cs = xs @ c # ys \<Longrightarrow> t_prev (t_nodes s c) = (if xs = [] then 0 else last xs)"
proof -
  have d: "distinct (l # cs)" and path: "dpath (view s l) l cs l" using assms(1) by (simp_all add: is_clist_def)
  have inv: "or_head l q = (if q = l then 0 else q)" if "q \<in> set (l # cs)" for q
    using that assms(2) by (metis or_head_def)
  have "or_head l (t_first (t_nodes s l)) = hd (cs @ [l])" using dpath_hd [OF path] by (simp add: view_def)
  then have "t_first (t_nodes s l) = or_head l (hd (cs @ [l]))" by (rule iffD1 [OF or_head_inverse])
  then show "t_first (t_nodes s l) = (if cs = [] then 0 else hd cs)"
    using inv [of "hd (cs @ [l])"] d by (cases cs) auto
  have "or_head l (t_last (t_nodes s l)) = last (l # cs)" using dpath_last [OF path] by (simp add: view_def)
  then have "t_last (t_nodes s l) = or_head l (last (l # cs))" by (rule iffD1 [OF or_head_inverse])
  moreover have "last (l # cs) \<in> set (l # cs)" by (rule last_in_set) simp
  moreover have "cs \<noteq> [] \<Longrightarrow> last cs \<noteq> l" using d by auto
  ultimately show "t_last (t_nodes s l) = (if cs = [] then 0 else last cs)" using inv by (cases "cs = []") auto
next
  assume cs: "cs = xs @ c # ys"
  have d: "distinct (l # cs)" and l: "dpath (view s l) l xs c" and r: "dpath (view s l) c ys l"
    using assms(1) cs by (simp_all add: is_clist_def)
  have inv: "or_head l q = (if q = l then 0 else q)" if "q \<in> set (l # cs)" for q
    using that assms(2) by (metis or_head_def)
  have c: "c \<noteq> l" using d cs by auto
  then have "or_head l (t_next (t_nodes s c)) = hd (ys @ [l])" using dpath_hd [OF r] by (simp add: view_def)
  then have "t_next (t_nodes s c) = or_head l (hd (ys @ [l]))" by (rule iffD1 [OF or_head_inverse])
  then show "t_next (t_nodes s c) = (if ys = [] then 0 else hd ys)"
    using inv [of "hd (ys @ [l])"] d cs by (cases ys) auto
  have "or_head l (t_prev (t_nodes s c)) = last (l # xs)" using c dpath_last [OF l] by (simp add: view_def)
  then have "t_prev (t_nodes s c) = or_head l (last (l # xs))" by (rule iffD1 [OF or_head_inverse])
  moreover have "last (l # xs) \<in> set (l # xs)" by (rule last_in_set) simp
  then have "last (l # xs) \<in> set (l # cs)" using cs by auto
  moreover have "xs \<noteq> [] \<Longrightarrow> last xs \<noteq> l" using d cs by auto
  ultimately show "t_prev (t_nodes s c) = (if xs = [] then 0 else last xs)" using inv by (cases "xs = []") auto
qed

text \<open>An operation at the node \<open>self\<close>: the nodes \<open>D\<close> go away, a root \<open>n\<close> of \<open>N\<close> is added, and the list of children is
  \<open>cs\<close> afterwards.\<close>

lemma dom_ok_update:
  assumes ok: "dom_ok s C" and me: "self \<in> t_live s" "self \<notin> D"
    and live: "t_live s' = t_live s - D"
    and down: "\<And>y z. (y, z) \<in> kid s \<Longrightarrow> z \<in> D \<Longrightarrow> y \<in> D"
    and up: "\<And>y z. (y, z) \<in> kid s \<Longrightarrow> y \<in> D \<Longrightarrow> z \<in> D \<or> z = self"
    and N: "N = {} \<or> N = {n} \<and> n \<in> t_live s - D \<and> t_parent (t_nodes s n) = 0 \<and> \<not> is_document s n \<and> (self, n) \<notin> (kid s)\<^sup>*"
    and parent: "\<And>y. t_parent (t_nodes s' y) = (if y \<in> N then self else t_parent (t_nodes s y))"
    and type: "\<And>y. t_type (t_nodes s' y) = t_type (t_nodes s y)"
    and cs: "is_clist (view s' self) self cs" "set cs = N \<union> (set (C self) - D)"
    and sibs: "\<And>y. y \<notin> N \<Longrightarrow> y \<notin> set (C self) \<Longrightarrow>
        t_prev (t_nodes s' y) = t_prev (t_nodes s y) \<and> t_next (t_nodes s' y) = t_next (t_nodes s y)"
    and ends: "\<And>y. y \<noteq> self \<Longrightarrow> t_first (t_nodes s' y) = t_first (t_nodes s y) \<and> t_last (t_nodes s' y) = t_last (t_nodes s y)"
  shows "dom_ok s' (C(self := cs))"
proof -
  have C: "is_clist (view s x) x (C x)" "set (C x) = {y \<in> t_live s. t_parent (t_nodes s y) = x}" if "x \<in> t_live s" for x
    using ok that by (simp_all add: dom_ok_def)
  have z: "0 \<notin> t_live s" and fin: "finite (t_live s)" and acy: "acyclic (kid s)" using ok by (simp_all add: dom_ok_def)
  have alone: "t_prev (t_nodes s y) = 0 \<and> t_next (t_nodes s y) = 0" if "y \<in> t_live s" "t_parent (t_nodes s y) = 0" for y
    using ok that by (simp add: dom_ok_def)
  have root: "t_parent (t_nodes s y) = 0" if "y \<in> N" for y using N that by auto
  have sub: "kid s' \<subseteq> kid s \<union> N \<times> {self}"
    using live by (auto simp: kid_def parent split: if_splits)
  have "acyclic (kid s')"
  proof (cases "N = {}")
    case True
    then show ?thesis using acyclic_subset [OF acy] sub by simp
  next
    case False
    then have "acyclic (insert (n, self) (kid s))" using N acy by (simp add: acyclic_insert)
    then show ?thesis by (rule acyclic_subset) (use sub N False in auto)
  qed
  moreover have "is_clist (view s' x) x ((C(self := cs)) x) \<and>
      set ((C(self := cs)) x) = {y \<in> t_live s'. t_parent (t_nodes s' y) = x}" if x: "x \<in> t_live s'" for x
  proof (cases "x = self")
    case True
    have "{y \<in> t_live s'. t_parent (t_nodes s' y) = self} = N \<union> (set (C self) - D)"
      using N C(2) [OF me(1)] live me z by (auto simp: parent)
    then show ?thesis using cs True by simp
  next
    case False
    have xs: "x \<in> t_live s" using x live by simp
    have other: "y \<notin> N \<and> y \<notin> set (C self) \<and> y \<notin> D" if "y \<in> set (C x)" for y
    proof -
      have y: "y \<in> t_live s" "t_parent (t_nodes s y) = x" using that C(2) [OF xs] by auto
      moreover have "x \<noteq> 0" using xs z by metis
      moreover have "y \<notin> D"
      proof
        assume "y \<in> D"
        moreover have "(y, x) \<in> kid s" using y xs by (simp add: kid_def)
        ultimately have "x \<in> D \<or> x = self" by (rule up [rotated])
        then show False using x False live by simp
      qed
      ultimately show ?thesis using C(2) [OF me(1)] False root by auto
    qed
    have "is_clist (view s' x) x (C x)"
      by (rule view_cong [OF C(1) [OF xs]]) (use ends sibs other False in auto)
    moreover have "set (C x) = {y \<in> t_live s'. t_parent (t_nodes s' y) = x}"
      using C(2) [OF xs] other live False z xs by (auto simp: parent)
    ultimately show ?thesis using False by simp
  qed
  moreover have "t_parent (t_nodes s' y) = 0 \<or> t_parent (t_nodes s' y) \<in> t_live s'" if y: "y \<in> t_live s'" for y
  proof (cases "y \<in> N \<or> t_parent (t_nodes s y) = 0")
    case True
    then show ?thesis using me live by (auto simp: parent)
  next
    case False
    have "t_parent (t_nodes s y) \<in> t_live s" using ok y live False by (auto simp: dom_ok_def)
    moreover from this have "(y, t_parent (t_nodes s y)) \<in> kid s" using y live by (simp add: kid_def)
    then have "t_parent (t_nodes s y) \<notin> D" using down y live by auto
    ultimately show ?thesis using False live by (simp add: parent)
  qed
  moreover have "t_prev (t_nodes s' y) = 0 \<and> t_next (t_nodes s' y) = 0"
    if "y \<in> t_live s'" "t_parent (t_nodes s' y) = 0" for y
  proof -
    have p: "y \<notin> N" "t_parent (t_nodes s y) = 0" using that me z by (auto simp: parent split: if_splits)
    have "y \<notin> set (C self)" using p(2) C(2) [OF me(1)] me(1) z by auto
    then have "t_prev (t_nodes s' y) = t_prev (t_nodes s y) \<and> t_next (t_nodes s' y) = t_next (t_nodes s y)"
      by (rule sibs [OF p(1)])
    moreover have "t_prev (t_nodes s y) = 0 \<and> t_next (t_nodes s y) = 0"
      by (rule alone) (use p(2) that(1) live in simp_all)
    ultimately show ?thesis by simp
  qed
  moreover have "t_parent (t_nodes s' y) = 0" if "y \<in> t_live s'" "is_document s' y" for y
    using that ok live N by (auto simp: parent is_document_def type dom_ok_def)
  ultimately show ?thesis using live fin z by (simp add: dom_ok_def)
qed

section \<open>Documents\<close>

lemma dom_okD:
  assumes "dom_ok s C"
  shows "0 \<notin> t_live s" and "x \<in> t_live s \<Longrightarrow> is_clist (view s x) x (C x)"
    and "x \<in> t_live s \<Longrightarrow> y \<in> set (C x) \<longleftrightarrow> y \<in> t_live s \<and> t_parent (t_nodes s y) = x"
    and "y \<in> t_live s \<Longrightarrow> t_parent (t_nodes s y) = 0 \<or> t_parent (t_nodes s y) \<in> t_live s"
    and "acyclic (kid s)" and "finite (t_live s)"
  using assms by (auto simp: dom_ok_def)

lemma finite_kid: "dom_ok s C \<Longrightarrow> finite (kid s)"
  by (rule finite_subset [of _ "t_live s \<times> t_live s"]) (auto simp: kid_def dom_ok_def)

lemma wf_kid: "dom_ok s C \<Longrightarrow> wf (kid s)"
  using finite_kid dom_okD(5) by (blast intro: finite_acyclic_wf)

lemma wf_kid_up: "dom_ok s C \<Longrightarrow> wf ((kid s)\<inverse>)"
  using finite_kid dom_okD(5) by (blast intro: finite_acyclic_wf_converse)

text \<open>\<^verbatim>\<open>GetDocument\<close> ends at the root of the tree.\<close>

lemma get_document_returns:
  assumes "dom_ok s C" and "x \<in> t_live s"
  shows "\<exists>d. get_document s x = Some d \<and> (d = 0 \<or> d \<in> t_live s \<and> is_document s d \<and> (x, d) \<in> (kid s)\<^sup>*)"
  using assms(2)
proof (induction x rule: wf_induct_rule [OF wf_kid_up [OF assms(1)]])
  case (1 x)
  have "x \<noteq> 0" using 1(2) dom_okD(1) [OF assms(1)] by metis
  then have step: "get_document s x = (if is_document s x then Some x else get_document s (t_parent (t_nodes s x)))"
    using 1(2) by (subst get_document.simps) simp
  show ?case
  proof (cases "is_document s x \<or> t_parent (t_nodes s x) = 0")
    case True
    then show ?thesis using step 1(2) by (auto simp: get_document.simps [of s 0])
  next
    case False
    then have p: "t_parent (t_nodes s x) \<in> t_live s" using dom_okD(4) [OF assms(1) 1(2)] by simp
    then have k: "(x, t_parent (t_nodes s x)) \<in> kid s" using 1(2) by (simp add: kid_def)
    then have "(t_parent (t_nodes s x), x) \<in> (kid s)\<inverse>" by simp
    from 1(1) [OF this p] show ?thesis using step False k by (auto intro: converse_rtrancl_into_rtrancl)
  qed
qed

text \<open>Two nodes of one tree have the same document.\<close>

lemma get_document_root:
  assumes "x \<in> t_live s" and "x \<noteq> 0" and "t_parent (t_nodes s x) = 0" and "\<not> is_document s x"
  shows "get_document s x = Some 0"
  using assms by (simp add: get_document.simps [of s x] get_document.simps [of s 0])

section \<open>Deleting a tree\<close>

definition tree :: "dom \<Rightarrow> ptr \<Rightarrow> ptr set" where
  "tree s x = {y. (y, x) \<in> (kid s)\<^sup>*}"

lemma kid_fun: "(y, x) \<in> kid s \<Longrightarrow> (y, z) \<in> kid s \<Longrightarrow> x = z"
  by (simp add: kid_def)

text \<open>Two ancestors of a node are one above the other, so the trees of two siblings have no node in common.\<close>

lemma ancestors_linear:
  assumes "(y, a) \<in> (kid s)\<^sup>*" and "(y, b) \<in> (kid s)\<^sup>*"
  shows "(a, b) \<in> (kid s)\<^sup>* \<or> (b, a) \<in> (kid s)\<^sup>*"
  using assms
proof (induction rule: rtrancl_induct)
  case (step a a')
  then show ?case by (metis converse_rtranclE kid_fun r_into_rtrancl rtrancl_trans rtrancl.rtrancl_refl)
qed simp

lemma siblings_disjoint:
  assumes "dom_ok s C" and "(a, x) \<in> kid s" and "(b, x) \<in> kid s" and "a \<noteq> b"
  shows "tree s a \<inter> tree s b = {}"
proof (rule ccontr)
  assume "tree s a \<inter> tree s b \<noteq> {}"
  then obtain y where "(y, a) \<in> (kid s)\<^sup>*" "(y, b) \<in> (kid s)\<^sup>*" by (auto simp: tree_def)
  then have "(a, b) \<in> (kid s)\<^sup>* \<or> (b, a) \<in> (kid s)\<^sup>*" by (rule ancestors_linear)
  then have "(x, x) \<in> (kid s)\<^sup>+"
    using assms(2-4) by (metis converse_rtranclE kid_fun rtrancl_into_trancl1)
  then show False using dom_okD(5) [OF assms(1)] by (simp add: acyclic_def)
qed

lemma tree_kids: "tree s x = insert x (\<Union>y \<in> {y. (y, x) \<in> kid s}. tree s y)"
  by (auto simp: tree_def elim: rtranclE intro: rtrancl_into_rtrancl)

lemma tree_not_self: "dom_ok s C \<Longrightarrow> (y, x) \<in> kid s \<Longrightarrow> x \<notin> tree s y"
  using dom_okD(5) by (fastforce simp: tree_def acyclic_def dest: rtrancl_into_trancl1)

lemma tree_live: "x \<in> t_live s \<Longrightarrow> tree s x \<subseteq> t_live s"
  by (auto simp: tree_def kid_def elim: converse_rtranclE)

text \<open>With enough calls a node is deleted with its tree, each node once.  The pointers between the node and its
  neighbours are not read.\<close>

definition same_tree :: "dom \<Rightarrow> dom \<Rightarrow> ptr set \<Rightarrow> ptr set \<Rightarrow> bool" where
  "same_tree s s' A B \<longleftrightarrow> A \<subseteq> t_live s' \<and> (\<forall>z \<in> A. t_first (t_nodes s' z) = t_first (t_nodes s z)) \<and>
     (\<forall>z \<in> B. t_next (t_nodes s' z) = t_next (t_nodes s z))"

lemma delete_chain_tree:
  assumes ok: "dom_ok s C" and x: "x \<in> t_live s" and cs: "C x = xs @ cs"
    and IH: "\<And>c. c \<in> set cs \<Longrightarrow> \<exists>n. \<forall>k \<ge> n. \<forall>s'. same_tree s s' (tree s c) (tree s c - {c}) \<longrightarrow>
      delete_node k c s' = Some (s'\<lparr>t_live := t_live s' - tree s c\<rparr>)"
  shows "\<exists>n. \<forall>k \<ge> n. \<forall>s'. same_tree s s' (\<Union>c \<in> set cs. tree s c) (\<Union>c \<in> set cs. tree s c) \<longrightarrow>
      delete_chain k (hd (cs @ [0])) s' = Some (s'\<lparr>t_live := t_live s' - (\<Union>c \<in> set cs. tree s c)\<rparr>)"
  using cs IH
proof (induction cs arbitrary: xs)
  case Nil
  show ?case
  proof (intro exI [of _ 1] allI impI)
    fix k s'
    assume "1 \<le> (k :: nat)"
    then show "delete_chain k (hd ([] @ [0])) s' = Some (s'\<lparr>t_live := t_live s' - (\<Union>c \<in> set []. tree s c)\<rparr>)"
      by (cases k) simp_all
  qed
next
  case (Cons c cs)
  obtain n1 where n1: "\<And>k s'. n1 \<le> k \<Longrightarrow> same_tree s s' (tree s c) (tree s c - {c}) \<Longrightarrow>
      delete_node k c s' = Some (s'\<lparr>t_live := t_live s' - tree s c\<rparr>)"
    using Cons.prems(2) [of c] by auto
  have "\<exists>n. \<forall>k \<ge> n. \<forall>s'. same_tree s s' (\<Union>c \<in> set cs. tree s c) (\<Union>c \<in> set cs. tree s c) \<longrightarrow>
      delete_chain k (hd (cs @ [0])) s' = Some (s'\<lparr>t_live := t_live s' - (\<Union>c \<in> set cs. tree s c)\<rparr>)"
    by (rule Cons.IH [of "xs @ [c]"]) (use Cons.prems in auto)
  then obtain n2 where n2: "\<And>k s'. n2 \<le> k \<Longrightarrow> same_tree s s' (\<Union>c \<in> set cs. tree s c) (\<Union>c \<in> set cs. tree s c) \<Longrightarrow>
      delete_chain k (hd (cs @ [0])) s' = Some (s'\<lparr>t_live := t_live s' - (\<Union>c \<in> set cs. tree s c)\<rparr>)"
    by blast
  have clist: "is_clist (view s x) x (C x)" by (rule dom_okD(2) [OF ok x])
  have mem: "y \<in> set (C x) \<longleftrightarrow> y \<in> t_live s \<and> t_parent (t_nodes s y) = x" for y by (rule dom_okD(3) [OF ok x])
  have "x \<noteq> 0" using dom_okD(1) [OF ok] x by metis
  then have z: "0 \<notin> set (x # C x)" using mem dom_okD(1) [OF ok] by auto
  have c: "c \<noteq> 0" "c \<in> tree s c" using z Cons.prems(1) by (auto simp: tree_def)
  have nx: "t_next (t_nodes s c) = hd (cs @ [0])"
    using child_links(3) [OF clist z Cons.prems(1)] by (cases cs) simp_all
  have dis: "tree s c \<inter> tree s d = {}" if "d \<in> set cs" for d
  proof (rule siblings_disjoint [OF ok])
    have "c \<in> set (C x)" "d \<in> set (C x)" using that Cons.prems(1) by auto
    then show "(c, x) \<in> kid s" "(d, x) \<in> kid s" using mem x by (auto simp: kid_def)
    have "distinct (C x)" using clist by (simp add: is_clist_def)
    then show "c \<noteq> d" using that Cons.prems(1) by auto
  qed
  show ?case
  proof (intro exI [of _ "Suc (max n1 n2)"] allI impI)
    fix k s'
    assume k: "Suc (max n1 n2) \<le> k"
      and same: "same_tree s s' (\<Union>c \<in> set (c # cs). tree s c) (\<Union>c \<in> set (c # cs). tree s c)"
    then obtain j where j: "k = Suc j" "n1 \<le> j" "n2 \<le> j" by (cases k) auto
    define s1 where "s1 = s'\<lparr>t_live := t_live s' - tree s c\<rparr>"
    have d1: "delete_node j c s' = Some s1"
      unfolding s1_def by (rule n1 [OF j(2)]) (use same in \<open>auto simp: same_tree_def\<close>)
    have "same_tree s s1 (\<Union>c \<in> set cs. tree s c) (\<Union>c \<in> set cs. tree s c)"
      using same dis by (auto simp: same_tree_def s1_def)
    then have d2: "delete_chain j (hd (cs @ [0])) s1 = Some (s1\<lparr>t_live := t_live s1 - (\<Union>c \<in> set cs. tree s c)\<rparr>)"
      by (rule n2 [OF j(3)])
    have "c \<in> t_live s'" "t_next (t_nodes s' c) = hd (cs @ [0])"
      using same c(2) nx by (auto simp: same_tree_def)
    then show "delete_chain k (hd ((c # cs) @ [0])) s' =
        Some (s'\<lparr>t_live := t_live s' - (\<Union>c \<in> set (c # cs). tree s c)\<rparr>)"
      using c d1 d2 by (simp add: j(1) ensure_def Let_def s1_def set_diff_eq)
  qed
qed

lemma delete_node_tree:
  assumes ok: "dom_ok s C" and "x \<in> t_live s"
  shows "\<exists>n. \<forall>k \<ge> n. \<forall>s'. same_tree s s' (tree s x) (tree s x - {x}) \<longrightarrow>
      delete_node k x s' = Some (s'\<lparr>t_live := t_live s' - tree s x\<rparr>)"
  using assms(2)
proof (induction x rule: wf_induct_rule [OF wf_kid [OF ok]])
  case (1 x)
  have mem: "y \<in> set (C x) \<longleftrightarrow> (y, x) \<in> kid s" for y
    using dom_okD(3) [OF ok 1(2)] 1(2) by (auto simp: kid_def)
  have live: "c \<in> t_live s" if "c \<in> set (C x)" for c using that mem by (simp add: kid_def)
  have "\<exists>n. \<forall>k \<ge> n. \<forall>s'. same_tree s s' (\<Union>c \<in> set (C x). tree s c) (\<Union>c \<in> set (C x). tree s c) \<longrightarrow>
      delete_chain k (hd (C x @ [0])) s' = Some (s'\<lparr>t_live := t_live s' - (\<Union>c \<in> set (C x). tree s c)\<rparr>)"
    by (rule delete_chain_tree [OF ok 1(2), of "[]"]) (use 1(1) mem live in auto)
  then obtain n where n: "\<And>k s'. n \<le> k \<Longrightarrow> same_tree s s' (\<Union>c \<in> set (C x). tree s c) (\<Union>c \<in> set (C x). tree s c) \<Longrightarrow>
      delete_chain k (hd (C x @ [0])) s' = Some (s'\<lparr>t_live := t_live s' - (\<Union>c \<in> set (C x). tree s c)\<rparr>)"
    by blast
  have t: "tree s x = insert x (\<Union>c \<in> set (C x). tree s c)"
    using tree_kids [of s x] by (simp add: mem [symmetric])
  have x: "x \<notin> (\<Union>c \<in> set (C x). tree s c)" using tree_not_self [OF ok] mem by auto
  have "x \<noteq> 0" using dom_okD(1) [OF ok] 1(2) by metis
  then have "0 \<notin> set (x # C x)" using live dom_okD(1) [OF ok] by auto
  then have first: "t_first (t_nodes s x) = hd (C x @ [0])"
    using child_links(1) [OF dom_okD(2) [OF ok 1(2)]] by (cases "C x") auto
  show ?case
  proof (intro exI [of _ "Suc n"] allI impI)
    fix k s'
    assume k: "Suc n \<le> k" and same: "same_tree s s' (tree s x) (tree s x - {x})"
    then obtain j where j: "k = Suc j" "n \<le> j" by (cases k) auto
    have "same_tree s s' (\<Union>c \<in> set (C x). tree s c) (\<Union>c \<in> set (C x). tree s c)"
      using same x by (auto simp: same_tree_def t)
    then have "delete_chain j (hd (C x @ [0])) s' = Some (s'\<lparr>t_live := t_live s' - (\<Union>c \<in> set (C x). tree s c)\<rparr>)"
      by (rule n [OF j(2)])
    moreover have "x \<in> t_live s'" "t_first (t_nodes s' x) = hd (C x @ [0])"
      using same first by (auto simp: same_tree_def t)
    moreover have "t_live s' - (\<Union>c \<in> set (C x). tree s c) - {x} = t_live s' - tree s x" by (auto simp: t)
    ultimately show "delete_node k x s' = Some (s'\<lparr>t_live := t_live s' - tree s x\<rparr>)"
      by (simp add: j(1) ensure_def)
  qed
qed

section \<open>The operations as operations on circular lists\<close>

text \<open>What an operation at \<open>self\<close> changes: the parents of \<open>N\<close>, the siblings of \<open>N\<close> and \<open>cs\<close>, and the ends of the list
  at \<open>self\<close>.\<close>

definition relinks :: "dom \<Rightarrow> dom \<Rightarrow> ptr \<Rightarrow> ptr set \<Rightarrow> ptr list \<Rightarrow> bool" where
  "relinks s s' self N cs \<longleftrightarrow>
     t_live s' = t_live s \<and> t_error s' = t_error s \<and>
     (\<forall>y. t_type (t_nodes s' y) = t_type (t_nodes s y) \<and> t_value (t_nodes s' y) = t_value (t_nodes s y) \<and>
       t_parent (t_nodes s' y) = (if y \<in> N then self else t_parent (t_nodes s y))) \<and>
     (\<forall>y. y \<notin> N \<longrightarrow> y \<notin> set cs \<longrightarrow>
       t_prev (t_nodes s' y) = t_prev (t_nodes s y) \<and> t_next (t_nodes s' y) = t_next (t_nodes s y)) \<and>
     (\<forall>y. y \<noteq> self \<longrightarrow> t_first (t_nodes s' y) = t_first (t_nodes s y) \<and> t_last (t_nodes s' y) = t_last (t_nodes s y))"

lemma nonzero: "q \<in> A \<Longrightarrow> 0 \<notin> A \<Longrightarrow> 0 < (q :: nat)"
  by (metis gr0I)

lemma nodes_set_node [simp]:
  "t_nodes (set_node x f s) y = (if y = x then f (t_nodes s x) else t_nodes s y)"
  "t_live (set_node x f s) = t_live s"
  "t_error (set_node x f s) = t_error s"
  by (simp_all add: set_node_def)

text \<open>A pointer written is a pointer of the circular list written.\<close>

lemma view_set_node:
  "x \<noteq> l \<Longrightarrow> view (set_node x (\<lambda>r. r\<lparr>t_next := q\<rparr>) s) l = set_nxt x (or_head l q) (view s l)"
  "x \<noteq> l \<Longrightarrow> view (set_node x (\<lambda>r. r\<lparr>t_prev := q\<rparr>) s) l = set_prv x (or_head l q) (view s l)"
  "view (set_node l (\<lambda>r. r\<lparr>t_first := q\<rparr>) s) l = set_nxt l (or_head l q) (view s l)"
  "view (set_node l (\<lambda>r. r\<lparr>t_last := q\<rparr>) s) l = set_prv l (or_head l q) (view s l)"
  "view (set_node x (\<lambda>r. r\<lparr>t_parent := q\<rparr>) s) l = view s l"
  by (auto simp: view_def set_nxt_def set_prv_def fun_eq_iff)

lemma view_links:
  "x \<noteq> l \<Longrightarrow> nxt (view s l) x = or_head l (t_next (t_nodes s x))"
  "x \<noteq> l \<Longrightarrow> prv (view s l) x = or_head l (t_prev (t_nodes s x))"
  "prv (view s l) l = or_head l (t_last (t_nodes s l))"
  by (simp_all add: view_def)

lemma or_head_simps [simp]: "or_head l 0 = l" "or_head l l = 0" "0 < p \<Longrightarrow> p \<noteq> l \<Longrightarrow> or_head l p = p"
  by (simp_all add: or_head_def)

lemmas view_simps = view_set_node view_links clist_macro_defs

lemma relinks_refl: "relinks s s self {} cs"
  by (simp add: relinks_def)

lemma relinks_parent: "relinks s s' self {} cs \<Longrightarrow> relinks s (set_node n (\<lambda>r. r\<lparr>t_parent := self\<rparr>) s') self {n} cs"
  by (simp add: relinks_def)

lemma relinks_sibling:
  assumes "relinks s s' self N cs" and "x \<in> N \<union> set cs"
  shows "relinks s (set_node x (\<lambda>r. r\<lparr>t_prev := q\<rparr>) s') self N cs"
    and "relinks s (set_node x (\<lambda>r. r\<lparr>t_next := q\<rparr>) s') self N cs"
  using assms by (auto simp: relinks_def)

lemma relinks_ends:
  assumes "relinks s s' self N cs"
  shows "relinks s (set_node self (\<lambda>r. r\<lparr>t_first := q\<rparr>) s') self N cs"
    and "relinks s (set_node self (\<lambda>r. r\<lparr>t_last := q\<rparr>) s') self N cs"
  using assms by (simp_all add: relinks_def)

lemmas relinks_rules = relinks_ends relinks_sibling relinks_parent relinks_refl

lemma ensure_bind [simp]: "b \<Longrightarrow> ensure b = Some ()"
  by (simp add: ensure_def)

lemma link_end_effect:
  assumes "is_clist (view s self) self cs" and "0 \<notin> set (self # cs)" and "node \<notin> set (self # cs)" and "node \<noteq> 0"
    and "self \<in> t_live s" and "node \<in> t_live s" and "t_parent (t_nodes s node) = 0"
    and "get_document s node = Some 0" and "get_document s self = Some d" and "\<not> is_document s node"
  shows "\<exists>s'. link_end_child k self node s = Some (node, s') \<and>
    view s' self = ST_APPEND_LINK node self (view s self) \<and> relinks s s' self {node} cs"
proof -
  define l where "l = t_last (t_nodes s self)"
  have "l = (if cs = [] then 0 else last cs)" unfolding l_def by (rule child_links(2) [OF assms(1,2)])
  then have l: "l = 0 \<or> l \<in> set cs \<and> l \<noteq> self \<and> l \<noteq> node \<and> 0 < l"
    using assms(1-3) nonzero [of l "set cs"] by (cases "cs = []") (auto simp: is_clist_def)
  have ne: "node \<noteq> self" "self \<noteq> node" "0 < node" using assms(3,4) by auto
  define s3 where "s3 = set_node node (\<lambda>r. r\<lparr>t_next := 0\<rparr>)
    (set_node node (\<lambda>r. r\<lparr>t_prev := l\<rparr>) (set_node node (\<lambda>r. r\<lparr>t_parent := self\<rparr>) s))"
  define s4 where "s4 = (if l \<noteq> 0 then set_node l (\<lambda>r. r\<lparr>t_next := node\<rparr>) s3
    else set_node self (\<lambda>r. r\<lparr>t_first := node\<rparr>) s3)"
  define s' where "s' = set_node self (\<lambda>r. r\<lparr>t_last := node\<rparr>) s4"
  have "link_end_child k self node s = Some (node, s')"
    using assms(5-10) ne by (simp add: link_end_child_def Let_def s'_def s4_def s3_def l_def)
  moreover have "view s' self = ST_APPEND_LINK node self (view s self)"
    using l ne by (cases "l = 0") (auto simp: s'_def s4_def s3_def view_simps l_def [symmetric])
  moreover have "relinks s s' self {node} cs"
    using l by (cases "l = 0") (auto simp: s'_def s4_def s3_def intro!: relinks_rules)
  ultimately show ?thesis by blast
qed



lemma insert_before_effect:
  assumes "is_clist (view s self) self (xs @ b # ys)" and "0 \<notin> set (self # xs @ b # ys)"
    and "node \<notin> set (self # xs @ b # ys)" and "node \<noteq> 0" and "b \<in> t_live s" and "t_parent (t_nodes s b) = self"
    and "\<not> is_document s add"
  shows "\<exists>s'. insert_before_child self b add node s = Some (node, s') \<and>
    view s' self = ST_INSERT_BEFORE node b (view s self) \<and> relinks s s' self {node} (xs @ b # ys)"
proof -
  define l where "l = t_prev (t_nodes s b)"
  have "l = (if xs = [] then 0 else last xs)" unfolding l_def by (rule child_links(4) [OF assms(1,2) refl])
  then have l: "l = 0 \<and> xs = [] \<or> l \<in> set xs \<and> l \<noteq> self \<and> l \<noteq> node \<and> l \<noteq> b \<and> 0 < l"
    using assms(1-3) nonzero [of l "set xs"] by (cases "xs = []") (auto simp: is_clist_def)
  have f: "t_first (t_nodes s self) = hd (xs @ [b])"
    using child_links(1) [OF assms(1,2)] by (cases xs) simp_all
  have ne: "node \<noteq> self" "node \<noteq> b" "b \<noteq> self" "b \<noteq> node" "self \<noteq> node" "self \<noteq> b" "0 < node" "0 < b"
    using assms(1-4) by (auto simp: is_clist_def)
  define s3 where "s3 = set_node node (\<lambda>r. r\<lparr>t_prev := l\<rparr>)
    (set_node node (\<lambda>r. r\<lparr>t_next := b\<rparr>) (set_node node (\<lambda>r. r\<lparr>t_parent := self\<rparr>) s))"
  define s4 where "s4 = (if l \<noteq> 0 then set_node l (\<lambda>r. r\<lparr>t_next := node\<rparr>) s3
    else set_node self (\<lambda>r. r\<lparr>t_first := node\<rparr>) s3)"
  define s' where "s' = set_node b (\<lambda>r. r\<lparr>t_prev := node\<rparr>) s4"
  have "insert_before_child self b add node s = Some (node, s')"
    using assms(5-7) ne l f by (auto simp: insert_before_child_def Let_def s'_def s4_def s3_def l_def)
  moreover have "view s' self = ST_INSERT_BEFORE node b (view s self)"
    using l ne by (cases "l = 0") (auto simp: s'_def s4_def s3_def view_simps l_def [symmetric])
  moreover have "relinks s s' self {node} (xs @ b # ys)"
    using l by (cases "l = 0") (auto simp: s'_def s4_def s3_def intro!: relinks_rules)
  ultimately show ?thesis by blast
qed

lemma insert_after_effect:
  assumes "is_clist (view s self) self (xs @ b # ys)" and "0 \<notin> set (self # xs @ b # ys)"
    and "node \<notin> set (self # xs @ b # ys)" and "node \<noteq> 0" and "b \<in> t_live s" and "t_parent (t_nodes s b) = self"
    and "\<not> is_document s add"
  shows "\<exists>s'. insert_after_child self b add node s = Some (node, s') \<and>
    view s' self = ST_INSERT_AFTER node b (view s self) \<and> relinks s s' self {node} (xs @ b # ys)"
proof -
  define n where "n = t_next (t_nodes s b)"
  have "n = (if ys = [] then 0 else hd ys)" unfolding n_def by (rule child_links(3) [OF assms(1,2) refl])
  then have n: "n = 0 \<and> ys = [] \<or> n \<in> set ys \<and> n \<noteq> self \<and> n \<noteq> node \<and> n \<noteq> b \<and> 0 < n"
    using assms(1-3) nonzero [of n "set ys"] by (cases "ys = []") (auto simp: is_clist_def)
  have f: "t_last (t_nodes s self) = last (b # ys)" using child_links(2) [OF assms(1,2)] by simp
  have ne: "node \<noteq> self" "node \<noteq> b" "b \<noteq> self" "b \<noteq> node" "self \<noteq> node" "self \<noteq> b" "0 < node" "0 < b"
    using assms(1-4) by (auto simp: is_clist_def)
  define s3 where "s3 = set_node node (\<lambda>r. r\<lparr>t_next := n\<rparr>)
    (set_node node (\<lambda>r. r\<lparr>t_prev := b\<rparr>) (set_node node (\<lambda>r. r\<lparr>t_parent := self\<rparr>) s))"
  define s4 where "s4 = (if n \<noteq> 0 then set_node n (\<lambda>r. r\<lparr>t_prev := node\<rparr>) s3
    else set_node self (\<lambda>r. r\<lparr>t_last := node\<rparr>) s3)"
  define s' where "s' = set_node b (\<lambda>r. r\<lparr>t_next := node\<rparr>) s4"
  have "insert_after_child self b add node s = Some (node, s')"
    using assms(5-7) ne n f by (auto simp: insert_after_child_def Let_def s'_def s4_def s3_def n_def)
  moreover have "view s' self = ST_INSERT_AFTER node b (view s self)"
    using n ne by (cases "n = 0") (auto simp: s'_def s4_def s3_def view_simps n_def [symmetric])
  moreover have "relinks s s' self {node} (xs @ b # ys)"
    using n by (cases "n = 0") (auto simp: s'_def s4_def s3_def intro!: relinks_rules)
  ultimately show ?thesis by blast
qed

lemma bind_Some_map: "m \<bind> (\<lambda>s. Some (f s)) = map_option f m"
  by (cases m) simp_all

lemma remove_effect:
  assumes "is_clist (view s self) self (xs @ b # ys)" and "0 \<notin> set (self # xs @ b # ys)"
    and "b \<in> t_live s" and "t_parent (t_nodes s b) = self"
  shows "\<exists>s2. (\<forall>k. remove_child k self b s = map_option (Pair True) (delete_node k b s2)) \<and>
    view s2 self = ST_REMOVE_LINK b (view s self) \<and> relinks s s2 self {} (xs @ b # ys)"
proof -
  define n where "n = t_next (t_nodes s b)"
  define l where "l = t_prev (t_nodes s b)"
  have "n = (if ys = [] then 0 else hd ys)" unfolding n_def by (rule child_links(3) [OF assms(1,2) refl])
  then have n: "n = 0 \<or> n \<in> set ys \<and> n \<noteq> self \<and> n \<noteq> b \<and> 0 < n"
    using assms(1,2) nonzero [of n "set ys"] by (cases "ys = []") (auto simp: is_clist_def)
  have "l = (if xs = [] then 0 else last xs)" unfolding l_def by (rule child_links(4) [OF assms(1,2) refl])
  then have l: "l = 0 \<or> l \<in> set xs \<and> l \<noteq> self \<and> l \<noteq> b \<and> 0 < l"
    using assms(1,2) nonzero [of l "set xs"] by (cases "xs = []") (auto simp: is_clist_def)
  have ne: "b \<noteq> self" "self \<noteq> b" "0 < b" using assms(1,2) by (auto simp: is_clist_def)
  define s1 where "s1 = (if n \<noteq> 0 then set_node n (\<lambda>r. r\<lparr>t_prev := l\<rparr>) s else set_node self (\<lambda>r. r\<lparr>t_last := l\<rparr>) s)"
  define s2 where "s2 = (if l \<noteq> 0 then set_node l (\<lambda>r. r\<lparr>t_next := n\<rparr>) s1 else set_node self (\<lambda>r. r\<lparr>t_first := n\<rparr>) s1)"
  have "remove_child k self b s = map_option (Pair True) (delete_node k b s2)" for k
    using n ne assms(3,4) by (cases "n = 0")
      (auto simp: remove_child_def bind_Some_map Let_def s1_def s2_def n_def [symmetric] l_def [symmetric])
  moreover have "view s2 self = ST_REMOVE_LINK b (view s self)"
    using n l ne by (cases "n = 0"; cases "l = 0")
      (auto simp: s1_def s2_def view_simps n_def [symmetric] l_def [symmetric])
  moreover have "relinks s s2 self {} (xs @ b # ys)"
    using n l by (cases "n = 0"; cases "l = 0") (auto simp: s1_def s2_def intro!: relinks_rules)
  ultimately show ?thesis by blast
qed

text \<open>Replacing is inserting the new node before the old one and removing the old one.\<close>

lemma replace_effect:
  assumes "is_clist (view s self) self (xs @ b # ys)" and "0 \<notin> set (self # xs @ b # ys)"
    and "node \<notin> set (self # xs @ b # ys)" and "node \<noteq> 0" and "b \<in> t_live s" and "t_parent (t_nodes s b) = self"
    and "\<not> is_document s add"
  shows "\<exists>s4. (\<forall>k. replace_child k self b add node s =
      map_option (\<lambda>s5. (node, set_node node (\<lambda>r. r\<lparr>t_parent := self\<rparr>) s5)) (delete_node k b s4)) \<and>
    is_clist (view s4 self) self (xs @ node # ys) \<and> relinks s s4 self {} (node # xs @ b # ys)"
proof -
  define n where "n = t_next (t_nodes s b)"
  define l where "l = t_prev (t_nodes s b)"
  have "n = (if ys = [] then 0 else hd ys)" unfolding n_def by (rule child_links(3) [OF assms(1,2) refl])
  then have n: "n = 0 \<or> n \<in> set ys \<and> n \<noteq> self \<and> n \<noteq> node \<and> n \<noteq> b \<and> 0 < n"
    using assms(1-3) nonzero [of n "set ys"] by (cases "ys = []") (auto simp: is_clist_def)
  have "l = (if xs = [] then 0 else last xs)" unfolding l_def by (rule child_links(4) [OF assms(1,2) refl])
  then have l: "l = 0 \<or> l \<in> set xs \<and> l \<noteq> self \<and> l \<noteq> node \<and> l \<noteq> b \<and> 0 < l"
    using assms(1-3) nonzero [of l "set xs"] by (cases "xs = []") (auto simp: is_clist_def)
  have ne: "node \<noteq> self" "node \<noteq> b" "b \<noteq> self" "b \<noteq> node" "self \<noteq> node" "self \<noteq> b" "0 < node" "0 < b"
    using assms(1-4) by (auto simp: is_clist_def)
  define s2 where "s2 = set_node node (\<lambda>r. r\<lparr>t_prev := l\<rparr>) (set_node node (\<lambda>r. r\<lparr>t_next := n\<rparr>) s)"
  define s3 where "s3 = (if n \<noteq> 0 then set_node n (\<lambda>r. r\<lparr>t_prev := node\<rparr>) s2
    else set_node self (\<lambda>r. r\<lparr>t_last := node\<rparr>) s2)"
  define s4 where "s4 = (if l \<noteq> 0 then set_node l (\<lambda>r. r\<lparr>t_next := node\<rparr>) s3
    else set_node self (\<lambda>r. r\<lparr>t_first := node\<rparr>) s3)"
  have "replace_child k self b add node s =
      map_option (\<lambda>s5. (node, set_node node (\<lambda>r. r\<lparr>t_parent := self\<rparr>) s5)) (delete_node k b s4)" for k
    using n ne assms(5-7) by (cases "n = 0")
      (auto simp: replace_child_def bind_Some_map Let_def s2_def s3_def s4_def n_def [symmetric] l_def [symmetric])
  moreover have "is_clist (view s4 self) self (xs @ node # ys)"
  proof -
    define v where "v = ST_REMOVE_LINK b (ST_INSERT_BEFORE node b (view s self))"
    have "is_clist (ST_INSERT_BEFORE node (hd ((b # ys) @ [self])) (view s self)) self (xs @ node # b # ys)"
      by (rule insert_before_refines) (use assms(1,3) in auto)
    then have v: "is_clist v self (xs @ node # ys)"
      using remove_link_refines [of _ self "xs @ [node]" b ys] by (simp add: v_def)
    define L N where "L = or_head self l" and "N = or_head self n"
    have w: "prv (view s self) b = L" "nxt (view s self) b = N"
      using ne by (simp_all add: view_links L_def N_def n_def l_def)
    have LN: "L \<noteq> node" "L \<noteq> b" "N \<noteq> node" "N \<noteq> b" using n l ne by (auto simp: L_def N_def)
    have "nxt v = (nxt (view s self))(node := b, L := node, node := N)"
      "prv v = (prv (view s self))(node := L, b := node, N := node)"
      using w LN ne by (simp_all add: v_def clist_macro_defs)
    moreover have "view s4 self = set_nxt L node (set_prv N node (set_prv node L (set_nxt node N (view s self))))"
      using n l ne by (cases "n = 0"; cases "l = 0") (auto simp: s2_def s3_def s4_def view_set_node L_def N_def)
    ultimately have eq: "nxt (view s4 self) p = nxt v p \<and> prv (view s4 self) p = prv v p" if "p \<noteq> b" for p
      using that LN by (simp add: set_nxt_def set_prv_def)
    have "p \<noteq> b" if "p \<in> set (self # xs @ node # ys)" for p
      using that assms(1) ne by (auto simp: is_clist_def)
    then have "dpath (view s4 self) self (xs @ node # ys) self = dpath v self (xs @ node # ys) self"
      by (intro dpath_frame ballI) (use eq in simp_all)
    then show ?thesis using v by (simp add: is_clist_def)
  qed
  moreover have "relinks s s4 self {} (node # xs @ b # ys)"
    using n l by (cases "n = 0"; cases "l = 0") (auto simp: s2_def s3_def s4_def intro!: relinks_rules)
  ultimately show ?thesis by blast
qed

section \<open>Well-formed documents stay well-formed\<close>

lemma dom_ok_insert:
  assumes "dom_ok s C" and "self \<in> t_live s" and "node \<in> t_live s" and "t_parent (t_nodes s node) = 0"
    and "\<not> is_document s node" and "self \<notin> tree s node" and "relinks s s' self {node} (C self)"
    and "is_clist (view s' self) self cs" and "set cs = insert node (set (C self))"
  shows "dom_ok s' (C(self := cs))"
  by (rule dom_ok_update [OF assms(1,2), where D = "{}" and N = "{node}" and n = node])
    (use assms in \<open>auto simp: relinks_def tree_def\<close>)

text \<open>A child \<open>b\<close> and its tree, seen from the node and from the other children.\<close>

lemma child_tree:
  assumes ok: "dom_ok s C" and self: "self \<in> t_live s" and C: "C self = xs @ b # ys"
  shows "(b, self) \<in> kid s" and "b \<in> t_live s" and "self \<notin> tree s b" and "set (xs @ ys) = set (C self) - tree s b"
    and "y \<in> tree s b \<Longrightarrow> y \<in> set (C self) \<Longrightarrow> y = b"
    and "(y, z) \<in> kid s \<Longrightarrow> z \<in> tree s b \<Longrightarrow> y \<in> tree s b"
    and "(y, z) \<in> kid s \<Longrightarrow> y \<in> tree s b \<Longrightarrow> z \<in> tree s b \<or> z = self"
proof -
  have mem: "y \<in> set (C self) \<longleftrightarrow> (y, self) \<in> kid s" for y
    using dom_okD(3) [OF ok self] self by (auto simp: kid_def)
  show b: "(b, self) \<in> kid s" using mem [of b] by (simp add: C)
  then show "b \<in> t_live s" by (simp add: kid_def)
  show "self \<notin> tree s b" by (rule tree_not_self [OF ok b])
  show only: "y = b" if "y \<in> tree s b" "y \<in> set (C self)" for y
    using siblings_disjoint [OF ok _ b, of y] that mem by (auto simp: tree_def)
  have "distinct (C self)" using dom_okD(2) [OF ok self] by (simp add: is_clist_def)
  moreover have "b \<in> tree s b" by (simp add: tree_def)
  ultimately show "set (xs @ ys) = set (C self) - tree s b" using only C by auto
  show "y \<in> tree s b" if "(y, z) \<in> kid s" "z \<in> tree s b"
    using that by (auto simp: tree_def intro: converse_rtrancl_into_rtrancl)
  show "z \<in> tree s b \<or> z = self" if "(y, z) \<in> kid s" "y \<in> tree s b"
  proof -
    have "(y, b) \<in> (kid s)\<^sup>*" using that(2) by (simp add: tree_def)
    then show ?thesis
      by (cases rule: converse_rtranclE) (use that(1) b kid_fun in \<open>auto simp: tree_def\<close>)
  qed
qed

lemma root_not_below: "t_parent (t_nodes s n) = 0 \<Longrightarrow> 0 \<notin> t_live s \<Longrightarrow> n \<in> tree s b \<Longrightarrow> n = b"
  by (auto simp: tree_def kid_def elim: converse_rtranclE)

text \<open>The pointers have been changed, and then the child \<open>b\<close> is deleted; \<open>N\<close> is the new child, if any.\<close>

lemma dom_ok_delete:
  assumes ok: "dom_ok s C" and self: "self \<in> t_live s" and C: "C self = xs @ b # ys"
    and N: "N = {} \<or> N = {n} \<and> n \<in> t_live s \<and> t_parent (t_nodes s n) = 0 \<and> \<not> is_document s n \<and> self \<notin> tree s n"
    and re: "relinks s s2 self {} (ns @ C self)" "set ns = N"
    and cs: "is_clist (view s2 self) self cs" "set cs = N \<union> set (xs @ ys)"
  shows "\<exists>k0. \<forall>k \<ge> k0. delete_node k b s2 = Some (s2\<lparr>t_live := t_live s - tree s b\<rparr>)"
    and "(\<And>y. t_nodes s' y = (if y \<in> N then (t_nodes s2 y)\<lparr>t_parent := self\<rparr> else t_nodes s2 y)) \<Longrightarrow>
      t_live s' = t_live s - tree s b \<Longrightarrow> dom_ok s' (C(self := cs))"
proof -
  note t = child_tree [OF ok self C]
  have z: "0 \<notin> t_live s" by (rule dom_okD(1) [OF ok])
  have nt: "m \<notin> tree s b" if "m \<in> N" for m
  proof
    assume "m \<in> tree s b"
    then have "m = b" using root_not_below [OF _ z] N that by auto
    then show False using N that t(1) z by (auto simp: kid_def)
  qed
  have live: "t_live s2 = t_live s" using re by (simp add: relinks_def)
  obtain k0 where k0: "\<And>k s'. k0 \<le> k \<Longrightarrow> same_tree s s' (tree s b) (tree s b - {b}) \<Longrightarrow>
      delete_node k b s' = Some (s'\<lparr>t_live := t_live s' - tree s b\<rparr>)"
    using delete_node_tree [OF ok t(2)] by blast
  have "same_tree s s2 (tree s b) (tree s b - {b})"
    unfolding same_tree_def
  proof (intro conjI ballI)
    show "tree s b \<subseteq> t_live s2" using tree_live [OF t(2)] live by simp
  next
    fix z
    assume "z \<in> tree s b"
    then have "z \<noteq> self" using t(3) by metis
    then show "t_first (t_nodes s2 z) = t_first (t_nodes s z)" using re(1) by (simp add: relinks_def)
  next
    fix z
    assume "z \<in> tree s b - {b}"
    then have "z \<notin> set (ns @ C self)" using nt re(2) t(5) by auto
    then show "t_next (t_nodes s2 z) = t_next (t_nodes s z)" using re(1) by (simp add: relinks_def)
  qed
  then show "\<exists>k0. \<forall>k \<ge> k0. delete_node k b s2 = Some (s2\<lparr>t_live := t_live s - tree s b\<rparr>)"
    using k0 live by metis
  assume s': "\<And>y. t_nodes s' y = (if y \<in> N then (t_nodes s2 y)\<lparr>t_parent := self\<rparr> else t_nodes s2 y)"
    and l': "t_live s' = t_live s - tree s b"
  have "view s' self = view s2 self" by (auto simp: view_def s' fun_eq_iff)
  then show "dom_ok s' (C(self := cs))"
    using N nt cs t re s' l' z self
    by (intro dom_ok_update [OF ok self, where D = "tree s b" and N = N and n = n])
      (auto simp: relinks_def tree_def)
qed

end
