(* ===== verification/XmlHeapProps.thy ===== *)
theory XmlHeapProps
  imports XmlHeapInv
begin

text \<open>
  The properties of the nodes as objects: the operations on children are the operations on lists, documents stay
  well-formed, and the searches find what they look for.
\<close>

section \<open>Changing the children\<close>

lemma new_child_facts:
  assumes ok: "dom_ok s C" and self: "self \<in> t_live s" and node: "node \<in> t_live s" "t_parent (t_nodes s node) = 0"
    and "self \<notin> tree s node"
  shows "is_clist (view s self) self (C self)" and "0 \<notin> set (self # C self)" and "node \<notin> set (self # C self)"
    and "node \<noteq> 0"
proof -
  have z: "0 \<notin> t_live s" by (rule dom_okD(1) [OF ok])
  then have n: "self \<noteq> 0" "node \<noteq> 0" using self node(1) by metis+
  have mem: "y \<in> set (C self) \<longleftrightarrow> y \<in> t_live s \<and> t_parent (t_nodes s y) = self" for y
    by (rule dom_okD(3) [OF ok self])
  show "is_clist (view s self) self (C self)" by (rule dom_okD(2) [OF ok self])
  show "0 \<notin> set (self # C self)" using mem z n by auto
  have "node \<noteq> self" using assms(5) by (auto simp: tree_def)
  then show "node \<notin> set (self # C self)" using mem node(2) n by auto
  show "node \<noteq> 0" by (rule n(2))
qed

lemma link_end_refines:
  assumes ok: "dom_ok s C" and self: "self \<in> t_live s" and node: "node \<in> t_live s" "t_parent (t_nodes s node) = 0"
    "\<not> is_document s node" and below: "self \<notin> tree s node"
  shows "\<exists>s'. link_end_child k self node s = Some (node, s') \<and> dom_ok s' (C(self := C self @ [node])) \<and>
    t_live s' = t_live s"
proof -
  note f = new_child_facts [OF ok self node(1,2) below]
  have dn: "get_document s node = Some 0" by (rule get_document_root [OF node(1) f(4) node(2,3)])
  obtain d where d: "get_document s self = Some d" using get_document_returns [OF ok self] by blast
  obtain s' where s': "link_end_child k self node s = Some (node, s')"
    "view s' self = ST_APPEND_LINK node self (view s self)" "relinks s s' self {node} (C self)"
    using link_end_effect [OF f self node(1,2) dn d node(3)] by blast
  have "is_clist (view s' self) self (C self @ [node])" unfolding s'(2) by (rule append_link_refines [OF f(1,3)])
  then have "dom_ok s' (C(self := C self @ [node]))"
    by (rule dom_ok_insert [OF ok self node below s'(3)]) simp
  then show ?thesis using s'(1,3) by (auto simp: relinks_def)
qed

lemma insert_refines:
  assumes ok: "dom_ok s C" and self: "self \<in> t_live s" and node: "node \<in> t_live s" "t_parent (t_nodes s node) = 0"
    "\<not> is_document s node" and below: "self \<notin> tree s node" and add: "\<not> is_document s add" and C: "C self = xs @ b # ys"
  shows "\<exists>s'. insert_before_child self b add node s = Some (node, s') \<and> dom_ok s' (C(self := xs @ node # b # ys))"
    and "\<exists>s'. insert_after_child self b add node s = Some (node, s') \<and> dom_ok s' (C(self := xs @ b # node # ys))"
proof -
  note f = new_child_facts [OF ok self node(1,2) below, unfolded C]
  have b: "b \<in> t_live s" "t_parent (t_nodes s b) = self"
    using dom_okD(3) [OF ok self, of b] by (simp_all add: C)
  obtain s1 where s1: "insert_before_child self b add node s = Some (node, s1)"
    "view s1 self = ST_INSERT_BEFORE node b (view s self)" "relinks s s1 self {node} (xs @ b # ys)"
    using insert_before_effect [OF f b add] by blast
  have "is_clist (view s1 self) self (xs @ node # b # ys)"
    using insert_before_refines [OF f(1,3)] by (simp add: s1(2))
  then have "dom_ok s1 (C(self := xs @ node # b # ys))"
    by (rule dom_ok_insert [OF ok self node below s1(3) [folded C]]) (auto simp: C)
  then show "\<exists>s'. insert_before_child self b add node s = Some (node, s') \<and> dom_ok s' (C(self := xs @ node # b # ys))"
    using s1(1) by blast
  obtain s2 where s2: "insert_after_child self b add node s = Some (node, s2)"
    "view s2 self = ST_INSERT_AFTER node b (view s self)" "relinks s s2 self {node} (xs @ b # ys)"
    using insert_after_effect [OF f b add] by blast
  have c: "is_clist (view s self) self ((xs @ [b]) @ ys)" "node \<notin> set (self # (xs @ [b]) @ ys)" using f by simp_all
  have "is_clist (view s2 self) self (xs @ b # node # ys)"
    using insert_before_refines [OF c] insert_after_before [OF c] by (simp add: s2(2))
  then have "dom_ok s2 (C(self := xs @ b # node # ys))"
    by (rule dom_ok_insert [OF ok self node below s2(3) [folded C]]) (auto simp: C)
  then show "\<exists>s'. insert_after_child self b add node s = Some (node, s') \<and> dom_ok s' (C(self := xs @ b # node # ys))"
    using s2(1) by blast
qed

lemma remove_refines:
  assumes ok: "dom_ok s C" and self: "self \<in> t_live s" and C: "C self = xs @ b # ys"
  shows "\<exists>k0. \<forall>k \<ge> k0. \<exists>s'. remove_child k self b s = Some (True, s') \<and> dom_ok s' (C(self := xs @ ys)) \<and>
    t_live s' = t_live s - tree s b"
proof -
  note t = child_tree [OF ok self C]
  have z: "0 \<notin> set (self # xs @ b # ys)"
    using nonzero [OF self dom_okD(1) [OF ok]] dom_okD(1) [OF ok] dom_okD(3) [OF ok self, of 0] by (auto simp: C)
  have b: "t_parent (t_nodes s b) = self" using t(1) by (simp add: kid_def)
  have cl: "is_clist (view s self) self (xs @ b # ys)" using dom_okD(2) [OF ok self] by (simp add: C)
  obtain s2 where s2: "\<And>k. remove_child k self b s = map_option (Pair True) (delete_node k b s2)"
    "view s2 self = ST_REMOVE_LINK b (view s self)" "relinks s s2 self {} (xs @ b # ys)"
    using remove_effect [OF cl z t(2) b] by blast
  have "is_clist (view s2 self) self (xs @ ys)" unfolding s2(2) by (rule remove_link_refines [OF cl])
  note d = dom_ok_delete [OF ok self C, of "{}" 0 s2 "[]" "xs @ ys", simplified, OF s2(3) [folded C] this]
  define s' where "s' = s2\<lparr>t_live := t_live s - tree s b\<rparr>"
  obtain k0 where "\<And>k. k0 \<le> k \<Longrightarrow> delete_node k b s2 = Some s'" using d(1) unfolding s'_def by blast
  moreover have "dom_ok s' (C(self := xs @ ys))" by (rule d(2)) (simp_all add: s'_def)
  moreover have "t_live s' = t_live s - tree s b" by (simp add: s'_def)
  ultimately show ?thesis using s2(1) by auto
qed

lemma replace_refines:
  assumes ok: "dom_ok s C" and self: "self \<in> t_live s" and node: "node \<in> t_live s" "t_parent (t_nodes s node) = 0"
    "\<not> is_document s node" and below: "self \<notin> tree s node" and add: "\<not> is_document s add" and C: "C self = xs @ b # ys"
  shows "\<exists>k0. \<forall>k \<ge> k0. \<exists>s'. replace_child k self b add node s = Some (node, s') \<and>
    dom_ok s' (C(self := xs @ node # ys)) \<and> t_live s' = t_live s - tree s b"
proof -
  note f = new_child_facts [OF ok self node(1,2) below, unfolded C] and t = child_tree [OF ok self C]
  have b: "t_parent (t_nodes s b) = self" using t(1) by (simp add: kid_def)
  obtain s4 where s4: "\<And>k. replace_child k self b add node s =
      map_option (\<lambda>s5. (node, set_node node (\<lambda>r. r\<lparr>t_parent := self\<rparr>) s5)) (delete_node k b s4)"
    "is_clist (view s4 self) self (xs @ node # ys)" "relinks s s4 self {} (node # xs @ b # ys)"
    using replace_effect [OF f t(2) b add] by blast
  have N: "{node} = {} \<or> {node} = {node} \<and> node \<in> t_live s \<and> t_parent (t_nodes s node) = 0 \<and> \<not> is_document s node \<and>
      self \<notin> tree s node" using node below by simp
  have re: "relinks s s4 self {} ([node] @ C self)" using s4(3) by (simp add: C)
  have cs: "set (xs @ node # ys) = {node} \<union> set (xs @ ys)" by auto
  note d = dom_ok_delete [OF ok self C N re _ s4(2) cs]
  define s5 where "s5 = s4\<lparr>t_live := t_live s - tree s b\<rparr>"
  define s' where "s' = set_node node (\<lambda>r. r\<lparr>t_parent := self\<rparr>) s5"
  obtain k0 where "\<And>k. k0 \<le> k \<Longrightarrow> delete_node k b s4 = Some s5" using d(1) unfolding s5_def by auto
  moreover have "dom_ok s' (C(self := xs @ node # ys))" by (rule d(2)) (simp_all add: s'_def s5_def set_node_def)
  moreover have "t_live s' = t_live s - tree s b" by (simp add: s'_def s5_def)
  ultimately have "\<forall>k \<ge> k0. replace_child k self b add node s = Some (node, s') \<and>
      dom_ok s' (C(self := xs @ node # ys)) \<and> t_live s' = t_live s - tree s b"
    using s4(1) by (simp add: s'_def)
  then show ?thesis by blast
qed

text \<open>C27: The pointers implement lists of children.  In a well-formed state, linking or inserting a node without a
  parent, which is not above its new parent, replacing a child and removing one return, with all assertions
  true; they change the list of children of that one node like the list operation, keep the state
  well-formed, and delete exactly the tree of the child that goes away.\<close>

theorem dom_operations_refine:
  assumes "dom_ok s C" and "self \<in> t_live s" and "node \<in> t_live s" and "t_parent (t_nodes s node) = 0"
    and "\<not> is_document s node" and "self \<notin> tree s node" and "\<not> is_document s add"
  shows "(\<exists>s'. link_end_child k self node s = Some (node, s') \<and> dom_ok s' (C(self := C self @ [node]))) \<and>
    (\<forall>xs b ys. C self = xs @ b # ys \<longrightarrow>
      (\<exists>s'. insert_before_child self b add node s = Some (node, s') \<and> dom_ok s' (C(self := xs @ node # b # ys))) \<and>
      (\<exists>s'. insert_after_child self b add node s = Some (node, s') \<and> dom_ok s' (C(self := xs @ b # node # ys))) \<and>
      (\<exists>k0. \<forall>k \<ge> k0. \<exists>s'. replace_child k self b add node s = Some (node, s') \<and>
        dom_ok s' (C(self := xs @ node # ys)) \<and> t_live s' = t_live s - tree s b) \<and>
      (\<exists>k0. \<forall>k \<ge> k0. \<exists>s'. remove_child k self b s = Some (True, s') \<and>
        dom_ok s' (C(self := xs @ ys)) \<and> t_live s' = t_live s - tree s b))"
  using link_end_refines [OF assms(1-6)] insert_refines [OF assms] replace_refines [OF assms]
    remove_refines [OF assms(1,2)]
  by blast

section \<open>Searching\<close>

definition found :: "ptr option \<Rightarrow> ptr" where
  "found p = (case p of None \<Rightarrow> 0 | Some x \<Rightarrow> x)"

text \<open>A search along pointers that lead through the list \<open>xs\<close> to null.\<close>

fun leads :: "(tnode \<Rightarrow> ptr) \<Rightarrow> dom \<Rightarrow> ptr \<Rightarrow> ptr list \<Rightarrow> bool" where
  "leads step s x [] = (x = 0)"
| "leads step s x (y # ys) = (x = y \<and> y \<noteq> 0 \<and> y \<in> t_live s \<and> leads step s (step (t_nodes s y)) ys)"

lemma search_leads: "leads step s x xs \<Longrightarrow> search step P s x = Some (found (find (\<lambda>y. P (t_nodes s y)) xs))"
  by (induction xs arbitrary: x) (simp_all add: search.simps [of step P s] found_def)

lemma forward_leads:
  assumes "is_clist (view s l) l (xs @ ys)" and "0 \<notin> set (l # xs @ ys)" and "set ys \<subseteq> t_live s"
  shows "leads t_next s (hd (ys @ [0])) ys"
  using assms
proof (induction ys arbitrary: xs)
  case (Cons y ys)
  have "t_next (t_nodes s y) = hd (ys @ [0])"
    using child_links(3) [OF Cons.prems(1,2) refl] by (cases ys) simp_all
  moreover have "leads t_next s (hd (ys @ [0])) ys" using Cons.IH [of "xs @ [y]"] Cons.prems by simp
  ultimately show ?case using Cons.prems by simp
qed simp

lemma backward_leads:
  assumes "is_clist (view s l) l (xs @ ys)" and "0 \<notin> set (l # xs @ ys)" and "set xs \<subseteq> t_live s"
  shows "leads t_prev s (hd (rev xs @ [0])) (rev xs)"
  using assms
proof (induction xs arbitrary: ys rule: rev_induct)
  case (snoc x xs)
  have c: "is_clist (view s l) l (xs @ x # ys)" "0 \<notin> set (l # xs @ x # ys)" using snoc.prems by simp_all
  have "t_prev (t_nodes s x) = hd (rev xs @ [0])"
    using child_links(4) [OF c refl] by (cases xs rule: rev_cases) simp_all
  moreover have "leads t_prev s (hd (rev xs @ [0])) (rev xs)" using snoc.IH [OF c] snoc.prems by simp
  ultimately show ?case using snoc.prems by simp
qed simp

lemma children_lead:
  assumes "dom_ok s C" and "self \<in> t_live s"
  shows "leads t_next s (t_first (t_nodes s self)) (C self)"
    and "leads t_prev s (t_last (t_nodes s self)) (rev (C self))"
    and "t_first (t_nodes s self) = hd (C self @ [0])"
    and "C self = xs @ b # ys \<Longrightarrow> leads t_next s (t_next (t_nodes s b)) ys \<and> leads t_prev s (t_prev (t_nodes s b)) (rev xs) \<and>
      t_next (t_nodes s b) = hd (ys @ [0]) \<and> b \<noteq> 0 \<and> b \<in> t_live s \<and> t_parent (t_nodes s b) = self"
proof -
  have cl: "is_clist (view s self) self (C self)" by (rule dom_okD(2) [OF assms])
  have mem: "y \<in> set (C self) \<longleftrightarrow> y \<in> t_live s \<and> t_parent (t_nodes s y) = self" for y by (rule dom_okD(3) [OF assms])
  have z: "0 \<notin> set (self # C self)"
    using nonzero [OF assms(2) dom_okD(1) [OF assms(1)]] dom_okD(1) [OF assms(1)] mem by auto
  have live: "set (C self) \<subseteq> t_live s" using mem by auto
  have first: "t_first (t_nodes s self) = hd (C self @ [0])" using child_links(1) [OF cl z] by (cases "C self") simp_all
  have last: "t_last (t_nodes s self) = hd (rev (C self) @ [0])"
    using child_links(2) [OF cl z] by (cases "C self" rule: rev_cases) simp_all
  have fwd: "leads t_next s (hd (C self @ [0])) (C self)" using forward_leads [of s self "[]" "C self"] cl z live by simp
  have bwd: "leads t_prev s (hd (rev (C self) @ [0])) (rev (C self))"
    using backward_leads [of s self "C self" "[]"] cl z live by simp
  have split: "leads t_next s (t_next (t_nodes s b)) ys \<and> leads t_prev s (t_prev (t_nodes s b)) (rev xs) \<and>
      t_next (t_nodes s b) = hd (ys @ [0]) \<and> b \<noteq> 0 \<and> b \<in> t_live s \<and> t_parent (t_nodes s b) = self"
    if C: "C self = xs @ b # ys" for xs b ys
  proof -
    have n: "t_next (t_nodes s b) = hd (ys @ [0])" using child_links(3) [OF cl z C] by (cases ys) simp_all
    have p: "t_prev (t_nodes s b) = hd (rev xs @ [0])"
      using child_links(4) [OF cl z C] by (cases xs rule: rev_cases) simp_all
    have "leads t_next s (hd (ys @ [0])) ys"
      using forward_leads [of s self "xs @ [b]" ys] cl z live by (simp add: C)
    moreover have "leads t_prev s (hd (rev xs @ [0])) (rev xs)"
      using backward_leads [of s self xs "b # ys"] cl z live by (simp add: C)
    ultimately show ?thesis using n p z mem [of b] by (simp add: C)
  qed
  show "leads t_next s (t_first (t_nodes s self)) (C self)" "leads t_prev s (t_last (t_nodes s self)) (rev (C self))"
    "t_first (t_nodes s self) = hd (C self @ [0])"
    using fwd bwd first last by simp_all
  show "C self = xs @ b # ys \<Longrightarrow> leads t_next s (t_next (t_nodes s b)) ys \<and> leads t_prev s (t_prev (t_nodes s b)) (rev xs) \<and>
      t_next (t_nodes s b) = hd (ys @ [0]) \<and> b \<noteq> 0 \<and> b \<in> t_live s \<and> t_parent (t_nodes s b) = self"
    by (rule split)
qed

text \<open>C28: The searches find what their loops are written for.  Among the children of a node, \<^verbatim>\<open>FirstChild\<close> and
  \<^verbatim>\<open>LastChild\<close> give the first and the last with the value, and from a child \<^verbatim>\<open>NextSibling\<close> and \<^verbatim>\<open>PreviousSibling\<close>
  the nearest one behind and before it; \<^verbatim>\<open>IterateChildren\<close> runs through the children in order.  0 stands for none.\<close>

theorem dom_searches:
  assumes "dom_ok s C" and "self \<in> t_live s"
  shows "first_child v self s = Some (found (find (\<lambda>y. t_value (t_nodes s y) = v) (C self))) \<and>
    last_child v self s = Some (found (find (\<lambda>y. t_value (t_nodes s y) = v) (rev (C self)))) \<and>
    first_child_element self s = Some (found (find (\<lambda>y. element_node (t_nodes s y)) (C self))) \<and>
    iterate_children self 0 s = Some (hd (C self @ [0])) \<and>
    (\<forall>xs b ys. C self = xs @ b # ys \<longrightarrow>
      next_sibling v b s = Some (found (find (\<lambda>y. t_value (t_nodes s y) = v) ys)) \<and>
      previous_sibling v b s = Some (found (find (\<lambda>y. t_value (t_nodes s y) = v) (rev xs))) \<and>
      next_sibling_element b s = Some (found (find (\<lambda>y. element_node (t_nodes s y)) ys)) \<and>
      iterate_children self b s = Some (hd (ys @ [0])))"
proof -
  note lead = children_lead [OF assms]
  show ?thesis
  proof (intro conjI allI impI)
    show "first_child v self s = Some (found (find (\<lambda>y. t_value (t_nodes s y) = v) (C self)))"
      and "first_child_element self s = Some (found (find (\<lambda>y. element_node (t_nodes s y)) (C self)))"
      by (simp_all add: first_child_def first_child_element_def search_leads [OF lead(1)])
    show "last_child v self s = Some (found (find (\<lambda>y. t_value (t_nodes s y) = v) (rev (C self))))"
      by (simp add: last_child_def search_leads [OF lead(2)])
    show "iterate_children self 0 s = Some (hd (C self @ [0]))" by (simp add: iterate_children_def lead(3))
  next
    fix xs b ys
    assume "C self = xs @ b # ys"
    note at = lead(4) [OF this, THEN conjunct1] lead(4) [OF this, THEN conjunct2]
    show "next_sibling v b s = Some (found (find (\<lambda>y. t_value (t_nodes s y) = v) ys))"
      and "next_sibling_element b s = Some (found (find (\<lambda>y. element_node (t_nodes s y)) ys))"
      by (simp_all add: next_sibling_def next_sibling_element_def search_leads [OF at(1)])
    show "previous_sibling v b s = Some (found (find (\<lambda>y. t_value (t_nodes s y) = v) (rev xs)))"
      unfolding previous_sibling_def by (rule search_leads) (rule at(2) [THEN conjunct1])
    show "iterate_children self b s = Some (hd (ys @ [0]))"
      using at(2) by (auto simp: iterate_children_def ensure_def)
  qed
qed

section \<open>Well-formedness\<close>

text \<open>The states a program reaches that creates nodes, links nodes without a parent, and inserts, replaces and
  removes with any pointers; the copy an operation inserts is a new tree.\<close>

definition attachable :: "ptr \<Rightarrow> ptr \<Rightarrow> dom \<Rightarrow> bool" where
  "attachable self node s \<longleftrightarrow> node \<in> t_live s \<and> t_parent (t_nodes s node) = 0 \<and> \<not> is_document s node \<and> self \<notin> tree s node"

inductive dom_reach :: "dom \<Rightarrow> bool" where
  reach_empty: "dom_reach \<lparr>t_nodes = nodes, t_live = {}, t_error = errors\<rparr>"
| reach_create: "dom_reach s \<Longrightarrow> x \<notin> t_live s \<Longrightarrow> x \<noteq> 0 \<Longrightarrow> dom_reach (create_node x ty v s)"
| reach_link: "dom_reach s \<Longrightarrow> self \<in> t_live s \<Longrightarrow> attachable self node s \<Longrightarrow>
    link_end_child k self node s = Some (r, s') \<Longrightarrow> dom_reach s'"
| reach_before: "dom_reach s \<Longrightarrow> self \<in> t_live s \<Longrightarrow> node = 0 \<or> attachable self node s \<Longrightarrow>
    insert_before_child self b add node s = Some (r, s') \<Longrightarrow> dom_reach s'"
| reach_after: "dom_reach s \<Longrightarrow> self \<in> t_live s \<Longrightarrow> node = 0 \<or> attachable self node s \<Longrightarrow>
    insert_after_child self b add node s = Some (r, s') \<Longrightarrow> dom_reach s'"
| reach_replace: "dom_reach s \<Longrightarrow> self \<in> t_live s \<Longrightarrow> node = 0 \<or> attachable self node s \<Longrightarrow>
    replace_child k self b add node s = Some (r, s') \<Longrightarrow> dom_reach s'"
| reach_remove: "dom_reach s \<Longrightarrow> self \<in> t_live s \<Longrightarrow> remove_child k self b s = Some (r, s') \<Longrightarrow> dom_reach s'"

text \<open>The number that bounds the calls of the destructor does not matter once it is enough.\<close>

lemma delete_more:
  "delete_node k x s = Some s' \<Longrightarrow> k \<le> m \<Longrightarrow> delete_node m x s = Some s'"
  "delete_chain k x s = Some s' \<Longrightarrow> k \<le> m \<Longrightarrow> delete_chain m x s = Some s'"
proof (induction k x s and k x s arbitrary: s' m and s' m rule: delete_node_delete_chain.induct)
  case (2 k x s)
  obtain j where j: "m = Suc j" "k \<le> j" using 2(3) by (cases m) auto
  obtain s1 where s1: "x \<in> t_live s" "delete_chain k (t_first (t_nodes s x)) s = Some s1" "s' = s1\<lparr>t_live := t_live s1 - {x}\<rparr>"
    using 2(2) by (auto simp: ensure_def split: if_splits Option.bind_splits)
  have "delete_chain j (t_first (t_nodes s x)) s = Some s1"
    by (rule 2(1) [OF _ s1(2) j(2)]) (simp add: s1(1) ensure_def)
  then show ?case using s1 j by (simp add: ensure_def)
next
  case (4 k x s)
  obtain j where j: "m = Suc j" "k \<le> j" using 4(4) by (cases m) auto
  show ?case
  proof (cases "x = 0")
    case True
    then show ?thesis using 4(3) j by simp
  next
    case False
    then obtain s1 where s1: "x \<in> t_live s" "delete_node k x s = Some s1" "delete_chain k (t_next (t_nodes s x)) s1 = Some s'"
      using 4(3) by (auto simp: ensure_def Let_def split: if_splits Option.bind_splits)
    have a: "delete_node j x s = Some s1"
      by (rule 4(1) [OF False _ refl s1(2) j(2)]) (simp add: s1(1) ensure_def)
    have "delete_chain j (t_next (t_nodes s x)) s1 = Some s'"
      by (rule 4(2) [OF False _ refl s1(2,3) j(2)]) (simp add: s1(1) ensure_def)
    then show ?thesis using a s1(1) False j by (simp add: ensure_def)
  qed
qed simp_all

lemma dom_ok_error: "dom_ok s C \<Longrightarrow> dom_ok (s\<lparr>t_error := e\<rparr>) C"
proof -
  have "view (s\<lparr>t_error := e\<rparr>) x = view s x" for x by (auto simp: view_def fun_eq_iff)
  moreover have "kid (s\<lparr>t_error := e\<rparr>) = kid s" by (simp add: kid_def)
  ultimately show "dom_ok s C \<Longrightarrow> dom_ok (s\<lparr>t_error := e\<rparr>) C" by (simp add: dom_ok_def is_document_def)
qed

lemma top_only_keeps: "map_option (Pair r) (top_only_error x s) = Some (q, s') \<Longrightarrow> dom_ok s C \<Longrightarrow> dom_ok s' C"
  by (auto simp: top_only_error_def dom_ok_error split: if_splits)

lemma dom_ok_create:
  assumes ok: "dom_ok s C" and x: "x \<notin> t_live s" "x \<noteq> 0"
  shows "dom_ok (create_node x ty v s) (C(x := []))"
proof -
  let ?s = "create_node x ty v s"
  have at: "t_nodes ?s y = (if y = x then new_tnode ty v else t_nodes s y)" and live: "t_live ?s = insert x (t_live s)" for y
    by (simp_all add: create_node_def)
  have par: "t_parent (t_nodes s y) \<noteq> x" if "y \<in> t_live s" for y using dom_okD(4) [OF ok that] x by auto
  have k: "kid ?s = kid s" using x par dom_okD(1) [OF ok] by (auto simp: kid_def at live new_tnode_def split: if_splits)
  have "is_clist (view ?s y) y (C y)" if y: "y \<in> t_live s" for y
    by (rule view_cong [OF dom_okD(2) [OF ok y]]) (use y x dom_okD(3) [OF ok y] in \<open>auto simp: at\<close>)
  moreover have "is_clist (view ?s x) x []" by (simp add: is_clist_def view_def at new_tnode_def)
  moreover have "set (C y) = {z \<in> t_live ?s. t_parent (t_nodes ?s z) = y}" if y: "y \<in> t_live s" for y
    using dom_okD(1) [OF ok] dom_okD(3) [OF ok y] x y by (auto simp: at live new_tnode_def)
  moreover have "{z \<in> t_live ?s. t_parent (t_nodes ?s z) = x} = {}" using par x by (auto simp: at live new_tnode_def)
  ultimately show ?thesis
    using ok x by (auto simp: dom_ok_def k live at new_tnode_def is_document_def split: if_splits)
qed

lemma child_split:
  assumes "dom_ok s C" and "self \<in> t_live s" and "b \<in> t_live s" and "t_parent (t_nodes s b) = self"
  obtains xs ys where "C self = xs @ b # ys"
  using dom_okD(3) [OF assms(1,2), of b] assms(3,4) by (meson split_list)

text \<open>Each operation, whatever it does.\<close>

lemma insert_keeps:
  assumes "dom_ok s C" and "self \<in> t_live s" and "node = 0 \<or> attachable self node s"
  shows "insert_before_child self b add node s = Some (r, s') \<Longrightarrow> \<exists>C. dom_ok s' C"
    and "insert_after_child self b add node s = Some (r, s') \<Longrightarrow> \<exists>C. dom_ok s' C"
proof -
  have skip: "\<exists>C. dom_ok s' C" if "map_option (Pair 0) (top_only_error self s) = Some (r, s')"
    using top_only_keeps [OF that assms(1)] by blast
  have real: "\<exists>C. dom_ok s' C"
    if live: "b \<in> t_live s" "t_parent (t_nodes s b) = self" "\<not> is_document s add" "node \<noteq> 0"
      and res: "insert_before_child self b add node s = Some (r, s') \<or> insert_after_child self b add node s = Some (r, s')"
  proof -
    obtain xs ys where C: "C self = xs @ b # ys" using child_split [OF assms(1,2) live(1,2)] .
    have a: "attachable self node s" using assms(3) live(4) by simp
    obtain s1 s2 where "insert_before_child self b add node s = Some (node, s1)" "dom_ok s1 (C(self := xs @ node # b # ys))"
      "insert_after_child self b add node s = Some (node, s2)" "dom_ok s2 (C(self := xs @ b # node # ys))"
      using insert_refines [OF assms(1,2) _ _ _ _ live(3) C, of node] a by (auto simp: attachable_def)
    then show ?thesis using res by auto
  qed
  show "\<exists>C. dom_ok s' C" if "insert_before_child self b add node s = Some (r, s')"
  proof (cases "b \<in> t_live s \<and> t_parent (t_nodes s b) = self \<and> \<not> is_document s add \<and> node \<noteq> 0")
    case False
    then show ?thesis
      using that assms(1) skip by (auto simp: insert_before_child_def ensure_def split: if_splits)
  qed (use real that in blast)
  show "\<exists>C. dom_ok s' C" if "insert_after_child self b add node s = Some (r, s')"
  proof (cases "b \<in> t_live s \<and> t_parent (t_nodes s b) = self \<and> \<not> is_document s add \<and> node \<noteq> 0")
    case False
    then show ?thesis
      using that assms(1) skip by (auto simp: insert_after_child_def ensure_def split: if_splits)
  qed (use real that in blast)
qed

text \<open>A result does not depend on the bound.\<close>

lemma more_calls:
  assumes "\<And>j. act j = map_option g (delete_node j b s2)" and "act k = Some q" and "k \<le> m"
  shows "act m = Some q"
  using assms(2) delete_more(1) [OF _ assms(3)] by (auto simp: assms(1))

lemma replace_keeps:
  assumes ok: "dom_ok s C" and self: "self \<in> t_live s" and node: "node = 0 \<or> attachable self node s"
    and res: "replace_child k self b add node s = Some (r, s')"
  shows "\<exists>C. dom_ok s' C"
proof (cases "b \<in> t_live s \<and> t_parent (t_nodes s b) = self \<and> \<not> is_document s add \<and> node \<noteq> 0")
  case False
  have "\<exists>C. dom_ok s' C" if "map_option (Pair 0) (top_only_error self s) = Some (r, s')"
    using top_only_keeps [OF that ok] by blast
  then show ?thesis
    using False res ok by (auto simp: replace_child_def ensure_def split: if_splits)
next
  case True
  then obtain xs ys where C: "C self = xs @ b # ys" using child_split [OF ok self] by metis
  have a: "node \<in> t_live s" "t_parent (t_nodes s node) = 0" "\<not> is_document s node" "self \<notin> tree s node"
    using node True by (auto simp: attachable_def)
  have "\<exists>k0. \<forall>k \<ge> k0. \<exists>s'. replace_child k self b add node s = Some (node, s') \<and>
      dom_ok s' (C(self := xs @ node # ys)) \<and> t_live s' = t_live s - tree s b"
    by (rule replace_refines [OF ok self a]) (use True C in simp_all)
  then obtain k0 s1 where s1: "replace_child (max k k0) self b add node s = Some (node, s1)"
    "dom_ok s1 (C(self := xs @ node # ys))" by (metis max.cobounded2)
  obtain s4 where s4: "\<And>j. replace_child j self b add node s =
      map_option (\<lambda>s5. (node, set_node node (\<lambda>r. r\<lparr>t_parent := self\<rparr>) s5)) (delete_node j b s4)"
    using replace_effect [OF new_child_facts [OF ok self a(1,2,4), unfolded C], of add] True by blast
  have "replace_child (max k k0) self b add node s = Some (r, s')"
    by (rule more_calls [of "\<lambda>j. replace_child j self b add node s", OF s4 res]) simp
  then show ?thesis using s1 by auto
qed

lemma remove_keeps:
  assumes ok: "dom_ok s C" and self: "self \<in> t_live s" and res: "remove_child k self b s = Some (r, s')"
  shows "\<exists>C. dom_ok s' C"
proof (cases "b = 0")
  case True
  then show ?thesis using res ok by (auto simp: remove_child_def)
next
  case False
  then have b: "b \<in> t_live s" "t_parent (t_nodes s b) = self"
    using res by (auto simp: remove_child_def ensure_def split: if_splits)
  then obtain xs ys where C: "C self = xs @ b # ys" using child_split [OF ok self] by metis
  have cl: "is_clist (view s self) self (xs @ b # ys)" using dom_okD(2) [OF ok self] by (simp add: C)
  have z: "0 \<notin> set (self # xs @ b # ys)"
    using nonzero [OF self dom_okD(1) [OF ok]] dom_okD(1) [OF ok] dom_okD(3) [OF ok self, of 0] by (auto simp: C)
  obtain s2 where s2: "\<And>j. remove_child j self b s = map_option (Pair True) (delete_node j b s2)"
    using remove_effect [OF cl z b] by blast
  obtain k0 s1 where s1: "remove_child (max k k0) self b s = Some (True, s1)" "dom_ok s1 (C(self := xs @ ys))"
    using remove_refines [OF ok self C] by (metis max.cobounded2)
  have "remove_child (max k k0) self b s = Some (r, s')"
    by (rule more_calls [of "\<lambda>j. remove_child j self b s", OF s2 res]) simp
  then show ?thesis using s1 by auto
qed

lemma link_keeps:
  assumes ok: "dom_ok s C" and self: "self \<in> t_live s" and node: "attachable self node s"
    and res: "link_end_child k self node s = Some (r, s')"
  shows "\<exists>C. dom_ok s' C"
proof -
  have a: "node \<in> t_live s" "t_parent (t_nodes s node) = 0" "\<not> is_document s node" "self \<notin> tree s node"
    using node by (auto simp: attachable_def)
  show ?thesis using link_end_refines [OF ok self a, of k] res by auto
qed

text \<open>C33: Every state that a program reaches with these operations is well-formed: there are lists of children,
  without repetition, which the pointers represent in both directions; each child points to its parent; no node is its
  own ancestor; a node without a parent has no siblings, and a document has no parent.\<close>

theorem dom_well_formed: "dom_reach s \<Longrightarrow> \<exists>C. dom_ok s C"
proof (induction rule: dom_reach.induct)
  case (reach_empty nodes errors)
  have "dom_ok \<lparr>t_nodes = nodes, t_live = {}, t_error = errors\<rparr> C" for C by (simp add: dom_ok_def kid_def acyclic_def)
  then show ?case by blast
next
  case reach_create
  then show ?case using dom_ok_create by blast
next
  case reach_link
  then show ?case using link_keeps by blast
next
  case reach_before
  then show ?case using insert_keeps(1) by blast
next
  case reach_after
  then show ?case using insert_keeps(2) by blast
next
  case reach_replace
  then show ?case using replace_keeps by blast
next
  case reach_remove
  then show ?case using remove_keeps by blast
qed

section \<open>An example\<close>

text \<open>An element 1 with the child 2, and a node 3 on its own.\<close>

definition example_nodes :: dom where
  "example_nodes = create_node 2 (TINYXML_ELEMENT []) ''b'' (create_node 1 (TINYXML_ELEMENT []) ''a''
     \<lparr>t_nodes = (\<lambda>_. new_tnode TINYXML_UNKNOWN ''''), t_live = {}, t_error = (\<lambda>_. None)\<rparr>)"

definition example_dom :: dom where
  "example_dom = create_node 3 (TINYXML_ELEMENT []) ''c'' (snd (the (link_end_child 0 1 2 example_nodes)))"

lemma tree_childless: "dom_ok s C \<Longrightarrow> x \<in> t_live s \<Longrightarrow> C x = [] \<Longrightarrow> tree s x = {x}"
  using dom_okD(3) [of s C x] by (auto simp: tree_kids [of s x] kid_def)

lemma example_linked:
  shows "\<exists>s'. link_end_child 0 1 2 example_nodes = Some (2, s') \<and> dom_ok s' ((\<lambda>_. [])(1 := [2])) \<and>
      t_live s' = {1, 2}"
    and "attachable 1 2 example_nodes"
proof -
  let ?e = "\<lparr>t_nodes = (\<lambda>_. new_tnode TINYXML_UNKNOWN ''''), t_live = {}, t_error = (\<lambda>_. None)\<rparr>"
  have "dom_ok ?e (\<lambda>_. [])" by (simp add: dom_ok_def kid_def acyclic_def)
  then have "dom_ok (create_node 1 (TINYXML_ELEMENT []) ''a'' ?e) ((\<lambda>_. [])(1 := []))" by (rule dom_ok_create) simp_all
  then have "dom_ok example_nodes ((\<lambda>_. [])(1 := [], 2 := []))"
    unfolding example_nodes_def by (rule dom_ok_create) (simp_all add: create_node_def)
  then have ok: "dom_ok example_nodes (\<lambda>_. [])" by (simp add: fun_upd_def)
  have at: "1 \<in> t_live example_nodes" "2 \<in> t_live example_nodes" "t_live example_nodes = {1, 2}"
    "t_parent (t_nodes example_nodes 2) = 0" "\<not> is_document example_nodes 2"
    by (auto simp: example_nodes_def create_node_def new_tnode_def is_document_def)
  have t: "1 \<notin> tree example_nodes 2" using tree_childless [OF ok at(2)] by simp
  show "attachable 1 2 example_nodes" using at t by (simp add: attachable_def)
  show "\<exists>s'. link_end_child 0 1 2 example_nodes = Some (2, s') \<and> dom_ok s' ((\<lambda>_. [])(1 := [2])) \<and>
      t_live s' = {1, 2}"
    using link_end_refines [OF ok at(1,2,4,5) t, of 0] unfolding at(3) append_Nil .
qed

lemma example_ok:
  "dom_ok example_dom ((\<lambda>_. [])(1 := [2]))" "1 \<in> t_live example_dom" "3 \<in> t_live example_dom"
  "t_parent (t_nodes example_dom 3) = 0" "\<not> is_document example_dom 3" "1 \<notin> tree example_dom 3"
proof -
  obtain s' where s': "link_end_child 0 1 2 example_nodes = Some (2, s')" "dom_ok s' ((\<lambda>_. [])(1 := [2]))" "t_live s' = {1, 2}"
    using example_linked(1) by blast
  have e: "example_dom = create_node 3 (TINYXML_ELEMENT []) ''c'' s'"
    by (simp only: example_dom_def s'(1) option.sel snd_conv)
  have "dom_ok example_dom ((\<lambda>_. [])(1 := [2], 3 := []))"
    unfolding e by (rule dom_ok_create [OF s'(2)]) (simp_all add: s'(3))
  then show ok: "dom_ok example_dom ((\<lambda>_. [])(1 := [2]))" by (simp add: fun_upd_idem)
  show live: "1 \<in> t_live example_dom" "3 \<in> t_live example_dom" by (simp_all add: e create_node_def s'(3))
  show "t_parent (t_nodes example_dom 3) = 0" "\<not> is_document example_dom 3"
    by (simp_all add: e create_node_def new_tnode_def is_document_def)
  show "1 \<notin> tree example_dom 3" using tree_childless [OF ok live(2)] by simp
qed

theorem dom_operations_refine_witness:
  "(\<exists>s'. link_end_child 1 1 3 example_dom = Some (3, s') \<and> dom_ok s' ((\<lambda>_. [])(1 := [2], 1 := [2, 3]))) \<and>
   (\<exists>s'. insert_before_child 1 2 3 3 example_dom = Some (3, s') \<and> dom_ok s' ((\<lambda>_. [])(1 := [2], 1 := [3, 2]))) \<and>
   (\<exists>k s'. remove_child k 1 2 example_dom = Some (True, s') \<and> dom_ok s' ((\<lambda>_. [])(1 := [2], 1 := [])))"
proof -
  have c: "((\<lambda>_. [])(1 := [2])) (1 :: ptr) = [] @ (2 :: ptr) # []" by simp
  note r = dom_operations_refine [OF example_ok(1-6) example_ok(5), of 1, unfolded c]
  show ?thesis
    using r [THEN conjunct1] r [THEN conjunct2, rule_format, of "[]" 2 "[]"] unfolding append_Nil append_Cons by blast
qed

theorem dom_searches_witness:
  "first_child ''b'' 1 example_dom = Some (found (find (\<lambda>y. t_value (t_nodes example_dom y) = ''b'') [2])) \<and>
   iterate_children 1 0 example_dom = Some 2 \<and> iterate_children 1 2 example_dom = Some 0"
proof -
  have c: "((\<lambda>_. [])(1 := [2])) (1 :: ptr) = [2 :: ptr]" by simp
  note r = dom_searches [OF example_ok(1,2), of "''b''", unfolded c]
  have "[2 :: ptr] = [] @ 2 # []" by simp
  then have "iterate_children 1 2 example_dom = Some (hd ([] @ [0]))" using r by blast
  then show ?thesis using r by (simp only: append_Cons append_Nil list.sel)
qed

theorem dom_well_formed_witness: "\<exists>C. dom_ok (snd (the (link_end_child 0 1 2 example_nodes))) C"
proof (rule dom_well_formed)
  have "dom_reach example_nodes"
    unfolding example_nodes_def by (intro dom_reach.intros) (simp_all add: create_node_def)
  moreover obtain s' where "link_end_child 0 1 2 example_nodes = Some (2, s')" using example_linked(1) by blast
  moreover have "1 \<in> t_live example_nodes" by (simp add: example_nodes_def create_node_def)
  ultimately show "dom_reach (snd (the (link_end_child 0 1 2 example_nodes)))"
    using example_linked(2) reach_link by fastforce
qed

end
