(* ===== verification/XmlHandle.thy ===== *)
theory XmlHandle
  imports XmlHeapProps
begin

text \<open>
  Handles (\<^verbatim>\<open>TiXmlHandle\<close> in \<^verbatim>\<open>tinyxml.cpp\<close>): a node or null, from which one descends without testing for null in
  between, and the loops that count children.
\<close>

section \<open>Handles\<close>

definition in_node :: "ptr \<Rightarrow> dom \<Rightarrow> ptr option \<Rightarrow> ptr option" where
  "in_node node s r = (if node = 0 then Some 0 else do { ensure (node \<in> t_live s); r })"

definition handle_FirstChild :: "ptr \<Rightarrow> dom \<Rightarrow> ptr option" where
  "handle_FirstChild node s = in_node node s (Some (t_first (t_nodes s node)))"

definition handle_FirstChild_named :: "string \<Rightarrow> ptr \<Rightarrow> dom \<Rightarrow> ptr option" where
  "handle_FirstChild_named v node s = in_node node s (first_child v node s)"

definition handle_FirstChildElement :: "ptr \<Rightarrow> dom \<Rightarrow> ptr option" where
  "handle_FirstChildElement node s = in_node node s (first_child_element node s)"

definition handle_FirstChildElement_named :: "string \<Rightarrow> ptr \<Rightarrow> dom \<Rightarrow> ptr option" where
  "handle_FirstChildElement_named v node s = in_node node s (first_child_element_named v node s)"

text \<open>\<^verbatim>\<open>for ( i = 0; child && i < count; child = next, ++i )\<close>\<close>

fun child_loop :: "(ptr \<Rightarrow> ptr option) \<Rightarrow> nat \<Rightarrow> ptr \<Rightarrow> ptr option" where
  "child_loop step 0 child = Some child"
| "child_loop step (Suc n) child = (if child = 0 then Some 0 else do { c \<leftarrow> step child; child_loop step n c })"

definition handle_Child :: "int \<Rightarrow> ptr \<Rightarrow> dom \<Rightarrow> ptr option" where
  "handle_Child i node s =
     in_node node s (child_loop (\<lambda>x. do { ensure (x \<in> t_live s); Some (t_next (t_nodes s x)) }) (nat i)
       (t_first (t_nodes s node)))"

definition handle_Child_named :: "string \<Rightarrow> int \<Rightarrow> ptr \<Rightarrow> dom \<Rightarrow> ptr option" where
  "handle_Child_named v i node s =
     in_node node s (do { c \<leftarrow> first_child v node s; child_loop (\<lambda>x. next_sibling v x s) (nat i) c })"

definition handle_ChildElement :: "int \<Rightarrow> ptr \<Rightarrow> dom \<Rightarrow> ptr option" where
  "handle_ChildElement i node s =
     in_node node s (do { c \<leftarrow> first_child_element node s; child_loop (\<lambda>x. next_sibling_element x s) (nat i) c })"

definition handle_ChildElement_named :: "string \<Rightarrow> int \<Rightarrow> ptr \<Rightarrow> dom \<Rightarrow> ptr option" where
  "handle_ChildElement_named v i node s =
     in_node node s
       (do { c \<leftarrow> first_child_element_named v node s; child_loop (\<lambda>x. next_sibling_element_named v x s) (nat i) c })"

section \<open>Counting\<close>

text \<open>The entry with this index, or null.\<close>

definition entry :: "ptr list \<Rightarrow> int \<Rightarrow> ptr" where
  "entry xs i = (if nat i < length xs then xs ! nat i else 0)"

lemma found_filter: "found (find P xs) = hd (filter P xs @ [0])"
  by (induction xs) (auto simp: found_def)

text \<open>If the step goes from each child to the next one that is wanted, the loop counts those.\<close>

lemma child_loop_counts:
  assumes "\<And>xs b ys. C = xs @ b # ys \<Longrightarrow> b \<noteq> 0 \<and> (P b \<longrightarrow> step b = Some (hd (filter P ys @ [0])))"
    and "C = pre @ rest"
  shows "child_loop step n (hd (filter P rest @ [0])) =
    Some (if n < length (filter P rest) then filter P rest ! n else 0)"
  using assms(2)
proof (induction n arbitrary: pre rest)
  case 0
  then show ?case by (cases "filter P rest") simp_all
next
  case (Suc n)
  show ?case
  proof (cases "filter P rest")
    case Nil
    then show ?thesis by simp
  next
    case (Cons b bs)
    then obtain us vs where r: "rest = us @ b # vs" "\<forall>u \<in> set us. \<not> P u" "P b" "bs = filter P vs"
      unfolding filter_eq_Cons_iff by blast
    then have C: "C = (pre @ us) @ b # vs" using Suc.prems by simp
    have "step b = Some (hd (filter P vs @ [0]))" "b \<noteq> 0" using assms(1) [OF C] r(3) by simp_all
    moreover have "child_loop step n (hd (filter P vs @ [0])) = Some (if n < length (filter P vs) then filter P vs ! n else 0)"
      by (rule Suc.IH [of "pre @ us @ [b]"]) (simp add: C)
    ultimately show ?thesis by (simp add: Cons r(4))
  qed
qed

lemma search_element_leads:
  assumes "leads t_next s x xs"
  shows "do { y \<leftarrow> search t_next (\<lambda>r. t_value r = v) s x; search_element v s y } =
    Some (hd (filter (\<lambda>y. t_value (t_nodes s y) = v \<and> element_node (t_nodes s y)) xs @ [0]))"
  using assms
proof (induction xs arbitrary: x)
  case Nil
  then show ?case by (simp add: search.simps search_element.simps)
next
  case (Cons y ys)
  have y: "x = y" "y \<noteq> 0" "y \<in> t_live s" "leads t_next s (t_next (t_nodes s y)) ys" using Cons.prems by simp_all
  note IH = Cons.IH [OF y(4)]
  show ?case
  proof (cases "t_value (t_nodes s y) = v")
    case False
    then show ?thesis using y(2,3) IH by (simp add: y(1) search.simps [of _ _ _ y])
  next
    case True
    have "search_element v s y = (if element_node (t_nodes s y) then Some y
        else do { z \<leftarrow> search t_next (\<lambda>r. t_value r = v) s (t_next (t_nodes s y)); search_element v s z })"
      using y(2) by (simp add: search_element.simps [of v s y] next_sibling_def)
    then show ?thesis using y(2,3) IH True by (simp add: y(1) search.simps [of _ _ _ y])
  qed
qed

lemma child_loop_entry:
  assumes "dom_ok s C" and "node \<in> t_live s"
    and "\<And>xs b ys. C node = xs @ b # ys \<Longrightarrow> step b = Some (hd (filter P ys @ [0]))"
  shows "child_loop step (nat i) (hd (filter P (C node) @ [0])) = Some (entry (filter P (C node)) i)"
  unfolding entry_def
  by (rule child_loop_counts [of "C node" _ _ "[]"]) (use assms(3) children_lead(4) [OF assms(1,2)] in auto)

lemma searches_count:
  assumes "dom_ok s C" and "node \<in> t_live s"
  shows "do { c \<leftarrow> search t_next P s (t_first (t_nodes s node));
      child_loop (\<lambda>x. search t_next P s (t_next (t_nodes s x))) (nat i) c } =
    Some (entry (filter (\<lambda>y. P (t_nodes s y)) (C node)) i)"
proof -
  note lead = children_lead [OF assms]
  have hit: "search t_next P s x = Some (hd (filter (\<lambda>y. P (t_nodes s y)) xs @ [0]))" if "leads t_next s x xs" for x xs
    using search_leads [OF that] by (simp add: found_filter)
  have "child_loop (\<lambda>x. search t_next P s (t_next (t_nodes s x))) (nat i) (hd (filter (\<lambda>y. P (t_nodes s y)) (C node) @ [0])) =
      Some (entry (filter (\<lambda>y. P (t_nodes s y)) (C node)) i)"
  proof (rule child_loop_entry [OF assms])
    fix xs b ys
    assume "C node = xs @ b # ys"
    from hit [OF lead(4) [OF this, THEN conjunct1]]
    show "search t_next P s (t_next (t_nodes s b)) = Some (hd (filter (\<lambda>y. P (t_nodes s y)) ys @ [0]))" .
  qed
  then show ?thesis unfolding hit [OF lead(1)] by simp
qed

lemma named_elements_count:
  assumes "dom_ok s C" and "node \<in> t_live s"
  shows "do { c \<leftarrow> first_child_element_named v node s;
      child_loop (\<lambda>x. next_sibling_element_named v x s) (nat i) c } =
    Some (entry (filter (\<lambda>y. t_value (t_nodes s y) = v \<and> element_node (t_nodes s y)) (C node)) i)"
proof -
  let ?P = "\<lambda>y. t_value (t_nodes s y) = v \<and> element_node (t_nodes s y)"
  note lead = children_lead [OF assms]
  have "child_loop (\<lambda>x. next_sibling_element_named v x s) (nat i) (hd (filter ?P (C node) @ [0])) =
      Some (entry (filter ?P (C node)) i)"
  proof (rule child_loop_entry [OF assms])
    fix xs b ys
    assume "C node = xs @ b # ys"
    from search_element_leads [OF lead(4) [OF this, THEN conjunct1], of v]
    show "next_sibling_element_named v b s = Some (hd (filter ?P ys @ [0]))"
      unfolding next_sibling_element_named_def next_sibling_def .
  qed
  moreover have "first_child_element_named v node s = Some (hd (filter ?P (C node) @ [0]))"
    unfolding first_child_element_named_def first_child_def by (rule search_element_leads [OF lead(1)])
  ultimately show ?thesis by simp
qed

text \<open>Handles count children.  From a handle on a node of a well-formed document, \<^verbatim>\<open>Child\<close> and \<^verbatim>\<open>ChildElement\<close>, with
  and without a value, give the child with that index among the children, those with the value, the elements, and the
  elements with the value, or null when there are fewer; from a null handle they give null.\<close>

theorem handles_count:
  assumes "dom_ok s C" and "node \<in> t_live s"
  shows "handle_Child i node s = Some (entry (C node) i) \<and>
    handle_Child_named v i node s = Some (entry (filter (\<lambda>y. t_value (t_nodes s y) = v) (C node)) i) \<and>
    handle_ChildElement i node s = Some (entry (filter (\<lambda>y. element_node (t_nodes s y)) (C node)) i) \<and>
    handle_ChildElement_named v i node s =
      Some (entry (filter (\<lambda>y. t_value (t_nodes s y) = v \<and> element_node (t_nodes s y)) (C node)) i) \<and>
    handle_Child i 0 s = Some 0 \<and> handle_Child_named v i 0 s = Some 0 \<and>
    handle_ChildElement i 0 s = Some 0 \<and> handle_ChildElement_named v i 0 s = Some 0"
proof -
  note lead = children_lead [OF assms]
  have inn: "in_node node s r = r" for r
    using assms dom_okD(1) [OF assms(1)] by (auto simp: in_node_def ensure_def)
  have "child_loop (\<lambda>x. do { ensure (x \<in> t_live s); Some (t_next (t_nodes s x)) }) (nat i)
      (hd (filter (\<lambda>_. True) (C node) @ [0])) = Some (entry (filter (\<lambda>_. True) (C node)) i)"
    by (rule child_loop_entry [OF assms]) (use lead(4) in \<open>simp add: ensure_def\<close>)
  then have "handle_Child i node s = Some (entry (C node) i)" by (simp add: handle_Child_def inn lead(3))
  moreover have "handle_Child_named v i node s = Some (entry (filter (\<lambda>y. t_value (t_nodes s y) = v) (C node)) i)"
    using searches_count [OF assms] by (simp add: handle_Child_named_def inn first_child_def next_sibling_def)
  moreover have "handle_ChildElement i node s = Some (entry (filter (\<lambda>y. element_node (t_nodes s y)) (C node)) i)"
    using searches_count [OF assms] by (simp add: handle_ChildElement_def inn first_child_element_def next_sibling_element_def)
  moreover have "handle_ChildElement_named v i node s =
      Some (entry (filter (\<lambda>y. t_value (t_nodes s y) = v \<and> element_node (t_nodes s y)) (C node)) i)"
    using named_elements_count [OF assms] by (simp add: handle_ChildElement_named_def inn)
  ultimately show ?thesis
    by (simp add: handle_Child_def handle_Child_named_def handle_ChildElement_def handle_ChildElement_named_def in_node_def)
qed

theorem handles_count_witness:
  "handle_Child 0 1 example_dom = Some 2 \<and> handle_Child 1 1 example_dom = Some 0"
  using handles_count [OF example_ok(1,2), of 0] handles_count [OF example_ok(1,2), of 1]
  by (simp add: entry_def)

end
