(* ===== verification/XmlFile.thy ===== *)
theory XmlFile
  imports XmlPrint DmXml
begin

text \<open>
  The rest of \<^verbatim>\<open>tinyxml.cpp\<close>: documents are loaded from files and saved to them, nodes are copied, and attributes are
  read and written as numbers and truth values.
\<close>

section \<open>Loading a file\<close>

definition CR :: char where "CR = CHR 0x0D"
definition LF :: char where "LF = CHR 0x0A"
definition NUL :: char where "NUL = CHR 0x00"

text \<open>The loop that makes all line ends \<open>LF\<close>, in place: \<open>p\<close> is the read head and \<open>q\<close> the write head in the buffer, whose
  last place holds \<open>NUL\<close>.  \<open>None\<close>: a failed assertion, or an access outside the buffer.\<close>

function norm_loop :: "string \<Rightarrow> nat \<Rightarrow> nat \<Rightarrow> string option" where
  "norm_loop buf p q =
     (if length buf \<le> p then None
      else if buf ! p = NUL then (if q < length buf then Some (buf[q := NUL]) else None)
      else if \<not> (p < length buf - 1 \<and> q \<le> length buf - 1 \<and> q \<le> p) then None
      else if buf ! p = CR
      then let buf1 = buf[q := LF] in
           if buf1 ! (p + 1) = LF then norm_loop buf1 (p + 2) (q + 1) else norm_loop buf1 (p + 1) (q + 1)
      else norm_loop (buf[q := buf ! p]) (p + 1) (q + 1))"
  by pat_completeness auto
termination by (relation "measure (\<lambda>(buf, p, q). length buf - p)") auto

declare norm_loop.simps [simp del]

definition c_string :: "string \<Rightarrow> string" where
  "c_string s = takeWhile (\<lambda>c. c \<noteq> NUL) s"

definition normalize_buffer :: "string \<Rightarrow> string option" where
  "normalize_buffer data = map_option c_string (norm_loop (data @ [NUL]) 0 0)"

text \<open>A document: the nodes below it and its error.  \<^verbatim>\<open>LoadFile\<close>, with the bytes of the file, if it can be opened, and
  whether it can be read; the result and the document afterwards.\<close>

type_synonym xml_doc = "xnode list \<times> err"

definition LoadFile :: "bool \<Rightarrow> encoding \<Rightarrow> string option \<Rightarrow> bool \<Rightarrow> xml_doc \<Rightarrow> (bool \<times> xml_doc) parsed" where
  "LoadFile condense e file read_ok doc =
     (case file of
        None \<Rightarrow> Parsed (False, fst doc, SetError TIXML_ERROR_OPENING_FILE (snd doc))
      | Some data \<Rightarrow>
          if data = [] then Parsed (False, [], SetError TIXML_ERROR_DOCUMENT_EMPTY (snd doc))
          else if \<not> read_ok then Parsed (False, [], SetError TIXML_ERROR_OPENING_FILE (snd doc))
          else (case normalize_buffer data of
                  None \<Rightarrow> Crash
                | Some txt \<Rightarrow>
                    (case xml_parse condense e txt of
                       NoFuel \<Rightarrow> NoFuel
                     | Crash \<Rightarrow> Crash
                     | Parsed (cs, q, err, e') \<Rightarrow> Parsed (err = None, cs, err))))"

section \<open>Saving a file\<close>

text \<open>\<^verbatim>\<open>Print\<close> of each kind of node, to a file.\<close>

definition comment_print :: "nat \<Rightarrow> string \<Rightarrow> string" where
  "comment_print d v = indentation d @ ''<!--'' @ v @ ''-->''"

definition text_print :: "nat \<Rightarrow> bool \<Rightarrow> string \<Rightarrow> string" where
  "text_print d cdata v =
     (if cdata then [LF] @ indentation d @ ''<![CDATA['' @ v @ '']]>'' @ [LF] else EncodeString v)"

definition unknown_print :: "nat \<Rightarrow> string \<Rightarrow> string" where
  "unknown_print d v = indentation d @ ''<'' @ v @ ''>''"

definition document_print :: "string list \<Rightarrow> string" where
  "document_print ss = concat (map (\<lambda>s. s @ [LF]) ss)"

fun file_print :: "nat \<Rightarrow> xnode \<Rightarrow> string" where
  "file_print d (XNode ty v cs) =
     (case ty of
        TINYXML_DOCUMENT \<Rightarrow> document_print (map (file_print d) cs)
      | TINYXML_ELEMENT as \<Rightarrow>
          indentation d @ ''<'' @ v @ attrs_print (shown_attributes as) @
          (if cs = [] then '' />''
           else if length cs = 1 \<and> is_text (hd cs)
           then ''>'' @ concat (map (file_print (d + 1)) cs) @ ''</'' @ v @ ''>''
           else ''>'' @ concat (map (\<lambda>c. (if is_text c then [] else [LF]) @ file_print (d + 1) c) cs) @ [LF] @
             indentation d @ ''</'' @ v @ ''>'')
      | TINYXML_TEXT cdata \<Rightarrow> text_print d cdata v
      | TINYXML_DECLARATION ver en st \<Rightarrow> decl_print ver en st
      | TINYXML_COMMENT \<Rightarrow> comment_print d v
      | TINYXML_UNKNOWN \<Rightarrow> unknown_print d v)"

text \<open>\<^verbatim>\<open>SaveFile\<close>: the bytes of the file, unless it cannot be opened.  A text file of Windows has \<open>CR LF\<close> for \<open>LF\<close>.\<close>

definition text_mode :: "bool \<Rightarrow> string \<Rightarrow> string" where
  "text_mode crlf s = concat (map (\<lambda>c. if crlf \<and> c = LF then [CR, LF] else [c]) s)"

definition SaveFile :: "bool \<Rightarrow> bool \<Rightarrow> bool \<Rightarrow> xnode \<Rightarrow> string option" where
  "SaveFile crlf open_ok useMicrosoftBOM doc =
     (if open_ok
      then Some (text_mode crlf ((if useMicrosoftBOM then [CHR 0xEF, CHR 0xBB, CHR 0xBF] else []) @ file_print 0 doc))
      else None)"

section \<open>Copying\<close>

text \<open>\<^verbatim>\<open>Clone\<close> and \<^verbatim>\<open>CopyTo\<close>: the attributes are set one by one, where an assertion may fail, and the children
  linked one by one; only documents and elements copy their children.\<close>

fun set_all :: "attributes \<Rightarrow> attributes \<Rightarrow> attributes option" where
  "set_all [] as = Some as"
| "set_all ((n, v) # r) as = do { bs \<leftarrow> SetAttribute n v as; set_all r bs }"

definition copy_attributes :: "attributes \<Rightarrow> attributes option" where
  "copy_attributes as = set_all (shown_attributes as) []"

definition link_copies :: "xnode list \<Rightarrow> xnode list" where
  "link_copies cs = filter (\<lambda>c. ntype c \<noteq> TINYXML_DOCUMENT) cs"

definition document_clone :: "string \<Rightarrow> xnode list \<Rightarrow> xnode" where
  "document_clone v copies = XNode TINYXML_DOCUMENT v (link_copies copies)"

definition element_clone :: "attributes \<Rightarrow> string \<Rightarrow> xnode list \<Rightarrow> xnode option" where
  "element_clone as v copies =
     map_option (\<lambda>bs. XNode (TINYXML_ELEMENT bs) v (link_copies copies)) (copy_attributes as)"

definition comment_clone :: "string \<Rightarrow> xnode" where
  "comment_clone v = XNode TINYXML_COMMENT v []"

definition text_clone :: "bool \<Rightarrow> string \<Rightarrow> xnode" where
  "text_clone cdata v = XNode (TINYXML_TEXT cdata) v []"

definition declaration_clone :: "string \<Rightarrow> string \<Rightarrow> string \<Rightarrow> string \<Rightarrow> xnode" where
  "declaration_clone ver en st v = XNode (TINYXML_DECLARATION ver en st) v []"

definition unknown_clone :: "string \<Rightarrow> xnode" where
  "unknown_clone v = XNode TINYXML_UNKNOWN v []"

fun clone :: "xnode \<Rightarrow> xnode option" where
  "clone (XNode ty v cs) =
     (case ty of
        TINYXML_DOCUMENT \<Rightarrow> map_option (document_clone v) (those (map clone cs))
      | TINYXML_ELEMENT as \<Rightarrow> Option.bind (those (map clone cs)) (element_clone as v)
      | TINYXML_COMMENT \<Rightarrow> Some (comment_clone v)
      | TINYXML_TEXT cdata \<Rightarrow> Some (text_clone cdata v)
      | TINYXML_DECLARATION ver en st \<Rightarrow> Some (declaration_clone ver en st v)
      | TINYXML_UNKNOWN \<Rightarrow> Some (unknown_clone v))"

section \<open>Attributes\<close>

definition remove_attribute :: "string \<Rightarrow> attributes \<Rightarrow> attributes" where
  "remove_attribute name as =
     (case find_attribute name as of None \<Rightarrow> as | Some v \<Rightarrow> remove1 (name, v) as)"

text \<open>\<^verbatim>\<open>sscanf\<close> with \<^verbatim>\<open>%d\<close>: a number, none, or one that does not fit, which C leaves open.\<close>

datatype scanned = Number int | No_Number | Too_Large

definition scan_int :: "string \<Rightarrow> scanned" where
  "scan_int s =
     (let t = dropWhile IsWhiteSpace s;
          (neg, r) = (case t of
                        [] \<Rightarrow> (False, [])
                      | c # u \<Rightarrow> if c = CHR ''-'' then (True, u) else if c = CHR ''+'' then (False, u) else (False, t));
          ds = takeWhile is_digit r;
          n = (if neg then - read_digits ds 0 else read_digits ds 0)
      in if ds = [] then No_Number else if n < - (2 ^ 31) \<or> 2 ^ 31 \<le> n then Too_Large else Number n)"

datatype query_code = TIXML_SUCCESS | TIXML_NO_ATTRIBUTE | TIXML_WRONG_TYPE

text \<open>The queries: the result and the value stored, if any; \<open>None\<close> when C leaves the result open or an assertion
  fails.\<close>

definition QueryIntAttribute :: "string \<Rightarrow> attributes \<Rightarrow> (query_code \<times> int option) option" where
  "QueryIntAttribute name as =
     (case find_attribute name as of
        None \<Rightarrow> Some (TIXML_NO_ATTRIBUTE, None)
      | Some v \<Rightarrow>
          (case scan_int v of
             Number n \<Rightarrow> Some (TIXML_SUCCESS, Some n)
           | No_Number \<Rightarrow> Some (TIXML_WRONG_TYPE, None)
           | Too_Large \<Rightarrow> None))"

definition QueryUnsignedAttribute :: "string \<Rightarrow> attributes \<Rightarrow> (query_code \<times> u32 option) option" where
  "QueryUnsignedAttribute name as =
     (case find_attribute name as of
        None \<Rightarrow> Some (TIXML_NO_ATTRIBUTE, None)
      | Some v \<Rightarrow>
          (case scan_int v of
             Number n \<Rightarrow> Some (TIXML_SUCCESS, Some (word_of_int n))
           | No_Number \<Rightarrow> Some (TIXML_WRONG_TYPE, Some 0)
           | Too_Large \<Rightarrow> None))"

definition QueryBoolAttribute :: "string \<Rightarrow> attributes \<Rightarrow> (query_code \<times> bool option) option" where
  "QueryBoolAttribute name as =
     (case find_attribute name as of
        None \<Rightarrow> Some (TIXML_NO_ATTRIBUTE, None)
      | Some v \<Rightarrow>
          if v = [] then None
          else if list_ex (\<lambda>t. StringEqual v t True) [''true'', ''yes'', ''1''] then Some (TIXML_SUCCESS, Some True)
          else if list_ex (\<lambda>t. StringEqual v t True) [''false'', ''no'', ''0''] then Some (TIXML_SUCCESS, Some False)
          else Some (TIXML_WRONG_TYPE, None))"

definition SetAttributeInt :: "string \<Rightarrow> int \<Rightarrow> attributes \<Rightarrow> attributes option" where
  "SetAttributeInt name n as = SetAttribute name (show_int n) as"

text \<open>\<^verbatim>\<open>Attribute\<close>: the value; and, when a place for it is given, the number it holds.\<close>

definition Attribute :: "string \<Rightarrow> attributes \<Rightarrow> string option" where
  "Attribute name as = find_attribute name as"

definition Attribute_int :: "string \<Rightarrow> attributes \<Rightarrow> string option \<times> scanned option" where
  "Attribute_int name as = (find_attribute name as, map_option scan_int (find_attribute name as))"

definition IntValue :: "string \<Rightarrow> int" where
  "IntValue v = atoi v"

end
