(* ===== verification/Gateway.thy ===== *)
theory Gateway
  imports UnixIo DmXml
begin

text \<open>
  The gateway (\<^verbatim>\<open>proxy.c\<close>, in \<^verbatim>\<open>server/\<close> and in \<^verbatim>\<open>examples/\<close>): a thread for each client connects to a remote host
  and passes the data on in both directions.  What the system calls answer is given turn by turn.
\<close>

section \<open>Addresses and options\<close>

text \<open>What ends the program: the messages before \<^verbatim>\<open>exit(1)\<close>, and a write past the end of \<^verbatim>\<open>host\<close>, which C leaves open.\<close>

datatype failure =
    Invalid_Address | Invalid_Port | Cannot_Resolve | Invalid_Remote | Invalid_Number | Usage
  | Local_Required | Remote_Required | Host_Overflow

record sockaddr_in =
  sin_port :: "16 word"
  sin_addr :: u32

definition HOST_LEN :: nat where "HOST_LEN = 128"

definition INADDR_ANY :: u32 where "INADDR_ANY = 0"

definition INADDR_NONE :: u32 where "INADDR_NONE = 0xffffffff"

text \<open>The host: \<open>inet\<close> is \<^verbatim>\<open>inet_addr\<close>, \<open>resolve\<close> is \<^verbatim>\<open>gethostbyname\<close>.\<close>

definition host_addr :: "(string \<Rightarrow> u32) \<Rightarrow> (string \<Rightarrow> u32 option) \<Rightarrow> string \<Rightarrow> failure + u32" where
  "host_addr inet resolve host =
     (if host = [] then Inr INADDR_ANY
      else if inet host \<noteq> INADDR_NONE then Inr (inet host)
      else case resolve host of None \<Rightarrow> Inl Cannot_Resolve | Some a \<Rightarrow> Inr a)"

text \<open>\<^verbatim>\<open>read_address\<close>; \<open>port_of\<close> is the conversion of the number to a port, \<open>None\<close> when it is less than 1, and
  \<open>htons\<close> the conversion to network order.\<close>

definition read_address_with ::
  "(int \<Rightarrow> 16 word option) \<Rightarrow> (16 word \<Rightarrow> 16 word) \<Rightarrow> (string \<Rightarrow> u32) \<Rightarrow> (string \<Rightarrow> u32 option) \<Rightarrow> string \<Rightarrow>
     failure + sockaddr_in" where
  "read_address_with port_of htons inet resolve str =
     (if HOST_LEN \<le> length str then Inl Host_Overflow
      else if CHR '':'' \<notin> set str then Inl Invalid_Address
      else let host = takeWhile (\<lambda>c. c \<noteq> CHR '':'') str;
               p = tl (dropWhile (\<lambda>c. c \<noteq> CHR '':'') str)
           in case port_of (atoi p) of
                None \<Rightarrow> Inl Invalid_Port
              | Some port \<Rightarrow>
                  map_sum id (\<lambda>a. \<lparr>sin_port = htons port, sin_addr = a\<rparr>) (host_addr inet resolve host))"

text \<open>The port is an \<^verbatim>\<open>unsigned short\<close> in \<^verbatim>\<open>server/proxy.c\<close> and a \<^verbatim>\<open>short\<close> in \<^verbatim>\<open>examples/proxy.c\<close>.\<close>

definition port_unsigned :: "int \<Rightarrow> 16 word option" where
  "port_unsigned n = (let w = word_of_int n in if uint (w :: 16 word) < 1 then None else Some w)"

definition port_signed :: "int \<Rightarrow> 16 word option" where
  "port_signed n = (let w = word_of_int n in if sint (w :: 16 word) < 1 then None else Some w)"

definition read_address ::
  "(16 word \<Rightarrow> 16 word) \<Rightarrow> (string \<Rightarrow> u32) \<Rightarrow> (string \<Rightarrow> u32 option) \<Rightarrow> string \<Rightarrow> failure + sockaddr_in" where
  "read_address = read_address_with port_unsigned"

definition example_read_address ::
  "(16 word \<Rightarrow> 16 word) \<Rightarrow> (string \<Rightarrow> u32) \<Rightarrow> (string \<Rightarrow> u32 option) \<Rightarrow> string \<Rightarrow> failure + sockaddr_in" where
  "example_read_address = read_address_with port_signed"

text \<open>The options of \<^verbatim>\<open>main\<close> as \<^verbatim>\<open>getopt\<close> gives them, each with its argument (the flags of \<^verbatim>\<open>-t\<close> matter only to the debug
  version); \<open>addr\<close> is \<^verbatim>\<open>read_address\<close> and
  \<open>cpus\<close> the result of \<^verbatim>\<open>cpu_count\<close>.\<close>

record options =
  o_local :: "sockaddr_in option"
  o_remote :: "sockaddr_in option"
  o_procs :: int
  o_serialize :: bool
  o_alt_ev :: bool
  o_one_process :: bool

definition no_options :: options where
  "no_options = \<lparr>o_local = None, o_remote = None, o_procs = 0, o_serialize = False, o_alt_ev = False, o_one_process = False\<rparr>"

definition option_step :: "(string \<Rightarrow> failure + sockaddr_in) \<Rightarrow> char \<times> string \<Rightarrow> options \<Rightarrow> failure + options" where
  "option_step addr opt cf =
     (let (c, arg) = opt in
      if c = CHR ''a'' then Inr (cf\<lparr>o_alt_ev := True\<rparr>)
      else if c = CHR ''l'' then map_sum id (\<lambda>a. cf\<lparr>o_local := Some a\<rparr>) (addr arg)
      else if c = CHR ''r'' then
        (case addr arg of
           Inl e \<Rightarrow> Inl e
         | Inr a \<Rightarrow> if sin_addr a = INADDR_ANY then Inl Invalid_Remote else Inr (cf\<lparr>o_remote := Some a\<rparr>))
      else if c = CHR ''p'' then
        (if atoi arg < 1 then Inl Invalid_Number else Inr (cf\<lparr>o_procs := atoi arg\<rparr>))
      else if c = CHR ''S'' then Inr (cf\<lparr>o_serialize := True\<rparr>)
      else if c = CHR ''X'' then Inr (cf\<lparr>o_one_process := True\<rparr>)
      else if c = CHR ''h'' \<or> c = CHR ''?'' then Inl Usage
      else Inr cf)"

fun option_loop :: "(string \<Rightarrow> failure + sockaddr_in) \<Rightarrow> (char \<times> string) list \<Rightarrow> options \<Rightarrow> failure + options" where
  "option_loop addr [] cf = Inr cf"
| "option_loop addr (opt # opts) cf =
     (case option_step addr opt cf of Inl e \<Rightarrow> Inl e | Inr cf' \<Rightarrow> option_loop addr opts cf')"

definition parse_options :: "(string \<Rightarrow> failure + sockaddr_in) \<Rightarrow> int \<Rightarrow> (char \<times> string) list \<Rightarrow> failure + options" where
  "parse_options addr cpus opts =
     (case option_loop addr opts no_options of
        Inl e \<Rightarrow> Inl e
      | Inr cf \<Rightarrow>
          if o_local cf = None then Inl Local_Required
          else if o_remote cf = None then Inl Remote_Required
          else let cf1 = (if o_procs cf = 0 then cf\<lparr>o_procs := cpus\<rparr> else cf)
               in Inr (if o_one_process cf1 then cf1\<lparr>o_procs := 1\<rparr> else cf1))"

section \<open>Passing the data\<close>

definition IOBUFSIZE :: nat where "IOBUFSIZE = 16 * 1024"

text \<open>What the calls answer when data is passed in one direction: \<^verbatim>\<open>read\<close>, its polls, \<^verbatim>\<open>write\<close>, its polls.\<close>

type_synonym 'a answers = "'a list sys list \<times> int option list \<times> nat sys list \<times> int option list"

text \<open>\<^verbatim>\<open>pass\<close>: whether to go on, what was read and what of it was written; \<open>None\<close> when a call waits for ever.\<close>

definition pass :: "'a answers \<Rightarrow> (bool \<times> 'a list \<times> 'a list) option" where
  "pass ans =
     (case ans of (rs, ps, ws, qs) \<Rightarrow>
        (case u_read IOBUFSIZE rs ps of
           None \<Rightarrow> None
         | Some (Inl e) \<Rightarrow> Some (False, [], [])
         | Some (Inr buf) \<Rightarrow>
             if buf = [] then Some (False, [], [])
             else (case u_write buf ws qs of
                     None \<Rightarrow> None
                   | Some (r, out, _) \<Rightarrow> Some (r = Inr (int (length buf)), buf, out))))"

record 'a flow =
  from_cli :: "'a list"
  to_rmt :: "'a list"
  from_rmt :: "'a list"
  to_cli :: "'a list"

definition no_data :: "'a flow" where
  "no_data = \<lparr>from_cli = [], to_rmt = [], from_rmt = [], to_cli = []\<rparr>"

text \<open>A turn: what \<^verbatim>\<open>st_poll\<close> returns, and for each side whether there is input and what the calls answer then.\<close>

record 'a turn =
  t_poll :: int
  cli_ready :: bool
  cli_calls :: "'a answers"
  rmt_ready :: bool
  rmt_calls :: "'a answers"

definition cli_pass :: "'a turn \<Rightarrow> 'a flow \<Rightarrow> (bool \<times> 'a flow) option" where
  "cli_pass t s =
     (if cli_ready t
      then map_option (\<lambda>(go, buf, out). (go, s\<lparr>from_cli := from_cli s @ buf, to_rmt := to_rmt s @ out\<rparr>)) (pass (cli_calls t))
      else Some (True, s))"

definition rmt_pass :: "'a turn \<Rightarrow> 'a flow \<Rightarrow> (bool \<times> 'a flow) option" where
  "rmt_pass t s =
     (if rmt_ready t
      then map_option (\<lambda>(go, buf, out). (go, s\<lparr>from_rmt := from_rmt s @ buf, to_cli := to_cli s @ out\<rparr>)) (pass (rmt_calls t))
      else Some (True, s))"

definition turn :: "'a turn \<Rightarrow> 'a flow \<Rightarrow> (bool \<times> 'a flow) option" where
  "turn t s =
     (if t_poll t \<le> 0 then Some (False, s)
      else case cli_pass t s of
             None \<Rightarrow> None
           | Some (False, s1) \<Rightarrow> Some (False, s1)
           | Some (True, s1) \<Rightarrow> rmt_pass t s1)"

text \<open>The loop: whether it still runs after the turns, and what was passed.\<close>

fun pump :: "'a turn list \<Rightarrow> 'a flow \<Rightarrow> (bool \<times> 'a flow) option" where
  "pump [] s = Some (True, s)"
| "pump (t # ts) s =
     (case turn t s of
        None \<Rightarrow> None
      | Some (False, s1) \<Rightarrow> Some (False, s1)
      | Some (True, s1) \<Rightarrow> pump ts s1)"

section \<open>A connection\<close>

text \<open>\<^verbatim>\<open>handle_request\<close> for the descriptor \<open>cli\<close>: the result of \<^verbatim>\<open>socket\<close>, what \<^verbatim>\<open>st_netfd_open_socket\<close> and
  \<^verbatim>\<open>st_connect\<close> need, and the turns.  \<open>None\<close>: it still runs.\<close>

definition finish :: "ptr \<Rightarrow> 'a flow \<Rightarrow> unix_io \<Rightarrow> ('a flow \<times> unix_io) option" where
  "finish cli p s = map_option (Pair p) (u_netfd_close 2 cli s)"

definition finish_both :: "ptr \<Rightarrow> ptr \<Rightarrow> 'a flow \<Rightarrow> unix_io \<Rightarrow> ('a flow \<times> unix_io) option" where
  "finish_both cli rmt p s = Option.bind (u_netfd_close 2 rmt s) (finish cli p)"

definition handle_request ::
  "ptr \<Rightarrow> int \<Rightarrow> ptr option \<Rightarrow> bool \<Rightarrow> int option \<Rightarrow> int option list \<Rightarrow> int option list \<Rightarrow> int sys \<Rightarrow> 'a turn list \<Rightarrow>
     unix_io \<Rightarrow> ('a flow \<times> unix_io) option" where
  "handle_request cli sock mem ioctl_ok fcntl_err cs ps so ts s =
     (if sock < 0 then finish cli no_data s
      else case u_netfd_open_socket sock mem ioctl_ok fcntl_err s of
             None \<Rightarrow> None
           | Some (rmt, s1) \<Rightarrow>
               if rmt = 0 then finish cli no_data (s1\<lparr>u_closed := u_closed s1 @ [sock]\<rparr>)
               else (case u_connect False cs ps so of
                       None \<Rightarrow> None
                     | Some (Inl e) \<Rightarrow> finish_both cli rmt no_data s1
                     | Some (Inr _) \<Rightarrow>
                         (case pump ts no_data of
                            Some (False, p) \<Rightarrow> finish_both cli rmt p s1
                          | _ \<Rightarrow> None)))"

text \<open>The loop of \<^verbatim>\<open>main\<close>: the descriptors \<^verbatim>\<open>st_accept\<close> gives, 0 for an error, and whether a thread can be created;
  the descriptors handled, and whether the program has ended.\<close>

fun accept_clients :: "(ptr \<times> bool) list \<Rightarrow> ptr list \<times> bool" where
  "accept_clients [] = ([], False)"
| "accept_clients ((cli, created) # xs) =
     (if cli = 0 \<or> \<not> created then ([], True)
      else let (handled, ended) = accept_clients xs in (cli # handled, ended))"

end
