(* ===== verification/GatewayProps.thy ===== *)
theory GatewayProps
  imports Gateway UnixProps
begin

text \<open>
  The properties of the gateway: what it passes on, what it closes, and the addresses it reads.
\<close>

section \<open>Passing the data\<close>

lemma pass_result:
  assumes "pass ans = Some (go, buf, out)"
  shows "prefix out buf" and "go \<Longrightarrow> out = buf"
proof -
  obtain rs ps ws qs where a: "ans = (rs, ps, ws, qs)" by (cases ans)
  have "prefix out buf \<and> (go \<longrightarrow> out = buf)"
  proof (cases "\<exists>b. u_read IOBUFSIZE rs ps = Some (Inr b) \<and> b \<noteq> []")
    case True
    then obtain b r o' x where b: "u_read IOBUFSIZE rs ps = Some (Inr b)" "b \<noteq> []" "u_write b ws qs = Some (r, o', x)"
      using assms by (auto simp: pass_def a split: option.splits)
    then have e: "buf = b" "out = o'" "go \<longleftrightarrow> r = Inr (int (length b))" using assms by (auto simp: pass_def a)
    obtain res y where res: "write_loop b [] ws qs = Some (res, o', y)"
      "r = (case res of None \<Rightarrow> Inr (int (length b)) | Some e \<Rightarrow> Inl e)"
      using b(3) by (auto simp: u_write_def all_or_error_def split: option.splits)
    obtain n where "o' = take n b" "res = None \<longrightarrow> take n b = b" using write_loop_result [OF res(1)] by auto
    then show ?thesis using res(2) e by (auto simp: take_is_prefix split: option.splits)
  next
    case False
    then show ?thesis
      using assms by (auto simp: pass_def a split: option.splits sum.splits if_splits)
  qed
  then show "prefix out buf" and "go \<Longrightarrow> out = buf" by simp_all
qed

text \<open>The two streams: complete in both directions, or complete in one and a prefix in the other.\<close>

definition level :: "'a flow \<Rightarrow> bool" where
  "level s \<longleftrightarrow> to_rmt s = from_cli s \<and> to_cli s = from_rmt s"

definition behind :: "'a flow \<Rightarrow> bool" where
  "behind s \<longleftrightarrow> prefix (to_rmt s) (from_cli s) \<and> prefix (to_cli s) (from_rmt s) \<and>
     (to_rmt s = from_cli s \<or> to_cli s = from_rmt s)"

lemma level_behind: "level s \<Longrightarrow> behind s"
  by (simp add: level_def behind_def)

lemma pass_keeps:
  assumes "level s"
  shows "cli_pass t s = Some (go, s') \<Longrightarrow> behind s' \<and> (go \<longrightarrow> level s')"
    and "rmt_pass t s = Some (go, s') \<Longrightarrow> behind s' \<and> (go \<longrightarrow> level s')"
proof -
  have l: "to_rmt s = from_cli s" "to_cli s = from_rmt s" using assms by (simp_all add: level_def)
  show "behind s' \<and> (go \<longrightarrow> level s')" if res: "cli_pass t s = Some (go, s')"
  proof (cases "cli_ready t")
    case True
    then obtain buf out where p: "pass (cli_calls t) = Some (go, buf, out)"
      "s' = s\<lparr>from_cli := from_cli s @ buf, to_rmt := to_rmt s @ out\<rparr>"
      using res by (auto simp: cli_pass_def)
    show ?thesis using pass_result [OF p(1)] l by (simp add: p(2) behind_def level_def)
  next
    case False
    then show ?thesis using res assms level_behind by (auto simp: cli_pass_def)
  qed
  show "behind s' \<and> (go \<longrightarrow> level s')" if res: "rmt_pass t s = Some (go, s')"
  proof (cases "rmt_ready t")
    case True
    then obtain buf out where p: "pass (rmt_calls t) = Some (go, buf, out)"
      "s' = s\<lparr>from_rmt := from_rmt s @ buf, to_cli := to_cli s @ out\<rparr>"
      using res by (auto simp: rmt_pass_def)
    show ?thesis using pass_result [OF p(1)] l by (simp add: p(2) behind_def level_def)
  next
    case False
    then show ?thesis using res assms level_behind by (auto simp: rmt_pass_def)
  qed
qed

lemma turn_keeps:
  assumes "level s" and "turn t s = Some (go, s')"
  shows "behind s' \<and> (go \<longrightarrow> level s')"
proof (cases "t_poll t \<le> 0")
  case True
  then show ?thesis using assms level_behind by (auto simp: turn_def)
next
  case False
  then obtain go1 s1 where s1: "cli_pass t s = Some (go1, s1)"
    using assms(2) by (auto simp: turn_def split: option.splits)
  show ?thesis
  proof (cases go1)
    case True
    then have "level s1" using pass_keeps(1) [OF assms(1) s1] by simp
    moreover have "rmt_pass t s1 = Some (go, s')" using assms(2) False s1 True by (simp add: turn_def)
    ultimately show ?thesis by (rule pass_keeps(2))
  next
    case no: False
    then show ?thesis using pass_keeps(1) [OF assms(1) s1] assms(2) False s1 by (simp add: turn_def)
  qed
qed

lemma pump_keeps: "level s \<Longrightarrow> pump ts s = Some (go, s') \<Longrightarrow> behind s' \<and> (go \<longrightarrow> level s')"
proof (induction ts arbitrary: s)
  case Nil
  then show ?case using level_behind by auto
next
  case (Cons t ts)
  then obtain g s1 where t: "turn t s = Some (g, s1)" by (auto split: option.splits)
  have k: "behind s1 \<and> (g \<longrightarrow> level s1)" by (rule turn_keeps [OF Cons.prems(1) t])
  show ?case
  proof (cases g)
    case True
    then show ?thesis using Cons.IH [of s1] Cons.prems(2) k t by simp
  next
    case False
    then show ?thesis using Cons.prems(2) k t by auto
  qed
qed

text \<open>C37: The gateway forwards the bytes unchanged, in order and without loss.  Whatever the system calls
  answer (short reads and writes, interruptions, errors), after any number of turns what was written to each side is a
  prefix of what was read from the other; while the loop runs nothing is held back, and when it has
  ended at most one direction is incomplete.\<close>

theorem gateway_forwards:
  assumes "pump ts no_data = Some (running, p)"
  shows "prefix (to_rmt p) (from_cli p) \<and> prefix (to_cli p) (from_rmt p) \<and>
    (running \<longrightarrow> to_rmt p = from_cli p \<and> to_cli p = from_rmt p) \<and>
    (to_rmt p = from_cli p \<or> to_cli p = from_rmt p)"
proof -
  have "level (no_data :: 'a flow)" by (simp add: level_def no_data_def)
  from pump_keeps [OF this assms] show ?thesis by (auto simp: behind_def level_def)
qed

theorem gateway_forwards_witness:
  "\<exists>p. pump [\<lparr>t_poll = 1, cli_ready = True, cli_calls = ([Inl EAGAIN, Inr [1, 2, 3]], [None], [Inr 2, Inr 1], [None]),
       rmt_ready = False, rmt_calls = ([], [], [], [])\<rparr>,
      \<lparr>t_poll = 1, cli_ready = False, cli_calls = ([], [], [], []),
       rmt_ready = True, rmt_calls = ([Inr [4, 5 :: nat]], [], [Inr 1, Inl 32], [None])\<rparr>] no_data = Some (False, p) \<and>
    from_cli p = [1, 2, 3] \<and> to_cli p = [4] \<and> to_rmt p = from_cli p"
proof -
  let ?p = "\<lparr>from_cli = [1, 2, 3], to_rmt = [1, 2, 3], from_rmt = [4, 5], to_cli = [4 :: nat]\<rparr>"
  have w: "pump [\<lparr>t_poll = 1, cli_ready = True, cli_calls = ([Inl EAGAIN, Inr [1, 2, 3]], [None], [Inr 2, Inr 1], [None]),
       rmt_ready = False, rmt_calls = ([], [], [], [])\<rparr>,
      \<lparr>t_poll = 1, cli_ready = False, cli_calls = ([], [], [], []),
       rmt_ready = True, rmt_calls = ([Inr [4, 5 :: nat]], [], [Inr 1, Inl 32], [None])\<rparr>] no_data = Some (False, ?p)"
    by (simp add: turn_def cli_pass_def rmt_pass_def pass_def u_read_def u_write_def all_or_error_def write_loop.simps
        write_turn_def EINTR_def EAGAIN_def IOBUFSIZE_def no_data_def)
  show ?thesis using w gateway_forwards [OF w] by auto
qed

section \<open>Closing the sockets\<close>

lemma netfd_close_plain:
  assumes "nf_aux (u_fds s fd) = 0" and "nf_inuse (u_fds s fd) \<noteq> 0"
  shows "\<exists>s'. u_netfd_close 2 fd s = Some s' \<and> u_closed s' = u_closed s @ [nf_osfd (u_fds s fd)] \<and>
    u_freelist s' = fd \<and> nf_inuse (u_fds s' fd) = 0 \<and> (\<forall>x. x \<noteq> fd \<longrightarrow> u_fds s' x = u_fds s x)"
  using assms
  by (auto simp: u_netfd_close_def numeral_2_eq_2 u_upd_def u_destroy_def u_close_osfd_def Let_def)

text \<open>A new descriptor for a socket, or the null pointer.\<close>

lemma netfd_open_socket:
  assumes "u_netfd_open_socket sock mem ioctl_ok fcntl_err s = Some (rmt, s1)"
    and "u_freelist s \<noteq> 0 \<longrightarrow> nf_aux (u_fds s (u_freelist s)) = 0"
    and "cli \<noteq> u_freelist s" and "mem \<noteq> Some cli"
  shows "u_closed s1 = u_closed s" and "u_fds s1 cli = u_fds s cli"
    and "rmt \<noteq> 0 \<Longrightarrow> rmt \<noteq> cli \<and> nf_aux (u_fds s1 rmt) = 0 \<and> nf_inuse (u_fds s1 rmt) \<noteq> 0 \<and> nf_osfd (u_fds s1 rmt) = sock"
  using assms
  by (auto simp: u_netfd_open_socket_def u_netfd_new_def u_upd_def u_destroy_def numeral_2_eq_2 Let_def zero_netfd_def
      split: if_splits option.splits)

text \<open>C38: No connection leaks a socket or closes one twice.  However \<^verbatim>\<open>handle_request\<close> ends (no socket, no
  memory for the descriptor, no connection, end of the data or an error), it has closed the socket to the
  remote host, if it got one, and then the one to the client, once each, and both descriptors are free.\<close>

theorem gateway_closes:
  assumes "handle_request cli sock mem ioctl_ok fcntl_err cs ps so ts s = Some (p, s')"
    and "nf_inuse (u_fds s cli) \<noteq> 0" and "nf_aux (u_fds s cli) = 0"
    and "u_freelist s \<noteq> 0 \<longrightarrow> nf_aux (u_fds s (u_freelist s)) = 0"
    and "cli \<noteq> u_freelist s" and "mem \<noteq> Some cli"
  shows "u_closed s' = u_closed s @ (if sock < 0 then [] else [sock]) @ [nf_osfd (u_fds s cli)] \<and>
    nf_inuse (u_fds s' cli) = 0 \<and> u_freelist s' = cli"
proof (cases "sock < 0")
  case True
  then have "u_netfd_close 2 cli s = Some s'" using assms(1) by (auto simp: handle_request_def finish_def)
  then show ?thesis using netfd_close_plain [OF assms(3,2)] True by auto
next
  case False
  obtain rmt s1 where open_: "u_netfd_open_socket sock mem ioctl_ok fcntl_err s = Some (rmt, s1)"
    using assms(1) False by (auto simp: handle_request_def split: option.splits)
  note o = netfd_open_socket [OF open_ assms(4-6)]
  show ?thesis
  proof (cases "rmt = 0")
    case True
    let ?s = "s1\<lparr>u_closed := u_closed s1 @ [sock]\<rparr>"
    have "u_netfd_close 2 cli ?s = Some s'"
      using assms(1) False open_ True by (auto simp: handle_request_def finish_def)
    moreover have "nf_aux (u_fds ?s cli) = 0" "nf_inuse (u_fds ?s cli) \<noteq> 0" using o(2) assms(2,3) by simp_all
    ultimately show ?thesis using netfd_close_plain [of ?s cli] o(1,2) False by auto
  next
    case rmt: False
    obtain q where "finish_both cli rmt q s1 = Some (p, s')"
      using assms(1) False open_ rmt
      by (auto simp: handle_request_def split: option.splits sum.splits prod.splits bool.splits)
    then obtain s2 where s2: "u_netfd_close 2 rmt s1 = Some s2" "u_netfd_close 2 cli s2 = Some s'"
      by (auto simp: finish_both_def finish_def split: Option.bind_splits)
    have r: "rmt \<noteq> cli" "nf_aux (u_fds s1 rmt) = 0" "nf_inuse (u_fds s1 rmt) \<noteq> 0" "nf_osfd (u_fds s1 rmt) = sock"
      using o(3) rmt by simp_all
    have c: "u_closed s2 = u_closed s @ [sock]" "u_fds s2 cli = u_fds s cli"
      using netfd_close_plain [OF r(2,3)] s2(1) r(1,4) o(1,2) by auto
    then have "nf_aux (u_fds s2 cli) = 0" "nf_inuse (u_fds s2 cli) \<noteq> 0" using assms(2,3) by simp_all
    then show ?thesis using netfd_close_plain [of s2 cli] s2(2) c False by auto
  qed
qed

theorem gateway_closes_witness:
  "\<exists>p s'. handle_request 1 7 (Some 2) True None [None] [] (Inr 0)
      [\<lparr>t_poll = 1, cli_ready = True, cli_calls = ([Inr ([] :: nat list)], [], [], []), rmt_ready = False,
        rmt_calls = ([], [], [], [])\<rparr>]
      \<lparr>u_fds = (\<lambda>_. zero_netfd)(1 := zero_netfd\<lparr>nf_osfd := 5, nf_inuse := 1\<rparr>), u_freelist = 0, u_pairs = (\<lambda>_. (0, 0)),
        u_log = [], u_closed = [], u_errno = 0\<rparr> = Some (p, s') \<and> u_closed s' = [7, 5] \<and> u_freelist s' = 1"
  (is "\<exists>p s'. handle_request 1 7 _ _ _ _ _ _ ?ts ?s = _ \<and> _")
proof -
  have "pump ?ts no_data = Some (False, no_data)"
    by (simp add: turn_def cli_pass_def pass_def u_read_def no_data_def)
  then obtain p s' where r: "handle_request 1 7 (Some 2) True None [None] [] (Inr 0) ?ts ?s = Some (p, s')"
    by (auto simp: handle_request_def finish_both_def finish_def u_netfd_open_socket_def u_netfd_new_def u_netfd_close_def
        u_upd_def u_destroy_def u_close_osfd_def numeral_2_eq_2 zero_netfd_def FD_SETSIZE_def Let_def)
  have "u_closed s' = u_closed ?s @ (if (7 :: int) < 0 then [] else [7]) @ [nf_osfd (u_fds ?s 1)] \<and>
      nf_inuse (u_fds s' 1) = 0 \<and> u_freelist s' = 1"
    by (rule gateway_closes [OF r]) (simp_all add: zero_netfd_def)
  then show ?thesis using r by auto
qed

section \<open>Addresses\<close>

lemma read_digits_append: "(\<forall>c \<in> set s. is_digit c) \<Longrightarrow> read_digits (s @ t) acc = read_digits t (read_digits s acc)"
  by (induction s arbitrary: acc) simp_all

lemma digit_is_digit:
  assumes "n < 10"
  shows "is_digit (digit n)" and "code (digit n) = 48 + n"
proof -
  show "code (digit n) = 48 + n" using assms by (simp add: digit_def of_char_of)
  then show "is_digit (digit n)" using assms by (simp add: is_digit_def)
qed

lemma show_nat_digits: "(\<forall>c \<in> set (show_nat n). is_digit c) \<and> show_nat n \<noteq> []"
proof (induction n rule: show_nat.induct)
  case (1 n)
  show ?case using 1 digit_is_digit(1) by (subst (1 2) show_nat.simps) auto
qed

lemma read_show_nat: "read_digits (show_nat n) 0 = int n"
proof (induction n rule: show_nat.induct)
  case (1 n)
  have m: "code (digit (n mod 10)) = 48 + n mod 10" "is_digit (digit (n mod 10))" using digit_is_digit [of "n mod 10"] by simp_all
  show ?case
  proof (cases "n < 10")
    case True
    then show ?thesis using digit_is_digit [of n] by (subst show_nat.simps) simp
  next
    case False
    have "read_digits (show_nat n) 0 = int (n div 10) * 10 + int (n mod 10)"
      using False 1 m show_nat_digits [of "n div 10"] by (subst show_nat.simps) (simp add: read_digits_append)
    also have "\<dots> = int (n div 10 * 10 + n mod 10)" by (simp only: of_nat_add of_nat_mult of_nat_numeral)
    finally show ?thesis by simp
  qed
qed

lemma digit_char: "is_digit c \<Longrightarrow> \<not> IsWhiteSpace c \<and> c \<noteq> CHR ''-'' \<and> c \<noteq> CHR ''+'' \<and> c \<noteq> CHR '':''"
  by (auto simp: is_digit_def IsWhiteSpace_def)

lemma atoi_show_nat: "int n < 2 ^ 31 \<Longrightarrow> atoi (show_nat n) = int n"
proof -
  assume n: "int n < 2 ^ 31"
  obtain c s where s: "show_nat n = c # s" using show_nat_digits [of n] by (cases "show_nat n") auto
  then have "is_digit c" using show_nat_digits [of n] by simp
  then show ?thesis
    using n digit_char [of c] read_show_nat [of n] s by (simp add: atoi_def clamp_def)
qed

lemma port_word:
  assumes "n < 2 ^ 16"
  shows "uint (of_nat n :: 16 word) = int n" and "sint (of_nat n :: 16 word) = (if n < 2 ^ 15 then int n else int n - 2 ^ 16)"
proof -
  have u: "uint (of_nat n :: 16 word) = int n" using assms by (simp add: uint_nat unat_of_nat)
  then show "uint (of_nat n :: 16 word) = int n" .
  show "sint (of_nat n :: 16 word) = (if n < 2 ^ 15 then int n else int n - 2 ^ 16)"
  proof (cases "n < 2 ^ 15")
    case True
    then show ?thesis unfolding sint_uint u by (simp add: signed_take_bit_eq_take_bit_shift take_bit_eq_mod)
  next
    case False
    then obtain m where m: "n = 2 ^ 15 + m" by (metis le_iff_add linorder_not_less)
    have "(int m + 65536) mod 65536 = int m" using assms by (simp add: m)
    then show ?thesis
      using False unfolding sint_uint u by (simp add: m signed_take_bit_eq_take_bit_shift take_bit_eq_mod)
  qed
qed

text \<open>An address of a host and a port in decimal is read as this host and this port.  \<^verbatim>\<open>server/proxy.c\<close> takes every
  port from 1 to 65535; \<^verbatim>\<open>examples/proxy.c\<close> refuses those from 32768 on, which are negative numbers to it.\<close>

theorem read_address_port:
  assumes "CHR '':'' \<notin> set host" and "1 \<le> n" and "n < 2 ^ 16"
    and "length host + 1 + length (show_nat n) < HOST_LEN"
  shows "read_address htons inet resolve (host @ '':'' @ show_nat n) =
      map_sum id (\<lambda>a. \<lparr>sin_port = htons (of_nat n), sin_addr = a\<rparr>) (host_addr inet resolve host) \<and>
    example_read_address htons inet resolve (host @ '':'' @ show_nat n) =
      (if n < 2 ^ 15 then read_address htons inet resolve (host @ '':'' @ show_nat n) else Inl Invalid_Port)"
proof -
  let ?str = "host @ '':'' @ show_nat n"
  have p: "port_unsigned (atoi (show_nat n)) = Some (of_nat n)"
    "port_signed (atoi (show_nat n)) = (if n < 2 ^ 15 then Some (of_nat n) else None)"
    using assms(2,3) port_word [OF assms(3)] by (simp_all add: port_unsigned_def port_signed_def atoi_show_nat)
  have "takeWhile (\<lambda>c. c \<noteq> CHR '':'') ?str = host" "tl (dropWhile (\<lambda>c. c \<noteq> CHR '':'') ?str) = show_nat n"
  proof -
    have h: "\<And>c. c \<in> set host \<Longrightarrow> c \<noteq> CHR '':''" using assms(1) by metis
    show "takeWhile (\<lambda>c. c \<noteq> CHR '':'') ?str = host" by (simp add: takeWhile_append2 [OF h])
    show "tl (dropWhile (\<lambda>c. c \<noteq> CHR '':'') ?str) = show_nat n" by (simp add: dropWhile_append2 [OF h])
  qed
  moreover have "\<not> HOST_LEN \<le> length ?str" "CHR '':'' \<in> set ?str" using assms(4) by simp_all
  ultimately have "read_address_with port_of htons inet resolve ?str =
      (case port_of (atoi (show_nat n)) of
         None \<Rightarrow> Inl Invalid_Port
       | Some port \<Rightarrow> map_sum id (\<lambda>a. \<lparr>sin_port = htons port, sin_addr = a\<rparr>) (host_addr inet resolve host))" for port_of
    unfolding read_address_with_def Let_def by (simp only: if_False simp_thms)
  then show ?thesis using p by (simp add: read_address_def example_read_address_def)
qed

theorem read_address_port_witness:
  "read_address id (\<lambda>_. INADDR_NONE) (\<lambda>_. Some 1) (''gate'' @ '':'' @ show_nat 40000) = Inr \<lparr>sin_port = 40000, sin_addr = 1\<rparr> \<and>
   example_read_address id (\<lambda>_. INADDR_NONE) (\<lambda>_. Some 1) (''gate'' @ '':'' @ show_nat 40000) = Inl Invalid_Port"
proof -
  have l: "length (show_nat 40000) = 5" by (simp add: show_nat.simps)
  note r = read_address_port [of "''gate''" 40000 id "\<lambda>_. INADDR_NONE" "\<lambda>_. Some 1", unfolded l]
  show ?thesis using r by (simp add: HOST_LEN_def host_addr_def)
qed

end
