(* ===== verification/XmlFileProps.thy ===== *)
theory XmlFileProps
  imports XmlFile XmlProps GatewayProps
begin

text \<open>
  The properties of files, copies and numbers in attributes.
\<close>

section \<open>Line ends\<close>

text \<open>What the XML specification asks for: \<open>CR LF\<close> and any other \<open>CR\<close> become \<open>LF\<close>.\<close>

fun eol :: "string \<Rightarrow> string" where
  "eol [] = []"
| "eol [c] = (if c = CR then [LF] else [c])"
| "eol (c # d # s) =
     (if c = CR then (if d = LF then LF # eol s else LF # eol (d # s)) else c # eol (d # s))"

lemma chars_differ [simp]: "CR \<noteq> LF" "LF \<noteq> CR" "CR \<noteq> NUL" "LF \<noteq> NUL" "NUL \<noteq> CR" "NUL \<noteq> LF"
  by (simp_all add: CR_def LF_def NUL_def)

text \<open>The buffer: what has been written, what has been read since then, and the rest.\<close>

lemma norm_loop_step:
  assumes "buf = out @ mid @ c # r @ NUL # junk" and "c \<noteq> NUL"
  shows "norm_loop buf (length out + length mid) (length out) =
    (if c = CR
     then if hd (r @ NUL # junk) = LF
          then norm_loop ((out @ [LF]) @ (tl (mid @ [c])) @ r @ NUL # junk) (length out + length mid + 2) (length out + 1)
          else norm_loop ((out @ [LF]) @ (tl (mid @ [c])) @ r @ NUL # junk) (length out + length mid + 1) (length out + 1)
     else norm_loop ((out @ [c]) @ (tl (mid @ [c])) @ r @ NUL # junk) (length out + length mid + 1) (length out + 1))"
proof -
  let ?p = "length out + length mid"
  have at: "buf ! ?p = c" "?p < length buf - 1" "length out \<le> ?p" using assms(1) by (simp_all add: nth_append)
  define nb where "nb = buf[length out := LF]"
  have upd: "buf[length out := x] = (out @ [x]) @ tl (mid @ [c]) @ r @ NUL # junk" for x
    using assms(1) by (cases mid) (simp_all add: list_update_append)
  have nx: "nb ! (?p + 1) = hd (r @ NUL # junk)"
    using assms(1) by (cases r) (simp_all add: nb_def nth_list_update nth_append)
  have "norm_loop buf ?p (length out) =
      (if c = CR then if nb ! (?p + 1) = LF then norm_loop nb (?p + 2) (length out + 1) else norm_loop nb (?p + 1) (length out + 1)
       else norm_loop (buf[length out := c]) (?p + 1) (length out + 1))"
  proof -
    have "\<not> length buf \<le> ?p" "\<not> \<not> (?p < length buf - 1 \<and> length out \<le> length buf - 1 \<and> length out \<le> ?p)" using at by auto
    then show ?thesis unfolding nb_def by (subst norm_loop.simps) (simp only: at(1) assms(2) if_False if_True Let_def)
  qed
  from this [unfolded nx, unfolded nb_def upd] show ?thesis .
qed

lemma norm_loop_result:
  "NUL \<notin> set out \<Longrightarrow> NUL \<notin> set rest \<Longrightarrow>
    \<exists>buf'. norm_loop (out @ mid @ rest @ NUL # junk) (length out + length mid) (length out) = Some buf' \<and>
      c_string buf' = out @ eol rest"
proof (induction "length rest" arbitrary: out mid rest rule: less_induct)
  case less
  show ?case
  proof (cases rest)
    case Nil
    have "norm_loop (out @ mid @ rest @ NUL # junk) (length out + length mid) (length out) =
        Some ((out @ mid @ NUL # junk)[length out := NUL])"
      by (subst norm_loop.simps) (simp add: nth_append Nil)
    moreover have "c_string ((out @ mid @ NUL # junk)[length out := NUL]) = out"
      using less.prems(1) by (cases mid) (auto simp: c_string_def list_update_append takeWhile_append)
    ultimately show ?thesis by (simp add: Nil)
  next
    case (Cons c r)
    have c: "c \<noteq> NUL" "NUL \<notin> set r" using less.prems(2) by (auto simp: Cons)
    have step: "norm_loop (out @ mid @ rest @ NUL # junk) (length out + length mid) (length out) = norm_loop buf p q \<Longrightarrow>
        buf = out' @ mid' @ rest' @ NUL # junk \<Longrightarrow> p = length out' + length mid' \<Longrightarrow> q = length out' \<Longrightarrow>
        length rest' < length rest \<Longrightarrow> NUL \<notin> set out' \<Longrightarrow> NUL \<notin> set rest' \<Longrightarrow> out' @ eol rest' = out @ eol rest \<Longrightarrow> ?thesis"
      for buf p q out' mid' rest' using less.hyps [of rest' out' mid'] by simp
    note one = norm_loop_step [of "out @ mid @ rest @ NUL # junk" out mid c r, OF _ c(1)]
    consider "c = CR" "hd (r @ NUL # junk) = LF" | "c = CR" "hd (r @ NUL # junk) \<noteq> LF" | "c \<noteq> CR" by blast
    then show ?thesis
    proof cases
      case 1
      then obtain t where r: "r = LF # t" by (cases r) auto
      show ?thesis
        by (rule step [of "(out @ [LF]) @ tl (mid @ [c]) @ r @ NUL # junk" "length out + length mid + 2" "length out + 1"
              "out @ [LF]" "tl (mid @ [c]) @ [LF]" t])
          (use one 1 c less.prems in \<open>simp_all add: Cons r\<close>)
    next
      case 2
      then have "eol rest = LF # eol r" by (cases r) (simp_all add: Cons)
      then show ?thesis
        by (intro step [of "(out @ [LF]) @ tl (mid @ [c]) @ r @ NUL # junk" "length out + length mid + 1" "length out + 1"
              "out @ [LF]" "tl (mid @ [c])" r])
          (use one 2 c less.prems in \<open>simp_all add: Cons\<close>)
    next
      case 3
      then have "eol rest = c # eol r" by (cases r) (simp_all add: Cons)
      then show ?thesis
        by (intro step [of "(out @ [c]) @ tl (mid @ [c]) @ r @ NUL # junk" "length out + length mid + 1" "length out + 1"
              "out @ [c]" "tl (mid @ [c])" r])
          (use one 3 c less.prems in \<open>simp_all add: Cons\<close>)
    qed
  qed
qed

lemma eol_buffer: "normalize_buffer data = Some (eol (c_string data))"
proof -
  have "\<exists>junk. data @ [NUL] = c_string data @ NUL # junk"
    by (induction data) (auto simp: c_string_def)
  then obtain junk where "data @ [NUL] = [] @ [] @ c_string data @ NUL # junk" by auto
  moreover have "NUL \<notin> set (c_string data)" using set_takeWhileD [of NUL _ data] by (auto simp: c_string_def)
  ultimately obtain buf' where "norm_loop (data @ [NUL]) 0 0 = Some buf'" "c_string buf' = eol (c_string data)"
    using norm_loop_result [of "[]" "c_string data" "[]" junk] by auto
  then show ?thesis by (simp add: normalize_buffer_def)
qed

lemma eol_no_CR: "CR \<notin> set s \<Longrightarrow> eol s = s"
  by (induction s rule: eol.induct) auto

lemma eol_text_mode: "CR \<notin> set s \<Longrightarrow> eol (text_mode True s) = s"
proof (induction s)
  case (Cons c s)
  show ?case
  proof (cases "c = LF")
    case True
    then show ?thesis using Cons by (simp add: text_mode_def)
  next
    case False
    then have c: "text_mode True (c # s) = c # text_mode True s" "c \<noteq> CR" using Cons.prems by (auto simp: text_mode_def)
    then have "eol (c # text_mode True s) = c # eol (text_mode True s)" by (cases "text_mode True s") simp_all
    then show ?thesis using c Cons by simp
  qed
qed (simp add: text_mode_def)

text \<open>C20: Line ends do not matter.  \<^verbatim>\<open>LoadFile\<close> parses exactly the text of the file up to the first zero byte, with every
  \<open>CR LF\<close> and every other \<open>CR\<close> replaced by \<open>LF\<close>; the loop that does this in place stays in the buffer, and none of
  its assertions fails.\<close>

theorem load_normalizes:
  assumes "data \<noteq> []"
  shows "LoadFile condense e (Some data) True doc =
    (case xml_parse condense e (eol (c_string data)) of
       NoFuel \<Rightarrow> NoFuel
     | Crash \<Rightarrow> Crash
     | Parsed (cs, q, err, e') \<Rightarrow> Parsed (err = None, cs, err))"
  using assms by (simp add: LoadFile_def eol_buffer)

theorem load_normalizes_witness:
  "LoadFile True ENC_UTF8 (Some [CHR ''<'', CHR ''a'', CR, LF, CHR ''/'', CHR ''>'', NUL, CR]) True ([], None) =
    Parsed (True, [new_element ''a''], None)"
proof -
  have "eol (c_string [CHR ''<'', CHR ''a'', CR, LF, CHR ''/'', CHR ''>'', NUL, CR]) = [CHR ''<'', CHR ''a'', LF, CHR ''/'', CHR ''>'']"
    by (simp add: c_string_def) (simp add: CR_def LF_def NUL_def)
  moreover have "(case xml_parse True ENC_UTF8 [CHR ''<'', CHR ''a'', LF, CHR ''/'', CHR ''>''] of
      Parsed (cs, q, err, e') \<Rightarrow> cs = [new_element ''a''] \<and> err = None | _ \<Rightarrow> False)"
    by code_simp
  ultimately show ?thesis
    using load_normalizes [of "[CHR ''<'', CHR ''a'', CR, LF, CHR ''/'', CHR ''>'', NUL, CR]" True ENC_UTF8 "([], None)"]
    by (auto split: parsed.splits prod.splits)
qed

section \<open>Printed files\<close>

text \<open>What \<^verbatim>\<open>Print\<close> writes to a file is what \<^verbatim>\<open>TiXmlPrinter\<close> makes, for elements around elements or around one text.\<close>

lemma file_print_render:
  "elements_only x \<Longrightarrow> file_print d x = indentation d @ render d x"
proof (induction x arbitrary: d)
  case (XNode ty n cs)
  then obtain as where ty: "ty = TINYXML_ELEMENT as" by auto
  consider "cs = []" | v k where "cs = [XNode (TINYXML_TEXT False) v k]"
    | "cs \<noteq> []" "\<not> simple_text cs" "\<forall>c \<in> set cs. elements_only c"
    using XNode.prems by (cases "simple_text cs") (auto elim: simple_textE)
  then show ?case
  proof cases
    case 3
    have not_text: "\<not> is_text c" if "c \<in> set cs" for c
    proof -
      have "elements_only c" using 3(3) that by blast
      then show ?thesis by (cases c) (auto simp: is_text_def)
    qed
    have each: "concat (map (\<lambda>c. (if is_text c then [] else [LF]) @ file_print (d + 1) c) ys) @ LF # r =
        LF # concat (map (\<lambda>c. indentation (d + 1) @ render (d + 1) c @ [LF]) ys) @ r"
      if sub: "set ys \<subseteq> set cs" for ys r
      using sub
    proof (induction ys)
      case (Cons y ys)
      have "file_print (d + 1) y = indentation (d + 1) @ render (d + 1) y" "\<not> is_text y"
        using 3(3) XNode.IH [of y "d + 1"] not_text [of y] Cons.prems by auto
      then show ?case using Cons.IH Cons.prems by simp
    qed simp
    have nt: "\<not> (length cs = 1 \<and> is_text (hd cs))" using not_text 3(1) by (cases cs) auto
    have lb: "line_break = [LF]" by (simp add: line_break_def LF_def)
    have "file_print d (XNode ty n cs) = indentation d @ ''<'' @ n @ attrs_print (shown_attributes as) @ ''>'' @
        (concat (map (\<lambda>c. (if is_text c then [] else [LF]) @ file_print (d + 1) c) cs) @ LF # indentation d @ ''</'' @ n @ ''>'')"
      unfolding ty file_print.simps node_type.case if_not_P [OF 3(1)] if_not_P [OF nt] by simp
    also have "\<dots> = indentation d @ render d (XNode ty n cs)"
      unfolding each [OF order_refl] ty render.simps node_type.case if_not_P [OF 3(1)] if_not_P [OF 3(2)] lb by simp
    finally show ?thesis .
  qed (simp_all add: ty is_text_def simple_text_def text_print_def)
qed

lemma file_print_document:
  assumes "elements_only x"
  shows "file_print 0 (XNode TINYXML_DOCUMENT v [decl_node, x]) = xml_print (XNode TINYXML_DOCUMENT [] [decl_node, x])"
  using document_printed [OF assms] file_print_render [OF assms, of 0]
  by (simp add: decl_node_def document_print_def LF_def line_break_def indentation_def)

text \<open>No \<open>CR\<close> and no zero byte is printed: control characters go out as references.\<close>

definition plain :: "string \<Rightarrow> bool" where
  "plain s = (CR \<notin> set s \<and> NUL \<notin> set s)"

lemma plain_simps [simp]:
  "plain []" "plain (c # s) = (c \<noteq> CR \<and> c \<noteq> NUL \<and> plain s)" "plain (s @ t) = (plain s \<and> plain t)"
  "plain (concat ss) = (\<forall>s \<in> set ss. plain s)"
  by (auto simp: plain_def)

lemma printable: "32 \<le> code c \<Longrightarrow> c \<noteq> CR \<and> c \<noteq> NUL"
  by (auto simp: CR_def NUL_def)

lemma hex_digit_printable: "n < 16 \<Longrightarrow> 32 \<le> code (hex_digit n)"
  by (auto simp: hex_digit_def of_char_of)

lemma encode_char_plain: "plain (encode_char c)"
proof -
  have "c \<noteq> CR \<and> c \<noteq> NUL" if "\<not> code c < 32" using printable [of c] that by simp
  moreover have "plain (char_ref c)"
    if "code c < 32"
    using that printable [OF hex_digit_printable, of "code c div 16"] printable [OF hex_digit_printable, of "code c mod 16"]
    by (simp add: char_ref_def) (simp add: CR_def NUL_def)
  ultimately show ?thesis by (simp add: encode_char_def) (simp add: CR_def NUL_def)
qed

lemma EncodeString_plain: "no_ref s \<Longrightarrow> plain (EncodeString s)"
proof (induction s)
  case (Cons c s)
  then show ?case using no_ref_Cons [OF Cons.prems] encode_char_plain by (simp add: EncodeString.simps)
qed (simp add: EncodeString.simps)

lemma name_char_plain: "name_char c \<Longrightarrow> c \<noteq> CR \<and> c \<noteq> NUL \<and> c \<noteq> CHR ''&''"
  by (auto simp: name_char_def IsAlphaNum_def is_letter_def is_digit_def CR_def NUL_def)

lemma name_plain: "list_all name_char n \<Longrightarrow> plain n \<and> no_ref n"
proof -
  assume n: "list_all name_char n"
  have "\<not> is_ref (drop i n)" for i
  proof
    assume "is_ref (drop i n)"
    then have "CHR ''&'' \<in> set (drop i n)" by (cases "drop i n") (auto simp: is_ref_def)
    then show False using n name_char_plain in_set_dropD by (fastforce simp: list_all_iff)
  qed
  moreover have "plain n" using n name_char_plain by (induction n) auto
  ultimately show ?thesis by (simp add: no_ref_def)
qed

lemma indentation_plain: "plain (indentation d)"
  by (auto simp: indentation_def plain_def CR_def NUL_def)

lemma attributes_plain: "good_attributes e as \<Longrightarrow> plain (attrs_print (shown_attributes as))"
proof -
  assume g: "good_attributes e as"
  have "plain (attr_print a)" if "a \<in> set as" for a
  proof -
    have "no_ref (fst a)" "no_ref (snd a)"
      using g that name_plain by (auto simp: good_attributes_def list_all_iff good_name_def good_value_def)
    then show ?thesis
      using EncodeString_plain printable [of "quote_of (snd a)"] printable [of "CHR ''=''"]
      by (simp add: attr_print_def quote_of_def)
  qed
  then show ?thesis using shown_good [OF g] by (auto simp: attrs_print_def CR_def NUL_def)
qed

lemma render_plain: "good_element e x \<Longrightarrow> plain (render d x)"
proof (induction x arbitrary: d)
  case (XNode ty n cs)
  then obtain as where ty: "ty = TINYXML_ELEMENT as" and a: "good_attributes e as" and n: "good_name e n"
    by (auto split: node_type.splits)
  have n': "plain n" using n name_plain by (simp add: good_name_def)
  have lit: "plain ''<''" "plain '' />''" "plain ''>''" "plain ''</''" by (simp_all add: CR_def NUL_def)
  have lb: "plain line_break" by (simp add: line_break_def CR_def NUL_def)
  have body: "plain (if simple_text cs then EncodeString (nvalue (hd cs))
       else line_break @ concat (map (\<lambda>c. indentation (d + 1) @ render (d + 1) c @ line_break) cs) @ indentation d)"
  proof (cases "simple_text cs")
    case True
    then have "no_ref (nvalue (hd cs))" using XNode.prems by (simp add: good_text_def good_value_def)
    then show ?thesis using True EncodeString_plain by simp
  next
    case False
    then have "plain (render (d + 1) c)" if "c \<in> set cs" for c using XNode that by simp
    then show ?thesis using False lb indentation_plain by auto
  qed
  show ?case unfolding ty render.simps node_type.case using body n' lit lb attributes_plain [OF a] by simp
qed

lemma printed_plain:
  assumes "good_element e x"
  shows "plain (xml_print (XNode TINYXML_DOCUMENT [] [decl_node, x]))"
  using document_printed [OF good_elements_only [OF assms]] render_plain [OF assms]
  by (simp add: decl_print_def decl_item_def line_break_def) (simp add: CR_def NUL_def)

text \<open>C19: What is saved is loaded again.  The file that \<^verbatim>\<open>SaveFile\<close> writes for a document of the standard declaration and
  one element, with line ends of Windows or not, holds a document that \<^verbatim>\<open>LoadFile\<close> reads without an error, whatever the
  document held before, and that has the same two nodes, if the names are names, the attributes of each element are distinct,
  no value holds \<open>&#x\<close> or a character of several bytes, and an element holds elements only or one text with single inner
  spaces.\<close>

theorem save_load:
  assumes "good_element ENC_UTF8 x"
  shows "\<exists>data. SaveFile crlf True False (XNode TINYXML_DOCUMENT v [decl_node, x]) = Some data \<and>
    LoadFile True ENC_UNKNOWN (Some data) True doc = Parsed (True, [decl_node, x], None)"
proof -
  let ?s = "xml_print (XNode TINYXML_DOCUMENT [] [decl_node, x])"
  have p: "plain ?s" by (rule printed_plain [OF assms])
  have saved: "SaveFile crlf True False (XNode TINYXML_DOCUMENT v [decl_node, x]) = Some (text_mode crlf ?s)"
    using file_print_document [OF good_elements_only [OF assms], of v] by (simp add: SaveFile_def)
  have nul: "NUL \<notin> set (text_mode crlf ?s)" using p by (auto simp: text_mode_def plain_def split: if_splits)
  then have c: "c_string (text_mode crlf ?s) = text_mode crlf ?s"
    unfolding c_string_def takeWhile_eq_all_conv by blast
  have e: "eol (text_mode crlf ?s) = ?s"
  proof (cases crlf)
    case True
    then show ?thesis using p eol_text_mode by (simp add: plain_def)
  next
    case False
    then have "text_mode crlf ?s = ?s" by (simp add: text_mode_def)
    then show ?thesis using p eol_no_CR by (simp add: plain_def)
  qed
  have "?s \<noteq> []" using document_printed [OF good_elements_only [OF assms]] by (simp add: decl_print_def)
  then have ne: "text_mode crlf ?s \<noteq> []" using e by (metis eol.simps(1))
  have "LoadFile True ENC_UNKNOWN (Some (text_mode crlf ?s)) True doc = Parsed (True, [decl_node, x], None)"
    using ne document_parsed [OF assms] by (simp add: LoadFile_def eol_buffer c e)
  then show ?thesis using saved by blast
qed

theorem save_load_witness:
  "\<exists>data. SaveFile True True False (XNode TINYXML_DOCUMENT ''f.xml'' [decl_node, new_element ''a'']) = Some data \<and>
    LoadFile True ENC_UNKNOWN (Some data) True ([], None) = Parsed (True, [decl_node, new_element ''a''], None)"
  by (rule save_load) (simp add: new_element_def simple_text_def good_name_def good_attributes_def one_byte_def
      utf8_bytes_def ascii_defs)

section \<open>Copies\<close>

text \<open>Trees whose attributes have distinct names, none of them empty, and without documents below other nodes, which cannot be
  linked.\<close>

fun copyable :: "xnode \<Rightarrow> bool" where
  "copyable (XNode ty v cs) =
     (case ty of
        TINYXML_DOCUMENT \<Rightarrow> (\<forall>c \<in> set cs. ntype c \<noteq> TINYXML_DOCUMENT \<and> copyable c)
      | TINYXML_ELEMENT as \<Rightarrow> distinct (map fst as) \<and> [] \<notin> fst ` set as \<and>
          (\<forall>c \<in> set cs. ntype c \<noteq> TINYXML_DOCUMENT \<and> copyable c)
      | _ \<Rightarrow> cs = [])"

lemma set_attribute_fresh: "n \<notin> fst ` set as \<Longrightarrow> set_attribute n v as = as @ [(n, v)]"
  by (induction n v as rule: set_attribute.induct) auto

lemma find_attribute_fresh: "find_attribute n as = None \<longleftrightarrow> n \<notin> fst ` set as"
  by (simp add: find_attribute_def map_of_eq_None_iff)

lemma set_all_fresh:
  "distinct (map fst (bs @ as)) \<Longrightarrow> [] \<notin> fst ` set (bs @ as) \<Longrightarrow> set_all as bs = Some (bs @ as)"
proof (induction as arbitrary: bs)
  case (Cons a as)
  obtain n v where a: "a = (n, v)" by (cases a)
  have "n \<notin> fst ` set bs" "[] \<notin> fst ` set bs" using Cons.prems by (auto simp: a)
  then have "SetAttribute n v bs = Some (bs @ [a])"
    by (simp add: SetAttribute_def find_attribute_fresh set_attribute_fresh a)
  then show ?case using Cons.IH [of "bs @ [a]"] Cons.prems by (simp add: a)
qed simp

lemma copy_attributes_same:
  assumes "distinct (map fst as)" and "[] \<notin> fst ` set as"
  shows "copy_attributes as = Some as"
proof -
  have "shown_attributes as = as" using assms(2)
    by (cases as) (auto simp: shown_attributes_def takeWhile_eq_all_conv image_def)
  then show ?thesis using set_all_fresh [of "[]" as] assms by (simp add: copy_attributes_def)
qed

lemma those_map_Some: "(\<And>x. x \<in> set xs \<Longrightarrow> f x = Some x) \<Longrightarrow> those (map f xs) = Some xs"
  by (induction xs) auto

text \<open>A copy is the same tree.  \<^verbatim>\<open>Clone\<close> of a tree whose attributes have distinct names, none of them empty, and that
  has no document below another node returns and gives the same types, values, attributes and children in the same order.\<close>

theorem clone_same: "copyable x \<Longrightarrow> clone x = Some x"
proof (induction x)
  case (XNode ty v cs)
  have kids: "those (map clone cs) = Some cs \<and> link_copies cs = cs"
    if "\<forall>c \<in> set cs. ntype c \<noteq> TINYXML_DOCUMENT \<and> copyable c"
    using XNode.IH that by (simp add: those_map_Some link_copies_def)
  show ?case
    using XNode.prems kids
    by (cases ty) (auto simp: document_clone_def element_clone_def copy_attributes_same comment_clone_def text_clone_def
        declaration_clone_def unknown_clone_def)
qed

theorem clone_same_witness:
  "clone (XNode (TINYXML_ELEMENT [(''n'', ''1''), (''m'', [])]) ''a'' [XNode TINYXML_COMMENT ''c'' [], new_text ''t'']) =
    Some (XNode (TINYXML_ELEMENT [(''n'', ''1''), (''m'', [])]) ''a'' [XNode TINYXML_COMMENT ''c'' [], new_text ''t''])"
  by (rule clone_same) (simp add: new_text_def)

text \<open>Otherwise it is not: an attribute without a name and a value ends the copy, as it ends the printed list, and one without a
  name makes the next one fail an assertion.\<close>

lemma nameless_attributes:
  "copy_attributes [(''a'', ''1''), ([], []), (''b'', ''2'')] = Some [(''a'', ''1'')]"
  "copy_attributes [([], ''1''), (''b'', ''2'')] = None"
  by (simp_all add: copy_attributes_def shown_attributes_def SetAttribute_def find_attribute_def)

section \<open>Numbers in attributes\<close>

lemma takeWhile_show_nat: "takeWhile is_digit (show_nat n) = show_nat n"
  using show_nat_digits [of n] by (simp add: takeWhile_eq_all_conv)

lemma scan_show_int:
  assumes "- (2 ^ 31) \<le> n" and "n < 2 ^ 31"
  shows "scan_int (show_int n) = Number n"
proof (cases "n < 0")
  case True
  then have "show_int n = CHR ''-'' # show_nat (nat (- n))" by (simp add: show_int_def)
  then show ?thesis
    using assms True show_nat_digits [of "nat (- n)"] read_show_nat [of "nat (- n)"]
    by (simp add: scan_int_def Let_def IsWhiteSpace_def takeWhile_show_nat)
next
  case False
  then have s: "show_int n = show_nat (nat n)" by (simp add: show_int_def)
  obtain c u where c: "show_nat (nat n) = c # u" using show_nat_digits [of "nat n"] by (cases "show_nat (nat n)") auto
  have "is_digit c" using show_nat_digits [of "nat n"] c by simp
  then have d: "\<not> IsWhiteSpace c" "c \<noteq> CHR ''-''" "c \<noteq> CHR ''+''" using digit_char by auto
  show ?thesis
    using assms False d takeWhile_show_nat [of "nat n", unfolded c] read_show_nat [of "nat n", unfolded c]
    by (simp add: scan_int_def Let_def s c)
qed

text \<open>A number written into an attribute is read back.  After \<^verbatim>\<open>SetAttribute\<close> with a number, \<^verbatim>\<open>QueryIntAttribute\<close> gives
  success and this number for the same name, and for any other name what it gave before.\<close>

theorem query_set_int:
  assumes "- (2 ^ 31) \<le> n" and "n < 2 ^ 31" and "[] \<notin> fst ` set as"
  shows "\<exists>bs. SetAttributeInt name n as = Some bs \<and>
    QueryIntAttribute m bs = (if m = name then Some (TIXML_SUCCESS, Some n) else QueryIntAttribute m as)"
  using scan_show_int [OF assms(1,2)] assms(3)
  by (simp add: QueryIntAttribute_def SetAttributeInt_def SetAttribute_def find_attribute_fresh find_set_attribute)

theorem query_set_int_witness:
  "\<exists>bs. SetAttributeInt ''n'' (-2147483648) [(''m'', ''1'')] = Some bs \<and>
    QueryIntAttribute ''n'' bs = Some (TIXML_SUCCESS, Some (-2147483648))"
  using query_set_int [of "-2147483648" "[(''m'', ''1'')]" "''n''" "''n''"] by simp

text \<open>A truth value is recognised by its beginning; an empty one fails an assertion.\<close>

lemma bool_prefix:
  "QueryBoolAttribute ''n'' [(''n'', ''10'')] = Some (TIXML_SUCCESS, Some True)"
  "QueryBoolAttribute ''n'' [(''n'', ''Yesterday'')] = Some (TIXML_SUCCESS, Some True)"
  "QueryBoolAttribute ''n'' [(''n'', [])] = None"
  by code_simp+

end
