(* ===== verification/TinyStr.thy ===== *)
theory TinyStr
  imports Prelude "HOL-Library.Monad_Syntax"
begin

text \<open>
  The strings of the XML library (\<^verbatim>\<open>tinystr.h\<close>, \<^verbatim>\<open>tinystr.cpp\<close>): a pointer to a block with the size, the capacity and the
  characters.  All empty strings that were never given room share one static block.
\<close>

section \<open>Blocks\<close>

text \<open>A character of a block that was not written yet is \<open>None\<close>.  The block 0 is \<^verbatim>\<open>nullrep_\<close>.\<close>

record rep =
  r_size :: nat
  r_capacity :: nat
  r_str :: "char option list"

record blocks =
  block :: "nat \<Rightarrow> rep option"
  fresh_block :: nat

definition NULL_CHAR :: char where "NULL_CHAR = CHR 0x00"

definition nullrep :: rep where
  "nullrep = \<lparr>r_size = 0, r_capacity = 0, r_str = [Some NULL_CHAR]\<rparr>"

definition no_blocks :: blocks where
  "no_blocks = \<lparr>block = (\<lambda>_. None)(0 := Some nullrep), fresh_block = 1\<rparr>"

text \<open>A result is \<open>None\<close> when a block is used that is not there or is left.\<close>

definition the_block :: "nat \<Rightarrow> blocks \<Rightarrow> rep option" where
  "the_block p h = block h p"

definition set_block :: "nat \<Rightarrow> rep \<Rightarrow> blocks \<Rightarrow> blocks" where
  "set_block p r h = h\<lparr>block := (block h)(p := Some r)\<rparr>"

text \<open>Pointers to characters: somewhere else, where \<open>s\<close> can be read, or into a block.\<close>

datatype char_ptr = Bytes string | Inside nat nat

definition read_bytes :: "char_ptr \<Rightarrow> nat \<Rightarrow> blocks \<Rightarrow> char option list option" where
  "read_bytes src n h =
     (case src of
        Bytes s \<Rightarrow> if n \<le> length s then Some (map Some (take n s)) else None
      | Inside p i \<Rightarrow>
          do { r \<leftarrow> the_block p h; if i + n \<le> length (r_str r) then Some (take n (drop i (r_str r))) else None })"

definition write_bytes :: "nat \<Rightarrow> nat \<Rightarrow> char option list \<Rightarrow> blocks \<Rightarrow> blocks option" where
  "write_bytes p i cs h =
     do {
       r \<leftarrow> the_block p h;
       if i + length cs \<le> length (r_str r)
       then Some (set_block p (r\<lparr>r_str := take i (r_str r) @ cs @ drop (i + length cs) (r_str r)\<rparr>) h) else None
     }"

section \<open>The representation\<close>

text \<open>Sizes are 32 bits wide.\<close>

definition size_t :: "nat \<Rightarrow> nat" where
  "size_t n = n mod 2 ^ 32"

text \<open>\<^verbatim>\<open>rep_->str[ rep_->size = sz ] = 0\<close>\<close>

definition set_size :: "nat \<Rightarrow> nat \<Rightarrow> blocks \<Rightarrow> blocks option" where
  "set_size p sz h =
     do {
       r \<leftarrow> the_block p h;
       write_bytes p sz [Some NULL_CHAR] (set_block p (r\<lparr>r_size := sz\<rparr>) h)
     }"

text \<open>The characters of a block of \<open>intsNeeded\<close> integers, behind the two sizes; \<^verbatim>\<open>sizeof(Rep)\<close> is 12.\<close>

definition block_room :: "nat \<Rightarrow> nat" where
  "block_room cap =
     (let bytesNeeded = size_t (12 + cap);
          intsNeeded = size_t (bytesNeeded + 3) div 4
      in 4 * intsNeeded - 8)"

definition init :: "nat \<Rightarrow> nat \<Rightarrow> blocks \<Rightarrow> (nat \<times> blocks) option" where
  "init sz cap h =
     (if cap \<noteq> 0
      then do {
        let p = fresh_block h;
        let r = \<lparr>r_size = 0, r_capacity = cap, r_str = replicate (block_room cap) None\<rparr>;
        h1 \<leftarrow> set_size p sz (set_block p r (h\<lparr>fresh_block := p + 1\<rparr>));
        Some (p, h1)
      }
      else Some (0, h))"

definition quit :: "nat \<Rightarrow> blocks \<Rightarrow> blocks option" where
  "quit p h =
     (if p \<noteq> 0 then do { r \<leftarrow> the_block p h; Some (h\<lparr>block := (block h)(p := None)\<rparr>) } else Some h)"

definition str_length :: "nat \<Rightarrow> blocks \<Rightarrow> nat option" where
  "str_length p h = map_option r_size (the_block p h)"

definition capacity :: "nat \<Rightarrow> blocks \<Rightarrow> nat option" where
  "capacity p h = map_option r_capacity (the_block p h)"

section \<open>Construction and destruction\<close>

definition str_new :: nat where "str_new = 0"

text \<open>\<^verbatim>\<open>TiXmlString(str, len)\<close>, and with a terminated string or another object.\<close>

definition str_make :: "char_ptr \<Rightarrow> nat \<Rightarrow> blocks \<Rightarrow> (nat \<times> blocks) option" where
  "str_make src len h =
     do {
       (p, h1) \<leftarrow> init len len h;
       cs \<leftarrow> read_bytes src len h1;
       h2 \<leftarrow> write_bytes p 0 cs h1;
       Some (p, h2)
     }"

definition str_make_c :: "string \<Rightarrow> blocks \<Rightarrow> (nat \<times> blocks) option" where
  "str_make_c s h =
     do {
       (p, h1) \<leftarrow> init (length s) (length s) h;
       n \<leftarrow> str_length p h1;
       cs \<leftarrow> read_bytes (Bytes s) n h1;
       h2 \<leftarrow> write_bytes p 0 cs h1;
       Some (p, h2)
     }"

definition str_copy :: "nat \<Rightarrow> blocks \<Rightarrow> (nat \<times> blocks) option" where
  "str_copy q h =
     do {
       n \<leftarrow> str_length q h;
       (p, h1) \<leftarrow> init n n h;
       m \<leftarrow> str_length p h1;
       cs \<leftarrow> read_bytes (Inside q 0) m h1;
       h2 \<leftarrow> write_bytes p 0 cs h1;
       Some (p, h2)
     }"

section \<open>Changing\<close>

text \<open>The new representation of the string and the blocks; \<^verbatim>\<open>tmp\<close>, which has the old one after the exchange, goes away
  at the end.\<close>

definition reserve :: "nat \<Rightarrow> nat \<Rightarrow> blocks \<Rightarrow> (nat \<times> blocks) option" where
  "reserve p cap h =
     do {
       c \<leftarrow> capacity p h;
       if c < cap
       then do {
         n \<leftarrow> str_length p h;
         (tmp, h1) \<leftarrow> init n cap h;
         cs \<leftarrow> read_bytes (Inside p 0) n h1;
         h2 \<leftarrow> write_bytes tmp 0 cs h1;
         h3 \<leftarrow> quit p h2;
         Some (tmp, h3)
       }
       else Some (p, h)
     }"

definition str_assign :: "nat \<Rightarrow> char_ptr \<Rightarrow> nat \<Rightarrow> blocks \<Rightarrow> (nat \<times> blocks) option" where
  "str_assign p src len h =
     do {
       cap \<leftarrow> capacity p h;
       if cap < len \<or> size_t (3 * size_t (len + 8)) < cap
       then do {
         (tmp, h1) \<leftarrow> init len len h;
         cs \<leftarrow> read_bytes src len h1;
         h2 \<leftarrow> write_bytes tmp 0 cs h1;
         h3 \<leftarrow> quit p h2;
         Some (tmp, h3)
       }
       else do {
         cs \<leftarrow> read_bytes src len h;
         h1 \<leftarrow> write_bytes p 0 cs h;
         h2 \<leftarrow> set_size p len h1;
         Some (p, h2)
       }
     }"

definition str_append :: "nat \<Rightarrow> char_ptr \<Rightarrow> nat \<Rightarrow> blocks \<Rightarrow> (nat \<times> blocks) option" where
  "str_append p src len h =
     do {
       n \<leftarrow> str_length p h;
       c \<leftarrow> capacity p h;
       let newsize = size_t (n + len);
       (q, h1) \<leftarrow> (if c < newsize then reserve p (size_t (newsize + c)) h else Some (p, h));
       cs \<leftarrow> read_bytes src len h1;
       m \<leftarrow> str_length q h1;
       h2 \<leftarrow> write_bytes q m cs h1;
       h3 \<leftarrow> set_size q newsize h2;
       Some (q, h3)
     }"

definition str_clear :: "nat \<Rightarrow> blocks \<Rightarrow> (nat \<times> blocks) option" where
  "str_clear p h = do { h1 \<leftarrow> quit p h; init 0 0 h1 }"

text \<open>The operators.\<close>

definition assign_str :: "nat \<Rightarrow> nat \<Rightarrow> blocks \<Rightarrow> (nat \<times> blocks) option" where
  "assign_str p q h = do { n \<leftarrow> str_length q h; str_assign p (Inside q 0) n h }"

definition assign_c :: "nat \<Rightarrow> string \<Rightarrow> blocks \<Rightarrow> (nat \<times> blocks) option" where
  "assign_c p s h = str_assign p (Bytes s) (length s) h"

definition append_str :: "nat \<Rightarrow> nat \<Rightarrow> blocks \<Rightarrow> (nat \<times> blocks) option" where
  "append_str p q h = do { n \<leftarrow> str_length q h; str_append p (Inside q 0) n h }"

definition append_c :: "nat \<Rightarrow> string \<Rightarrow> blocks \<Rightarrow> (nat \<times> blocks) option" where
  "append_c p s h = str_append p (Bytes s) (length s) h"

definition append_char :: "nat \<Rightarrow> char \<Rightarrow> blocks \<Rightarrow> (nat \<times> blocks) option" where
  "append_char p c h = str_append p (Bytes [c]) 1 h"

text \<open>\<^verbatim>\<open>operator +\<close> of two objects, and of an object and a terminated string.\<close>

definition plus_str :: "nat \<Rightarrow> nat \<Rightarrow> blocks \<Rightarrow> (nat \<times> blocks) option" where
  "plus_str a b h =
     do {
       n \<leftarrow> str_length a h;
       m \<leftarrow> str_length b h;
       (t, h1) \<leftarrow> reserve str_new (size_t (n + m)) h;
       (t1, h2) \<leftarrow> append_str t a h1;
       append_str t1 b h2
     }"

definition plus_c :: "nat \<Rightarrow> string \<Rightarrow> blocks \<Rightarrow> (nat \<times> blocks) option" where
  "plus_c a s h =
     do {
       n \<leftarrow> str_length a h;
       (t, h1) \<leftarrow> reserve str_new (size_t (n + length s)) h;
       (t1, h2) \<leftarrow> append_str t a h1;
       append_c t1 s h2
     }"

definition c_plus :: "string \<Rightarrow> nat \<Rightarrow> blocks \<Rightarrow> (nat \<times> blocks) option" where
  "c_plus s b h =
     do {
       n \<leftarrow> str_length b h;
       (t, h1) \<leftarrow> reserve str_new (size_t (length s + n)) h;
       (t1, h2) \<leftarrow> append_c t s h1;
       append_str t1 b h2
     }"

section \<open>Reading\<close>

definition char_at :: "nat \<Rightarrow> nat \<Rightarrow> blocks \<Rightarrow> char option" where
  "char_at p i h = do { r \<leftarrow> the_block p h; if i < r_size r \<and> i < length (r_str r) then r_str r ! i else None }"

text \<open>The characters up to the terminating null character; \<open>None\<close> when there is none, or one that was not written.\<close>

fun scan_c :: "char option list \<Rightarrow> string option" where
  "scan_c [] = None"
| "scan_c (None # cs) = None"
| "scan_c (Some c # cs) = (if c = NULL_CHAR then Some [] else map_option ((#) c) (scan_c cs))"

definition str_c :: "nat \<Rightarrow> blocks \<Rightarrow> string option" where
  "str_c p h = do { r \<leftarrow> the_block p h; scan_c (r_str r) }"

text \<open>\<^verbatim>\<open>find\<close>: an index, or \<open>None\<close> for \<^verbatim>\<open>npos\<close>.\<close>

fun find_loop :: "char \<Rightarrow> nat \<Rightarrow> char option list \<Rightarrow> nat option option" where
  "find_loop c i [] = None"
| "find_loop c i (None # cs) = None"
| "find_loop c i (Some d # cs) =
     (if d = NULL_CHAR then Some None else if d = c then Some (Some i) else find_loop c (i + 1) cs)"

definition str_find :: "char \<Rightarrow> nat \<Rightarrow> nat \<Rightarrow> blocks \<Rightarrow> nat option option" where
  "str_find c offset p h =
     do {
       r \<leftarrow> the_block p h;
       if r_size r \<le> offset then Some None else find_loop c offset (drop offset (r_str r))
     }"

text \<open>\<^verbatim>\<open>strcmp\<close> of terminated strings: the sign, by unsigned characters.\<close>

fun str_compare :: "string \<Rightarrow> string \<Rightarrow> int" where
  "str_compare [] [] = 0"
| "str_compare [] (d # t) = -1"
| "str_compare (c # s) [] = 1"
| "str_compare (c # s) (d # t) =
     (if (of_char c :: nat) < of_char d then -1 else if (of_char d :: nat) < of_char c then 1 else str_compare s t)"

definition str_equal :: "nat \<Rightarrow> nat \<Rightarrow> blocks \<Rightarrow> bool option" where
  "str_equal p q h =
     do {
       n \<leftarrow> str_length p h;
       m \<leftarrow> str_length q h;
       if n \<noteq> m then Some False
       else do { s \<leftarrow> str_c p h; t \<leftarrow> str_c q h; Some (str_compare s t = 0) }
     }"

definition str_less :: "nat \<Rightarrow> nat \<Rightarrow> blocks \<Rightarrow> bool option" where
  "str_less p q h = do { s \<leftarrow> str_c p h; t \<leftarrow> str_c q h; Some (str_compare s t < 0) }"

definition str_equal_c :: "nat \<Rightarrow> string \<Rightarrow> blocks \<Rightarrow> bool option" where
  "str_equal_c p t h = do { s \<leftarrow> str_c p h; Some (str_compare s t = 0) }"

end
