(* ===== verification/TinyStrProps.thy ===== *)
theory TinyStrProps
  imports TinyStr
begin

text \<open>
  The strings against lists of characters: every operation computes the list operation, keeps to its blocks, and
  leaves no block behind.
\<close>

section \<open>Representation\<close>

definition MAX_LEN :: nat where "MAX_LEN = 2 ^ 30"

text \<open>The block \<open>p\<close> has_string the string \<open>s\<close>, terminated, within its room.\<close>

definition has_string :: "blocks \<Rightarrow> nat \<Rightarrow> string \<Rightarrow> bool" where
  "has_string h p s =
     (\<exists>r. block h p = Some r \<and> r_size r = length s \<and> length s \<le> r_capacity r \<and> r_capacity r < length (r_str r) \<and>
        take (length s + 1) (r_str r) = map Some (s @ [NULL_CHAR]) \<and> r_capacity r \<le> 2 * MAX_LEN)"

definition blocks_ok :: "blocks \<Rightarrow> bool" where
  "blocks_ok h = (block h 0 = Some nullrep \<and> 0 < fresh_block h \<and> (\<forall>p \<ge> fresh_block h. block h p = None))"

text \<open>What an operation on the string in block \<open>p\<close>, now in \<open>p'\<close>, does to the blocks: the other ones are untouched, a
  new one was not in use, and an old one is freed.\<close>

definition moved :: "nat \<Rightarrow> blocks \<Rightarrow> nat \<Rightarrow> blocks \<Rightarrow> bool" where
  "moved p h p' h' =
     (blocks_ok h' \<and> fresh_block h \<le> fresh_block h' \<and> (\<forall>q. q \<noteq> p \<longrightarrow> q \<noteq> p' \<longrightarrow> block h' q = block h q) \<and>
      (p' \<noteq> p \<longrightarrow> p' \<noteq> 0 \<longrightarrow> fresh_block h \<le> p') \<and> (p' \<noteq> p \<longrightarrow> p \<noteq> 0 \<longrightarrow> block h' p = None))"

lemma blocks_okD:
  assumes "blocks_ok h"
  shows "block h 0 = Some nullrep" and "0 < fresh_block h" and "fresh_block h \<le> p \<Longrightarrow> block h p = None"
  using assms by (simp_all add: blocks_ok_def)

lemma holds_null: "blocks_ok h \<Longrightarrow> has_string h 0 s \<longleftrightarrow> s = []"
  by (auto simp: has_string_def blocks_okD(1) nullrep_def)

lemma holds_block: "has_string h p s \<Longrightarrow> block h' p = block h p \<Longrightarrow> has_string h' p s"
  by (simp add: has_string_def)

lemma holds_lt_fresh: "blocks_ok h \<Longrightarrow> has_string h p s \<Longrightarrow> p < fresh_block h"
  using blocks_okD(3) [of h p] by (fastforce simp: has_string_def)

lemma holds_length: "has_string h p s \<Longrightarrow> str_length p h = Some (length s)"
  by (auto simp: has_string_def str_length_def the_block_def)

lemma holds_read:
  assumes "has_string h p s"
  shows "read_bytes (Inside p 0) (length s) h = Some (map Some s)"
proof -
  obtain r where r: "block h p = Some r" "length s < length (r_str r)" "take (length s + 1) (r_str r) = map Some (s @ [NULL_CHAR])"
    using assms by (auto simp: has_string_def)
  have "take (length s) (r_str r) = take (length s) (take (length s + 1) (r_str r))" by simp
  also have "\<dots> = map Some s" unfolding r(3) by simp
  finally show ?thesis using r(1,2) by (simp add: read_bytes_def the_block_def)
qed

lemma block_room_enough: "cap \<le> 2 * MAX_LEN \<Longrightarrow> cap + 1 \<le> block_room cap"
proof -
  assume "cap \<le> 2 * MAX_LEN"
  then have c: "cap + 15 < 2 ^ 32" by (simp add: MAX_LEN_def)
  have "block_room cap = 4 * ((cap + 15) div 4) - 8" using c by (simp add: block_room_def size_t_def add.commute)
  moreover have "cap + 12 \<le> 4 * ((cap + 15) div 4)" by presburger
  ultimately show ?thesis by simp
qed

section \<open>New blocks\<close>

text \<open>A new block with a copy of a string.\<close>

lemma new_block:
  assumes "blocks_ok h" and "length t \<le> cap" and "cap \<le> 2 * MAX_LEN" and "cap \<noteq> 0"
  obtains h1 h2 where "init (length t) cap h = Some (fresh_block h, h1)"
    and "write_bytes (fresh_block h) 0 (map Some t) h1 = Some h2" and "has_string h2 (fresh_block h) t"
    and "capacity (fresh_block h) h2 = Some cap" and "str_length (fresh_block h) h1 = Some (length t)"
    and "\<And>q. q \<noteq> fresh_block h \<Longrightarrow> block h1 q = block h q \<and> block h2 q = block h q"
    and "blocks_ok h2" and "fresh_block h2 = fresh_block h + 1"
proof -
  define p where "p = fresh_block h"
  define str where "str = (replicate (length t) None @ [Some NULL_CHAR] @ replicate (block_room cap - length t - 1) None)"
  define h1 where "h1 = set_block p \<lparr>r_size = length t, r_capacity = cap, r_str = str\<rparr> (h\<lparr>fresh_block := p + 1\<rparr>)"
  define str2 where "str2 = map Some t @ drop (length t) str"
  define h2 where "h2 = set_block p \<lparr>r_size = length t, r_capacity = cap, r_str = str2\<rparr> h1"
  have room: "length t + 1 \<le> block_room cap" using block_room_enough [OF assms(3)] assms(2) by simp
  have "take (length t) (replicate (block_room cap) None) @ [Some NULL_CHAR] @
      drop (length t + 1) (replicate (block_room cap) None) = str"
    using room by (simp add: str_def min_def)
  then have 1: "init (length t) cap h = Some (p, h1)"
    using room assms(4)
    by (simp add: init_def set_size_def write_bytes_def the_block_def set_block_def Let_def p_def [symmetric] h1_def)
  have len: "length str = block_room cap" using room by (simp add: str_def)
  then have 2: "write_bytes p 0 (map Some t) h1 = Some h2"
    using room by (simp add: write_bytes_def h1_def the_block_def set_block_def h2_def str2_def)
  have "drop (length t) str = Some NULL_CHAR # replicate (block_room cap - length t - 1) None" by (simp add: str_def)
  then have s2: "take (length t + 1) str2 = map Some (t @ [NULL_CHAR])" "length str2 = block_room cap"
    using len room by (simp_all add: str2_def)
  then have 3: "has_string h2 p t"
    using assms(2,3) block_room_enough [OF assms(3)] by (simp add: has_string_def h2_def set_block_def)
  have 4: "capacity p h2 = Some cap" "str_length p h1 = Some (length t)"
    by (simp_all add: capacity_def str_length_def the_block_def h2_def h1_def set_block_def)
  have 5: "block h1 q = block h q \<and> block h2 q = block h q" if "q \<noteq> p" for q
    using that by (simp add: h1_def h2_def set_block_def)
  have 6: "fresh_block h2 = p + 1" by (simp add: h2_def h1_def set_block_def)
  have "blocks_ok h2"
    using assms(1) 5 6 by (auto simp: blocks_ok_def p_def)
  then show ?thesis using that 1 2 3 4 5 6 by (simp add: p_def)
qed

text \<open>The same for a string of any length, the empty one being in \<open>nullrep\<close>; read from \<open>src\<close>, which is still there.\<close>

lemma made:
  assumes "blocks_ok h" and "length t \<le> MAX_LEN"
    and "\<And>h1. \<forall>q. q \<noteq> fresh_block h \<longrightarrow> block h1 q = block h q \<Longrightarrow> read_bytes src (length t) h1 = Some (map Some t)"
  obtains p h1 h2 where "init (length t) (length t) h = Some (p, h1)" and "str_length p h1 = Some (length t)"
    and "read_bytes src (length t) h1 = Some (map Some t)"
    and "write_bytes p 0 (map Some t) h1 = Some h2" and "has_string h2 p t" and "p = 0 \<or> p = fresh_block h"
    and "\<forall>q. q \<noteq> fresh_block h \<longrightarrow> block h2 q = block h q" and "p = 0 \<longrightarrow> h2 = h" and "blocks_ok h2"
    and "fresh_block h \<le> fresh_block h2"
proof (cases "t = []")
  case True
  have "read_bytes src (length t) h = Some (map Some t)" by (rule assms(3)) simp
  moreover have "write_bytes 0 0 [] h = Some h"
    using blocks_okD(1) [OF assms(1)] by (cases h) (simp add: write_bytes_def the_block_def set_block_def nullrep_def fun_upd_idem)
  ultimately show ?thesis
    using True that [of 0 h h] assms(1) holds_null [OF assms(1)] blocks_okD(1) [OF assms(1)]
    by (simp add: init_def str_length_def the_block_def nullrep_def)
next
  case False
  have c: "length t \<le> 2 * MAX_LEN" "length t \<noteq> 0" using assms(2) False by simp_all
  obtain h1 h2 where h: "init (length t) (length t) h = Some (fresh_block h, h1)"
      "write_bytes (fresh_block h) 0 (map Some t) h1 = Some h2" "has_string h2 (fresh_block h) t"
      "str_length (fresh_block h) h1 = Some (length t)"
      "\<And>q. q \<noteq> fresh_block h \<Longrightarrow> block h1 q = block h q \<and> block h2 q = block h q" "blocks_ok h2"
      "fresh_block h2 = fresh_block h + 1"
    by (rule new_block [OF assms(1) order_refl c]) blast
  have "fresh_block h \<noteq> 0" using blocks_okD(2) [OF assms(1)] by simp
  then show ?thesis using that [of "fresh_block h" h1 h2] h assms(3) [of h1] by simp
qed

lemma quit_block:
  assumes "blocks_ok h" and "block h p \<noteq> None"
  obtains h' where "quit p h = Some h'" and "\<And>q. q \<noteq> p \<Longrightarrow> block h' q = block h q" and "p \<noteq> 0 \<Longrightarrow> block h' p = None"
    and "p = 0 \<Longrightarrow> h' = h" and "blocks_ok h'" and "fresh_block h' = fresh_block h"
proof (cases "p = 0")
  case True
  then show ?thesis using that [of h] assms by (simp add: quit_def)
next
  case False
  then show ?thesis using that [of "h\<lparr>block := (block h)(p := None)\<rparr>"] assms by (auto simp: quit_def the_block_def blocks_ok_def)
qed

section \<open>The operations\<close>

text \<open>Where bytes are read from: they stay readable when a block is added, and when one is freed that they do not lie
  in.\<close>

definition readable :: "char_ptr \<Rightarrow> string \<Rightarrow> nat set \<Rightarrow> blocks \<Rightarrow> bool" where
  "readable src t freed h =
     (\<forall>h1. (\<forall>q. q < fresh_block h \<longrightarrow> q \<notin> freed \<longrightarrow> block h1 q = block h q) \<longrightarrow> read_bytes src (length t) h1 = Some (map Some t))"

lemma readable_Bytes: "readable (Bytes t) t X h"
  by (simp add: readable_def read_bytes_def)

lemma readable_Inside:
  assumes "blocks_ok h" and "has_string h q t" and "q \<notin> X"
  shows "readable (Inside q 0) t X h"
  unfolding readable_def
proof (intro allI impI)
  fix h1 :: blocks
  assume "\<forall>q. q < fresh_block h \<longrightarrow> q \<notin> X \<longrightarrow> block h1 q = block h q"
  then have "block h1 q = block h q" using holds_lt_fresh [OF assms(1,2)] assms(3) by simp
  then show "read_bytes (Inside q 0) (length t) h1 = Some (map Some t)"
    using holds_read [OF holds_block [OF assms(2)]] by simp
qed

lemma make_string:
  assumes "blocks_ok h" and "readable src t {} h" and "length t \<le> MAX_LEN"
  obtains p h' where "str_make src (length t) h = Some (p, h')" and "has_string h' p t" and "moved 0 h p h'"
proof -
  have rd: "read_bytes src (length t) h1 = Some (map Some t)" if "\<forall>q. q \<noteq> fresh_block h \<longrightarrow> block h1 q = block h q" for h1
    using assms(2) that by (simp add: readable_def)
  obtain p h1 h2 where m: "init (length t) (length t) h = Some (p, h1)" "read_bytes src (length t) h1 = Some (map Some t)"
      "write_bytes p 0 (map Some t) h1 = Some h2" "has_string h2 p t" "p = 0 \<or> p = fresh_block h"
      "\<forall>q. q \<noteq> fresh_block h \<longrightarrow> block h2 q = block h q" "p = 0 \<longrightarrow> h2 = h" "blocks_ok h2"
      "fresh_block h \<le> fresh_block h2"
    by (rule made [OF assms(1,3) rd]) blast
  have "moved 0 h p h2"
    using m(5-9) by (auto simp: moved_def)
  then show ?thesis using that [of p h2] m by (simp add: str_make_def)
qed

lemma reserve_string:
  assumes "blocks_ok h" and "has_string h p s" and "cap \<le> 2 * MAX_LEN"
  obtains p' h' where "reserve p cap h = Some (p', h')" and "has_string h' p' s" and "moved p h p' h'"
    and "capacity p' h' = Some (max cap (the (capacity p h)))" and "p' \<noteq> p \<Longrightarrow> the (capacity p h) < cap"
    and "the (capacity p h) < cap \<Longrightarrow> p' \<noteq> p"
proof -
  obtain r where r: "block h p = Some r" "r_size r = length s" "length s \<le> r_capacity r"
    using assms(2) by (auto simp: has_string_def)
  have c: "capacity p h = Some (r_capacity r)" by (simp add: capacity_def the_block_def r(1))
  show ?thesis
  proof (cases "r_capacity r < cap")
    case False
    then show ?thesis using that [of p h] assms c by (simp add: reserve_def moved_def max_def)
  next
    case True
    then have cc: "length s \<le> cap" "cap \<noteq> 0" using r(3) by simp_all
    obtain h1 h2 where n: "init (length s) cap h = Some (fresh_block h, h1)"
        "write_bytes (fresh_block h) 0 (map Some s) h1 = Some h2" "has_string h2 (fresh_block h) s"
        "capacity (fresh_block h) h2 = Some cap"
        "\<And>q. q \<noteq> fresh_block h \<Longrightarrow> block h1 q = block h q \<and> block h2 q = block h q" "blocks_ok h2"
        "fresh_block h2 = fresh_block h + 1"
      by (rule new_block [OF assms(1) cc(1) assms(3) cc(2)]) blast
    have p: "p \<noteq> fresh_block h" using holds_lt_fresh [OF assms(1,2)] by simp
    have rd: "read_bytes (Inside p 0) (length s) h1 = Some (map Some s)"
      using holds_read [OF holds_block [OF assms(2)]] n(5) [OF p] by simp
    have "block h2 p \<noteq> None" using n(5) [OF p] r(1) by simp
    then obtain h3 where q: "quit p h2 = Some h3" "\<And>q. q \<noteq> p \<Longrightarrow> block h3 q = block h2 q" "p \<noteq> 0 \<Longrightarrow> block h3 p = None"
        "p = 0 \<Longrightarrow> h3 = h2" "blocks_ok h3" "fresh_block h3 = fresh_block h2"
      using quit_block [OF n(6)] by metis
    have res: "reserve p cap h = Some (fresh_block h, h3)"
      using True c holds_length [OF assms(2)] n(1,2) rd q(1) by (simp add: reserve_def)
    have "has_string h3 (fresh_block h) s" "capacity (fresh_block h) h3 = Some cap"
      using n(3,4) q(2) [of "fresh_block h"] p by (simp_all add: has_string_def capacity_def the_block_def)
    moreover have "moved p h (fresh_block h) h3"
      using n(5,7) q p by (simp add: moved_def)
    ultimately show ?thesis using that [OF res] True c p by (simp add: max_def)
  qed
qed

text \<open>Writing into the string, within the capacity.\<close>

lemma write_within:
  assumes "blocks_ok h" and "has_string h p s" and "k \<le> length s" and "k + length t \<le> the (capacity p h)"
  obtains h1 h2 where "write_bytes p k (map Some t) h = Some h1" and "set_size p (k + length t) h1 = Some h2"
    and "has_string h2 p (take k s @ t)" and "moved p h p h2" and "capacity p h2 = capacity p h"
proof -
  obtain r where r: "block h p = Some r" "r_size r = length s" "length s \<le> r_capacity r" "r_capacity r < length (r_str r)"
      "take (length s + 1) (r_str r) = map Some (s @ [NULL_CHAR])" "r_capacity r \<le> 2 * MAX_LEN"
    using assms(2) by (auto simp: has_string_def)
  have room: "k + length t + 1 \<le> length (r_str r)" using assms(4) r(1,4) by (simp add: capacity_def the_block_def)
  define str1 where "str1 = take k (r_str r) @ map Some t @ drop (k + length t) (r_str r)"
  define str2 where "str2 = take (k + length t) str1 @ [Some NULL_CHAR] @ drop (k + length t + 1) str1"
  define h1 where "h1 = set_block p (r\<lparr>r_str := str1\<rparr>) h"
  define h2 where "h2 = set_block p (r\<lparr>r_size := k + length t, r_str := str2\<rparr>) h"
  have l: "length str1 = length (r_str r)" using room by (simp add: str1_def)
  have 1: "write_bytes p k (map Some t) h = Some h1"
    using room by (simp add: write_bytes_def the_block_def r(1) h1_def str1_def)
  have 2: "set_size p (k + length t) h1 = Some h2"
    using room l by (simp add: set_size_def write_bytes_def the_block_def set_block_def h1_def h2_def str2_def)
  have "take k (r_str r) = take k (take (length s + 1) (r_str r))" using assms(3) by (simp add: min_def)
  also have "\<dots> = map Some (take k s)" unfolding r(5) using assms(3) by (simp add: take_map)
  finally have "take (k + length t + 1) str2 = map Some ((take k s @ t) @ [NULL_CHAR])"
    using room l assms(3) by (simp add: str2_def str1_def)
  moreover have "length str2 = length (r_str r)" using room l by (simp add: str2_def)
  ultimately have 3: "has_string h2 p (take k s @ t)"
    using assms(3,4) r by (simp add: has_string_def h2_def set_block_def capacity_def the_block_def)
  have 4: "capacity p h2 = capacity p h" using r(1) by (simp add: capacity_def the_block_def h2_def set_block_def)
  have "block h2 0 = Some nullrep"
  proof (cases "p = 0")
    case True
    then have rn: "r = nullrep" using r(1) blocks_okD(1) [OF assms(1)] by simp
    then have "k = 0" "t = []" using assms(4) r(1) by (simp_all add: capacity_def the_block_def nullrep_def)
    then show ?thesis using True by (simp add: h2_def set_block_def rn str2_def str1_def) (simp add: nullrep_def)
  qed (use blocks_okD(1) [OF assms(1)] in \<open>simp add: h2_def set_block_def\<close>)
  then have "blocks_ok h2"
    using assms(1) holds_lt_fresh [OF assms(1,2)] by (auto simp: blocks_ok_def h2_def set_block_def)
  then have "moved p h p h2" by (simp add: moved_def h2_def set_block_def)
  then show ?thesis using that 1 2 3 4 by blast
qed

lemma moved_trans:
  assumes "blocks_ok h" and "moved p h p1 h1" and "moved p1 h1 p2 h2"
  shows "moved p h p2 h2"
proof -
  have ok: "blocks_ok h1" "blocks_ok h2" "fresh_block h \<le> fresh_block h1" "fresh_block h1 \<le> fresh_block h2"
    using assms(2,3) by (simp_all add: moved_def)
  have a: "\<And>q. q \<noteq> p \<Longrightarrow> q \<noteq> p1 \<Longrightarrow> block h1 q = block h q" "p1 \<noteq> p \<Longrightarrow> p1 \<noteq> 0 \<Longrightarrow> fresh_block h \<le> p1"
      "p1 \<noteq> p \<Longrightarrow> p \<noteq> 0 \<Longrightarrow> block h1 p = None"
    using assms(2) by (simp_all add: moved_def)
  have b: "\<And>q. q \<noteq> p1 \<Longrightarrow> q \<noteq> p2 \<Longrightarrow> block h2 q = block h1 q" "p2 \<noteq> p1 \<Longrightarrow> p2 \<noteq> 0 \<Longrightarrow> fresh_block h1 \<le> p2"
      "p2 \<noteq> p1 \<Longrightarrow> p1 \<noteq> 0 \<Longrightarrow> block h2 p1 = None"
    using assms(3) by (simp_all add: moved_def)
  have "block h2 q = block h q" if "q \<noteq> p" "q \<noteq> p2" for q
  proof (cases "q = p1")
    case True
    then show ?thesis
      using that a(2) b(3) blocks_okD(3) [OF assms(1), of p1] blocks_okD(1) [OF assms(1)] blocks_okD(1) [OF ok(2)]
      by (cases "p1 = 0") simp_all
  qed (use that a(1) b(1) in simp)
  moreover have "fresh_block h \<le> p2" if "p2 \<noteq> p" "p2 \<noteq> 0"
    using that a(2) b(2) ok(3) by (cases "p2 = p1") simp_all
  moreover have "block h2 p = None" if "p2 \<noteq> p" "p \<noteq> 0"
    using that a(3) b(1,3) by (cases "p1 = p") simp_all
  ultimately show ?thesis using ok by (simp add: moved_def)
qed

lemma moved_readable:
  assumes "blocks_ok h" and "moved p h p' h'" and "readable src t ({p} - {0}) h"
  shows "read_bytes src (length t) h' = Some (map Some t)"
proof -
  have "block h' q = block h q" if "q < fresh_block h" "q \<notin> {p} - {0}" for q
  proof (cases "q = 0")
    case True
    then show ?thesis using assms(1,2) by (simp add: moved_def blocks_ok_def)
  next
    case False
    then show ?thesis using that assms(2) by (auto simp: moved_def)
  qed
  then show ?thesis using assms(3) by (simp add: readable_def)
qed

lemma copy_string:
  assumes "blocks_ok h" and "has_string h q t" and "length t \<le> MAX_LEN"
  obtains p h' where "str_copy q h = Some (p, h')" and "has_string h' p t" and "moved 0 h p h'"
proof -
  have rd: "read_bytes (Inside q 0) (length t) h1 = Some (map Some t)"
    if "\<forall>q. q \<noteq> fresh_block h \<longrightarrow> block h1 q = block h q" for h1 :: blocks
    using readable_Inside [OF assms(1,2), of "{}"] that by (simp add: readable_def)
  obtain p h1 h2 where m: "init (length t) (length t) h = Some (p, h1)" "str_length p h1 = Some (length t)"
      "read_bytes (Inside q 0) (length t) h1 = Some (map Some t)"
      "write_bytes p 0 (map Some t) h1 = Some h2" "has_string h2 p t" "p = 0 \<or> p = fresh_block h"
      "\<forall>q. q \<noteq> fresh_block h \<longrightarrow> block h2 q = block h q" "p = 0 \<longrightarrow> h2 = h" "blocks_ok h2"
      "fresh_block h \<le> fresh_block h2"
    by (rule made [OF assms(1,3) rd]) blast
  have "moved 0 h p h2" using m(6-10) by (auto simp: moved_def)
  then show ?thesis using that [of p h2] m holds_length [OF assms(2)] by (simp add: str_copy_def)
qed

lemma make_c_string:
  assumes "blocks_ok h" and "length t \<le> MAX_LEN"
  obtains p h' where "str_make_c t h = Some (p, h')" and "has_string h' p t" and "moved 0 h p h'"
proof -
  have rd: "read_bytes (Bytes t) (length t) h1 = Some (map Some t)"
    if "\<forall>q. q \<noteq> fresh_block h \<longrightarrow> block h1 q = block h q" for h1 :: blocks by (simp add: read_bytes_def)
  obtain p h1 h2 where m: "init (length t) (length t) h = Some (p, h1)" "str_length p h1 = Some (length t)"
      "read_bytes (Bytes t) (length t) h1 = Some (map Some t)"
      "write_bytes p 0 (map Some t) h1 = Some h2" "has_string h2 p t" "p = 0 \<or> p = fresh_block h"
      "\<forall>q. q \<noteq> fresh_block h \<longrightarrow> block h2 q = block h q" "p = 0 \<longrightarrow> h2 = h" "blocks_ok h2"
      "fresh_block h \<le> fresh_block h2"
    by (rule made [OF assms(1,2) rd]) blast
  have "moved 0 h p h2" using m(6-10) by (auto simp: moved_def)
  then show ?thesis using that [of p h2] m by (simp add: str_make_c_def)
qed

lemma assign_string:
  assumes "blocks_ok h" and "has_string h p s" and "readable src t {} h" and "length t \<le> MAX_LEN"
  obtains p' h' where "str_assign p src (length t) h = Some (p', h')" and "has_string h' p' t" and "moved p h p' h'"
proof -
  obtain r where r: "block h p = Some r" using assms(2) by (auto simp: has_string_def)
  have c: "capacity p h = Some (r_capacity r)" by (simp add: capacity_def the_block_def r)
  show ?thesis
  proof (cases "r_capacity r < length t \<or> size_t (3 * size_t (length t + 8)) < r_capacity r")
    case True
    have rd: "read_bytes src (length t) h1 = Some (map Some t)" if "\<forall>q. q \<noteq> fresh_block h \<longrightarrow> block h1 q = block h q" for h1
      using assms(3) that by (simp add: readable_def)
    obtain q h1 h2 where m: "init (length t) (length t) h = Some (q, h1)" "str_length q h1 = Some (length t)"
        "read_bytes src (length t) h1 = Some (map Some t)"
        "write_bytes q 0 (map Some t) h1 = Some h2" "has_string h2 q t" "q = 0 \<or> q = fresh_block h"
        "\<forall>q. q \<noteq> fresh_block h \<longrightarrow> block h2 q = block h q" "q = 0 \<longrightarrow> h2 = h" "blocks_ok h2"
        "fresh_block h \<le> fresh_block h2"
      by (rule made [OF assms(1,4) rd]) blast
    have p: "p \<noteq> fresh_block h" using holds_lt_fresh [OF assms(1,2)] by simp
    have live: "block h2 p \<noteq> None" using m(7) p r by simp
    obtain h3 where k: "quit p h2 = Some h3" "\<And>q. q \<noteq> p \<Longrightarrow> block h3 q = block h2 q" "p \<noteq> 0 \<Longrightarrow> block h3 p = None"
        "p = 0 \<Longrightarrow> h3 = h2" "blocks_ok h3" "fresh_block h3 = fresh_block h2"
      using quit_block [OF m(9) live] by metis
    have "p \<noteq> q \<or> p = 0" using m(6) p by auto
    then have "block h3 q = block h2 q" using k(2) [of q] k(4) by auto
    then have "has_string h3 q t" using m(5) by (simp add: holds_block)
    moreover have "moved p h q h3"
      using m(6-10) k p by (auto simp: moved_def)
    moreover have "str_assign p src (length t) h = Some (q, h3)" using True c m(1,3,4) k(1) by (simp add: str_assign_def)
    ultimately show ?thesis using that by blast
  next
    case False
    then have fit: "0 + length t \<le> the (capacity p h)" using c by simp
    obtain h1 h2 where w: "write_bytes p 0 (map Some t) h = Some h1" "set_size p (0 + length t) h1 = Some h2"
        "has_string h2 p (take 0 s @ t)" "moved p h p h2"
      using write_within [OF assms(1,2) le0 fit] by metis
    have "read_bytes src (length t) h = Some (map Some t)" using assms(3) by (simp add: readable_def)
    then have "str_assign p src (length t) h = Some (p, h2)" using False c w(1,2) by (simp add: str_assign_def)
    then show ?thesis using that [of p h2] w(3,4) by simp
  qed
qed

text \<open>An append that needs room frees the old block before it reads, so the bytes must not lie in it.  The capacity grows
  by more than the old one.\<close>

lemma append_string:
  assumes "blocks_ok h" and "has_string h p s" and "readable src t ({p} - {0}) h" and "length s + length t \<le> MAX_LEN"
  obtains p' h' where "str_append p src (length t) h = Some (p', h')" and "has_string h' p' (s @ t)" and "moved p h p' h'"
    and "p' \<noteq> p \<Longrightarrow> 2 * the (capacity p h) < the (capacity p' h')"
proof -
  obtain r where r: "block h p = Some r" "length s \<le> r_capacity r" using assms(2) by (auto simp: has_string_def)
  have c: "capacity p h = Some (r_capacity r)" by (simp add: capacity_def the_block_def r(1))
  have len: "str_length p h = Some (length s)" by (rule holds_length [OF assms(2)])
  have new: "size_t (length s + length t) = length s + length t" using assms(4) by (simp add: size_t_def MAX_LEN_def)
  obtain q h1 where q: "(if r_capacity r < length s + length t then reserve p (size_t (length s + length t + r_capacity r)) h
        else Some (p, h)) = Some (q, h1)"
      "has_string h1 q s" "moved p h q h1" "length s + length t \<le> the (capacity q h1)"
      "q \<noteq> p \<Longrightarrow> 2 * r_capacity r < the (capacity q h1)"
  proof (cases "r_capacity r < length s + length t")
    case False
    then show ?thesis using that [of p h] assms(1,2) c by (simp add: moved_def)
  next
    case True
    then have cap: "length s + length t + r_capacity r \<le> 2 * MAX_LEN" using assms(4) by simp
    then have "size_t (length s + length t + r_capacity r) = length s + length t + r_capacity r"
      by (simp add: size_t_def MAX_LEN_def)
    moreover obtain q h1 where "reserve p (length s + length t + r_capacity r) h = Some (q, h1)" "has_string h1 q s"
        "moved p h q h1" "capacity q h1 = Some (max (length s + length t + r_capacity r) (the (capacity p h)))"
      by (rule reserve_string [OF assms(1,2) cap]) blast
    ultimately show ?thesis using that [of q h1] True c by simp
  qed
  have ok1: "blocks_ok h1" using q(3) by (simp add: moved_def)
  obtain h2 h3 where w: "write_bytes q (length s) (map Some t) h1 = Some h2" "set_size q (length s + length t) h2 = Some h3"
      "has_string h3 q (take (length s) s @ t)" "moved q h1 q h3" "capacity q h3 = capacity q h1"
    using write_within [OF ok1 q(2) order_refl q(4)] by metis
  have "str_append p src (length t) h = Some (q, h3)"
    unfolding str_append_def len c Let_def new Option.bind.bind_lunit q(1) prod.case
      moved_readable [OF assms(1) q(3) assms(3)] holds_length [OF q(2)] w(1,2) ..
  then show ?thesis using that [of q h3] w(3,5) q(5) c moved_trans [OF assms(1) q(3) w(4)] by simp
qed

lemma clear_string:
  assumes "blocks_ok h" and "has_string h p s"
  obtains h' where "str_clear p h = Some (0, h')" and "has_string h' 0 []" and "moved p h 0 h'"
proof -
  have "block h p \<noteq> None" using assms(2) by (auto simp: has_string_def)
  then obtain h' where k: "quit p h = Some h'" "\<And>q. q \<noteq> p \<Longrightarrow> block h' q = block h q" "p \<noteq> 0 \<Longrightarrow> block h' p = None"
      "p = 0 \<Longrightarrow> h' = h" "blocks_ok h'" "fresh_block h' = fresh_block h"
    using quit_block [OF assms(1)] by metis
  then show ?thesis using that [of h'] holds_null [OF k(5)] by (simp add: str_clear_def init_def moved_def)
qed

lemma append_str_string:
  assumes "blocks_ok h" and "has_string h p s" and "has_string h q t" and "q \<noteq> p \<or> q = 0" and "length s + length t \<le> MAX_LEN"
  obtains p' h' where "append_str p q h = Some (p', h')" and "has_string h' p' (s @ t)" and "moved p h p' h'"
proof -
  have "readable (Inside q 0) t ({p} - {0}) h" using assms(4) by (intro readable_Inside [OF assms(1,3)]) auto
  from append_string [OF assms(1,2) this assms(5)]
  show ?thesis using that holds_length [OF assms(3)] by (simp add: append_str_def) metis
qed

lemma append_c_string:
  assumes "blocks_ok h" and "has_string h p s" and "length s + length t \<le> MAX_LEN"
  obtains p' h' where "append_c p t h = Some (p', h')" and "has_string h' p' (s @ t)" and "moved p h p' h'"
  using append_string [OF assms(1,2) readable_Bytes assms(3)] unfolding append_c_def by metis

text \<open>A string that existed before stays readable while a new object, in block \<open>p\<close>, changes.\<close>

lemma still_held:
  assumes "blocks_ok h" and "moved 0 h p h'" and "has_string h q t"
  shows "has_string h' q t" and "q \<noteq> p \<or> q = 0"
proof -
  show q: "q \<noteq> p \<or> q = 0" using assms(2) holds_lt_fresh [OF assms(1,3)] by (auto simp: moved_def)
  show "has_string h' q t"
  proof (cases "q = 0")
    case True
    have "blocks_ok h'" using assms(2) by (simp add: moved_def)
    then show ?thesis using True assms(1,3) holds_null by simp
  next
    case False
    then show ?thesis using q assms(2) by (intro holds_block [OF assms(3)]) (simp add: moved_def)
  qed
qed

lemma reserve_new:
  assumes "blocks_ok h" and "n + m \<le> MAX_LEN"
  obtains t h1 where "reserve str_new (size_t (n + m)) h = Some (t, h1)" and "has_string h1 t []" and "moved 0 h t h1"
proof -
  have n: "size_t (n + m) = n + m" "n + m \<le> 2 * MAX_LEN" using assms(2) by (simp_all add: size_t_def MAX_LEN_def)
  have e: "has_string h 0 []" using holds_null [OF assms(1)] by simp
  obtain t h1 where "reserve 0 (n + m) h = Some (t, h1)" "has_string h1 t []" "moved 0 h t h1"
    by (rule reserve_string [OF assms(1) e n(2)]) blast
  then show ?thesis using that unfolding n(1) str_new_def by blast
qed

lemma plus_string:
  assumes "blocks_ok h" and "has_string h a s" and "has_string h b t" and "length s + length t \<le> MAX_LEN"
  obtains p h' where "plus_str a b h = Some (p, h')" and "has_string h' p (s @ t)" and "moved 0 h p h'"
proof -
  obtain p1 h1 where 1: "reserve str_new (size_t (length s + length t)) h = Some (p1, h1)" "has_string h1 p1 []" "moved 0 h p1 h1"
    by (rule reserve_new [OF assms(1,4)])
  have ok1: "blocks_ok h1" using 1(3) by (simp add: moved_def)
  note a1 = still_held [OF assms(1) 1(3) assms(2)]
  have le1: "length ([] :: string) + length s \<le> MAX_LEN" using assms(4) by simp
  obtain p2 h2 where 2: "append_str p1 a h1 = Some (p2, h2)" "has_string h2 p2 ([] @ s)" "moved p1 h1 p2 h2"
    by (rule append_str_string [OF ok1 1(2) a1 le1])
  have m2: "moved 0 h p2 h2" by (rule moved_trans [OF assms(1) 1(3) 2(3)])
  have ok2: "blocks_ok h2" using m2 by (simp add: moved_def)
  note b2 = still_held [OF assms(1) m2 assms(3)]
  have h2: "has_string h2 p2 s" using 2(2) by simp
  obtain p3 h3 where 3: "append_str p2 b h2 = Some (p3, h3)" "has_string h3 p3 (s @ t)" "moved p2 h2 p3 h3"
    by (rule append_str_string [OF ok2 h2 b2 assms(4)])
  have "plus_str a b h = Some (p3, h3)"
    using 1(1) 2(1) 3(1) holds_length [OF assms(2)] holds_length [OF assms(3)] by (simp add: plus_str_def)
  then show ?thesis using that 3(2) moved_trans [OF assms(1) m2 3(3)] by blast
qed

section \<open>Programs over named objects\<close>

datatype str_op =
    Make nat string
  | Copy nat nat
  | Destroy nat
  | Assign nat nat
  | Assign_C nat string
  | Append nat nat
  | Append_C nat string
  | Reserve nat nat
  | Clear nat
  | Swap nat nat
  | Plus nat nat nat

type_synonym objects = "nat \<rightharpoonup> nat"

text \<open>The objects hold their pointers; \<open>Make\<close>, \<open>Copy\<close> and \<open>Plus\<close> construct one.\<close>

fun str_step :: "str_op \<Rightarrow> objects \<times> blocks \<Rightarrow> (objects \<times> blocks) option" where
  "str_step (Make v s) (e, h) = do { (p, h1) \<leftarrow> str_make_c s h; Some (e(v \<mapsto> p), h1) }"
| "str_step (Copy v w) (e, h) = do { q \<leftarrow> e w; (p, h1) \<leftarrow> str_copy q h; Some (e(v \<mapsto> p), h1) }"
| "str_step (Destroy v) (e, h) = do { p \<leftarrow> e v; h1 \<leftarrow> quit p h; Some (e(v := None), h1) }"
| "str_step (Assign v w) (e, h) = do { p \<leftarrow> e v; q \<leftarrow> e w; (p1, h1) \<leftarrow> assign_str p q h; Some (e(v \<mapsto> p1), h1) }"
| "str_step (Assign_C v s) (e, h) = do { p \<leftarrow> e v; (p1, h1) \<leftarrow> assign_c p s h; Some (e(v \<mapsto> p1), h1) }"
| "str_step (Append v w) (e, h) = do { p \<leftarrow> e v; q \<leftarrow> e w; (p1, h1) \<leftarrow> append_str p q h; Some (e(v \<mapsto> p1), h1) }"
| "str_step (Append_C v s) (e, h) = do { p \<leftarrow> e v; (p1, h1) \<leftarrow> append_c p s h; Some (e(v \<mapsto> p1), h1) }"
| "str_step (Reserve v n) (e, h) = do { p \<leftarrow> e v; (p1, h1) \<leftarrow> reserve p n h; Some (e(v \<mapsto> p1), h1) }"
| "str_step (Clear v) (e, h) = do { p \<leftarrow> e v; (p1, h1) \<leftarrow> str_clear p h; Some (e(v \<mapsto> p1), h1) }"
| "str_step (Swap v w) (e, h) = do { p \<leftarrow> e v; q \<leftarrow> e w; Some (e(v \<mapsto> q, w \<mapsto> p), h) }"
| "str_step (Plus u v w) (e, h) =
     do { p \<leftarrow> e v; q \<leftarrow> e w; (r, h1) \<leftarrow> plus_str p q h; Some (e(u \<mapsto> r), h1) }"

text \<open>What they promise.  An object is constructed once and used before it goes away, no object is appended to itself, and
  lengths stay below the limit.\<close>

definition within :: "bool \<Rightarrow> string \<Rightarrow> string option" where
  "within ok s = (if ok \<and> length s \<le> MAX_LEN then Some s else None)"

fun abs_step :: "str_op \<Rightarrow> (nat \<rightharpoonup> string) \<Rightarrow> (nat \<rightharpoonup> string) option" where
  "abs_step (Make v s) m = do { t \<leftarrow> within (m v = None) s; Some (m(v \<mapsto> t)) }"
| "abs_step (Copy v w) m = do { s \<leftarrow> m w; t \<leftarrow> within (m v = None) s; Some (m(v \<mapsto> t)) }"
| "abs_step (Destroy v) m = do { s \<leftarrow> m v; Some (m(v := None)) }"
| "abs_step (Assign v w) m = do { s \<leftarrow> m v; t \<leftarrow> m w; Some (m(v \<mapsto> t)) }"
| "abs_step (Assign_C v s) m = do { _ \<leftarrow> m v; t \<leftarrow> within True s; Some (m(v \<mapsto> t)) }"
| "abs_step (Append v w) m = do { s \<leftarrow> m v; t \<leftarrow> m w; u \<leftarrow> within (v \<noteq> w) (s @ t); Some (m(v \<mapsto> u)) }"
| "abs_step (Append_C v t) m = do { s \<leftarrow> m v; u \<leftarrow> within True (s @ t); Some (m(v \<mapsto> u)) }"
| "abs_step (Reserve v n) m = do { s \<leftarrow> m v; if n \<le> 2 * MAX_LEN then Some m else None }"
| "abs_step (Clear v) m = do { s \<leftarrow> m v; Some (m(v \<mapsto> [])) }"
| "abs_step (Swap v w) m = do { s \<leftarrow> m v; t \<leftarrow> m w; Some (m(v \<mapsto> t, w \<mapsto> s)) }"
| "abs_step (Plus u v w) m = do { s \<leftarrow> m v; t \<leftarrow> m w; x \<leftarrow> within (m u = None) (s @ t); Some (m(u \<mapsto> x)) }"

fun str_run :: "str_op list \<Rightarrow> objects \<times> blocks \<Rightarrow> (objects \<times> blocks) option" where
  "str_run [] s = Some s"
| "str_run (op # ops) s = Option.bind (str_step op s) (str_run ops)"

fun abs_run :: "str_op list \<Rightarrow> (nat \<rightharpoonup> string) \<Rightarrow> (nat \<rightharpoonup> string) option" where
  "abs_run [] m = Some m"
| "abs_run (op # ops) m = Option.bind (abs_step op m) (abs_run ops)"

text \<open>Every object has its string, in a block of its own unless it is the shared one, and there are no other blocks.\<close>

definition represents :: "objects \<Rightarrow> blocks \<Rightarrow> (nat \<rightharpoonup> string) \<Rightarrow> bool" where
  "represents e h m =
     (blocks_ok h \<and> dom e = dom m \<and>
      (\<forall>v p s. e v = Some p \<longrightarrow> m v = Some s \<longrightarrow> has_string h p s \<and> length s \<le> MAX_LEN) \<and>
      (\<forall>v w p. e v = Some p \<longrightarrow> e w = Some p \<longrightarrow> v = w \<or> p = 0) \<and>
      (\<forall>q. block h q \<noteq> None \<longleftrightarrow> q = 0 \<or> (\<exists>v. e v = Some q)))"

lemma representsD:
  assumes "represents e h m"
  shows "blocks_ok h" and "dom e = dom m"
    and "e v = Some p \<Longrightarrow> m v = Some s \<Longrightarrow> has_string h p s \<and> length s \<le> MAX_LEN"
    and "e v = Some p \<Longrightarrow> e w = Some p \<Longrightarrow> v = w \<or> p = 0"
    and "block h q \<noteq> None \<longleftrightarrow> q = 0 \<or> (\<exists>v. e v = Some q)"
  using assms by (auto simp: represents_def)

lemma represents_get:
  assumes "represents e h m" and "m v = Some s"
  obtains p where "e v = Some p" and "has_string h p s" and "length s \<le> MAX_LEN"
proof -
  obtain p where "e v = Some p" using representsD(2) [OF assms(1)] assms(2) by blast
  then show ?thesis using that representsD(3) [OF assms(1) _ assms(2)] by blast
qed

lemma represents_none: "represents e h m \<Longrightarrow> e v = None \<longleftrightarrow> m v = None"
  by (metis representsD(2) domIff)

text \<open>One object is given a new string.\<close>

lemma represents_update:
  assumes "represents e h m" and "p = (case e v of None \<Rightarrow> 0 | Some p \<Rightarrow> p)" and "moved p h p' h'" and "has_string h' p' t"
    and "length t \<le> MAX_LEN"
  shows "represents (e(v \<mapsto> p')) h' (m(v \<mapsto> t))"
proof -
  note R = representsD [OF assms(1)]
  have ok: "blocks_ok h'" and mv: "\<And>q. q \<noteq> p \<Longrightarrow> q \<noteq> p' \<Longrightarrow> block h' q = block h q" "p' \<noteq> p \<Longrightarrow> p' \<noteq> 0 \<Longrightarrow> fresh_block h \<le> p'"
      "p' \<noteq> p \<Longrightarrow> p \<noteq> 0 \<Longrightarrow> block h' p = None"
    using assms(3) by (simp_all add: moved_def)
  have live: "q < fresh_block h" if "e w = Some q" for w q
  proof -
    have "block h q \<noteq> None" using R(5) that by blast
    then show ?thesis using blocks_okD(3) [OF R(1), of q] by (meson not_le)
  qed
  have other: "q = 0 \<or> q \<noteq> p \<and> q \<noteq> p'" if "e w = Some q" "w \<noteq> v" for w q
  proof (cases "q = 0")
    case False
    have "q \<noteq> p"
    proof
      assume "q = p"
      then have "e v = Some q" using False assms(2) by (cases "e v") simp_all
      then show False using R(4) that False by blast
    qed
    moreover have "q \<noteq> p'" using mv(2) live [OF that(1)] False \<open>q \<noteq> p\<close> by (metis not_le)
    ultimately show ?thesis by simp
  qed simp
  have zero: "block h' 0 = block h 0" using blocks_okD(1) [OF ok] blocks_okD(1) [OF R(1)] by simp
  have same: "block h' q = block h q" if "e w = Some q" "w \<noteq> v" for w q
    using other [OF that] mv(1) zero by (cases "q = 0") simp_all
  show ?thesis
    unfolding represents_def
  proof (intro conjI allI impI)
    show "dom (e(v \<mapsto> p')) = dom (m(v \<mapsto> t))" using R(2) by simp
    show "has_string h' q s" "length s \<le> MAX_LEN" if "(e(v \<mapsto> p')) w = Some q" "(m(v \<mapsto> t)) w = Some s" for w q s
    proof -
      have "has_string h' q s \<and> length s \<le> MAX_LEN"
      proof (cases "w = v")
        case False
        then have "e w = Some q" "m w = Some s" using that by simp_all
        then show ?thesis using R(3) holds_block [OF _ same] False by blast
      qed (use that assms(4,5) in simp)
      then show "has_string h' q s" "length s \<le> MAX_LEN" by simp_all
    qed
    show "w = w' \<or> q = 0" if "(e(v \<mapsto> p')) w = Some q" "(e(v \<mapsto> p')) w' = Some q" for w w' q
      using that R(4) [of w q w'] other [of w q] other [of w' q] by (auto split: if_splits)
  next
    fix q
    have own: "block h' p' \<noteq> None" using assms(4) by (auto simp: has_string_def)
    consider "q = 0" | "q = p'" | "q \<noteq> 0" "q = p" "q \<noteq> p'" | "q \<noteq> 0" "q \<noteq> p" "q \<noteq> p'" by blast
    then show "block h' q \<noteq> None \<longleftrightarrow> q = 0 \<or> (\<exists>w. (e(v \<mapsto> p')) w = Some q)"
    proof cases
      case 1
      then show ?thesis using blocks_okD(1) [OF ok] by simp
    next
      case 2
      then show ?thesis using own by auto
    next
      case 3
      then have "block h' q = None" using mv(3) by simp
      moreover have "(e(v \<mapsto> p')) w \<noteq> Some q" for w using 3 other [of w q] by auto
      ultimately show ?thesis using 3 by simp
    next
      case 4
      have "block h' q = block h q" using mv(1) 4 by simp
      moreover have "(\<exists>w. (e(v \<mapsto> p')) w = Some q) \<longleftrightarrow> (\<exists>w. e w = Some q)"
      proof
        assume "\<exists>w. e w = Some q"
        then obtain w where w: "e w = Some q" by blast
        have "w \<noteq> v" using w 4(2) assms(2) by auto
        then show "\<exists>w. (e(v \<mapsto> p')) w = Some q" using w by (metis fun_upd_other)
      qed (use 4 in \<open>auto split: if_splits\<close>)
      ultimately show ?thesis using R(5) 4 by simp
    qed
  qed (rule ok)
qed

lemma represents_destroy:
  assumes "represents e h m" and "e v = Some p" and "quit p h = Some h'" and "\<And>q. q \<noteq> p \<Longrightarrow> block h' q = block h q"
    and "p \<noteq> 0 \<Longrightarrow> block h' p = None" and "p = 0 \<Longrightarrow> h' = h" and "blocks_ok h'"
  shows "represents (e(v := None)) h' (m(v := None))"
proof -
  note R = representsD [OF assms(1)]
  have other: "block h' q = block h q" if "e w = Some q" "w \<noteq> v" for w q
    using R(4) [of w q v] that assms(2,4,6) by (cases "q = p") auto
  show ?thesis
    unfolding represents_def
  proof (intro conjI allI impI)
    show "dom (e(v := None)) = dom (m(v := None))" using R(2) by simp
    show "has_string h' q s" "length s \<le> MAX_LEN" if "(e(v := None)) w = Some q" "(m(v := None)) w = Some s" for w q s
    proof -
      have w: "w \<noteq> v" "e w = Some q" "m w = Some s" using that by (auto split: if_splits)
      then have "has_string h q s \<and> length s \<le> MAX_LEN" using R(3) by blast
      then show "has_string h' q s" "length s \<le> MAX_LEN" using holds_block other [OF w(2,1)] by blast+
    qed
    show "w = w' \<or> q = 0" if "(e(v := None)) w = Some q" "(e(v := None)) w' = Some q" for w w' q
      using that R(4) [of w q w'] by (auto split: if_splits)
  next
    fix q
    consider "q = 0" | "q \<noteq> 0" "q = p" | "q \<noteq> 0" "q \<noteq> p" by blast
    then show "block h' q \<noteq> None \<longleftrightarrow> q = 0 \<or> (\<exists>w. (e(v := None)) w = Some q)"
    proof cases
      case 1
      then show ?thesis using blocks_okD(1) [OF assms(7)] by simp
    next
      case 2
      then have "(e(v := None)) w \<noteq> Some q" for w using R(4) [of w q v] assms(2) by auto
      then show ?thesis using 2 assms(5) by simp
    next
      case 3
      have "block h' q = block h q" using assms(4) 3 by simp
      moreover have "(\<exists>w. (e(v := None)) w = Some q) \<longleftrightarrow> (\<exists>w. e w = Some q)"
        using 3(2) assms(2) by (metis fun_upd_other fun_upd_same option.distinct(1) option.inject)
      ultimately show ?thesis using R(5) 3 by simp
    qed
  qed (rule assms(7))
qed

lemma represents_swap:
  assumes "represents e h m" and "e v = Some p" and "e w = Some q" and "m v = Some s" and "m w = Some t"
  shows "represents (e(v \<mapsto> q, w \<mapsto> p)) h (m(v \<mapsto> t, w \<mapsto> s))"
proof -
  note R = representsD [OF assms(1)]
  define f where "f x = (if x = v then w else if x = w then v else x)" for x
  have e: "(e(v \<mapsto> q, w \<mapsto> p)) x = e (f x)" and m: "(m(v \<mapsto> t, w \<mapsto> s)) x = m (f x)" for x
    using assms(2-5) by (auto simp: f_def)
  have inv: "f (f x) = x" for x by (simp add: f_def)
  show ?thesis
    unfolding represents_def
  proof (intro conjI allI impI)
    show "dom (e(v \<mapsto> q, w \<mapsto> p)) = dom (m(v \<mapsto> t, w \<mapsto> s))" using R(2) by simp
    show "x = y \<or> r = 0" if "(e(v \<mapsto> q, w \<mapsto> p)) x = Some r" "(e(v \<mapsto> q, w \<mapsto> p)) y = Some r" for x y r
      using R(4) [of "f x" r "f y"] that inv unfolding e by metis
    show "block h r \<noteq> None \<longleftrightarrow> r = 0 \<or> (\<exists>x. (e(v \<mapsto> q, w \<mapsto> p)) x = Some r)" for r
      unfolding e using R(5) [of r] inv by metis
  next
    fix x r u
    assume "(e(v \<mapsto> q, w \<mapsto> p)) x = Some r" "(m(v \<mapsto> t, w \<mapsto> s)) x = Some u"
    then show "has_string h r u" "length u \<le> MAX_LEN" unfolding e m using R(3) by blast+
  qed (rule R(1))
qed

text \<open>One operation.\<close>

definition refines :: "str_op \<Rightarrow> objects \<Rightarrow> blocks \<Rightarrow> (nat \<rightharpoonup> string) \<Rightarrow> bool" where
  "refines op e h m' = (\<exists>e' h'. str_step op (e, h) = Some (e', h') \<and> represents e' h' m')"

lemma refines_built:
  assumes "represents e h m" and "m v = None" and "str_step op (e, h) = Some (e(v \<mapsto> p), h1)" and "moved 0 h p h1"
    and "has_string h1 p t" and "length t \<le> MAX_LEN"
  shows "refines op e h (m(v \<mapsto> t))"
proof -
  have "e v = None" using represents_none [OF assms(1)] assms(2) by simp
  then have "0 = (case e v of None \<Rightarrow> 0 | Some p \<Rightarrow> p)" by simp
  from represents_update [OF assms(1) this assms(4-6)] show ?thesis using assms(3) by (auto simp: refines_def)
qed

lemma refines_changed:
  assumes "represents e h m" and "e v = Some p0" and "str_step op (e, h) = Some (e(v \<mapsto> p), h1)" and "moved p0 h p h1"
    and "has_string h1 p t" and "length t \<le> MAX_LEN"
  shows "refines op e h (m(v \<mapsto> t))"
proof -
  have "p0 = (case e v of None \<Rightarrow> 0 | Some p \<Rightarrow> p)" using assms(2) by simp
  from represents_update [OF assms(1) this assms(4-6)] show ?thesis using assms(3) by (auto simp: refines_def)
qed

lemma within_Some: "within ok s = Some t \<longleftrightarrow> ok \<and> length s \<le> MAX_LEN \<and> t = s"
  by (auto simp: within_def)

lemma construct_refines:
  assumes R: "represents e h m"
  shows "abs_step (Make v s) m = Some m' \<Longrightarrow> refines (Make v s) e h m'"
    and "abs_step (Copy v w) m = Some m' \<Longrightarrow> refines (Copy v w) e h m'"
    and "abs_step (Plus v w x) m = Some m' \<Longrightarrow> refines (Plus v w x) e h m'"
proof -
  note ok = representsD(1) [OF R]
  {
    assume "abs_step (Make v s) m = Some m'"
    then have m: "m v = None" "length s \<le> MAX_LEN" "m' = m(v \<mapsto> s)" by (auto simp: bind_eq_Some_conv within_Some)
    obtain p h1 where 1: "str_make_c s h = Some (p, h1)" "has_string h1 p s" "moved 0 h p h1"
      by (rule make_c_string [OF ok m(2)])
    show "refines (Make v s) e h m'"
      unfolding m(3) by (rule refines_built [OF R m(1) _ 1(3,2) m(2)]) (simp add: 1(1))
  }
  {
    assume "abs_step (Copy v w) m = Some m'"
    then obtain t where m: "m w = Some t" "m v = None" "m' = m(v \<mapsto> t)" by (auto simp: bind_eq_Some_conv within_Some)
    obtain q where q: "e w = Some q" "has_string h q t" "length t \<le> MAX_LEN" by (rule represents_get [OF R m(1)])
    obtain p h1 where 1: "str_copy q h = Some (p, h1)" "has_string h1 p t" "moved 0 h p h1" by (rule copy_string [OF ok q(2,3)])
    show "refines (Copy v w) e h m'"
      unfolding m(3) by (rule refines_built [OF R m(2) _ 1(3,2) q(3)]) (simp add: q(1) 1(1))
  }
  {
    assume "abs_step (Plus v w x) m = Some m'"
    then obtain t u where m: "m w = Some t" "m x = Some u" "m v = None" "length (t @ u) \<le> MAX_LEN" "m' = m(v \<mapsto> t @ u)"
      by (auto simp: bind_eq_Some_conv within_Some)
    obtain p where p: "e w = Some p" "has_string h p t" by (rule represents_get [OF R m(1)])
    obtain q where q: "e x = Some q" "has_string h q u" by (rule represents_get [OF R m(2)])
    have len: "length t + length u \<le> MAX_LEN" using m(4) by simp
    obtain r h1 where 1: "plus_str p q h = Some (r, h1)" "has_string h1 r (t @ u)" "moved 0 h r h1"
      by (rule plus_string [OF ok p(2) q(2) len])
    show "refines (Plus v w x) e h m'"
      unfolding m(5) by (rule refines_built [OF R m(3) _ 1(3,2) m(4)]) (simp add: p(1) q(1) 1(1))
  }
qed

lemma assign_refines:
  assumes R: "represents e h m"
  shows "abs_step (Assign v w) m = Some m' \<Longrightarrow> refines (Assign v w) e h m'"
    and "abs_step (Assign_C v s) m = Some m' \<Longrightarrow> refines (Assign_C v s) e h m'"
proof -
  note ok = representsD(1) [OF R]
  {
    assume "abs_step (Assign v w) m = Some m'"
    then obtain t u where m: "m v = Some t" "m w = Some u" "m' = m(v \<mapsto> u)" by (auto simp: bind_eq_Some_conv)
    obtain p where p: "e v = Some p" "has_string h p t" by (rule represents_get [OF R m(1)])
    obtain q where q: "e w = Some q" "has_string h q u" "length u \<le> MAX_LEN" by (rule represents_get [OF R m(2)])
    have rd: "readable (Inside q 0) u {} h" by (rule readable_Inside [OF ok q(2)]) simp
    obtain r h1 where 1: "str_assign p (Inside q 0) (length u) h = Some (r, h1)" "has_string h1 r u" "moved p h r h1"
      by (rule assign_string [OF ok p(2) rd q(3)])
    show "refines (Assign v w) e h m'"
      unfolding m(3)
      by (rule refines_changed [OF R p(1) _ 1(3,2) q(3)])
        (simp add: p(1) q(1) assign_str_def holds_length [OF q(2)] 1(1))
  }
  {
    assume "abs_step (Assign_C v s) m = Some m'"
    then obtain t where m: "m v = Some t" "length s \<le> MAX_LEN" "m' = m(v \<mapsto> s)" by (auto simp: bind_eq_Some_conv within_Some)
    obtain p where p: "e v = Some p" "has_string h p t" by (rule represents_get [OF R m(1)])
    obtain r h1 where 1: "str_assign p (Bytes s) (length s) h = Some (r, h1)" "has_string h1 r s" "moved p h r h1"
      by (rule assign_string [OF ok p(2) readable_Bytes m(2)])
    show "refines (Assign_C v s) e h m'"
      unfolding m(3) by (rule refines_changed [OF R p(1) _ 1(3,2) m(2)]) (simp add: p(1) assign_c_def 1(1))
  }
qed

lemma append_refines:
  assumes R: "represents e h m"
  shows "abs_step (Append v w) m = Some m' \<Longrightarrow> refines (Append v w) e h m'"
    and "abs_step (Append_C v s) m = Some m' \<Longrightarrow> refines (Append_C v s) e h m'"
proof -
  note ok = representsD(1) [OF R]
  {
    assume "abs_step (Append v w) m = Some m'"
    then obtain t u where m: "m v = Some t" "m w = Some u" "v \<noteq> w" "length (t @ u) \<le> MAX_LEN" "m' = m(v \<mapsto> t @ u)"
      by (auto simp: bind_eq_Some_conv within_Some)
    obtain p where p: "e v = Some p" "has_string h p t" by (rule represents_get [OF R m(1)])
    obtain q where q: "e w = Some q" "has_string h q u" by (rule represents_get [OF R m(2)])
    have sep: "q \<noteq> p \<or> q = 0" using representsD(4) [OF R p(1)] q(1) m(3) by blast
    have len: "length t + length u \<le> MAX_LEN" using m(4) by simp
    obtain r h1 where 1: "append_str p q h = Some (r, h1)" "has_string h1 r (t @ u)" "moved p h r h1"
      by (rule append_str_string [OF ok p(2) q(2) sep len])
    show "refines (Append v w) e h m'"
      unfolding m(5) by (rule refines_changed [OF R p(1) _ 1(3,2) m(4)]) (simp add: p(1) q(1) 1(1))
  }
  {
    assume "abs_step (Append_C v s) m = Some m'"
    then obtain t where m: "m v = Some t" "length (t @ s) \<le> MAX_LEN" "m' = m(v \<mapsto> t @ s)"
      by (auto simp: bind_eq_Some_conv within_Some)
    obtain p where p: "e v = Some p" "has_string h p t" by (rule represents_get [OF R m(1)])
    have len: "length t + length s \<le> MAX_LEN" using m(2) by simp
    obtain r h1 where 1: "append_c p s h = Some (r, h1)" "has_string h1 r (t @ s)" "moved p h r h1"
      by (rule append_c_string [OF ok p(2) len])
    show "refines (Append_C v s) e h m'"
      unfolding m(3) by (rule refines_changed [OF R p(1) _ 1(3,2) m(2)]) (simp add: p(1) 1(1))
  }
qed

lemma other_refines:
  assumes R: "represents e h m"
  shows "abs_step (Destroy v) m = Some m' \<Longrightarrow> refines (Destroy v) e h m'"
    and "abs_step (Reserve v n) m = Some m' \<Longrightarrow> refines (Reserve v n) e h m'"
    and "abs_step (Clear v) m = Some m' \<Longrightarrow> refines (Clear v) e h m'"
    and "abs_step (Swap v w) m = Some m' \<Longrightarrow> refines (Swap v w) e h m'"
proof -
  note ok = representsD(1) [OF R]
  {
    assume "abs_step (Destroy v) m = Some m'"
    then obtain t where m: "m v = Some t" "m' = m(v := None)" by (auto simp: bind_eq_Some_conv)
    obtain p where p: "e v = Some p" "has_string h p t" by (rule represents_get [OF R m(1)])
    have "block h p \<noteq> None" using p(2) by (auto simp: has_string_def)
    then obtain h' where k: "quit p h = Some h'" "\<And>q. q \<noteq> p \<Longrightarrow> block h' q = block h q" "p \<noteq> 0 \<Longrightarrow> block h' p = None"
        "p = 0 \<Longrightarrow> h' = h" "blocks_ok h'"
      using quit_block [OF ok] by metis
    have "str_step (Destroy v) (e, h) = Some (e(v := None), h')" by (simp add: p(1) k(1))
    moreover have "represents (e(v := None)) h' (m(v := None))" by (rule represents_destroy [OF R p(1) k])
    ultimately show "refines (Destroy v) e h m'" unfolding refines_def m(2) by (intro exI conjI)
  }
  {
    assume a: "abs_step (Reserve v n) m = Some m'"
    then obtain t where m1: "m v = Some t" by (cases "m v") simp_all
    then have m2: "n \<le> 2 * MAX_LEN" "m' = m" using a by (simp_all split: if_split_asm)
    note m = m1 m2
    obtain p where p: "e v = Some p" "has_string h p t" "length t \<le> MAX_LEN" by (rule represents_get [OF R m(1)])
    obtain r h1 where 1: "reserve p n h = Some (r, h1)" "has_string h1 r t" "moved p h r h1"
      by (rule reserve_string [OF ok p(2) m(2)]) (rule that)
    have "refines (Reserve v n) e h (m(v \<mapsto> t))"
      by (rule refines_changed [OF R p(1) _ 1(3,2) p(3)]) (simp add: p(1) 1(1))
    then show "refines (Reserve v n) e h m'" using m(1,3) by (simp add: map_upd_triv)
  }
  {
    assume "abs_step (Clear v) m = Some m'"
    then obtain t where m: "m v = Some t" "m' = m(v \<mapsto> [])" by (auto simp: bind_eq_Some_conv)
    obtain p where p: "e v = Some p" "has_string h p t" by (rule represents_get [OF R m(1)])
    obtain h1 where 1: "str_clear p h = Some (0, h1)" "has_string h1 0 []" "moved p h 0 h1"
      by (rule clear_string [OF ok p(2)])
    show "refines (Clear v) e h m'"
      unfolding m(2) by (rule refines_changed [OF R p(1) _ 1(3,2)]) (simp_all add: p(1) 1(1))
  }
  {
    assume "abs_step (Swap v w) m = Some m'"
    then obtain t u where m: "m v = Some t" "m w = Some u" "m' = m(v \<mapsto> u, w \<mapsto> t)" by (auto simp: bind_eq_Some_conv)
    obtain p where p: "e v = Some p" by (rule represents_get [OF R m(1)])
    obtain q where q: "e w = Some q" by (rule represents_get [OF R m(2)])
    show "refines (Swap v w) e h m'"
      using represents_swap [OF R p q m(1,2)] p q by (simp add: refines_def m(3))
  }
qed

lemma str_step_refines:
  assumes "represents e h m" and "abs_step op m = Some m'"
  shows "refines op e h m'"
proof (cases op)
  case (Make v s)
  show ?thesis using assms unfolding Make by (rule construct_refines(1))
next
  case (Copy v w)
  show ?thesis using assms unfolding Copy by (rule construct_refines(2))
next
  case (Destroy v)
  show ?thesis using assms unfolding Destroy by (rule other_refines(1))
next
  case (Assign v w)
  show ?thesis using assms unfolding Assign by (rule assign_refines(1))
next
  case (Assign_C v s)
  show ?thesis using assms unfolding Assign_C by (rule assign_refines(2))
next
  case (Append v w)
  show ?thesis using assms unfolding Append by (rule append_refines(1))
next
  case (Append_C v s)
  show ?thesis using assms unfolding Append_C by (rule append_refines(2))
next
  case (Reserve v n)
  show ?thesis using assms unfolding Reserve by (rule other_refines(2))
next
  case (Clear v)
  show ?thesis using assms unfolding Clear by (rule other_refines(3))
next
  case (Swap v w)
  show ?thesis using assms unfolding Swap by (rule other_refines(4))
next
  case (Plus u v w)
  show ?thesis using assms unfolding Plus by (rule construct_refines(3))
qed

text \<open>C29: Strings are lists of characters.  Any sequence of constructions, copies, assignments, appends, reservations, exchanges
  and destructions of string objects returns, stays in its blocks and gives every object the list of characters that the list
  operations give; every block in use belongs to one object, so none is leaked, shared or freed twice.  An
  object is not appended to itself, and lengths are at most 2^30.\<close>

theorem strings_refine:
  assumes "abs_run ops (\<lambda>_. None) = Some m"
  shows "\<exists>e h. str_run ops (\<lambda>_. None, no_blocks) = Some (e, h) \<and> represents e h m"
proof -
  have "\<exists>e' h'. str_run ops (e, h) = Some (e', h') \<and> represents e' h' m" if "represents e h m0" "abs_run ops m0 = Some m" for e h m0
    using that
  proof (induction ops arbitrary: e h m0)
    case (Cons op ops)
    obtain m1 where m1: "abs_step op m0 = Some m1" "abs_run ops m1 = Some m" using Cons.prems(2) by (auto simp: bind_eq_Some_conv)
    obtain e1 h1 where "str_step op (e, h) = Some (e1, h1)" "represents e1 h1 m1"
      using str_step_refines [OF Cons.prems(1) m1(1)] by (auto simp: refines_def)
    then show ?case using Cons.IH m1(2) by simp
  qed simp
  moreover have "represents (\<lambda>_. None) no_blocks (\<lambda>_. None)"
    by (simp add: represents_def blocks_ok_def no_blocks_def)
  ultimately show ?thesis using assms by blast
qed

theorem strings_refine_witness:
  "\<exists>e h. str_run [Make 0 ''ab'', Copy 1 0, Append 0 1, Plus 2 0 1, Assign 1 2, Destroy 0] (\<lambda>_. None, no_blocks) = Some (e, h) \<and>
    represents e h ([1 \<mapsto> ''ababab'', 2 \<mapsto> ''ababab''])"
proof (rule strings_refine)
  show "abs_run [Make 0 ''ab'', Copy 1 0, Append 0 1, Plus 2 0 1, Assign 1 2, Destroy 0] (\<lambda>_. None) =
      Some [1 \<mapsto> ''ababab'', 2 \<mapsto> ''ababab'']"
    by (simp add: within_def MAX_LEN_def fun_eq_iff)
qed

section \<open>Reading\<close>

lemma holds_str:
  assumes "has_string h p s"
  obtains r junk where "block h p = Some r" "r_size r = length s" "r_str r = map Some (s @ [NULL_CHAR]) @ junk"
proof -
  obtain r where r: "block h p = Some r" "r_size r = length s" "take (length s + 1) (r_str r) = map Some (s @ [NULL_CHAR])"
    using assms by (auto simp: has_string_def)
  have "r_str r = map Some (s @ [NULL_CHAR]) @ drop (length s + 1) (r_str r)" unfolding r(3) [symmetric] by simp
  then show ?thesis using that r(1,2) by blast
qed

lemma scan_c_terminated: "NULL_CHAR \<notin> set s \<Longrightarrow> scan_c (map Some s @ Some NULL_CHAR # junk) = Some s"
  by (induction s) auto

lemma str_c_holds: "has_string h p s \<Longrightarrow> NULL_CHAR \<notin> set s \<Longrightarrow> str_c p h = Some s"
  by (rule holds_str) (auto simp: str_c_def the_block_def scan_c_terminated)

lemma find_loop_finds:
  "NULL_CHAR \<notin> set s \<Longrightarrow> find_loop c i (map Some s @ Some NULL_CHAR # junk) =
    Some (find (\<lambda>j. s ! (j - i) = c) [i..<i + length s])"
proof (induction s arbitrary: i)
  case (Cons d s)
  have "find (\<lambda>j. (d # s) ! (j - i) = c) [Suc i..<Suc i + length s] = find (\<lambda>j. s ! (j - Suc i) = c) [Suc i..<Suc i + length s]"
  proof (rule find_cong [OF refl])
    fix j
    assume "j \<in> set [Suc i..<Suc i + length s]"
    then have "Suc i \<le> j" unfolding set_upt by simp
    then have "j - i = Suc (j - Suc i)" by simp
    then show "(d # s) ! (j - i) = c \<longleftrightarrow> s ! (j - Suc i) = c" by simp
  qed
  moreover have nn: "NULL_CHAR \<notin> set s" using Cons.prems by simp
  moreover have "d \<noteq> NULL_CHAR" using Cons.prems by auto
  then have "find_loop c i (map Some (d # s) @ Some NULL_CHAR # junk) =
      (if d = c then Some (Some i) else find_loop c (Suc i) (map Some s @ Some NULL_CHAR # junk))"
    by simp
  moreover have "[i..<i + length (d # s)] = i # [Suc i..<Suc i + length s]" by (simp add: upt_conv_Cons del: upt_Suc)
  ultimately show ?case using Cons.IH [of "Suc i"] nn by (simp del: upt_Suc find_loop.simps)
qed simp

text \<open>Lexicographic order of unsigned characters.\<close>

definition before :: "(char \<times> char) set" where
  "before = {(c, d). (of_char c :: nat) < of_char d}"

lemma str_compare_order: "str_compare s t = (if s = t then 0 else if (s, t) \<in> lexord before then -1 else 1)"
proof (induction s t rule: str_compare.induct)
  case (4 c s d t)
  have "(of_char c :: nat) = of_char d \<longleftrightarrow> c = d" by simp
  then show ?case using 4 by (auto simp: before_def)
qed (simp_all add: before_def)

text \<open>Strings are read as they are.  For objects that hold strings without null characters, \<^verbatim>\<open>c_str\<close>, the operators \<open>[]\<close>,
  \<open>==\<close> and \<open><\<close>, with another object or a terminated string, and \<^verbatim>\<open>find\<close> give what they give for the lists: the list, a
  character, equality, the lexicographic order of unsigned characters, and the first index from the offset on.\<close>

theorem strings_read:
  assumes "has_string h p s" and "has_string h q t" and "NULL_CHAR \<notin> set s" and "NULL_CHAR \<notin> set t"
  shows "str_c p h = Some s \<and> char_at p i h = (if i < length s then Some (s ! i) else None) \<and>
    str_equal p q h = Some (s = t) \<and> str_less p q h = Some ((s, t) \<in> lexord before) \<and> str_equal_c p t h = Some (s = t) \<and>
    str_find c i p h = Some (find (\<lambda>j. s ! j = c) [i..<length s])"
proof -
  obtain r junk where r: "block h p = Some r" "r_size r = length s" "r_str r = map Some (s @ [NULL_CHAR]) @ junk"
    by (rule holds_str [OF assms(1)])
  note cs = str_c_holds [OF assms(1,3)] str_c_holds [OF assms(2,4)]
  have "char_at p i h = (if i < length s then Some (s ! i) else None)"
    using r by (simp add: char_at_def the_block_def nth_append)
  moreover have "str_find c i p h = Some (find (\<lambda>j. s ! j = c) [i..<length s])"
  proof (cases "i < length s")
    case True
    have n: "NULL_CHAR \<notin> set (drop i s)" using assms(3) by (meson in_set_dropD)
    have "find (\<lambda>j. drop i s ! (j - i) = c) [i..<length s] = find (\<lambda>j. s ! j = c) [i..<length s]"
      by (rule find_cong [OF refl]) (use True in simp)
    moreover have "drop i (r_str r) = map Some (drop i s) @ Some NULL_CHAR # junk" using True by (simp add: r(3) drop_map)
    ultimately show ?thesis using find_loop_finds [OF n, of c i junk] True r(1,2) by (simp add: str_find_def the_block_def)
  next
    case False
    then show ?thesis using r(1,2) by (simp add: str_find_def the_block_def)
  qed
  moreover have "str_equal p q h = Some (s = t)"
    using cs holds_length [OF assms(1)] holds_length [OF assms(2)] by (auto simp: str_equal_def str_compare_order)
  moreover have "str_less p q h = Some ((s, t) \<in> lexord before)"
    using cs lexord_irreflexive [of before t] by (auto simp: str_less_def str_compare_order) (simp add: before_def)
  ultimately show ?thesis using cs by (simp add: str_equal_c_def str_compare_order)
qed

text \<open>Two strings, \<open>abc\<close> and the empty one.\<close>

definition two_strings :: blocks where
  "two_strings =
     \<lparr>block = (\<lambda>_. None)(0 := Some nullrep, 1 := Some \<lparr>r_size = 3, r_capacity = 3,
        r_str = [Some (CHR ''a''), Some (CHR ''b''), Some (CHR ''c''), Some NULL_CHAR, None, None, None, None]\<rparr>),
      fresh_block = 2\<rparr>"

lemma two_strings_hold: "has_string two_strings 1 ''abc''" "has_string two_strings 0 []"
  by (simp_all add: has_string_def two_strings_def MAX_LEN_def nullrep_def)

theorem strings_read_witness:
  "str_equal 1 0 two_strings = Some False \<and> str_find (CHR ''c'') 1 1 two_strings = Some (Some 2)"
proof -
  have "NULL_CHAR \<notin> set ''abc''" "NULL_CHAR \<notin> set []" by (simp_all add: NULL_CHAR_def)
  from strings_read [OF two_strings_hold this, of 1 "CHR ''c''"] show ?thesis by (simp add: upt_conv_Cons)
qed

text \<open>An object that is appended to itself and has no room left reads the block that was just freed.\<close>

lemma append_self_dangles:
  assumes "blocks_ok h" and "has_string h p s" and "p \<noteq> 0" and "the (capacity p h) < length s + length s"
    and "length s + length s \<le> MAX_LEN"
  shows "append_str p p h = None"
proof -
  obtain r where r: "block h p = Some r" "length s \<le> r_capacity r" using assms(2) by (auto simp: has_string_def)
  have c: "capacity p h = Some (r_capacity r)" by (simp add: capacity_def the_block_def r(1))
  have n: "size_t (length s + length s) = length s + length s" using assms(5) by (simp add: size_t_def MAX_LEN_def)
  have cap: "length s + length s + r_capacity r \<le> 2 * MAX_LEN" using assms(4,5) c by simp
  then have n2: "size_t (length s + length s + r_capacity r) = length s + length s + r_capacity r"
    by (simp add: size_t_def MAX_LEN_def)
  obtain q h1 where q: "reserve p (length s + length s + r_capacity r) h = Some (q, h1)" "moved p h q h1"
      "the (capacity p h) < length s + length s + r_capacity r \<Longrightarrow> q \<noteq> p"
    using reserve_string [OF assms(1,2) cap] by metis
  have "the (capacity p h) < length s + length s + r_capacity r" using assms(4) c by (cases s) simp_all
  then have "q \<noteq> p" by (rule q(3))
  then have "block h1 p = None" using q(2) assms(3) by (simp add: moved_def)
  then have "read_bytes (Inside p 0) (length s) h1 = None" by (simp add: read_bytes_def the_block_def)
  then show ?thesis
    using assms(4) c q(1) holds_length [OF assms(2)] by (simp add: append_str_def str_append_def n n2 Let_def)
qed

lemma append_self_example: "append_str 1 1 two_strings = None"
  by (rule append_self_dangles [OF _ two_strings_hold(1)])
    (simp_all add: two_strings_def blocks_ok_def MAX_LEN_def capacity_def the_block_def)

end
