(* ===== verification/Service.thy ===== *)
theory Service
  imports DmXml
begin

text \<open>
  The services: the log file of both (\<^verbatim>\<open>HMSyncPlatformServer/server.cpp\<close>, \<^verbatim>\<open>HMSupervisonServer/supervision.cpp\<close>), their
  calls to the service manager of Windows, and the loop that supervises the synchronisation server.
\<close>

section \<open>The log file\<close>

text \<open>The file as it is on the disk, and the stream to it: its position, if it is open.\<close>

record log_file =
  lf_text :: string
  lf_stream :: "nat option"

definition LOG_MAX_SIZE :: nat where "LOG_MAX_SIZE = 128"

text \<open>A text stream of Windows writes two characters for a line end.\<close>

definition on_disk :: "string \<Rightarrow> string" where
  "on_disk s = concat (map (\<lambda>c. if c = CHR 0x0A then [CHR 0x0D, CHR 0x0A] else [c]) s)"

definition overwrite :: "nat \<Rightarrow> string \<Rightarrow> string \<Rightarrow> string" where
  "overwrite i bytes old = take i old @ bytes @ drop (i + length bytes) old"

text \<open>\<^verbatim>\<open>i_Write\<close>, with whether \<^verbatim>\<open>fopen\<close> and \<^verbatim>\<open>fwrite\<close> succeed; \<open>None\<close> when a null stream is used.\<close>

definition reopen :: "bool \<Rightarrow> log_file \<Rightarrow> log_file option" where
  "reopen open_ok f = (if open_ok then Some (f\<lparr>lf_stream := Some 0\<rparr>) else None)"

definition i_Write :: "bool \<Rightarrow> bool \<Rightarrow> string \<Rightarrow> log_file \<Rightarrow> log_file option" where
  "i_Write open_ok write_ok log f =
     do {
       f1 \<leftarrow> (if lf_stream f = None then reopen open_ok f else Some f);
       pos \<leftarrow> lf_stream f1;
       f2 \<leftarrow> (if write_ok \<and> log \<noteq> []
             then Some (f1\<lparr>lf_text := overwrite pos (on_disk log) (lf_text f1),
                           lf_stream := Some (pos + length (on_disk log))\<rparr>)
             else reopen open_ok f1);
       size \<leftarrow> lf_stream f2;
       Some (if LOG_MAX_SIZE * 1024 \<le> size then f2\<lparr>lf_stream := Some 0\<rparr> else f2)
     }"

record tm =
  tm_year :: nat
  tm_mon :: nat
  tm_mday :: nat
  tm_hour :: nat
  tm_min :: nat
  tm_sec :: nat

definition padded :: "nat \<Rightarrow> nat \<Rightarrow> string" where
  "padded w n = replicate (w - length (show_nat n)) (CHR ''0'') @ show_nat n"

definition timestamp :: "tm \<Rightarrow> string" where
  "timestamp t =
     padded 4 (tm_year t + 1900) @ ''-'' @ padded 2 (tm_mon t + 1) @ ''-'' @ padded 2 (tm_mday t) @ '' '' @
     padded 2 (tm_hour t) @ '':'' @ padded 2 (tm_min t) @ '':'' @ padded 2 (tm_sec t) @ '' ->'' @ '' ''"

definition log_line :: "tm \<Rightarrow> string \<Rightarrow> string" where
  "log_line t buf = timestamp t @ buf @ [CHR 0x0A]"

definition log_write :: "bool \<Rightarrow> bool \<Rightarrow> tm \<Rightarrow> string \<Rightarrow> log_file \<Rightarrow> log_file option" where
  "log_write open_ok write_ok t buf f = i_Write open_ok write_ok (log_line t buf) f"

text \<open>\<^verbatim>\<open>WriteToLog\<close> of the supervision, with the formatted message: \<^verbatim>\<open>vsnprintf\<close> leaves a longer one without an end.\<close>

definition WriteToLog :: "bool \<Rightarrow> bool \<Rightarrow> tm \<Rightarrow> string \<Rightarrow> log_file \<Rightarrow> log_file option" where
  "WriteToLog open_ok write_ok t msg f =
     (if length msg < 1024 then log_write open_ok write_ok t msg f else None)"

section \<open>The service manager\<close>

text \<open>What the manager answers to the \<open>n\<close>th call: success, the error code, and the state that \<^verbatim>\<open>QueryServiceStatus\<close>
  stores, if it does.\<close>

record scm_env =
  succeeds :: "nat \<Rightarrow> bool"
  error_code :: "nat \<Rightarrow> nat"
  reported :: "nat \<Rightarrow> nat option"

datatype request = Create_Service string | Start_Service | Stop_Service | Delete_Service

text \<open>The handles that are open, what was asked of the manager, and the messages for the log.\<close>

record scm =
  sc_calls :: nat
  sc_fresh :: nat
  sc_open :: "nat list"
  sc_requests :: "request list"
  sc_log :: "string list"

definition ERROR_SERVICE_DOES_NOT_EXIST :: nat where "ERROR_SERVICE_DOES_NOT_EXIST = 1060"
definition SERVICE_STOPPED :: nat where "SERVICE_STOPPED = 1"
definition SERVICE_START_PENDING :: nat where "SERVICE_START_PENDING = 2"
definition SERVICE_RUNNING :: nat where "SERVICE_RUNNING = 4"

definition SERVER_NAME :: string where "SERVER_NAME = ''HMSyncPlatformServer''"

text \<open>\<^verbatim>\<open>OpenSCManager\<close>, \<^verbatim>\<open>OpenService\<close> and \<^verbatim>\<open>CreateService\<close> give a handle or null.\<close>

definition sc_handle :: "scm_env \<Rightarrow> scm \<Rightarrow> nat option \<times> scm" where
  "sc_handle E s =
     (if succeeds E (sc_calls s)
      then (Some (sc_fresh s), s\<lparr>sc_calls := sc_calls s + 1, sc_fresh := sc_fresh s + 1, sc_open := sc_fresh s # sc_open s\<rparr>)
      else (None, s\<lparr>sc_calls := sc_calls s + 1\<rparr>))"

definition CloseServiceHandle :: "nat \<Rightarrow> scm \<Rightarrow> scm" where
  "CloseServiceHandle h s = s\<lparr>sc_open := remove1 h (sc_open s)\<rparr>"

definition ask :: "request \<Rightarrow> scm \<Rightarrow> scm" where
  "ask r s = s\<lparr>sc_calls := sc_calls s + 1, sc_requests := sc_requests s @ [r]\<rparr>"

definition note_log :: "string \<Rightarrow> scm \<Rightarrow> scm" where
  "note_log m s = s\<lparr>sc_log := sc_log s @ [m]\<rparr>"

text \<open>\<^verbatim>\<open>QueryServiceStatus\<close>: when it fails, the status keeps what it held, here \<open>old\<close>.\<close>

definition query_status :: "scm_env \<Rightarrow> nat \<Rightarrow> scm \<Rightarrow> nat \<times> scm" where
  "query_status E old s =
     ((case reported E (sc_calls s) of None \<Rightarrow> old | Some v \<Rightarrow> v), s\<lparr>sc_calls := sc_calls s + 1\<rparr>)"

section \<open>Supervision\<close>

definition CheckNotServer :: "scm_env \<Rightarrow> scm \<Rightarrow> bool \<times> scm" where
  "CheckNotServer E s =
     (case sc_handle E s of
        (None, s1) \<Rightarrow> (False, s1)
      | (Some m, s1) \<Rightarrow>
          (case sc_handle E s1 of
             (None, s2) \<Rightarrow>
               if error_code E (sc_calls s1) = ERROR_SERVICE_DOES_NOT_EXIST
               then (True, CloseServiceHandle m (note_log (SERVER_NAME @ '' Not Exist'') s2))
               else (False, CloseServiceHandle m s2)
           | (Some svc, s2) \<Rightarrow> (False, CloseServiceHandle m s2)))"

definition CreateServer :: "scm_env \<Rightarrow> string \<Rightarrow> scm \<Rightarrow> scm" where
  "CreateServer E path s =
     (case sc_handle E s of
        (None, s1) \<Rightarrow> s1
      | (Some m, s1) \<Rightarrow>
          (case sc_handle E (s1\<lparr>sc_requests := sc_requests s1 @ [Create_Service path]\<rparr>) of
             (None, s2) \<Rightarrow> CloseServiceHandle m s2
           | (Some svc, s2) \<Rightarrow> CloseServiceHandle m (CloseServiceHandle svc (note_log (''Create '' @ SERVER_NAME) s2))))"

text \<open>The pattern of the other operations: open the manager and the service, do something, close both.\<close>

definition with_service :: "scm_env \<Rightarrow> (scm \<Rightarrow> scm) \<Rightarrow> scm \<Rightarrow> scm" where
  "with_service E act s =
     (case sc_handle E s of
        (None, s1) \<Rightarrow> s1
      | (Some m, s1) \<Rightarrow>
          (case sc_handle E s1 of
             (None, s2) \<Rightarrow> CloseServiceHandle m s2
           | (Some svc, s2) \<Rightarrow> CloseServiceHandle m (CloseServiceHandle svc (act s2))))"

text \<open>The status is a local variable that nothing initialises; \<open>old\<close> is what it holds.\<close>

definition stop_running :: "scm_env \<Rightarrow> nat \<Rightarrow> scm \<Rightarrow> scm" where
  "stop_running E old s =
     (let (v, s1) = query_status E old s in if v = SERVICE_RUNNING then ask Stop_Service s1 else s1)"

definition DeleteServer :: "scm_env \<Rightarrow> nat \<Rightarrow> scm \<Rightarrow> scm" where
  "DeleteServer E old = with_service E (\<lambda>s. ask Delete_Service (stop_running E old s))"

definition StartServer :: "scm_env \<Rightarrow> scm \<Rightarrow> scm" where
  "StartServer E = with_service E (ask Start_Service)"

definition StopServer :: "scm_env \<Rightarrow> nat \<Rightarrow> scm \<Rightarrow> scm" where
  "StopServer E old = with_service E (stop_running E old)"

definition GetServerStatus :: "scm_env \<Rightarrow> nat \<Rightarrow> scm \<Rightarrow> nat \<times> scm" where
  "GetServerStatus E old s =
     (case sc_handle E s of
        (None, s1) \<Rightarrow> (old, s1)
      | (Some m, s1) \<Rightarrow>
          (case sc_handle E s1 of
             (None, s2) \<Rightarrow> (old, CloseServiceHandle m s2)
           | (Some svc, s2) \<Rightarrow>
               let (v, s3) = query_status E old s2 in (v, CloseServiceHandle m (CloseServiceHandle svc s3))))"

text \<open>\<^verbatim>\<open>CheckOneProcess\<close>, with the names and numbers of the processes, if there is a snapshot.\<close>

definition process_line :: "nat \<Rightarrow> string" where
  "process_line n = SERVER_NAME @ ''.exe'' @ '' ProcessID  = '' @ show_nat n @ '' Running'' @ [CHR 0x0A]"

fun scan_processes :: "(string \<times> nat) list \<Rightarrow> bool \<Rightarrow> scm \<Rightarrow> bool \<times> scm" where
  "scan_processes [] is_run s = (is_run, s)"
| "scan_processes ((exe, n) # ps) is_run s =
     (if exe = SERVER_NAME @ ''.exe'' then scan_processes ps True (note_log (process_line n) s)
      else scan_processes ps is_run s)"

definition CheckOneProcess :: "scm_env \<Rightarrow> nat \<Rightarrow> (string \<times> nat) list option \<Rightarrow> scm \<Rightarrow> scm" where
  "CheckOneProcess E old snapshot s =
     (case snapshot of
        None \<Rightarrow> s
      | Some ps \<Rightarrow> let (is_run, s1) = scan_processes ps False s in if is_run then s1 else StopServer E old s1)"

text \<open>One turn of the loop in \<^verbatim>\<open>Server\<close>.\<close>

definition supervise_turn :: "scm_env \<Rightarrow> nat \<Rightarrow> string \<Rightarrow> (string \<times> nat) list option \<Rightarrow> scm \<Rightarrow> scm" where
  "supervise_turn E old path snapshot s =
     (let (missing, s1) = CheckNotServer E s;
          s2 = (if missing then CreateServer E path s1 else s1);
          (v, s3) = GetServerStatus E old s2;
          s4 = (if v \<noteq> SERVICE_RUNNING \<and> v \<noteq> SERVICE_START_PENDING then StartServer E s3 else s3)
      in CheckOneProcess E old snapshot s4)"

text \<open>The loop: the turns made before \<^verbatim>\<open>brun\<close> is false, each with the processes it finds.\<close>

definition server_path :: "string \<Rightarrow> string" where
  "server_path exe = rev (dropWhile (\<lambda>c. c \<noteq> CHR 0x5C) (rev exe)) @ SERVER_NAME"

fun supervise :: "scm_env \<Rightarrow> nat \<Rightarrow> string \<Rightarrow> (string \<times> nat) list option list \<Rightarrow> scm \<Rightarrow> scm" where
  "supervise E old exe [] s = s"
| "supervise E old exe (ps # turns) s = supervise E old exe turns (supervise_turn E old (server_path exe) ps s)"

section \<open>Control\<close>

datatype control = Control_Stop | Control_Shutdown | Control_Other

record service =
  brun :: bool
  dwCurrentState :: nat
  told :: "nat list"

text \<open>\<^verbatim>\<open>SetServiceStatus\<close> tells the manager the state.\<close>

definition SetServiceStatus :: "service \<Rightarrow> service" where
  "SetServiceStatus v = v\<lparr>told := told v @ [dwCurrentState v]\<rparr>"

definition CtrlHandler :: "control \<Rightarrow> service \<Rightarrow> service" where
  "CtrlHandler r v =
     SetServiceStatus
       (case r of
          Control_Stop \<Rightarrow> v\<lparr>brun := False, dwCurrentState := SERVICE_STOPPED\<rparr>
        | Control_Shutdown \<Rightarrow> v\<lparr>brun := False, dwCurrentState := SERVICE_STOPPED\<rparr>
        | Control_Other \<Rightarrow> v)"

text \<open>\<^verbatim>\<open>ServiceMain\<close>: the state when \<^verbatim>\<open>Server\<close> begins, which the handler changes while it runs, and what the manager
  was asked and the log was told at the end.\<close>

definition start_messages :: "string \<Rightarrow> nat \<Rightarrow> nat \<Rightarrow> string list" where
  "start_messages title availmb processID =
     [replicate 20 (CHR ''*'') @ title @ replicate 28 (CHR ''*''), ''Available Memory is '' @ show_nat availmb @ ''MB'',
      ''Current Process ID '' @ show_nat processID, replicate 52 (CHR ''*'')]"

definition begin_service :: "bool \<Rightarrow> service \<Rightarrow> service" where
  "begin_service registered v =
     (let v1 = v\<lparr>dwCurrentState := SERVICE_START_PENDING\<rparr> in
      if registered then (SetServiceStatus (v1\<lparr>dwCurrentState := SERVICE_RUNNING\<rparr>))\<lparr>brun := True\<rparr> else v1)"

definition ServiceMain ::
  "scm_env \<Rightarrow> nat \<Rightarrow> string \<Rightarrow> (string \<times> nat) list option list \<Rightarrow> bool \<Rightarrow> nat \<Rightarrow> nat \<Rightarrow> service \<Rightarrow> scm \<Rightarrow> service \<times> scm" where
  "ServiceMain E old exe turns registered availmb processID v s =
     (begin_service registered v,
      if \<not> registered then note_log ''RegisterServiceCtrlHandler failed'' s
      else note_log ''service stopped'' (note_log ''stop server...''
             (supervise E old exe turns (fold note_log (start_messages ''Super Server'' availmb processID) s))))"

end
