(* ===== verification/SyncConfig.thy ===== *)
theory SyncConfig
  imports SyncDb Service
begin

text \<open>
  The synchronisation server around its sessions: the configuration (\<^verbatim>\<open>ParseCfg.cpp\<close>), the start and the accepting thread
  (\<^verbatim>\<open>SyncServer.cpp\<close>), the task that would report to the platform (with \<^verbatim>\<open>LoginPlat\<close> of \<^verbatim>\<open>SMUSync.cpp\<close>), and the service
  (\<^verbatim>\<open>server.cpp\<close>).
\<close>

section \<open>Configuration\<close>

record sync_config =
  c_server_ip :: string
  c_server_port :: "16 word"
  c_db :: DBConnectInfo

text \<open>What \<^verbatim>\<open>fread\<close> gives of a file opened as text: one character for a line end, nothing from a control-Z on.\<close>

fun text_read :: "string \<Rightarrow> string" where
  "text_read [] = []"
| "text_read (c # s) =
     (if c = CHR 0x1A then []
      else if c = CHR 0x0D \<and> s \<noteq> [] \<and> hd s = CHR 0x0A then text_read s
      else c # text_read s)"

text \<open>\<^verbatim>\<open>xml.GetRoot()->FindElement(section)->FindElement(name)\<close>, and the value there.\<close>

definition find_setting :: "string \<Rightarrow> string \<Rightarrow> dmxml \<Rightarrow> dmxml option" where
  "find_setting part name x = do { x1 \<leftarrow> GetRoot x; x2 \<leftarrow> FindElement part x1; FindElement name x2 }"

text \<open>One block of \<^verbatim>\<open>ReadCfg\<close>: the value is stored and the next block follows, or the function returns false.\<close>

definition text_setting ::
  "string \<Rightarrow> string \<Rightarrow> (string \<Rightarrow> sync_config \<Rightarrow> sync_config) \<Rightarrow>
     (dmxml \<Rightarrow> sync_config \<Rightarrow> (bool \<times> sync_config) option) \<Rightarrow> dmxml \<Rightarrow> sync_config \<Rightarrow> (bool \<times> sync_config) option" where
  "text_setting part name store further x c =
     do {
       x1 \<leftarrow> find_setting part name x;
       t \<leftarrow> GetValueText x1;
       (case t of None \<Rightarrow> Some (False, c) | Some v \<Rightarrow> further x1 (store v c))
     }"

definition int_setting ::
  "string \<Rightarrow> string \<Rightarrow> (int \<Rightarrow> sync_config \<Rightarrow> sync_config) \<Rightarrow>
     (dmxml \<Rightarrow> sync_config \<Rightarrow> (bool \<times> sync_config) option) \<Rightarrow> dmxml \<Rightarrow> sync_config \<Rightarrow> (bool \<times> sync_config) option" where
  "int_setting part name store further x c =
     do {
       x1 \<leftarrow> find_setting part name x;
       i \<leftarrow> GetValueInt x1;
       if i = 0 then Some (False, c) else further x1 (store i c)
     }"

definition read_settings :: "dmxml \<Rightarrow> sync_config \<Rightarrow> (bool \<times> sync_config) option" where
  "read_settings =
     text_setting ''DB'' ''Server'' (\<lambda>v c. c\<lparr>c_db := (c_db c)\<lparr>i_server := v\<rparr>\<rparr>) (
     text_setting ''DB'' ''Database'' (\<lambda>v c. c\<lparr>c_db := (c_db c)\<lparr>i_database_name := v\<rparr>\<rparr>) (
     text_setting ''DB'' ''UserID'' (\<lambda>v c. c\<lparr>c_db := (c_db c)\<lparr>i_dbms_user_name := v\<rparr>\<rparr>) (
     text_setting ''DB'' ''Password'' (\<lambda>v c. c\<lparr>c_db := (c_db c)\<lparr>i_dbms_user_pwd := v\<rparr>\<rparr>) (
     text_setting ''DB'' ''DataSource'' (\<lambda>v c. c\<lparr>c_db := (c_db c)\<lparr>i_server_ip := v\<rparr>\<rparr>) (
     int_setting ''DB'' ''Port'' (\<lambda>i c. c\<lparr>c_db := (c_db c)\<lparr>i_server_port := word_of_int i\<rparr>\<rparr>) (
     text_setting ''SyncServer'' ''IP'' (\<lambda>v c. c\<lparr>c_server_ip := v\<rparr>) (
     int_setting ''SyncServer'' ''Port'' (\<lambda>i c. c\<lparr>c_server_port := word_of_int i\<rparr>) (
     \<lambda>x c. Some (True, c)))))))))"

text \<open>The decoder of OpenSSL is an argument; what it gives is cut to the buffer of 4096, which must keep a null character.
  \<open>None\<close>: a value is read through a null pointer, or behind the buffer.\<close>

definition ReadCfg :: "(string \<Rightarrow> string) \<Rightarrow> string option \<Rightarrow> sync_config \<Rightarrow> (bool \<times> sync_config) option" where
  "ReadCfg base64_decode file c =
     (case file of
        None \<Rightarrow> Some (False, c)
      | Some data \<Rightarrow>
          if length (text_read data) \<noteq> length data then Some (False, c)
          else (let buf = takeWhile (\<lambda>d. d \<noteq> CHR 0x00) (take 4096 (base64_decode data)) in
                if length buf = 4096 then None
                else do { (_, x) \<leftarrow> Decode buf new_DMXml; read_settings x c }))"

definition GetServerInfo :: "sync_config \<Rightarrow> string \<times> 16 word" where
  "GetServerInfo c = (c_server_ip c, c_server_port c)"

definition GetDBInfo :: "sync_config \<Rightarrow> DBConnectInfo" where
  "GetDBInfo c = c_db c"

section \<open>The server\<close>

text \<open>The threads a task starts; those of the sessions are in \<open>SyncDb\<close>.\<close>

datatype sync_task = Connect_Task | Session_Task

definition sync_Run :: "sync_config \<Rightarrow> nat option \<Rightarrow> scm \<Rightarrow> bool \<times> sync_task list \<times> scm" where
  "sync_Run c listen_error s =
     (case listen_error of
        None \<Rightarrow> (True, [Connect_Task], s)
      | Some err \<Rightarrow>
          (False, [], note_log (c_server_ip c @ '':'' @ show_nat (unat (c_server_port c)) @ '' server fail , err = '' @ show_nat err) s))"

definition HandleConnectTask :: "bool \<Rightarrow> sync_task list" where
  "HandleConnectTask accepted = (if accepted then [Connect_Task, Session_Task] else [Connect_Task])"

text \<open>\<^verbatim>\<open>StopServer\<close> of this program, with the same code as that of the supervision.\<close>

definition sync_StopServer :: "scm_env \<Rightarrow> nat \<Rightarrow> scm \<Rightarrow> scm" where
  "sync_StopServer E old = with_service E (stop_running E old)"

text \<open>\<^verbatim>\<open>Server\<close>: the connection to the database, the listening socket, and the loop that sleeps while \<^verbatim>\<open>brun\<close> is set, here for
  the values it finds.  The result: whether it got to the loop, how often it slept, and the threads started.\<close>

definition nap_loop :: "bool list \<Rightarrow> nat" where
  "nap_loop bs = length (takeWhile (\<lambda>b. b) bs)"

definition sync_Server ::
  "scm_env \<Rightarrow> nat \<Rightarrow> sync_config \<Rightarrow> bool \<Rightarrow> nat option \<Rightarrow> bool list \<Rightarrow> scm \<Rightarrow> (bool \<times> nat \<times> sync_task list) \<times> scm" where
  "sync_Server E old c db_ok listen_error bs s =
     (let s1 = note_log ''Connect DB....'' s in
      if \<not> db_ok then ((False, 0, []), note_log ''Connect DB Fail, Please Check Cfg'' (sync_StopServer E old s1))
      else let s2 = note_log ''begin server...'' (note_log ''Connect DB Scuess'' s1);
               (flag, tasks, s3) = sync_Run c listen_error s2
           in if \<not> flag then ((False, 0, []), note_log ''Server Run Fail, Please Check Cfg'' s3)
              else ((True, nap_loop bs, tasks), note_log ''Server Run OK'' s3))"

section \<open>Reports to the platform\<close>

text \<open>The message built by \<^verbatim>\<open>LoginPlat\<close>, which is not sent.\<close>

definition platform_message :: "string \<Rightarrow> string \<Rightarrow> string option" where
  "platform_message user pwd =
     do {
       x1 \<leftarrow> NewRoot ''soap:Envelope'' new_DMXml;
       x2 \<leftarrow> SetTextAttribute ''xmlns:soap'' ''http://www.w3.org/2003/05/soap-envelope'' x1;
       x3 \<leftarrow> SetTextAttribute ''xmlns:xsi'' ''http://www.w3.org/2001/XMLSchema-instance'' x2;
       x4 \<leftarrow> SetTextAttribute ''xmlns:xsd'' ''http://www.w3.org/2001/XMLSchema'' x3;
       x5 \<leftarrow> SetTextAttribute ''xmlns:soapenc'' ''http://schemas.xmlsoap.org/soap/encoding/'' x4;
       x6 \<leftarrow> NewChild ''soap:Body'' None x5;
       x7 \<leftarrow> NewChild ''Authenticate'' None x6;
       x8 \<leftarrow> SetTextAttribute ''xmlns'' ''http://see1000.com/service'' x7;
       x9 \<leftarrow> NewChild ''name'' (Some user) x8;
       x10 \<leftarrow> GetParent x9;
       x11 \<leftarrow> NewChild ''pass'' (Some pwd) x10;
       Some (Encode x11)
     }"

text \<open>\<^verbatim>\<open>LoginPlat\<close>: the result, and what is written, with the results of \<^verbatim>\<open>st_write\<close> and \<^verbatim>\<open>st_read\<close>.\<close>

definition LoginPlat :: "string \<Rightarrow> string \<Rightarrow> int \<Rightarrow> int \<Rightarrow> (bool \<times> string) option" where
  "LoginPlat user pwd wrote got =
     do {
       body \<leftarrow> platform_message user pwd;
       let msg = '''';
       Some (if wrote < 0 then (True, msg) else if got < 0 then (False, msg) else (True, msg))
     }"

definition SendUserStateToPlat :: "string \<Rightarrow> bool" where
  "SendUserStateToPlat user = False"

text \<open>The sockets of the task that are open, and how often it slept.\<close>

record platform =
  p_open :: nat
  p_slept :: nat

definition platform_turn :: "string \<Rightarrow> string \<Rightarrow> bool \<times> int \<times> int \<Rightarrow> platform \<Rightarrow> platform option" where
  "platform_turn user pwd r p =
     (case r of
        (connected, wrote, got) \<Rightarrow>
          if \<not> connected then Some p
          else do {
            let p1 = p\<lparr>p_open := p_open p + 1\<rparr>;
            (ok, _) \<leftarrow> LoginPlat user pwd wrote got;
            Some (if \<not> ok then p1
                  else if \<not> SendUserStateToPlat '''' then p1
                  else p1\<lparr>p_open := p_open p1 - 1, p_slept := p_slept p1 + 1\<rparr>)
          })"

fun UpdateUserInfoToPlatTask :: "string \<Rightarrow> string \<Rightarrow> (bool \<times> int \<times> int) list \<Rightarrow> platform \<Rightarrow> platform option" where
  "UpdateUserInfoToPlatTask user pwd [] p = Some p"
| "UpdateUserInfoToPlatTask user pwd (r # rs) p =
     Option.bind (platform_turn user pwd r p) (UpdateUserInfoToPlatTask user pwd rs)"

section \<open>The service\<close>

text \<open>What \<^verbatim>\<open>server.cpp\<close> does otherwise than the supervision: any failure counts as a missing service, and \<^verbatim>\<open>CreateServer\<close>
  looks for it first.\<close>

definition sync_CheckNotServer :: "scm_env \<Rightarrow> scm \<Rightarrow> bool \<times> scm" where
  "sync_CheckNotServer E s =
     (case sc_handle E s of
        (None, s1) \<Rightarrow> (False, s1)
      | (Some m, s1) \<Rightarrow>
          (case sc_handle E s1 of
             (None, s2) \<Rightarrow> (True, CloseServiceHandle m (note_log ''Create Server...'' s2))
           | (Some svc, s2) \<Rightarrow> (False, CloseServiceHandle m s2)))"

definition sync_CreateServer :: "scm_env \<Rightarrow> string \<Rightarrow> scm \<Rightarrow> scm" where
  "sync_CreateServer E path s =
     (let (missing, s0) = sync_CheckNotServer E s in
      if \<not> missing then s0
      else (case sc_handle E s0 of
              (None, s1) \<Rightarrow> s1
            | (Some m, s1) \<Rightarrow>
                (case sc_handle E (s1\<lparr>sc_requests := sc_requests s1 @ [Create_Service path]\<rparr>) of
                   (None, s2) \<Rightarrow> CloseServiceHandle m s2
                 | (Some svc, s2) \<Rightarrow> CloseServiceHandle m (CloseServiceHandle svc s2))))"

definition sync_StartServer :: "scm_env \<Rightarrow> scm \<Rightarrow> scm" where
  "sync_StartServer E = with_service E (ask Start_Service)"

definition sync_DeleteServer :: "scm_env \<Rightarrow> nat \<Rightarrow> scm \<Rightarrow> scm" where
  "sync_DeleteServer E old = with_service E (\<lambda>s. ask Delete_Service (stop_running E old s))"

definition InstallServer :: "scm_env \<Rightarrow> string \<Rightarrow> scm \<Rightarrow> scm" where
  "InstallServer E path s = sync_StartServer E (sync_CreateServer E path s)"

definition config_path :: "string \<Rightarrow> string" where
  "config_path exe = rev (dropWhile (\<lambda>c. c \<noteq> CHR 0x5C) (rev exe)) @ ''server.xcfg''"

definition InitServer :: "(string \<Rightarrow> string) \<Rightarrow> (string \<Rightarrow> string option) \<Rightarrow> string \<Rightarrow> sync_config \<Rightarrow> (bool \<times> sync_config) option" where
  "InitServer base64_decode files exe c = ReadCfg base64_decode (files (config_path exe)) c"

text \<open>\<^verbatim>\<open>WriteToLog\<close> of this build prints the line.\<close>

definition sync_WriteToLog :: "tm \<Rightarrow> string \<Rightarrow> string option" where
  "sync_WriteToLog t msg = (if length msg < 2048 then Some (log_line t msg @ [CHR 0x0A]) else None)"

record sync_service = service +
  STOP_SERVER :: bool

definition sync_CtrlHandler :: "control \<Rightarrow> sync_service \<Rightarrow> sync_service" where
  "sync_CtrlHandler r v =
     (let v1 = (case r of
                  Control_Stop \<Rightarrow> v\<lparr>brun := False, STOP_SERVER := True, dwCurrentState := SERVICE_STOPPED\<rparr>
                | Control_Shutdown \<Rightarrow> v\<lparr>brun := False, dwCurrentState := SERVICE_STOPPED\<rparr>
                | Control_Other \<Rightarrow> v)
      in v1\<lparr>told := told v1 @ [dwCurrentState v1]\<rparr>)"

text \<open>\<^verbatim>\<open>ServiceMain\<close> of this program.\<close>

definition sync_ServiceMain ::
  "scm_env \<Rightarrow> nat \<Rightarrow> sync_config \<Rightarrow> bool \<Rightarrow> nat option \<Rightarrow> bool list \<Rightarrow> bool \<Rightarrow> nat \<Rightarrow> nat \<Rightarrow> service \<Rightarrow> scm \<Rightarrow>
     service \<times> scm" where
  "sync_ServiceMain E old c db_ok listen_error bs registered availmb processID v s =
     (begin_service registered v,
      if \<not> registered then note_log ''RegisterServiceCtrlHandler failed'' s
      else note_log ''service stopped'' (note_log ''stop server...''
             (snd (sync_Server E old c db_ok listen_error bs
               (fold note_log (start_messages ''Sync Server'' availmb processID) s)))))"

end
