(* ===== verification/SyncConfigProps.thy ===== *)
theory SyncConfigProps
  imports SyncConfig XmlFileProps
begin

text \<open>
  A configuration is read as it was written, the server always accepts, and what the reports to the platform do.
\<close>

section \<open>Configuration\<close>

text \<open>The document a configuration is written as.\<close>

definition setting :: "string \<Rightarrow> string \<Rightarrow> xnode" where
  "setting name v = XNode (TINYXML_ELEMENT []) name [new_text v]"

definition config_xml :: "sync_config \<Rightarrow> xnode" where
  "config_xml c =
     (let d = c_db c in
      XNode (TINYXML_ELEMENT []) ''Config''
        [XNode (TINYXML_ELEMENT []) ''DB''
           [setting ''Server'' (i_server d), setting ''Database'' (i_database_name d), setting ''UserID'' (i_dbms_user_name d),
            setting ''Password'' (i_dbms_user_pwd d), setting ''DataSource'' (i_server_ip d),
            setting ''Port'' (show_nat (unat (i_server_port d)))],
         XNode (TINYXML_ELEMENT []) ''SyncServer''
           [setting ''IP'' (c_server_ip c), setting ''Port'' (show_nat (unat (c_server_port c)))]])"

definition good_config :: "sync_config \<Rightarrow> bool" where
  "good_config c =
     (let d = c_db c in
      (\<forall>v \<in> {i_server d, i_database_name d, i_dbms_user_name d, i_dbms_user_pwd d, i_server_ip d, c_server_ip c}.
         good_text ENC_UTF8 v) \<and>
      i_server_port d \<noteq> 0 \<and> c_server_port c \<noteq> 0)"

lemma digits_good:
  assumes "\<forall>c \<in> set s. is_digit c" and "s \<noteq> []"
  shows "good_text ENC_UTF8 s"
proof -
  have "name_char c" if "is_digit c" for c
    using that by (auto simp: name_char_def IsAlphaNum_def)
  then have "no_ref s" using name_plain assms(1) by (simp add: list_all_iff)
  moreover have "one_byte ENC_UTF8 c" if "is_digit c" for c
    using that by (auto simp: one_byte_def utf8_bytes_def is_digit_def)
  moreover have "single_spaces w s" if "w \<longrightarrow> s \<noteq> []" for w
    using that assms(1)
  proof (induction s arbitrary: w)
    case (Cons c s)
    have "c \<noteq> CHR '' ''" using Cons.prems(2) by (auto simp: is_digit_def)
    then show ?case using Cons.IH [of False] Cons.prems(2) by simp
  qed simp
  moreover have "\<not> Blank s"
    using assms digit_char by (cases s) (auto simp: Blank_def)
  ultimately show ?thesis using assms by (auto simp: good_text_def good_value_def)
qed

lemma show_nat_good: "good_text ENC_UTF8 (show_nat n)"
  using digits_good show_nat_digits by blast

lemma setting_good: "good_text ENC_UTF8 v \<Longrightarrow> good_name ENC_UTF8 name \<Longrightarrow> good_element ENC_UTF8 (setting name v)"
  by (simp add: setting_def new_text_def simple_text_def good_attributes_def)

lemma config_good:
  assumes "good_config c"
  shows "good_element ENC_UTF8 (config_xml c)"
proof -
  have n: "good_name ENC_UTF8 n"
    if "n \<in> {''Config'', ''DB'', ''Server'', ''Database'', ''UserID'', ''Password'', ''DataSource'', ''Port'', ''SyncServer'', ''IP''}" for n
    using that by (auto simp: good_name_def one_byte_def utf8_bytes_def ascii_defs)
  have s: "simple_text (setting a v # xs) = False" "simple_text (XNode (TINYXML_ELEMENT as) m cs # xs) = False" for a v xs as m cs
    by (cases xs; simp add: simple_text_def setting_def)+
  show ?thesis
    using assms n setting_good show_nat_good
    by (simp add: config_xml_def good_config_def Let_def s good_attributes_def)
qed

lemma port_read:
  assumes "w \<noteq> 0"
  shows "atoi (show_nat (unat w)) = int (unat w)" and "uint w \<noteq> 0" and "word_of_int (int (unat w)) = (w :: 16 word)"
proof -
  have "uint w < 65536" using unsigned_less [of w] by simp
  then have "int (unat w) < 2 ^ 31" by simp
  then show "atoi (show_nat (unat w)) = int (unat w)" by (rule atoi_show_nat)
  show "uint w \<noteq> 0" using assms by (simp add: uint_0_iff)
  show "word_of_int (int (unat w)) = w" by simp
qed

text \<open>Where the settings are in the document.\<close>

definition config_doc :: "sync_config \<Rightarrow> xnode" where
  "config_doc c = XNode TINYXML_DOCUMENT [] [decl_node, config_xml c]"

lemma find_setting_at:
  assumes "m_Doc x = config_doc c"
    and "find_child (\<lambda>y. nvalue y = part) 0 (children (config_xml c)) = Some i"
    and "find_child (\<lambda>y. nvalue y = name) 0 (children (children (config_xml c) ! i)) = Some j"
    and "i < length (children (config_xml c))"
  shows "find_setting part name x = Some (x\<lparr>m_pnode := At [1, i, j], m_pre_pnode := At [1, i, j]\<rparr>)"
proof -
  have root: "is_element (config_xml c)" "\<not> is_element decl_node"
    by (simp_all add: config_xml_def decl_node_def Let_def is_element_def)
  show ?thesis
    using assms
    by (simp add: find_setting_def GetRoot_def FirstChildElement_def config_doc_def root to_ptr_def FindElement_def follow_def
        FirstChild_def Let_def)
qed

lemma text_setting_at:
  assumes "m_Doc x = config_doc c" and "find_setting part name x = Some (x\<lparr>m_pnode := At q, m_pre_pnode := At q\<rparr>)"
    and "node_at q (config_doc c) = Some (setting name v)"
  shows "text_setting part name store further x c0 = further (x\<lparr>m_pnode := At q, m_pre_pnode := At q\<rparr>) (store v c0)"
    and "int_setting part name istore further x c0 =
      (if atoi v = 0 then Some (False, c0) else further (x\<lparr>m_pnode := At q, m_pre_pnode := At q\<rparr>) (istore (atoi v) c0))"
proof -
  let ?x1 = "x\<lparr>m_pnode := At q, m_pre_pnode := At q\<rparr>"
  have "follow_element ?x1 = Some (q, setting name v)"
    using assms(1,3) by (simp add: follow_element_def follow_def setting_def is_element_def)
  moreover have "GetText (setting name v) = Some v" by (simp add: setting_def GetText_def new_text_def is_text_def)
  ultimately have "GetValueText ?x1 = Some (Some v)" "GetValueInt ?x1 = Some (atoi v)"
    by (simp_all add: GetValueText_def GetValueInt_def)
  then show "text_setting part name store further x c0 = further ?x1 (store v c0)"
    "int_setting part name istore further x c0 = (if atoi v = 0 then Some (False, c0) else further ?x1 (istore (atoi v) c0))"
    using assms(2) by (simp_all add: text_setting_def int_setting_def)
qed

text \<open>The paths of the eight settings.\<close>

lemma config_paths:
  assumes "m_Doc x = config_doc c"
  shows "find_setting ''DB'' ''Server'' x = Some (x\<lparr>m_pnode := At [1, 0, 0], m_pre_pnode := At [1, 0, 0]\<rparr>)"
    and "find_setting ''DB'' ''Database'' x = Some (x\<lparr>m_pnode := At [1, 0, 1], m_pre_pnode := At [1, 0, 1]\<rparr>)"
    and "find_setting ''DB'' ''UserID'' x = Some (x\<lparr>m_pnode := At [1, 0, 2], m_pre_pnode := At [1, 0, 2]\<rparr>)"
    and "find_setting ''DB'' ''Password'' x = Some (x\<lparr>m_pnode := At [1, 0, 3], m_pre_pnode := At [1, 0, 3]\<rparr>)"
    and "find_setting ''DB'' ''DataSource'' x = Some (x\<lparr>m_pnode := At [1, 0, 4], m_pre_pnode := At [1, 0, 4]\<rparr>)"
    and "find_setting ''DB'' ''Port'' x = Some (x\<lparr>m_pnode := At [1, 0, 5], m_pre_pnode := At [1, 0, 5]\<rparr>)"
    and "find_setting ''SyncServer'' ''IP'' x = Some (x\<lparr>m_pnode := At [1, 1, 0], m_pre_pnode := At [1, 1, 0]\<rparr>)"
    and "find_setting ''SyncServer'' ''Port'' x = Some (x\<lparr>m_pnode := At [1, 1, 1], m_pre_pnode := At [1, 1, 1]\<rparr>)"
  by (rule find_setting_at [OF assms]; simp add: config_xml_def setting_def Let_def eval_nat_numeral)+

lemma config_nodes:
  fixes c :: sync_config
  defines "d \<equiv> c_db c"
  shows "node_at [1, 0, 0] (config_doc c) = Some (setting ''Server'' (i_server d))"
    and "node_at [1, 0, 1] (config_doc c) = Some (setting ''Database'' (i_database_name d))"
    and "node_at [1, 0, 2] (config_doc c) = Some (setting ''UserID'' (i_dbms_user_name d))"
    and "node_at [1, 0, 3] (config_doc c) = Some (setting ''Password'' (i_dbms_user_pwd d))"
    and "node_at [1, 0, 4] (config_doc c) = Some (setting ''DataSource'' (i_server_ip d))"
    and "node_at [1, 0, 5] (config_doc c) = Some (setting ''Port'' (show_nat (unat (i_server_port d))))"
    and "node_at [1, 1, 0] (config_doc c) = Some (setting ''IP'' (c_server_ip c))"
    and "node_at [1, 1, 1] (config_doc c) = Some (setting ''Port'' (show_nat (unat (c_server_port c))))"
  by (simp_all add: config_doc_def config_xml_def d_def Let_def eval_nat_numeral)

text \<open>C30: The configuration is read as it was written.  If the file decodes to the printed document of a configuration whose texts
  survive in XML and whose ports are not 0, if no line end of it is changed and it fits the buffer, then \<^verbatim>\<open>ReadCfg\<close> returns true and
  holds this configuration, whatever it held before.\<close>

theorem config_read:
  assumes "good_config c" and "base64_decode data = xml_print (config_doc c)" and "length (base64_decode data) < 4096"
    and "text_read data = data"
  shows "ReadCfg base64_decode (Some data) c0 = Some (True, c)"
proof -
  have good: "good_element ENC_UTF8 (config_xml c)" by (rule config_good [OF assms(1)])
  have "CHR 0x00 \<notin> set (base64_decode data)"
    using printed_plain [OF good] assms(2) by (simp add: plain_def NUL_def config_doc_def)
  then have buf: "takeWhile (\<lambda>d. d \<noteq> CHR 0x00) (base64_decode data) = base64_decode data"
    by (auto simp: takeWhile_eq_all_conv)
  obtain x where x: "Decode (base64_decode data) new_DMXml = Some (Some [], x)" "m_Doc x = config_doc c"
    using document_parsed [OF good] assms(2) by (simp add: Decode_def config_doc_def)
  have ports: "i_server_port (c_db c) \<noteq> 0" "c_server_port c \<noteq> 0" using assms(1) by (simp_all add: good_config_def Let_def)
  have d: "m_Doc (y\<lparr>m_pnode := a, m_pre_pnode := b\<rparr>) = config_doc c" if "m_Doc y = config_doc c" for y a b using that by simp
  note at = text_setting_at [OF _ config_paths(1) config_nodes(1)] text_setting_at [OF _ config_paths(2) config_nodes(2)]
    text_setting_at [OF _ config_paths(3) config_nodes(3)] text_setting_at [OF _ config_paths(4) config_nodes(4)]
    text_setting_at [OF _ config_paths(5) config_nodes(5)] text_setting_at [OF _ config_paths(6) config_nodes(6)]
    text_setting_at [OF _ config_paths(7) config_nodes(7)] text_setting_at [OF _ config_paths(8) config_nodes(8)]
  have "read_settings x c0 = Some (True, c)"
    by (simp add: read_settings_def at x(2) port_read [OF ports(1)] port_read [OF ports(2)])
  then show ?thesis using assms(3,4) x(1) by (simp add: ReadCfg_def buf Let_def)
qed

definition sample_config :: sync_config where
  "sample_config =
     \<lparr>c_server_ip = ''10.0.0.1'', c_server_port = 8,
      c_db = \<lparr>i_server = ''db'', i_server_ip = ''10.0.0.2'', i_database_name = ''hm'', i_dbms_user_name = ''sa'',
        i_dbms_user_pwd = ''a & b'', i_server_port = 7\<rparr>\<rparr>"

theorem config_read_witness:
  "ReadCfg (\<lambda>_. xml_print (config_doc sample_config)) (Some ''PD94'') (sample_config\<lparr>c_server_ip := []\<rparr>) = Some (True, sample_config)"
proof (rule config_read)
  show good: "good_config sample_config"
    by (simp add: good_config_def sample_config_def good_text_def good_value_def Blank_def IsWhiteSpace_def one_byte_def
        utf8_bytes_def ascii_defs no_ref_def is_ref_def drop_Cons split: nat.split)
  have "config_xml sample_config = XNode (TINYXML_ELEMENT []) ''Config''
      [XNode (TINYXML_ELEMENT []) ''DB''
         [setting ''Server'' ''db'', setting ''Database'' ''hm'', setting ''UserID'' ''sa'', setting ''Password'' ''a & b'',
          setting ''DataSource'' ''10.0.0.2'', setting ''Port'' ''7''],
       XNode (TINYXML_ELEMENT []) ''SyncServer'' [setting ''IP'' ''10.0.0.1'', setting ''Port'' ''8'']]"
    by (simp add: config_xml_def sample_config_def Let_def show_nat.simps [of 7] show_nat.simps [of 8] digit_def char_of_def bit_0)
  moreover have "elements_only (config_xml sample_config)" by (rule good_elements_only [OF config_good [OF good]])
  ultimately show "length (xml_print (config_doc sample_config)) < 4096"
    using document_printed [of "config_xml sample_config"]
    by (simp add: config_doc_def setting_def new_text_def simple_text_def EncodeString.simps encode_char_def is_ref_def
        attrs_print_def shown_attributes_def indentation_def line_break_def decl_print_def decl_item_def)
qed simp_all

section \<open>Accepting\<close>

text \<open>The tasks that are waiting: the accepting one, which takes a connection or fails to, and the sessions, which end.\<close>

inductive sync_tasks :: "sync_task list \<Rightarrow> bool" where
  started: "sync_tasks (fst (snd (sync_Run c None s)))"
| accepting: "sync_tasks (xs @ Connect_Task # ys) \<Longrightarrow> sync_tasks (xs @ ys @ HandleConnectTask accepted)"
| session_ends: "sync_tasks (xs @ Session_Task # ys) \<Longrightarrow> sync_tasks (xs @ ys)"

text \<open>The server always accepts.  Once it runs, whatever connections come and however accepting them ends, there is exactly one
  task that accepts.\<close>

theorem always_accepting: "sync_tasks ts \<Longrightarrow> length (filter (\<lambda>t. t = Connect_Task) ts) = 1"
  by (induction rule: sync_tasks.induct) (auto simp: sync_Run_def HandleConnectTask_def)

theorem always_accepting_witness:
  "length (filter (\<lambda>t. t = Connect_Task) [Connect_Task, Session_Task]) = 1"
proof (rule always_accepting)
  have "sync_tasks ([] @ Connect_Task # [])" using sync_tasks.started by (simp add: sync_Run_def)
  from sync_tasks.accepting [OF this, of True] show "sync_tasks [Connect_Task, Session_Task]" by (simp add: HandleConnectTask_def)
qed

section \<open>Reports\<close>

lemma platform_message_built: "platform_message user pwd \<noteq> None"
  by (simp add: platform_message_def NewRoot_def ClearDoc_def new_DMXml_def new_document_def LinkEndChild_def link_child_def
      new_element_def new_text_def to_ptr_def deleted_def SetTextAttribute_def SetAttribute_def find_attribute_def follow_element_def
      follow_def NewChild_def GetParent_def Parent_def set_attributes_def attributes_of_def is_element_def Let_def)

text \<open>The task that should report to the platform never gets behind \<^verbatim>\<open>SendUserStateToPlat\<close>: each connection it makes stays open, and
  it never sleeps.\<close>

lemma platform_task:
  "UpdateUserInfoToPlatTask user pwd rs p =
    Some (p\<lparr>p_open := p_open p + length (filter (\<lambda>(connected, _). connected) rs)\<rparr>)"
proof (induction rs arbitrary: p)
  case (Cons r rs)
  obtain connected wrote got where r: "r = (connected, wrote, got)" by (cases r)
  have "LoginPlat user pwd wrote got = Some (wrote < 0 \<or> 0 \<le> got, [])"
    using platform_message_built [of user pwd] by (cases "platform_message user pwd") (auto simp: LoginPlat_def Let_def)
  then have "platform_turn user pwd r p = Some (if connected then p\<lparr>p_open := p_open p + 1\<rparr> else p)"
    by (simp add: platform_turn_def r SendUserStateToPlat_def Let_def)
  then show ?case using Cons.IH by (simp add: r)
qed simp

text \<open>A port above 65535 is taken modulo 65536, and a setting that is missing ends the process when a number is expected of it.\<close>

lemma config_port_wraps: "word_of_int 65616 = (80 :: 16 word)"
  by simp

text \<open>A configuration file with line ends of Windows is refused: fewer characters are read than the file has.\<close>

lemma config_line_ends: "ReadCfg dec (Some (s @ [CHR 0x0D, CHR 0x0A])) c = Some (False, c)"
proof -
  have "length (text_read t) \<le> length t" for t by (induction t rule: text_read.induct) auto
  then have "length (text_read (s @ [CHR 0x0D, CHR 0x0A])) < length (s @ [CHR 0x0D, CHR 0x0A])"
  proof (induction s)
    case (Cons a s)
    then show ?case by auto
  qed simp
  then show ?thesis by (simp add: ReadCfg_def)
qed

end
