(* ===== verification/ServiceProps.thy ===== *)
theory ServiceProps
  imports Service
begin

text \<open>
  The log file stays small, the supervision asks for what the states require, and which handles it leaves open.
\<close>

section \<open>The log file\<close>

text \<open>The writes of a run: whether the file can be opened and written, the time and the message.\<close>

type_synonym log_entry = "bool \<times> bool \<times> tm \<times> string"

fun log_run :: "log_entry list \<Rightarrow> log_file \<Rightarrow> log_file option" where
  "log_run [] f = Some f"
| "log_run ((open_ok, write_ok, t, msg) # es) f = Option.bind (WriteToLog open_ok write_ok t msg f) (log_run es)"

definition entry_bytes :: "log_entry \<Rightarrow> string" where
  "entry_bytes e = on_disk (log_line (fst (snd (snd e))) (snd (snd (snd e))))"

definition new_log :: log_file where
  "new_log = \<lparr>lf_text = [], lf_stream = None\<rparr>"

definition log_ok :: "nat \<Rightarrow> log_file \<Rightarrow> bool" where
  "log_ok m f =
     (length (lf_text f) < LOG_MAX_SIZE * 1024 + m \<and>
      (\<forall>p. lf_stream f = Some p \<longrightarrow> p < LOG_MAX_SIZE * 1024 \<and> p \<le> length (lf_text f)))"

lemma overwrite_length: "i \<le> length old \<Longrightarrow> length (overwrite i bytes old) = max (length old) (i + length bytes)"
  by (simp add: overwrite_def max_def)

lemma overwrite_there: "i \<le> length old \<Longrightarrow> take (length bytes) (drop i (overwrite i bytes old)) = bytes"
  by (simp add: overwrite_def)

lemma write_line:
  assumes "log_ok m f" and "i_Write open_ok write_ok log f = Some f'" and "length (on_disk log) \<le> m"
  shows "log_ok m f' \<and> (write_ok \<and> log \<noteq> [] \<longrightarrow> (\<exists>i. take (length (on_disk log)) (drop i (lf_text f')) = on_disk log))"
proof -
  define pos where "pos = (case lf_stream f of None \<Rightarrow> 0 | Some p \<Rightarrow> p)"
  have p: "pos < LOG_MAX_SIZE * 1024" "pos \<le> length (lf_text f)"
    using assms(1) by (auto simp: pos_def log_ok_def LOG_MAX_SIZE_def split: option.splits)
  show ?thesis
  proof (cases "write_ok \<and> log \<noteq> []")
    case True
    then have t: "lf_text f' = overwrite pos (on_disk log) (lf_text f)"
        "lf_stream f' = Some (if LOG_MAX_SIZE * 1024 \<le> pos + length (on_disk log) then 0 else pos + length (on_disk log))"
      using assms(2) by (auto simp: i_Write_def reopen_def pos_def split: option.splits if_splits)
    have "log_ok m f'"
      using assms(1,3) p by (auto simp: log_ok_def t overwrite_length LOG_MAX_SIZE_def)
    moreover have "take (length (on_disk log)) (drop pos (lf_text f')) = on_disk log"
      unfolding t by (rule overwrite_there [OF p(2)])
    ultimately show ?thesis by blast
  next
    case False
    then have "lf_text f' = lf_text f" "lf_stream f' = Some 0"
      using assms(2) by (auto simp: i_Write_def reopen_def LOG_MAX_SIZE_def split: option.splits if_splits)
    then show ?thesis using False assms(1) by (auto simp: log_ok_def LOG_MAX_SIZE_def)
  qed
qed

text \<open>C32: The log file does not grow.  Whatever is written, and whatever opening and writing return, the file is never longer than
  128 KB and one line, and the last line that was written stands in it complete.\<close>

theorem log_bounded:
  assumes "\<And>e. e \<in> set (es @ [last_entry]) \<Longrightarrow> length (entry_bytes e) \<le> m" and "0 < m"
    and "log_run (es @ [last_entry]) new_log = Some f"
  shows "length (lf_text f) < LOG_MAX_SIZE * 1024 + m \<and>
    (fst (snd last_entry) \<longrightarrow> (\<exists>i. take (length (entry_bytes last_entry)) (drop i (lf_text f)) = entry_bytes last_entry))"
proof -
  have "log_ok m f' \<and>
      (es = [] \<or> \<not> fst (snd (last es)) \<or> (\<exists>i. take (length (entry_bytes (last es))) (drop i (lf_text f')) = entry_bytes (last es)))"
    if "\<And>e. e \<in> set es \<Longrightarrow> length (entry_bytes e) \<le> m" "log_ok m f" "log_run es f = Some f'" for es f f'
    using that
  proof (induction es arbitrary: f)
    case (Cons e es)
    obtain open_ok write_ok t msg where e: "e = (open_ok, write_ok, t, msg)" by (cases e)
    obtain f1 where f1: "WriteToLog open_ok write_ok t msg f = Some f1" "log_run es f1 = Some f'"
      using Cons.prems(3) by (auto simp: e bind_eq_Some_conv)
    then have w: "i_Write open_ok write_ok (log_line t msg) f = Some f1"
      by (auto simp: WriteToLog_def log_write_def split: if_splits)
    have len: "length (on_disk (log_line t msg)) \<le> m" using Cons.prems(1) [of e] by (simp add: e entry_bytes_def)
    note step = write_line [OF Cons.prems(2) w len]
    show ?case
    proof (cases "es = []")
      case True
      then show ?thesis using step f1(2) by (auto simp: e entry_bytes_def log_line_def)
    next
      case False
      then show ?thesis using Cons.IH [of f1] Cons.prems(1) step f1(2) by simp
    qed
  qed simp
  from this [OF assms(1) _ assms(3)] show ?thesis
    using assms(2) by (auto simp: log_ok_def new_log_def LOG_MAX_SIZE_def)
qed

definition first_entry :: log_entry where
  "first_entry = (True, True, \<lparr>tm_year = 112, tm_mon = 2, tm_mday = 9, tm_hour = 8, tm_min = 5, tm_sec = 0\<rparr>, ''up'')"

lemma first_entry_bytes: "entry_bytes first_entry = ''2012-03-09 08:05:00 -> up'' @ [CHR 0x0D, CHR 0x0A]"
  by code_simp

theorem log_bounded_witness:
  "\<exists>f. log_run [first_entry] new_log = Some f \<and> length (lf_text f) < LOG_MAX_SIZE * 1024 + 28 \<and>
    (\<exists>i. take (length (entry_bytes first_entry)) (drop i (lf_text f)) = entry_bytes first_entry)"
proof -
  have "log_run [first_entry] new_log \<noteq> None"
    by (simp add: first_entry_def WriteToLog_def log_write_def i_Write_def reopen_def new_log_def log_line_def)
  then obtain f where f: "log_run ([] @ [first_entry]) new_log = Some f" by auto
  have "fst (snd first_entry)" by (simp add: first_entry_def)
  moreover have "length (entry_bytes e) \<le> 28" if "e \<in> set ([] @ [first_entry])" for e
    using that by (simp add: first_entry_bytes)
  ultimately show ?thesis using log_bounded [of "[]" first_entry 28, OF _ _ f] f by simp
qed

section \<open>Supervision\<close>

text \<open>A call that gives a handle, and one that does not.\<close>

lemma sc_handle_cases:
  "succeeds E (sc_calls s) \<Longrightarrow> sc_handle E s =
     (Some (sc_fresh s), s\<lparr>sc_calls := sc_calls s + 1, sc_fresh := sc_fresh s + 1, sc_open := sc_fresh s # sc_open s\<rparr>)"
  "\<not> succeeds E (sc_calls s) \<Longrightarrow> sc_handle E s = (None, s\<lparr>sc_calls := sc_calls s + 1\<rparr>)"
  by (simp_all add: sc_handle_def)

lemma with_service_open:
  assumes "\<And>s. sc_open (act s) = sc_open s"
  shows "sc_open (with_service E act s) = sc_open s"
  by (cases "succeeds E (sc_calls s)"; cases "succeeds E (sc_calls s + 1)")
    (simp_all add: with_service_def sc_handle_def CloseServiceHandle_def assms)

lemma stop_running_open: "sc_open (stop_running E old s) = sc_open s"
  by (simp add: stop_running_def query_status_def ask_def Let_def)

lemma StartServer_open: "sc_open (StartServer E s) = sc_open s"
  unfolding StartServer_def by (rule with_service_open) (simp add: ask_def)

lemma StopServer_open: "sc_open (StopServer E old s) = sc_open s"
  unfolding StopServer_def by (rule with_service_open) (rule stop_running_open)

lemma CreateServer_open: "sc_open (CreateServer E path s) = sc_open s"
  by (cases "succeeds E (sc_calls s)"; cases "succeeds E (sc_calls s + 1)")
    (simp_all add: CreateServer_def sc_handle_def CloseServiceHandle_def note_log_def)

lemma GetServerStatus_open: "sc_open (snd (GetServerStatus E old s)) = sc_open s"
  by (cases "succeeds E (sc_calls s)"; cases "succeeds E (sc_calls s + 1)")
    (simp_all add: GetServerStatus_def sc_handle_def CloseServiceHandle_def query_status_def split: option.split)

lemma scan_processes_result:
  "fst (scan_processes ps b s) = (b \<or> (\<exists>n. (SERVER_NAME @ ''.exe'', n) \<in> set ps))"
  "sc_open (snd (scan_processes ps b s)) = sc_open s" "sc_requests (snd (scan_processes ps b s)) = sc_requests s"
  "sc_calls (snd (scan_processes ps b s)) = sc_calls s" "sc_fresh (snd (scan_processes ps b s)) = sc_fresh s"
  by (induction ps b s rule: scan_processes.induct) (auto simp: note_log_def)

lemma CheckOneProcess_open: "sc_open (CheckOneProcess E old ps s) = sc_open s"
  using scan_processes_result(2) [of _ False s]
  by (simp add: CheckOneProcess_def Let_def StopServer_open split: option.split prod.split) (metis snd_conv)

text \<open>Whether \<^verbatim>\<open>CheckNotServer\<close> finds the service.\<close>

definition service_found :: "scm_env \<Rightarrow> scm \<Rightarrow> bool" where
  "service_found E s = (succeeds E (sc_calls s) \<and> succeeds E (sc_calls s + 1))"

lemma CheckNotServer_open:
  "sc_open (snd (CheckNotServer E s)) = (if service_found E s then [sc_fresh s + 1] else []) @ sc_open s"
  by (cases "succeeds E (sc_calls s)"; cases "succeeds E (sc_calls s + 1)")
    (simp_all add: CheckNotServer_def sc_handle_def CloseServiceHandle_def note_log_def service_found_def)

lemma supervise_turn_open:
  "sc_open (supervise_turn E old path ps s) = (if service_found E s then [sc_fresh s + 1] else []) @ sc_open s"
  by (simp add: supervise_turn_def Let_def case_prod_beta CheckOneProcess_open StartServer_open GetServerStatus_open
      CreateServer_open CheckNotServer_open)

text \<open>How often the service is found in a run.\<close>

fun times_found :: "scm_env \<Rightarrow> nat \<Rightarrow> string \<Rightarrow> (string \<times> nat) list option list \<Rightarrow> scm \<Rightarrow> nat" where
  "times_found E old exe [] s = 0"
| "times_found E old exe (ps # turns) s =
     (if service_found E s then 1 else 0) + times_found E old exe turns (supervise_turn E old (server_path exe) ps s)"

text \<open>Each turn of the supervision that finds the service leaves its handle open, and nothing else stays open: after any
  number of turns, whatever the service manager answers, there are as many handles more as times the service was found.\<close>

theorem supervision_leaks:
  "length (sc_open (supervise E old exe turns s)) = length (sc_open s) + times_found E old exe turns s"
  by (induction turns arbitrary: s) (simp_all add: supervise_turn_open)

section \<open>What the supervision asks for\<close>

lemma with_service_opened:
  assumes "succeeds E (sc_calls s)" and "succeeds E (sc_calls s + 1)"
    and "\<And>r. sc_requests (act r) = sc_requests r @ f (sc_calls r)" and "\<And>r. sc_calls (act r) = sc_calls r + g (sc_calls r)"
  shows "sc_requests (with_service E act s) = sc_requests s @ f (sc_calls s + 2)"
    and "sc_calls (with_service E act s) = sc_calls s + 2 + g (sc_calls s + 2)"
  using assms by (simp_all add: with_service_def sc_handle_def CloseServiceHandle_def)

definition state_at :: "scm_env \<Rightarrow> nat \<Rightarrow> nat \<Rightarrow> nat" where
  "state_at E old n = (case reported E n of None \<Rightarrow> old | Some v \<Rightarrow> v)"

lemma StartServer_opened:
  assumes "\<And>n. sc_calls s \<le> n \<Longrightarrow> succeeds E n"
  shows "sc_requests (StartServer E s) = sc_requests s @ [Start_Service]" and "sc_calls (StartServer E s) = sc_calls s + 3"
  unfolding StartServer_def
  using with_service_opened [of E s "ask Start_Service" "\<lambda>_. [Start_Service]" "\<lambda>_. 1"] assms by (simp_all add: ask_def)

lemma StopServer_opened:
  assumes "\<And>n. sc_calls s \<le> n \<Longrightarrow> succeeds E n"
  shows "sc_requests (StopServer E old s) =
    sc_requests s @ (if state_at E old (sc_calls s + 2) = SERVICE_RUNNING then [Stop_Service] else [])"
  unfolding StopServer_def
  using with_service_opened(1) [of E s "stop_running E old"
      "\<lambda>n. if state_at E old n = SERVICE_RUNNING then [Stop_Service] else []"
      "\<lambda>n. if state_at E old n = SERVICE_RUNNING then 2 else 1"] assms
  by (simp add: stop_running_def query_status_def ask_def state_at_def Let_def)

lemma GetServerStatus_opened:
  assumes "\<And>n. sc_calls s \<le> n \<Longrightarrow> succeeds E n"
  shows "fst (GetServerStatus E old s) = state_at E old (sc_calls s + 2)"
    and "sc_requests (snd (GetServerStatus E old s)) = sc_requests s" and "sc_calls (snd (GetServerStatus E old s)) = sc_calls s + 3"
  using assms by (simp_all add: GetServerStatus_def sc_handle_def CloseServiceHandle_def query_status_def state_at_def Let_def)

lemma CheckOneProcess_opened:
  assumes "\<And>n. sc_calls s \<le> n \<Longrightarrow> succeeds E n"
  shows "sc_requests (CheckOneProcess E old (Some ps) s) = sc_requests s @
    (if (\<forall>n. (SERVER_NAME @ ''.exe'', n) \<notin> set ps) \<and> state_at E old (sc_calls s + 2) = SERVICE_RUNNING then [Stop_Service] else [])"
proof -
  obtain b s1 where s1: "scan_processes ps False s = (b, s1)" by (cases "scan_processes ps False s")
  then have r: "b \<longleftrightarrow> (\<exists>n. (SERVER_NAME @ ''.exe'', n) \<in> set ps)" "sc_requests s1 = sc_requests s" "sc_calls s1 = sc_calls s"
    using scan_processes_result [of ps False s] by auto
  have "\<And>n. sc_calls s1 \<le> n \<Longrightarrow> succeeds E n" using assms r(3) by simp
  note stop = StopServer_opened [where s = s1 and E = E and old = old, OF this]
  show ?thesis using r stop by (auto simp: CheckOneProcess_def s1)
qed

text \<open>C31: What a turn of the supervision asks for.  If the service does not exist it is created; it is started unless its state is
  running or about to; and if no process of the server is found it is stopped when it claims to run.  The calls
  succeed, except that opening a service fails that does not exist.\<close>

theorem supervision_asks:
  assumes "\<And>n. n \<noteq> sc_calls s + 1 \<Longrightarrow> succeeds E n"
    and "\<not> succeeds E (sc_calls s + 1) \<Longrightarrow> error_code E (sc_calls s + 1) = ERROR_SERVICE_DOES_NOT_EXIST"
    and "n1 = sc_calls s + (if succeeds E (sc_calls s + 1) then 4 else 6)"
    and "start = (state_at E old n1 \<notin> {SERVICE_RUNNING, SERVICE_START_PENDING})"
    and "n2 = n1 + 1 + (if start then 3 else 0) + 2"
  shows "sc_requests (supervise_turn E old path (Some ps) s) = sc_requests s @
    (if succeeds E (sc_calls s + 1) then [] else [Create_Service path]) @
    (if start then [Start_Service] else []) @
    (if (\<forall>n. (SERVER_NAME @ ''.exe'', n) \<notin> set ps) \<and> state_at E old n2 = SERVICE_RUNNING then [Stop_Service] else [])"
proof -
  obtain missing s1 where c: "CheckNotServer E s = (missing, s1)" by (cases "CheckNotServer E s")
  have c1: "missing \<longleftrightarrow> \<not> succeeds E (sc_calls s + 1)" "sc_requests s1 = sc_requests s" "sc_calls s1 = sc_calls s + 2"
    using c assms(1,2) by (auto simp: CheckNotServer_def sc_handle_def CloseServiceHandle_def note_log_def split: if_splits)
  define s2 where "s2 = (if missing then CreateServer E path s1 else s1)"
  have s2: "sc_requests s2 = sc_requests s @ (if missing then [Create_Service path] else [])" "sc_calls s2 + 2 = n1"
    using c1 assms(1,3)
    by (simp_all add: s2_def CreateServer_def sc_handle_def CloseServiceHandle_def note_log_def split: if_splits)
  have ok2: "\<And>n. sc_calls s2 \<le> n \<Longrightarrow> succeeds E n" using assms(1,3) s2(2) by (auto split: if_splits)
  obtain v s3 where g: "GetServerStatus E old s2 = (v, s3)" by (cases "GetServerStatus E old s2")
  have s3: "v = state_at E old n1" "sc_requests s3 = sc_requests s2" "sc_calls s3 = n1 + 1"
    using GetServerStatus_opened [where s = s2 and E = E and old = old, OF ok2] g s2(2) by simp_all
  have ok3: "\<And>n. sc_calls s3 \<le> n \<Longrightarrow> succeeds E n" using ok2 s2(2) s3(3) by simp
  define s4 where "s4 = (if start then StartServer E s3 else s3)"
  have s4: "sc_requests s4 = sc_requests s3 @ (if start then [Start_Service] else [])" "sc_calls s4 + 2 = n2"
    using StartServer_opened [where s = s3 and E = E, OF ok3] s3(3) assms(5) by (simp_all add: s4_def)
  have ok4: "\<And>n. sc_calls s4 \<le> n \<Longrightarrow> succeeds E n" using ok3 s3(3) s4(2) assms(5) by simp
  have "supervise_turn E old path (Some ps) s = CheckOneProcess E old (Some ps) s4"
    using assms(4) by (simp add: supervise_turn_def c g s2_def [symmetric] s3(1) s4_def Let_def)
  then show ?thesis
    using CheckOneProcess_opened [where s = s4 and E = E and old = old and ps = ps, OF ok4] s2(1) s3(2) s4 c1(1) by simp
qed

definition stopped_env :: scm_env where
  "stopped_env = \<lparr>succeeds = (\<lambda>_. True), error_code = (\<lambda>_. 0), reported = (\<lambda>_. Some SERVICE_STOPPED)\<rparr>"

definition first_turn :: scm where
  "first_turn = \<lparr>sc_calls = 0, sc_fresh = 1, sc_open = [], sc_requests = [], sc_log = []\<rparr>"

theorem supervision_asks_witness:
  "sc_requests (supervise_turn stopped_env 0 ''server'' (Some [(''explorer.exe'', 8)]) first_turn) = [Start_Service]"
  by (subst supervision_asks [of first_turn stopped_env 4 True 0 10])
    (simp_all add: stopped_env_def first_turn_def state_at_def SERVICE_STOPPED_def SERVICE_RUNNING_def
      SERVICE_START_PENDING_def)

text \<open>When opening the service fails, the state is what the uninitialised variable holds.\<close>

lemma status_uninitialised: "\<not> succeeds E (sc_calls s) \<Longrightarrow> fst (GetServerStatus E old s) = old"
  by (simp add: GetServerStatus_def sc_handle_def)

end
