(* ===== verification/Resolver.thy ===== *)
theory Resolver
  imports UnixIo
begin

unbundle bit_operations_syntax

text \<open>
  Resolution of host names without blocking the process (\<^verbatim>\<open>examples/res.c\<close>): the query to the name servers, the
  answer, and the order in which domains are tried.  The functions of the resolver library are arguments:
  \<open>skip\<close> is \<^verbatim>\<open>dn_skipname\<close> and \<open>expand\<close> is \<^verbatim>\<open>dn_expand\<close>, which get a buffer, its end and a position in it and give a
  length, or -1.
\<close>

section \<open>Answers\<close>

type_synonym byte = "8 word"

text \<open>The codes of \<^verbatim>\<open>netdb.h\<close>; \<^verbatim>\<open>NETDB_INTERNAL\<close> means that \<^verbatim>\<open>errno\<close> tells more.\<close>

datatype h_errno = NETDB_INTERNAL | HOST_NOT_FOUND | TRY_AGAIN | NO_RECOVERY | NO_DATA

definition MAXPACKET :: nat where "MAXPACKET = 1024"
definition HFIXEDSZ :: int where "HFIXEDSZ = 12"
definition QFIXEDSZ :: int where "QFIXEDSZ = 4"
definition T_CNAME :: nat where "T_CNAME = 5"
definition IN_ADDR_LEN :: nat where "IN_ADDR_LEN = 4"

text \<open>Two bytes in network order; \<open>None\<close> outside the buffer.\<close>

definition getshort :: "byte list \<Rightarrow> int \<Rightarrow> nat option" where
  "getshort buf p =
     (if 0 \<le> p \<and> p + 1 < int (length buf)
      then Some (256 * unat (buf ! nat p) + unat (buf ! nat (p + 1))) else None)"

definition header_short :: "byte list \<Rightarrow> nat \<Rightarrow> nat" where
  "header_short buf i = 256 * unat (buf ! i) + unat (buf ! (i + 1))"

definition query_id :: "byte list \<Rightarrow> nat" where "query_id buf = header_short buf 0"
definition rcode :: "byte list \<Rightarrow> nat" where "rcode buf = unat (buf ! 3) mod 16"
definition qdcount :: "byte list \<Rightarrow> nat" where "qdcount buf = header_short buf 4"
definition ancount :: "byte list \<Rightarrow> nat" where "ancount buf = header_short buf 6"

text \<open>What \<^verbatim>\<open>parse_answer\<close> does: the bytes it copies to the address, nothing found, or an access outside the buffer
  or the address, which C leaves open.\<close>

datatype answer = Address "byte list" | No_Address | Out_Of_Bounds

type_synonym dn_fun = "byte list \<Rightarrow> int \<Rightarrow> int \<Rightarrow> int"

fun skip_questions :: "dn_fun \<Rightarrow> byte list \<Rightarrow> int \<Rightarrow> nat \<Rightarrow> int \<Rightarrow> int" where
  "skip_questions skip buf eoa 0 cp = cp"
| "skip_questions skip buf eoa (Suc n) cp = skip_questions skip buf eoa n (cp + skip buf eoa cp + QFIXEDSZ)"

fun scan_answers :: "dn_fun \<Rightarrow> byte list \<Rightarrow> int \<Rightarrow> nat \<Rightarrow> int \<Rightarrow> answer" where
  "scan_answers expand buf eoa 0 cp = No_Address"
| "scan_answers expand buf eoa (Suc k) cp =
     (if \<not> cp < eoa then No_Address
      else if expand buf eoa cp < 0 then No_Address
      else let p = cp + expand buf eoa cp in
           case (getshort buf p, getshort buf (p + 8)) of
             (Some type, Some n) \<Rightarrow>
               if type = T_CNAME then scan_answers expand buf eoa k (p + 10 + int n)
               else if n \<le> IN_ADDR_LEN \<and> p + 10 + int n \<le> int (length buf)
               then Address (take n (drop (nat (p + 10)) buf))
               else Out_Of_Bounds
           | _ \<Rightarrow> Out_Of_Bounds)"

definition parse_answer :: "dn_fun \<Rightarrow> dn_fun \<Rightarrow> byte list \<Rightarrow> int \<Rightarrow> answer" where
  "parse_answer skip expand buf len =
     scan_answers expand buf len (ancount buf) (skip_questions skip buf len (qdcount buf) HFIXEDSZ)"

section \<open>A query\<close>

text \<open>What happens with one name server: the query \<^verbatim>\<open>res_mkquery\<close> makes, the result of \<^verbatim>\<open>st_sendto\<close> and the
  packets \<^verbatim>\<open>st_recvfrom\<close> gives, or its error.\<close>

record server_io =
  made :: "byte list option"
  sent :: "nat sys"
  recvs :: "byte list sys list"

text \<open>A packet overwrites the first bytes of the buffer; the loop ends with the first error, the first empty packet
  or the first whose buffer has the right number.  The result is the length or the error, and the buffer.\<close>

definition store_packet :: "byte list \<Rightarrow> byte list \<Rightarrow> byte list" where
  "store_packet pkt buf = take MAXPACKET pkt @ drop (length (take MAXPACKET pkt)) buf"

fun await_reply :: "nat \<Rightarrow> byte list \<Rightarrow> byte list sys list \<Rightarrow> (nat sys \<times> byte list) option" where
  "await_reply qid buf [] = None"
| "await_reply qid buf (Inl e # rs) = Some (Inl e, buf)"
| "await_reply qid buf (Inr pkt # rs) =
     (let buf' = store_packet pkt buf; len = length (take MAXPACKET pkt) in
      if len = 0 then Some (Inr 0, buf')
      else if qid = query_id buf' then Some (Inr len, buf')
      else await_reply qid buf' rs)"

definition rcode_error :: "nat \<Rightarrow> h_errno" where
  "rcode_error rc = (if rc = 3 then HOST_NOT_FOUND else if rc = 2 then TRY_AGAIN else if rc = 0 then NO_DATA else NO_RECOVERY)"

text \<open>How \<^verbatim>\<open>query_domain\<close> ends: an address, the values of \<^verbatim>\<open>h_errno\<close> and \<^verbatim>\<open>errno\<close>, a step that C leaves open, or
  not at all, because no packet comes any more.\<close>

datatype query_result = Found "byte list" | Failed h_errno int | Open | Waiting

definition codes_of :: "query_result \<Rightarrow> h_errno \<times> int" where
  "codes_of r = (case r of Failed h e \<Rightarrow> (h, e) | _ \<Rightarrow> (NO_DATA, 0))"

text \<open>One name server: the result, if this ends the query, or the buffer on the stack and the codes for the
  next.\<close>

definition query_server ::
  "dn_fun \<Rightarrow> dn_fun \<Rightarrow> server_io \<Rightarrow> byte list \<Rightarrow> h_errno \<times> int \<Rightarrow> query_result + byte list \<times> h_errno \<times> int" where
  "query_server skip expand io buf codes =
     (case made io of
        None \<Rightarrow> Inl (Failed NO_RECOVERY (snd codes))
      | Some q \<Rightarrow>
          let buf1 = store_packet q buf; qid = query_id buf1 in
          if sent io \<noteq> Inr (length q)
          then let e = (case sent io of Inl e \<Rightarrow> e | Inr _ \<Rightarrow> snd codes) in
               if e = EINTR then Inl (Failed NETDB_INTERNAL e) else Inr (buf1, NETDB_INTERNAL, e)
          else case await_reply qid buf1 (recvs io) of
                 None \<Rightarrow> Inl Waiting
               | Some (Inl e, buf2) \<Rightarrow>
                   if e = EINTR then Inl (Failed NETDB_INTERNAL e) else Inr (buf2, NETDB_INTERNAL, e)
               | Some (Inr len, buf2) \<Rightarrow>
                   if int len < HFIXEDSZ then Inr (buf2, NETDB_INTERNAL, EMSGSIZE)
                   else if rcode buf2 \<noteq> 0 \<or> ancount buf2 = 0 then Inr (buf2, rcode_error (rcode buf2), snd codes)
                   else case parse_answer skip expand buf2 (int len) of
                          Address a \<Rightarrow> Inl (Found a)
                        | Out_Of_Bounds \<Rightarrow> Inl Open
                        | No_Address \<Rightarrow> Inr (buf2, TRY_AGAIN, snd codes))"

fun query_servers ::
  "dn_fun \<Rightarrow> dn_fun \<Rightarrow> server_io list \<Rightarrow> byte list \<Rightarrow> h_errno \<times> int \<Rightarrow> query_result" where
  "query_servers skip expand [] buf codes = Failed (fst codes) (snd codes)"
| "query_servers skip expand (io # ios) buf codes =
     (case query_server skip expand io buf codes of
        Inl r \<Rightarrow> r
      | Inr (buf', codes') \<Rightarrow> query_servers skip expand ios buf' codes')"

text \<open>\<^verbatim>\<open>query_domain\<close>: \<open>net\<close> are the name servers for a query, by its number, and \<open>stack\<close> what the buffer holds before.\<close>

definition query_domain ::
  "dn_fun \<Rightarrow> dn_fun \<Rightarrow> (nat \<Rightarrow> string \<Rightarrow> server_io list) \<Rightarrow> (nat \<Rightarrow> byte list) \<Rightarrow> nat \<Rightarrow> string \<Rightarrow> h_errno \<times> int \<Rightarrow>
     query_result" where
  "query_domain skip expand net stack k name codes = query_servers skip expand (net k name) (stack k) codes"

section \<open>Resolving a name\<close>

definition ENOSYS_UNIX :: int where "ENOSYS_UNIX = 38"

definition MAXDNAME :: nat where "MAXDNAME = 1025"

text \<open>\<^verbatim>\<open>_res\<close>: the options, the number of dots and the domains.\<close>

record res_state =
  use_vc :: bool
  defnames :: bool
  dnsrch_on :: bool
  ndots :: nat
  dnsrch :: "string list"

text \<open>\<open>query k name codes\<close> is what the query number \<open>k\<close> for this name gives, with the codes before it.  A search
  through the domains stops when a name is found, when the thread is interrupted, and after the first domain without
  \<^verbatim>\<open>RES_DNSRCH\<close>.  The second result counts the queries.\<close>

type_synonym query = "nat \<Rightarrow> string \<Rightarrow> h_errno \<times> int \<Rightarrow> query_result"

definition stops :: "query_result \<Rightarrow> bool" where
  "stops r = (case r of Failed h e \<Rightarrow> h = NETDB_INTERNAL \<and> e = EINTR | _ \<Rightarrow> True)"

definition domain_fits :: "string \<Rightarrow> string \<Rightarrow> bool" where
  "domain_fits host d \<longleftrightarrow> length host + 1 + length d < MAXDNAME - 1"

fun try_domains :: "query \<Rightarrow> bool \<Rightarrow> string \<Rightarrow> string list \<Rightarrow> nat \<Rightarrow> query_result \<Rightarrow> query_result \<times> bool \<times> nat" where
  "try_domains query srch host [] k r0 = (r0, False, k)"
| "try_domains query srch host (d # ds) k r0 =
     (if \<not> domain_fits host d then (Open, True, k)
      else let r = query k (host @ ''.'' @ d) (codes_of r0) in
           if stops r then (r, True, Suc k)
           else if \<not> srch then (r, False, Suc k)
           else try_domains query srch host ds (Suc k) r)"

text \<open>From the count of the dots to the last query; \<open>r0\<close> stands for \<^verbatim>\<open>h_errno\<close> and \<^verbatim>\<open>errno\<close> before.\<close>

definition dot_count :: "string \<Rightarrow> nat" where
  "dot_count host = length (filter (\<lambda>c. c = CHR ''.'') (take (MAXDNAME - 1) host))"

definition trailing_dot :: "string \<Rightarrow> bool" where
  "trailing_dot host \<longleftrightarrow> last (take (MAXDNAME - 1) host) = CHR ''.''"

definition searches :: "res_state \<Rightarrow> string \<Rightarrow> bool" where
  "searches res host \<longleftrightarrow>
     dot_count host = 0 \<and> defnames res \<or> dot_count host \<noteq> 0 \<and> \<not> trailing_dot host \<and> dnsrch_on res"

definition resolve :: "query \<Rightarrow> res_state \<Rightarrow> string \<Rightarrow> query_result \<Rightarrow> query_result \<times> nat" where
  "resolve query res host r0 =
     (let as_is = ndots res \<le> dot_count host;
          (r1, k1) = (if as_is then (query 0 host (codes_of r0), 1) else (r0, 0))
      in if as_is \<and> stops r1 then (r1, k1)
         else let (r2, ended, k2) = (if searches res host then try_domains query (dnsrch_on res) host (dnsrch res) k1 r1
                                     else (r1, False, k1))
              in if ended then (r2, k2)
                 else if as_is then (r2, k2) else (query k2 host (codes_of r2), Suc k2))"

text \<open>\<^verbatim>\<open>dns_getaddr\<close>: the error of \<^verbatim>\<open>res_init\<close>, if any, the result of \<^verbatim>\<open>socket\<close>, what \<^verbatim>\<open>st_netfd_open_socket\<close> needs, and
  the codes before.  The socket is closed at the end, and \<^verbatim>\<open>errno\<close> is kept.\<close>

definition dns_getaddr ::
  "query \<Rightarrow> res_state \<Rightarrow> int option \<Rightarrow> int sys \<Rightarrow> ptr option \<Rightarrow> bool \<Rightarrow> int option \<Rightarrow>
     string \<Rightarrow> h_errno \<Rightarrow> unix_io \<Rightarrow> (query_result \<times> unix_io) option" where
  "dns_getaddr query res init_err sock mem ioctl_ok fcntl_err host h0 s =
     (case init_err of
        Some e \<Rightarrow> Some (Failed NETDB_INTERNAL e, s)
      | None \<Rightarrow>
          if use_vc res then Some (Failed NETDB_INTERNAL ENOSYS_UNIX, s)
          else if host = [] then Some (Failed HOST_NOT_FOUND (u_errno s), s)
          else case sock of
                 Inl e \<Rightarrow> Some (Failed NETDB_INTERNAL e, s)
               | Inr osfd \<Rightarrow>
                   (case u_netfd_open_socket osfd mem ioctl_ok fcntl_err s of
                      None \<Rightarrow> None
                    | Some (nfd', s1) \<Rightarrow>
                        if nfd' = 0 then Some (Failed NETDB_INTERNAL (u_errno s1), s1\<lparr>u_closed := u_closed s1 @ [osfd]\<rparr>)
                        else let (r, k) = resolve query res host (Failed h0 (u_errno s1)) in
                             map_option (Pair r) (u_netfd_close 2 nfd' s1)))"

end
