(* ===== verification/WebServer.thy ===== *)
theory WebServer
  imports Gateway Service
begin

text \<open>
  The example servers (\<^verbatim>\<open>examples/server.c\<close> and its copy \<^verbatim>\<open>examples/txctl.c\<close>) and their messages
  (\<^verbatim>\<open>examples/error.c\<close>): the options, the limits of the threads, the listening sockets, the watchdog with its
  processes, the signals, and the pool of threads that serves a socket.
\<close>

section \<open>Messages\<close>

definition MAXLINE :: nat where "MAXLINE = 4096"

definition months :: "string list" where
  "months = [''Jan'', ''Feb'', ''Mar'', ''Apr'', ''May'', ''Jun'', ''Jul'', ''Aug'', ''Sep'', ''Oct'', ''Nov'', ''Dec'']"

definition time_text :: "tm \<Rightarrow> string" where
  "time_text t =
     ''['' @ padded 2 (tm_mday t) @ ''/'' @ months ! tm_mon t @ ''/'' @ show_nat (1900 + tm_year t) @ '':'' @
     padded 2 (tm_hour t) @ '':'' @ padded 2 (tm_min t) @ '':'' @ padded 2 (tm_sec t) @ ''] ''"

text \<open>\<^verbatim>\<open>err_tstamp\<close> with its static variables, the text and the second it is for; \<open>localtime\<close> is an argument.\<close>

record stamp =
  st_str :: string
  st_lastt :: int

definition no_stamp :: stamp where "no_stamp = \<lparr>st_str = [], st_lastt = 0\<rparr>"

definition err_tstamp :: "(int \<Rightarrow> tm) \<Rightarrow> int \<Rightarrow> stamp \<Rightarrow> stamp" where
  "err_tstamp localtime currt s =
     (if currt = st_lastt s then s else \<lparr>st_str = time_text (localtime currt), st_lastt = currt\<rparr>)"

text \<open>\<^verbatim>\<open>err_doit\<close> with the formatted message and the text of the error, if it is printed: what is written, and
  \<open>None\<close> when it does not fit into the buffer.\<close>

definition err_doit :: "(int \<Rightarrow> tm) \<Rightarrow> int \<Rightarrow> string \<Rightarrow> string option \<Rightarrow> stamp \<Rightarrow> (string \<times> stamp) option" where
  "err_doit localtime currt msg err s =
     (let s1 = err_tstamp localtime currt s;
          end_text = (case err of None \<Rightarrow> [] | Some e \<Rightarrow> '': '' @ e) @ [CHR 0x0A];
          buf = st_str s1 @ msg @ end_text
      in if length buf < MAXLINE then Some (buf, s1) else None)"

section \<open>Options\<close>

text \<open>\<^verbatim>\<open>getopt\<close>: the options of the arguments, each with its argument; a question mark stands for an option that is not
  known or has no argument.\<close>

fun opt_spec :: "string \<Rightarrow> char \<Rightarrow> bool option" where
  "opt_spec [] c = None"
| "opt_spec (d # ds) c =
     (if c = d \<and> c \<noteq> CHR '':'' then Some (ds \<noteq> [] \<and> hd ds = CHR '':'') else opt_spec ds c)"

fun opt_letters :: "string \<Rightarrow> string \<Rightarrow> string list \<Rightarrow> (char \<times> string) list \<times> string list" where
  "opt_letters spec [] args = ([], args)"
| "opt_letters spec (c # cs) args =
     (case opt_spec spec c of
        Some True \<Rightarrow>
          (if cs \<noteq> [] then ([(c, cs)], args)
           else case args of [] \<Rightarrow> ([(CHR ''?'', [])], []) | a # as \<Rightarrow> ([(c, a)], as))
      | Some False \<Rightarrow> (let (os, r) = opt_letters spec cs args in ((c, []) # os, r))
      | None \<Rightarrow> (let (os, r) = opt_letters spec cs args in ((CHR ''?'', []) # os, r)))"

lemma opt_letters_rest: "length (snd (opt_letters spec cs args)) \<le> length args"
  by (induction spec cs args rule: opt_letters.induct) (auto split: option.split bool.split list.split prod.split)

function getopt :: "string \<Rightarrow> string list \<Rightarrow> (char \<times> string) list" where
  "getopt spec [] = []"
| "getopt spec (w # ws) =
     (if length w < 2 \<or> hd w \<noteq> CHR ''-'' \<or> w = ''--'' then []
      else fst (opt_letters spec (tl w) ws) @ getopt spec (snd (opt_letters spec (tl w) ws)))"
  by pat_completeness auto
termination by (relation "measure (\<lambda>(_, ws). length ws)") (auto simp: opt_letters_rest less_Suc_eq_le)

text \<open>What ends the program before it serves: the messages before \<^verbatim>\<open>exit(1)\<close>.\<close>

datatype web_error =
    Too_Many_Addresses | Invalid_Processes | Invalid_Threads | Invalid_Backlog | Show_Usage | Log_Dir_Required
  | No_Socket | No_Reuse | Unresolved | Bind_Failed | Listen_Failed | Open_Failed | Serialize_Failed
  | No_User | Setgid_Failed | Setuid_Failed | Pid_File_Failed | Pid_Write_Failed | Error_File_Failed

definition MAX_BIND_ADDRS :: nat where "MAX_BIND_ADDRS = 16"
definition LISTENQ_SIZE_DEFAULT :: int where "LISTENQ_SIZE_DEFAULT = 256"
definition WEB_PORT_DEFAULT :: "16 word" where "WEB_PORT_DEFAULT = 8000"

text \<open>The addresses of \<^verbatim>\<open>-b\<close> are the first entries of \<^verbatim>\<open>srv_socket\<close>, as many as \<^verbatim>\<open>sk_count\<close> says.\<close>

record web_options =
  w_addrs :: "string list"
  w_vp_count :: int
  w_logdir :: "string option"
  w_max_wait :: int
  w_max :: int
  w_username :: "string option"
  w_listenq :: int
  w_log_access :: bool
  w_interactive :: bool
  w_serialize :: bool

definition web_defaults :: web_options where
  "web_defaults =
     \<lparr>w_addrs = [], w_vp_count = 0, w_logdir = None, w_max_wait = 0, w_max = 0, w_username = None,
      w_listenq = LISTENQ_SIZE_DEFAULT, w_log_access = False, w_interactive = False, w_serialize = False\<rparr>"

text \<open>Where \<^verbatim>\<open>strtol\<close> stops; its value is that of \<^verbatim>\<open>atoi\<close>.\<close>

definition strtol_rest :: "string \<Rightarrow> string" where
  "strtol_rest s =
     (let t = dropWhile IsWhiteSpace s;
          u = (if t \<noteq> [] \<and> (hd t = CHR ''-'' \<or> hd t = CHR ''+'') then tl t else t)
      in if takeWhile is_digit u = [] then s else dropWhile is_digit u)"

definition thread_limits :: "string \<Rightarrow> web_options \<Rightarrow> web_options" where
  "thread_limits arg cf =
     (let cf1 = cf\<lparr>w_max_wait := atoi arg\<rparr>; rest = strtol_rest arg
      in if rest \<noteq> [] \<and> hd rest = CHR '':'' then cf1\<lparr>w_max := atoi (tl rest)\<rparr> else cf1)"

definition web_option :: "char \<times> string \<Rightarrow> web_options \<Rightarrow> web_error + web_options" where
  "web_option opt cf =
     (let (c, arg) = opt in
      if c = CHR ''b'' then
        (if MAX_BIND_ADDRS \<le> length (w_addrs cf) then Inl Too_Many_Addresses
         else Inr (cf\<lparr>w_addrs := w_addrs cf @ [arg]\<rparr>))
      else if c = CHR ''p'' then (if atoi arg < 1 then Inl Invalid_Processes else Inr (cf\<lparr>w_vp_count := atoi arg\<rparr>))
      else if c = CHR ''l'' then Inr (cf\<lparr>w_logdir := Some arg\<rparr>)
      else if c = CHR ''t'' then
        (let cf1 = thread_limits arg cf
         in if w_max_wait cf1 < 0 \<or> w_max cf1 < 0 then Inl Invalid_Threads else Inr cf1)
      else if c = CHR ''u'' then Inr (cf\<lparr>w_username := Some arg\<rparr>)
      else if c = CHR ''q'' then (if atoi arg < 1 then Inl Invalid_Backlog else Inr (cf\<lparr>w_listenq := atoi arg\<rparr>))
      else if c = CHR ''a'' then Inr (cf\<lparr>w_log_access := True\<rparr>)
      else if c = CHR ''i'' then Inr (cf\<lparr>w_interactive := True\<rparr>)
      else if c = CHR ''S'' then Inr (cf\<lparr>w_serialize := True\<rparr>)
      else if c = CHR ''h'' \<or> c = CHR ''?'' then Inl Show_Usage
      else Inr cf)"

fun option_run :: "(char \<times> string \<Rightarrow> 'c \<Rightarrow> web_error + 'c) \<Rightarrow> (char \<times> string) list \<Rightarrow> 'c \<Rightarrow> web_error + 'c" where
  "option_run step [] cf = Inr cf"
| "option_run step (opt # opts) cf =
     (case step opt cf of Inl e \<Rightarrow> Inl e | Inr cf1 \<Rightarrow> option_run step opts cf1)"

text \<open>\<^verbatim>\<open>parse_arguments\<close>; \<open>cpus\<close> is the result of \<^verbatim>\<open>cpu_count\<close>.\<close>

definition process_count :: "int \<Rightarrow> int \<Rightarrow> int" where
  "process_count cpus n = (if n = 0 then if cpus < 1 then 1 else cpus else n)"

definition parse_arguments :: "int \<Rightarrow> string list \<Rightarrow> web_error + web_options" where
  "parse_arguments cpus args =
     (case option_run web_option (getopt ''b:p:l:t:u:q:aiSh'' args) web_defaults of
        Inl e \<Rightarrow> Inl e
      | Inr cf \<Rightarrow>
          if w_logdir cf = None \<and> \<not> w_interactive cf then Inl Log_Dir_Required
          else Inr (cf\<lparr>w_vp_count := process_count cpus (w_vp_count cf),
                       w_addrs := (if w_addrs cf = [] then [''0.0.0.0''] else w_addrs cf)\<rparr>))"

text \<open>The options of \<^verbatim>\<open>txctl.c\<close>, which has a case for a directory of the log, and the path of its configuration,
  \<open>None\<close> where a null pointer is copied or the path is too long for its buffer.\<close>

record tx_options =
  tx_rootdir :: "string option"
  tx_logdir :: "string option"
  tx_interactive :: bool

definition tx_option :: "char \<times> string \<Rightarrow> tx_options \<Rightarrow> web_error + tx_options" where
  "tx_option opt cf =
     (let (c, arg) = opt in
      if c = CHR ''d'' then Inr (cf\<lparr>tx_rootdir := Some arg\<rparr>)
      else if c = CHR ''l'' then Inr (cf\<lparr>tx_logdir := Some arg\<rparr>)
      else if c = CHR ''i'' then Inr (cf\<lparr>tx_interactive := True\<rparr>)
      else if c = CHR ''h'' \<or> c = CHR ''?'' then Inl Show_Usage
      else Inr cf)"

definition tx_parse_arguments :: "string list \<Rightarrow> web_error + tx_options" where
  "tx_parse_arguments args =
     (case option_run tx_option (getopt ''d:ih'' args) \<lparr>tx_rootdir = None, tx_logdir = None, tx_interactive = False\<rparr> of
        Inl e \<Rightarrow> Inl e
      | Inr cf \<Rightarrow> if tx_logdir cf = None \<and> \<not> tx_interactive cf then Inl Log_Dir_Required else Inr cf)"

definition tx_config_path :: "tx_options \<Rightarrow> string option" where
  "tx_config_path cf =
     (case tx_rootdir cf of
        None \<Rightarrow> None
      | Some d \<Rightarrow> let path = d @ ''/'' @ ''txctl.conf'' in if length path < 500 then Some path else None)"

section \<open>Limits of the threads\<close>

text \<open>All for one listening socket.\<close>

record throttle =
  max_threads :: int
  max_wait_threads :: int
  min_wait_threads :: int

definition FD_PER_THREAD :: int where "FD_PER_THREAD = 2"
definition MAX_WAIT_THREADS_DEFAULT :: int where "MAX_WAIT_THREADS_DEFAULT = 8"
definition TX_MAX_WAIT_THREADS_DEFAULT :: int where "TX_MAX_WAIT_THREADS_DEFAULT = 5"

definition fits_int :: "int \<Rightarrow> bool" where "fits_int i = (- (2 ^ 31) \<le> i \<and> i < 2 ^ 31)"

text \<open>What falls to one of \<open>vp\<close> processes, rounded up.  No number here is negative, see \<^verbatim>\<open>parse_arguments\<close>.\<close>

definition share :: "int \<Rightarrow> int \<Rightarrow> int" where
  "share vp n = (if n mod vp \<noteq> 0 then n div vp + 1 else n div vp)"

text \<open>The limits across all processes, where zero stands for the default.\<close>

definition wait_limit :: "int \<Rightarrow> int \<Rightarrow> int \<Rightarrow> int" where
  "wait_limit dflt vp mw = (if mw = 0 then dflt * vp else mw)"

definition thread_limit :: "int \<Rightarrow> int \<Rightarrow> int \<Rightarrow> int \<Rightarrow> int" where
  "thread_limit fdlimit vp sk mt = (if mt = 0 then fdlimit * vp div FD_PER_THREAD div sk else mt)"

text \<open>\<^verbatim>\<open>set_thread_throttling\<close>; \<open>None\<close> when a product leaves the range of an integer.\<close>

definition throttling :: "int \<Rightarrow> int \<Rightarrow> int \<Rightarrow> int \<Rightarrow> int \<Rightarrow> int \<Rightarrow> throttle option" where
  "throttling dflt fdlimit vp sk mw mt =
     (if mw = 0 \<and> \<not> fits_int (dflt * vp) \<or> mt = 0 \<and> \<not> fits_int (fdlimit * vp) then None
      else let mt1 = thread_limit fdlimit vp sk mt;
               mw1 = (if wait_limit dflt vp mw > mt1 then mt1 else wait_limit dflt vp mw);
               mw2 = share vp mw1
           in Some \<lparr>max_threads = share vp mt1, max_wait_threads = mw2,
                    min_wait_threads = (if 2 > mw2 then mw2 else 2)\<rparr>)"

definition set_thread_throttling :: "int \<Rightarrow> int \<Rightarrow> int \<Rightarrow> int \<Rightarrow> int \<Rightarrow> throttle option" where
  "set_thread_throttling = throttling MAX_WAIT_THREADS_DEFAULT"

definition tx_set_thread_throttling :: "int \<Rightarrow> int \<Rightarrow> int \<Rightarrow> int \<Rightarrow> int \<Rightarrow> throttle option" where
  "tx_set_thread_throttling = throttling TX_MAX_WAIT_THREADS_DEFAULT"

section \<open>Listening sockets\<close>

record socket_info =
  si_addr :: string
  si_port :: int
  si_bound :: sockaddr_in
  si_backlog :: int
  si_serialized :: bool

text \<open>The host and the port of an address, with the defaults.\<close>

definition listen_address :: "string \<Rightarrow> string \<times> 16 word" where
  "listen_address a =
     (let host = takeWhile (\<lambda>c. c \<noteq> CHR '':'') a;
          port = (if CHR '':'' \<in> set a then word_of_int (atoi (tl (dropWhile (\<lambda>c. c \<noteq> CHR '':'') a))) else 0)
      in (if host = [] then ''0.0.0.0'' else host, if port = 0 then WEB_PORT_DEFAULT else port))"

text \<open>What the calls for a socket return: \<^verbatim>\<open>socket\<close>, \<^verbatim>\<open>setsockopt\<close>, \<^verbatim>\<open>bind\<close>, \<^verbatim>\<open>listen\<close>, whether a descriptor object is
  made, and \<^verbatim>\<open>st_netfd_serialize_accept\<close>.\<close>

record listen_calls =
  c_socket :: int
  c_reuse :: int
  c_bind :: int
  c_listen :: int
  c_open :: bool
  c_serialize :: int

text \<open>The loop of \<^verbatim>\<open>create_listeners\<close>; \<^verbatim>\<open>gethostbyname\<close> is asked for what \<^verbatim>\<open>inet_addr\<close> does not read.  The port of the record
  is the \<^verbatim>\<open>short\<close> as an integer.\<close>

definition create_listener ::
  "(16 word \<Rightarrow> 16 word) \<Rightarrow> (string \<Rightarrow> u32) \<Rightarrow> (string \<Rightarrow> u32 option) \<Rightarrow> web_options \<Rightarrow> string \<Rightarrow> listen_calls \<Rightarrow>
     web_error + socket_info" where
  "create_listener htons inet resolve cf a r =
     (let (host, port) = listen_address a in
      if c_socket r < 0 then Inl No_Socket
      else if c_reuse r < 0 then Inl No_Reuse
      else case (if inet host = INADDR_NONE then resolve host else Some (inet host)) of
             None \<Rightarrow> Inl Unresolved
           | Some ip \<Rightarrow>
               if c_bind r < 0 then Inl Bind_Failed
               else if c_listen r < 0 then Inl Listen_Failed
               else if \<not> c_open r then Inl Open_Failed
               else if w_serialize cf \<and> c_serialize r < 0 then Inl Serialize_Failed
               else Inr \<lparr>si_addr = host, si_port = sint port, si_bound = \<lparr>sin_port = htons port, sin_addr = ip\<rparr>,
                         si_backlog = w_listenq cf, si_serialized = w_serialize cf\<rparr>)"

fun web_create_listeners ::
  "(16 word \<Rightarrow> 16 word) \<Rightarrow> (string \<Rightarrow> u32) \<Rightarrow> (string \<Rightarrow> u32 option) \<Rightarrow> web_options \<Rightarrow> string list \<Rightarrow> (nat \<Rightarrow> listen_calls) \<Rightarrow>
     web_error + socket_info list" where
  "web_create_listeners htons inet resolve cf [] rs = Inr []"
| "web_create_listeners htons inet resolve cf (a # as) rs =
     (case create_listener htons inet resolve cf a (rs 0) of
        Inl e \<Rightarrow> Inl e
      | Inr si \<Rightarrow> map_sum id (\<lambda>sis. si # sis) (web_create_listeners htons inet resolve cf as (\<lambda>n. rs (Suc n))))"

section \<open>User and log files\<close>

text \<open>\<^verbatim>\<open>change_user\<close>: the identities that were set, in order, and the error if there is one.\<close>

datatype identity = Set_Gid u32 | Set_Uid u32

definition change_user :: "(string \<Rightarrow> (u32 \<times> u32) option) \<Rightarrow> int \<Rightarrow> int \<Rightarrow> string \<Rightarrow> identity list \<times> web_error option" where
  "change_user getpwnam gid_result uid_result username =
     (case getpwnam username of
        None \<Rightarrow> ([], Some No_User)
      | Some (uid, gid) \<Rightarrow>
          if gid_result < 0 then ([], Some Setgid_Failed)
          else if uid_result < 0 then ([Set_Gid gid], Some Setuid_Failed)
          else ([Set_Gid gid, Set_Uid uid], None))"

text \<open>\<^verbatim>\<open>open_log_files\<close>: what is written to the file of the process number, and the descriptor for errors; \<open>errfd\<close> is the
  old one.\<close>

definition open_log_files :: "web_options \<Rightarrow> int \<Rightarrow> int \<Rightarrow> int \<Rightarrow> int \<Rightarrow> int \<Rightarrow> web_error + string \<times> int" where
  "open_log_files cf pid pid_fd written error_fd errfd =
     (if w_interactive cf then Inr ([], errfd)
      else let str = show_int pid @ [CHR 0x0A] in
           if pid_fd < 0 then Inl Pid_File_Failed
           else if written \<noteq> int (length str) then Inl Pid_Write_Failed
           else if error_fd < 0 then Inl Error_File_Failed
           else Inr (str, error_fd))"

section \<open>Processes and the watchdog\<close>

text \<open>\<^verbatim>\<open>start_daemon\<close>, with what the two calls of \<^verbatim>\<open>fork\<close> and \<^verbatim>\<open>chdir\<close> return: only the second child goes on.\<close>

datatype daemon = Parent_Exits | Daemon_Fails | Goes_On

definition start_daemon :: "int \<Rightarrow> int \<Rightarrow> int \<Rightarrow> daemon" where
  "start_daemon fork1 fork2 chdir =
     (if fork1 < 0 then Daemon_Fails
      else if fork1 > 0 then Parent_Exits
      else if fork2 < 0 then Daemon_Fails
      else if fork2 > 0 then Parent_Exits
      else if chdir < 0 then Daemon_Fails
      else Goes_On)"

text \<open>The table of the watchdog, which \<^verbatim>\<open>calloc\<close> gave as many entries as there were processes to start.\<close>

record watchdog =
  vp_count :: nat
  vp_pids :: "int list"

text \<open>What becomes of the process that runs \<^verbatim>\<open>start_processes\<close>: it returns as the child with an index, ends, is_waiting as
  the watchdog, or writes past the end of the table.\<close>

datatype process = Child nat | Exits | Watches watchdog | Writes_Past

text \<open>The first loop; \<open>fork i\<close> is what \<^verbatim>\<open>fork\<close> returns for the \<open>i\<close>th process, and the table is filled up to \<open>i\<close>.\<close>

function start_loop :: "(nat \<Rightarrow> int) \<Rightarrow> nat \<Rightarrow> watchdog \<Rightarrow> process" where
  "start_loop fork i w =
     (if vp_count w \<le> i then Watches w
      else if fork i < 0 then (if i = 0 then Exits else Watches (w\<lparr>vp_count := i\<rparr>))
      else if fork i = 0 then Child i
      else start_loop fork (i + 1) (w\<lparr>vp_pids := (vp_pids w)[i := fork i]\<rparr>))"
  by pat_completeness auto
termination by (relation "measure (\<lambda>(_, i, w). vp_count w - i)") auto

definition start_processes :: "bool \<Rightarrow> nat \<Rightarrow> (nat \<Rightarrow> int) \<Rightarrow> process" where
  "start_processes interactive n fork =
     (if interactive then Child 0 else start_loop fork 0 \<lparr>vp_count = n, vp_pids = replicate n 0\<rparr>)"

text \<open>The index of an exited child, which is \<^verbatim>\<open>vp_count\<close> when the table has no such number.\<close>

definition child_index :: "watchdog \<Rightarrow> int \<Rightarrow> nat" where
  "child_index w pid = length (takeWhile (\<lambda>p. p \<noteq> pid) (take (vp_count w) (vp_pids w)))"

text \<open>A turn of the second loop: the result of \<^verbatim>\<open>wait\<close>, whether it was interrupted, and the result of \<^verbatim>\<open>fork\<close>.\<close>

definition watch_turn :: "int \<Rightarrow> bool \<Rightarrow> int \<Rightarrow> watchdog \<Rightarrow> process" where
  "watch_turn pid interrupted fork w =
     (if pid < 0 then (if interrupted then Watches w else Exits)
      else let i = child_index w pid in
           if fork = 0 then Child i
           else if length (vp_pids w) \<le> i then Writes_Past
           else Watches (w\<lparr>vp_pids := (vp_pids w)[i := fork]\<rparr>))"

section \<open>Signals\<close>

definition SIGHUP :: int where "SIGHUP = 1"
definition SIGUSR1 :: int where "SIGUSR1 = 10"
definition SIGTERM :: int where "SIGTERM = 15"

text \<open>What the handlers and the thread for the signals do, in order, and what follows.\<close>

datatype action =
    Kill int int | Log_Flush | Log_Close | Log_Open | Close_Errors int | Load_Configs | Unlink_Pid | Dump_Info

datatype after = Carries_On int | Ends_With nat

definition wdog_sighandler :: "bool \<Rightarrow> int \<Rightarrow> int \<Rightarrow> int \<Rightarrow> watchdog \<Rightarrow> action list \<times> after" where
  "wdog_sighandler log_access fd signo errfd w =
     (let kills = map (\<lambda>p. Kill p signo) (filter (\<lambda>p. p > 0) (take (vp_count w) (vp_pids w))) in
      if signo = SIGHUP then
        (kills @ (if log_access then [Log_Close, Log_Open] else []) @ [Close_Errors errfd],
         if fd < 0 then Ends_With 1 else Carries_On fd)
      else if signo = SIGTERM then (kills @ [Unlink_Pid], Ends_With 0)
      else (kills, Carries_On errfd))"

text \<open>\<^verbatim>\<open>install_sighandlers\<close>: whether a signal pipe is made, with the result of \<^verbatim>\<open>pipe\<close> and the descriptor objects for its ends.
  \<^verbatim>\<open>child_sighandler\<close> puts the number of the signal into the pipe, or ends the process when the pipe takes only a part.\<close>

definition install_sighandlers :: "int \<Rightarrow> ptr \<Rightarrow> ptr \<Rightarrow> int list option" where
  "install_sighandlers made read_end write_end = (if made < 0 \<or> read_end = 0 \<or> write_end = 0 then None else Some [])"

definition child_sighandler :: "int \<Rightarrow> int \<Rightarrow> int list \<Rightarrow> int list option" where
  "child_sighandler written signo sig_pipe = (if written \<noteq> 4 then None else Some (sig_pipe @ [signo]))"

text \<open>A turn of \<^verbatim>\<open>process_signals\<close>: the number that was read from the pipe, if all its bytes were.\<close>

definition signal_turn :: "bool \<Rightarrow> bool \<Rightarrow> int \<Rightarrow> int option \<Rightarrow> int \<Rightarrow> action list \<times> after" where
  "signal_turn interactive log_access fd signo errfd =
     (case signo of
        None \<Rightarrow> ([], Ends_With 1)
      | Some n \<Rightarrow>
          if n = SIGHUP then
            (if interactive then ([Load_Configs], Carries_On errfd)
             else let acts = (if log_access then [Log_Flush, Log_Close, Log_Open] else []) @ [Close_Errors errfd]
                  in if fd < 0 then (acts, Ends_With 1) else (acts @ [Load_Configs], Carries_On fd))
          else if n = SIGTERM then (if log_access then [Log_Flush] else [], Ends_With 0)
          else if n = SIGUSR1 then ([Dump_Info], Carries_On errfd)
          else ([], Carries_On errfd))"

text \<open>The loop, with what \<^verbatim>\<open>open\<close> returns in each turn.\<close>

fun process_signals :: "bool \<Rightarrow> bool \<Rightarrow> (int option \<times> int) list \<Rightarrow> int \<Rightarrow> action list \<times> after" where
  "process_signals interactive log_access [] errfd = ([], Carries_On errfd)"
| "process_signals interactive log_access ((signo, fd) # xs) errfd =
     (case signal_turn interactive log_access fd signo errfd of
        (acts, Ends_With n) \<Rightarrow> (acts, Ends_With n)
      | (acts, Carries_On e) \<Rightarrow>
          (let (acts', r) = process_signals interactive log_access xs e in (acts @ acts', r)))"

section \<open>Sessions\<close>

definition RESPONSE :: string where
  "RESPONSE =
     ''HTTP/1.0 200 OK'' @ [CHR 0x0D, CHR 0x0A] @ ''Content-type: text/html'' @ [CHR 0x0D, CHR 0x0A] @
     ''Txctl-Status 0 OK'' @ [CHR 0x0D, CHR 0x0A] @ ''Connection: close'' @ [CHR 0x0D, CHR 0x0A, CHR 0x0D, CHR 0x0A] @
     ''<H2>It worked!</H2>'' @ [CHR 0x0A]"

text \<open>\<^verbatim>\<open>handle_session\<close>, with the answers of \<^verbatim>\<open>read\<close>, \<^verbatim>\<open>write\<close> and their polls: whether the request is counted, and what was
  written; \<open>None\<close> when a call is_waiting for ever.\<close>

definition handle_session :: "char answers \<Rightarrow> (bool \<times> string) option" where
  "handle_session ans =
     (case ans of (rs, ps, ws, qs) \<Rightarrow>
        (case u_read 512 rs ps of
           None \<Rightarrow> None
         | Some (Inl e) \<Rightarrow> Some (False, [])
         | Some (Inr buf) \<Rightarrow>
             map_option (\<lambda>(r, out, _). (r = Inr (int (length RESPONSE)), out)) (u_write RESPONSE ws qs)))"

section \<open>The threads of a socket\<close>

text \<open>Where a thread of \<^verbatim>\<open>handle_connections\<close> is: it has not run yet, is_waiting in \<^verbatim>\<open>st_accept\<close>, is in \<^verbatim>\<open>handle_session\<close>, or
  has returned.\<close>

datatype place = Starting | Accepting | Serving | Returned

record pool =
  wait_threads :: int
  busy_threads :: int
  rqst_count :: int
  places :: "place list"

text \<open>The inner loop of \<^verbatim>\<open>start_threads\<close>, with which threads could be created; \<open>None\<close>: there is none, the process exits.\<close>

definition start_pool :: "throttle \<Rightarrow> (nat \<Rightarrow> bool) \<Rightarrow> pool option" where
  "start_pool lim created =
     (let n = length (filter created [0 ..< nat (max_wait_threads lim)]) in
      if n = 0 then None
      else Some \<lparr>wait_threads = int n, busy_threads = 0, rqst_count = 0, places = replicate n Starting\<rparr>)"

text \<open>\<^verbatim>\<open>start_threads\<close>, with whether the thread that flushes the access log can be created, and those of each socket.\<close>

fun start_pools :: "throttle \<Rightarrow> (nat \<Rightarrow> nat \<Rightarrow> bool) \<Rightarrow> nat \<Rightarrow> nat \<Rightarrow> pool list option" where
  "start_pools lim created i 0 = Some []"
| "start_pools lim created i (Suc n) =
     (case start_pool lim (created i) of
        None \<Rightarrow> None
      | Some p \<Rightarrow> map_option (\<lambda>ps. p # ps) (start_pools lim created (i + 1) n))"

definition web_start_threads :: "bool \<Rightarrow> bool \<Rightarrow> throttle \<Rightarrow> (nat \<Rightarrow> nat \<Rightarrow> bool) \<Rightarrow> nat \<Rightarrow> pool list option" where
  "web_start_threads log_access log_thread lim created sk_count =
     (if log_access \<and> \<not> log_thread then None else start_pools lim created 0 sk_count)"

definition place_at :: "nat \<Rightarrow> place \<Rightarrow> pool \<Rightarrow> bool" where
  "place_at k pl p = (k < length (places p) \<and> places p ! k = pl)"

definition put_place :: "nat \<Rightarrow> place \<Rightarrow> pool \<Rightarrow> pool" where
  "put_place k pl p = p\<lparr>places := (places p)[k := pl]\<rparr>"

text \<open>The test of the loop and what follows it up to the next wait.\<close>

definition loop_test :: "throttle \<Rightarrow> nat \<Rightarrow> pool \<Rightarrow> pool" where
  "loop_test lim k p =
     (if wait_threads p \<le> max_wait_threads lim then put_place k Accepting p
      else put_place k Returned (p\<lparr>wait_threads := wait_threads p - 1\<rparr>))"

text \<open>A connection was accepted; \<open>created\<close>: a thread can be created if one is wanted.\<close>

definition spare_wanted :: "throttle \<Rightarrow> pool \<Rightarrow> bool" where
  "spare_wanted lim p =
     (wait_threads p < min_wait_threads lim \<and> wait_threads p + busy_threads p < max_threads lim)"

definition accepted :: "throttle \<Rightarrow> nat \<Rightarrow> bool \<Rightarrow> pool \<Rightarrow> pool" where
  "accepted lim k created p =
     (let p1 = put_place k Serving (p\<lparr>wait_threads := wait_threads p - 1, busy_threads := busy_threads p + 1\<rparr>)
      in if spare_wanted lim p1 \<and> created
         then p1\<lparr>wait_threads := wait_threads p1 + 1, places := places p1 @ [Starting]\<rparr>
         else p1)"

definition session_over :: "throttle \<Rightarrow> nat \<Rightarrow> bool \<Rightarrow> pool \<Rightarrow> pool" where
  "session_over lim k counted p =
     loop_test lim k
       (p\<lparr>wait_threads := wait_threads p + 1, busy_threads := busy_threads p - 1,
          rqst_count := (if counted then rqst_count p + 1 else rqst_count p)\<rparr>)"

text \<open>What can happen next: a thread runs first, \<^verbatim>\<open>st_accept\<close> fails or gives a connection, a session ends.\<close>

datatype pool_event = Runs nat | Accept_Fails nat | Accepts nat bool | Session_Over nat bool

fun pool_turn :: "throttle \<Rightarrow> pool_event \<Rightarrow> pool \<Rightarrow> pool option" where
  "pool_turn lim (Runs k) p = (if place_at k Starting p then Some (loop_test lim k p) else None)"
| "pool_turn lim (Accept_Fails k) p = (if place_at k Accepting p then Some (loop_test lim k p) else None)"
| "pool_turn lim (Accepts k created) p = (if place_at k Accepting p then Some (accepted lim k created p) else None)"
| "pool_turn lim (Session_Over k counted) p =
     (if place_at k Serving p then Some (session_over lim k counted p) else None)"

fun pool_run :: "throttle \<Rightarrow> pool_event list \<Rightarrow> pool \<Rightarrow> pool option" where
  "pool_run lim [] p = Some p"
| "pool_run lim (e # es) p = Option.bind (pool_turn lim e p) (pool_run lim es)"

section \<open>The report of a process\<close>

definition report_line :: "string \<Rightarrow> string" where "report_line s = s @ [CHR 0x0A]"

definition socket_text :: "throttle \<Rightarrow> nat \<Rightarrow> socket_info \<Rightarrow> pool \<Rightarrow> string" where
  "socket_text lim i si p =
     report_line [] @ report_line (''Listening Socket #'' @ show_nat i @ '':'') @ report_line ''-------------------------'' @
     report_line (''Address                    '' @ si_addr si @ '':'' @ show_int (si_port si)) @
     report_line (''Thread limits (min/max)    '' @ show_int (max_wait_threads lim) @ ''/'' @ show_int (max_threads lim)) @
     report_line (''Waiting threads            '' @ show_int (wait_threads p)) @
     report_line (''Busy threads               '' @ show_int (busy_threads p)) @
     report_line (''Requests served            '' @ show_int (rqst_count p))"

fun sockets_text :: "throttle \<Rightarrow> nat \<Rightarrow> (socket_info \<times> pool) list \<Rightarrow> string" where
  "sockets_text lim i [] = []"
| "sockets_text lim i ((si, p) # xs) = socket_text lim i si p @ sockets_text lim (i + 1) xs"

text \<open>\<^verbatim>\<open>dump_server_info\<close>: \<open>None\<close> when the text and its end do not fit into the buffer.\<close>

definition dump_text :: "throttle \<Rightarrow> nat \<Rightarrow> int \<Rightarrow> (socket_info \<times> pool) list \<Rightarrow> string" where
  "dump_text lim index pid xs =
     report_line [] @ report_line [] @ report_line (''Process #'' @ show_nat index @ '' (pid '' @ show_int pid @ ''):'') @ sockets_text lim 0 xs"

definition dump_server_info :: "throttle \<Rightarrow> nat \<Rightarrow> int \<Rightarrow> (socket_info \<times> pool) list \<Rightarrow> string option" where
  "dump_server_info lim index pid xs =
     (let buf = dump_text lim index pid xs in if length buf < length xs * 512 then Some buf else None)"

end
