(* ===== verification/WebServerProps.thy ===== *)
theory WebServerProps
  imports WebServer UnixProps
begin

text \<open>
  The example servers: their limits and options are valid, the pool of a socket keeps its balance, the watchdog knows its
  children, and the report of a process fits its buffer.
\<close>

section \<open>Limits\<close>

lemma share_bounds:
  assumes "0 < vp"
  shows "n \<le> vp * share vp n" and "vp * share vp n < n + vp"
proof -
  have e: "n = vp * (n div vp) + n mod vp" "0 \<le> n mod vp" "n mod vp < vp" using assms by simp_all
  have up: "vp * share vp n = vp * (n div vp) + (if n mod vp \<noteq> 0 then vp else 0)" by (simp add: share_def distrib_left)
  show "n \<le> vp * share vp n"
  proof (cases "n mod vp = 0")
    case True
    then have "vp * share vp n = vp * (n div vp)" using up by simp
    then show ?thesis using e True by linarith
  next
    case False
    then have "vp * share vp n = vp * (n div vp) + vp" using up by simp
    then show ?thesis using e by linarith
  qed
  show "vp * share vp n < n + vp"
  proof (cases "n mod vp = 0")
    case True
    then show ?thesis using e(1) assms by (simp add: share_def)
  next
    case False
    then have "vp * share vp n = vp * (n div vp) + vp" by (simp add: share_def distrib_left)
    also have "\<dots> < n + vp" using e False by linarith
    finally show ?thesis .
  qed
qed

lemma share_mono:
  assumes "0 < vp" and "m \<le> n"
  shows "share vp m \<le> share vp n"
proof -
  have "vp * share vp m < n + vp" using share_bounds(2) [OF assms(1), of m] assms(2) by linarith
  also have "\<dots> \<le> vp * share vp n + vp" using share_bounds(1) [OF assms(1), of n] by simp
  also have "\<dots> = vp * (share vp n + 1)" by (simp add: distrib_left)
  finally show ?thesis using assms(1) by (simp add: mult_less_cancel_left)
qed

lemma share_nonneg: "0 < vp \<Longrightarrow> 0 \<le> n \<Longrightarrow> 0 \<le> share vp n"
  using share_mono [of vp 0 n] by (simp add: share_def)

text \<open>The limits of a process are ordered, and those of all processes together are what was asked for, rounded up by less than
  the number of processes; waiting threads are never more than threads.\<close>

definition limits_hold :: "int \<Rightarrow> int \<Rightarrow> int \<Rightarrow> throttle \<Rightarrow> bool" where
  "limits_hold vp mw mt lim =
     (0 \<le> min_wait_threads lim \<and> min_wait_threads lim \<le> 2 \<and> min_wait_threads lim \<le> max_wait_threads lim \<and>
      max_wait_threads lim \<le> max_threads lim \<and> (min_wait_threads lim = 0 \<longleftrightarrow> max_wait_threads lim = 0) \<and>
      mt \<le> vp * max_threads lim \<and> vp * max_threads lim < mt + vp \<and>
      min mw mt \<le> vp * max_wait_threads lim \<and> vp * max_wait_threads lim < min mw mt + vp)"

theorem throttling_limits:
  assumes "0 < vp" and "0 < sk" and "0 \<le> fdlimit" and "0 \<le> mw" and "0 \<le> mt" and "0 \<le> dflt"
    and "throttling dflt fdlimit vp sk mw mt = Some lim"
  shows "limits_hold vp (wait_limit dflt vp mw) (thread_limit fdlimit vp sk mt) lim"
proof -
  define m where "m = thread_limit fdlimit vp sk mt"
  define w where "w = min (wait_limit dflt vp mw) m"
  have nonneg: "0 \<le> m" "0 \<le> w"
    using assms(1-6) by (simp_all add: m_def w_def thread_limit_def wait_limit_def FD_PER_THREAD_def pos_imp_zdiv_nonneg_iff)
  have lim: "max_threads lim = share vp m" "max_wait_threads lim = share vp w"
    "min_wait_threads lim = (if 2 > share vp w then share vp w else 2)"
    using assms(7) by (auto simp: throttling_def m_def w_def Let_def min_def split: if_split_asm)
  show ?thesis
    using share_bounds [OF assms(1), of m] share_bounds [OF assms(1), of w] share_mono [OF assms(1), of w m]
      share_nonneg [OF assms(1) nonneg(2)]
    by (simp add: limits_hold_def lim m_def [symmetric] w_def [symmetric]) (simp add: w_def)
qed

theorem throttling_limits_witness:
  "limits_hold 4 32 (1024 * 4 div FD_PER_THREAD div 3) \<lparr>max_threads = 171, max_wait_threads = 8, min_wait_threads = 2\<rparr>"
  using throttling_limits [of 4 3 1024 0 0 8 "\<lparr>max_threads = 171, max_wait_threads = 8, min_wait_threads = 2\<rparr>"]
  by (simp add: throttling_def share_def wait_limit_def thread_limit_def fits_int_def FD_PER_THREAD_def)

section \<open>The pool\<close>

definition at_places :: "(place \<Rightarrow> bool) \<Rightarrow> pool \<Rightarrow> int" where
  "at_places P p = int (length (filter P (places p)))"

definition is_waiting :: "place \<Rightarrow> bool" where "is_waiting pl = (pl = Starting \<or> pl = Accepting)"

text \<open>The counters are the numbers of the threads, within the limits.\<close>

definition pool_ok :: "throttle \<Rightarrow> pool \<Rightarrow> bool" where
  "pool_ok lim p =
     (wait_threads p = at_places is_waiting p \<and> busy_threads p = at_places (\<lambda>pl. pl = Serving) p \<and>
      wait_threads p \<le> max_wait_threads lim \<and>
      1 \<le> wait_threads p + busy_threads p \<and> wait_threads p + busy_threads p \<le> max_threads lim)"

text \<open>Enough threads are spare, or there are as many as there may be.\<close>

definition balanced :: "throttle \<Rightarrow> pool \<Rightarrow> bool" where
  "balanced lim p = (min_wait_threads lim \<le> wait_threads p \<or> wait_threads p + busy_threads p = max_threads lim)"

definition usable :: "throttle \<Rightarrow> bool" where
  "usable lim = (1 \<le> max_wait_threads lim \<and> min_wait_threads lim \<le> max_wait_threads lim \<and> max_wait_threads lim \<le> max_threads lim)"

lemma filter_update:
  "k < length xs \<Longrightarrow>
     int (length (filter P (xs[k := x]))) = int (length (filter P xs)) - of_bool (P (xs ! k)) + of_bool (P x)"
proof (induction xs arbitrary: k)
  case (Cons y ys)
  then show ?case
  proof (cases k)
    case (Suc j)
    then show ?thesis using Cons by simp
  qed simp
qed simp

lemma at_places_put:
  "k < length (places p) \<Longrightarrow>
     at_places P (put_place k pl p) = at_places P p - of_bool (P (places p ! k)) + of_bool (P pl)"
  by (simp add: at_places_def put_place_def filter_update)

lemma at_places_fields [simp]:
  "at_places P (p\<lparr>wait_threads := w\<rparr>) = at_places P p"
  "at_places P (p\<lparr>busy_threads := b\<rparr>) = at_places P p"
  "at_places P (p\<lparr>rqst_count := r\<rparr>) = at_places P p"
  by (simp_all add: at_places_def)

lemma put_place_fields [simp]:
  "wait_threads (put_place k pl p) = wait_threads p"
  "busy_threads (put_place k pl p) = busy_threads p"
  "rqst_count (put_place k pl p) = rqst_count p"
  by (simp_all add: put_place_def)

lemma at_places_append [simp]:
  "at_places P (q\<lparr>places := places p @ xs\<rparr>) = at_places P p + int (length (filter P xs))"
  by (simp add: at_places_def)

lemma place_at_count: "place_at k pl p \<Longrightarrow> P pl \<Longrightarrow> 1 \<le> at_places P p"
  unfolding place_at_def at_places_def by (metis Suc_leI filter_empty_conv length_greater_0_conv nth_mem of_nat_1 of_nat_le_iff One_nat_def)

lemmas pool_turn_defs = place_at_def loop_test_def accepted_def session_over_def at_places_put is_waiting_def

lemma loop_test_waiting:
  assumes "place_at k pl p" and "is_waiting pl" and "pool_ok lim p"
  shows "pool_ok lim (loop_test lim k p)" and "balanced lim p \<Longrightarrow> balanced lim (loop_test lim k p)"
  using assms by (auto simp: pool_ok_def balanced_def pool_turn_defs)

lemma accepted_ok:
  assumes "place_at k Accepting p" and "pool_ok lim p"
  shows "pool_ok lim (accepted lim k created p)"
    and "balanced lim p \<Longrightarrow> created \<Longrightarrow> balanced lim (accepted lim k created p)"
  using assms by (auto simp: pool_ok_def balanced_def spare_wanted_def pool_turn_defs Let_def)

lemma session_over_ok:
  assumes "place_at k Serving p" and "pool_ok lim p" and "usable lim"
  shows "pool_ok lim (session_over lim k counted p)"
    and "balanced lim p \<Longrightarrow> balanced lim (session_over lim k counted p)"
proof -
  have "1 \<le> at_places (\<lambda>pl. pl = Serving) p" by (rule place_at_count [OF assms(1)]) simp
  then show "pool_ok lim (session_over lim k counted p)"
    and "balanced lim p \<Longrightarrow> balanced lim (session_over lim k counted p)"
    using assms by (auto simp: pool_ok_def balanced_def usable_def pool_turn_defs)
qed

text \<open>The events in which no thread that is wanted fails to be created.\<close>

fun no_failure :: "pool_event \<Rightarrow> bool" where
  "no_failure (Accepts k created) = created"
| "no_failure (Runs k) = True"
| "no_failure (Accept_Fails k) = True"
| "no_failure (Session_Over k counted) = True"

lemma pool_turn_ok:
  assumes "usable lim" and "pool_ok lim p" and "pool_turn lim e p = Some p'"
  shows "pool_ok lim p' \<and> (balanced lim p \<longrightarrow> no_failure e \<longrightarrow> balanced lim p')"
proof (cases e)
  case (Runs k)
  then show ?thesis using assms loop_test_waiting [of k Starting p lim] by (auto simp: is_waiting_def split: if_split_asm)
next
  case (Accept_Fails k)
  then show ?thesis using assms loop_test_waiting [of k Accepting p lim] by (auto simp: is_waiting_def split: if_split_asm)
next
  case (Accepts k created)
  then show ?thesis using assms accepted_ok [of k p lim created] by (auto split: if_split_asm)
next
  case (Session_Over k counted)
  then show ?thesis using assms session_over_ok [of k p lim counted] by (auto split: if_split_asm)
qed

lemma pool_run_ok:
  "usable lim \<Longrightarrow> pool_ok lim p \<Longrightarrow> pool_run lim es p = Some q \<Longrightarrow>
     pool_ok lim q \<and> (balanced lim p \<longrightarrow> list_all no_failure es \<longrightarrow> balanced lim q)"
proof (induction es arbitrary: p)
  case (Cons e es)
  then obtain p' where p': "pool_turn lim e p = Some p'" "pool_run lim es p' = Some q" by (auto simp: bind_eq_Some_conv)
  show ?case using Cons.IH [OF Cons.prems(1) _ p'(2)] pool_turn_ok [OF Cons.prems(1,2) p'(1)] by simp
qed simp

lemma start_pool_ok:
  assumes "0 \<le> max_wait_threads lim" and "max_wait_threads lim \<le> max_threads lim"
    and "min_wait_threads lim \<le> max_wait_threads lim" and "start_pool lim created = Some p"
  shows "usable lim" and "pool_ok lim p" and "(\<forall>n. created n) \<Longrightarrow> balanced lim p"
proof -
  define n where "n = length (filter created [0 ..< nat (max_wait_threads lim)])"
  have le: "n \<le> nat (max_wait_threads lim)" using length_filter_le [of created "[0 ..< nat (max_wait_threads lim)]"] by (simp add: n_def)
  then have n: "int n \<le> max_wait_threads lim" using assms(1) by (simp add: le_nat_iff)
  have p: "n \<noteq> 0" "p = \<lparr>wait_threads = int n, busy_threads = 0, rqst_count = 0, places = replicate n Starting\<rparr>"
    using assms(4) by (simp_all add: start_pool_def n_def [symmetric] split: if_split_asm)
  show "usable lim" using assms(1-3) n p(1) by (simp add: usable_def)
  show "pool_ok lim p" using assms(1-3) n p(1) by (simp add: p(2) pool_ok_def at_places_def is_waiting_def)
  show "balanced lim p" if "\<forall>n. created n"
  proof -
    have "n = nat (max_wait_threads lim)" using that by (simp add: n_def)
    then show ?thesis using assms(1,3) by (simp add: p(2) balanced_def)
  qed
qed

text \<open>C34: The pool keeps its balance.  With the limits that \<^verbatim>\<open>set_thread_throttling\<close> computes, whatever happens: the counters are the
  numbers of the threads that wait and that serve, there is always a thread, never more than may be, and never too many spare ones.
  While no creation of a thread fails there are enough spare threads, or as many threads as there may be.\<close>

theorem pool_equilibrium:
  assumes "0 < vp" and "0 < sk" and "0 \<le> fdlimit" and "0 \<le> mw" and "0 \<le> mt"
    and "set_thread_throttling fdlimit vp sk mw mt = Some lim"
    and "start_pool lim created = Some p" and "pool_run lim es p = Some q"
  shows "pool_ok lim q \<and> ((\<forall>n. created n) \<longrightarrow> list_all no_failure es \<longrightarrow> balanced lim q)"
proof -
  have "limits_hold vp (wait_limit MAX_WAIT_THREADS_DEFAULT vp mw) (thread_limit fdlimit vp sk mt) lim"
    using throttling_limits [OF assms(1-5)] assms(6) by (simp add: set_thread_throttling_def MAX_WAIT_THREADS_DEFAULT_def)
  then have lim: "0 \<le> max_wait_threads lim" "max_wait_threads lim \<le> max_threads lim" "min_wait_threads lim \<le> max_wait_threads lim"
    by (simp_all add: limits_hold_def)
  note ok = start_pool_ok [OF lim assms(7)]
  show ?thesis using pool_run_ok [OF ok(1,2) assms(8)] ok(3) by simp
qed

definition small_limits :: throttle where
  "small_limits = \<lparr>max_threads = 3, max_wait_threads = 2, min_wait_threads = 2\<rparr>"

theorem pool_equilibrium_witness:
  "\<exists>p q. start_pool small_limits (\<lambda>_. True) = Some p \<and>
     pool_run small_limits [Runs 0, Runs 1, Accepts 0 True, Runs 2, Accepts 1 True, Session_Over 0 True, Session_Over 1 False] p = Some q \<and>
     wait_threads q = 2 \<and> pool_ok small_limits q \<and> balanced small_limits q"
proof -
  define p :: pool where "p = \<lparr>wait_threads = 2, busy_threads = 0, rqst_count = 0, places = [Starting, Starting]\<rparr>"
  define q :: pool where "q = \<lparr>wait_threads = 2, busy_threads = 0, rqst_count = 1, places = [Accepting, Returned, Accepting]\<rparr>"
  define es where "es = [Runs 0, Runs 1, Accepts 0 True, Runs 2, Accepts 1 True, Session_Over 0 True, Session_Over 1 False]"
  have start: "start_pool small_limits (\<lambda>_. True) = Some p" by (simp add: start_pool_def small_limits_def p_def numeral_2_eq_2)
  have run: "pool_run small_limits es p = Some q"
    by (simp add: es_def p_def q_def small_limits_def place_at_def loop_test_def put_place_def accepted_def spare_wanted_def
        session_over_def Let_def)
  have lim: "set_thread_throttling 64 1 1 2 3 = Some small_limits"
    by (simp add: set_thread_throttling_def throttling_def share_def wait_limit_def thread_limit_def small_limits_def)
  have "pool_ok small_limits q \<and> balanced small_limits q"
    using pool_equilibrium [OF _ _ _ _ _ lim start run] by (simp add: es_def)
  then show ?thesis using start run by (auto simp: q_def es_def)
qed

text \<open>So does every socket when the threads of a process start.\<close>

lemma start_pools_ok:
  "0 \<le> max_wait_threads lim \<Longrightarrow> max_wait_threads lim \<le> max_threads lim \<Longrightarrow> min_wait_threads lim \<le> max_wait_threads lim \<Longrightarrow>
     start_pools lim created i n = Some ps \<Longrightarrow> length ps = n \<and> list_all (pool_ok lim) ps"
  by (induction lim created i n arbitrary: ps rule: start_pools.induct) (auto simp: start_pool_ok(2) split: option.split_asm)

section \<open>The watchdog\<close>

definition child_pids :: "watchdog \<Rightarrow> int list" where
  "child_pids w = filter (\<lambda>p. p > 0) (take (vp_count w) (vp_pids w))"

text \<open>The watchdog and the numbers of its children that live.  The system starts each child with a number that no other child has,
  and \<^verbatim>\<open>wait\<close> gives the number of one that has ended, or is interrupted.\<close>

inductive watched :: "watchdog \<Rightarrow> int set \<Rightarrow> bool" where
  started: "start_processes False n fork = Watches w \<Longrightarrow> inj_on fork {..<vp_count w} \<Longrightarrow> watched w (fork ` {..<vp_count w})"
| interrupted: "watched w L \<Longrightarrow> pid < 0 \<Longrightarrow> watch_turn pid intr r w = Watches w' \<Longrightarrow> watched w' L"
| replaced: "watched w L \<Longrightarrow> pid \<in> L \<Longrightarrow> r \<notin> L - {pid} \<Longrightarrow> watch_turn pid intr r w = Watches w' \<Longrightarrow>
     watched w' (if r > 0 then insert r (L - {pid}) else L - {pid})"

definition pids_ok :: "watchdog \<Rightarrow> int set \<Rightarrow> bool" where
  "pids_ok w L = (vp_count w \<le> length (vp_pids w) \<and> set (child_pids w) = L \<and> distinct (child_pids w))"

declare start_loop.simps [simp del]

lemma start_loop_table:
  "start_loop fork i w = Watches w' \<Longrightarrow> vp_count w = length (vp_pids w) \<Longrightarrow> take i (vp_pids w) = map fork [0 ..< i] \<Longrightarrow>
     (\<forall>j < i. fork j > 0) \<Longrightarrow> i \<le> vp_count w \<Longrightarrow>
     vp_count w' \<le> length (vp_pids w') \<and> take (vp_count w') (vp_pids w') = map fork [0 ..< vp_count w'] \<and>
     (\<forall>j < vp_count w'. fork j > 0)"
proof (induction fork i w rule: start_loop.induct)
  case (1 fork i w)
  show ?case
  proof (cases "i < vp_count w \<and> fork i > 0")
    case True
    have "take (i + 1) ((vp_pids w)[i := fork i]) = map fork [0 ..< i + 1]"
      using 1(3,4) True by (simp add: take_Suc_conv_app_nth)
    moreover have "\<forall>j < i + 1. fork j > 0" using 1(5) True by (auto simp: less_Suc_eq)
    moreover have "start_loop fork (i + 1) (w\<lparr>vp_pids := (vp_pids w)[i := fork i]\<rparr>) = Watches w'"
      using 1(2) True by (subst (asm) start_loop.simps) simp
    ultimately show ?thesis using 1(1) [of] 1(3) True by simp
  next
    case False
    then have "w' = w \<and> i = vp_count w \<or> w' = w\<lparr>vp_count := i\<rparr>"
      using 1(2,6) by (subst (asm) start_loop.simps) (auto split: if_split_asm)
    moreover have "take i (vp_pids w) = map fork [0 ..< i]" "i \<le> length (vp_pids w)" using 1(3,4,6) by simp_all
    ultimately show ?thesis using 1(3,5) by (elim disjE) simp_all
  qed
qed

lemma child_pids_update:
  assumes "i < vp_count w" and "vp_count w \<le> length (vp_pids w)"
  shows "child_pids (w\<lparr>vp_pids := (vp_pids w)[i := r]\<rparr>) =
     filter (\<lambda>p. p > 0) (take i (vp_pids w)) @ (if r > 0 then [r] else []) @
     filter (\<lambda>p. p > 0) (drop (i + 1) (take (vp_count w) (vp_pids w)))"
proof -
  define t where "t = take (vp_count w) (vp_pids w)"
  have "i < length t" using assms by (simp add: t_def)
  then have "t[i := r] = take i (vp_pids w) @ r # drop (i + 1) t"
    using assms(1) by (simp add: upd_conv_take_nth_drop t_def min_def)
  moreover have "take (vp_count w) ((vp_pids w)[i := r]) = t[i := r]" by (simp add: t_def take_update_swap)
  ultimately show ?thesis by (simp add: child_pids_def t_def)
qed

lemma child_found:
  assumes "pid \<in> set (child_pids w)" and "vp_count w \<le> length (vp_pids w)"
  shows "0 < pid" and "child_index w pid < vp_count w" and "vp_pids w ! child_index w pid = pid"
    and "child_pids w = filter (\<lambda>p. p > 0) (take (child_index w pid) (vp_pids w)) @ pid #
       filter (\<lambda>p. p > 0) (drop (child_index w pid + 1) (take (vp_count w) (vp_pids w)))"
proof -
  define t where "t = take (vp_count w) (vp_pids w)"
  define i where "i = child_index w pid"
  have pid: "pid \<in> set t" "0 < pid" using assms(1) by (simp_all add: child_pids_def t_def)
  have i: "i = length (takeWhile (\<lambda>p. p \<noteq> pid) t)" by (simp add: i_def child_index_def t_def)
  obtain ys zs where "t = ys @ pid # zs" "pid \<notin> set ys" using split_list_first [OF pid(1)] by blast
  then have less: "i < length t" unfolding i by (simp add: takeWhile_append)
  have nth: "t ! i = pid" using nth_length_takeWhile [of "\<lambda>p. p \<noteq> pid" t] less i by simp
  have len: "length t = vp_count w" using assms(2) by (simp add: t_def)
  show "0 < pid" by (rule pid(2))
  show "child_index w pid < vp_count w" using less len by (simp add: i_def)
  show "vp_pids w ! child_index w pid = pid" using nth less len by (simp add: t_def i_def)
  have "t = take i (vp_pids w) @ pid # drop (i + 1) t"
    using id_take_nth_drop [OF less] nth less len by (simp add: t_def min_def)
  then have "filter (\<lambda>p. p > 0) t = filter (\<lambda>p. p > 0) (take i (vp_pids w) @ pid # drop (i + 1) t)" by (rule arg_cong)
  then show "child_pids w = filter (\<lambda>p. p > 0) (take (child_index w pid) (vp_pids w)) @ pid #
       filter (\<lambda>p. p > 0) (drop (child_index w pid + 1) (take (vp_count w) (vp_pids w)))"
    using pid(2) by (simp add: child_pids_def t_def [symmetric] i_def [symmetric])
qed

text \<open>A turn for a child that ended stays within the table.\<close>

lemma watch_turn_child:
  assumes "pids_ok w L" and "pid \<in> L"
  shows "watch_turn pid intr r w =
      (if r = 0 then Child (child_index w pid) else Watches (w\<lparr>vp_pids := (vp_pids w)[child_index w pid := r]\<rparr>))"
    and "child_index w pid < vp_count w"
    and "r \<notin> L - {pid} \<Longrightarrow> pids_ok (w\<lparr>vp_pids := (vp_pids w)[child_index w pid := r]\<rparr>) (if r > 0 then insert r (L - {pid}) else L - {pid})"
proof -
  have t: "pid \<in> set (child_pids w)" "vp_count w \<le> length (vp_pids w)" "set (child_pids w) = L" "distinct (child_pids w)"
    using assms by (simp_all add: pids_ok_def)
  note f = child_found [OF t(1,2)]
  show "child_index w pid < vp_count w" by (rule f(2))
  show "watch_turn pid intr r w =
      (if r = 0 then Child (child_index w pid) else Watches (w\<lparr>vp_pids := (vp_pids w)[child_index w pid := r]\<rparr>))"
    using f(1,2) t(2) by (simp add: watch_turn_def Let_def)
  define A where "A = filter (\<lambda>p. p > 0) (take (child_index w pid) (vp_pids w))"
  define B where "B = filter (\<lambda>p. p > 0) (drop (child_index w pid + 1) (take (vp_count w) (vp_pids w)))"
  have old: "child_pids w = A @ pid # B" using f(4) by (simp only: A_def B_def)
  have new: "child_pids (w\<lparr>vp_pids := (vp_pids w)[child_index w pid := r]\<rparr>) = A @ (if r > 0 then [r] else []) @ B"
    using child_pids_update [OF f(2) t(2)] by (simp only: A_def B_def)
  have L: "L - {pid} = set A \<union> set B" "distinct (A @ B)" using t(3,4) by (auto simp: old)
  show "pids_ok (w\<lparr>vp_pids := (vp_pids w)[child_index w pid := r]\<rparr>) (if r > 0 then insert r (L - {pid}) else L - {pid})"
    if "r \<notin> L - {pid}" using that t(2) L(2) unfolding L(1) by (auto simp: pids_ok_def new)
qed

lemma start_table:
  assumes "start_processes False n fork = Watches w" and "inj_on fork {..<vp_count w}"
  shows "pids_ok w (fork ` {..<vp_count w})"
proof -
  have t: "vp_count w \<le> length (vp_pids w) \<and> take (vp_count w) (vp_pids w) = map fork [0 ..< vp_count w] \<and>
     (\<forall>j < vp_count w. fork j > 0)"
    by (rule start_loop_table [of fork 0 "\<lparr>vp_count = n, vp_pids = replicate n 0\<rparr>"])
      (use assms(1) in \<open>simp_all add: start_processes_def\<close>)
  then have c: "child_pids w = map fork [0 ..< vp_count w]" by (simp add: child_pids_def)
  have "distinct (map fork [0 ..< vp_count w])" using assms(2) by (simp add: distinct_map atLeast0LessThan)
  then show ?thesis using t c by (simp add: pids_ok_def atLeast0LessThan)
qed

lemma watched_table: "watched w L \<Longrightarrow> pids_ok w L"
proof (induction rule: watched.induct)
  case (started n fork w)
  then show ?case by (rule start_table)
next
  case (interrupted w L pid intr r w')
  then show ?case by (simp add: watch_turn_def split: if_split_asm)
next
  case (replaced w L pid r intr w')
  note t = watch_turn_child [OF replaced.IH replaced.hyps(2)]
  have "w' = w\<lparr>vp_pids := (vp_pids w)[child_index w pid := r]\<rparr>" using replaced.hyps(4) t(1) by (simp split: if_split_asm)
  then show ?case using t(3) [OF replaced.hyps(3)] by simp
qed

text \<open>C35: The watchdog knows its children.  However long it runs, the positive numbers in its table are those of the children that live,
  each once; a signal is sent on to each of them once and to no other process; and when one ends, the new child takes its place and
  its index, within the table.  There are never more children than places, and a place whose \<^verbatim>\<open>fork\<close> failed is not filled again:
  a turn for a child that ended does not increase their number.\<close>

theorem watchdog_children:
  assumes "watched w L"
  shows "set (child_pids w) = L \<and> distinct (child_pids w) \<and> card L \<le> vp_count w \<and> vp_count w \<le> length (vp_pids w) \<and>
    (\<forall>signo log fd errfd. filter (\<lambda>a. \<exists>p s. a = Kill p s) (fst (wdog_sighandler log fd signo errfd w)) = map (\<lambda>p. Kill p signo) (child_pids w)) \<and>
    (\<forall>pid \<in> L. \<forall>intr r. watch_turn pid intr r w \<noteq> Writes_Past \<and> child_index w pid < vp_count w \<and>
       (\<forall>w'. watch_turn pid intr r w = Watches w' \<longrightarrow> length (child_pids w') \<le> length (child_pids w)))"
proof -
  have t: "pids_ok w L" by (rule watched_table [OF assms])
  have "card L \<le> length (child_pids w)" using t card_length [of "child_pids w"] by (simp add: pids_ok_def)
  also have "\<dots> \<le> vp_count w"
    using length_filter_le [of "\<lambda>p. p > 0" "take (vp_count w) (vp_pids w)"] by (simp add: child_pids_def)
  finally have card: "card L \<le> vp_count w" .
  have kills: "filter (\<lambda>a. \<exists>p s. a = Kill p s) (fst (wdog_sighandler log fd signo errfd w)) = map (\<lambda>p. Kill p signo) (child_pids w)"
    for signo log fd errfd
    by (simp add: wdog_sighandler_def child_pids_def [symmetric] Let_def filter_map o_def)
  have turn: "watch_turn pid intr r w \<noteq> Writes_Past \<and> child_index w pid < vp_count w \<and>
       (\<forall>w'. watch_turn pid intr r w = Watches w' \<longrightarrow> length (child_pids w') \<le> length (child_pids w))"
    if pid: "pid \<in> L" for pid intr r
  proof -
    have s: "pid \<in> set (child_pids w)" "vp_count w \<le> length (vp_pids w)" using t pid by (simp_all add: pids_ok_def)
    have "length (child_pids (w\<lparr>vp_pids := (vp_pids w)[child_index w pid := r]\<rparr>)) \<le> length (child_pids w)"
      using child_found(4) [OF s] child_pids_update [OF child_found(2) [OF s] s(2), of r] by simp
    then show ?thesis using watch_turn_child(1,2) [OF t pid] by simp
  qed
  show ?thesis using t card kills turn by (simp add: pids_ok_def)
qed

definition two_children :: "nat \<Rightarrow> int" where "two_children i = (if i = 0 then 5 else 7)"

theorem watchdog_children_witness:
  "watched \<lparr>vp_count = 2, vp_pids = [9, 7]\<rparr> {7, 9} \<and> set (child_pids \<lparr>vp_count = 2, vp_pids = [9, 7]\<rparr>) = {7, 9}"
proof -
  have start: "start_processes False 2 two_children = Watches \<lparr>vp_count = 2, vp_pids = [5, 7]\<rparr>"
    by (simp add: start_processes_def two_children_def start_loop.simps numeral_2_eq_2)
  have "{..<2 :: nat} = {0, 1}" by auto
  then have "watched \<lparr>vp_count = 2, vp_pids = [5, 7]\<rparr> {5, 7}"
    using watched.started [OF start] by (simp add: two_children_def insert_commute)
  from watched.replaced [OF this, of 5 9 False "\<lparr>vp_count = 2, vp_pids = [9, 7]\<rparr>"]
  have w: "watched \<lparr>vp_count = 2, vp_pids = [9, 7]\<rparr> {7, 9}"
    by (simp add: watch_turn_def child_index_def insert_commute insert_Diff_if)
  then show ?thesis using watchdog_children [OF w] by simp
qed

section \<open>Options\<close>

lemma option_run_invariant:
  assumes "\<And>opt cf cf'. opt \<in> set opts \<Longrightarrow> P cf \<Longrightarrow> step opt cf = Inr cf' \<Longrightarrow> P cf'"
    and "P cf" and "option_run step opts cf = Inr cf'"
  shows "P cf'"
  using assms
proof (induction opts arbitrary: cf)
  case (Cons opt opts)
  then obtain d where d: "step opt cf = Inr d" "option_run step opts d = Inr cf'" by (auto split: sum.split_asm)
  show ?case
  proof (rule Cons.IH [OF _ _ d(2)])
    show "P d" using Cons.prems(1) [of opt cf d] Cons.prems(2) d(1) by simp
    show "P b'" if "o' \<in> set opts" "P b" "step o' b = Inr b'" for o' b b'
      using Cons.prems(1) [of o' b b'] that by simp
  qed
qed simp

text \<open>Every option is one of the specification, or a question mark.\<close>

lemma opt_letters_known: "\<forall>(c, a) \<in> set (fst (opt_letters spec cs args)). opt_spec spec c \<noteq> None \<or> c = CHR ''?''"
  by (induction spec cs args rule: opt_letters.induct) (auto split: option.split bool.split list.split prod.split)

lemma getopt_known: "(c, a) \<in> set (getopt spec args) \<Longrightarrow> opt_spec spec c \<noteq> None \<or> c = CHR ''?''"
  by (induction spec args rule: getopt.induct) (use opt_letters_known in \<open>fastforce split: if_splits\<close>)+

text \<open>The options that \<^verbatim>\<open>parse_arguments\<close> accepts are valid: between one and sixteen addresses, a process, a queue, limits that
  are not negative, and a directory for the log unless the server is interactive.\<close>

theorem options_valid:
  assumes "parse_arguments cpus args = Inr cf"
  shows "1 \<le> length (w_addrs cf) \<and> length (w_addrs cf) \<le> MAX_BIND_ADDRS \<and> 1 \<le> w_vp_count cf \<and> 1 \<le> w_listenq cf \<and>
    0 \<le> w_max_wait cf \<and> 0 \<le> w_max cf \<and> (w_logdir cf \<noteq> None \<or> w_interactive cf)"
proof -
  define P :: "web_options \<Rightarrow> bool" where "P = (\<lambda>cf. length (w_addrs cf) \<le> MAX_BIND_ADDRS \<and> 0 \<le> w_vp_count cf \<and> 1 \<le> w_listenq cf \<and>
    0 \<le> w_max_wait cf \<and> 0 \<le> w_max cf)"
  obtain cf1 where run: "option_run web_option (getopt ''b:p:l:t:u:q:aiSh'' args) web_defaults = Inr cf1"
    and cf: "w_logdir cf1 \<noteq> None \<or> w_interactive cf1"
      "cf = cf1\<lparr>w_vp_count := process_count cpus (w_vp_count cf1),
        w_addrs := (if w_addrs cf1 = [] then [''0.0.0.0''] else w_addrs cf1)\<rparr>"
    using assms by (auto simp: parse_arguments_def split: sum.split_asm if_split_asm)
  have "P cf1"
  proof (rule option_run_invariant [OF _ _ run])
    show "P web_defaults" by (simp add: P_def web_defaults_def LISTENQ_SIZE_DEFAULT_def)
    show "P d'" if "P d" "web_option opt d = Inr d'" for opt d d'
      using that by (cases opt) (auto simp: P_def web_option_def thread_limits_def Let_def split: if_split_asm)
  qed
  then show ?thesis using cf by (auto simp: P_def process_count_def MAX_BIND_ADDRS_def Suc_le_eq)
qed

theorem options_valid_witness:
  "\<exists>cf. parse_arguments 0 [''-i'', ''-t'', ''4:8'', ''-bh:80''] = Inr cf \<and> w_max_wait cf = 4 \<and> w_max cf = 8 \<and> w_addrs cf = [''h:80''] \<and>
     1 \<le> w_vp_count cf"
proof -
  obtain cf where cf: "parse_arguments 0 [''-i'', ''-t'', ''4:8'', ''-bh:80''] = Inr cf"
    and v: "w_max_wait cf = 4" "w_max cf = 8" "w_addrs cf = [''h:80'']"
    by (simp add: parse_arguments_def web_option_def web_defaults_def thread_limits_def strtol_rest_def atoi_def
        IsWhiteSpace_def is_digit_def clamp_def MAX_BIND_ADDRS_def)
  then show ?thesis using options_valid [OF cf] by simp
qed

text \<open>\<^verbatim>\<open>txctl.c\<close> runs only in interactive mode: its option for the directory of the log is missing in what it gives to \<^verbatim>\<open>getopt\<close>,
  so the directory is never set, and without it only the interactive mode is accepted.\<close>

theorem txctl_interactive:
  assumes "tx_parse_arguments args = Inr cf"
  shows "tx_interactive cf \<and> tx_logdir cf = None"
proof -
  obtain run: "option_run tx_option (getopt ''d:ih'' args) \<lparr>tx_rootdir = None, tx_logdir = None, tx_interactive = False\<rparr> = Inr cf"
    and mode: "tx_logdir cf \<noteq> None \<or> tx_interactive cf"
    using assms by (auto simp: tx_parse_arguments_def split: sum.split_asm if_split_asm)
  have "tx_logdir cf = None"
  proof (rule option_run_invariant [OF _ _ run])
    show "tx_logdir d' = None" if "opt \<in> set (getopt ''d:ih'' args)" "tx_logdir d = None" "tx_option opt d = Inr d'" for opt d d'
    proof -
      obtain c a where opt: "opt = (c, a)" by (cases opt)
      have "c \<noteq> CHR ''l''" using getopt_known [of c a "''d:ih''" args] that(1) by (auto simp: opt)
      then show ?thesis using that(2,3) by (auto simp: opt tx_option_def split: if_split_asm)
    qed
  qed simp
  then show ?thesis using mode by simp
qed

theorem txctl_interactive_witness:
  "\<exists>cf. tx_parse_arguments [''-i'', ''-d/tx''] = Inr cf \<and> tx_interactive cf \<and> tx_config_path cf = Some ''/tx/txctl.conf''"
proof -
  obtain cf where cf: "tx_parse_arguments [''-i'', ''-d/tx''] = Inr cf" "tx_config_path cf = Some ''/tx/txctl.conf''"
    by (simp add: tx_parse_arguments_def tx_option_def tx_config_path_def)
  then show ?thesis using txctl_interactive [OF cf(1)] by simp
qed

text \<open>Without a directory the path of the configuration is copied from a null pointer, and the option \<^verbatim>\<open>-l\<close> only gives the usage.\<close>

lemma txctl_no_root: "\<exists>cf. tx_parse_arguments [''-i''] = Inr cf \<and> tx_config_path cf = None"
  by (simp add: tx_parse_arguments_def tx_option_def tx_config_path_def)

lemma txctl_no_log: "tx_parse_arguments [''-l'', ''/log''] = Inl Show_Usage"
  by (simp add: tx_parse_arguments_def tx_option_def)

section \<open>Ports\<close>

text \<open>A port above 32767 is bound as it is given, but shown negative; 65536 is the default port.\<close>

lemma port_shown_negative:
  "listen_address ''h:40000'' = (''h'', 40000) \<and> sint (snd (listen_address ''h:40000'')) = -25536 \<and>
   listen_address ''h:65536'' = (''h'', 8000) \<and> listen_address '':80'' = (''0.0.0.0'', 80)"
  by (simp add: listen_address_def atoi_def IsWhiteSpace_def is_digit_def clamp_def WEB_PORT_DEFAULT_def)

section \<open>The report\<close>

lemma show_nat_length: "n < 10 ^ k \<Longrightarrow> 0 < k \<Longrightarrow> length (show_nat n) \<le> k"
proof (induction n arbitrary: k rule: show_nat.induct)
  case (1 n)
  show ?case
  proof (cases "n < 10")
    case True
    then show ?thesis using 1(3) by (subst show_nat.simps) simp
  next
    case False
    obtain j where j: "k = Suc j" using 1(3) by (cases k) auto
    have "n div 10 < 10 ^ j" using 1(2) by (simp add: j less_mult_imp_div_less)
    moreover have "0 < j" using False 1(2) by (cases j) (simp_all add: j)
    ultimately have "length (show_nat (n div 10)) \<le> j" using 1(1) False by blast
    then show ?thesis using False by (subst show_nat.simps) (simp add: j)
  qed
qed

lemma show_int_length: "fits_int i \<Longrightarrow> length (show_int i) \<le> 11"
  using show_nat_length [of "nat i" 10] show_nat_length [of "nat (- i)" 10]
  by (auto simp: fits_int_def show_int_def nat_less_iff)

definition pool_fits :: "pool \<Rightarrow> bool" where
  "pool_fits p = (fits_int (wait_threads p) \<and> fits_int (busy_threads p) \<and> fits_int (rqst_count p))"

definition report_fits :: "throttle \<Rightarrow> socket_info \<times> pool \<Rightarrow> bool" where
  "report_fits lim x =
     (length (si_addr (fst x)) \<le> 180 \<and> fits_int (si_port (fst x)) \<and> pool_fits (snd x) \<and>
      fits_int (max_wait_threads lim) \<and> fits_int (max_threads lim))"

lemma socket_text_length:
  assumes "report_fits lim (si, p)" and "i \<le> 15"
  shows "length (socket_text lim i si p) \<le> 440"
proof -
  have n: "length (show_nat i) \<le> 2" using show_nat_length [of i 2] assms(2) by simp
  have s: "length (show_int (si_port si)) \<le> 11" "length (show_int (max_wait_threads lim)) \<le> 11"
    "length (show_int (max_threads lim)) \<le> 11" "length (show_int (wait_threads p)) \<le> 11"
    "length (show_int (busy_threads p)) \<le> 11" "length (show_int (rqst_count p)) \<le> 11" "length (si_addr si) \<le> 180"
    using assms(1) show_int_length by (simp_all add: report_fits_def pool_fits_def)
  show ?thesis using n s by (simp add: socket_text_def report_line_def)
qed

lemma sockets_text_length:
  "list_all (report_fits lim) xs \<Longrightarrow> i + length xs \<le> 16 \<Longrightarrow> length (sockets_text lim i xs) \<le> 440 * length xs"
proof (induction xs arbitrary: i)
  case (Cons x xs)
  obtain si p where x: "x = (si, p)" by (cases x)
  show ?case
    using Cons.IH [of "i + 1"] Cons.prems socket_text_length [of lim si p i] by (simp add: x)
qed simp

text \<open>C36: The report of a process fits its buffer of 512 bytes for each socket when no address is longer than 180 characters.\<close>

theorem dump_fits:
  assumes "xs \<noteq> []" and "length xs \<le> MAX_BIND_ADDRS" and "list_all (report_fits lim) xs" and "fits_int (int index)" and "fits_int pid"
  shows "dump_server_info lim index pid xs = Some (dump_text lim index pid xs)"
proof -
  have "length (show_nat index) \<le> 10" using show_nat_length [of index 10] assms(4) by (simp add: fits_int_def)
  then have "length (dump_text lim index pid xs) \<le> 48 + length (sockets_text lim 0 xs)"
    using show_int_length [OF assms(5)] by (simp add: dump_text_def report_line_def)
  also have "\<dots> \<le> 48 + 440 * length xs" using sockets_text_length [OF assms(3), of 0] assms(2) by (simp add: MAX_BIND_ADDRS_def)
  also have "\<dots> < length xs * 512" using assms(1) by (cases xs) simp_all
  finally show ?thesis by (simp add: dump_server_info_def)
qed

definition tiny_limits :: throttle where
  "tiny_limits = \<lparr>max_threads = 8, max_wait_threads = 4, min_wait_threads = 2\<rparr>"

definition one_socket :: "string \<Rightarrow> socket_info \<times> pool" where
  "one_socket a =
     (\<lparr>si_addr = a, si_port = 80, si_bound = \<lparr>sin_port = 80, sin_addr = 0\<rparr>, si_backlog = 256, si_serialized = False\<rparr>,
      \<lparr>wait_threads = 4, busy_threads = 0, rqst_count = 0, places = [Accepting, Accepting, Accepting, Accepting]\<rparr>)"

theorem dump_fits_witness: "dump_server_info tiny_limits 0 77 [one_socket ''h''] \<noteq> None"
  by (subst dump_fits) (simp_all add: one_socket_def tiny_limits_def report_fits_def pool_fits_def fits_int_def MAX_BIND_ADDRS_def)

text \<open>A longer address, which nothing excludes, is written past the end of the buffer.\<close>

lemma dump_overflows: "512 \<le> length a \<Longrightarrow> dump_server_info lim index pid [one_socket a] = None"
  by (simp add: dump_server_info_def dump_text_def socket_text_def report_line_def one_socket_def)

section \<open>Messages\<close>

text \<open>The time before a message is that of the last second asked for.\<close>

lemma stamp_current:
  assumes "st_lastt s \<noteq> 0 \<longrightarrow> st_str s = time_text (localtime (st_lastt s))" and "t \<noteq> 0"
  shows "st_str (err_tstamp localtime t s) = time_text (localtime t)" and "st_lastt (err_tstamp localtime t s) = t"
  using assms by (simp_all add: err_tstamp_def)

section \<open>Sessions\<close>

text \<open>A request is counted exactly when the whole response was written; otherwise a part from its start was.\<close>

lemma session_counted:
  assumes "handle_session ans = Some (counted, out)"
  shows "(counted \<and> out = RESPONSE) \<or> (\<not> counted \<and> prefix out RESPONSE)"
proof -
  obtain rs ps ws qs where ans: "ans = (rs, ps, ws, qs)" by (cases ans)
  show ?thesis
  proof (cases "\<exists>e. u_read 512 rs ps = Some (Inl e)")
    case True
    then show ?thesis using assms by (auto simp: handle_session_def ans)
  next
    case False
    then obtain r rest where w: "u_write RESPONSE ws qs = Some (r, out, rest)" "counted = (r = Inr (int (length RESPONSE)))"
      using assms by (auto simp: handle_session_def ans split: option.split_asm sum.split_asm)
    then show ?thesis using write_all_or_error [OF w(1)] by auto
  qed
qed

end
