(* ===== verification/Lookup.thy ===== *)
theory Lookup
  imports Resolver DmXml
begin

text \<open>
  The example that looks up the names given to it (\<^verbatim>\<open>examples/lookupdns.c\<close>), a thread for each, with \<^verbatim>\<open>dns_getaddr\<close>.
\<close>

datatype printed = Out string | Err string

text \<open>\<^verbatim>\<open>inet_ntoa\<close>, and the texts of \<^verbatim>\<open>perror\<close> and \<^verbatim>\<open>herror\<close> as arguments.\<close>

fun inet_ntoa :: "nat list \<Rightarrow> string" where
  "inet_ntoa [] = []"
| "inet_ntoa [b] = show_nat b"
| "inet_ntoa (b # bs) = show_nat b @ ''.'' @ inet_ntoa bs"

definition left_field :: "nat \<Rightarrow> string \<Rightarrow> string" where
  "left_field w s = s @ replicate (w - length s) (CHR '' '')"

text \<open>\<^verbatim>\<open>do_resolve\<close>, with what the variable for the address held before and the result of \<^verbatim>\<open>dns_getaddr\<close>, which may copy fewer
  bytes than an address has; \<open>None\<close> when this does not return.\<close>

definition do_resolve :: "(int \<Rightarrow> string) \<Rightarrow> (h_errno \<Rightarrow> string) \<Rightarrow> byte list \<Rightarrow> string \<Rightarrow> query_result \<Rightarrow> printed option" where
  "do_resolve perror herror before host r =
     (case r of
        Found a \<Rightarrow>
          Some (Out (left_field 40 host @ '' '' @ inet_ntoa (map unat (a @ drop (length a) before)) @ [CHR 0x0A]))
      | Failed h e \<Rightarrow>
          Some (Err (''dns_getaddr: can'' @ [CHR 0x27] @ ''t resolve '' @ host @ '': '' @
                     (if h = NETDB_INTERNAL then perror e else herror h)))
      | _ \<Rightarrow> None)"

text \<open>\<^verbatim>\<open>main\<close>: the names whose threads are started, or that the program ends and none of them runs, since creating a thread
  does not run it; \<open>created i\<close>: the \<open>i\<close>th thread can be created.\<close>

definition lookup_main :: "bool \<Rightarrow> (nat \<Rightarrow> bool) \<Rightarrow> string list \<Rightarrow> string list option" where
  "lookup_main init_ok created hosts =
     (if hosts = [] then None
      else if \<not> init_ok then None
      else if list_all created [0 ..< length hosts] then Some hosts else None)"

text \<open>A whole address is printed whatever was there before; a short one is completed with what was there.\<close>

lemma whole_address_printed:
  assumes "length a = 4" and "length before = 4"
  shows "do_resolve perror herror before host (Found a) =
    Some (Out (left_field 40 host @ '' '' @ inet_ntoa (map unat a) @ [CHR 0x0A]))"
  using assms by (simp add: do_resolve_def)

lemma short_address_mixed:
  "do_resolve perror herror [1, 2, 3, 4] ''h'' (Found [10, 0]) =
     Some (Out (left_field 40 ''h'' @ '' '' @ ''10.0.3.4'' @ [CHR 0x0A]))"
  by (simp add: do_resolve_def show_nat.simps digit_def char_of_def bit_0)

end
