(* ===== verification/Spec2Isabelle.thy ===== *)
theory Spec2Isabelle
  imports BaseProps VpProps SchedProps IoProps MsgQueueProps DbProps ProtoProps ProxyProps XmlProps SyncProps PollProps UnixProps SessionProps XmlHandle XmlFileProps TinyStrProps SyncConfigProps ServiceProps ResolverProps WebServerProps Lookup
begin

text \<open>
  A verification development for the state-threads run-time and the servers built on it.

  The repository holds servers that share one library; its parts:

  \<^item> The run-time: user-level threads on one virtual processor, with a run queue, a sleep queue and
    completions of overlapped I/O (\<^verbatim>\<open>sched_win.cpp\<close>, \<^verbatim>\<open>sync.cpp\<close>, \<^verbatim>\<open>key.cpp\<close>, \<^verbatim>\<open>stk.cpp\<close>, \<^verbatim>\<open>io_win.cpp\<close>,
    \<^verbatim>\<open>common.h\<close>).  A thread runs until it blocks; a blocking call puts it on a queue and switches to the
    next runnable thread, or to the idle thread, which waits for completions and checks the clock.
  \<^item> Its Unix variant (\<^verbatim>\<open>sched.c\<close>, \<^verbatim>\<open>io.c\<close>), which waits for descriptors with \<^verbatim>\<open>select\<close>.
  \<^item> Database access (\<^verbatim>\<open>db_sqlserver.cpp\<close>): an operating system thread for each connection, which takes
    requests from a queue shared with the run-time (\<^verbatim>\<open>lock_free_queue.cpp\<close>, \<^verbatim>\<open>lock_queue.h\<close>) and posts a
    completion for the thread that waits.
  \<^item> The video server (\<^verbatim>\<open>server/\<close>): devices push frames, clients receive them; frames are shared objects
    with a count of references.
  \<^item> The synchronisation server (\<^verbatim>\<open>HMSyncPlatformServer/\<close>): requests over HTTP with an XML body, which
    change a table of users.  Both servers use the XML library in \<^verbatim>\<open>server/tinyxml*\<close>.

  \<^bold>\<open>The run-time.\<close>
  \<open>Prelude\<close> names the identifiers and error codes.  \<open>CList\<close> models the list macros of \<^verbatim>\<open>common.h\<close> over a store of
  pointers and shows that they are the list operations the other theories use.  \<open>Stk\<close> (\<^verbatim>\<open>stk.cpp\<close>) and \<open>Key\<close>
  (\<^verbatim>\<open>key.cpp\<close>) are the stacks and the private data.  \<open>Vp\<close> holds the state: \<open>st_vp\<close> is \<^verbatim>\<open>_st_this_vp\<close> with the other
  globals, \<open>st_thread\<close> the thread object.  \<open>SleepQ\<close>, \<open>Sched\<close>, \<open>Sync\<close> and \<open>Thread\<close> have one definition for each
  function of \<^verbatim>\<open>sched_win.cpp\<close> and \<^verbatim>\<open>sync.cpp\<close>; a function that blocks is split where it switches, and the second
  half runs in the state in which the thread is resumed.  \<open>Machine\<close> composes them into steps of the whole
  run-time; \<open>Inv\<close>, \<open>Block\<close> and \<open>Ops\<close> prove the invariant of every reachable state (each thread is on the queue its
  state says, the deadlines add up, owners and waiters of mutexes agree).  \<open>VpProps\<close>, \<open>MutexProps\<close> and \<open>SchedProps\<close>
  draw the consequences, with the concrete states of \<open>Run\<close> as witnesses; \<open>BaseProps\<close> is about lists, stacks and keys.
  \<open>Io\<close> and \<open>IoProps\<close> are the descriptors and the I/O calls with the completion thread.

  \<^bold>\<open>The Unix variant.\<close>
  \<open>Poll\<close> is what the portable scheduler (\<^verbatim>\<open>sched.c\<close>) has of its own: requests to poll, the sets of descriptors for
  \<^verbatim>\<open>select\<close> with their counts, and the idle thread.  The run queue, the sleep queue and the threads are those of \<open>Vp\<close>.
  \<open>PollInv\<close> proves the accounting of requests, \<open>PollProps\<close> that the idle thread wakes who is ready and what a bad
  descriptor does.  \<open>UnixIo\<close> is \<^verbatim>\<open>io.c\<close>: calls that try, poll and try again, over lists of the results of the
  system; \<open>u_netfd_free\<close> counts nested calls, of which a serialised socket needs two.  \<open>UnixProps\<close> shows
  that vectors are written like one buffer, and completely or with an error.

  \<^bold>\<open>Queues and database.\<close>
  \<open>MsgQueue\<close> has the linked queue, the array queue and the stack, with a locale \<open>fifo_queue\<close> for what their clients rely on;
  \<open>MsgQueueProps\<close> runs them against lists, and shows the interleavings the code does not survive.  \<open>DbServer\<close> and \<open>DbProps\<close>
  are the database thread and its clients; ADO is a record of functions.

  \<^bold>\<open>Video server.\<close>
  \<open>Proto\<close> is the message header and the command words, \<open>Proxy\<close> and \<open>Client\<close> the devices and clients with the counts of
  references, \<open>ProxyRefs\<close> the accounting behind \<open>ProxyProps\<close>.  \<open>Session\<close> is the login (\<^verbatim>\<open>server.cpp\<close>): it reads an XML
  message and hands the socket to the threads of a device or a client.  \<open>SessionInv\<close> lets sessions, devices and
  clients run interleaved and shows that the table of devices never holds a dangling pointer; \<open>SessionProps\<close>
  follows logins from the bytes received to the references held afterwards.

  \<^bold>\<open>XML.\<close>
  \<open>TiText\<close> is the character level (white space, names, entities, encoded text), \<open>XmlTree\<close> the document tree, \<open>XmlParse\<close> and
  \<open>XmlDoc\<close> the parser, \<open>XmlPrint\<close> the printer.  A pointer into the input is the rest of the input, with
  \<open>None\<close> for null; leaving the input is a result of its own.  The parser of elements is recursive in
  ways that are not structural, so it counts nested calls down; \<open>XmlTotal\<close> shows that \<open>2 * length p + 2\<close>
  calls are enough for every input.  \<open>TiEncode\<close> and \<open>XmlRound\<close> lead to the round trip in \<open>XmlProps\<close>.

  \<open>XmlHeap\<close> is the tree as the code keeps it: nodes that point to parent, siblings and children, with the
  operations that relink, delete and search them.  The destructor counts its nested calls down; the nesting of
  the tree plus the length of the lists of children is enough, and \<open>XmlHeapInv\<close> shows that some number always is.
  It relates the pointers to lists of children, through the circular lists of \<open>CList\<close>, and \<open>XmlHeapProps\<close> shows that
  the operations are list operations that keep every document well-formed.  \<open>XmlHandle\<close> adds the handles, which count
  children and pass null on.

  \<open>XmlFile\<close> loads documents from the bytes of a file and saves them, copies trees, and reads numbers and truth values in
  attributes.  The loop that makes line ends uniform works in place; \<open>XmlFileProps\<close> relates it to a function on
  texts, shows that a saved document is loaded again, that a copy is the same tree, and when it is not.

  \<open>TinyStr\<close> is the string class of the library (\<^verbatim>\<open>tinystr.cpp\<close>): blocks with sizes and capacities, every read and write
  of them checked.  \<open>TinyStrProps\<close> shows that objects of this class are the lists of characters that the other theories
  use, for every sequence of operations, and when they are not.

  \<^bold>\<open>Synchronisation server.\<close>
  \<open>DmXml\<close> is the wrapper around a document, \<open>SyncHttp\<close> the requests and answers (\<^verbatim>\<open>SMUSync.cpp\<close>), \<open>SyncDb\<close> the table of
  users and the session (\<^verbatim>\<open>DatabaseSync.cpp\<close>, \<^verbatim>\<open>SyncServer.cpp\<close>).  The loop over the records of a request may
  run for ever, so it is a partial function; \<open>SyncRead\<close> follows the pointer through it, and \<open>SyncProps\<close>
  shows what is read, when the loop does not end, and what is reported.

  \<open>Service\<close> is the service that supervises this server (\<^verbatim>\<open>supervision.cpp\<close>) with its log file; what the service manager answers to
  each call is an argument, and the state holds the open handles and what was asked of it.  \<open>ServiceProps\<close> bounds the log and shows
  what a turn asks for.  \<open>SyncConfig\<close> is the server around its sessions (\<^verbatim>\<open>ParseCfg.cpp\<close>, \<^verbatim>\<open>server.cpp\<close>, the tasks of
  \<^verbatim>\<open>SyncServer.cpp\<close>), \<open>SyncConfigProps\<close> that a configuration is read as it was written.

  \<^bold>\<open>Programs.\<close>
  \<open>Gateway\<close> is \<^verbatim>\<open>proxy.c\<close>: the options, the addresses, and the thread of a connection on top of \<open>UnixIo\<close>; the loop runs over
  the turns it is given and is as long as they are.  \<open>GatewayProps\<close> shows that the bytes are passed on in order and the
  sockets closed once.  \<open>Resolver\<close> is \<^verbatim>\<open>res.c\<close>, which asks name servers without blocking the process, with the functions
  of the resolver library as arguments; \<open>ResolverProps\<close> relates it to the order of queries the comments give, and
  shows which replies it accepts and what it takes from them; \<open>Lookup\<close> is the program that uses it.  \<open>WebServer\<close> is the example server
  (\<^verbatim>\<open>examples/server.c\<close>), its copy \<^verbatim>\<open>txctl.c\<close> where it differs, and the messages of \<^verbatim>\<open>error.c\<close>: processes replaced by a
  watchdog, and for each socket a pool of threads, cut where they wait.  \<open>WebServerProps\<close> shows that the pool keeps its balance for
  every sequence of events, and that the watchdog knows its children.

  \<^bold>\<open>Not modelled.\<close>
  Machine code (\<^verbatim>\<open>md.h\<close>) beyond the switch of the running thread; memory that runs out, except where the code
  handles it; the standard library, Winsock, ADO and the Windows API, whose results are arguments of
  the definitions; rows and columns of XML errors, XML streams, and floating point numbers in attributes;
  the console of the video server and the main programs, which are calls of the Windows API; the second copy of the
  XML library under \<^verbatim>\<open>HMSyncPlatformServer/\<close>, which has the same text; the programs that try the library (\<^verbatim>\<open>test/\<close> and
  \<^verbatim>\<open>examples/test.c\<close>).
\<close>

end
